(* ===== verification/Prelude.thy ===== *)
theory Prelude
  imports Main "HOL-Library.Word"
begin

text \<open>
  What the components share. The engine keeps every text and every file in a
  \<^verbatim>\<open>std::string\<close> or a byte buffer, so a byte string is a \<open>string\<close> here
  (an Isabelle \<open>char\<close> is a byte) and \<open>ord\<close> reads a byte as a number. This theory
  models the members of \<^verbatim>\<open>std::string\<close> the engine calls (\<open>npos\<close> is
  \<open>None\<close>), \<^verbatim>\<open>std::to_string\<close>, \<^verbatim>\<open>std::atoi\<close> and the C character
  classes of the "C" locale, and proves the facts about them that the component
  proofs use.
\<close>

named_theorems bytes \<comment> \<open>facts that turn the engine's bit tests on bytes into arithmetic\<close>
named_theorems search \<comment> \<open>what a search over a string returns\<close>

unbundle bit_operations_syntax

section \<open>Bytes\<close>

abbreviation ord :: "char \<Rightarrow> nat" where
  "ord c \<equiv> of_char c"

abbreviation chr :: "nat \<Rightarrow> char" where
  "chr n \<equiv> char_of n"

definition is_digit :: "char \<Rightarrow> bool" where
  "is_digit c \<longleftrightarrow> 48 \<le> ord c \<and> ord c \<le> 57"

definition is_space :: "char \<Rightarrow> bool" where
  "is_space c \<longleftrightarrow> ord c = 32 \<or> (9 \<le> ord c \<and> ord c \<le> 13)"

definition is_upper :: "char \<Rightarrow> bool" where
  "is_upper c \<longleftrightarrow> 65 \<le> ord c \<and> ord c \<le> 90"

definition is_lower :: "char \<Rightarrow> bool" where
  "is_lower c \<longleftrightarrow> 97 \<le> ord c \<and> ord c \<le> 122"

definition is_alnum :: "char \<Rightarrow> bool" where
  "is_alnum c \<longleftrightarrow> is_digit c \<or> is_upper c \<or> is_lower c"

definition is_xdigit :: "char \<Rightarrow> bool" where
  "is_xdigit c \<longleftrightarrow> is_digit c \<or> (65 \<le> ord c \<and> ord c \<le> 70) \<or> (97 \<le> ord c \<and> ord c \<le> 102)"

definition to_lower :: "char \<Rightarrow> char" where
  "to_lower c = (if is_upper c then chr (ord c + 32) else c)"

lemma ord_less [simp]: "ord c < 256"
  by simp

lemma ord_eq_iff: "c = d \<longleftrightarrow> ord c = ord d"
  by simp

lemma ord_chr [bytes]: "n < 256 \<Longrightarrow> ord (chr n) = n"
  by simp

text \<open>
  Assembling numbers from bytes: a shift and a bitwise or of a smaller number is
  arithmetic, and so is a mask of the low bits.
\<close>

lemma shift_or: "b < 2 ^ n \<Longrightarrow> push_bit n (a::nat) OR b = a * 2 ^ n + b"
proof -
  assume "b < 2 ^ n"
  then have b: "take_bit n b = b" by (simp add: take_bit_nat_eq_self)
  have "push_bit n a AND take_bit n b = 0"
    by (simp add: bit_eq_iff bit_simps)
  with b have "push_bit n a + b = push_bit n a OR b"
    by (simp add: disjunctive_add_eq_or)
  then show ?thesis by (simp add: push_bit_eq_mult)
qed

lemma and_mask_mod: "(a::nat) AND (2 ^ n - 1) = a mod 2 ^ n"
  by (metis mask_eq_exp_minus_1 take_bit_eq_mask take_bit_eq_mod)

lemma and_top_bits:
  assumes "(a::nat) < 2 ^ (n + m)"
  shows "a AND (2 ^ m - 1) * 2 ^ n = (a div 2 ^ n) * 2 ^ n"
proof -
  have a: "take_bit (n + m) a = a" using assms by (simp add: take_bit_nat_eq_self)
  have "take_bit (n + m) a AND push_bit n (mask m) = push_bit n (drop_bit n (take_bit (n + m) a))"
    by (rule bit_eqI) (auto simp: bit_simps)
  then have "a AND push_bit n (mask m) = push_bit n (drop_bit n a)" by (simp only: a)
  then show ?thesis by (simp add: push_bit_eq_mult drop_bit_eq_div mask_eq_exp_minus_1)
qed

lemma and_E0: "(c::nat) < 256 \<Longrightarrow> c AND 0xE0 = c div 32 * 32"
  using and_top_bits[of c 5 3] by simp

lemma and_F0: "(c::nat) < 256 \<Longrightarrow> c AND 0xF0 = c div 16 * 16"
  using and_top_bits[of c 4 4] by simp

lemma and_F8: "(c::nat) < 256 \<Longrightarrow> c AND 0xF8 = c div 8 * 8"
  using and_top_bits[of c 3 5] by simp

lemma and_C0: "(c::nat) < 256 \<Longrightarrow> c AND 0xC0 = c div 64 * 64"
  using and_top_bits[of c 6 2] by simp

lemma div_mult_iff:
  assumes "0 < (k::nat)"
  shows "c div k * k = q * k \<longleftrightarrow> q * k \<le> c \<and> c < (q + 1) * k"
proof -
  have "c div k * k = q * k \<longleftrightarrow> c div k = q" using assms by simp
  also have "\<dots> \<longleftrightarrow> q \<le> c div k \<and> c div k < q + 1" by auto
  also have "\<dots> \<longleftrightarrow> q * k \<le> c \<and> c < (q + 1) * k"
    using assms by (simp add: less_eq_div_iff_mult_less_eq div_less_iff_less_mult del: add_mult_distrib)
  finally show ?thesis .
qed

lemma lead_E0 [bytes]: "(c::nat) < 256 \<Longrightarrow> c AND 0xE0 = 0xC0 \<longleftrightarrow> 192 \<le> c \<and> c < 224"
  using div_mult_iff[of 32 c 6] by (simp add: and_E0)

lemma lead_F0 [bytes]: "(c::nat) < 256 \<Longrightarrow> c AND 0xF0 = 0xE0 \<longleftrightarrow> 224 \<le> c \<and> c < 240"
  using div_mult_iff[of 16 c 14] by (simp add: and_F0)

lemma lead_F8 [bytes]: "(c::nat) < 256 \<Longrightarrow> c AND 0xF8 = 0xF0 \<longleftrightarrow> 240 \<le> c \<and> c < 248"
  using div_mult_iff[of 8 c 30] by (simp add: and_F8)

lemma lead_C0 [bytes]: "(c::nat) < 256 \<Longrightarrow> c AND 0xC0 = 0x80 \<longleftrightarrow> 128 \<le> c \<and> c < 192"
  using div_mult_iff[of 64 c 2] by (simp add: and_C0)

lemma mod_sub: "q * k \<le> c \<Longrightarrow> c < (q + 1) * k \<Longrightarrow> (c::nat) mod k = c - q * k"
  by (metis add.commute add_diff_cancel_left' div_nat_eqI minus_mult_div_eq_mod mult.commute plus_1_eq_Suc)

lemma shift6_or [bytes]: "b < 64 \<Longrightarrow> push_bit 6 (a::nat) OR b = a * 64 + b"
  using shift_or[of b 6 a] by simp

lemma shift8_or [bytes]: "b < 256 \<Longrightarrow> push_bit 8 (a::nat) OR b = a * 256 + b"
  using shift_or[of b 8 a] by simp

lemma or_high_bits [bytes]:
  "b < 64 \<Longrightarrow> 0x80 OR b = 128 + (b::nat)"
  "b < 64 \<Longrightarrow> 0xC0 OR b = 192 + (b::nat)"
  "b < 32 \<Longrightarrow> 0xE0 OR b = 224 + (b::nat)"
  "b < 16 \<Longrightarrow> 0xF0 OR b = 240 + (b::nat)"
  using shift_or[of b 6 2] shift_or[of b 6 3] shift_or[of b 5 7] shift_or[of b 4 15]
  by (simp_all add: push_bit_eq_mult)

lemma and_low_bits [bytes]:
  "(a::nat) AND 0x3F = a mod 64" "a AND 0x1F = a mod 32" "a AND 0x0F = a mod 16"
  "a AND 0x07 = a mod 8" "a AND 0xFF = a mod 256"
  using and_mask_mod[of a 6] and_mask_mod[of a 5] and_mask_mod[of a 4] and_mask_mod[of a 3]
    and_mask_mod[of a 8]
  by simp_all

section \<open>Members of std::string\<close>

definition substr :: "string \<Rightarrow> nat \<Rightarrow> nat \<Rightarrow> string" where
  "substr s p n = take n (drop p s)"

fun find_str :: "string \<Rightarrow> string \<Rightarrow> nat option" where
  "find_str p [] = (if p = [] then Some 0 else None)"
| "find_str p (c # s) =
     (if take (length p) (c # s) = p then Some 0 else map_option Suc (find_str p s))"

definition find_from :: "string \<Rightarrow> string \<Rightarrow> nat \<Rightarrow> nat option" where
  "find_from p s i = (if i \<le> length s then map_option ((+) i) (find_str p (drop i s)) else None)"

fun find_idx :: "(char \<Rightarrow> bool) \<Rightarrow> string \<Rightarrow> nat option" where
  "find_idx f [] = None"
| "find_idx f (c # s) = (if f c then Some 0 else map_option Suc (find_idx f s))"

definition find_idx_from :: "(char \<Rightarrow> bool) \<Rightarrow> string \<Rightarrow> nat \<Rightarrow> nat option" where
  "find_idx_from f s i = map_option ((+) i) (find_idx f (drop i s))"

definition find_last_idx :: "(char \<Rightarrow> bool) \<Rightarrow> string \<Rightarrow> nat option" where
  "find_last_idx f s = map_option (\<lambda>k. length s - 1 - k) (find_idx f (rev s))"

fun rfind_upto :: "string \<Rightarrow> string \<Rightarrow> nat \<Rightarrow> nat option" where
  "rfind_upto p s 0 = (if take (length p) s = p then Some 0 else None)"
| "rfind_upto p s (Suc i) =
     (if Suc i + length p \<le> length s \<and> substr s (Suc i) (length p) = p then Some (Suc i)
      else rfind_upto p s i)"

definition contains :: "string \<Rightarrow> string \<Rightarrow> bool" where
  "contains hay needle \<longleftrightarrow> find_str needle hay \<noteq> None"

definition starts_with :: "string \<Rightarrow> string \<Rightarrow> bool" where
  "starts_with s p \<longleftrightarrow> take (length p) s = p"

definition at_str :: "string \<Rightarrow> nat \<Rightarrow> string \<Rightarrow> bool" where
  "at_str s i p \<longleftrightarrow> i + length p \<le> length s \<and> substr s i (length p) = p"

lemma substr_length [simp]: "length (substr s p n) = min n (length s - p)"
  by (simp add: substr_def)

lemma find_str_Some [search]:
  "find_str p s = Some k \<Longrightarrow>
     k + length p \<le> length s \<and> take (length p) (drop k s) = p \<and>
     (\<forall>j<k. take (length p) (drop j s) \<noteq> p)"
proof (induction s arbitrary: k)
  case Nil
  then show ?case by (auto split: if_splits)
next
  case (Cons c s)
  show ?case
  proof (cases "take (length p) (c # s) = p")
    case True
    then have "length p \<le> length (c # s)"
      by (metis length_take min.cobounded1)
    with True Cons.prems show ?thesis by auto
  next
    case False
    with Cons.prems obtain m where m: "find_str p s = Some m" "k = Suc m" by auto
    from Cons.IH[OF m(1)] False m(2) show ?thesis
      by (auto simp: less_Suc_eq_0_disj)
  qed
qed

lemma find_str_None [search]:
  "find_str p s = None \<Longrightarrow> j \<le> length s \<Longrightarrow> take (length p) (drop j s) \<noteq> p"
proof (induction s arbitrary: j)
  case Nil
  then show ?case by (auto split: if_splits)
next
  case (Cons c s)
  then show ?case by (cases j) (auto split: if_splits)
qed

lemma find_from_Some [search]:
  assumes "find_from p s i = Some k"
  shows "i \<le> k" and "k + length p \<le> length s" and "take (length p) (drop k s) = p"
    and "\<And>j. i \<le> j \<Longrightarrow> j < k \<Longrightarrow> take (length p) (drop j s) \<noteq> p"
proof -
  from assms obtain m where i: "i \<le> length s" and m: "find_str p (drop i s) = Some m" "k = i + m"
    by (auto simp: find_from_def split: if_splits)
  note f = find_str_Some[OF m(1)]
  show "i \<le> k" using m(2) by simp
  show "k + length p \<le> length s" using f i m(2) by (auto simp: le_diff_conv2)
  show "take (length p) (drop k s) = p" using f m(2) by (simp add: add.commute)
  fix j assume "i \<le> j" "j < k"
  then have "j - i < m" using m(2) by simp
  with f have "take (length p) (drop (j - i) (drop i s)) \<noteq> p" by blast
  with \<open>i \<le> j\<close> show "take (length p) (drop j s) \<noteq> p" by simp
qed

lemma find_idx_Some [search]:
  "find_idx f s = Some k \<longleftrightarrow> k < length s \<and> f (s ! k) \<and> (\<forall>j<k. \<not> f (s ! j))"
proof (induction s arbitrary: k)
  case Nil
  show ?case by simp
next
  case (Cons c s)
  show ?case by (cases k) (auto simp: Cons.IH less_Suc_eq_0_disj)
qed

lemma find_idx_None [search]: "find_idx f s = None \<longleftrightarrow> (\<forall>c \<in> set s. \<not> f c)"
  by (induction s) auto

lemma find_idx_take: "find_idx f s = Some k \<Longrightarrow> takeWhile (\<lambda>c. \<not> f c) s = take k s"
  by (induction s arbitrary: k) (auto split: if_splits)

lemma find_idx_drop: "find_idx f s = Some k \<Longrightarrow> drop k s = dropWhile (\<lambda>c. \<not> f c) s"
  by (induction s arbitrary: k) (auto split: if_splits)

section \<open>Numbers as text\<close>

definition digit_char :: "nat \<Rightarrow> char" where
  "digit_char d = chr (48 + d)"

fun nat_str :: "nat \<Rightarrow> string" where
  "nat_str n = (if n < 10 then [digit_char n] else nat_str (n div 10) @ [digit_char (n mod 10)])"

declare nat_str.simps [simp del]

definition int_str :: "int \<Rightarrow> string" where
  "int_str i = (if i < 0 then CHR ''-'' # nat_str (nat (- i)) else nat_str (nat i))"

definition digits_val :: "string \<Rightarrow> nat" where
  "digits_val s = foldl (\<lambda>v c. 10 * v + (ord c - 48)) 0 s"

text \<open>
  \<^verbatim>\<open>std::atoi\<close> skips white space, takes an optional sign and reads digits as far as
  they go; no digits give 0. A value outside \<open>int\<close> is undefined behaviour in C++ and an
  exact integer here.
\<close>

definition atoi :: "string \<Rightarrow> int" where
  "atoi s =
     (case dropWhile is_space s of
        [] \<Rightarrow> 0
      | c # t \<Rightarrow>
          if c = CHR ''-'' then - int (digits_val (takeWhile is_digit t))
          else if c = CHR ''+'' then int (digits_val (takeWhile is_digit t))
          else int (digits_val (takeWhile is_digit (c # t))))"

lemma is_digit_digit_char [simp]: "d < 10 \<Longrightarrow> is_digit (digit_char d)"
  by (simp add: is_digit_def digit_char_def)

lemma ord_digit_char [simp]: "d < 10 \<Longrightarrow> ord (digit_char d) = 48 + d"
  by (simp add: digit_char_def)

lemma nat_str_nonempty [simp]: "nat_str n \<noteq> []"
  by (subst nat_str.simps) simp

lemma nat_str_digits: "c \<in> set (nat_str n) \<Longrightarrow> is_digit c"
proof (induction n rule: nat_str.induct)
  case (1 n)
  then show ?case
    by (cases "n < 10") (auto simp: nat_str.simps[of n])
qed

lemma digits_val_snoc [simp]: "digits_val (s @ [c]) = 10 * digits_val s + (ord c - 48)"
  by (simp add: digits_val_def)

lemma digits_val_nat_str [simp]: "digits_val (nat_str n) = n"
proof (induction n rule: nat_str.induct)
  case (1 n)
  show ?case
  proof (cases "n < 10")
    case True
    then show ?thesis by (simp add: nat_str.simps[of n] digits_val_def)
  next
    case False
    with 1 show ?thesis by (simp add: nat_str.simps[of n])
  qed
qed

lemma digit_not_space: "is_digit c \<Longrightarrow> \<not> is_space c"
  by (simp add: is_digit_def is_space_def)

lemma digit_not_sign: "is_digit c \<Longrightarrow> c \<noteq> CHR ''-'' \<and> c \<noteq> CHR ''+''"
  by (auto simp: is_digit_def)

lemma atoi_nat_str_append:
  assumes "t = [] \<or> \<not> is_digit (hd t)"
  shows "atoi (nat_str n @ t) = int n"
proof -
  obtain c u where cu: "nat_str n = c # u" by (cases "nat_str n") auto
  have dig: "\<forall>x \<in> set (c # u). is_digit x" using nat_str_digits cu by metis
  have tw: "takeWhile is_digit (nat_str n @ t) = nat_str n"
    using assms nat_str_digits by (subst takeWhile_append2) (auto simp: takeWhile_eq_Nil_iff)
  from dig have c: "\<not> is_space c" "c \<noteq> CHR ''-''" "c \<noteq> CHR ''+''"
    using digit_not_space digit_not_sign by auto
  with tw cu show ?thesis
    by (simp add: atoi_def) (metis digits_val_nat_str)
qed

lemma atoi_nat_str [simp]: "atoi (nat_str n) = int n"
  using atoi_nat_str_append[of "[]" n] by simp

text \<open>C++ division and remainder truncate towards zero.\<close>

definition crem :: "int \<Rightarrow> int \<Rightarrow> int" where
  "crem a b = sgn a * (\<bar>a\<bar> mod \<bar>b\<bar>)"

definition cdiv :: "int \<Rightarrow> int \<Rightarrow> int" where
  "cdiv a b = sgn a * sgn b * (\<bar>a\<bar> div \<bar>b\<bar>)"

text \<open>\<^verbatim>\<open>find_first_not_of\<close> and \<^verbatim>\<open>find_last_not_of\<close> over the four blanks,
  the trimming every component of the engine writes out again.\<close>

definition is_blank :: "char \<Rightarrow> bool" where
  "is_blank c \<longleftrightarrow> c \<in> {CHR '' '', CHR 0x09, CHR 0x0D, CHR 0x0A}"

definition trim :: "string \<Rightarrow> string" where
  "trim s =
     (case find_idx (\<lambda>c. \<not> is_blank c) s of
        None \<Rightarrow> []
      | Some a \<Rightarrow> (case find_last_idx (\<lambda>c. \<not> is_blank c) s of
                    None \<Rightarrow> [] | Some b \<Rightarrow> substr s a (b + 1 - a)))"

lemma trim_id:
  assumes "s = [] \<or> \<not> is_blank (hd s) \<and> \<not> is_blank (last s)"
  shows "trim s = s"
proof (cases "s = []")
  case True
  then show ?thesis by (simp add: trim_def)
next
  case False
  with assms have h: "\<not> is_blank (hd s)" "\<not> is_blank (last s)" by auto
  from False h(1) have "find_idx (\<lambda>c. \<not> is_blank c) s = Some 0" by (cases s) auto
  moreover have "find_idx (\<lambda>c. \<not> is_blank c) (rev s) = Some 0"
    using False h(2) by (cases s rule: rev_cases) auto
  ultimately show ?thesis
    using False by (simp add: trim_def find_last_idx_def substr_def)
qed

lemma find_idx_append: "find_idx f s = Some k \<Longrightarrow> find_idx f (s @ t) = Some k"
  by (induction s arbitrary: k) (auto split: if_splits)

lemma trim_blank_Cons:
  assumes "is_blank b"
  shows "trim (b # s) = trim s"
proof (cases "find_idx (\<lambda>c. \<not> is_blank c) (rev s)")
  case None
  then have "find_idx (\<lambda>c. \<not> is_blank c) s = None" by (auto simp: find_idx_None)
  with None assms show ?thesis by (simp add: trim_def)
next
  case (Some k)
  then have k: "k < length s" by (auto simp: find_idx_Some)
  from Some have "find_idx (\<lambda>c. \<not> is_blank c) s \<noteq> None"
    by (metis find_idx_None option.distinct(1) set_rev)
  then obtain a where "find_idx (\<lambda>c. \<not> is_blank c) s = Some a" by auto
  with Some k assms show ?thesis
    by (simp add: trim_def find_last_idx_def find_idx_append substr_def Suc_diff_le)
qed

text \<open>The hash of \<^verbatim>\<open>util.hh\<close>.\<close>

definition fnv1a32 :: "string \<Rightarrow> 32 word" where
  "fnv1a32 s = foldl (\<lambda>h c. (h XOR word_of_nat (ord c)) * 16777619) 2166136261 s"

lemma find_str_append: "find_str p s = Some k \<Longrightarrow> find_str p (s @ t) = Some k"
proof (induction s arbitrary: k)
  case Nil
  then show ?case by (cases t) (auto split: if_splits)
next
  case (Cons c s)
  then show ?case
  proof (cases "take (length p) (c # s) = p")
    case True
    then have "take (length p) ((c # s) @ t) = p" by (metis length_take min_def take_append append_Nil2 diff_is_0_eq' nle_le take0)
    then show ?thesis using Cons.prems True by simp
  next
    case False
    then obtain m where m: "find_str p s = Some m" "k = Suc m" using Cons.prems by auto
    then have "find_str p (s @ t) = Some m" using Cons.IH by blast
    moreover have "take (length p) ((c # s) @ t) = take (length p) (c # s)"
      using find_str_Some[OF m(1)] unfolding take_append by simp
    ultimately show ?thesis using m False by simp
  qed
qed

lemma find_append: "find P (xs @ ys) = (case find P xs of Some x \<Rightarrow> Some x | None \<Rightarrow> find P ys)"
  by (induction xs) auto

section \<open>Splitting and joining\<close>

text \<open>
  The engine's list syntaxes are read by loops of the same shape: find the separator,
  take the part before it, go on after it. On a text that is a list of parts joined by
  the separator, such a loop sees exactly the parts.
\<close>

fun split_on :: "char \<Rightarrow> string \<Rightarrow> string list" where
  "split_on sep [] = [[]]"
| "split_on sep (c # s) =
     (if c = sep then [] # split_on sep s
      else (case split_on sep s of [] \<Rightarrow> [[c]] | p # ps \<Rightarrow> (c # p) # ps))"

fun join_with :: "string \<Rightarrow> string list \<Rightarrow> string" where
  "join_with sep [] = []"
| "join_with sep [p] = p"
| "join_with sep (p # q # ps) = p @ sep @ join_with sep (q # ps)"

lemma join_with_hd:
  "ps \<noteq> [] \<Longrightarrow> hd ps \<noteq> [] \<Longrightarrow> join_with sep ps \<noteq> [] \<and> hd (join_with sep ps) = hd (hd ps)"
  by (induction ps rule: induct_list012) auto

lemma join_with_set: "set (join_with sep ps) \<subseteq> set sep \<union> (\<Union>p \<in> set ps. set p)"
  by (induction ps rule: induct_list012) auto

lemma join_with_append:
  "xs \<noteq> [] \<Longrightarrow> ys \<noteq> [] \<Longrightarrow> join_with sep (xs @ ys) = join_with sep xs @ sep @ join_with sep ys"
proof (induction xs rule: induct_list012)
  case (2 x)
  then show ?case by (cases ys) auto
qed simp_all

lemma split_on_nonempty [simp]: "split_on sep s \<noteq> []"
  by (induction s) (auto split: list.splits)

lemma split_on_append:
  "sep \<notin> set p \<Longrightarrow> split_on sep (p @ sep # s) = p # split_on sep s"
  by (induction p) auto

lemma split_on_none: "sep \<notin> set p \<Longrightarrow> split_on sep p = [p]"
  by (induction p) auto

lemma split_on_parts: "p \<in> set (split_on sep s) \<Longrightarrow> sep \<notin> set p"
  by (induction s arbitrary: p) (auto split: if_splits list.splits)

lemma join_split_on: "join_with [sep] (split_on sep s) = s"
proof (induction s)
  case Nil
  show ?case by simp
next
  case (Cons c s)
  obtain p ps where ps: "split_on sep s = p # ps"
    by (cases "split_on sep s") auto
  show ?case
    using Cons.IH ps by (cases ps) auto
qed

lemma split_on_join:
  assumes "ps \<noteq> []" and "\<And>p. p \<in> set ps \<Longrightarrow> sep \<notin> set p"
  shows "split_on sep (join_with [sep] ps) = ps"
  using assms
proof (induction ps rule: induct_list012)
  case (3 p q ps)
  then show ?case by (simp add: split_on_append)
qed (simp_all add: split_on_none)

text \<open>A text printed with comma and space is read back by comma with the blanks left in.\<close>

lemma split_on_join_spaced:
  assumes "ps \<noteq> []" and "\<And>p. p \<in> set ps \<Longrightarrow> CHR '','' \<notin> set p"
  shows "split_on CHR '','' (join_with '', '' ps) = hd ps # map ((#) CHR '' '') (tl ps)"
  using assms
proof (induction ps rule: induct_list012)
  case (3 p q ps)
  then have "split_on CHR '','' (join_with '', '' (p # q # ps)) =
      p # split_on CHR '','' (CHR '' '' # join_with '', '' (q # ps))"
    by (simp add: split_on_append)
  with 3 show ?case by simp
qed (simp_all add: split_on_none)

end
