(* ===== verification/Utf8.thy ===== *)
theory Utf8
  imports Prelude
begin

text \<open>
  The engine's Unicode routines: the encoder \<^verbatim>\<open>utf8Of\<close> of
  \<^verbatim>\<open>textextract.cpp\<close> and its twin in the JSON reader, the validator
  \<^verbatim>\<open>validUtf8\<close> and the private-use scrubber \<^verbatim>\<open>stripPuaUtf8\<close> of
  \<^verbatim>\<open>util.hh\<close>, and the UTF-16BE decoder of ToUnicode maps. A loop over an index
  \<open>i\<close> is a recursion over the bytes from \<open>i\<close> on. Code points are
  \<^verbatim>\<open>uint32_t\<close> in the source and \<open>nat\<close> here: no operation on them can leave the
  32-bit range, since at most 21 bits are ever assembled.
\<close>

unbundle bit_operations_syntax

section \<open>Definitions\<close>

definition utf8Of :: "nat \<Rightarrow> string" where
  "utf8Of cp =
     (if cp < 0x80 then [chr cp]
      else if cp < 0x800 then
        [chr (0xC0 OR drop_bit 6 cp), chr (0x80 OR (cp AND 0x3F))]
      else if cp < 0x10000 then
        [chr (0xE0 OR drop_bit 12 cp), chr (0x80 OR (drop_bit 6 cp AND 0x3F)),
         chr (0x80 OR (cp AND 0x3F))]
      else if cp < 0x110000 then
        [chr (0xF0 OR drop_bit 18 cp), chr (0x80 OR (drop_bit 12 cp AND 0x3F)),
         chr (0x80 OR (drop_bit 6 cp AND 0x3F)), chr (0x80 OR (cp AND 0x3F))]
      else [])"

text \<open>The first byte gives the length and the top bits; \<open>None\<close> is the early return.\<close>

definition utf8_lead :: "nat \<Rightarrow> (nat \<times> nat) option" where
  "utf8_lead c =
     (if c < 0x80 then Some (1, c)
      else if c AND 0xE0 = 0xC0 then Some (2, c AND 0x1F)
      else if c AND 0xF0 = 0xE0 then Some (3, c AND 0x0F)
      else if c AND 0xF8 = 0xF0 then Some (4, c AND 0x07)
      else None)"

fun utf8_tail :: "nat \<Rightarrow> string \<Rightarrow> nat option" where
  "utf8_tail cp [] = Some cp"
| "utf8_tail cp (c # cs) =
     (if ord c AND 0xC0 \<noteq> 0x80 then None
      else utf8_tail (push_bit 6 cp OR (ord c AND 0x3F)) cs)"

definition utf8_step :: "string \<Rightarrow> (nat \<times> nat) option" where
  "utf8_step s =
     (case utf8_lead (ord (hd s)) of
        None \<Rightarrow> None
      | Some (len, cp0) \<Rightarrow>
          if len > length s then None
          else (case utf8_tail cp0 (take (len - 1) (tl s)) of
                  None \<Rightarrow> None
                | Some cp \<Rightarrow>
                    if len = 2 \<and> cp < 0x80 then None
                    else if len = 3 \<and> cp < 0x800 then None
                    else if len = 4 \<and> cp < 0x10000 then None
                    else if cp > 0x10FFFF \<or> (0xD800 \<le> cp \<and> cp \<le> 0xDFFF) then None
                    else Some (len, cp)))"

lemma utf8_lead_len: "utf8_lead c = Some (len, cp) \<Longrightarrow> 1 \<le> len \<and> len \<le> 4"
  by (auto simp: utf8_lead_def split: if_splits)

lemma utf8_step_len: "utf8_step s = Some (len, cp) \<Longrightarrow> 1 \<le> len \<and> len \<le> length s"
  by (auto simp: utf8_step_def dest: utf8_lead_len split: option.splits if_splits)

function validUtf8 :: "string \<Rightarrow> bool" where
  "validUtf8 s =
     (if s = [] then True
      else (case utf8_step s of None \<Rightarrow> False | Some (len, cp) \<Rightarrow> validUtf8 (drop len s)))"
  by pat_completeness auto
termination
proof (relation "measure length")
  fix s :: string and p len cp
  assume "s \<noteq> []" "utf8_step s = Some p" "(len, cp) = p"
  then show "(drop len s, s) \<in> measure length"
    using utf8_step_len[of s len cp] by auto
qed simp

declare validUtf8.simps [simp del]

definition isPuaCodepoint :: "nat \<Rightarrow> bool" where
  "isPuaCodepoint cp \<longleftrightarrow>
     (0xE000 \<le> cp \<and> cp \<le> 0xF8FF) \<or> (0xF0000 \<le> cp \<and> cp \<le> 0xFFFFD) \<or>
     (0x100000 \<le> cp \<and> cp \<le> 0x10FFFD)"

text \<open>
  The scrubber trusts its input: it takes the length from the first byte, assembles the
  code point without checking the continuation bytes, and stops at a truncated tail. The
  flag is the \<^verbatim>\<open>changed\<close> out-parameter, which the code only ever sets.
\<close>

definition pua_len :: "nat \<Rightarrow> nat" where
  "pua_len c =
     (if c < 0x80 then 1 else if c AND 0xE0 = 0xC0 then 2 else if c AND 0xF0 = 0xE0 then 3 else 4)"

definition pua_cp :: "nat \<Rightarrow> nat \<Rightarrow> string \<Rightarrow> nat" where
  "pua_cp c len t =
     foldl (\<lambda>cp b. push_bit 6 cp OR (ord b AND 0x3F))
       (if c < 0x80 then c else c AND drop_bit (len + 1) 0xFF) (take (len - 1) t)"

lemma pua_len_pos [simp]: "0 < pua_len c"
  by (simp add: pua_len_def)

function stripPuaUtf8 :: "string \<Rightarrow> bool \<Rightarrow> string \<times> bool" where
  "stripPuaUtf8 s changed =
     (if s = [] then ([], changed)
      else (let c = ord (hd s); len = pua_len c in
        if len > length s then ([], changed)
        else (let cp = pua_cp c len (tl s) in
          if isPuaCodepoint cp then stripPuaUtf8 (drop len s) True
          else (case stripPuaUtf8 (drop len s) changed of
                  (out, ch) \<Rightarrow> (take len s @ out, ch)))))"
  by pat_completeness auto
termination
  by (relation "measure (length \<circ> fst)") auto

declare stripPuaUtf8.simps [simp del]

section \<open>The specification: scalar values and their encodings\<close>

definition scalar :: "nat \<Rightarrow> bool" where
  "scalar cp \<longleftrightarrow> cp \<le> 0x10FFFF \<and> \<not> (0xD800 \<le> cp \<and> cp \<le> 0xDFFF)"

definition encode :: "nat list \<Rightarrow> string" where
  "encode cps = concat (map utf8Of cps)"

lemma encode_simps [simp]:
  "encode [] = []" "encode (cp # cps) = utf8Of cp @ encode cps"
  by (simp_all add: encode_def)

section \<open>The validator accepts exactly the encodings of scalar values\<close>

lemma utf8_lead_eq:
  assumes "c < 256"
  shows "utf8_lead c =
     (if c < 128 then Some (1, c)
      else if 192 \<le> c \<and> c < 224 then Some (2, c - 192)
      else if 224 \<le> c \<and> c < 240 then Some (3, c - 224)
      else if 240 \<le> c \<and> c < 248 then Some (4, c - 240)
      else None)"
  using assms mod_sub[of 6 32 c] mod_sub[of 14 16 c] mod_sub[of 30 8 c]
  by (simp add: utf8_lead_def bytes)

lemma utf8_tail_Cons:
  "utf8_tail cp (c # cs) =
     (if 128 \<le> ord c \<and> ord c < 192 then utf8_tail (cp * 64 + (ord c - 128)) cs else None)"
  using mod_sub[of 2 64 "ord c"] shift6_or[of "ord c - 128" cp] by (auto simp: bytes)

lemmas utf8_tail_eq = utf8_tail.simps(1) utf8_tail_Cons

declare utf8_tail.simps(2) [simp del]

text \<open>The encoder in arithmetic.\<close>

lemma utf8Of_eq:
  "utf8Of cp =
     (if cp < 128 then [chr cp]
      else if cp < 2048 then [chr (192 + cp div 64), chr (128 + cp mod 64)]
      else if cp < 65536 then
        [chr (224 + cp div 4096), chr (128 + cp div 64 mod 64), chr (128 + cp mod 64)]
      else if cp < 1114112 then
        [chr (240 + cp div 262144), chr (128 + cp div 4096 mod 64),
         chr (128 + cp div 64 mod 64), chr (128 + cp mod 64)]
      else [])"
proof -
  have "cp < 2048 \<Longrightarrow> cp div 64 < 64" "cp < 65536 \<Longrightarrow> cp div 4096 < 32"
    "cp < 1114112 \<Longrightarrow> cp div 262144 < 16"
    by (simp_all add: div_less_iff_less_mult)
  then show ?thesis
    by (simp add: utf8Of_def bytes drop_bit_eq_div)
qed

lemma utf8Of_nonempty: "scalar cp \<Longrightarrow> utf8Of cp \<noteq> []"
  by (simp add: utf8Of_eq scalar_def)

text \<open>One step of the validator on an encoding reads exactly that code point.\<close>

lemma utf8_step_encode:
  assumes "scalar cp"
  shows "utf8_step (utf8Of cp @ s) = Some (length (utf8Of cp), cp)"
proof -
  consider "cp < 128" | "128 \<le> cp" "cp < 2048" | "2048 \<le> cp" "cp < 65536"
    | "65536 \<le> cp" "cp < 1114112"
    using assms by (fastforce simp: scalar_def)
  then show ?thesis
  proof cases
    case 1
    then show ?thesis by (simp add: utf8Of_eq utf8_step_def utf8_lead_eq)
  next
    case 2
    then have "cp div 64 < 32" by (simp add: div_less_iff_less_mult)
    with 2 show ?thesis
      by (simp add: utf8Of_eq utf8_step_def utf8_lead_eq utf8_tail_eq)
  next
    case 3
    then have b: "cp div 4096 < 16" by (simp add: div_less_iff_less_mult)
    have "cp div 64 div 64 * 64 + cp div 64 mod 64 = cp div 64" by simp
    then have e: "(cp div 4096 * 64 + cp div 64 mod 64) * 64 + cp mod 64 = cp"
      by (simp add: div_mult2_eq[symmetric])
    from 3 b e show ?thesis
      using assms by (simp add: utf8Of_eq utf8_step_def utf8_lead_eq utf8_tail_eq scalar_def)
  next
    case 4
    then have b: "cp div 262144 < 5" by (simp add: div_less_iff_less_mult)
    have "cp div 4096 div 64 * 64 + cp div 4096 mod 64 = cp div 4096"
      "cp div 64 div 64 * 64 + cp div 64 mod 64 = cp div 64" by simp_all
    then have e: "((cp div 262144 * 64 + cp div 4096 mod 64) * 64 + cp div 64 mod 64) * 64
        + cp mod 64 = cp"
      by (simp add: div_mult2_eq[symmetric])
    from 4 b e show ?thesis
      by (simp add: utf8Of_eq utf8_step_def utf8_lead_eq utf8_tail_eq)
  qed
qed

text \<open>
  Conversely, what a step accepts is the encoding of the code point it reports. The
  digits of a number in base 64 are unique, so the bytes are those the encoder writes.
\<close>

lemma base64_digits:
  assumes "(b::nat) < 64"
  shows "(a * 64 + b) div 64 = a" and "(a * 64 + b) mod 64 = b"
  using assms by simp_all

lemma chr_ord_diff: "k \<le> ord c \<Longrightarrow> chr (k + (ord c - k)) = c"
  by simp

lemma utf8_step_decode:
  assumes "s \<noteq> []" and "utf8_step s = Some (len, cp)"
  shows "scalar cp \<and> take len s = utf8Of cp"
proof -
  obtain c t where s: "s = c # t" using assms(1) by (cases s) auto
  obtain cp0 where lead: "utf8_lead (ord c) = Some (len, cp0)"
    and len: "len \<le> Suc (length t)"
    and tail: "utf8_tail cp0 (take (len - 1) t) = Some cp"
    and ok: "\<not> (len = 2 \<and> cp < 128)" "\<not> (len = 3 \<and> cp < 2048)" "\<not> (len = 4 \<and> cp < 65536)"
      "scalar cp"
    using assms(2) s by (auto simp: utf8_step_def scalar_def split: option.splits if_splits)
  consider "ord c < 128" "len = 1" "cp0 = ord c"
    | "192 \<le> ord c" "ord c < 224" "len = 2" "cp0 = ord c - 192"
    | "224 \<le> ord c" "ord c < 240" "len = 3" "cp0 = ord c - 224"
    | "240 \<le> ord c" "ord c < 248" "len = 4" "cp0 = ord c - 240"
    using lead by (auto simp: utf8_lead_eq split: if_splits)
  then show ?thesis
  proof cases
    case 1
    with tail ok s show ?thesis by (auto simp: utf8Of_eq)
  next
    case 2
    then obtain d u where t: "t = d # u" using len by (cases t) auto
    with tail 2 have cp: "cp = (ord c - 192) * 64 + (ord d - 128)"
      and d: "128 \<le> ord d" "ord d < 192"
      by (auto simp: utf8_tail_eq split: if_splits)
    then have "cp div 64 = ord c - 192" "cp mod 64 = ord d - 128"
      by (simp_all only: base64_digits)
    moreover have "cp < 2048" using cp d 2 by linarith
    ultimately show ?thesis using ok 2 d t s
      by (simp add: utf8Of_eq chr_ord_diff)
  next
    case 3
    then obtain d e u where t: "t = d # e # u" using len
      by (cases t; cases "tl t") auto
    with tail 3 have cp: "cp = ((ord c - 224) * 64 + (ord d - 128)) * 64 + (ord e - 128)"
      and d: "128 \<le> ord d" "ord d < 192" "128 \<le> ord e" "ord e < 192"
      by (auto simp: utf8_tail_eq split: if_splits)
    have "ord d - 128 < 64" "ord e - 128 < 64" using d by auto
    note b = this[THEN base64_digits(1)] this[THEN base64_digits(2)]
    have e: "cp div 64 = (ord c - 224) * 64 + (ord d - 128)" "cp mod 64 = ord e - 128"
      by (simp_all only: cp b)
    have f: "cp div 4096 = ord c - 224"
      using div_mult2_eq[of cp 64 64] by (simp only: e b) simp
    have g: "cp div 64 mod 64 = ord d - 128" by (simp only: e b)
    have "cp div 4096 < 16" using f 3 by auto
    then have "cp < 65536" by (simp add: div_less_iff_less_mult)
    with e f g show ?thesis using ok 3 d t s
      by (simp add: utf8Of_eq chr_ord_diff)
  next
    case 4
    then obtain d e h u where t: "t = d # e # h # u" using len
      by (cases t; cases "tl t"; cases "tl (tl t)") auto
    with tail 4 have cp: "cp = (((ord c - 240) * 64 + (ord d - 128)) * 64 + (ord e - 128)) * 64
        + (ord h - 128)"
      and d: "128 \<le> ord d" "ord d < 192" "128 \<le> ord e" "ord e < 192" "128 \<le> ord h" "ord h < 192"
      by (auto simp: utf8_tail_eq split: if_splits)
    have "ord d - 128 < 64" "ord e - 128 < 64" "ord h - 128 < 64" using d by auto
    note b = this[THEN base64_digits(1)] this[THEN base64_digits(2)]
    have e: "cp div 64 = ((ord c - 240) * 64 + (ord d - 128)) * 64 + (ord e - 128)"
      "cp mod 64 = ord h - 128"
      by (simp_all only: cp b)
    have f: "cp div 4096 = (ord c - 240) * 64 + (ord d - 128)"
      using div_mult2_eq[of cp 64 64] by (simp only: e b) simp
    have g: "cp div 262144 = ord c - 240"
      using div_mult2_eq[of cp 4096 64] by (simp only: f b) simp
    have h: "cp div 64 mod 64 = ord e - 128" "cp div 4096 mod 64 = ord d - 128"
      by (simp_all only: e f b)
    have "cp < 1114112" "65536 \<le> cp" using ok 4 by (auto simp: scalar_def)
    with e(2) g h show ?thesis using ok 4 d t s
      by (simp add: utf8Of_eq chr_ord_diff)
  qed
qed

lemma validUtf8_decode:
  "validUtf8 s \<Longrightarrow> \<exists>cps. list_all scalar cps \<and> s = encode cps"
proof (induction s rule: validUtf8.induct)
  case (1 s)
  show ?case
  proof (cases "s = []")
    case True
    then show ?thesis by (intro exI[of _ "[]"]) simp
  next
    case False
    with 1(2) obtain len cp where st: "utf8_step s = Some (len, cp)" "validUtf8 (drop len s)"
      by (subst (asm) validUtf8.simps) (auto split: option.splits)
    with 1(1) False obtain cps where "list_all scalar cps" "drop len s = encode cps" by blast
    with utf8_step_decode[OF False st(1)] show ?thesis
      by (intro exI[of _ "cp # cps"]) (simp, metis append_take_drop_id)
  qed
qed

lemma validUtf8_encode: "list_all scalar cps \<Longrightarrow> validUtf8 (encode cps)"
proof (induction cps)
  case Nil
  show ?case by (simp add: validUtf8.simps)
next
  case (Cons cp cps)
  then have "utf8_step (encode (cp # cps)) = Some (length (utf8Of cp), cp)"
    "encode (cp # cps) \<noteq> []"
    using utf8_step_encode utf8Of_nonempty by auto
  with Cons show ?case by (subst validUtf8.simps) simp
qed

text \<open>
  C39. \<^verbatim>\<open>validUtf8\<close> accepts a byte string exactly when it is the concatenation
  of the encodings, as \<^verbatim>\<open>utf8Of\<close> writes them, of a sequence of Unicode scalar
  values: overlong forms, surrogates, values above U+10FFFF and truncated or stray
  continuation bytes are all refused, and nothing else is.
\<close>

theorem validUtf8_iff_encoding:
  "validUtf8 s \<longleftrightarrow> (\<exists>cps. list_all scalar cps \<and> s = encode cps)"
  using validUtf8_decode validUtf8_encode by blast

section \<open>The private-use scrubber\<close>

lemma utf8_lead_pua:
  assumes "utf8_lead c = Some (len, cp0)"
  shows "pua_len c = len" and "(if c < 0x80 then c else c AND drop_bit (len + 1) 0xFF) = cp0"
proof -
  have "drop_bit 3 (0xFF :: nat) = 0x1F" "drop_bit 4 (0xFF :: nat) = 0x0F"
    "drop_bit 5 (0xFF :: nat) = 0x07"
    by (simp_all add: drop_bit_eq_div)
  with assms show "pua_len c = len" "(if c < 0x80 then c else c AND drop_bit (len + 1) 0xFF) = cp0"
    by (auto simp: utf8_lead_def pua_len_def split: if_splits)
qed

lemma utf8_tail_foldl:
  "utf8_tail cp t = Some r \<Longrightarrow> foldl (\<lambda>cp b. push_bit 6 cp OR (ord b AND 0x3F)) cp t = r"
  by (induction cp t rule: utf8_tail.induct) (auto simp: utf8_tail.simps(2) split: if_splits)

text \<open>Where the validator accepts a step, the scrubber reads the same code point.\<close>

lemma utf8_step_pua:
  assumes "utf8_step s = Some (len, cp)"
  shows "pua_len (ord (hd s)) = len" and "pua_cp (ord (hd s)) len (tl s) = cp"
proof -
  from assms obtain cp0 where "utf8_lead (ord (hd s)) = Some (len, cp0)"
    and "utf8_tail cp0 (take (len - 1) (tl s)) = Some cp"
    by (auto simp: utf8_step_def split: option.splits if_splits)
  then show "pua_len (ord (hd s)) = len" "pua_cp (ord (hd s)) len (tl s) = cp"
    by (auto simp: pua_cp_def utf8_lead_pua utf8_tail_foldl)
qed

lemma stripPuaUtf8_encode:
  "list_all scalar cps \<Longrightarrow>
     stripPuaUtf8 (encode cps) changed =
       (encode (filter (\<lambda>cp. \<not> isPuaCodepoint cp) cps),
        changed \<or> (\<exists>cp \<in> set cps. isPuaCodepoint cp))"
proof (induction cps arbitrary: changed)
  case Nil
  show ?case by (simp add: stripPuaUtf8.simps)
next
  case (Cons cp cps)
  let ?s = "utf8Of cp @ encode cps"
  have st: "utf8_step ?s = Some (length (utf8Of cp), cp)"
    using Cons.prems by (simp add: utf8_step_encode)
  have "?s \<noteq> []" using Cons.prems utf8Of_nonempty by simp
  then show ?case
    using Cons utf8_step_pua[OF st]
    by (subst stripPuaUtf8.simps) (auto simp: Let_def)
qed

text \<open>
  C47. On valid UTF-8 \<^verbatim>\<open>stripPuaUtf8\<close> removes exactly the private-use
  characters: the result is the encoding of the same text without them, it is valid
  UTF-8 again, and the flag is raised if and only if something was removed.
\<close>

theorem stripPuaUtf8_removes_private_use:
  assumes "list_all scalar cps"
  shows "stripPuaUtf8 (encode cps) False =
           (encode (filter (\<lambda>cp. \<not> isPuaCodepoint cp) cps), (\<exists>cp \<in> set cps. isPuaCodepoint cp))
         \<and> validUtf8 (fst (stripPuaUtf8 (encode cps) False))"
  using stripPuaUtf8_encode[OF assms, of False] assms
  by (auto intro!: validUtf8_encode simp: list_all_iff)

theorem stripPuaUtf8_removes_private_use_witness:
  "stripPuaUtf8 (encode [0x41, 0xE000, 0x20AC]) False = (encode [0x41, 0x20AC], True) \<and>
   validUtf8 (fst (stripPuaUtf8 (encode [0x41, 0xE000, 0x20AC]) False))"
  using stripPuaUtf8_removes_private_use[of "[0x41, 0xE000, 0x20AC]"]
  by (auto simp: scalar_def isPuaCodepoint_def)

end
