(* ===== verification/Page_Ranges.thy ===== *)
theory Page_Ranges
  imports Prelude
begin

text \<open>
  Page selections. \<^verbatim>\<open>util.hh\<close> prints a set of pages (\<^verbatim>\<open>pageRangeList\<close>)
  and tests a page against a selection (\<^verbatim>\<open>pageWanted\<close>); \<^verbatim>\<open>jobs.cpp\<close> has a
  second test, \<^verbatim>\<open>pageInRange\<close>, for the report filter. A loop over a position is a
  recursion over the text from that position on; the test of one comma-separated part
  stands in a definition of its own.
\<close>

section \<open>Definitions\<close>

definition lowerAscii :: "string \<Rightarrow> string" where
  "lowerAscii s = map (\<lambda>c. if is_upper c then chr (ord c - 65 + 97) else c) s"

abbreviation is_comma :: "char \<Rightarrow> bool" where
  "is_comma c \<equiv> c = CHR '',''"

abbreviation is_dash :: "char \<Rightarrow> bool" where
  "is_dash c \<equiv> c = CHR ''-''"

definition part_wanted :: "string \<Rightarrow> int \<Rightarrow> int \<Rightarrow> bool" where
  "part_wanted part page count \<longleftrightarrow>
     (part = ''odd'' \<and> crem page 2 = 1) \<or> (part = ''even'' \<and> crem page 2 = 0) \<or>
     (part = ''first'' \<and> page = 1) \<or> (part = ''last'' \<and> page = count) \<or>
     (case find_idx is_dash part of
        None \<Rightarrow> part \<noteq> [] \<and> is_digit (hd part) \<and> atoi part = page
      | Some dash \<Rightarrow>
          (let lo = (if dash = 0 then 1 else atoi part);
               hi = (if dash + 1 \<ge> length part then count
                     else if drop (dash + 1) part = ''last'' then count
                     else atoi (drop (dash + 1) part))
           in lo \<le> page \<and> page \<le> hi))"

function wanted_loop :: "string \<Rightarrow> int \<Rightarrow> int \<Rightarrow> bool" where
  "wanted_loop s page count =
     (let c = find_idx is_comma s;
          part = filter (\<lambda>x. x \<noteq> CHR '' '') (case c of None \<Rightarrow> s | Some k \<Rightarrow> take k s)
      in if part_wanted part page count then True
         else (case c of None \<Rightarrow> False | Some k \<Rightarrow> wanted_loop (drop (k + 1) s) page count))"
  by pat_completeness auto
termination
  by (relation "measure (length \<circ> fst)") (auto simp: find_idx_Some dest!: sym[of "Some _"])

declare wanted_loop.simps [simp del]

definition pageWanted :: "string \<Rightarrow> int \<Rightarrow> int \<Rightarrow> bool" where
  "pageWanted spec page count =
     (let s = lowerAscii spec in s = [] \<or> s = ''all'' \<or> wanted_loop s page count)"

definition part_in_range :: "string \<Rightarrow> int \<Rightarrow> bool" where
  "part_in_range part page \<longleftrightarrow>
     (part = ''even'' \<and> crem page 2 = 0) \<or> (part = ''odd'' \<and> crem page 2 = 1) \<or>
     (case find_idx is_dash part of
        None \<Rightarrow> atoi part \<le> page \<and> page \<le> atoi part
      | Some dash \<Rightarrow>
          (let lo = (if dash = 0 then 1 else atoi part);
               hi = (if dash + 1 \<ge> length part then 2 ^ 30 else atoi (drop (dash + 1) part))
           in lo \<le> page \<and> page \<le> hi))"

function pageInRange :: "string \<Rightarrow> int \<Rightarrow> bool" where
  "pageInRange r page =
     (if r = [] then False
      else (let c = find_idx is_comma r;
                part = trim (case c of None \<Rightarrow> r | Some k \<Rightarrow> take k r)
            in if part_in_range part page then True
               else (case c of None \<Rightarrow> False | Some k \<Rightarrow> pageInRange (drop (k + 1) r) page)))"
  by pat_completeness auto
termination
  by (relation "measure (length \<circ> fst)") (auto simp: find_idx_Some dest!: sym[of "Some _"])

declare pageInRange.simps [simp del]

text \<open>
  A \<^verbatim>\<open>std::set<int>\<close> is walked in ascending order. \<open>take_run\<close> is the inner loop,
  which follows consecutive pages; \<open>range_loop\<close> the outer one with the text so far.
\<close>

fun take_run :: "int \<Rightarrow> int list \<Rightarrow> int \<times> int list" where
  "take_run e [] = (e, [])"
| "take_run e (x # xs) = (if x = e + 1 then take_run x xs else (e, x # xs))"

lemma take_run_length: "length (snd (take_run e xs)) \<le> length xs"
  by (induction e xs rule: take_run.induct) auto

lemma take_run_snd: "(e, next) = take_run a rest \<Longrightarrow> length next < Suc (length rest)"
  using take_run_length[of a rest] by (cases "take_run a rest") auto

function range_loop :: "string \<Rightarrow> int list \<Rightarrow> string" where
  "range_loop out [] = out"
| "range_loop out (start # rest) =
     (case take_run start rest of (e, next) \<Rightarrow>
        range_loop
          ((if out = [] then out else out @ '', '') @
           (if e - start \<ge> 2 then int_str start @ ''-'' @ int_str e
            else if e = start + 1 then int_str start @ '', '' @ int_str e
            else int_str start))
          next)"
  by pat_completeness auto
termination
  by (relation "measure (length \<circ> snd)") (auto dest: take_run_snd)

definition pageRangeList :: "int set \<Rightarrow> string" where
  "pageRangeList pages =
     (if card pages = 1 then ''page '' else ''pages '') @ range_loop [] (sorted_list_of_set pages)"

section \<open>The selection loops read the comma-separated parts\<close>

lemma split_on_find:
  "split_on sep s =
     (case find_idx (\<lambda>c. c = sep) s of None \<Rightarrow> [s] | Some k \<Rightarrow> take k s # split_on sep (drop (k + 1) s))"
  by (induction s) (auto split: option.splits list.splits)

lemma wanted_loop_iff:
  "wanted_loop s page count \<longleftrightarrow>
     (\<exists>part \<in> set (split_on CHR '','' s). part_wanted (filter (\<lambda>x. x \<noteq> CHR '' '') part) page count)"
proof (induction s page count rule: wanted_loop.induct)
  case (1 s page count)
  then show ?case
    by (subst wanted_loop.simps, subst split_on_find) (auto simp: Let_def split: option.splits)
qed

lemma pageInRange_iff:
  assumes "\<forall>p \<in> set (split_on CHR '','' s). p \<noteq> []"
  shows "pageInRange s page \<longleftrightarrow> (\<exists>part \<in> set (split_on CHR '','' s). part_in_range (trim part) page)"
  using assms
proof (induction s page rule: pageInRange.induct)
  case (1 s page)
  show ?case
  proof (cases "find_idx is_comma s")
    case None
    with 1(2) have "s \<noteq> []" by auto
    with None show ?thesis
      by (subst pageInRange.simps, subst split_on_find) (simp add: Let_def)
  next
    case (Some k)
    then have s: "s \<noteq> []" by auto
    have sp: "split_on CHR '','' s = take k s # split_on CHR '','' (drop (k + 1) s)"
      using Some by (subst split_on_find) simp
    have "pageInRange (drop (k + 1) s) page \<longleftrightarrow>
        (\<exists>part \<in> set (split_on CHR '','' (drop (k + 1) s)). part_in_range (trim part) page)"
      if "\<not> part_in_range (trim (take k s)) page"
      using 1(1)[OF s, of "Some k" _ k] 1(2) Some sp that by auto
    with s Some sp show ?thesis
      by (subst pageInRange.simps) (auto simp: Let_def)
  qed
qed

section \<open>What the printer writes\<close>

fun run_items :: "int \<Rightarrow> int \<Rightarrow> string list" where
  "run_items a b =
     (if b - a \<ge> 2 then [int_str a @ ''-'' @ int_str b]
      else if b = a + 1 then [int_str a, int_str b] else [int_str a])"

function items :: "int list \<Rightarrow> string list" where
  "items [] = []"
| "items (a # rest) = (case take_run a rest of (b, next) \<Rightarrow> run_items a b @ items next)"
  by pat_completeness auto
termination
  by (relation "measure length") (auto dest: take_run_snd)

lemma run_items_join:
  "join_with '', '' (run_items a b) =
     (if b - a \<ge> 2 then int_str a @ ''-'' @ int_str b
      else if b = a + 1 then int_str a @ '', '' @ int_str b else int_str a)"
  by simp

lemma run_items_nonempty: "run_items a b \<noteq> []"
  by simp

lemma int_str_nonempty [simp]: "int_str i \<noteq> []"
  by (simp add: int_str_def)

lemma range_loop_items:
  assumes "ps = [] \<or> join_with '', '' ps \<noteq> []"
  shows "range_loop (join_with '', '' ps) xs = join_with '', '' (ps @ items xs)"
  using assms
proof (induction xs arbitrary: ps rule: items.induct)
  case 1
  then show ?case by simp
next
  case (2 a rest)
  obtain b n where tr: "take_run a rest = (b, n)" by fastforce
  let ?r = "run_items a b"
  have r: "join_with '', '' (ps @ ?r) =
      (if join_with '', '' ps = [] then [] else join_with '', '' ps @ '', '') @ join_with '', '' ?r"
    using 2(2) run_items_nonempty[of a b]
    by (cases "ps = []") (auto simp: join_with_append simp del: run_items.simps)
  have "join_with '', '' ?r \<noteq> []" by (auto simp: run_items_join)
  then have ne: "join_with '', '' (ps @ ?r) \<noteq> []" using r by auto
  have "range_loop (join_with '', '' ps) (a # rest) = range_loop (join_with '', '' (ps @ ?r)) n"
    unfolding r using tr by (auto simp: run_items_join)
  also have "\<dots> = join_with '', '' ((ps @ ?r) @ items n)"
    using 2(1)[OF tr[symmetric]] ne by blast
  finally show ?case using tr by (simp del: run_items.simps)
qed

section \<open>A printed page list selects exactly its pages\<close>

lemma no_dash_nat_str: "find_idx is_dash (nat_str n) = None"
  using nat_str_digits digit_not_sign by (auto simp: find_idx_None)

lemma dash_at: "find_idx is_dash (nat_str n @ CHR ''-'' # s) = Some (length (nat_str n))"
proof -
  have "\<forall>c \<in> set (nat_str n). c \<noteq> CHR ''-''" using nat_str_digits digit_not_sign by blast
  then show ?thesis by (simp add: find_idx_Some nth_append)
qed

lemma nat_str_not_word: "is_digit (hd w) \<longrightarrow> False \<Longrightarrow> nat_str n @ s \<noteq> w"
  using nat_str_digits[of "hd (nat_str n)" n] by (metis hd_append2 hd_in_set nat_str_nonempty)

lemma digit_words:
  "nat_str n @ s \<noteq> ''odd''" "nat_str n @ s \<noteq> ''even''" "nat_str n @ s \<noteq> ''first''"
  "nat_str n @ s \<noteq> ''last''"
  by (rule nat_str_not_word, simp add: is_digit_def)+

lemmas digit_words' = digit_words[where s = "[]", simplified]

lemma part_wanted_single: "part_wanted (nat_str n) page count \<longleftrightarrow> page = int n"
  using nat_str_digits[of "hd (nat_str n)" n]
  by (auto simp: part_wanted_def digit_words' no_dash_nat_str)

lemma part_wanted_run:
  "part_wanted (nat_str m @ CHR ''-'' # nat_str n) page count \<longleftrightarrow> int m \<le> page \<and> page \<le> int n"
  using atoi_nat_str_append[of "CHR ''-'' # nat_str n" m]
  by (auto simp: part_wanted_def digit_words digit_words' dash_at is_digit_def Let_def)

lemma part_in_range_single: "part_in_range (nat_str n) page \<longleftrightarrow> page = int n"
  by (auto simp: part_in_range_def digit_words' no_dash_nat_str)

lemma part_in_range_run:
  "part_in_range (nat_str m @ CHR ''-'' # nat_str n) page \<longleftrightarrow> int m \<le> page \<and> page \<le> int n"
  using atoi_nat_str_append[of "CHR ''-'' # nat_str n" m]
  by (auto simp: part_in_range_def digit_words dash_at is_digit_def Let_def)

text \<open>An interface for both tests: how a part names one page or a run of pages.\<close>

locale part_test =
  fixes accepts :: "string \<Rightarrow> int \<Rightarrow> bool"
  assumes single: "accepts (nat_str n) page \<longleftrightarrow> page = int n"
    and run: "accepts (nat_str m @ CHR ''-'' # nat_str n) page \<longleftrightarrow> int m \<le> page \<and> page \<le> int n"
begin

lemma run_items_accept:
  "0 \<le> a \<Longrightarrow> a \<le> b \<Longrightarrow> (\<exists>it \<in> set (run_items a b). accepts it page) \<longleftrightarrow> a \<le> page \<and> page \<le> b"
  using single[of "nat a"] single[of "nat b"] run[of "nat a" "nat b"]
  by (auto simp: int_str_def)

lemma take_run_props:
  "sorted_wrt (<) (a # xs) \<Longrightarrow> take_run a xs = (b, next) \<Longrightarrow>
     a \<le> b \<and> set (a # xs) = {a..b} \<union> set next \<and> sorted_wrt (<) next \<and> (\<forall>x \<in> set next. b < x)"
proof (induction a xs rule: take_run.induct)
  case (1 e)
  then show ?case by auto
next
  case (2 e x xs)
  show ?case
  proof (cases "x = e + 1")
    case True
    with 2 have "x \<le> b \<and> set (x # xs) = {x..b} \<union> set next \<and> sorted_wrt (<) next \<and>
        (\<forall>y \<in> set next. b < y)"
      by auto
    with True show ?thesis by auto
  next
    case False
    with 2(2,3) show ?thesis by force
  qed
qed

lemma items_accept:
  "sorted_wrt (<) xs \<Longrightarrow> (\<forall>x \<in> set xs. 0 \<le> x) \<Longrightarrow>
     (\<exists>it \<in> set (items xs). accepts it page) \<longleftrightarrow> page \<in> set xs"
proof (induction xs rule: items.induct)
  case 1
  then show ?case by simp
next
  case (2 a rest)
  obtain b n where tr: "take_run a rest = (b, n)" by fastforce
  note p = take_run_props[OF 2(2) tr]
  then have "\<forall>x \<in> set n. 0 \<le> x" using 2(3) by auto
  with 2(1)[OF tr[symmetric]] p have
    "(\<exists>it \<in> set (items n). accepts it page) \<longleftrightarrow> page \<in> set n" by auto
  moreover have "(\<exists>it \<in> set (run_items a b). accepts it page) \<longleftrightarrow> a \<le> page \<and> page \<le> b"
    using 2(3) p by (intro run_items_accept) auto
  moreover have "(\<exists>it \<in> set (items (a # rest)). accepts it page) \<longleftrightarrow>
      (\<exists>it \<in> set (run_items a b). accepts it page) \<or> (\<exists>it \<in> set (items n). accepts it page)"
    using tr by (simp add: bex_Un del: run_items.simps)
  ultimately show ?case using p by auto
qed

end

interpretation wanted: part_test "\<lambda>part page. part_wanted part page count" for count
  by unfold_locales (rule part_wanted_single, rule part_wanted_run)

interpretation inrange: part_test part_in_range
  by unfold_locales (rule part_in_range_single, rule part_in_range_run)

text \<open>The characters of a printed list, and the parts it splits into.\<close>

lemma int_str_chars: "0 \<le> i \<Longrightarrow> c \<in> set (int_str i) \<Longrightarrow> is_digit c"
  by (auto simp: int_str_def nat_str_digits)

lemma items_chars:
  "\<forall>x \<in> set xs. 0 \<le> x \<Longrightarrow> sorted_wrt (<) xs \<Longrightarrow> it \<in> set (items xs) \<Longrightarrow>
     it \<noteq> [] \<and> is_digit (hd it) \<and> is_digit (last it) \<and> (\<forall>c \<in> set it. is_digit c \<or> c = CHR ''-'')"
proof (induction xs rule: items.induct)
  case 1
  then show ?case by simp
next
  case (2 a rest)
  obtain b n where tr: "take_run a rest = (b, n)" by fastforce
  note p = inrange.take_run_props[OF 2(3) tr]
  from 2(2) p have ab: "0 \<le> a" "0 \<le> b" by auto
  have rn: "\<forall>x \<in> set n. 0 \<le> x" "sorted_wrt (<) n" using 2(2) p by auto
  have "is_digit (hd (int_str a))" "is_digit (last (int_str a))" "is_digit (last (int_str b))"
    "is_digit (hd (int_str b))"
    using int_str_chars ab by simp_all
  then have "\<forall>it \<in> set (run_items a b). it \<noteq> [] \<and> is_digit (hd it) \<and> is_digit (last it) \<and>
      (\<forall>c \<in> set it. is_digit c \<or> c = CHR ''-'')"
    using int_str_chars ab by auto
  with 2(1)[OF tr[symmetric] rn] 2(4) tr show ?case by (auto simp del: run_items.simps)
qed

lemma items_nonempty: "xs \<noteq> [] \<Longrightarrow> items xs \<noteq> []"
  by (cases xs) (auto split: prod.splits)

lemma lowerAscii_id: "(\<And>c. c \<in> set s \<Longrightarrow> \<not> is_upper c) \<Longrightarrow> lowerAscii s = s"
  by (simp add: lowerAscii_def map_idI)

lemma printed_list:
  assumes "finite S" and "S \<noteq> {}" and "\<forall>p \<in> S. 1 \<le> p"
  defines "its \<equiv> items (sorted_list_of_set S)"
  shows "range_loop [] (sorted_list_of_set S) = join_with '', '' its" and "its \<noteq> []"
    and "\<And>it. it \<in> set its \<Longrightarrow>
      it \<noteq> [] \<and> is_digit (hd it) \<and> is_digit (last it) \<and> (\<forall>c \<in> set it. is_digit c \<or> c = CHR ''-'')"
    and "(\<exists>it \<in> set its. part_wanted it page count) \<longleftrightarrow> page \<in> S"
    and "(\<exists>it \<in> set its. part_in_range it page) \<longleftrightarrow> page \<in> S"
proof -
  have sl: "sorted_wrt (<) (sorted_list_of_set S)" "set (sorted_list_of_set S) = S"
    using assms(1) by (auto simp: strict_sorted_list_of_set)
  have pos: "\<forall>x \<in> set (sorted_list_of_set S). 0 \<le> x" using assms(3) sl(2) by force
  show "range_loop [] (sorted_list_of_set S) = join_with '', '' its"
    using range_loop_items[of "[]"] by (simp add: its_def)
  have "sorted_list_of_set S \<noteq> []" using sl(2) assms(2) by force
  then show "its \<noteq> []" unfolding its_def by (rule items_nonempty)
  show "it \<in> set its \<Longrightarrow>
      it \<noteq> [] \<and> is_digit (hd it) \<and> is_digit (last it) \<and> (\<forall>c \<in> set it. is_digit c \<or> c = CHR ''-'')"
    for it using items_chars[OF pos sl(1)] by (simp add: its_def)
  show "(\<exists>it \<in> set its. part_wanted it page count) \<longleftrightarrow> page \<in> S"
    using wanted.items_accept[OF sl(1) pos] sl(2) by (simp add: its_def)
  show "(\<exists>it \<in> set its. part_in_range it page) \<longleftrightarrow> page \<in> S"
    using inrange.items_accept[OF sl(1) pos] sl(2) by (simp add: its_def)
qed

lemma list_parts:
  assumes "its \<noteq> []" and its: "\<And>it. it \<in> set its \<Longrightarrow>
      it \<noteq> [] \<and> is_digit (hd it) \<and> is_digit (last it) \<and> (\<forall>c \<in> set it. is_digit c \<or> c = CHR ''-'')"
  shows "map (filter (\<lambda>x. x \<noteq> CHR '' '')) (split_on CHR '','' (join_with '', '' its)) = its"
    and "map trim (split_on CHR '','' (join_with '', '' its)) = its"
    and "[] \<notin> set (split_on CHR '','' (join_with '', '' its))"
proof -
  have nc: "CHR '','' \<notin> set it" "CHR '' '' \<notin> set it" if "it \<in> set its" for it
    using its[OF that] by (auto simp: is_digit_def)
  have sp: "split_on CHR '','' (join_with '', '' its) = hd its # map ((#) CHR '' '') (tl its)"
    using assms(1) nc by (intro split_on_join_spaced) auto
  have nb: "\<not> is_blank c" if "is_digit c" for c
    using that by (auto simp: is_digit_def is_blank_def)
  have f: "filter (\<lambda>x. x \<noteq> CHR '' '') it = it" "trim it = it" "trim (CHR '' '' # it) = it"
    if "it \<in> set its" for it
  proof -
    show "filter (\<lambda>x. x \<noteq> CHR '' '') it = it" using nc[OF that] by (auto simp: filter_id_conv)
    show t: "trim it = it" using its[OF that] nb by (intro trim_id) auto
    have "trim (CHR '' '' # it) = trim it" by (rule trim_blank_Cons) (simp add: is_blank_def)
    with t show "trim (CHR '' '' # it) = it" by simp
  qed
  obtain p ps where ps: "its = p # ps" using assms(1) by (cases its) auto
  show "map (filter (\<lambda>x. x \<noteq> CHR '' '')) (split_on CHR '','' (join_with '', '' its)) = its"
    "map trim (split_on CHR '','' (join_with '', '' its)) = its"
    "[] \<notin> set (split_on CHR '','' (join_with '', '' its))"
    unfolding sp using f its ps by (auto simp: map_idI)
qed

text \<open>
  C40. Printing and reading page lists agree: the list \<^verbatim>\<open>pageRangeList\<close> prints
  for a non-empty set of pages (its text after the word "page" or "pages"), read back by
  \<^verbatim>\<open>pageWanted\<close> or by \<^verbatim>\<open>pageInRange\<close>, selects exactly the pages of the
  set, whatever the document's page count is.
\<close>

theorem pageRangeList_selects_its_pages:
  assumes "finite S" and "S \<noteq> {}" and "\<forall>p \<in> S. 1 \<le> p"
  shows "(pageWanted (drop (if card S = 1 then 5 else 6) (pageRangeList S)) page count \<longleftrightarrow> page \<in> S)
       \<and> (pageInRange (drop (if card S = 1 then 5 else 6) (pageRangeList S)) page \<longleftrightarrow> page \<in> S)"
proof -
  note pl = printed_list[OF assms]
  let ?its = "items (sorted_list_of_set S)"
  let ?t = "join_with '', '' ?its"
  have t: "drop (if card S = 1 then 5 else 6) (pageRangeList S) = ?t"
    by (simp add: pageRangeList_def pl(1))
  note parts = list_parts[OF pl(2,3)]
  have "\<not> is_upper c" if "c \<in> set ?t" for c
  proof -
    from that join_with_set[of "'', ''" ?its]
    consider "c \<in> set '', ''" | it where "it \<in> set ?its" "c \<in> set it" by blast
    then show ?thesis
    proof cases
      case 1
      then show ?thesis by (auto simp: is_upper_def)
    next
      case 2
      with pl(3) have "is_digit c \<or> c = CHR ''-''" by blast
      then show ?thesis by (auto simp: is_digit_def is_upper_def)
    qed
  qed
  then have low: "lowerAscii ?t = ?t" by (rule lowerAscii_id)
  have "is_digit (hd ?t)" "?t \<noteq> []"
    using join_with_hd[of ?its "'', ''"] pl(2) pl(3)[of "hd ?its"] by auto
  then have "?t \<noteq> ''all''" by (auto simp: is_digit_def)
  with low \<open>?t \<noteq> []\<close> have "pageWanted ?t page count \<longleftrightarrow>
      (\<exists>part \<in> set (split_on CHR '','' ?t). part_wanted (filter (\<lambda>x. x \<noteq> CHR '' '') part) page count)"
    by (simp add: pageWanted_def wanted_loop_iff)
  also have "\<dots> \<longleftrightarrow> (\<exists>it \<in> set (map (filter (\<lambda>x. x \<noteq> CHR '' '')) (split_on CHR '','' ?t)).
      part_wanted it page count)" by simp
  also have "\<dots> \<longleftrightarrow> (\<exists>it \<in> set ?its. part_wanted it page count)" by (simp only: parts(1))
  finally have w: "pageWanted ?t page count \<longleftrightarrow> page \<in> S" by (simp only: pl(4))
  have "pageInRange ?t page \<longleftrightarrow> (\<exists>part \<in> set (split_on CHR '','' ?t). part_in_range (trim part) page)"
    using parts(3) by (intro pageInRange_iff) metis
  also have "\<dots> \<longleftrightarrow> (\<exists>it \<in> set (map trim (split_on CHR '','' ?t)). part_in_range it page)" by simp
  also have "\<dots> \<longleftrightarrow> (\<exists>it \<in> set ?its. part_in_range it page)" by (simp only: parts(2))
  finally show ?thesis using w by (simp only: pl(5) t)
qed

theorem pageRangeList_selects_its_pages_witness:
  "pageWanted (drop 6 (pageRangeList {1, 2, 3, 7})) 3 9 \<and>
   \<not> pageInRange (drop 6 (pageRangeList {1, 2, 3, 7})) 5"
  using pageRangeList_selects_its_pages[of "{1, 2, 3, 7}" 3 9]
    pageRangeList_selects_its_pages[of "{1, 2, 3, 7}" 5 9]
  by auto

end
