(* ===== verification/Qpdf.thy ===== *)
theory Qpdf
  imports Prelude
begin

text \<open>
  The interface of the PDF library. The engine reads and writes PDF objects through QPDF, which
  is not part of the repository; every definition that reads objects takes the operations it
  calls as the record below, over a type \<open>'d\<close> of open documents and a type \<open>'h\<close> of object
  handles. An exception of the library or of a callback is a value: its message, or an
  exception that is not a \<^verbatim>\<open>std::exception\<close>.

  A small instance over plain object values stands in for the library where a property is
  evaluated on a concrete document.
\<close>

datatype exn = StdExn string | OtherExn

record ('d, 'h) qpdf =
  q_open :: "string \<Rightarrow> string \<Rightarrow> exn + 'd"
  q_root :: "'d \<Rightarrow> 'h"
  q_isDictionary :: "'h \<Rightarrow> bool"
  q_isArray :: "'h \<Rightarrow> bool"
  q_isStream :: "'h \<Rightarrow> bool"
  q_isName :: "'h \<Rightarrow> bool"
  q_isString :: "'h \<Rightarrow> bool"
  q_isInteger :: "'h \<Rightarrow> bool"
  q_isIndirect :: "'h \<Rightarrow> bool"
  q_isNull :: "'h \<Rightarrow> bool"
  q_getObjGen :: "'h \<Rightarrow> nat \<times> nat"
  q_getKey :: "'h \<Rightarrow> string \<Rightarrow> 'h"
  q_getKeys :: "'h \<Rightarrow> string list"
  q_items :: "'h \<Rightarrow> 'h list"
  q_getName :: "'h \<Rightarrow> string"
  q_getUTF8Value :: "'h \<Rightarrow> string"
  q_getIntValue :: "'h \<Rightarrow> int"
  q_getDict :: "'h \<Rightarrow> 'h"
  q_getStreamData :: "'h \<Rightarrow> exn + string"
  q_newNull :: 'h

section \<open>An instance over object values\<close>

datatype obj = ONull | OInt int | OName string | OStr string | OArr "obj list"
  | ODict "(string \<times> obj) list" | OStream "(string \<times> obj) list" string | ORef nat obj

fun deref :: "obj \<Rightarrow> obj" where
  "deref (ORef n x) = deref x"
| "deref x = x"

fun obj_key :: "obj \<Rightarrow> string \<Rightarrow> obj" where
  "obj_key x k = (case deref x of
     ODict kvs \<Rightarrow> (case map_of kvs k of Some v \<Rightarrow> v | None \<Rightarrow> ONull) | _ \<Rightarrow> ONull)"

definition obj_qpdf :: "(obj, obj) qpdf" where
  "obj_qpdf =
    \<lparr>q_open = (\<lambda>data pw. Inl (StdExn ''no parser'')),
     q_root = (\<lambda>d. d),
     q_isDictionary = (\<lambda>x. case deref x of ODict _ \<Rightarrow> True | _ \<Rightarrow> False),
     q_isArray = (\<lambda>x. case deref x of OArr _ \<Rightarrow> True | _ \<Rightarrow> False),
     q_isStream = (\<lambda>x. case deref x of OStream _ _ \<Rightarrow> True | _ \<Rightarrow> False),
     q_isName = (\<lambda>x. case deref x of OName _ \<Rightarrow> True | _ \<Rightarrow> False),
     q_isString = (\<lambda>x. case deref x of OStr _ \<Rightarrow> True | _ \<Rightarrow> False),
     q_isInteger = (\<lambda>x. case deref x of OInt _ \<Rightarrow> True | _ \<Rightarrow> False),
     q_isIndirect = (\<lambda>x. case x of ORef _ _ \<Rightarrow> True | _ \<Rightarrow> False),
     q_isNull = (\<lambda>x. deref x = ONull),
     q_getObjGen = (\<lambda>x. case x of ORef n _ \<Rightarrow> (n, 0) | _ \<Rightarrow> (0, 0)),
     q_getKey = obj_key,
     q_getKeys = (\<lambda>x. case deref x of ODict kvs \<Rightarrow> map fst kvs | _ \<Rightarrow> []),
     q_items = (\<lambda>x. case deref x of OArr xs \<Rightarrow> xs | _ \<Rightarrow> []),
     q_getName = (\<lambda>x. case deref x of OName n \<Rightarrow> n | _ \<Rightarrow> []),
     q_getUTF8Value = (\<lambda>x. case deref x of OStr s \<Rightarrow> s | _ \<Rightarrow> []),
     q_getIntValue = (\<lambda>x. case deref x of OInt i \<Rightarrow> i | _ \<Rightarrow> 0),
     q_getDict = (\<lambda>x. case deref x of OStream kvs _ \<Rightarrow> ODict kvs | _ \<Rightarrow> ONull),
     q_getStreamData = (\<lambda>x. case deref x of OStream _ d \<Rightarrow> Inr d | _ \<Rightarrow> Inl (StdExn ''not a stream'')),
     q_newNull = ONull\<rparr>"

end
