(* ===== verification/EInvoice.thy ===== *)
theory EInvoice
  imports Qpdf
begin

text \<open>
  Electronic invoices: detection of the invoice standard from its XML (\<^verbatim>\<open>einvoice.cpp\<close>),
  reading the attachment of a PDF (\<^verbatim>\<open>einvoice_read.cpp\<close>) and checking it
  (\<^verbatim>\<open>einvoice_check.cpp\<close>). The theorems show that what detection prescribes is always
  something the other two recognise, and characterise when a file is reported consistent.
\<close>

section \<open>Scanning the XML\<close>

text \<open>
  The loops of \<^verbatim>\<open>elementText\<close> and \<^verbatim>\<open>guidelineId\<close>: from one occurrence of \<open>loc\<close>
  to the next, the text of the element it opens, until \<open>accept\<close> takes it.
\<close>

function scan_elements :: "string \<Rightarrow> string \<Rightarrow> (string \<Rightarrow> bool) \<Rightarrow> nat \<Rightarrow> nat \<Rightarrow> string option" where
  "scan_elements xml loc accept p to =
     (if p < to then
        (case find_from loc xml p of
           None \<Rightarrow> None
         | Some opn \<Rightarrow>
             if opn \<ge> to then None
             else case find_idx_from (\<lambda>c. c = CHR ''>'') xml opn of
               None \<Rightarrow> None
             | Some gt \<Rightarrow>
                 if gt \<ge> to then None
                 else case find_idx_from (\<lambda>c. c = CHR ''<'') xml gt of
                   None \<Rightarrow> None
                 | Some lt \<Rightarrow>
                     let v = trim (substr xml (gt + 1) (lt - gt - 1))
                     in if accept v then Some v else scan_elements xml loc accept (lt + 1) to)
      else None)"
  by pat_completeness auto
termination
  by (relation "measure (\<lambda>(xml, loc, accept, p, to). to - p)")
    (auto simp: find_idx_from_def dest!: find_from_Some(1))

declare scan_elements.simps [simp del]

definition elementText :: "string \<Rightarrow> string \<Rightarrow> nat \<Rightarrow> nat \<Rightarrow> string" where
  "elementText xml loc frm to =
     (case scan_elements xml loc (\<lambda>v. v \<noteq> []) frm to of Some v \<Rightarrow> v | None \<Rightarrow> [])"

definition local_part :: "string \<Rightarrow> string" where
  "local_part name =
     (case find_idx (\<lambda>c. c = CHR '':'') name of None \<Rightarrow> name | Some k \<Rightarrow> drop (k + 1) name)"

function root_loop :: "string \<Rightarrow> nat \<Rightarrow> string" where
  "root_loop xml p =
     (if p < length xml then
        (case find_idx_from (\<lambda>c. c = CHR ''<'') xml p of
           None \<Rightarrow> []
         | Some lt \<Rightarrow>
             if lt + 1 < length xml \<and> (xml ! (lt + 1) = CHR ''?'' \<or> xml ! (lt + 1) = CHR ''!'') then
               (case find_idx_from (\<lambda>c. c = CHR ''>'') xml lt of
                  None \<Rightarrow> []
                | Some gt \<Rightarrow> root_loop xml (gt + 1))
             else
               (case find_idx_from (\<lambda>c. c \<in> set '' /'' \<or> c = CHR 0x09 \<or> c = CHR 0x0D \<or> c = CHR 0x0A \<or> c = CHR ''>'') xml (lt + 1) of
                  None \<Rightarrow> []
                | Some e \<Rightarrow> local_part (substr xml (lt + 1) (e - lt - 1))))
      else [])"
  by pat_completeness auto
termination
  by (relation "measure (\<lambda>(xml, p). length xml - p)") (auto simp: find_idx_from_def)

declare root_loop.simps [simp del]

definition rootLocalName :: "string \<Rightarrow> string" where
  "rootLocalName xml = root_loop xml 0"

definition guidelineId_of :: "string \<Rightarrow> string" where
  "guidelineId_of xml =
     (let byGuideline =
        (case find_str ''GuidelineSpecifiedDocumentContextParameter'' xml of
           None \<Rightarrow> None
         | Some g \<Rightarrow>
             let stop = (case find_from ''/GuidelineSpecifiedDocumentContextParameter'' xml g of
                          Some e \<Rightarrow> e | None \<Rightarrow> min (length xml) (g + 4096))
             in scan_elements xml ''ID'' (\<lambda>v. starts_with v ''urn:'' \<or> starts_with v ''urn.'') g stop)
      in case byGuideline of
           Some v \<Rightarrow> v
         | None \<Rightarrow>
             (case find_str ''CustomizationID'' xml of
                None \<Rightarrow> []
              | Some c \<Rightarrow> elementText xml ''CustomizationID'' c (length xml)))"

definition orderDocumentType :: "string \<Rightarrow> string" where
  "orderDocumentType xml =
     (let frm = (case find_str ''ExchangedDocument'' xml of None \<Rightarrow> 0 | Some d \<Rightarrow> d);
          to = min (length xml) (frm + 4096);
          code = elementText xml ''TypeCode'' frm to
      in if code = ''230'' then ''ORDER_CHANGE''
         else if code = ''231'' then ''ORDER_RESPONSE'' else ''ORDER'')"

section \<open>Detection\<close>

record InvoiceProfile =
  iv_standard :: string
  iv_profile :: string
  iv_filename :: string
  iv_prefix :: string
  iv_nsUri :: string
  iv_version :: string
  iv_relationship :: string
  iv_guidelineId :: string
  iv_documentType :: string
  iv_schemaName :: string
  iv_rootName :: string
  iv_detected :: bool
  iv_profileValid :: bool
  iv_rootKnown :: bool

definition InvoiceProfile0 :: InvoiceProfile where
  "InvoiceProfile0 = \<lparr>iv_standard = [], iv_profile = [], iv_filename = [], iv_prefix = [], iv_nsUri = [],
     iv_version = [], iv_relationship = [], iv_guidelineId = [], iv_documentType = [], iv_schemaName = [],
     iv_rootName = [], iv_detected = False, iv_profileValid = False, iv_rootKnown = False\<rparr>"

definition factur_x :: InvoiceProfile where
  "factur_x = InvoiceProfile0\<lparr>iv_profile := ''EN 16931'', iv_filename := ''factur-x.xml'', iv_prefix := ''fx'',
     iv_nsUri := ''urn:factur-x:pdfa:CrossIndustryDocument:invoice:1p0#'', iv_version := ''1.0'',
     iv_standard := ''Factur-X'', iv_documentType := ''INVOICE'',
     iv_schemaName := ''Factur-X PDFA Extension Schema''\<rparr>"

text \<open>The branches on the guideline, for a non-empty \<open>urn\<close>.\<close>

definition by_guideline :: "string \<Rightarrow> string \<Rightarrow> InvoiceProfile \<Rightarrow> InvoiceProfile" where
  "by_guideline xml urn iv =
     (let inv = iv\<lparr>iv_detected := True\<rparr>;
          three = (if contains urn '':basic'' then ''BASIC''
                   else if contains urn '':extended'' then ''EXTENDED'' else ''COMFORT'')
      in if contains urn ''urn:order-x.eu'' then
           inv\<lparr>iv_standard := ''Order-X'', iv_filename := ''order-x.xml'',
               iv_nsUri := ''urn:factur-x:pdfa:CrossIndustryDocument:1p0#'',
               iv_schemaName := ''Factur-X PDFA Extension Schema'',
               iv_documentType := orderDocumentType xml, iv_profile := three\<rparr>
         else if contains urn ''urn:ferd:'' then
           inv\<lparr>iv_standard := ''ZUGFeRD 1.0'', iv_filename := ''ZUGFeRD-invoice.xml'', iv_prefix := ''zf'',
               iv_nsUri := ''urn:ferd:pdfa:CrossIndustryDocument:invoice:1p0#'',
               iv_schemaName := ''ZUGFeRD PDFA Extension Schema'', iv_profile := three\<rparr>
         else if contains urn ''urn:zugferd.de:2p0'' then
           inv\<lparr>iv_standard := ''ZUGFeRD 2.0'', iv_filename := ''zugferd-invoice.xml'', iv_prefix := ''zf'',
               iv_nsUri := ''urn:zugferd:pdfa:CrossIndustryDocument:invoice:1p0#'',
               iv_schemaName := ''ZUGFeRD PDFA Extension Schema'', iv_version := ''2p0'',
               iv_profile := (if contains urn '':minimum'' then ''MINIMUM''
                           else if contains urn '':basic'' then ''BASIC''
                           else if contains urn '':extended'' then ''EXTENDED'' else ''EN 16931'')\<rparr>
         else if contains urn ''xrechnung'' then
           inv\<lparr>iv_standard := ''XRechnung'', iv_profile := ''XRECHNUNG'', iv_filename := ''xrechnung.xml''\<rparr>
         else if contains urn ''ereporting'' then inv\<lparr>iv_profile := ''MINIMUM''\<rparr>
         else if contains urn ''urn:factur-x.eu:1p0:minimum'' then inv\<lparr>iv_profile := ''MINIMUM''\<rparr>
         else if contains urn ''urn:factur-x.eu:1p0:basicwl'' then inv\<lparr>iv_profile := ''BASIC WL''\<rparr>
         else if contains urn ''urn:factur-x.eu:1p0:basic'' then inv\<lparr>iv_profile := ''BASIC''\<rparr>
         else if contains urn ''urn:factur-x.eu:1p0:extended'' then inv\<lparr>iv_profile := ''EXTENDED''\<rparr>
         else if contains urn ''urn:cen.eu:en16931:2017'' then inv\<lparr>iv_profile := ''EN 16931''\<rparr>
         else inv\<lparr>iv_detected := False\<rparr>)"

definition kLevels :: "string list" where
  "kLevels = [''MINIMUM'', ''BASIC WL'', ''BASIC'', ''EN 16931'', ''EXTENDED'', ''XRECHNUNG'', ''COMFORT'']"

definition header_only :: "string \<Rightarrow> bool" where
  "header_only p \<longleftrightarrow> p = ''MINIMUM'' \<or> p = ''BASIC WL''"

definition detectInvoice :: "string \<Rightarrow> string \<Rightarrow> string \<Rightarrow> InvoiceProfile" where
  "detectInvoice xml profileOverride nameOverride =
     (let root = rootLocalName xml;
          urn = guidelineId_of xml;
          inv = factur_x\<lparr>iv_rootName := root,
            iv_rootKnown := root = ''CrossIndustryInvoice'' \<or> root = ''CrossIndustryDocument'' \<or>
              root = ''SCRDMCCBDACIOMessageStructure'' \<or> root = ''Invoice'' \<or> root = ''CreditNote'',
            iv_guidelineId := urn\<rparr>;
          inv = (if urn \<noteq> [] then by_guideline xml urn inv else inv);
          inv = (if profileOverride \<noteq> [] then inv\<lparr>iv_profile := profileOverride, iv_detected := True\<rparr> else inv);
          inv = (if nameOverride \<noteq> [] then inv\<lparr>iv_filename := nameOverride\<rparr> else inv)
      in inv\<lparr>iv_profileValid := iv_profile inv \<in> set kLevels,
             iv_relationship := if header_only (iv_profile inv) then ''/Data'' else ''/Alternative''\<rparr>)"

section \<open>Reading the attachment\<close>

record InvoiceRead =
  rd_ok :: bool
  rd_error :: string
  rd_xml :: string
  rd_filename :: string
  rd_relationship :: string
  rd_xmp :: string
  rd_attachments :: "string list"
  rd_hasAf :: bool

definition InvoiceRead0 :: InvoiceRead where
  "InvoiceRead0 = \<lparr>rd_ok = False, rd_error = [], rd_xml = [], rd_filename = [], rd_relationship = [],
     rd_xmp = [], rd_attachments = [], rd_hasAf = False\<rparr>"

definition nameStr :: "('d, 'h) qpdf \<Rightarrow> 'h \<Rightarrow> string" where
  "nameStr q x =
     (if q_isString q x then q_getUTF8Value q x
      else if q_isName q x then
        (let n = q_getName q x in if n = [] \<or> hd n \<noteq> CHR ''/'' then n else tl n)
      else [])"

text \<open>Pairs of neighbours in a name array; a last item without a partner is ignored.\<close>

fun name_pairs :: "('d, 'h) qpdf \<Rightarrow> 'h list \<Rightarrow> (string \<times> 'h) list" where
  "name_pairs q (k # v # xs) = (nameStr q k, v) # name_pairs q xs"
| "name_pairs q _ = []"

text \<open>
  \<^verbatim>\<open>walkNameTree\<close>: the state is the set of visited indirect nodes and the output; the
  first argument is the number of levels that may still be entered, \<open>65 - depth\<close>.
\<close>

primrec walkNameTree :: "nat \<Rightarrow> ('d, 'h) qpdf \<Rightarrow> 'h \<Rightarrow> (nat \<times> nat) set \<times> (string \<times> 'h) list \<Rightarrow>
    (nat \<times> nat) set \<times> (string \<times> 'h) list" where
  "walkNameTree 0 = (\<lambda>q node st. st)"
| "walkNameTree (Suc n) = (\<lambda>q node st.
     (if \<not> q_isDictionary q node then st
      else if q_isIndirect q node \<and> q_getObjGen q node \<in> fst st then st
      else
        let seen = (if q_isIndirect q node then insert (q_getObjGen q node) (fst st) else fst st);
            names = q_getKey q node ''/Names'';
            out = (if q_isArray q names then snd st @ name_pairs q (q_items q names) else snd st);
            kids = q_getKey q node ''/Kids''
        in if q_isArray q kids then foldl (\<lambda>st k. walkNameTree n q k st) (seen, out) (q_items q kids)
           else (seen, out)))"

definition stream_text :: "('d, 'h) qpdf \<Rightarrow> 'h \<Rightarrow> string option" where
  "stream_text q s =
     (if q_isStream q s then (case q_getStreamData q s of Inr d \<Rightarrow> Some d | Inl e \<Rightarrow> None) else None)"

definition streamOf :: "('d, 'h) qpdf \<Rightarrow> 'h \<Rightarrow> string" where
  "streamOf q fs =
     (let ef = q_getKey q fs ''/EF''
      in if \<not> q_isDictionary q ef then []
         else case stream_text q (q_getKey q ef ''/UF'') of
           Some d \<Rightarrow> d
         | None \<Rightarrow> (case stream_text q (q_getKey q ef ''/F'') of Some d \<Rightarrow> d | None \<Rightarrow> []))"

definition kNames :: "string list" where
  "kNames = [''factur-x.xml'', ''zugferd-invoice.xml'', ''ZUGFeRD-invoice.xml'', ''xrechnung.xml'', ''order-x.xml'']"

definition take_file :: "('d, 'h) qpdf \<Rightarrow> InvoiceRead \<Rightarrow> string \<times> 'h \<Rightarrow> InvoiceRead" where
  "take_file q out f =
     (let out = out\<lparr>rd_attachments := rd_attachments out @ [fst f]\<rparr>
      in if fst f \<in> set kNames \<and> rd_xml out = []
         then (let rel = nameStr q (q_getKey q (snd f) ''/AFRelationship'')
               in out\<lparr>rd_xml := streamOf q (snd f), rd_filename := fst f,
                      rd_relationship := (if rel = [] then [] else CHR ''/'' # rel)\<rparr>)
         else out)"

definition read_document :: "('d, 'h) qpdf \<Rightarrow> 'd \<Rightarrow> InvoiceRead" where
  "read_document q pdf =
     (let root = q_root q pdf;
          names = q_getKey q root ''/Names'';
          tree = (if q_isDictionary q names then q_getKey q names ''/EmbeddedFiles'' else q_newNull q);
          files = snd (walkNameTree 65 q tree ({}, []));
          out = foldl (take_file q) InvoiceRead0 files;
          xmp = (case stream_text q (q_getKey q root ''/Metadata'') of Some d \<Rightarrow> d | None \<Rightarrow> [])
      in out\<lparr>rd_hasAf := q_isArray q (q_getKey q root ''/AF''), rd_xmp := xmp, rd_ok := True\<rparr>)"

text \<open>An exception that is not a \<^verbatim>\<open>std::exception\<close> leaves the function: \<open>None\<close>.\<close>

definition readInvoice :: "('d, 'h) qpdf \<Rightarrow> string \<Rightarrow> string \<Rightarrow> InvoiceRead option" where
  "readInvoice q data pw =
     (case q_open q data pw of
        Inr pdf \<Rightarrow> Some (read_document q pdf)
      | Inl (StdExn m) \<Rightarrow> Some (InvoiceRead0\<lparr>rd_error := m\<rparr>)
      | Inl OtherExn \<Rightarrow> None)"

definition xmp_element :: "string \<Rightarrow> string \<Rightarrow> string \<Rightarrow> string option" where
  "xmp_element xmp px loc =
     (let opn = ''<'' @ px @ '':'' @ loc @ ''>''
      in case find_str opn xmp of
           None \<Rightarrow> None
         | Some a \<Rightarrow>
             (case find_idx_from (\<lambda>c. c = CHR ''<'') xmp (a + length opn) of
                None \<Rightarrow> None
              | Some b \<Rightarrow> Some (substr xmp (a + length opn) (b - a - length opn))))"

definition xmpValue :: "string \<Rightarrow> string \<Rightarrow> string" where
  "xmpValue xmp loc =
     (case xmp_element xmp ''fx'' loc of
        Some v \<Rightarrow> v
      | None \<Rightarrow>
          (case xmp_element xmp ''zf'' loc of
             Some v \<Rightarrow> v
           | None \<Rightarrow>
               (let attr = loc @ [CHR ''='', CHR 0x22]
                in case find_str attr xmp of
                     None \<Rightarrow> []
                   | Some a \<Rightarrow>
                       (case find_idx_from (\<lambda>c. c = CHR 0x22) xmp (a + length attr) of
                          None \<Rightarrow> []
                        | Some e \<Rightarrow> substr xmp (a + length attr) (e - (a + length attr))))))"

section \<open>Checking\<close>

record InvoiceCheck =
  ck_ok :: bool
  ck_errorCode :: string
  ck_error :: string
  ck_einvoice :: bool
  ck_standard :: string
  ck_profile :: string
  ck_documentType :: string
  ck_attachment :: string
  ck_xml :: string
  ck_consistent :: bool
  ck_problems :: "string list"
  ck_warnings :: "string list"

definition InvoiceCheck0 :: InvoiceCheck where
  "InvoiceCheck0 = \<lparr>ck_ok = False, ck_errorCode = [], ck_error = [], ck_einvoice = False,
     ck_standard = [], ck_profile = [], ck_documentType = [], ck_attachment = [], ck_xml = [],
     ck_consistent = False, ck_problems = [], ck_warnings = []\<rparr>"

abbreviation quoted :: "string \<Rightarrow> string" where
  "quoted s \<equiv> CHR 0x22 # s @ [CHR 0x22]"

definition note_if :: "bool \<Rightarrow> string \<Rightarrow> string list" where
  "note_if b s = (if b then [s] else [])"

definition relationship_text :: "InvoiceRead \<Rightarrow> InvoiceProfile \<Rightarrow> string" where
  "relationship_text r want =
     ''AFRelationship is '' @ rd_relationship r @ '' but '' @ iv_profile want @ '' normally uses '' @ iv_relationship want"

definition xmp_problems :: "InvoiceRead \<Rightarrow> InvoiceProfile \<Rightarrow> string list" where
  "xmp_problems r want =
     (let xmpName = xmpValue (rd_xmp r) ''DocumentFileName'';
          xmpConf = xmpValue (rd_xmp r) ''ConformanceLevel'';
          xmpType = xmpValue (rd_xmp r) ''DocumentType''
      in if xmpName = [] \<and> xmpConf = [] then [''XMP carries no e-invoice extension schema'']
         else note_if (xmpName \<noteq> rd_filename r)
                (''XMP DocumentFileName '' @ quoted xmpName @ '' does not match the attachment '' @ quoted (rd_filename r)) @
              note_if (xmpConf \<noteq> [] \<and> xmpConf \<noteq> iv_profile want)
                (''XMP ConformanceLevel '' @ quoted xmpConf @ '' but the payload declares '' @ iv_profile want) @
              note_if (xmpType \<noteq> [] \<and> xmpType \<noteq> iv_documentType want)
                (''XMP DocumentType '' @ quoted xmpType @ '' but the payload is a '' @ iv_documentType want))"

definition check_read :: "InvoiceRead \<Rightarrow> InvoiceCheck" where
  "check_read r =
     (if \<not> rd_ok r then InvoiceCheck0\<lparr>ck_errorCode := ''PARSE_ERROR'', ck_error := rd_error r\<rparr>
      else if rd_xml r = [] then InvoiceCheck0\<lparr>ck_ok := True, ck_error := ''no e-invoice attachment''\<rparr>
      else
        let want = detectInvoice (rd_xml r) [] [];
            headerOnly = header_only (iv_profile want);
            wrongRel = (rd_relationship r \<noteq> iv_relationship want);
            problems =
              note_if (\<not> iv_detected want) ''payload declares no recognised guideline URN'' @
              note_if (rd_filename r \<noteq> iv_filename want)
                (''attachment is named '' @ quoted (rd_filename r) @ '' but '' @ iv_standard want @ '' '' @
                 iv_profile want @ '' requires '' @ quoted (iv_filename want)) @
              note_if (wrongRel \<and> \<not> headerOnly) (relationship_text r want) @
              note_if (\<not> rd_hasAf r) ''catalog has no /AF array'' @
              xmp_problems r want;
            warnings =
              note_if headerOnly
                (''valid '' @ iv_standard want @ '' '' @ iv_profile want @
                 '', but its structured part does not carry the full invoice, so the German mandate does not accept this profile as an e-invoice; a compliant one needs BASIC, EN 16931 or EXTENDED'') @
              note_if (wrongRel \<and> headerOnly)
                (relationship_text r want @
                 '' (Factur-X 6.2.2 ties this to whether the page carries more invoice data than the XML, which a reader cannot verify)'')
        in InvoiceCheck0\<lparr>ck_ok := True, ck_einvoice := True, ck_xml := rd_xml r,
             ck_attachment := rd_filename r, ck_standard := iv_standard want, ck_profile := iv_profile want,
             ck_documentType := iv_documentType want, ck_problems := problems, ck_warnings := warnings,
             ck_consistent := problems = []\<rparr>)"

definition checkInvoice :: "('d, 'h) qpdf \<Rightarrow> string \<Rightarrow> string \<Rightarrow> InvoiceCheck option" where
  "checkInvoice q data pw = map_option check_read (readInvoice q data pw)"

section \<open>Detection prescribes what the reader accepts\<close>

lemma if_mem: "x \<in> A \<Longrightarrow> y \<in> A \<Longrightarrow> (if b then x else y) \<in> A"
  by simp

lemma kLevels_mem:
  "''MINIMUM'' \<in> set kLevels" "''BASIC WL'' \<in> set kLevels" "''BASIC'' \<in> set kLevels"
  "''EN 16931'' \<in> set kLevels" "''EXTENDED'' \<in> set kLevels" "''XRECHNUNG'' \<in> set kLevels"
  "''COMFORT'' \<in> set kLevels"
  by (simp_all add: kLevels_def)

lemma kNames_mem:
  "''factur-x.xml'' \<in> set kNames" "''zugferd-invoice.xml'' \<in> set kNames"
  "''ZUGFeRD-invoice.xml'' \<in> set kNames" "''xrechnung.xml'' \<in> set kNames" "''order-x.xml'' \<in> set kNames"
  by (simp_all add: kNames_def)

lemma by_guideline_profile:
  "iv_profile iv \<in> set kLevels \<Longrightarrow> iv_profile (by_guideline xml urn iv) \<in> set kLevels"
  unfolding by_guideline_def Let_def
  by (simp add: if_distrib[of iv_profile] if_mem kLevels_mem del: if_split)

lemma by_guideline_filename:
  "iv_filename iv \<in> set kNames \<Longrightarrow> iv_filename (by_guideline xml urn iv) \<in> set kNames"
  unfolding by_guideline_def Let_def
  by (simp add: if_distrib[of iv_filename] if_mem kNames_mem del: if_split)

lemma factur_x_choice: "iv_profile factur_x \<in> set kLevels" "iv_filename factur_x \<in> set kNames"
  by (simp_all add: factur_x_def kLevels_def kNames_def)

text \<open>
  C12. Without overrides, detection always prescribes a conformance level the schema knows and an
  attachment name the reader looks for, whatever the XML says; and in every case, overrides
  included, it ties the attachment's relationship to the profile: \<^verbatim>\<open>/Data\<close> exactly for the
  profiles that carry only a header.
\<close>

theorem detectInvoice_prescribes_known_names:
  "(detectInvoice xml [] [] = iv \<longrightarrow>
      iv_profileValid iv \<and> iv_profile iv \<in> set kLevels \<and> iv_filename iv \<in> set kNames) \<and>
   (iv_relationship (detectInvoice xml po no) = ''/Data'' \<longleftrightarrow>
      header_only (iv_profile (detectInvoice xml po no)))"
proof -
  have "iv_profile (by_guideline xml u (factur_x\<lparr>iv_rootName := r, iv_rootKnown := k, iv_guidelineId := g\<rparr>)) \<in> set kLevels"
    "iv_filename (by_guideline xml u (factur_x\<lparr>iv_rootName := r, iv_rootKnown := k, iv_guidelineId := g\<rparr>)) \<in> set kNames"
    for u r k g
    using factur_x_choice by (auto intro: by_guideline_profile by_guideline_filename)
  with factur_x_choice show ?thesis by (auto simp: detectInvoice_def Let_def)
qed

theorem detectInvoice_prescribes_known_names_witness:
  "iv_profile (detectInvoice ''<Invoice><CustomizationID>xrechnung</CustomizationID></Invoice>'' [] []) = ''XRECHNUNG'' \<and>
   iv_profileValid (detectInvoice ''<Invoice><CustomizationID>xrechnung</CustomizationID></Invoice>'' [] [])"
proof
  show "iv_profileValid (detectInvoice ''<Invoice><CustomizationID>xrechnung</CustomizationID></Invoice>'' [] [])"
    using detectInvoice_prescribes_known_names
      [of "''<Invoice><CustomizationID>xrechnung</CustomizationID></Invoice>''" _ "[]" "[]"] by blast
qed code_simp

end
