(* ===== verification/Double.thy ===== *)
theory Double
  imports Prelude
begin

text \<open>
  The C++ \<open>double\<close> and the parts of the C library the engine calls on it. A finite
  value is a sign, a mantissa below \<open>2 ^ 53\<close> and an exponent, as IEEE 754 binary64 has
  them (the exponent is \<open>-1074\<close> for zeros and subnormal values, and otherwise the
  mantissa is at least \<open>2 ^ 52\<close>), so two values are equal here when they have the same
  representation. Every operation computes its exact rational result and rounds it to the
  nearest value, ties to even. \<open>strtod\<close> and the \<^verbatim>\<open>printf\<close> conversions are
  correctly rounded, as the C library's are.
\<close>

section \<open>Values and rounding\<close>

datatype double = Fin bool nat int | Inf bool | NaN

fun bits :: "nat \<Rightarrow> nat" where
  "bits n = (if n = 0 then 0 else Suc (bits (n div 2)))"

declare bits.simps [simp del]

text \<open>\<open>scaled p q b e\<close> is the fraction \<open>p / (q * b ^ e)\<close>, for a negative \<open>e\<close> too.\<close>

definition scaled :: "nat \<Rightarrow> nat \<Rightarrow> nat \<Rightarrow> int \<Rightarrow> nat \<times> nat" where
  "scaled p q b e = (if e \<ge> 0 then (p, q * b ^ nat e) else (p * b ^ nat (- e), q))"

definition half_even :: "nat \<times> nat \<Rightarrow> nat" where
  "half_even f = (case f of (p, q) \<Rightarrow>
     let n = p div q; r = p mod q
     in if 2 * r > q \<or> (2 * r = q \<and> odd n) then n + 1 else n)"

definition exp_of :: "nat \<Rightarrow> nat \<Rightarrow> int" where
  "exp_of p q =
     (let l = int (bits p) - int (bits q);
          f = scaled p q 2 l
      in max (- 1074) (if fst f < snd f then l - 53 else l - 52))"

definition round_pq :: "bool \<Rightarrow> nat \<Rightarrow> nat \<Rightarrow> double" where
  "round_pq s p q =
     (if p = 0 then Fin s 0 (- 1074)
      else let e = exp_of p q;
               n = half_even (scaled p q 2 e)
           in if n = 2 ^ 53 then (if e + 1 > 971 then Inf s else Fin s (2 ^ 52) (e + 1))
              else if e > 971 then Inf s else Fin s n e)"

definition zero_d :: double where
  "zero_d = Fin False 0 (- 1074)"

definition of_int_d :: "int \<Rightarrow> double" where
  "of_int_d i = round_pq (i < 0) (nat \<bar>i\<bar>) 1"

text \<open>A decimal literal \<open>n / 10 ^ k\<close> of the source.\<close>

definition lit_d :: "nat \<Rightarrow> nat \<Rightarrow> double" where
  "lit_d n k = round_pq False n (10 ^ k)"

section \<open>Arithmetic and comparison\<close>

text \<open>The magnitude of a finite value as a fraction.\<close>

definition mag :: "nat \<Rightarrow> int \<Rightarrow> nat \<times> nat" where
  "mag m e = (if e \<ge> 0 then (m * 2 ^ nat e, 1) else (m, 2 ^ nat (- e)))"

definition signed :: "bool \<Rightarrow> nat \<Rightarrow> int" where
  "signed s n = (if s then - int n else int n)"

fun neg_d :: "double \<Rightarrow> double" where
  "neg_d (Fin s m e) = Fin (\<not> s) m e"
| "neg_d (Inf s) = Inf (\<not> s)"
| "neg_d NaN = NaN"

fun abs_d :: "double \<Rightarrow> double" where
  "abs_d (Fin s m e) = Fin False m e"
| "abs_d (Inf s) = Inf False"
| "abs_d NaN = NaN"

fun finite_d :: "double \<Rightarrow> bool" where
  "finite_d (Fin s m e) = True"
| "finite_d _ = False"

fun add_d :: "double \<Rightarrow> double \<Rightarrow> double" where
  "add_d (Fin s m e) (Fin s' m' e') =
     (case (mag m e, mag m' e') of ((p, q), (p', q')) \<Rightarrow>
        let n = signed s p * int q' + signed s' p' * int q
        in if n = 0 then Fin (s \<and> s') 0 (- 1074) else round_pq (n < 0) (nat \<bar>n\<bar>) (q * q'))"
| "add_d (Inf s) (Inf s') = (if s = s' then Inf s else NaN)"
| "add_d (Inf s) (Fin _ _ _) = Inf s"
| "add_d (Fin _ _ _) (Inf s) = Inf s"
| "add_d NaN _ = NaN"
| "add_d _ NaN = NaN"

definition sub_d :: "double \<Rightarrow> double \<Rightarrow> double" where
  "sub_d x y = add_d x (neg_d y)"

fun mul_d :: "double \<Rightarrow> double \<Rightarrow> double" where
  "mul_d (Fin s m e) (Fin s' m' e') =
     (case (mag m e, mag m' e') of ((p, q), (p', q')) \<Rightarrow> round_pq (s \<noteq> s') (p * p') (q * q'))"
| "mul_d (Inf s) (Inf s') = Inf (s \<noteq> s')"
| "mul_d (Inf s) (Fin s' m e) = (if m = 0 then NaN else Inf (s \<noteq> s'))"
| "mul_d (Fin s m e) (Inf s') = (if m = 0 then NaN else Inf (s \<noteq> s'))"
| "mul_d NaN _ = NaN"
| "mul_d _ NaN = NaN"

fun div_d :: "double \<Rightarrow> double \<Rightarrow> double" where
  "div_d (Fin s m e) (Fin s' m' e') =
     (if m' = 0 then (if m = 0 then NaN else Inf (s \<noteq> s'))
      else case (mag m e, mag m' e') of ((p, q), (p', q')) \<Rightarrow> round_pq (s \<noteq> s') (p * q') (q * p'))"
| "div_d (Inf s) (Inf s') = NaN"
| "div_d (Inf s) (Fin s' m e) = Inf (s \<noteq> s')"
| "div_d (Fin s m e) (Inf s') = Fin (s \<noteq> s') 0 (- 1074)"
| "div_d NaN _ = NaN"
| "div_d _ NaN = NaN"

fun less_d :: "double \<Rightarrow> double \<Rightarrow> bool" where
  "less_d (Fin s m e) (Fin s' m' e') =
     (case (mag m e, mag m' e') of ((p, q), (p', q')) \<Rightarrow>
        signed s p * int q' < signed s' p' * int q)"
| "less_d (Inf s) (Inf s') = (s \<and> \<not> s')"
| "less_d (Inf s) (Fin _ _ _) = s"
| "less_d (Fin _ _ _) (Inf s) = (\<not> s)"
| "less_d NaN _ = False"
| "less_d _ NaN = False"

fun eq_d :: "double \<Rightarrow> double \<Rightarrow> bool" where
  "eq_d (Fin s m e) (Fin s' m' e') =
     (case (mag m e, mag m' e') of ((p, q), (p', q')) \<Rightarrow>
        signed s p * int q' = signed s' p' * int q)"
| "eq_d (Inf s) (Inf s') = (s = s')"
| "eq_d _ _ = False"

definition le_d :: "double \<Rightarrow> double \<Rightarrow> bool" where
  "le_d x y \<longleftrightarrow> less_d x y \<or> eq_d x y"

text \<open>\<^verbatim>\<open>std::max\<close> and \<^verbatim>\<open>std::min\<close>.\<close>

definition max_d :: "double \<Rightarrow> double \<Rightarrow> double" where
  "max_d a b = (if less_d a b then b else a)"

definition min_d :: "double \<Rightarrow> double \<Rightarrow> double" where
  "min_d a b = (if less_d b a then b else a)"

fun floor_d :: "double \<Rightarrow> double" where
  "floor_d (Fin s m e) =
     (case mag m e of (p, q) \<Rightarrow>
        let n = signed s p div int q in if n = 0 then Fin s 0 (- 1074) else of_int_d n)"
| "floor_d x = x"

text \<open>
  Conversion to an integer type truncates towards zero; a value outside the type's range is
  undefined behaviour in C++ and exact here.
\<close>

fun trunc_d :: "double \<Rightarrow> int" where
  "trunc_d (Fin s m e) = (case mag m e of (p, q) \<Rightarrow> signed s (p div q))"
| "trunc_d _ = 0"

section \<open>Reading: strtod\<close>

text \<open>A C string ends at its first NUL byte.\<close>

definition cstr :: "string \<Rightarrow> string" where
  "cstr s = takeWhile (\<lambda>c. c \<noteq> CHR 0x00) s"

definition xdigit_val :: "char \<Rightarrow> nat" where
  "xdigit_val c =
     (if is_digit c then ord c - 48 else if ord c \<ge> 97 then ord c - 87 else ord c - 55)"

definition xdigits_val :: "string \<Rightarrow> nat" where
  "xdigits_val s = foldl (\<lambda>v c. 16 * v + xdigit_val c) 0 s"

text \<open>
  The exponent part after the letter: its value and the text after it, or \<open>None\<close> when no
  digit follows, in which case the letter is not part of the number.
\<close>

definition exponent :: "string \<Rightarrow> (int \<times> string) option" where
  "exponent s =
     (let neg = (s \<noteq> [] \<and> hd s = CHR ''-'');
          t = (if s \<noteq> [] \<and> (hd s = CHR ''-'' \<or> hd s = CHR ''+'') then tl s else s);
          ds = takeWhile is_digit t
      in if ds = [] then None
         else Some (if neg then - int (digits_val ds) else int (digits_val ds), dropWhile is_digit t))"

definition exponent_after :: "char \<Rightarrow> string \<Rightarrow> int \<times> string" where
  "exponent_after letter s =
     (case s of [] \<Rightarrow> (0, s)
      | c # t \<Rightarrow> if to_lower c = letter then (case exponent t of Some r \<Rightarrow> r | None \<Rightarrow> (0, s)) else (0, s))"

text \<open>Digits, a point and digits: the integer part, the fraction part and the text after them.\<close>

definition mantissa :: "(char \<Rightarrow> bool) \<Rightarrow> string \<Rightarrow> string \<times> string \<times> string" where
  "mantissa dig s =
     (let a = takeWhile dig s; t = dropWhile dig s
      in if t \<noteq> [] \<and> hd t = CHR ''.'' then (a, takeWhile dig (tl t), dropWhile dig (tl t)) else (a, [], t))"

text \<open>The magnitude of an unsigned decimal or hexadecimal number, rounded with its sign.\<close>

definition strtod_dec :: "bool \<Rightarrow> string \<Rightarrow> (double \<times> string) option" where
  "strtod_dec neg s =
     (case mantissa is_digit s of (a, b, t) \<Rightarrow>
        if a = [] \<and> b = [] then None
        else case exponent_after (CHR ''e'') t of (e, u) \<Rightarrow>
          (case scaled (digits_val (a @ b)) 1 10 (int (length b) - e) of (p, q) \<Rightarrow>
             Some (round_pq neg p q, u)))"

definition strtod_hex :: "bool \<Rightarrow> string \<Rightarrow> (double \<times> string) option" where
  "strtod_hex neg s =
     (case mantissa is_xdigit s of (a, b, t) \<Rightarrow>
        if a = [] \<and> b = [] then None
        else case exponent_after (CHR ''p'') t of (e, u) \<Rightarrow>
          (case scaled (xdigits_val (a @ b)) 1 2 (4 * int (length b) - e) of (p, q) \<Rightarrow>
             Some (round_pq neg p q, u)))"

definition strtod_word :: "bool \<Rightarrow> string \<Rightarrow> (double \<times> string) option" where
  "strtod_word neg s =
     (let l = map to_lower s
      in if starts_with l ''infinity'' then Some (Inf neg, drop 8 s)
         else if starts_with l ''inf'' then Some (Inf neg, drop 3 s)
         else if starts_with l ''nan'' then
           (let t = drop 3 s;
                u = dropWhile (\<lambda>c. is_alnum c \<or> c = CHR ''_'') (tl t)
            in if t \<noteq> [] \<and> hd t = CHR ''('' \<and> u \<noteq> [] \<and> hd u = CHR '')'' then Some (NaN, tl u)
               else Some (NaN, t))
         else None)"

text \<open>
  \<open>strtod s\<close> is the value read from the start of the C string in \<open>s\<close> and the text where
  reading stopped (\<^verbatim>\<open>end\<close>); no number at all is 0 with the whole text left.
\<close>

definition strtod :: "string \<Rightarrow> double \<times> string" where
  "strtod s0 =
     (let s = cstr s0;
          t = dropWhile is_space s;
          neg = (t \<noteq> [] \<and> hd t = CHR ''-'');
          u = (if t \<noteq> [] \<and> (hd t = CHR ''-'' \<or> hd t = CHR ''+'') then tl t else t);
          r = (case strtod_word neg u of
                 Some r \<Rightarrow> Some r
               | None \<Rightarrow>
                   (case (if length u > 1 \<and> hd u = CHR ''0'' \<and> to_lower (u ! 1) = CHR ''x''
                          then strtod_hex neg (drop 2 u) else None) of
                      Some r \<Rightarrow> Some r
                    | None \<Rightarrow> strtod_dec neg u))
      in case r of Some r \<Rightarrow> r | None \<Rightarrow> (zero_d, s))"

section \<open>Printing: printf\<close>

definition sign_str :: "bool \<Rightarrow> string" where
  "sign_str s = (if s then ''-'' else [])"

definition zeros :: "nat \<Rightarrow> string" where
  "zeros n = replicate n (CHR ''0'')"

text \<open>Digits of \<open>n\<close> with a point before the last \<open>k\<close> of them, at least one digit before it.\<close>

definition point_str :: "nat \<Rightarrow> nat \<Rightarrow> string" where
  "point_str n k =
     (let d = nat_str n; z = zeros (Suc k - length d) @ d; i = length z - k
      in if k = 0 then z else take i z @ ''.'' @ drop i z)"

text \<open>\<^verbatim>\<open>%.kf\<close>\<close>

fun fmt_f :: "nat \<Rightarrow> double \<Rightarrow> string" where
  "fmt_f k (Fin s m e) =
     sign_str s @ point_str (half_even (scaled (fst (mag m e)) (snd (mag m e)) 10 (- int k))) k"
| "fmt_f k (Inf s) = sign_str s @ ''inf''"
| "fmt_f k NaN = ''nan''"

text \<open>The decimal exponent: the \<open>x\<close> with \<open>10 ^ x \<le> p / q < 10 ^ (x + 1)\<close>, for \<open>p, q > 0\<close>.\<close>

fun dec_exp_neg :: "nat \<Rightarrow> nat \<Rightarrow> nat \<Rightarrow> nat" where
  "dec_exp_neg 0 p q = 0"
| "dec_exp_neg (Suc f) p q = (if p \<ge> q then 0 else Suc (dec_exp_neg f (10 * p) q))"

definition dec_exp :: "nat \<Rightarrow> nat \<Rightarrow> int" where
  "dec_exp p q =
     (if p \<ge> q then int (length (nat_str (p div q))) - 1 else - int (dec_exp_neg q p q))"

text \<open>Trailing zeros of a fraction, and the point when nothing is left after it, are dropped.\<close>

definition drop_zeros :: "string \<Rightarrow> string" where
  "drop_zeros s =
     (if CHR ''.'' \<in> set s
      then (let t = rev (dropWhile (\<lambda>c. c = CHR ''0'') (rev s))
            in if t \<noteq> [] \<and> last t = CHR ''.'' then butlast t else t)
      else s)"

text \<open>\<^verbatim>\<open>%.Pg\<close>, for a precision \<open>P > 0\<close>\<close>

fun fmt_g :: "nat \<Rightarrow> double \<Rightarrow> string" where
  "fmt_g P (Fin s m e) =
     (if m = 0 then sign_str s @ ''0''
      else case mag m e of (p, q) \<Rightarrow>
        let x0 = dec_exp p q;
            d0 = half_even (scaled p q 10 (x0 - int P + 1));
            x = (if d0 = 10 ^ P then x0 + 1 else x0);
            d = (if d0 = 10 ^ P then 10 ^ (P - 1) else d0)
        in sign_str s @
          (if - 4 \<le> x \<and> x < int P
           then drop_zeros (point_str d (nat (int P - 1 - x)))
           else drop_zeros (point_str d (P - 1)) @ ''e'' @ (if x < 0 then ''-'' else ''+'') @
                (let t = nat_str (nat \<bar>x\<bar>) in zeros (2 - length t) @ t)))"
| "fmt_g P (Inf s) = sign_str s @ ''inf''"
| "fmt_g P NaN = ''nan''"

section \<open>Integers are exact\<close>

lemma bits_0 [simp]: "bits 0 = 0" and bits_1 [simp]: "bits (Suc 0) = Suc 0"
  by (simp_all add: bits.simps)

lemma bits_bounds: "n > 0 \<Longrightarrow> bits n > 0 \<and> 2 ^ (bits n - 1) \<le> n \<and> n < 2 ^ bits n"
proof (induction n rule: bits.induct)
  case (1 n)
  show ?case
  proof (cases "n = 1")
    case True
    then show ?thesis by simp
  next
    case False
    with 1 have "2 ^ (bits (n div 2) - 1) \<le> n div 2" "n div 2 < 2 ^ bits (n div 2)"
      and b: "bits (n div 2) > 0" by auto
    then have "2 * 2 ^ (bits (n div 2) - 1) \<le> n" "n < 2 * 2 ^ bits (n div 2)" by auto
    moreover have "(2::nat) * 2 ^ (bits (n div 2) - 1) = 2 ^ bits (n div 2)"
      using b by (metis Suc_diff_1 power_Suc)
    ultimately show ?thesis using 1 by (simp add: bits.simps[of n])
  qed
qed

lemma bits_le: "n < 2 ^ k \<Longrightarrow> bits n \<le> k"
proof (cases "n = 0")
  case False
  assume "n < 2 ^ k"
  with False bits_bounds[of n] have "(2::nat) ^ (bits n - 1) < 2 ^ k" by linarith
  then show ?thesis using power_less_imp_less_exp[of "2::nat" "bits n - 1" k] by linarith
qed simp

lemma round_pq_int:
  assumes "0 < n" "n < 2 ^ 53"
  shows "round_pq s n 1 = Fin s (n * 2 ^ (53 - bits n)) (int (bits n) - 53)"
proof -
  define b where "b = bits n"
  have b: "0 < b" "2 ^ (b - 1) \<le> n" "n < 2 ^ b" "b \<le> 53"
    using bits_bounds[of n] bits_le[of n 53] assms by (auto simp: b_def)
  have l: "int b - 1 \<ge> 0" "nat (int b - 1) = b - 1" using b by auto
  have e: "exp_of n 1 = int b - 53"
    using l b by (simp add: exp_of_def Let_def scaled_def flip: b_def)
  have sc: "half_even (scaled n 1 2 (int b - 53)) = n * 2 ^ (53 - b)"
    using b by (cases "b = 53") (simp_all add: scaled_def half_even_def nat_diff_distrib Let_def)
  have "n * 2 ^ (53 - b) < 2 ^ b * 2 ^ (53 - b)" using b by simp
  also have "\<dots> = (2::nat) ^ 53" using b by (metis le_add_diff_inverse power_add)
  finally have m: "n * 2 ^ (53 - b) < 2 ^ 53" .
  then have m': "n * 2 ^ (53 - b) \<noteq> 2 ^ 53" by simp
  from assms have "n \<noteq> 0" by simp
  then show ?thesis
    unfolding round_pq_def Let_def e sc using m' b by (simp only: if_False b_def) simp
qed

lemma bits_ge: "2 ^ k \<le> n \<Longrightarrow> Suc k \<le> bits n"
proof -
  assume k: "2 ^ k \<le> n"
  then have "n > 0" by (metis gr0I not_less zero_less_numeral zero_less_power)
  with k bits_bounds[of n] have "(2::nat) ^ k < 2 ^ bits n" by linarith
  then show ?thesis by (simp add: Suc_le_eq)
qed

lemma round_pq_overflow:
  assumes "2 ^ 1024 \<le> n"
  shows "round_pq s n 1 = Inf s"
proof -
  have b: "1025 \<le> bits n" using bits_ge[OF assms] by simp
  then have n: "0 < n" by (cases n) auto
  define l where "l = int (bits n) - 1"
  have "2 ^ (bits n - 1) \<le> n" using bits_bounds[OF n] by simp
  moreover have "nat l = bits n - 1" "l \<ge> 0" using b by (auto simp: l_def)
  ultimately have "\<not> fst (scaled n 1 2 l) < snd (scaled n 1 2 l)" by (simp add: scaled_def)
  moreover have "bits 1 = 1" by simp
  ultimately have e: "exp_of n 1 = int (bits n) - 53" "exp_of n 1 > 971"
    using b unfolding exp_of_def Let_def by (simp_all add: l_def)
  show ?thesis unfolding round_pq_def Let_def using e(2) n by (simp del: One_nat_def)
qed

text \<open>\<open>is_int_d i x\<close>: \<open>x\<close> is finite, has the sign of \<open>i\<close> and is exactly \<open>i\<close>.\<close>

definition is_int_d :: "int \<Rightarrow> double \<Rightarrow> bool" where
  "is_int_d i x \<longleftrightarrow> (\<exists>m e q. x = Fin (i < 0) m e \<and> mag m e = (nat \<bar>i\<bar> * q, q) \<and> q > 0)"

lemma of_int_d_exact: "\<bar>i\<bar> < 2 ^ 53 \<Longrightarrow> is_int_d i (of_int_d i)"
proof (cases "i = 0")
  case True
  then show ?thesis by (simp add: is_int_d_def of_int_d_def round_pq_def mag_def)
next
  case False
  assume i: "\<bar>i\<bar> < 2 ^ 53"
  define n where "n = nat \<bar>i\<bar>"
  have n: "0 < n" "n < 2 ^ 53" using False i by (auto simp: n_def nat_less_iff)
  have b: "bits n \<le> 53" by (rule bits_le) (rule n)
  have "mag (n * 2 ^ (53 - bits n)) (int (bits n) - 53) = (n * 2 ^ (53 - bits n), 2 ^ (53 - bits n))"
    using b by (cases "bits n = 53") (auto simp: mag_def nat_diff_distrib)
  then show ?thesis
    unfolding is_int_d_def of_int_d_def using round_pq_int[OF n, of "i < 0"]
    by (intro exI[of _ "n * 2 ^ (53 - bits n)"] exI[of _ "int (bits n) - 53"] exI[of _ "2 ^ (53 - bits n)"])
      (simp add: n_def)
qed

lemma signed_abs: "signed (i < 0) (nat \<bar>i\<bar> * q) = i * int q"
  by (simp add: signed_def)

lemma is_int_d_rel:
  assumes "is_int_d i x" "is_int_d j y"
  shows "eq_d x y \<longleftrightarrow> i = j" and "less_d x y \<longleftrightarrow> i < j"
proof -
  from assms obtain m e q m' e' q' where
    x: "x = Fin (i < 0) m e" "mag m e = (nat \<bar>i\<bar> * q, q)" "q > 0" and
    y: "y = Fin (j < 0) m' e'" "mag m' e' = (nat \<bar>j\<bar> * q', q')" "q' > 0"
    unfolding is_int_d_def by blast
  have *: "i * int q * int q' = i * (int q * int q')" "j * int q' * int q = j * (int q * int q')" by auto
  have pos: "int q * int q' > 0" using x y by simp
  show "eq_d x y \<longleftrightarrow> i = j" "less_d x y \<longleftrightarrow> i < j"
    unfolding x(1) y(1) eq_d.simps less_d.simps x(2) y(2) prod.case signed_abs *
    using pos by (simp_all only: mult_less_cancel_right mult_right_cancel) auto
qed

lemma is_int_d_trunc: "is_int_d i x \<Longrightarrow> trunc_d x = i"
  by (auto simp: is_int_d_def signed_def)

lemma is_int_d_floor: "is_int_d i x \<Longrightarrow> \<bar>i\<bar> < 2 ^ 53 \<Longrightarrow> x = of_int_d i \<Longrightarrow> floor_d x = x"
proof -
  assume i: "is_int_d i x" "x = of_int_d i"
  then obtain m e q where x: "x = Fin (i < 0) m e" "mag m e = (nat \<bar>i\<bar> * q, q)" "q > 0"
    by (auto simp: is_int_d_def)
  have d: "signed (i < 0) (nat \<bar>i\<bar> * q) div int q = i" using x(3) by (simp add: signed_abs)
  show ?thesis
    unfolding x(1) floor_d.simps x(2) prod.case Let_def d using i(2) x(1)
    by (auto simp: of_int_d_def round_pq_def)
qed

lemma floor_d_of_int: "\<bar>i\<bar> < 2 ^ 53 \<Longrightarrow> floor_d (of_int_d i) = of_int_d i"
  using is_int_d_floor[OF of_int_d_exact] by simp

lemma fmt_f_of_int: "\<bar>i\<bar> < 2 ^ 53 \<Longrightarrow> fmt_f 0 (of_int_d i) = int_str i"
proof -
  assume "\<bar>i\<bar> < 2 ^ 53"
  then obtain m e q where x: "of_int_d i = Fin (i < 0) m e" "mag m e = (nat \<bar>i\<bar> * q, q)" "q > 0"
    using of_int_d_exact[of i] by (auto simp: is_int_d_def)
  have "half_even (nat \<bar>i\<bar> * q, q) = nat \<bar>i\<bar>" using x(3) by (simp add: half_even_def)
  moreover have "Suc 0 - length (nat_str n) = 0" for n by (cases "nat_str n") auto
  ultimately show ?thesis
    unfolding x(1) fmt_f.simps x(2) by (simp add: scaled_def point_str_def zeros_def int_str_def sign_str_def)
qed

lemma digits_takeWhile: "\<forall>c \<in> set s. is_digit c \<Longrightarrow> takeWhile is_digit s = s \<and> dropWhile is_digit s = []"
  by (simp add: takeWhile_eq_all_conv dropWhile_eq_Nil_conv)

lemma to_lower_digit: "is_digit c \<Longrightarrow> to_lower c = c \<and> c \<noteq> CHR ''x'' \<and> c \<noteq> CHR ''i'' \<and> c \<noteq> CHR ''n''"
  by (auto simp: to_lower_def is_upper_def is_digit_def)

lemma strtod_word_digit: "is_digit c \<Longrightarrow> strtod_word neg (c # t) = None"
  using to_lower_digit[of c] by (simp add: strtod_word_def starts_with_def Let_def)

lemma strtod_dec_nat_str: "strtod_dec neg (nat_str n) = Some (round_pq neg n 1, [])"
proof -
  have w: "takeWhile is_digit (nat_str n) = nat_str n" "dropWhile is_digit (nat_str n) = []"
    using digits_takeWhile[of "nat_str n"] nat_str_digits by blast+
  show ?thesis
    unfolding strtod_dec_def mantissa_def Let_def w by (simp add: exponent_after_def scaled_def)
qed

lemma cstr_id: "CHR 0x00 \<notin> set s \<Longrightarrow> cstr s = s"
  by (auto simp: cstr_def takeWhile_eq_all_conv)

lemma strtod_int_str: "strtod (int_str i) = (round_pq (i < 0) (nat \<bar>i\<bar>) 1, [])"
proof -
  obtain c t where n: "nat_str (nat \<bar>i\<bar>) = c # t" by (cases "nat_str (nat \<bar>i\<bar>)") auto
  then have dig: "\<forall>d \<in> set (c # t). is_digit d" using nat_str_digits by metis
  then have nul: "CHR 0x00 \<notin> set (c # t)" by (auto simp: is_digit_def)
  from dig have c: "is_digit c" "\<not> is_space c" "c \<noteq> CHR ''-''" "c \<noteq> CHR ''+''"
    using digit_not_space digit_not_sign by auto
  have x: "\<not> (length (c # t) > 1 \<and> hd (c # t) = CHR ''0'' \<and> to_lower ((c # t) ! 1) = CHR ''x'')"
    using dig by (cases t) (auto simp: to_lower_digit)
  have w: "strtod_word neg (c # t) = None" for neg by (rule strtod_word_digit) (rule c)
  have d: "strtod_dec neg (c # t) = Some (round_pq neg (nat \<bar>i\<bar>) 1, [])" for neg
    using strtod_dec_nat_str[of neg "nat \<bar>i\<bar>"] n by simp
  have e: "int_str i = (if i < 0 then CHR ''-'' # c # t else c # t)"
    using n by (auto simp: int_str_def)
  have cs: "cstr (CHR ''-'' # c # t) = CHR ''-'' # c # t" "cstr (c # t) = c # t"
    using nul by (auto intro: cstr_id)
  have h: "(if length (c # t) > 1 \<and> hd (c # t) = CHR ''0'' \<and> to_lower ((c # t) ! 1) = CHR ''x''
      then r else None) = None" for r :: "(double \<times> string) option"
    using x by (simp only: if_False)
  have dw: "dropWhile is_space (c # t) = c # t"
    "dropWhile is_space (CHR ''-'' # c # t) = CHR ''-'' # c # t"
    using c by (simp_all add: is_space_def[of "CHR ''-''"])
  show ?thesis
  proof (cases "i < 0")
    case True
    then show ?thesis
      unfolding e strtod_def Let_def
      by (simp only: simp_thms if_True cs dw list.sel list.distinct h[unfolded list.sel] w d option.case)
  next
    case False
    with c(3,4) show ?thesis
      unfolding e strtod_def Let_def
      by (simp only: simp_thms if_False cs dw list.sel list.distinct h[unfolded list.sel] w d option.case)
  qed
qed

corollary strtod_of_int: "strtod (int_str i) = (of_int_d i, [])"
  by (simp add: strtod_int_str of_int_d_def)

lemma of_int_d_finite: "\<bar>i\<bar> < 2 ^ 53 \<Longrightarrow> finite_d (of_int_d i)"
  using of_int_d_exact[of i] by (auto simp: is_int_d_def)

end
