(* ===== verification/Levels.thy ===== *)
theory Levels
  imports EInvoice Double
begin

text \<open>
  The conformance levels (\<^verbatim>\<open>pdfa.hh\<close>, the level table of \<^verbatim>\<open>engine.cpp\<close>), the
  level name a profile may write (\<^verbatim>\<open>levelName\<close> of \<^verbatim>\<open>jobs.cpp\<close>), the
  issues and results every pass writes to, and the predicates of \<^verbatim>\<open>Ctx\<close>
  (\<^verbatim>\<open>ctx.hh\<close>) that decide what a level allows.
\<close>

section \<open>The level table\<close>

datatype Level = A1B | A1A | A2B | A2U | A2A | A3B | A3U | A3A | A4 | A4F | A4E
  | X1A | X3 | X4 | X6 | E1 | VT1 | VT3
  | X4P | X5G | X5N | X5PG | X6N | X6P | VT2

datatype Family = PDFA | PDFX | PDFE | PDFVT

record LevelRow =
  row_level :: Level
  row_name :: string
  row_part :: int
  row_conformance :: char
  row_family :: Family
  row_verifyOnly :: bool

abbreviation row :: "Level \<Rightarrow> string \<Rightarrow> int \<Rightarrow> char \<Rightarrow> Family \<Rightarrow> bool \<Rightarrow> LevelRow" where
  "row l n p c f v \<equiv> \<lparr>row_level = l, row_name = n, row_part = p, row_conformance = c,
     row_family = f, row_verifyOnly = v\<rparr>"

definition kLevelTable :: "LevelRow list" where
  "kLevelTable =
     [row A1B ''1b'' 1 CHR ''B'' PDFA False,
      row A1A ''1a'' 1 CHR ''A'' PDFA False,
      row A2B ''2b'' 2 CHR ''B'' PDFA False,
      row A2U ''2u'' 2 CHR ''U'' PDFA False,
      row A2A ''2a'' 2 CHR ''A'' PDFA False,
      row A3B ''3b'' 3 CHR ''B'' PDFA False,
      row A3U ''3u'' 3 CHR ''U'' PDFA False,
      row A3A ''3a'' 3 CHR ''A'' PDFA False,
      row A4 ''4'' 4 (CHR 0x00) PDFA False,
      row A4F ''4f'' 4 CHR ''F'' PDFA False,
      row A4E ''4e'' 4 CHR ''E'' PDFA False,
      row X1A ''x1a'' 0 (CHR 0x00) PDFX False,
      row X3 ''x3'' 0 (CHR 0x00) PDFX False,
      row X4 ''x4'' 0 (CHR 0x00) PDFX False,
      row X6 ''x6'' 0 (CHR 0x00) PDFX False,
      row E1 ''e1'' 0 (CHR 0x00) PDFE False,
      row VT1 ''vt1'' 0 (CHR 0x00) PDFVT False,
      row VT3 ''vt3'' 0 (CHR 0x00) PDFVT False,
      row X4P ''x4p'' 0 (CHR 0x00) PDFX True,
      row X5G ''x5g'' 0 (CHR 0x00) PDFX True,
      row X5N ''x5n'' 0 (CHR 0x00) PDFX True,
      row X5PG ''x5pg'' 0 (CHR 0x00) PDFX True,
      row X6N ''x6n'' 0 (CHR 0x00) PDFX True,
      row X6P ''x6p'' 0 (CHR 0x00) PDFX True,
      row VT2 ''vt2'' 0 (CHR 0x00) PDFVT True]"

definition levelRow :: "Level \<Rightarrow> LevelRow" where
  "levelRow level =
     (case find (\<lambda>r. row_level r = level) kLevelTable of
        Some r \<Rightarrow> r | None \<Rightarrow> kLevelTable ! 2)"

text \<open>\<open>Some l\<close> is the return value true with the out-parameter set to \<open>l\<close>.\<close>

definition levelFromString :: "string \<Rightarrow> Level option" where
  "levelFromString s = map_option row_level (find (\<lambda>r. s = row_name r) kLevelTable)"

definition levelToString :: "Level \<Rightarrow> string" where
  "levelToString level = row_name (levelRow level)"

definition levelPart :: "Level \<Rightarrow> int" where
  "levelPart level = row_part (levelRow level)"

definition levelConformance :: "Level \<Rightarrow> char" where
  "levelConformance level = row_conformance (levelRow level)"

definition levelFamily :: "Level \<Rightarrow> Family" where
  "levelFamily level = row_family (levelRow level)"

definition levelVerifyOnly :: "Level \<Rightarrow> bool" where
  "levelVerifyOnly level = row_verifyOnly (levelRow level)"

definition levelName :: "string \<Rightarrow> string" where
  "levelName s0 =
     (let s1 = map to_lower s0;
          s2 = (if starts_with s1 ''pdf'' then drop 3 s1 else s1);
          s3 = filter (\<lambda>c. \<not> (c = CHR ''-'' \<or> c = CHR ''/'' \<or> c = CHR '' '' \<or> c = CHR ''_'')) s2
      in if length s3 > 1 \<and> s3 ! 0 = CHR ''a'' \<and> is_digit (s3 ! 1) then drop 1 s3 else s3)"

section \<open>Issues and results\<close>

record Issue =
  code :: string
  detail :: string
  fixed :: bool
  severity :: int
  pages :: "int list"

record Result =
  ok :: bool
  pdf :: string
  issues :: "Issue list"
  analysis :: "Issue list"
  error :: string
  errorCode :: string
  suggestedLevel :: string
  res_level :: string
  compliant :: bool

definition Result0 :: Result where
  "Result0 = \<lparr>ok = False, pdf = [], issues = [], analysis = [], error = [], errorCode = [],
     suggestedLevel = [], res_level = [], compliant = False\<rparr>"

abbreviation mkIssue :: "string \<Rightarrow> string \<Rightarrow> bool \<Rightarrow> int \<Rightarrow> Issue" where
  "mkIssue c d f sev \<equiv> \<lparr>code = c, detail = d, fixed = f, severity = sev, pages = []\<rparr>"

definition issueIsNormalization :: "string \<Rightarrow> bool" where
  "issueIsNormalization c \<longleftrightarrow>
     c = ''XMP_REBUILT'' \<or> c = ''CONTENT_FILTERED'' \<or> c = ''OUTPUT_INTENT_PRESENT''"

definition issueSeverity :: "string \<Rightarrow> int" where
  "issueSeverity c =
     (if issueIsNormalization c \<or> c = ''IMAGE_INPUT_WRAPPED'' \<or> starts_with c ''ANALYZE_'' then 1
      else if c = ''SCAN_INCOMPLETE'' \<or> c = ''FONT_SUBSTITUTED'' \<or> c = ''STRUCT_TREE_SYNTHESIZED''
      then 2 else 3)"

section \<open>The context of a conversion\<close>

text \<open>
  The fields of \<^verbatim>\<open>Options\<close> the modelled code reads. A callback that may be empty
  (\<^verbatim>\<open>signDocument\<close>, \<^verbatim>\<open>rasterizePage\<close>) is an option.
\<close>

record Options =
  level :: Level
  ua :: bool
  docLangOpt :: string
  password :: string
  destProfile :: string
  rasterDpi :: double
  attachXml :: string
  attachXmlName :: string
  facturxProfile :: string
  verifyOnly :: bool
  analyze :: bool
  linearize :: bool
  preflightProfile :: string
  profilePath :: string
  inputPath :: string
  profileFixOps :: "(string \<times> (string \<times> string) list) list"
  colorJobEnabled :: bool
  dualPrint :: bool
  externalProfileUrl :: string
  rasterizeAllPages :: bool
  rasterKeepText :: bool
  rasterPages :: "int set"
  profileVars :: "string \<rightharpoonup> string"
  pageRange :: string
  levelFromProfile :: bool
  reconvert :: bool
  fallbackDpi :: double
  fallbackProblemPagesOnly :: bool
  quickCheck :: bool
  bookmarks :: string
  inputName :: string
  signDocument :: "(string \<Rightarrow> string option) option"
  signReserveBytes :: nat
  hasRasterizePage :: bool
  hasOcrPage :: bool

text \<open>The values of a default-constructed \<^verbatim>\<open>Options\<close>.\<close>

definition Options0 :: Options where
  "Options0 = \<lparr>level = A2B, ua = False, docLangOpt = [], password = [], destProfile = [],
     rasterDpi = of_int_d 300, attachXml = [], attachXmlName = [], facturxProfile = [],
     verifyOnly = False, analyze = False, linearize = False, preflightProfile = [],
     profilePath = [], inputPath = [], profileFixOps = [], colorJobEnabled = False,
     dualPrint = False, externalProfileUrl = [], rasterizeAllPages = False,
     rasterKeepText = True, rasterPages = {}, profileVars = Map.empty, pageRange = [],
     levelFromProfile = False, reconvert = False, fallbackDpi = zero_d,
     fallbackProblemPagesOnly = False, quickCheck = False, bookmarks = [], inputName = [],
     signDocument = None, signReserveBytes = 16384, hasRasterizePage = False,
     hasOcrPage = False\<rparr>"

text \<open>\<open>'d\<close> is the open document (a \<^verbatim>\<open>QPDF\<close>).\<close>

record 'd Ctx =
  ctx_pdf :: 'd
  opt :: Options
  res :: Result
  part :: int
  conf :: char
  fam :: Family
  invc :: InvoiceProfile
  inlineImagesFixed :: nat
  contentPuaFixed :: nat
  incompleteScans :: "string set"
  currentPage :: int

definition isA :: "'d Ctx \<Rightarrow> bool" where
  "isA ctx \<longleftrightarrow> fam ctx = PDFA"

definition isX :: "'d Ctx \<Rightarrow> bool" where
  "isX ctx \<longleftrightarrow> fam ctx = PDFX \<or> fam ctx = PDFVT"

definition isE :: "'d Ctx \<Rightarrow> bool" where
  "isE ctx \<longleftrightarrow> fam ctx = PDFE"

definition isVT :: "'d Ctx \<Rightarrow> bool" where
  "isVT ctx \<longleftrightarrow> fam ctx = PDFVT"

definition dualX :: "'d Ctx \<Rightarrow> bool" where
  "dualX ctx \<longleftrightarrow> dualPrint (opt ctx) \<and> fam ctx = PDFA \<and> (part ctx = 2 \<or> part ctx = 4)"

definition x1a :: "'d Ctx \<Rightarrow> bool" where
  "x1a ctx \<longleftrightarrow> level (opt ctx) = X1A"

definition cmykIntentOnly :: "'d Ctx \<Rightarrow> bool" where
  "cmykIntentOnly ctx \<longleftrightarrow> level (opt ctx) = X1A \<or> level (opt ctx) = VT1"

definition pdf20Print :: "'d Ctx \<Rightarrow> bool" where
  "pdf20Print ctx \<longleftrightarrow>
     level (opt ctx) = X6 \<or> level (opt ctx) = VT3 \<or> level (opt ctx) = X6N \<or> level (opt ctx) = X6P"

definition externalIntent :: "'d Ctx \<Rightarrow> bool" where
  "externalIntent ctx \<longleftrightarrow>
     level (opt ctx) = X4P \<or> level (opt ctx) = X5N \<or> level (opt ctx) = X5PG \<or>
     level (opt ctx) = X6N \<or> level (opt ctx) = X6P"

definition allowRefXObjects :: "'d Ctx \<Rightarrow> bool" where
  "allowRefXObjects ctx \<longleftrightarrow>
     level (opt ctx) = X5G \<or> level (opt ctx) = X5PG \<or> level (opt ctx) = VT2"

definition ua2 :: "'d Ctx \<Rightarrow> bool" where
  "ua2 ctx \<longleftrightarrow> ua (opt ctx) \<and> isA ctx \<and> part ctx = 4"

definition pdf14Target :: "'d Ctx \<Rightarrow> bool" where
  "pdf14Target ctx \<longleftrightarrow>
     (isA ctx \<and> part ctx = 1) \<or> level (opt ctx) = X1A \<or> level (opt ctx) = X3"

definition transparencyBanned :: "'d Ctx \<Rightarrow> bool" where
  "transparencyBanned ctx \<longleftrightarrow> pdf14Target ctx"

definition needUnicode :: "'d Ctx \<Rightarrow> bool" where
  "needUnicode ctx \<longleftrightarrow>
     isA ctx \<and> (conf ctx = CHR ''U'' \<or> conf ctx = CHR ''A'' \<or> part ctx = 4 \<or> ua (opt ctx))"

definition needTagging :: "'d Ctx \<Rightarrow> bool" where
  "needTagging ctx \<longleftrightarrow> isA ctx \<and> conf ctx = CHR ''A''"

definition docLang :: "'d Ctx \<Rightarrow> string" where
  "docLang ctx = (if docLangOpt (opt ctx) = [] then ''en'' else docLangOpt (opt ctx))"

definition allowEmbeddedFiles :: "'d Ctx \<Rightarrow> bool" where
  "allowEmbeddedFiles ctx \<longleftrightarrow>
     isA ctx \<and> (part ctx = 3 \<or> conf ctx = CHR ''F'' \<or> conf ctx = CHR ''E'')"

definition allow3D :: "'d Ctx \<Rightarrow> bool" where
  "allow3D ctx \<longleftrightarrow> conf ctx = CHR ''E'' \<or> isE ctx"

text \<open>The trace callback of \<open>issue\<close> and \<open>fatal\<close> only logs and is left out.\<close>

definition issue :: "string \<Rightarrow> string \<Rightarrow> bool \<Rightarrow> 'd Ctx \<Rightarrow> 'd Ctx" where
  "issue c d f ctx =
     (let i = \<lparr>code = c, detail = d, fixed = f, severity = issueSeverity c,
               pages = (if currentPage ctx > 0 then [currentPage ctx] else [])\<rparr>
      in ctx\<lparr>res := (res ctx)\<lparr>issues := issues (res ctx) @ [i]\<rparr>\<rparr>)"

definition scanIncomplete :: "string \<Rightarrow> 'd Ctx \<Rightarrow> 'd Ctx" where
  "scanIncomplete what ctx =
     (if what \<in> incompleteScans ctx then ctx
      else issue ''SCAN_INCOMPLETE''
             (''could not read '' @ what @ ''; findings below may be incomplete for that content'')
             False (ctx\<lparr>incompleteScans := insert what (incompleteScans ctx)\<rparr>))"

definition fatal :: "string \<Rightarrow> string \<Rightarrow> 'd Ctx \<Rightarrow> 'd Ctx" where
  "fatal c d ctx = ctx\<lparr>res := (res ctx)\<lparr>errorCode := c, error := d\<rparr>\<rparr>"

definition failed :: "'d Ctx \<Rightarrow> bool" where
  "failed ctx \<longleftrightarrow> errorCode (res ctx) \<noteq> []"

text \<open>
  The context of a level, as \<^verbatim>\<open>convertOnce\<close> builds it: part, conformance and family
  are those of the level table.
\<close>

definition mkCtx :: "'d \<Rightarrow> Options \<Rightarrow> Result \<Rightarrow> 'd Ctx" where
  "mkCtx doc o' r = \<lparr>ctx_pdf = doc, opt = o', res = r, part = levelPart (level o'),
     conf = levelConformance (level o'), fam = levelFamily (level o'), invc = InvoiceProfile0,
     inlineImagesFixed = 0, contentPuaFixed = 0, incompleteScans = {}, currentPage = 0\<rparr>"

section \<open>Properties\<close>

lemmas level_defs = levelRow_def levelToString_def levelPart_def levelConformance_def
  levelFamily_def levelVerifyOnly_def levelFromString_def kLevelTable_def

text \<open>The table has one row per level, so the default row is never used.\<close>

lemma levelRow_level: "row_level (levelRow l) = l"
  by (cases l) (simp_all add: levelRow_def kLevelTable_def)

lemma kLevelTable_names_distinct: "distinct (map row_name kLevelTable)"
  by (simp add: kLevelTable_def)

lemma levelRow_in_table: "levelRow l \<in> set kLevelTable"
  by (cases l) (simp_all add: levelRow_def kLevelTable_def)

lemma find_distinct_map:
  "distinct (map f xs) \<Longrightarrow> x \<in> set xs \<Longrightarrow> find (\<lambda>y. f x = f y) xs = Some x"
proof (induction xs)
  case (Cons y ys)
  then show ?case by (cases "x = y") (auto simp: image_iff)
qed simp

lemma levelFromString_levelToString: "levelFromString (levelToString l) = Some l"
  using find_distinct_map[OF kLevelTable_names_distinct levelRow_in_table[of l]]
  by (simp add: levelFromString_def levelToString_def levelRow_level)

lemma levelFromString_Some: "levelFromString s = Some l \<Longrightarrow> s = levelToString l"
proof -
  assume "levelFromString s = Some l"
  then obtain r where r: "find (\<lambda>r. s = row_name r) kLevelTable = Some r" "row_level r = l"
    by (auto simp: levelFromString_def)
  then have "r \<in> set kLevelTable" "s = row_name r" by (auto simp: find_Some_iff)
  moreover have "\<forall>r \<in> set kLevelTable. levelRow (row_level r) = r"
    by (simp add: kLevelTable_def levelRow_def)
  ultimately show ?thesis using r(2) by (auto simp: levelToString_def)
qed

lemma levelToString_simps:
  "levelToString A1B = ''1b''"
  "levelToString A1A = ''1a''"
  "levelToString A2B = ''2b''"
  "levelToString A2U = ''2u''"
  "levelToString A2A = ''2a''"
  "levelToString A3B = ''3b''"
  "levelToString A3U = ''3u''"
  "levelToString A3A = ''3a''"
  "levelToString A4 = ''4''"
  "levelToString A4F = ''4f''"
  "levelToString A4E = ''4e''"
  "levelToString X1A = ''x1a''"
  "levelToString X3 = ''x3''"
  "levelToString X4 = ''x4''"
  "levelToString X6 = ''x6''"
  "levelToString E1 = ''e1''"
  "levelToString VT1 = ''vt1''"
  "levelToString VT3 = ''vt3''"
  "levelToString X4P = ''x4p''"
  "levelToString X5G = ''x5g''"
  "levelToString X5N = ''x5n''"
  "levelToString X5PG = ''x5pg''"
  "levelToString X6N = ''x6n''"
  "levelToString X6P = ''x6p''"
  "levelToString VT2 = ''vt2''"
  by (simp_all add: levelToString_def levelRow_def kLevelTable_def)

lemma levelFamily_simps:
  "levelFamily A1B = PDFA"
  "levelFamily A1A = PDFA"
  "levelFamily A2B = PDFA"
  "levelFamily A2U = PDFA"
  "levelFamily A2A = PDFA"
  "levelFamily A3B = PDFA"
  "levelFamily A3U = PDFA"
  "levelFamily A3A = PDFA"
  "levelFamily A4 = PDFA"
  "levelFamily A4F = PDFA"
  "levelFamily A4E = PDFA"
  "levelFamily X1A = PDFX"
  "levelFamily X3 = PDFX"
  "levelFamily X4 = PDFX"
  "levelFamily X6 = PDFX"
  "levelFamily E1 = PDFE"
  "levelFamily VT1 = PDFVT"
  "levelFamily VT3 = PDFVT"
  "levelFamily X4P = PDFX"
  "levelFamily X5G = PDFX"
  "levelFamily X5N = PDFX"
  "levelFamily X5PG = PDFX"
  "levelFamily X6N = PDFX"
  "levelFamily X6P = PDFX"
  "levelFamily VT2 = PDFVT"
  by (simp_all add: levelFamily_def levelRow_def kLevelTable_def)

lemma levelName_plain: "levelName (levelToString l) = levelToString l"
  by (cases l) (simp_all add: levelToString_simps levelName_def to_lower_def is_upper_def
      starts_with_def is_digit_def)

lemma lower_prefix_chars:
  "to_lower CHR ''P'' = CHR ''p''" "to_lower CHR ''D'' = CHR ''d''" "to_lower CHR ''F'' = CHR ''f''"
  "to_lower CHR ''A'' = CHR ''a''" "to_lower CHR ''/'' = CHR ''/''" "to_lower CHR ''-'' = CHR ''-''"
  "to_lower CHR ''_'' = CHR ''_''"
  by (simp_all add: to_lower_def is_upper_def char_of_def bit_simps)

lemma levelName_prefix:
  assumes t: "map to_lower t = t"
    "filter (\<lambda>c. \<not> (c = CHR ''-'' \<or> c = CHR ''/'' \<or> c = CHR '' '' \<or> c = CHR ''_'')) t = t"
  shows "t \<noteq> [] \<Longrightarrow> is_digit (t ! 0) \<Longrightarrow> levelName (''PDF/A-'' @ t) = t"
    and "t \<noteq> [] \<Longrightarrow> t ! 0 = CHR ''x'' \<Longrightarrow> levelName (''PDF_'' @ t) = t"
proof -
  have a: "map to_lower (''PDF/A-'' @ t) = ''pdf/a-'' @ t"
    and b: "map to_lower (''PDF_'' @ t) = ''pdf_'' @ t"
    by (simp_all only: append.simps list.map lower_prefix_chars t(1))
  have pa: "starts_with (''pdf/a-'' @ t) ''pdf''" and pb: "starts_with (''pdf_'' @ t) ''pdf''"
    by (simp_all add: starts_with_def)
  show "t \<noteq> [] \<Longrightarrow> is_digit (t ! 0) \<Longrightarrow> levelName (''PDF/A-'' @ t) = t"
    unfolding levelName_def a Let_def using t(2) by (simp add: pa[simplified])
  show "t \<noteq> [] \<Longrightarrow> t ! 0 = CHR ''x'' \<Longrightarrow> levelName (''PDF_'' @ t) = t"
    unfolding levelName_def b Let_def using t(2) by (simp add: pb[simplified])
qed

lemma levelToString_plain_chars:
  "map to_lower (levelToString l) = levelToString l"
  "filter (\<lambda>c. \<not> (c = CHR ''-'' \<or> c = CHR ''/'' \<or> c = CHR '' '' \<or> c = CHR ''_''))
     (levelToString l) = levelToString l"
  "levelToString l \<noteq> []"
  by (cases l; simp add: levelToString_simps to_lower_def is_upper_def)+

lemma levelToString_head:
  "levelFamily l = PDFA \<Longrightarrow> is_digit (levelToString l ! 0)"
  "levelFamily l = PDFX \<Longrightarrow> levelToString l ! 0 = CHR ''x''"
  by (cases l; simp add: levelToString_simps levelFamily_simps is_digit_def)+

lemmas levelName_prefixed =
  levelName_prefix(1)[OF levelToString_plain_chars levelToString_head(1)]
  levelName_prefix(2)[OF levelToString_plain_chars levelToString_head(2)]

text \<open>
  C42. Level names are a faithful encoding: \<^verbatim>\<open>levelFromString\<close> accepts a text
  exactly when it is the name \<^verbatim>\<open>levelToString\<close> prints for some level, and returns
  that level; so no two levels share a name and the table's fall-back row is never used.
\<close>

theorem level_names_roundtrip:
  "levelFromString s = Some l \<longleftrightarrow> s = levelToString l"
  using levelFromString_levelToString levelFromString_Some by blast

text \<open>
  C40. A profile may name a level with its standard's prefix: for every level,
  \<^verbatim>\<open>levelName\<close> followed by \<^verbatim>\<open>levelFromString\<close> reads the plain name as that
  level, and the name after "PDF/A-" (for the PDF/A levels) or "PDF_" (for the PDF/X
  levels) too.
\<close>

theorem levelName_reads_standard_names:
  "levelFromString (levelName (levelToString l)) = Some l \<and>
   (levelFamily l = PDFA \<longrightarrow> levelFromString (levelName (''PDF/A-'' @ levelToString l)) = Some l) \<and>
   (levelFamily l = PDFX \<longrightarrow> levelFromString (levelName (''PDF_'' @ levelToString l)) = Some l)"
  by (intro conjI impI) (simp_all only: levelName_plain levelName_prefixed levelFromString_levelToString)

theorem levelName_reads_standard_names_witness:
  "levelFromString (levelName (''PDF/A-'' @ levelToString A2B)) = Some A2B"
  using levelName_reads_standard_names[of A2B] by (simp only: levelFamily_simps)

text \<open>
  The levels that can only be checked are exactly those whose rules rely on assets
  outside the file: an external output intent or reference XObjects.
\<close>

lemma verify_only_levels_need_external_assets:
  "levelVerifyOnly l \<longleftrightarrow>
     externalIntent (mkCtx d (o'\<lparr>level := l\<rparr>) r) \<or> allowRefXObjects (mkCtx d (o'\<lparr>level := l\<rparr>) r)"
  by (cases l) (simp_all add: level_defs externalIntent_def allowRefXObjects_def mkCtx_def)

end
