(* ===== verification/Signature.thy ===== *)
theory Signature
  imports Levels
begin

text \<open>
  Signing (\<^verbatim>\<open>sign.cpp\<close>): \<^verbatim>\<open>applySignature\<close> finds the signature placeholder in
  the written file, fills in the byte range, has everything outside the placeholder signed by
  the callback of the options and writes the signature's hexadecimal digits into the
  placeholder. The theorem shows that a signed file is consistent: the callback signed exactly
  the bytes the byte range covers, which are all bytes but the placeholder, and the placeholder
  holds the signature.
\<close>

section \<open>The operation\<close>

definition kPlaceholderMark :: string where
  "kPlaceholderMark = ''/Contents <''"

text \<open>The loop over the marks: the placeholder's position and its hexadecimal range.\<close>

function find_placeholder :: "string \<Rightarrow> nat \<Rightarrow> nat option \<Rightarrow> (nat \<times> nat \<times> nat) option" where
  "find_placeholder body wantHex at =
     (case at of
        None \<Rightarrow> None
      | Some c \<Rightarrow>
          let start = c + length kPlaceholderMark
          in case find_idx_from (\<lambda>x. x = CHR ''>'') body start of
               None \<Rightarrow> None
             | Some hexEnd \<Rightarrow>
                 if hexEnd - start \<noteq> wantHex \<or>
                    (case find_idx_from (\<lambda>x. x \<noteq> CHR ''0'') body start of Some k \<Rightarrow> k < hexEnd | None \<Rightarrow> False)
                 then find_placeholder body wantHex (find_from kPlaceholderMark body (c + 1))
                 else Some (c, start, hexEnd))"
  by pat_completeness auto
termination
proof (relation "measure (\<lambda>(body, w, at). case at of None \<Rightarrow> 0 | Some c \<Rightarrow> Suc (length body) - c)", goal_cases)
  case (2 body w at c start e)
  have "c < length body"
    using 2(3) by (auto simp: find_idx_from_def search 2(2))
  then show ?case
    by (cases "find_from kPlaceholderMark body (c + 1)")
      (auto dest!: find_from_Some(1) simp: 2(1))
qed simp

declare find_placeholder.simps [simp del]

definition hex_digit :: "nat \<Rightarrow> char" where
  "hex_digit n = ''0123456789abcdef'' ! n"

definition hex_of :: "string \<Rightarrow> string" where
  "hex_of der = concat (map (\<lambda>c. [hex_digit (drop_bit 4 (ord c)), hex_digit (ord c AND 0x0F)]) der)"

text \<open>\<^verbatim>\<open>std::string::replace\<close> of the \<open>n\<close> characters at \<open>p\<close>.\<close>

definition replace_at :: "string \<Rightarrow> nat \<Rightarrow> nat \<Rightarrow> string \<Rightarrow> string" where
  "replace_at s p n t = take p s @ t @ drop (p + n) s"

definition byte_range :: "nat \<Rightarrow> nat \<Rightarrow> nat \<Rightarrow> string" where
  "byte_range r1 r2 r3 = ''[0 '' @ nat_str r1 @ '' '' @ nat_str r2 @ '' '' @ nat_str r3 @ '']''"

text \<open>Where the byte range goes: its brackets, or the error.\<close>

definition find_byte_range :: "string \<Rightarrow> nat \<Rightarrow> string + nat \<times> nat" where
  "find_byte_range body c =
     (case (case rfind_upto ''/ByteRange'' body c of Some br \<Rightarrow> Some br | None \<Rightarrow> find_str ''/ByteRange'' body) of
        None \<Rightarrow> Inl ''ByteRange placeholder not found''
      | Some br \<Rightarrow>
          (case find_idx_from (\<lambda>x. x = CHR ''['') body br of
             None \<Rightarrow> Inl ''ByteRange placeholder is malformed''
           | Some brOpen \<Rightarrow>
               (case find_idx_from (\<lambda>x. x = CHR '']'') body brOpen of
                  None \<Rightarrow> Inl ''ByteRange placeholder is malformed''
                | Some brClose \<Rightarrow> Inr (brOpen, brClose))))"

definition applySignature :: "(string \<Rightarrow> string option) \<Rightarrow> nat \<Rightarrow> string \<Rightarrow> string + string" where
  "applySignature sign reserve body =
     (case find_placeholder body (reserve * 2) (find_str kPlaceholderMark body) of
        None \<Rightarrow> Inl ''signature placeholder not found in the written file''
      | Some (c, hexStart, hexEnd) \<Rightarrow>
          let gapStart = hexStart - 1; gapEnd = hexEnd + 1; r3 = length body - gapEnd
          in case find_byte_range body c of
               Inl err \<Rightarrow> Inl err
             | Inr (brOpen, brClose) \<Rightarrow>
                 let fill = byte_range gapStart gapEnd r3; span = brClose - brOpen + 1
                 in if length fill > span then Inl ''ByteRange does not fit the reserved space''
                    else let body = replace_at body brOpen span (fill @ replicate (span - length fill) CHR '' '');
                             signedData = substr body 0 gapStart @ substr body gapEnd r3
                         in case sign signedData of
                              None \<Rightarrow> Inl ''the signing callback produced no signature''
                            | Some der \<Rightarrow>
                                if der = [] then Inl ''the signing callback produced no signature''
                                else let capacity = hexEnd - hexStart
                                     in if length der * 2 > capacity
                                        then Inl ''signature is larger than the reserved space; raise signReserveBytes''
                                        else Inr (replace_at body hexStart capacity
                                               (hex_of der @ replicate (capacity - length (hex_of der)) CHR ''0'')))"

section \<open>A signed file is consistent\<close>

lemma find_idx_from_Some [search]:
  "find_idx_from f s i = Some k \<Longrightarrow> i \<le> k \<and> k < length s \<and> f (s ! k) \<and> (\<forall>j. i \<le> j \<longrightarrow> j < k \<longrightarrow> \<not> f (s ! j))"
proof -
  assume "find_idx_from f s i = Some k"
  then obtain m where m: "find_idx f (drop i s) = Some m" "k = i + m"
    by (auto simp: find_idx_from_def)
  then have "m < length (drop i s)" "f (drop i s ! m)" and n: "\<forall>j<m. \<not> f (drop i s ! j)"
    by (simp_all add: find_idx_Some)
  moreover have "\<not> f (s ! j)" if "i \<le> j" "j < k" for j
    using n[rule_format, of "j - i"] that m(2) \<open>m < length (drop i s)\<close> by simp
  ultimately show ?thesis using m(2) by auto
qed

lemma find_placeholder_Some:
  "find_placeholder body w at = Some (c, hs, he) \<Longrightarrow>
     hs = c + 11 \<and> hs \<le> he \<and> he < length body \<and> he - hs = w"
proof (induction body w at rule: find_placeholder.induct)
  case (1 body w at)
  then obtain c' where at: "at = Some c'" by (cases at) (simp_all add: find_placeholder.simps)
  let ?s = "c' + length kPlaceholderMark"
  from 1 at obtain e where e: "find_idx_from (\<lambda>x. x = CHR ''>'') body ?s = Some e"
    by (cases "find_idx_from (\<lambda>x. x = CHR ''>'') body ?s") (simp_all add: find_placeholder.simps Let_def)
  let ?skip = "e - ?s \<noteq> w \<or>
    (case find_idx_from (\<lambda>x. x \<noteq> CHR ''0'') body ?s of Some k \<Rightarrow> k < e | None \<Rightarrow> False)"
  show ?case
  proof (cases ?skip)
    case True
    with "1.prems" at e have "find_placeholder body w (find_from kPlaceholderMark body (c' + 1)) = Some (c, hs, he)"
      by (simp add: find_placeholder.simps[of _ _ "Some _"] Let_def)
    with "1.IH"[OF at refl e True] show ?thesis .
  next
    case False
    with "1.prems" at e have "c = c'" "hs = ?s" "he = e" and "e - ?s = w"
      by (auto simp: find_placeholder.simps[of _ _ "Some _"] Let_def)
    with find_idx_from_Some[OF e] show ?thesis by (simp add: kPlaceholderMark_def)
  qed
qed

lemma hex_of_length: "length (hex_of der) = 2 * length der"
  by (induction der) (simp_all add: hex_of_def)

lemma replace_at_length:
  "p + n \<le> length s \<Longrightarrow> length t = n \<Longrightarrow> length (replace_at s p n t) = length s"
  by (simp add: replace_at_def)

lemma replace_at_substr: "p + n \<le> length s \<Longrightarrow> length t = n \<Longrightarrow> substr (replace_at s p n t) p n = t"
  by (simp add: replace_at_def substr_def)

lemma replace_at_outside:
  assumes "p + n \<le> length s" "length t = n" "a \<le> p" "p + n \<le> b"
  shows "take a (replace_at s p n t) = take a s" "drop b (replace_at s p n t) = drop b s"
  using assms by (simp_all add: replace_at_def min_def)

lemma at_str_replace:
  assumes "p + n \<le> length s" "length t = n" "at_str s k u" "k + length u \<le> p \<or> p + n \<le> k"
  shows "at_str (replace_at s p n t) k u"
proof -
  have l: "length (replace_at s p n t) = length s" using assms by (simp add: replace_at_length)
  have "take (length u) (drop k (replace_at s p n t)) = take (length u) (drop k s)"
    using assms(4)
  proof
    assume k: "k + length u \<le> p"
    have "take (length u) (drop k x) = drop k (take (k + length u) x)" for x :: string
      by (simp add: drop_take)
    then show ?thesis using replace_at_outside(1)[OF assms(1,2) k order_refl] by simp
  next
    assume "p + n \<le> k"
    then show ?thesis using replace_at_outside(2)[OF assms(1,2) order_refl] by simp
  qed
  then show ?thesis using assms(3) l by (simp add: at_str_def substr_def)
qed

lemma at_str_filled:
  assumes "p + n \<le> length s" "length (u @ v) = n"
  shows "at_str (replace_at s p n (u @ v)) p u"
  using assms by (simp add: at_str_def substr_def replace_at_def)

lemma find_byte_range_Inr: "find_byte_range body c = Inr (a, b) \<Longrightarrow> a \<le> b \<and> b < length body"
  by (auto simp: find_byte_range_def split: option.splits dest!: find_idx_from_Some)

text \<open>
  C7. A file that \<^verbatim>\<open>applySignature\<close> signed has the length of the written file; the
  placeholder (from \<open>r1\<close> to \<open>r2\<close>) holds the digits of the signature, padded with zeros
  to the reserved size; and the callback signed exactly the bytes of the final file outside the
  placeholder, so the signature covers the byte range itself. When the byte range array does not
  enclose the placeholder, the final file says \<^verbatim>\<open>[0 r1 r2 rest]\<close> there.
\<close>

theorem applySignature_covers_file:
  assumes "applySignature sign reserve body = Inr out"
  shows "\<exists>c r1 r2 der a b.
    find_placeholder body (reserve * 2) (find_str kPlaceholderMark body) = Some (c, r1 + 1, r2 - 1) \<and>
    find_byte_range body c = Inr (a, b) \<and>
    length out = length body \<and> r2 \<le> length out \<and> r2 - r1 = reserve * 2 + 2 \<and>
    sign (take r1 out @ drop r2 out) = Some der \<and> der \<noteq> [] \<and>
    substr out (r1 + 1) (reserve * 2) = hex_of der @ replicate (2 * (reserve - length der)) CHR ''0'' \<and>
    (b < r1 \<or> r2 \<le> a \<longrightarrow> at_str out a (byte_range r1 r2 (length out - r2)))"
proof -
  from assms obtain c hs he where ph: "find_placeholder body (reserve * 2) (find_str kPlaceholderMark body) = Some (c, hs, he)"
    by (auto simp: applySignature_def split: option.splits)
  from find_placeholder_Some[OF ph] have h: "hs = c + 11" "hs \<le> he" "he < length body" "he - hs = reserve * 2"
    by auto
  from assms ph obtain a b where br: "find_byte_range body c = Inr (a, b)"
    by (auto simp: applySignature_def Let_def split: sum.splits)
  define r1 r2 where r: "r1 = hs - 1" "r2 = he + 1"
  define f where "f = byte_range r1 r2 (length body - r2)"
  define sp where "sp = b - a + 1"
  define mid where "mid = replace_at body a sp (f @ replicate (sp - length f) CHR '' '')"
  from find_byte_range_Inr[OF br] have ab: "a + sp \<le> length body" by (simp add: sp_def)
  from assms ph br have fits: "length f \<le> sp"
    by (auto simp: applySignature_def Let_def f_def r sp_def split: if_splits)
  have lm: "length mid = length body" unfolding mid_def using ab fits by (intro replace_at_length) auto
  from assms ph br fits obtain der where der: "sign (substr mid 0 r1 @ substr mid r2 (length body - r2)) = Some der"
      "der \<noteq> []" "length der * 2 \<le> he - hs"
    and out: "out = replace_at mid hs (he - hs) (hex_of der @ replicate (he - hs - length (hex_of der)) CHR ''0'')"
    by (auto simp: applySignature_def Let_def f_def r sp_def mid_def split: if_splits option.splits)
  have p: "hs + (he - hs) \<le> length mid"
    "length (hex_of der @ replicate (he - hs - length (hex_of der)) CHR ''0'') = he - hs"
    using h lm der(3) by (auto simp: hex_of_length)
  have lo: "length out = length body" unfolding out using replace_at_length[OF p] lm by simp
  have "r1 \<le> hs" "hs + (he - hs) \<le> r2" using h by (auto simp: r)
  then have o: "take r1 out = take r1 mid" "drop r2 out = drop r2 mid"
    unfolding out by (rule replace_at_outside[OF p])+
  have sg: "sign (take r1 out @ drop r2 out) = Some der"
    using der(1) lm unfolding o by (simp add: substr_def)
  have hx: "substr out hs (he - hs) = hex_of der @ replicate (he - hs - length (hex_of der)) CHR ''0''"
    unfolding out by (rule replace_at_substr[OF p])
  have "at_str out a f" if "b < r1 \<or> r2 \<le> a"
  proof -
    have "at_str mid a f" unfolding mid_def using ab fits by (intro at_str_filled) auto
    moreover have "a + length f \<le> hs \<or> hs + (he - hs) \<le> a"
      using that fits h find_byte_range_Inr[OF br] by (auto simp: r sp_def)
    ultimately show ?thesis unfolding out using at_str_replace[OF p] by blast
  qed
  moreover have "r1 + 1 = hs" "r2 - 1 = he" "r2 - r1 = reserve * 2 + 2" "r2 \<le> length out"
    using h lo by (auto simp: r)
  ultimately show ?thesis
    using ph br lo sg der(2) hx h(4)
    by (intro exI[of _ c] exI[of _ r1] exI[of _ r2] exI[of _ der] exI[of _ a] exI[of _ b])
      (simp add: f_def hex_of_length algebra_simps)
qed

theorem applySignature_covers_file_witness:
  "applySignature (\<lambda>d. Some ''A'') 2 ''/ByteRange [0 99 99 99]/Contents <0000>'' =
     Inr ''/ByteRange [0 33 39 0] /Contents <4100>'' \<and>
   (\<exists>c r1 r2 der a b.
    find_placeholder ''/ByteRange [0 99 99 99]/Contents <0000>'' (2 * 2)
      (find_str kPlaceholderMark ''/ByteRange [0 99 99 99]/Contents <0000>'') = Some (c, r1 + 1, r2 - 1) \<and>
    find_byte_range ''/ByteRange [0 99 99 99]/Contents <0000>'' c = Inr (a, b) \<and>
    Some ''A'' = Some der \<and> r2 - r1 = 6)"
proof -
  have a: "applySignature (\<lambda>d. Some ''A'') 2 ''/ByteRange [0 99 99 99]/Contents <0000>'' =
     Inr ''/ByteRange [0 33 39 0] /Contents <4100>''" by code_simp
  show ?thesis
    by (rule conjI[OF a]) (use applySignature_covers_file[OF a] in fastforce)
qed

end
