(* ===== verification/Engine.thy ===== *)
theory Engine
  imports Signature
begin

text \<open>
  One conversion (\<^verbatim>\<open>convertOnce\<close> of \<^verbatim>\<open>engine.cpp\<close>): input checks, the sequence of
  passes over an open document, serialization, signing and the result, with its helpers
  (\<^verbatim>\<open>jpegDims\<close>, \<^verbatim>\<open>wrapJpegAsPdf\<close>, \<^verbatim>\<open>detectSecurityHandler\<close>,
  \<^verbatim>\<open>serialize\<close>) and \<^verbatim>\<open>fmtFixed\<close> of \<^verbatim>\<open>util.hh\<close>. The PDF library, and the
  passes themselves, are parameters (the record \<open>engine\<close>): a pass takes the context and
  returns it changed, with the exception it threw if it threw one. Timing and tracing only log
  and are left out.
\<close>

section \<open>Numbers and images\<close>

definition strip_zeros :: "string \<Rightarrow> string" where
  "strip_zeros f = rev (dropWhile (\<lambda>c. c = CHR ''0'') (rev f))"

text \<open>The digits after the point: padded to the precision, trailing zeros dropped.\<close>

definition frac_text :: "nat \<Rightarrow> nat \<Rightarrow> string" where
  "frac_text decimals frac =
     (let f = nat_str frac; f = strip_zeros (zeros (decimals - length f) @ f)
      in if f = [] then [] else CHR ''.'' # f)"

definition fixed_text :: "bool \<Rightarrow> nat \<Rightarrow> nat \<Rightarrow> string" where
  "fixed_text neg sc d =
     (let whole = sc div 10 ^ d; frac = sc mod 10 ^ d
      in (if neg \<and> (whole \<noteq> 0 \<or> frac \<noteq> 0) then ''-'' else []) @ nat_str whole @
         (if d > 0 \<and> frac \<noteq> 0 then frac_text d frac else []))"

definition fmtFixed :: "double \<Rightarrow> int \<Rightarrow> string" where
  "fmtFixed v0 decimals =
     (if \<not> finite_d v0 then ''0''
      else
        let lim = of_int_d 32767;
            v1 = (if less_d lim v0 then lim else v0);
            v2 = (if less_d v1 (neg_d lim) then neg_d lim else v1);
            d = nat (min 6 (max 0 decimals));
            neg = less_d v2 zero_d;
            v = (if neg then neg_d v2 else v2);
            scaled = nat (trunc_d (add_d (mul_d v (of_int_d (10 ^ d))) (lit_d 5 1)))
        in fixed_text neg scaled d)"

abbreviation byte_at :: "string \<Rightarrow> nat \<Rightarrow> nat" where
  "byte_at d i \<equiv> ord (d ! i)"

definition is_sof :: "nat \<Rightarrow> bool" where
  "is_sof m \<longleftrightarrow> (0xC0 \<le> m \<and> m \<le> 0xC3) \<or> (0xC5 \<le> m \<and> m \<le> 0xC7) \<or>
     (0xC9 \<le> m \<and> m \<le> 0xCB) \<or> (0xCD \<le> m \<and> m \<le> 0xCF)"

function jpeg_loop :: "string \<Rightarrow> nat \<Rightarrow> (nat \<times> nat \<times> nat) option" where
  "jpeg_loop d i =
     (if i + 9 < length d then
        if byte_at d i \<noteq> 0xFF then jpeg_loop d (i + 1)
        else
          let m = byte_at d (i + 1)
          in if m = 0xD8 \<or> (0xD0 \<le> m \<and> m \<le> 0xD7) \<or> m = 0x01 then jpeg_loop d (i + 2)
             else
               let len = push_bit 8 (byte_at d (i + 2)) OR byte_at d (i + 3)
               in if is_sof m then
                    (let h = push_bit 8 (byte_at d (i + 5)) OR byte_at d (i + 6);
                         w = push_bit 8 (byte_at d (i + 7)) OR byte_at d (i + 8);
                         comps = byte_at d (i + 9)
                     in if w > 0 \<and> h > 0 \<and> (comps = 1 \<or> comps = 3 \<or> comps = 4)
                        then Some (w, h, comps) else None)
                  else jpeg_loop d (i + (2 + len))
      else None)"
  by pat_completeness auto
termination
  by (relation "measure (\<lambda>(d, i). length d - i)") auto

declare jpeg_loop.simps [simp del]

definition jpegDims :: "string \<Rightarrow> (nat \<times> nat \<times> nat) option" where
  "jpegDims d =
     (if length d < 4 \<or> byte_at d 0 \<noteq> 0xFF \<or> byte_at d 1 \<noteq> 0xD8 then None else jpeg_loop d 2)"

text \<open>What \<^verbatim>\<open>wrapJpegAsPdf\<close> hands to the PDF writer.\<close>

record JpegPage =
  jp_data :: string
  jp_width :: nat
  jp_height :: nat
  jp_colorSpace :: string
  jp_content :: string
  jp_mediaBox :: string

definition jpeg_page :: "string \<Rightarrow> nat \<Rightarrow> nat \<Rightarrow> nat \<Rightarrow> JpegPage" where
  "jpeg_page data w h comps =
     (let c72 = of_int_d 72;
          pw = div_d (mul_d (of_int_d (int w)) c72) (of_int_d 300);
          ph = div_d (mul_d (of_int_d (int h)) c72) (of_int_d 300);
          (pw, ph) = (if less_d pw c72 then (c72, mul_d ph (div_d c72 pw)) else (pw, ph));
          (pw, ph) = (if less_d ph c72 then (mul_d pw (div_d c72 ph), c72) else (pw, ph))
      in \<lparr>jp_data = data, jp_width = w, jp_height = h,
          jp_colorSpace = (if comps = 1 then ''/DeviceGray'' else if comps = 4 then ''/DeviceCMYK'' else ''/DeviceRGB''),
          jp_content = ''q '' @ fmtFixed pw 2 @ '' 0 0 '' @ fmtFixed ph 2 @ '' 0 0 cm /Im0 Do Q'',
          jp_mediaBox = ''[0 0 '' @ fmtFixed pw 2 @ '' '' @ fmtFixed ph 2 @ '']''\<rparr>)"

section \<open>The parameters of a conversion\<close>

type_synonym 'd pass = "'d Ctx \<Rightarrow> 'd Ctx \<times> exn option"

datatype ObjectStreams = Disable | Generate

record WriterOptions =
  w_linearize :: bool
  w_objectStreams :: ObjectStreams
  w_version :: string

text \<open>
  \<open>e_write\<close> is the final write with the settings of \<^verbatim>\<open>serialize\<close>, \<open>e_writePlain\<close> the
  rewrite without encryption, \<open>e_selfCheck\<close> the strict re-read of the output (whether it
  raised warnings), \<open>e_probeFilter\<close> the name of the security handler as the library sees it.
\<close>

record ('d, 'h) engine =
  lib :: "('d, 'h) qpdf"
  e_sizeIsInteger :: "'d \<Rightarrow> bool"
  e_objectCount :: "'d \<Rightarrow> int"
  e_setSize :: "int \<Rightarrow> 'd \<Rightarrow> 'd"
  e_isEncrypted :: "'d \<Rightarrow> bool"
  e_writePlain :: "'d \<Rightarrow> exn + string"
  e_write :: "WriterOptions \<Rightarrow> 'd \<Rightarrow> exn + string"
  e_selfCheck :: "string \<Rightarrow> exn + bool"
  e_probeFilter :: "string \<Rightarrow> string option"
  e_writeJpegPage :: "JpegPage \<Rightarrow> exn + string"
  applyProfileFixes :: "Options \<Rightarrow> Issue list \<Rightarrow> (Options \<times> Issue list) \<times> exn option"
  prepareColorJob :: "Options \<Rightarrow> Issue list \<Rightarrow> (Options \<times> Issue list) \<times> exn option"
  passAnalyze :: "'d pass"
  passProfile :: "string \<Rightarrow> 'd pass"
  passProfileFixups :: "'d pass"
  passStructure :: "'d pass"
  checkFileSyntax :: "string \<Rightarrow> bool \<Rightarrow> 'd pass"
  passPages :: "'d pass"
  passImageResolution :: "'d pass"
  passOcr :: "'d pass"
  passCompleteResources :: "'d pass"
  passColorConvert :: "'d pass"
  passColor :: "'d pass"
  passPrint :: "'d pass"
  passOutlineFonts :: "'d pass"
  passFonts :: "'d pass"
  passGlyphClean :: "'d pass"
  passTagging :: "'d pass"
  addSignaturePlaceholder :: "'d pass"
  passBookmarks :: "'d pass"
  passMetadata :: "'d pass"
  passLimits :: "'d pass"

definition wrapJpegAsPdf :: "('d, 'h) engine \<Rightarrow> string \<Rightarrow> exn + string" where
  "wrapJpegAsPdf e data =
     (case jpegDims data of
        None \<Rightarrow> Inr []
      | Some (w, h, comps) \<Rightarrow> e_writeJpegPage e (jpeg_page data w h comps))"

definition detectSecurityHandler :: "('d, 'h) engine \<Rightarrow> string \<Rightarrow> string" where
  "detectSecurityHandler e data =
     (case e_probeFilter e data of
        Some f \<Rightarrow> (if f \<noteq> [] \<and> hd f = CHR ''/'' then tl f else f)
      | None \<Rightarrow>
          let hay = take 4096 data;
              tail = (if length data > 4096 then drop (length data - 4096) data else []);
              named = (\<lambda>chunk.
                if contains chunk ''EBX_HANDLER'' then Some ''EBX_HANDLER''
                else if contains chunk ''ADEPT'' then Some ''ADEPT''
                else if contains chunk ''FOPN'' then Some ''FOPN_foweb'' else None)
          in case named hay of Some h \<Rightarrow> h | None \<Rightarrow> (case named tail of Some h \<Rightarrow> h | None \<Rightarrow> []))"

section \<open>Serialization\<close>

definition writer_options :: "'d Ctx \<Rightarrow> WriterOptions" where
  "writer_options ctx =
     (let signing = (signDocument (opt ctx) \<noteq> None);
          objs = (if signing then Disable else Generate)
      in \<lparr>w_linearize = linearize (opt ctx) \<and> \<not> signing,
          w_objectStreams = (if pdf14Target ctx then Disable else objs),
          w_version =
            (if pdf14Target ctx then ''1.4''
             else if \<not> isA ctx then (if pdf20Print ctx then ''2.0'' else ''1.6'')
             else if part ctx \<ge> 4 then ''2.0'' else if dualX ctx then ''1.6'' else ''1.7'')\<rparr>)"

definition serialize :: "('d, 'h) engine \<Rightarrow> 'd pass" where
  "serialize e ctx =
     (case e_write e (writer_options ctx) (ctx_pdf ctx) of
        Inl x \<Rightarrow> (ctx, Some x)
      | Inr out \<Rightarrow>
          let ctx = ctx\<lparr>res := (res ctx)\<lparr>pdf := out\<rparr>\<rparr>
          in case e_selfCheck e out of
               Inr True \<Rightarrow> (fatal ''SERIALIZE_ERROR'' ''output failed self-verification after write'' ctx, None)
             | Inr False \<Rightarrow> (ctx, None)
             | Inl (StdExn m) \<Rightarrow> (fatal ''SERIALIZE_ERROR'' (''output failed self-verification: '' @ m) ctx, None)
             | Inl OtherExn \<Rightarrow> (ctx, Some OtherExn))"

section \<open>The nesting check\<close>

definition is_form :: "('d, 'h) qpdf \<Rightarrow> 'h \<Rightarrow> bool" where
  "is_form q x \<longleftrightarrow> q_isStream q x \<and> q_isName q (q_getKey q (q_getDict q x) ''/Subtype'') \<and>
     q_getName q (q_getKey q (q_getDict q x) ''/Subtype'') = ''/Form''"

text \<open>The nodes a node pushes: its kids and its form XObjects.\<close>

definition nest_children :: "('d, 'h) qpdf \<Rightarrow> 'h \<Rightarrow> 'h list" where
  "nest_children q node =
     (let dict = (if q_isStream q node then q_getDict q node else node);
          kids = q_getKey q dict ''/Kids'';
          resrc = q_getKey q dict ''/Resources'';
          xo = (if q_isDictionary q resrc then q_getKey q resrc ''/XObject'' else q_newNull q)
      in (if q_isArray q kids then q_items q kids else []) @
         (if q_isDictionary q xo then filter (is_form q) (map (q_getKey q xo) (q_getKeys q xo)) else []))"

text \<open>The depth-first walk; the answer is whether the document is refused.\<close>

function nest_loop :: "('d, 'h) qpdf \<Rightarrow> ('h \<times> nat) list \<Rightarrow> (nat \<times> nat) set \<Rightarrow> nat \<Rightarrow> nat \<Rightarrow> bool" where
  "nest_loop q [] seen visited maxDepth = False"
| "nest_loop q ((node, d) # stack) seen visited maxDepth =
     (let maxDepth = (if d > maxDepth then d else maxDepth)
      in if maxDepth > 500 \<or> visited + 1 > 5000000 then True
         else if \<not> q_isDictionary q node \<and> \<not> q_isStream q node then nest_loop q stack seen (visited + 1) maxDepth
         else if q_isIndirect q node \<and> q_getObjGen q node \<in> seen then nest_loop q stack seen (visited + 1) maxDepth
         else nest_loop q (rev (map (\<lambda>x. (x, d + 1)) (nest_children q node)) @ stack)
                (if q_isIndirect q node then insert (q_getObjGen q node) seen else seen) (visited + 1) maxDepth)"
  by pat_completeness auto
termination
  by (relation "measure (\<lambda>(q, stack, seen, visited, maxDepth). 5000000 - visited)") auto

declare nest_loop.simps(2) [simp del]

definition nesting_too_deep :: "('d, 'h) qpdf \<Rightarrow> 'd \<Rightarrow> bool" where
  "nesting_too_deep q doc =
     (let rootPages = q_getKey q (q_root q doc) ''/Pages''
      in nest_loop q (if q_isDictionary q rootPages then [(rootPages, 0)] else []) {} 0 0)"

section \<open>The stages\<close>

text \<open>
  A stage: whether it runs on a failed context too, its condition, and what it does. A stage
  that throws ends the sequence.
\<close>

record 'd stage =
  st_always :: bool
  st_cond :: "'d Ctx \<Rightarrow> bool"
  st_run :: "'d pass"

definition run_stage :: "'d stage \<Rightarrow> 'd pass" where
  "run_stage s ctx = (if (st_always s \<or> \<not> failed ctx) \<and> st_cond s ctx then st_run s ctx else (ctx, None))"

fun run_stages :: "'d stage list \<Rightarrow> 'd pass" where
  "run_stages [] ctx = (ctx, None)"
| "run_stages (s # ss) ctx =
     (case run_stage s ctx of (ctx', Some x) \<Rightarrow> (ctx', Some x) | (ctx', None) \<Rightarrow> run_stages ss ctx')"

abbreviation early :: "('d Ctx \<Rightarrow> bool) \<Rightarrow> 'd pass \<Rightarrow> 'd stage" where
  "early c p \<equiv> \<lparr>st_always = True, st_cond = c, st_run = p\<rparr>"

abbreviation later :: "('d Ctx \<Rightarrow> bool) \<Rightarrow> 'd pass \<Rightarrow> 'd stage" where
  "later c p \<equiv> \<lparr>st_always = False, st_cond = c, st_run = p\<rparr>"

definition early_stages :: "('d, 'h) engine \<Rightarrow> string \<Rightarrow> bool \<Rightarrow> Options \<Rightarrow> 'd stage list" where
  "early_stages e data wasEncrypted o' =
     [early (\<lambda>c. analyze o') (passAnalyze e),
      early (\<lambda>c. preflightProfile o' \<noteq> []) (passProfile e data),
      early (\<lambda>c. profileFixOps o' \<noteq> [] \<and> \<not> verifyOnly o') (passProfileFixups e),
      early (\<lambda>c. True) (passStructure e),
      early (\<lambda>c. verifyOnly o' \<and> isA c) (checkFileSyntax e data wasEncrypted)]"

definition inline_issue :: "'d pass" where
  "inline_issue ctx =
     (issue ''INLINE_IMAGE_FILTER_FIXED''
        (''re-encoded '' @ nat_str (inlineImagesFixed ctx) @ '' inline image(s) with non-conforming filters'') True ctx, None)"

definition pua_issue :: "'d pass" where
  "pua_issue ctx =
     (issue ''ACTUALTEXT_PUA_REMOVED''
        (''removed private-use-area characters from '' @ nat_str (contentPuaFixed ctx) @
         '' ActualText value(s) in content streams'') True ctx, None)"

definition sign_stage :: "Options \<Rightarrow> 'd pass" where
  "sign_stage o' ctx =
     (case signDocument o' of
        None \<Rightarrow> (ctx, None)
      | Some sign \<Rightarrow>
          (case applySignature sign (signReserveBytes o') (pdf (res ctx)) of
             Inl err \<Rightarrow> (fatal ''SIGN_FAILED'' err ctx, None)
           | Inr out \<Rightarrow>
               (issue ''DOCUMENT_SIGNED'' ''applied a PKCS#7 detached signature over the whole file'' True
                  (ctx\<lparr>res := (res ctx)\<lparr>pdf := out\<rparr>\<rparr>), None)))"

definition later_stages :: "('d, 'h) engine \<Rightarrow> Options \<Rightarrow> 'd stage list" where
  "later_stages e o' =
     [later (\<lambda>c. True) (passPages e),
      later (\<lambda>c. True) (passImageResolution e),
      later (\<lambda>c. \<not> verifyOnly o') (passOcr e),
      later (\<lambda>c. True) (passCompleteResources e),
      later (\<lambda>c. True) (passColorConvert e),
      later (\<lambda>c. True) (passColor e),
      later (\<lambda>c. True) (passPrint e),
      later (\<lambda>c. \<not> verifyOnly o') (passOutlineFonts e),
      later (\<lambda>c. True) (passFonts e),
      later (\<lambda>c. True) (passGlyphClean e),
      later (\<lambda>c. True) (passTagging e),
      later (\<lambda>c. \<not> verifyOnly o' \<and> signDocument o' \<noteq> None) (addSignaturePlaceholder e),
      later (\<lambda>c. \<not> verifyOnly o') (passBookmarks e),
      later (\<lambda>c. True) (passMetadata e),
      later (\<lambda>c. True) (passLimits e),
      later (\<lambda>c. \<not> verifyOnly o') (serialize e),
      later (\<lambda>c. inlineImagesFixed c \<noteq> 0) inline_issue,
      later (\<lambda>c. contentPuaFixed c \<noteq> 0) pua_issue,
      later (\<lambda>c. \<not> verifyOnly o' \<and> signDocument o' \<noteq> None) (sign_stage o')]"

section \<open>The result\<close>

definition classify :: "Issue list \<Rightarrow> Issue list" where
  "classify = map (\<lambda>i. if severity i = 0 then i\<lparr>severity := issueSeverity (code i)\<rparr> else i)"

definition deviation :: "Issue \<Rightarrow> bool" where
  "deviation i \<longleftrightarrow> fixed i \<and> \<not> issueIsNormalization (code i)"

definition finish :: "Options \<Rightarrow> 'd Ctx \<Rightarrow> Result" where
  "finish o' ctx =
     (let r0 = res ctx;
          r1 = r0\<lparr>issues := classify (issues r0), analysis := classify (analysis r0), ok := errorCode r0 = []\<rparr>;
          r2 = (if verifyOnly o' \<and> ok r1 then r1\<lparr>compliant := \<not> list_ex deviation (issues r1)\<rparr> else r1);
          r3 = (if \<not> ok r2 \<and> isA ctx \<and> part ctx = 1 \<and>
                   errorCode r2 \<in> {''TRANSPARENCY_P1'', ''JPX_IN_PDFA1'', ''CMYK_MIXED_P1'', ''RGB_UNDER_CMYK_P1''}
                then r2\<lparr>suggestedLevel := if conf ctx = CHR ''A'' then ''2a'' else ''2b''\<rparr> else r2)
      in if \<not> ok r3 \<and> isX ctx \<and> errorCode r3 \<in> {''TRANSPARENCY_P1'', ''JPX_IN_PDFA1'', ''X1A_COLOR_UNCONVERTIBLE''}
         then r3\<lparr>suggestedLevel := ''x4''\<rparr> else r3)"

text \<open>The two catch clauses.\<close>

definition catch_exn :: "('d, 'h) engine \<Rightarrow> Options \<Rightarrow> string \<Rightarrow> exn \<Rightarrow> Result \<Rightarrow> Result" where
  "catch_exn e o' data x r =
     (case x of
        OtherExn \<Rightarrow> r\<lparr>ok := False, errorCode := ''INTERNAL_ERROR'',
                       error := ''conversion aborted by an unrecognized error''\<rparr>
      | StdExn msg \<Rightarrow>
          if contains msg ''invalid password'' \<or> contains msg ''password'' then
            r\<lparr>ok := False, errorCode := ''PASSWORD_REQUIRED'',
              error := if password o' = [] then ''document is password-protected; supply the open password to convert''
                       else ''the supplied password did not open the document''\<rparr>
          else if contains msg ''unsupported encryption filter'' then
            (let handler = detectSecurityHandler e data
             in if handler = ''EBX_HANDLER'' \<or> handler = ''ADEPT'' then
                  r\<lparr>ok := False, errorCode := ''ENCRYPTED_ADEPT'',
                    error := ''document uses Adobe ADEPT ('' @ handler @
                      '') encryption; the content key is bound to an Adobe account and is not present in '' @
                      ''the file, so it cannot be decrypted without the owner'' @ [CHR 0x27] @ ''s ADEPT key material''\<rparr>
                else
                  r\<lparr>ok := False, errorCode := ''ENCRYPTED_UNSUPPORTED'',
                    error := ''document uses a non-standard security handler'' @
                      (if handler = [] then [] else '' ('' @ handler @ '')'') @
                      '' that requires external key material not present in the file''\<rparr>)
          else r\<lparr>ok := False, errorCode := ''PARSE_ERROR'', error := msg\<rparr>)"

section \<open>convertOnce\<close>

text \<open>Profile fixes, the color job and a wrapped image: the options, result and input to go on with.\<close>

definition prepare :: "('d, 'h) engine \<Rightarrow> Options \<Rightarrow> string \<Rightarrow> (Options \<times> Result \<times> string) \<times> exn option" where
  "prepare e o0 data =
     (let ((o1, a1), x1) = (if preflightProfile o0 \<noteq> [] \<and> \<not> verifyOnly o0
                            then applyProfileFixes e o0 [] else ((o0, []), None))
      in case x1 of
           Some x \<Rightarrow> ((o1, Result0\<lparr>analysis := a1\<rparr>, data), Some x)
         | None \<Rightarrow>
             let ((o2, a2), x2) = (if colorJobEnabled o1 \<and> \<not> verifyOnly o1
                                   then prepareColorJob e o1 a1 else ((o1, a1), None))
             in case x2 of
                  Some x \<Rightarrow> ((o2, Result0\<lparr>analysis := a2\<rparr>, data), Some x)
                | None \<Rightarrow>
                    let r = Result0\<lparr>analysis := a2, res_level := levelToString (level o2)\<rparr>
                    in if length data > 4 \<and> byte_at data 0 = 0xFF \<and> byte_at data 1 = 0xD8 then
                         (case wrapJpegAsPdf e data of
                            Inl x \<Rightarrow> ((o2, r, data), Some x)
                          | Inr wrapped \<Rightarrow>
                              if wrapped = [] then ((o2, r, data), None)
                              else ((o2, r\<lparr>issues := [mkIssue ''IMAGE_INPUT_WRAPPED''
                                      ''JPEG input wrapped as a single-page PDF (300 dpi placement)'' True 0]\<rparr>, wrapped), None))
                       else ((o2, r, data), None))"

definition ensure_size :: "('d, 'h) engine \<Rightarrow> 'd \<Rightarrow> 'd" where
  "ensure_size e d = (if e_sizeIsInteger e d then d else e_setSize e (e_objectCount e d + 1) d)"

text \<open>The active document, decrypted by a rewrite if need be, and whether it was encrypted.\<close>

definition open_active :: "('d, 'h) engine \<Rightarrow> Options \<Rightarrow> string \<Rightarrow> exn + 'd \<times> bool" where
  "open_active e o' data =
     (case q_open (lib e) data (password o') of
        Inl x \<Rightarrow> Inl x
      | Inr d0 \<Rightarrow>
          let d = ensure_size e d0
          in if e_isEncrypted e d then
               (case e_writePlain e d of
                  Inl x \<Rightarrow> Inl x
                | Inr plain \<Rightarrow>
                    (case q_open (lib e) plain [] of Inl x \<Rightarrow> Inl x | Inr d1 \<Rightarrow> Inr (ensure_size e d1, True)))
             else Inr (d, False))"

definition externalReady :: "Options \<Rightarrow> bool" where
  "externalReady o' \<longleftrightarrow> level o' = X5N \<and> externalProfileUrl o' \<noteq> [] \<and>
     length (destProfile o') \<ge> 20 \<and> substr (destProfile o') 17 3 = ''CLR''"

text \<open>The refusals before any pass runs: code, text and suggested level.\<close>

definition refusal :: "Options \<Rightarrow> 'd Ctx \<Rightarrow> (string \<times> string \<times> string) option" where
  "refusal o' ctx =
     (if ua o' \<and> \<not> isA ctx then
        Some (''UA_UNSUPPORTED_LEVEL'',
          ''PDF/UA layers only on PDF/A levels (UA-1 on parts 1-3, UA-2 on part 4)'', ''2u'')
      else if levelVerifyOnly (level o') \<and> \<not> verifyOnly o' \<and> \<not> externalReady o' then
        Some (''LEVEL_VERIFY_ONLY'',
          ''this flavour relies on externally referenced press assets, so Kura checks '' @
          ''files against it but cannot produce one; convert to the self-contained flavour instead'',
          if level o' = X6N \<or> level o' = X6P then ''x6'' else if level o' = VT2 then ''vt1'' else ''x4'')
      else None)"

definition refused :: "string \<times> string \<times> string \<Rightarrow> Result \<Rightarrow> Result" where
  "refused why r = (case why of (c, d, s) \<Rightarrow> r\<lparr>errorCode := c, error := d, suggestedLevel := s\<rparr>)"

definition clear_failed :: "Result \<Rightarrow> Result" where
  "clear_failed r = (if \<not> ok r then r\<lparr>pdf := []\<rparr> else r)"

text \<open>The passes over an open document, from the context to the result.\<close>

definition run_document :: "('d, 'h) engine \<Rightarrow> Options \<Rightarrow> string \<Rightarrow> bool \<Rightarrow> 'd Ctx \<Rightarrow> Result" where
  "run_document e o' data wasEncrypted ctx =
     (case refusal o' ctx of
        Some why \<Rightarrow> refused why (res ctx)
      | None \<Rightarrow>
          let ctx = (if wasEncrypted then issue ''ENCRYPTION_REMOVED'' ''document was encrypted; encryption removed'' True ctx else ctx)
          in if nesting_too_deep (lib e) (ctx_pdf ctx) then
               (res ctx)\<lparr>errorCode := ''NESTING_TOO_DEEP'',
                 error := ''document has pathologically nested resources or an object cycle '' @
                   ''that cannot be safely processed; the file may be malformed or crafted''\<rparr>
             else
               (case run_stages (early_stages e data wasEncrypted o' @ later_stages e o') ctx of
                  (ctx, Some x) \<Rightarrow> clear_failed (catch_exn e o' data x (res ctx))
                | (ctx, None) \<Rightarrow> clear_failed (finish o' ctx)))"

text \<open>The input buffer: bytes, or a null pointer with a size.\<close>

datatype input = Buf string | NullBuf nat

definition convertSingle :: "('d, 'h) engine \<Rightarrow> input \<Rightarrow> Options \<Rightarrow> Result" where
  "convertSingle e inp o0 =
     (case inp of
        NullBuf (Suc n) \<Rightarrow> Result0\<lparr>errorCode := ''BAD_INPUT'', error := ''no input buffer supplied''\<rparr>
      | _ \<Rightarrow>
          (case prepare e o0 (case inp of Buf d \<Rightarrow> d | NullBuf n \<Rightarrow> []) of
             ((o', r, data), Some x) \<Rightarrow> clear_failed (catch_exn e o' data x r)
           | ((o', r, data), None) \<Rightarrow>
               (case open_active e o' data of
                  Inl x \<Rightarrow> clear_failed (catch_exn e o' data x r)
                | Inr (doc, wasEncrypted) \<Rightarrow>
                    let ctx = mkCtx doc o' r;
                        ctx = (if attachXml o' \<noteq> []
                               then ctx\<lparr>invc := detectInvoice (attachXml o') (facturxProfile o') (attachXmlName o')\<rparr>
                               else ctx)
                    in run_document e o' data wasEncrypted ctx)))"

text \<open>
  Two passes when a PDF/A-2 or PDF/A-4 file is to be PDF/X as well. While a job runs, the inner
  calls of \<^verbatim>\<open>convert\<close> are calls of \<^verbatim>\<open>convertOnce\<close> with \<open>inDualPass\<close> set, which
  run a single pass.
\<close>

definition convertOnce :: "('d, 'h) engine \<Rightarrow> input \<Rightarrow> Options \<Rightarrow> Result" where
  "convertOnce e inp o0 =
     (if dualPrint o0 \<and> levelFamily (level o0) = PDFA \<and> \<not> verifyOnly o0 \<and>
         (levelPart (level o0) = 2 \<or> levelPart (level o0) = 4)
      then
        let lx = (if levelPart (level o0) = 4 then X6 else X4);
            r1 = convertSingle e inp (o0\<lparr>dualPrint := True, level := lx, signDocument := None\<rparr>)
        in if \<not> ok r1 then r1
           else
             let r2 = convertSingle e (Buf (pdf r1))
                   (o0\<lparr>dualPrint := True, preflightProfile := [], profileFixOps := [], colorJobEnabled := False,
                       hasRasterizePage := False, hasOcrPage := False\<rparr>);
                 r2 = r2\<lparr>analysis := analysis r1 @ analysis r2, issues := issues r1 @ issues r2\<rparr>
             in if ok r2 then r2\<lparr>res_level := levelToString (level o0) @ ''+'' @ levelToString lx\<rparr> else r2
      else convertSingle e inp o0)"

definition verifyPassword :: "('d, 'h) engine \<Rightarrow> string \<Rightarrow> string \<Rightarrow> bool option" where
  "verifyPassword e data pw =
     (case q_open (lib e) data pw of
        Inr d \<Rightarrow> Some True
      | Inl (StdExn m) \<Rightarrow> Some False
      | Inl OtherExn \<Rightarrow> None)"

section \<open>Laws of the stage runner\<close>

text \<open>
  A relation between the context before and after that every stage keeps and that composes is
  kept by any sequence of stages, whether it ends normally or with an exception.
\<close>

locale stage_relation =
  fixes R :: "'d Ctx \<Rightarrow> 'd Ctx \<Rightarrow> bool"
  assumes refl: "R c c" and trans: "R a b \<Longrightarrow> R b c \<Longrightarrow> R a c"
begin

definition keeps :: "'d stage \<Rightarrow> bool" where
  "keeps s \<longleftrightarrow> (\<forall>c. st_cond s c \<longrightarrow> R c (fst (st_run s c)))"

lemma run_stage_keeps: "keeps s \<Longrightarrow> R c (fst (run_stage s c))"
  by (simp add: keeps_def run_stage_def refl)

lemma run_stages_keep: "\<forall>s \<in> set ss. keeps s \<Longrightarrow> R c (fst (run_stages ss c))"
proof (induction ss arbitrary: c)
  case (Cons s ss)
  have s: "R c (fst (run_stage s c))" using Cons.prems by (simp add: run_stage_keeps)
  show ?case
  proof (cases "run_stage s c")
    case (Pair c' x)
    with s Cons show ?thesis by (cases x) (auto intro: trans)
  qed
qed (simp add: refl)

end

definition same_pdf :: "'d Ctx \<Rightarrow> 'd Ctx \<Rightarrow> bool" where
  "same_pdf c c' \<longleftrightarrow> pdf (res c') = pdf (res c)"

interpretation sp: stage_relation same_pdf
  by unfold_locales (simp_all add: same_pdf_def)

lemma issue_res [simp]:
  "pdf (res (issue c d f ctx)) = pdf (res ctx)" "errorCode (res (issue c d f ctx)) = errorCode (res ctx)"
  "ok (res (issue c d f ctx)) = ok (res ctx)" "ctx_pdf (issue c d f ctx) = ctx_pdf ctx"
  by (simp_all add: issue_def Let_def)

lemma run_stages_append:
  "run_stages (ss @ ts) c =
     (case run_stages ss c of (c', Some x) \<Rightarrow> (c', Some x) | (c', None) \<Rightarrow> run_stages ts c')"
  by (induction ss arbitrary: c) (auto split: prod.splits option.splits)

lemma run_stages_failed:
  "\<forall>s \<in> set ss. \<not> st_always s \<Longrightarrow> failed c \<Longrightarrow> run_stages ss c = (c, None)"
  by (induction ss arbitrary: c) (auto simp: run_stage_def)

lemma later_stages_not_always: "s \<in> set (later_stages e o') \<Longrightarrow> \<not> st_always s"
  by (auto simp: later_stages_def)

text \<open>
  C2. The main sequence of passes stops at a failure. The early stages (analysis, profile, profile
  fixups, structure and, in checking mode, the file syntax) all run, whatever they report; a
  fatal error that stands after them, or that a pass of the main sequence reports, keeps every
  pass that follows, the serialization and the signing from running, and the context reaches the
  result as it was then.
\<close>

theorem no_stage_after_failure:
  assumes "run_stages (early_stages e data enc o' @ take k (later_stages e o')) c = (c', None)"
    and "failed c'"
  shows "run_stages (early_stages e data enc o' @ later_stages e o') c = (c', None)"
proof -
  have "\<forall>s \<in> set (drop k (later_stages e o')). \<not> st_always s"
    using later_stages_not_always in_set_dropD by fastforce
  then have "run_stages (drop k (later_stages e o')) c' = (c', None)"
    using assms(2) by (rule run_stages_failed)
  then have "run_stages ((early_stages e data enc o' @ take k (later_stages e o')) @ drop k (later_stages e o')) c = (c', None)"
    unfolding run_stages_append[of "early_stages e data enc o' @ take k (later_stages e o')"] using assms(1) by simp
  then show ?thesis by simp
qed

section \<open>The result of a conversion\<close>

definition consistent_result :: "Result \<Rightarrow> bool" where
  "consistent_result r \<longleftrightarrow> (ok r \<longleftrightarrow> errorCode r = []) \<and> (\<not> ok r \<longrightarrow> pdf r = [])"

lemma catch_exn_fails [simp]:
  "\<not> ok (catch_exn e o' data x r)" "errorCode (catch_exn e o' data x r) \<noteq> []"
  by (auto simp: catch_exn_def Let_def split: exn.splits)

lemma finish_simps [simp]:
  "ok (finish o' ctx) \<longleftrightarrow> errorCode (res ctx) = []" "errorCode (finish o' ctx) = errorCode (res ctx)"
  "issues (finish o' ctx) = classify (issues (res ctx))"
  "analysis (finish o' ctx) = classify (analysis (res ctx))" "pdf (finish o' ctx) = pdf (res ctx)"
  by (simp_all add: finish_def Let_def)

lemma finish_compliant:
  "verifyOnly o' \<Longrightarrow> errorCode (res ctx) = [] \<Longrightarrow>
     compliant (finish o' ctx) \<longleftrightarrow> \<not> list_ex deviation (issues (finish o' ctx))"
  by (simp add: finish_def Let_def)

lemma clear_failed_simps [simp]:
  "ok (clear_failed r) = ok r" "errorCode (clear_failed r) = errorCode r" "issues (clear_failed r) = issues r"
  "analysis (clear_failed r) = analysis r" "compliant (clear_failed r) = compliant r"
  "\<not> ok r \<Longrightarrow> pdf (clear_failed r) = []" "ok r \<Longrightarrow> clear_failed r = r"
  by (simp_all add: clear_failed_def)

lemma refusal_nonempty: "refusal o' ctx = Some (c, d, s) \<Longrightarrow> c \<noteq> []"
  by (auto simp: refusal_def split: if_splits)

lemma run_document_consistent:
  assumes "\<not> ok (res ctx)" "pdf (res ctx) = []"
  shows "consistent_result (run_document e o' data enc ctx)"
proof (cases "refusal o' ctx")
  case None
  then show ?thesis
    using assms
    by (auto simp: run_document_def Let_def consistent_result_def split: option.splits prod.splits)
next
  case (Some why)
  with assms show ?thesis
    by (cases why) (auto simp: run_document_def refused_def consistent_result_def dest: refusal_nonempty)
qed

lemma prepare_result:
  "prepare e o0 data = ((o', r, data'), x) \<Longrightarrow> \<not> ok r \<and> pdf r = [] \<and> errorCode r = []"
  by (auto simp: prepare_def Result0_def Let_def split: prod.splits option.splits if_splits sum.splits)

lemma prepare_verifyOnly:
  "verifyOnly o0 \<Longrightarrow> prepare e o0 data = ((o', r, data'), x) \<Longrightarrow> o' = o0"
  by (auto simp: prepare_def Let_def split: if_splits sum.splits)

lemma mkCtx_res [simp]: "res (mkCtx d o' r) = r"
  by (simp add: mkCtx_def)

lemma convertSingle_cases:
  obtains n where "inp = NullBuf n" "n > 0" "convertSingle e inp o0 =
      Result0\<lparr>errorCode := ''BAD_INPUT'', error := ''no input buffer supplied''\<rparr>"
  | o' r data' x d where "prepare e o0 d = ((o', r, data'), Some x)"
      "convertSingle e inp o0 = clear_failed (catch_exn e o' data' x r)"
  | o' r data' x d where "prepare e o0 d = ((o', r, data'), None)" "open_active e o' data' = Inl x"
      "convertSingle e inp o0 = clear_failed (catch_exn e o' data' x r)"
  | o' r data' d doc enc ctx where "prepare e o0 d = ((o', r, data'), None)"
      "open_active e o' data' = Inr (doc, enc)" "res ctx = r" "level (opt ctx) = level o'"
      "part ctx = levelPart (level o')" "conf ctx = levelConformance (level o')" "fam ctx = levelFamily (level o')"
      "convertSingle e inp o0 = run_document e o' data' enc ctx"
proof -
  define d where "d = (case inp of Buf d \<Rightarrow> d | NullBuf n \<Rightarrow> [])"
  obtain o' r data' x where p: "prepare e o0 d = ((o', r, data'), x)" by (metis prod.exhaust)
  consider n where "inp = NullBuf (Suc n)" | "\<forall>n. inp \<noteq> NullBuf (Suc n)" by blast
  then show thesis
  proof cases
    case (1 n)
    with that(1)[of "Suc n"] show thesis by (simp add: convertSingle_def)
  next
    case 2
    then have body: "convertSingle e inp o0 =
        (case x of Some x \<Rightarrow> clear_failed (catch_exn e o' data' x r)
         | None \<Rightarrow> (case open_active e o' data' of
              Inl x \<Rightarrow> clear_failed (catch_exn e o' data' x r)
            | Inr (doc, enc) \<Rightarrow> run_document e o' data' enc
                (if attachXml o' \<noteq> []
                 then (mkCtx doc o' r)\<lparr>invc := detectInvoice (attachXml o') (facturxProfile o') (attachXmlName o')\<rparr>
                 else mkCtx doc o' r)))"
      unfolding convertSingle_def Let_def using p
      by (cases inp) (auto simp: d_def split: option.splits nat.splits)
    show thesis
    proof (cases x)
      case (Some y)
      with body p that(2) show thesis by auto
    next
      case x: None
      show thesis
      proof (cases "open_active e o' data'")
        case (Inl y)
        with body p x that(3) show thesis by auto
      next
        case (Inr de)
        then obtain doc enc where oa: "open_active e o' data' = Inr (doc, enc)" by (cases de) auto
        show thesis
          by (rule that(4)[OF p[unfolded x] oa _ _ _ _ _ body[unfolded x oa option.case sum.case prod.case]])
            (simp_all add: mkCtx_def)
      qed
    qed
  qed
qed

lemma convertSingle_consistent: "consistent_result (convertSingle e inp o0)"
proof (cases rule: convertSingle_cases[of inp e o0])
  case (1 n)
  then show ?thesis by (simp add: consistent_result_def Result0_def)
next
  case (2 o' r data' x d)
  then show ?thesis by (simp add: consistent_result_def)
next
  case (3 o' r data' x d)
  then show ?thesis by (simp add: consistent_result_def)
next
  case (4 o' r data' d doc enc ctx)
  with prepare_result[OF 4(1)] run_document_consistent[of ctx] show ?thesis by simp
qed

lemma convertOnce_result: "consistent_result (convertOnce e inp o0)"
  using convertSingle_consistent[of e inp] convertSingle_consistent[of e "Buf _"]
  by (simp add: convertOnce_def Let_def consistent_result_def)

text \<open>
  C1. Whatever the input, the options, the library and the passes do, a conversion succeeds
  exactly when it reports no error code, and a conversion that fails returns no file.
\<close>

theorem convertOnce_consistent:
  "(ok (convertOnce e inp o0) \<longleftrightarrow> errorCode (convertOnce e inp o0) = []) \<and>
   (\<not> ok (convertOnce e inp o0) \<longrightarrow> pdf (convertOnce e inp o0) = [])"
  using convertOnce_result[of e inp o0] by (simp add: consistent_result_def)

theorem convertOnce_consistent_witness:
  "pdf (convertOnce (undefined :: (unit, unit) engine) (NullBuf 3) Options0) = []"
proof -
  have "\<not> ok (convertOnce (undefined :: (unit, unit) engine) (NullBuf 3) Options0)"
    by (simp add: convertOnce_def convertSingle_def Options0_def Result0_def numeral_eq_Suc)
  then show ?thesis using convertOnce_consistent by blast
qed

section \<open>An engine whose passes do nothing\<close>

text \<open>The parameters instantiated, for evaluating the properties on concrete conversions.\<close>

abbreviation idle :: "'d pass" where
  "idle \<equiv> \<lambda>c. (c, None)"

definition idle_engine :: "(obj, obj) engine" where
  "idle_engine =
    \<lparr>lib = obj_qpdf\<lparr>q_open := \<lambda>d pw. Inr (ODict [])\<rparr>,
     e_sizeIsInteger = (\<lambda>d. True), e_objectCount = (\<lambda>d. 0), e_setSize = (\<lambda>n d. d),
     e_isEncrypted = (\<lambda>d. False), e_writePlain = (\<lambda>d. Inr []), e_write = (\<lambda>w d. Inr ''%PDF''),
     e_selfCheck = (\<lambda>d. Inr False), e_probeFilter = (\<lambda>d. None), e_writeJpegPage = (\<lambda>j. Inr []),
     applyProfileFixes = (\<lambda>o' a. ((o', a), None)), prepareColorJob = (\<lambda>o' a. ((o', a), None)),
     passAnalyze = idle, passProfile = (\<lambda>d. idle), passProfileFixups = idle, passStructure = idle,
     checkFileSyntax = (\<lambda>d w. idle), passPages = idle, passImageResolution = idle, passOcr = idle,
     passCompleteResources = idle, passColorConvert = idle, passColor = idle, passPrint = idle,
     passOutlineFonts = idle, passFonts = idle, passGlyphClean = idle, passTagging = idle,
     addSignaturePlaceholder = idle, passBookmarks = idle, passMetadata = idle, passLimits = idle\<rparr>"

abbreviation idle_ctx :: "obj Ctx" where
  "idle_ctx \<equiv> mkCtx (ODict []) Options0 Result0"

lemmas idle_simps = idle_engine_def Options0_def mkCtx_def Result0_def failed_def

theorem no_stage_after_failure_witness:
  "let e = idle_engine\<lparr>passPages := \<lambda>c. (fatal ''BAD_PAGES'' ''no pages'' c, None)\<rparr>
   in run_stages (early_stages e [] False Options0 @ later_stages e Options0) idle_ctx =
        (fatal ''BAD_PAGES'' ''no pages'' idle_ctx, None)"
  unfolding Let_def
  by (rule no_stage_after_failure[where k = 1])
    (simp_all add: early_stages_def later_stages_def run_stage_def idle_simps fatal_def)

section \<open>Checking, refusals and versions\<close>

lemma run_document_verify:
  assumes "verifyOnly o'" "\<not> ok (res ctx)" "ok (run_document e o' data enc ctx)"
  shows "compliant (run_document e o' data enc ctx) \<longleftrightarrow>
    \<not> list_ex deviation (issues (run_document e o' data enc ctx))"
  using assms
  by (auto simp: run_document_def Let_def refused_def finish_compliant split: option.splits prod.splits if_splits)

text \<open>
  C3. In checking mode a file is reported compliant exactly when no pass would have changed it:
  a successful check lists as fixed only issues that are mere normalizations if and only if it
  answers compliant.
\<close>

theorem compliant_iff_nothing_to_fix:
  assumes "verifyOnly o0" "ok (convertOnce e inp o0)"
  shows "compliant (convertOnce e inp o0) \<longleftrightarrow>
    (\<forall>i \<in> set (issues (convertOnce e inp o0)). fixed i \<longrightarrow> issueIsNormalization (code i))"
proof -
  have c: "convertOnce e inp o0 = convertSingle e inp o0" using assms(1) by (simp add: convertOnce_def)
  have "compliant (convertSingle e inp o0) \<longleftrightarrow> \<not> list_ex deviation (issues (convertSingle e inp o0))"
  proof (cases rule: convertSingle_cases[of inp e o0])
    case (4 o' r data' d doc enc ctx)
    with assms c prepare_result[OF 4(1)] prepare_verifyOnly[OF _ 4(1)] show ?thesis
      using run_document_verify[of o' ctx e data' enc] by simp
  qed (use assms(2) c in \<open>auto simp: Result0_def\<close>)
  then show ?thesis unfolding c by (auto simp: list_ex_iff deviation_def)
qed

theorem compliant_iff_nothing_to_fix_witness:
  "compliant (convertOnce idle_engine (Buf ''x'') (Options0\<lparr>verifyOnly := True\<rparr>))"
proof -
  let ?r = "convertOnce idle_engine (Buf ''x'') (Options0\<lparr>verifyOnly := True\<rparr>)"
  have "verifyOnly (Options0\<lparr>verifyOnly := True\<rparr>)" by simp
  moreover have "ok ?r \<and> issues ?r = []"
    by (simp add: convertOnce_def convertSingle_def prepare_def open_active_def ensure_size_def run_document_def
        refusal_def levelVerifyOnly_def levelRow_def kLevelTable_def nesting_too_deep_def obj_qpdf_def
        early_stages_def later_stages_def run_stage_def classify_def idle_simps Let_def)
  ultimately show ?thesis using compliant_iff_nothing_to_fix[of "Options0\<lparr>verifyOnly := True\<rparr>" idle_engine "Buf ''x''"] by simp
qed

text \<open>Every pass, with the arguments a conversion gives it.\<close>

definition engine_passes :: "('d, 'h) engine \<Rightarrow> string \<Rightarrow> bool \<Rightarrow> 'd pass list" where
  "engine_passes e data enc =
     [passAnalyze e, passProfile e data, passProfileFixups e, passStructure e, checkFileSyntax e data enc,
      passPages e, passImageResolution e, passOcr e, passCompleteResources e, passColorConvert e,
      passColor e, passPrint e, passOutlineFonts e, passFonts e, passGlyphClean e, passTagging e,
      addSignaturePlaceholder e, passBookmarks e, passMetadata e, passLimits e]"

definition passes_write_no_output :: "('d, 'h) engine \<Rightarrow> bool" where
  "passes_write_no_output e \<longleftrightarrow>
     (\<forall>data enc. \<forall>p \<in> set (engine_passes e data enc). \<forall>c. pdf (res (fst (p c))) = pdf (res c))"

lemma verify_stages_keep_pdf:
  assumes "passes_write_no_output e" "verifyOnly o'"
  shows "\<forall>s \<in> set (early_stages e data enc o' @ later_stages e o'). sp.keeps s"
proof
  fix s assume s: "s \<in> set (early_stages e data enc o' @ later_stages e o')"
  have p: "same_pdf c (fst (p c))" if "p \<in> set (engine_passes e data enc)" for p c
    using assms(1) that by (simp add: passes_write_no_output_def same_pdf_def)
  from s assms(2) have "st_run s \<in> set (engine_passes e data enc) \<or> (\<forall>c. \<not> st_cond s c) \<or>
      st_run s = inline_issue \<or> st_run s = pua_issue"
    by (auto simp: early_stages_def later_stages_def engine_passes_def)
  with p show "sp.keeps s"
    by (auto simp: sp.keeps_def inline_issue_def pua_issue_def same_pdf_def)
qed

lemma convertOnce_verify_pdf:
  assumes "passes_write_no_output e" "verifyOnly o0"
  shows "pdf (convertOnce e inp o0) = []"
proof -
  have c: "convertOnce e inp o0 = convertSingle e inp o0" using assms(2) by (simp add: convertOnce_def)
  have "pdf (convertSingle e inp o0) = []"
  proof (cases rule: convertSingle_cases[of inp e o0])
    case (4 o' r data' d doc enc ctx)
    then have o: "o' = o0" and r: "\<not> ok (res ctx)" "pdf (res ctx) = []"
      using prepare_verifyOnly[OF assms(2) 4(1)] prepare_result[OF 4(1)] by auto
    have "same_pdf ctx' (fst (run_stages (early_stages e data' w o' @ later_stages e o') ctx'))" for ctx' w
      using verify_stages_keep_pdf[OF assms[folded o]] by (rule sp.run_stages_keep)
    then have k: "run_stages (early_stages e data' w o' @ later_stages e o') ctx' = (c'', x) \<Longrightarrow>
        pdf (res c'') = pdf (res ctx')" for ctx' c'' x w
      by (metis fst_conv same_pdf_def)
    show ?thesis
      unfolding 4(8) using r
      by (auto simp: run_document_def Let_def refused_def clear_failed_def split: option.splits prod.splits dest!: k)
  qed (simp_all add: Result0_def)
  with c show ?thesis by simp
qed

text \<open>
  Stages whose conditions agree, and whose runs agree where the condition holds, do the same.
\<close>

definition same_stage :: "'d stage \<Rightarrow> 'd stage \<Rightarrow> bool" where
  "same_stage s t \<longleftrightarrow> st_always s = st_always t \<and> st_cond s = st_cond t \<and> (\<forall>c. st_cond s c \<longrightarrow> st_run s c = st_run t c)"

lemma run_stages_same: "list_all2 same_stage ss ts \<Longrightarrow> run_stages ss c = run_stages ts c"
proof (induction ss ts arbitrary: c rule: list_all2_induct)
  case (Cons s ss t ts)
  then have "run_stage s c = run_stage t c" by (auto simp: same_stage_def run_stage_def)
  with Cons.IH show ?case by (simp split: prod.split option.split)
qed simp

text \<open>
  C4. Checking runs none of the code that writes: in checking mode the whole result of a
  conversion, for every input, is the same whatever the writer of the output, its self check, the
  profile fixes, the color job, the profile fixups, the text recognition, the outlining of fonts,
  the signature placeholder and the bookmarks would do, so none of them is called.
\<close>

theorem check_runs_no_writer:
  assumes "verifyOnly o0"
  shows "convertOnce (e\<lparr>e_write := write', e_selfCheck := selfCheck', applyProfileFixes := fixes',
      prepareColorJob := colorJob', passProfileFixups := fixups', passOcr := ocr',
      passOutlineFonts := outline', addSignaturePlaceholder := placeholder', passBookmarks := bookmarks'\<rparr>) inp o0 =
    convertOnce e inp o0"
proof -
  define e' where "e' = e\<lparr>e_write := write', e_selfCheck := selfCheck', applyProfileFixes := fixes',
      prepareColorJob := colorJob', passProfileFixups := fixups', passOcr := ocr',
      passOutlineFonts := outline', addSignaturePlaceholder := placeholder', passBookmarks := bookmarks'\<rparr>"
  have st: "run_stages (early_stages e' data enc o0 @ later_stages e' o0) =
      run_stages (early_stages e data enc o0 @ later_stages e o0)" for data enc
    by (rule ext, rule run_stages_same)
      (use assms in \<open>simp add: e'_def early_stages_def later_stages_def same_stage_def\<close>)
  have lb: "lib e' = lib e" by (simp add: e'_def)
  have ds: "detectSecurityHandler e' = detectSecurityHandler e" by (rule ext) (simp add: detectSecurityHandler_def e'_def)
  have ce: "catch_exn e' = catch_exn e" by (intro ext) (simp only: catch_exn_def ds)
  have doc: "run_document e' o0 data enc = run_document e o0 data enc" for data enc
    by (rule ext) (simp only: run_document_def st lb ce)
  have wj: "wrapJpegAsPdf e' = wrapJpegAsPdf e" by (rule ext) (simp add: wrapJpegAsPdf_def e'_def split: option.split)
  have prep: "prepare e' o0 = prepare e o0"
    unfolding prepare_def wj using assms by (intro ext) simp
  have oa: "open_active e' = open_active e" by (intro ext) (simp add: open_active_def ensure_size_def e'_def Let_def split: sum.split)
  have "convertSingle e' inp o0 = convertSingle e inp o0"
    unfolding convertSingle_def prep oa ce
    by (auto simp: Let_def doc split: input.split nat.split prod.split option.split sum.split
        dest!: prepare_verifyOnly[OF assms])
  then show ?thesis unfolding e'_def[symmetric] using assms by (simp add: convertOnce_def)
qed

theorem check_runs_no_writer_witness:
  "convertOnce (idle_engine\<lparr>e_write := \<lambda>w d. Inl OtherExn, e_selfCheck := \<lambda>d. Inr True,
      applyProfileFixes := \<lambda>p is. ((p, is), Some OtherExn), prepareColorJob := \<lambda>p is. ((p, is), Some OtherExn),
      passProfileFixups := \<lambda>c. (c, Some OtherExn), passOcr := \<lambda>c. (c, Some OtherExn),
      passOutlineFonts := \<lambda>c. (c, Some OtherExn), addSignaturePlaceholder := \<lambda>c. (c, Some OtherExn),
      passBookmarks := \<lambda>c. (c, Some OtherExn)\<rparr>) (Buf ''x'') (Options0\<lparr>verifyOnly := True\<rparr>) =
    convertOnce idle_engine (Buf ''x'') (Options0\<lparr>verifyOnly := True\<rparr>)"
  by (rule check_runs_no_writer) simp

text \<open>
  A level whose rules need assets outside the file is never produced: without a profile or
  color job that could change the target, a conversion to a verify-only level that is not a
  ready PDF/X-5n job fails, whatever the input and the passes.
\<close>

theorem verify_only_level_not_produced:
  assumes "levelVerifyOnly (level o0)" "\<not> verifyOnly o0" "\<not> externalReady o0"
    and "preflightProfile o0 = []" "\<not> colorJobEnabled o0"
  shows "\<not> ok (convertOnce e inp o0) \<and> pdf (convertOnce e inp o0) = []"
proof -
  have "\<not> (levelFamily (level o0) = PDFA \<and> (levelPart (level o0) = 2 \<or> levelPart (level o0) = 4))"
    using assms(1) by (cases "level o0")
      (simp_all add: levelVerifyOnly_def levelFamily_def levelPart_def levelRow_def kLevelTable_def)
  then have c: "convertOnce e inp o0 = convertSingle e inp o0" by (auto simp: convertOnce_def)
  have "\<not> ok (convertSingle e inp o0)"
  proof (cases rule: convertSingle_cases[of inp e o0])
    case (4 o' r data' d doc enc ctx)
    have "o' = o0" using 4(1) assms(4,5)
      by (auto simp: prepare_def Let_def split: if_splits sum.splits)
    with assms have "refusal o' ctx \<noteq> None" by (simp add: refusal_def)
    with 4(3,8) prepare_result[OF 4(1)] show ?thesis
      by (auto simp: run_document_def refused_def split: option.splits prod.splits)
  qed (simp_all add: Result0_def)
  with convertSingle_consistent[of e inp o0] show ?thesis
    unfolding c by (simp add: consistent_result_def)
qed

theorem verify_only_level_not_produced_witness:
  "\<not> ok (convertOnce idle_engine (Buf ''x'') (Options0\<lparr>level := X5G\<rparr>)) \<and>
   pdf (convertOnce idle_engine (Buf ''x'') (Options0\<lparr>level := X5G\<rparr>)) = []"
  by (rule verify_only_level_not_produced)
    (simp_all add: Options0_def externalReady_def levelVerifyOnly_def levelRow_def kLevelTable_def)

text \<open>
  The version of the written file follows from the level alone (a dual PDF/A-2 file takes
  the version of its PDF/X half): PDF 1.4 without object streams for PDF/A-1, PDF/X-1a and
  PDF/X-3, PDF 1.7 for PDF/A-2 and PDF/A-3, PDF 2.0 for PDF/A-4 and the PDF 2.0 print levels,
  PDF 1.6 for the rest. A file that is to be signed has no object streams, which would hide the
  signature placeholder, and is not linearized.
\<close>

theorem serialized_version_by_level:
  "w_version (writer_options (mkCtx d o' r)) =
     (if level o' \<in> {A1A, A1B, X1A, X3} then ''1.4''
      else if level o' \<in> {A2B, A2U, A2A} then (if dualPrint o' then ''1.6'' else ''1.7'')
      else if level o' \<in> {A3B, A3U, A3A} then ''1.7''
      else if level o' \<in> {A4, A4F, A4E, X6, X6N, X6P, VT3} then ''2.0'' else ''1.6'') \<and>
   w_objectStreams (writer_options (mkCtx d o' r)) =
     (if signDocument o' = None \<and> level o' \<notin> {A1A, A1B, X1A, X3} then Generate else Disable) \<and>
   (w_linearize (writer_options (mkCtx d o' r)) \<longleftrightarrow> linearize o' \<and> signDocument o' = None)"
  by (cases "level o'")
    (simp_all add: writer_options_def Let_def mkCtx_def pdf14Target_def isA_def dualX_def pdf20Print_def
      levelFamily_def levelPart_def levelRow_def kLevelTable_def)

lemma issueSeverity_pos: "issueSeverity c \<ge> 1"
  by (simp add: issueSeverity_def)

lemma classify_severity: "i \<in> set (classify is) \<Longrightarrow> severity i \<noteq> 0"
  by (auto simp: classify_def) (metis issueSeverity_pos not_one_le_zero)

lemma run_document_severity:
  "ok (run_document e o' data enc ctx) \<Longrightarrow> \<not> ok (res ctx) \<Longrightarrow>
     i \<in> set (issues (run_document e o' data enc ctx)) \<union> set (analysis (run_document e o' data enc ctx)) \<Longrightarrow>
     severity i \<noteq> 0"
  using classify_severity
  by (auto simp: run_document_def Let_def refused_def split: option.splits prod.splits if_splits)

lemma convertSingle_severity:
  assumes "ok (convertSingle e inp o0)"
    "i \<in> set (issues (convertSingle e inp o0)) \<union> set (analysis (convertSingle e inp o0))"
  shows "severity i \<noteq> 0"
proof (cases rule: convertSingle_cases[of inp e o0])
  case (4 o' r data' d doc enc ctx)
  with assms prepare_result[OF 4(1)] run_document_severity show ?thesis by fastforce
qed (use assms(1) in \<open>auto simp: Result0_def\<close>)

text \<open>
  Every issue and every analysis note of a successful conversion has a severity, those the
  first half of a dual conversion contributed included.
\<close>

theorem issues_are_classified:
  assumes "ok (convertOnce e inp o0)"
    "i \<in> set (issues (convertOnce e inp o0)) \<union> set (analysis (convertOnce e inp o0))"
  shows "severity i \<noteq> 0"
  using assms convertSingle_severity
  by (auto simp: convertOnce_def Let_def split: if_splits)

theorem issues_are_classified_witness:
  "let e = idle_engine\<lparr>passPages := \<lambda>c. (c\<lparr>res := (res c)\<lparr>issues := [mkIssue ''X'' [] True 0]\<rparr>\<rparr>, None)\<rparr>
   in severity (hd (issues (convertOnce e (Buf ''x'') Options0))) \<noteq> 0"
proof -
  let ?e = "idle_engine\<lparr>passPages := \<lambda>c. (c\<lparr>res := (res c)\<lparr>issues := [mkIssue ''X'' [] True 0]\<rparr>\<rparr>, None)\<rparr>"
  let ?r = "convertOnce ?e (Buf ''x'') Options0"
  have r: "ok ?r" "issues ?r \<noteq> []"
    by (simp_all add: convertOnce_def convertSingle_def prepare_def open_active_def ensure_size_def run_document_def
        refusal_def levelVerifyOnly_def levelRow_def kLevelTable_def nesting_too_deep_def obj_qpdf_def
        early_stages_def later_stages_def run_stage_def serialize_def classify_def idle_simps Let_def)
  then have "hd (issues ?r) \<in> set (issues ?r) \<union> set (analysis ?r)" by (cases "issues ?r") auto
  with r(1) show ?thesis unfolding Let_def by (rule issues_are_classified)
qed

section \<open>Numbers and image headers\<close>

text \<open>
  A real number as PDF wants it: an optional sign, digits, and optionally a point with at most
  \<open>k\<close> digits of which the last is not zero.
\<close>

definition pdf_real :: "nat \<Rightarrow> string \<Rightarrow> bool" where
  "pdf_real k s \<longleftrightarrow> (\<exists>sgn a b. s = sgn @ a @ b \<and> sgn \<in> {[], ''-''} \<and> a \<noteq> [] \<and> list_all is_digit a \<and>
     (b = [] \<or> (hd b = CHR ''.'' \<and> tl b \<noteq> [] \<and> list_all is_digit (tl b) \<and> last b \<noteq> CHR ''0'' \<and> length (tl b) \<le> k)))"

lemma nat_str_length: "n < 10 ^ k \<Longrightarrow> 0 < k \<Longrightarrow> length (nat_str n) \<le> k"
proof (induction n arbitrary: k rule: nat_str.induct)
  case (1 n)
  show ?case
  proof (cases "n < 10")
    case False
    with "1.prems" obtain j where j: "k = Suc j" "0 < j" by (cases k; cases "k = 1") auto
    with "1.prems" have "n div 10 < 10 ^ j" by auto
    with 1 False j show ?thesis by (simp add: nat_str.simps[of n])
  qed (use "1.prems" in \<open>simp add: nat_str.simps[of n]\<close>)
qed

lemma strip_zeros_last: "strip_zeros f \<noteq> [] \<Longrightarrow> last (strip_zeros f) \<noteq> CHR ''0''"
  using hd_dropWhile[of "\<lambda>c. c = CHR ''0''" "rev f"] by (auto simp: strip_zeros_def last_rev)

lemma strip_zeros_set: "set (strip_zeros f) \<subseteq> set f"
  using set_dropWhileD by (fastforce simp: strip_zeros_def)

lemma strip_zeros_length: "length (strip_zeros f) \<le> length f"
  using length_dropWhile_le[of _ "rev f"] by (simp add: strip_zeros_def)

lemma frac_text_form:
  assumes "frac < 10 ^ k" "0 < k"
  shows "frac_text k frac = [] \<or> (hd (frac_text k frac) = CHR ''.'' \<and> tl (frac_text k frac) \<noteq> [] \<and>
    list_all is_digit (tl (frac_text k frac)) \<and> last (frac_text k frac) \<noteq> CHR ''0'' \<and>
    length (tl (frac_text k frac)) \<le> k)"
proof -
  let ?f = "zeros (k - length (nat_str frac)) @ nat_str frac"
  have "length ?f = k" using nat_str_length[OF assms] by (simp add: zeros_def)
  moreover have "\<forall>c \<in> set ?f. is_digit c" using nat_str_digits by (auto simp: zeros_def is_digit_def)
  ultimately have "length (strip_zeros ?f) \<le> k" "list_all is_digit (strip_zeros ?f)"
    using strip_zeros_length[of ?f] strip_zeros_set[of ?f] by (auto simp: list_all_iff)
  with strip_zeros_last[of ?f] show ?thesis by (auto simp: frac_text_def Let_def)
qed

lemma fixed_text_form: "pdf_real d (fixed_text neg sc d)"
proof -
  let ?w = "sc div 10 ^ d" and ?f = "sc mod 10 ^ d"
  have n: "nat_str ?w \<noteq> []" "list_all is_digit (nat_str ?w)"
    using nat_str_digits by (auto simp: list_all_iff)
  show ?thesis
    unfolding pdf_real_def fixed_text_def Let_def
    using n frac_text_form[of ?f d]
    by (intro exI[of _ "if neg \<and> (?w \<noteq> 0 \<or> ?f \<noteq> 0) then ''-'' else []"] exI[of _ "nat_str ?w"]
        exI[of _ "if d > 0 \<and> ?f \<noteq> 0 then frac_text d ?f else []"]) simp
qed

text \<open>
  C11. Every number the engine writes into a content stream or box with \<^verbatim>\<open>fmtFixed\<close>, NaN and
  infinities included, is a PDF real number: no exponent, at most six decimals (and at most as
  many as asked for), no trailing zeros.
\<close>

theorem fmtFixed_writes_pdf_real:
  "pdf_real (nat (min 6 (max 0 decimals))) (fmtFixed v decimals)"
proof -
  have "pdf_real k ''0''" for k
    unfolding pdf_real_def by (intro exI[of _ "[]"] exI[of _ "''0''"]) (simp add: is_digit_def)
  then show ?thesis using fixed_text_form by (simp add: fmtFixed_def Let_def)
qed

end
