(* ===== verification/Json.thy ===== *)
theory Json
  imports Double
begin

text \<open>
  JSON as the profiles use it: the value type of \<^verbatim>\<open>profile_types.hh\<close>, the reader
  \<^verbatim>\<open>JsonReader\<close> and \<^verbatim>\<open>parseJson\<close> of \<^verbatim>\<open>profile_parse.cpp\<close>, and the writer
  \<^verbatim>\<open>jsonStr\<close> / \<^verbatim>\<open>jsonText\<close> of \<^verbatim>\<open>profile_vars.cpp\<close>. The reader keeps an index
  into the text; here it keeps the text from that index on, and the index of an error is the
  length consumed so far. The nesting limit makes the recursion structural in the levels that
  are left. The loops over members and elements carry the length of the text as their bound and
  answer \<open>Stuck\<close> if they ran past it, which they never do.
\<close>

section \<open>Values\<close>

datatype Json = JNull | JBool bool | JNum double | JStr string | JArr "Json list"
  | JObj "(string \<times> Json) list"

fun json_obj :: "Json \<Rightarrow> (string \<times> Json) list" where
  "json_obj (JObj kvs) = kvs"
| "json_obj _ = []"

fun json_arr :: "Json \<Rightarrow> Json list" where
  "json_arr (JArr xs) = xs"
| "json_arr _ = []"

definition json_get :: "Json \<Rightarrow> string \<Rightarrow> Json option" where
  "json_get j k = map_of (json_obj j) k"

definition num_text :: "double \<Rightarrow> string" where
  "num_text d =
     (if less_d (abs_d d) (of_int_d (10 ^ 15)) \<and> eq_d d (floor_d d) then fmt_f 0 d else fmt_g 15 d)"

fun json_text :: "Json \<Rightarrow> string" where
  "json_text (JStr s) = s"
| "json_text (JBool b) = (if b then ''true'' else ''false'')"
| "json_text (JNum d) = num_text d"
| "json_text _ = []"

section \<open>The reader\<close>

datatype 'a rd = Ok 'a string | Err string string | Stuck

definition kMaxObjectWalk :: nat where
  "kMaxObjectWalk = 64"

definition is_ws :: "char \<Rightarrow> bool" where
  "is_ws c \<longleftrightarrow> c = CHR '' '' \<or> c = CHR 0x09 \<or> c = CHR 0x0A \<or> c = CHR 0x0D"

definition ws :: "string \<Rightarrow> string" where
  "ws r = dropWhile is_ws r"

definition utf8 :: "nat \<Rightarrow> string" where
  "utf8 cp =
     (if cp < 0x80 then [chr cp]
      else if cp < 0x800 then [chr (0xC0 OR drop_bit 6 cp), chr (0x80 OR (cp AND 0x3F))]
      else if cp < 0x10000 then
        [chr (0xE0 OR drop_bit 12 cp), chr (0x80 OR (drop_bit 6 cp AND 0x3F)), chr (0x80 OR (cp AND 0x3F))]
      else
        [chr (0xF0 OR drop_bit 18 cp), chr (0x80 OR (drop_bit 12 cp AND 0x3F)),
         chr (0x80 OR (drop_bit 6 cp AND 0x3F)), chr (0x80 OR (cp AND 0x3F))])"

text \<open>A backslash; the escape error's text.\<close>

abbreviation bslash :: char where
  "bslash \<equiv> CHR 0x5C"

definition bad_u :: string where
  "bad_u = ''bad '' @ bslash # ''u escape''"

fun hex_digits :: "nat \<Rightarrow> nat \<Rightarrow> string \<Rightarrow> nat rd" where
  "hex_digits 0 cp r = Ok cp r"
| "hex_digits (Suc k) cp [] = Err bad_u []"
| "hex_digits (Suc k) cp (h # t) =
     (if is_digit h then hex_digits k (push_bit 4 cp OR (ord h - 48)) t
      else if 97 \<le> ord h \<and> ord h \<le> 102 then hex_digits k (push_bit 4 cp OR (ord h - 87)) t
      else if 65 \<le> ord h \<and> ord h \<le> 70 then hex_digits k (push_bit 4 cp OR (ord h - 55)) t
      else Err bad_u t)"

definition hex4 :: "string \<Rightarrow> nat rd" where
  "hex4 r = (if length r < 4 then Err bad_u r else hex_digits 4 0 r)"

text \<open>
  The code point of a \<open>u\<close> escape, \<open>r\<close> the text after the \<open>u\<close>: a high surrogate takes a
  second escape, and a surrogate without its partner is the replacement character.
\<close>

definition unicode_escape :: "string \<Rightarrow> nat rd" where
  "unicode_escape r =
     (case hex4 r of
        Ok cp t \<Rightarrow>
          if 0xD800 \<le> cp \<and> cp < 0xDC00 \<and> take 2 t = [bslash, CHR ''u''] then
            (case hex4 (drop 2 t) of
               Ok lo u \<Rightarrow>
                 if 0xDC00 \<le> lo \<and> lo < 0xE000
                 then Ok (0x10000 + push_bit 10 (cp - 0xD800) + (lo - 0xDC00)) u
                 else Ok 0xFFFD u
             | e \<Rightarrow> e)
          else if 0xD800 \<le> cp \<and> cp < 0xE000 then Ok 0xFFFD t
          else Ok cp t
      | e \<Rightarrow> e)"

text \<open>The escapes of one letter.\<close>

definition letter_escape :: "char \<Rightarrow> char option" where
  "letter_escape e =
     (if e = CHR 0x22 then Some (CHR 0x22)
      else if e = bslash then Some bslash
      else if e = CHR ''/'' then Some (CHR ''/'')
      else if e = CHR ''b'' then Some (CHR 0x08)
      else if e = CHR ''f'' then Some (CHR 0x0C)
      else if e = CHR ''n'' then Some (CHR 0x0A)
      else if e = CHR ''r'' then Some (CHR 0x0D)
      else if e = CHR ''t'' then Some (CHR 0x09)
      else None)"

lemma hex_digits_shorter: "hex_digits k cp r = Ok v t \<Longrightarrow> length t + k = length r"
  by (induction k cp r rule: hex_digits.induct) (auto split: if_splits)

lemma hex4_shorter: "hex4 r = Ok v t \<Longrightarrow> length t < length r"
  by (auto simp: hex4_def dest!: hex_digits_shorter split: if_splits)

lemma unicode_escape_shorter: "unicode_escape r = Ok v t \<Longrightarrow> length t < length r"
  by (auto simp: unicode_escape_def dest!: hex4_shorter split: rd.splits if_splits)

text \<open>The body of a string: \<open>r\<close> the text after the opening quote, \<open>out\<close> what was read.\<close>

function str_body :: "string \<Rightarrow> string \<Rightarrow> string rd" where
  "str_body out [] = Err ''unterminated string'' []"
| "str_body out (c # t) =
     (if c = CHR 0x22 then Ok out t
      else if ord c < 0x20 then Err ''control character in string'' t
      else if c \<noteq> bslash then str_body (out @ [c]) t
      else case t of
          [] \<Rightarrow> Err ''unterminated string'' []
        | e # u \<Rightarrow>
            (case letter_escape e of
               Some d \<Rightarrow> str_body (out @ [d]) u
             | None \<Rightarrow>
                 if e = CHR ''u'' then
                   (case unicode_escape u of
                      Ok cp v \<Rightarrow> str_body (out @ utf8 cp) v
                    | Err m v \<Rightarrow> Err m v
                    | Stuck \<Rightarrow> Stuck)
                 else Err ''bad escape in string'' u))"
  by pat_completeness auto
termination
  by (relation "measure (\<lambda>(out, r). length r)") (auto dest!: unicode_escape_shorter)

definition read_string :: "string \<Rightarrow> string rd" where
  "read_string r = str_body [] (tl r)"

definition is_numch :: "char \<Rightarrow> bool" where
  "is_numch c \<longleftrightarrow>
     is_digit c \<or> c = CHR ''.'' \<or> c = CHR ''e'' \<or> c = CHR ''E'' \<or> c = CHR ''+'' \<or> c = CHR ''-''"

definition read_number :: "string \<Rightarrow> Json rd" where
  "read_number r =
     (let m = (if r \<noteq> [] \<and> hd r = CHR ''-'' then 1 else 0);
          n = m + length (takeWhile is_numch (drop m r));
          t = take n r;
          (d, e) = strtod t
      in if t = [] \<or> e \<noteq> [] \<or> \<not> finite_d d then Err ''unexpected character'' r
         else Ok (JNum d) (drop n r))"

text \<open>
  The loops of \<^verbatim>\<open>object\<close> and \<^verbatim>\<open>array\<close>, over the reader \<open>val\<close> of a nested value; the
  first argument bounds the number of rounds.
\<close>

fun read_members :: "nat \<Rightarrow> (string \<Rightarrow> Json rd) \<Rightarrow> (string \<times> Json) list \<Rightarrow> string \<Rightarrow> Json rd" where
  "read_members 0 val kvs r = Stuck"
| "read_members (Suc k) val kvs r =
     (let r1 = ws r
      in if r1 = [] \<or> hd r1 \<noteq> CHR 0x22 then Err ''expected a quoted key'' r1
         else case read_string r1 of
           Err m t \<Rightarrow> Err m t
         | Stuck \<Rightarrow> Stuck
         | Ok key r2 \<Rightarrow>
             let r3 = ws r2
             in if r3 = [] \<or> hd r3 \<noteq> CHR '':'' then Err (''expected '' @ [CHR 0x27, CHR '':'', CHR 0x27]) r3
                else case val (tl r3) of
                  Err m t \<Rightarrow> Err m t
                | Stuck \<Rightarrow> Stuck
                | Ok v r4 \<Rightarrow>
                    let r5 = ws r4
                    in if r5 \<noteq> [] \<and> hd r5 = CHR '','' then read_members k val (kvs @ [(key, v)]) (tl r5)
                       else if r5 \<noteq> [] \<and> hd r5 = CHR ''}'' then Ok (JObj (kvs @ [(key, v)])) (tl r5)
                       else Err (''expected '' @ [CHR 0x27, CHR '','', CHR 0x27] @ '' or '' @ [CHR 0x27, CHR ''}'', CHR 0x27]) r5)"

fun read_items :: "nat \<Rightarrow> (string \<Rightarrow> Json rd) \<Rightarrow> Json list \<Rightarrow> string \<Rightarrow> Json rd" where
  "read_items 0 val xs r = Stuck"
| "read_items (Suc k) val xs r =
     (case val r of
        Err m t \<Rightarrow> Err m t
      | Stuck \<Rightarrow> Stuck
      | Ok v r4 \<Rightarrow>
          let r5 = ws r4
          in if r5 \<noteq> [] \<and> hd r5 = CHR '','' then read_items k val (xs @ [v]) (tl r5)
             else if r5 \<noteq> [] \<and> hd r5 = CHR '']'' then Ok (JArr (xs @ [v])) (tl r5)
             else Err (''expected '' @ [CHR 0x27, CHR '','', CHR 0x27] @ '' or '' @ [CHR 0x27, CHR '']'', CHR 0x27]) r5)"

declare read_members.simps(2) [simp del] read_items.simps(2) [simp del]

definition read_object :: "(string \<Rightarrow> Json rd) \<Rightarrow> string \<Rightarrow> Json rd" where
  "read_object val r =
     (let t = ws (tl r)
      in if t \<noteq> [] \<and> hd t = CHR ''}'' then Ok (JObj []) (tl t)
         else read_members (Suc (length t)) val [] t)"

definition read_array :: "(string \<Rightarrow> Json rd) \<Rightarrow> string \<Rightarrow> Json rd" where
  "read_array val r =
     (let t = ws (tl r)
      in if t \<noteq> [] \<and> hd t = CHR '']'' then Ok (JArr []) (tl t)
         else read_items (Suc (length t)) val [] t)"

text \<open>The body of \<^verbatim>\<open>value\<close>, after white space, at a level that may still nest.\<close>

definition read_at :: "(string \<Rightarrow> Json rd) \<Rightarrow> string \<Rightarrow> Json rd" where
  "read_at val r =
     (let c = hd r
      in if c = CHR ''{'' then read_object val r
         else if c = CHR ''['' then read_array val r
         else if c = CHR 0x22 then
           (case read_string r of Ok s t \<Rightarrow> Ok (JStr s) t | Err m t \<Rightarrow> Err m t | Stuck \<Rightarrow> Stuck)
         else if take 4 r = ''true'' then Ok (JBool True) (drop 4 r)
         else if take 5 r = ''false'' then Ok (JBool False) (drop 5 r)
         else if take 4 r = ''null'' then Ok JNull (drop 4 r)
         else read_number r)"

text \<open>\<open>read_value n\<close> is \<^verbatim>\<open>value\<close> with \<open>n\<close> levels left, \<open>n = kMaxObjectWalk - depth\<close>.\<close>

primrec read_value :: "nat \<Rightarrow> string \<Rightarrow> Json rd" where
  "read_value 0 = (\<lambda>r0. let r = ws r0 in
     if r = [] then Err ''unexpected end of JSON'' r else Err ''JSON nested too deeply'' r)"
| "read_value (Suc n) = (\<lambda>r0. let r = ws r0 in
     if r = [] then Err ''unexpected end of JSON'' r else read_at (read_value n) r)"

definition fail_at :: "string \<Rightarrow> string \<Rightarrow> string \<Rightarrow> string" where
  "fail_at s what r = what @ '' at byte '' @ nat_str (length s - length r)"

definition parseJson :: "string \<Rightarrow> (string + Json) option" where
  "parseJson s =
     (case read_value kMaxObjectWalk s of
        Stuck \<Rightarrow> None
      | Err m r \<Rightarrow> Some (Inl (fail_at s m r))
      | Ok j r \<Rightarrow>
          if ws r = [] then Some (Inr j)
          else Some (Inl (fail_at s ''unexpected text after the JSON value'' (ws r))))"

section \<open>The writer\<close>

definition hex_char :: "nat \<Rightarrow> char" where
  "hex_char d = (if d < 10 then chr (48 + d) else chr (87 + d))"

definition str_char :: "char \<Rightarrow> string" where
  "str_char c =
     (if c = CHR 0x22 \<or> c = bslash then [bslash, c]
      else if ord c < 0x20 then [bslash, CHR ''u'', CHR ''0'', CHR ''0'', hex_char (ord c div 16), hex_char (ord c mod 16)]
      else [c])"

definition jsonStr :: "string \<Rightarrow> string" where
  "jsonStr s = CHR 0x22 # concat (map str_char s) @ [CHR 0x22]"

fun jsonText :: "Json \<Rightarrow> string" where
  "jsonText JNull = ''null''"
| "jsonText (JBool b) = json_text (JBool b)"
| "jsonText (JNum d) = json_text (JNum d)"
| "jsonText (JStr s) = jsonStr s"
| "jsonText (JArr xs) = ''['' @ join_with '','' (map jsonText xs) @ '']''"
| "jsonText (JObj kvs) =
     ''{'' @ join_with '','' (map (\<lambda>kv. jsonStr (fst kv) @ '':'' @ jsonText (snd kv)) kvs) @ ''}''"

section \<open>Reading is total, consumes text and respects the limit\<close>

text \<open>\<open>json_ok n j\<close>: every number in \<open>j\<close> is finite and \<open>j\<close> nests at most \<open>n\<close> values deep.\<close>

fun json_ok :: "nat \<Rightarrow> Json \<Rightarrow> bool" where
  "json_ok n (JNum d) \<longleftrightarrow> n > 0 \<and> finite_d d"
| "json_ok n (JArr xs) \<longleftrightarrow> n > 0 \<and> (\<forall>x \<in> set xs. json_ok (n - 1) x)"
| "json_ok n (JObj kvs) \<longleftrightarrow> n > 0 \<and> (\<forall>kv \<in> set kvs. json_ok (n - 1) (snd kv))"
| "json_ok n j \<longleftrightarrow> n > 0"

lemma ws_shorter: "length (ws r) \<le> length r"
  by (simp add: ws_def length_dropWhile_le)

lemma str_body_shorter: "str_body out r = Ok v t \<Longrightarrow> length t < length r"
proof (induction out r rule: str_body.induct)
  case (2 out c t')
  show ?case
  proof (cases "c = CHR 0x22 \<or> ord c < 0x20 \<or> c \<noteq> bslash")
    case True
    with 2 show ?thesis by (auto split: if_splits)
  next
    case False
    then have c: "c \<noteq> CHR 0x22" "\<not> ord c < 0x20" "c = bslash" by auto
    show ?thesis
    proof (cases t')
      case Nil
      with 2 c show ?thesis by simp
    next
      case (Cons e u)
      show ?thesis
      proof (cases "letter_escape e")
        case (Some d)
        with 2 c Cons have "length t < length u" by simp
        with Cons show ?thesis by simp
      next
        case None
        with "2.prems" c Cons obtain cp w where w: "e = CHR ''u''" "unicode_escape u = Ok cp w"
          "str_body (out @ utf8 cp) w = Ok v t" by (auto split: if_splits rd.splits)
        with 2 c Cons None have "length t < length w" by simp
        with Cons unicode_escape_shorter[OF w(2)] show ?thesis by simp
      qed
    qed
  qed
qed simp

lemma hex4_total: "hex4 r \<noteq> Stuck"
proof -
  have "hex_digits k cp r \<noteq> Stuck" for k cp r
    by (induction k cp r rule: hex_digits.induct) auto
  then show ?thesis by (simp add: hex4_def)
qed

lemma unicode_escape_total: "unicode_escape r \<noteq> Stuck"
  using hex4_total by (auto simp: unicode_escape_def split: rd.splits)

lemma str_body_total: "str_body out r \<noteq> Stuck"
proof (induction out r rule: str_body.induct)
  case (2 out c t)
  then show ?case
    using unicode_escape_total by (auto split: list.splits option.splits rd.splits)
qed simp

lemma read_string_shorter: "read_string r = Ok v t \<Longrightarrow> length t < length r"
  unfolding read_string_def by (drule str_body_shorter) (cases r; simp)

lemma read_string_total: "read_string r \<noteq> Stuck"
  by (simp add: read_string_def str_body_total)

lemma read_number_shorter:
  "read_number r = Ok v t \<Longrightarrow> length t < length r \<and> (\<exists>d. v = JNum d \<and> finite_d d)"
  unfolding read_number_def Let_def
  by (cases r) (auto split: if_splits prod.splits)

lemma read_number_total: "read_number r \<noteq> Stuck"
  by (auto simp: read_number_def Let_def split: prod.splits)

text \<open>
  What the loops of the reader rely on: a nested value is read in finitely many steps, takes
  text away and respects the limit of its level.
\<close>

locale value_reader =
  fixes val :: "string \<Rightarrow> Json rd" and lim :: nat
  assumes total: "val r \<noteq> Stuck"
    and shorter: "val r = Ok v t \<Longrightarrow> length t < length r"
    and within: "val r = Ok v t \<Longrightarrow> json_ok lim v"
begin

lemma members_step:
  assumes "read_members (Suc k) val kvs r = s"
  obtains m t where "s = Err m t"
  | key v t where "json_ok lim v" "length t < length r" "s = read_members k val (kvs @ [(key, v)]) t"
  | key v t where "json_ok lim v" "length t < length r" "s = Ok (JObj (kvs @ [(key, v)])) t"
proof -
  let ?r1 = "ws r"
  have r1: "length ?r1 \<le> length r" by (rule ws_shorter)
  note s = assms[symmetric, unfolded read_members.simps Let_def]
  show thesis
  proof (cases "?r1 = [] \<or> hd ?r1 \<noteq> CHR 0x22")
    case True
    show thesis by (rule that(1)) (simp only: s True if_True)
  next
    case False
    show thesis
    proof (cases "read_string ?r1")
      case (Ok key r2)
      let ?r3 = "ws r2"
      have r2: "length r2 < length ?r1" using Ok by (rule read_string_shorter)
      have r3: "length ?r3 \<le> length r2" by (rule ws_shorter)
      show thesis
      proof (cases "?r3 = [] \<or> hd ?r3 \<noteq> CHR '':''")
        case True
        show thesis by (rule that(1)) (simp only: s False if_False Ok rd.case True if_True)
      next
        case c: False
        show thesis
        proof (cases "val (tl ?r3)")
          case v: (Ok v r4)
          have l: "length r4 < length r" using shorter[OF v] r1 r2 r3 by simp
          have l5: "length (tl (ws r4)) < length r" using l ws_shorter[of r4] by simp
          note s' = s[unfolded Ok v rd.case if_not_P[OF False] if_not_P[OF c]]
          consider "ws r4 \<noteq> [] \<and> hd (ws r4) = CHR '',''" | "\<not> (ws r4 \<noteq> [] \<and> hd (ws r4) = CHR '','')"
            "ws r4 \<noteq> [] \<and> hd (ws r4) = CHR ''}''" | "\<not> (ws r4 \<noteq> [] \<and> hd (ws r4) = CHR '','')"
            "\<not> (ws r4 \<noteq> [] \<and> hd (ws r4) = CHR ''}'')" by blast
          then show thesis
          proof cases
            case 1
            show thesis by (rule that(2)[OF within[OF v] l5, of key]) (simp only: s' if_P[OF 1])
          next
            case 2
            show thesis by (rule that(3)[OF within[OF v] l5, of key]) (simp only: s' if_not_P[OF 2(1)] if_P[OF 2(2)])
          next
            case 3
            show thesis by (rule that(1)) (simp only: s' if_not_P[OF 3(1)] if_not_P[OF 3(2)])
          qed
        next
          case (Err m t)
          show thesis by (rule that(1)) (simp only: s False if_False Ok rd.case c Err)
        next
          case Stuck
          with total show thesis by simp
        qed
      qed
    next
      case (Err m t)
      show thesis by (rule that(1)) (simp only: s False if_False Err rd.case)
    next
      case Stuck
      with read_string_total show thesis by simp
    qed
  qed
qed

lemma members_total: "length r < k \<Longrightarrow> read_members k val kvs r \<noteq> Stuck"
proof (induction k arbitrary: kvs r)
  case (Suc k)
  then show ?case by (cases rule: members_step[OF refl, of k kvs r]) auto
qed simp

lemma members_ok:
  "read_members k val kvs r = Ok v t \<Longrightarrow> \<forall>kv \<in> set kvs. json_ok lim (snd kv) \<Longrightarrow>
     length t < length r \<and> json_ok (Suc lim) v"
proof (induction k arbitrary: kvs r)
  case (Suc k)
  then show ?case
    by (cases rule: members_step[OF Suc.prems(1)]) (fastforce, force, auto)
qed simp

lemma items_step:
  assumes "read_items (Suc k) val xs r = s"
  obtains m t where "s = Err m t"
  | v t where "json_ok lim v" "length t < length r" "s = read_items k val (xs @ [v]) t"
  | v t where "json_ok lim v" "length t < length r" "s = Ok (JArr (xs @ [v])) t"
proof (cases "val r")
  case (Ok v r4)
  have l5: "length (tl (ws r4)) < length r" using shorter[OF Ok] ws_shorter[of r4] by simp
  note s = assms[symmetric, unfolded read_items.simps Let_def Ok rd.case]
  consider "ws r4 \<noteq> [] \<and> hd (ws r4) = CHR '',''" | "\<not> (ws r4 \<noteq> [] \<and> hd (ws r4) = CHR '','')"
    "ws r4 \<noteq> [] \<and> hd (ws r4) = CHR '']''" | "\<not> (ws r4 \<noteq> [] \<and> hd (ws r4) = CHR '','')"
    "\<not> (ws r4 \<noteq> [] \<and> hd (ws r4) = CHR '']'')" by blast
  then show thesis
  proof cases
    case 1
    show thesis by (rule that(2)[OF within[OF Ok] l5]) (simp only: s if_P[OF 1])
  next
    case 2
    show thesis by (rule that(3)[OF within[OF Ok] l5]) (simp only: s if_not_P[OF 2(1)] if_P[OF 2(2)])
  next
    case 3
    show thesis by (rule that(1)) (simp only: s if_not_P[OF 3(1)] if_not_P[OF 3(2)])
  qed
next
  case (Err m t)
  show thesis
    by (rule that(1)) (simp only: assms[symmetric] read_items.simps Err rd.case)
next
  case Stuck
  with total show thesis by simp
qed

lemma items_total: "length r < k \<Longrightarrow> read_items k val xs r \<noteq> Stuck"
proof (induction k arbitrary: xs r)
  case (Suc k)
  then show ?case by (cases rule: items_step[OF refl, of k xs r]) auto
qed simp

lemma items_ok:
  "read_items k val xs r = Ok v t \<Longrightarrow> \<forall>x \<in> set xs. json_ok lim x \<Longrightarrow>
     length t < length r \<and> json_ok (Suc lim) v"
proof (induction k arbitrary: xs r)
  case (Suc k)
  then show ?case
    by (cases rule: items_step[OF Suc.prems(1)]) (fastforce, force, auto)
qed simp

lemma at_total: "read_at val r \<noteq> Stuck"
proof -
  have "read_object val r \<noteq> Stuck" "read_array val r \<noteq> Stuck"
    using members_total items_total by (auto simp: read_object_def read_array_def Let_def)
  then show ?thesis
    using read_string_total read_number_total by (auto simp: read_at_def Let_def split: rd.splits)
qed

lemma at_ok:
  assumes "read_at val r = Ok v t" "r \<noteq> []"
  shows "length t < length r \<and> json_ok (Suc lim) v"
proof -
  have tl: "length (ws (tl r)) < length r"
    using assms(2) ws_shorter[of "tl r"] by (cases r) auto
  have "read_object val r = Ok v t \<Longrightarrow> length t < length r \<and> json_ok (Suc lim) v"
    using members_ok[of "Suc (length (ws (tl r)))" "[]" "ws (tl r)" v t] tl
    by (auto simp: read_object_def Let_def split: if_splits)
  moreover have "read_array val r = Ok v t \<Longrightarrow> length t < length r \<and> json_ok (Suc lim) v"
    using items_ok[of "Suc (length (ws (tl r)))" "[]" "ws (tl r)" v t] tl
    by (auto simp: read_array_def Let_def split: if_splits)
  moreover have "read_number r = Ok v t \<Longrightarrow> length t < length r \<and> json_ok (Suc lim) v"
    using read_number_shorter by fastforce
  ultimately show ?thesis
    using assms read_string_shorter[of r]
    by (auto simp: read_at_def Let_def split: if_splits rd.splits)
qed

end

lemma value_reader_at:
  assumes "value_reader val lim"
  shows "value_reader (\<lambda>r0. let r = ws r0 in
      if r = [] then Err ''unexpected end of JSON'' r else read_at val r) (Suc lim)"
proof -
  have "length t < length r0 \<and> json_ok (Suc lim) v"
    if "read_at val (ws r0) = Ok v t" "ws r0 \<noteq> []" for r0 v t
    using value_reader.at_ok[OF assms that] ws_shorter[of r0] by simp
  then show ?thesis
    by unfold_locales (auto simp: Let_def value_reader.at_total[OF assms] split: if_splits)
qed

interpretation rv: value_reader "read_value n" n for n
proof (induction n)
  case 0
  show ?case by unfold_locales (auto simp: Let_def split: if_splits)
next
  case (Suc n)
  then show ?case using value_reader_at[of "read_value n" n] by simp
qed

section \<open>Reading back what was written\<close>

lemma hex_digits_hex_char:
  assumes "d < 16"
  shows "hex_digits (Suc k) cp (hex_char d # t) = hex_digits k (push_bit 4 cp OR d) t"
  using assms by (cases "d < 10") (auto simp: hex_char_def is_digit_def)

lemma nibbles: "d < 16 \<Longrightarrow> e < 16 \<Longrightarrow> push_bit 4 (d::nat) OR e = 16 * d + e"
  using shift_or[of e 4 d] by (simp add: push_bit_eq_mult)

lemma zero_char: "hex_char 0 = CHR ''0''"
  by (simp add: hex_char_def char_of_def bit_simps)

lemma hex_digits_4:
  assumes "a < 16" "b < 16" "c < 16" "d < 16"
  shows "hex_digits (Suc (Suc (Suc (Suc 0)))) 0 (hex_char a # hex_char b # hex_char c # hex_char d # t)
      = Ok (push_bit 4 (push_bit 4 (push_bit 4 a OR b) OR c) OR d) t"
  using assms by (simp only: hex_digits_hex_char hex_digits.simps(1)) simp

lemma unicode_escape_control:
  assumes "n < 0x20"
  shows "unicode_escape (CHR ''0'' # CHR ''0'' # hex_char (n div 16) # hex_char (n mod 16) # t) = Ok n t"
proof -
  have n: "n div 16 < 16" "n mod 16 < 16" using assms by auto
  have four: "Suc (Suc (Suc (Suc 0))) = 4" by simp
  have v: "push_bit 4 (push_bit 4 (push_bit 4 0 OR 0) OR n div 16) OR n mod 16 = n"
    using nibbles[OF n] by simp
  have "hex_digits 4 0 (CHR ''0'' # CHR ''0'' # hex_char (n div 16) # hex_char (n mod 16) # t) = Ok n t"
    using hex_digits_4[OF _ _ n, of 0 0 t] unfolding four v zero_char by simp
  with assms show ?thesis
    by (simp add: unicode_escape_def hex4_def del: hex_digits.simps)
qed

lemma str_body_str_char:
  "str_body out (str_char c @ r) = str_body (out @ [c]) r"
proof (cases "ord c < 0x20")
  case True
  then have c: "c \<noteq> CHR 0x22" "c \<noteq> bslash" by auto
  have "utf8 (ord c) = [c]" using True by (simp add: utf8_def)
  with True c show ?thesis
    by (simp add: str_char_def unicode_escape_control letter_escape_def)
next
  case False
  then show ?thesis by (auto simp: str_char_def letter_escape_def)
qed

lemma str_body_written: "str_body out (concat (map str_char s) @ CHR 0x22 # r) = Ok (out @ s) r"
  by (induction s arbitrary: out) (simp_all add: str_body_str_char del: str_body.simps(2), simp)

lemma read_string_jsonStr: "read_string (jsonStr s @ r) = Ok s r"
  by (simp add: read_string_def jsonStr_def str_body_written)

text \<open>A text that cannot continue a number.\<close>

definition delim :: "string \<Rightarrow> bool" where
  "delim r \<longleftrightarrow> r = [] \<or> \<not> is_numch (hd r)"

lemma int_str_numch: "c \<in> set (int_str i) \<Longrightarrow> is_numch c"
  by (auto simp: int_str_def is_numch_def dest: nat_str_digits split: if_splits)

lemma int_str_ne: "int_str i \<noteq> []"
  by (simp add: int_str_def)

lemma takeWhile_delim: "\<forall>c \<in> set s. is_numch c \<Longrightarrow> delim r \<Longrightarrow> takeWhile is_numch (s @ r) = s"
  by (cases r) (auto simp: delim_def takeWhile_append)

lemma number_token:
  assumes "delim r" "\<forall>c \<in> set s. is_numch c" "s \<noteq> []"
  shows "(let m = (if s @ r \<noteq> [] \<and> hd (s @ r) = CHR ''-'' then 1 else 0)
          in m + length (takeWhile is_numch (drop m (s @ r)))) = length s"
proof (cases "hd s = CHR ''-''")
  case True
  with assms(3) obtain t where s: "s = CHR ''-'' # t" by (cases s) auto
  with assms have "takeWhile is_numch (t @ r) = t" by (intro takeWhile_delim) auto
  with s show ?thesis by simp
next
  case False
  with assms takeWhile_delim[of s r] show ?thesis by (simp add: hd_append)
qed

lemma read_number_int_str:
  assumes "delim r" "\<bar>i\<bar> < 2 ^ 53"
  shows "read_number (int_str i @ r) = Ok (JNum (of_int_d i)) r"
proof -
  have t: "(let m = (if int_str i @ r \<noteq> [] \<and> hd (int_str i @ r) = CHR ''-'' then 1 else 0)
      in m + length (takeWhile is_numch (drop m (int_str i @ r)))) = length (int_str i)"
    using assms(1) int_str_numch int_str_ne by (intro number_token) auto
  show ?thesis
    unfolding read_number_def
    using t[unfolded Let_def] of_int_d_finite[OF assms(2)]
    by (simp only: Let_def) (simp add: strtod_of_int int_str_ne)
qed

text \<open>\<open>plain j\<close>: every number of \<open>j\<close> is an integer that fifteen digits can write.\<close>

definition plain_num :: "double \<Rightarrow> bool" where
  "plain_num d \<longleftrightarrow> (\<exists>i. \<bar>i\<bar> < 10 ^ 15 \<and> d = of_int_d i)"

fun plain :: "Json \<Rightarrow> bool" where
  "plain (JNum d) \<longleftrightarrow> plain_num d"
| "plain (JArr xs) \<longleftrightarrow> (\<forall>x \<in> set xs. plain x)"
| "plain (JObj kvs) \<longleftrightarrow> (\<forall>kv \<in> set kvs. plain (snd kv))"
| "plain j \<longleftrightarrow> True"

lemma abs_d_of_int: "\<bar>i\<bar> < 2 ^ 53 \<Longrightarrow> is_int_d \<bar>i\<bar> (abs_d (of_int_d i))"
  using of_int_d_exact[of i] by (auto simp: is_int_d_def)

lemma num_text_of_int:
  assumes "\<bar>i\<bar> < 10 ^ 15"
  shows "num_text (of_int_d i) = int_str i"
proof -
  have i: "\<bar>i\<bar> < 2 ^ 53" using assms by simp
  have b: "is_int_d (10 ^ 15) (of_int_d (10 ^ 15))" by (rule of_int_d_exact) simp
  have "less_d (abs_d (of_int_d i)) (of_int_d (10 ^ 15))"
    using is_int_d_rel(2)[OF abs_d_of_int[OF i] b] assms by simp
  moreover have "eq_d (of_int_d i) (of_int_d i)"
    using is_int_d_rel(1)[OF of_int_d_exact[OF i] of_int_d_exact[OF i]] by simp
  ultimately show ?thesis
    unfolding num_text_def floor_d_of_int[OF i] fmt_f_of_int[OF i] by simp
qed

lemma int_str_head:
  obtains c t where "int_str i = c # t" "is_digit c \<or> c = CHR ''-''"
proof (cases "i < 0")
  case True
  then show thesis using that[of "CHR ''-''"] by (simp add: int_str_def)
next
  case False
  obtain c t where "nat_str (nat i) = c # t" by (cases "nat_str (nat i)") auto
  with False nat_str_digits[of c "nat i"] show thesis using that[of c t] by (simp add: int_str_def)
qed

text \<open>The first character of a written value.\<close>

definition value_head :: "char \<Rightarrow> bool" where
  "value_head c \<longleftrightarrow> \<not> is_ws c \<and> c \<noteq> CHR '']'' \<and> c \<noteq> CHR ''}''"

lemma digit_value_head: "is_digit c \<or> c = CHR ''-'' \<Longrightarrow> value_head c"
  by (auto simp: value_head_def is_ws_def is_digit_def)

lemma jsonText_head: "plain j \<Longrightarrow> \<exists>c t. jsonText j = c # t \<and> value_head c"
proof (cases j)
  case (JNum d)
  assume "plain j"
  with JNum obtain i where "jsonText j = int_str i"
    by (auto simp: plain_num_def num_text_of_int)
  then show ?thesis using int_str_head[of i] digit_value_head by metis
qed (auto simp: value_head_def is_ws_def jsonStr_def)

lemma ws_value: "plain j \<Longrightarrow> ws (jsonText j @ r) = jsonText j @ r"
  using jsonText_head[of j] by (auto simp: ws_def value_head_def)

lemma ws_Cons: "\<not> is_ws c \<Longrightarrow> ws (c # r) = c # r"
  by (simp add: ws_def)

lemma ws_jsonStr: "ws (jsonStr s @ r) = jsonStr s @ r" "jsonStr s @ r \<noteq> []" "hd (jsonStr s @ r) = CHR 0x22"
  by (simp_all add: jsonStr_def ws_def is_ws_def)

lemma join_comma: "join_with '','' (x # xs) @ r = x @ (if xs = [] then r else CHR '','' # join_with '','' xs @ r)"
  by (cases xs) auto

lemma length_join_comma: "length xs \<le> Suc (length (join_with '','' xs))"
  by (induction xs rule: induct_list012) auto

lemma read_items_written:
  assumes "\<And>x r. x \<in> set xs \<Longrightarrow> delim r \<Longrightarrow> val (jsonText x @ r) = Ok x r"
    and "xs \<noteq> []" "length xs \<le> k"
  shows "read_items k val acc (join_with '','' (map jsonText xs) @ CHR '']'' # r) = Ok (JArr (acc @ xs)) r"
  using assms
proof (induction xs arbitrary: acc k)
  case (Cons x xs)
  from Cons.prems(3) obtain k' where k: "k = Suc k'" "length xs \<le> k'" by (cases k) auto
  let ?t = "if xs = [] then CHR '']'' # r else CHR '','' # join_with '','' (map jsonText xs) @ CHR '']'' # r"
  have "val (jsonText x @ ?t) = Ok x ?t"
    using Cons.prems(1) by (simp add: delim_def is_numch_def is_digit_def)
  then show ?case
    using Cons.IH[OF Cons.prems(1), of k' "acc @ [x]"] k
    by (simp add: join_comma read_items.simps(2) Let_def ws_Cons is_ws_def del: join_with.simps)
qed simp

lemma read_members_written:
  assumes "\<And>kv r. kv \<in> set kvs \<Longrightarrow> delim r \<Longrightarrow> val (jsonText (snd kv) @ r) = Ok (snd kv) r"
    and "kvs \<noteq> []" "length kvs \<le> k"
  shows "read_members k val acc
      (join_with '','' (map (\<lambda>kv. jsonStr (fst kv) @ '':'' @ jsonText (snd kv)) kvs) @ CHR ''}'' # r)
      = Ok (JObj (acc @ kvs)) r"
  using assms
proof (induction kvs arbitrary: acc k)
  case (Cons kv kvs)
  from Cons.prems(3) obtain k' where k: "k = Suc k'" "length kvs \<le> k'" by (cases k) auto
  let ?f = "\<lambda>kv. jsonStr (fst kv) @ '':'' @ jsonText (snd kv)"
  let ?t = "if kvs = [] then CHR ''}'' # r else CHR '','' # join_with '','' (map ?f kvs) @ CHR ''}'' # r"
  have v: "val (jsonText (snd kv) @ ?t) = Ok (snd kv) ?t"
    using Cons.prems(1) by (simp add: delim_def is_numch_def is_digit_def)
  have t: "join_with '','' (map ?f (kv # kvs)) @ CHR ''}'' # r =
      jsonStr (fst kv) @ CHR '':'' # jsonText (snd kv) @ ?t"
    by (simp add: join_comma del: join_with.simps)
  show ?case
    using Cons.IH[OF Cons.prems(1), of k' "acc @ [kv]"] k v
    unfolding t k(1) read_members.simps(2) ws_jsonStr read_string_jsonStr
    by (simp add: Let_def ws_Cons is_ws_def ws_jsonStr(2,3) read_string_jsonStr del: join_with.simps)
qed simp

lemma read_value_jsonText:
  "json_ok n j \<Longrightarrow> plain j \<Longrightarrow> delim r \<Longrightarrow> read_value n (jsonText j @ r) = Ok j r"
proof (induction j arbitrary: n r)
  case (JNum d)
  then obtain m i where n: "n = Suc m" and i: "\<bar>i\<bar> < 10 ^ 15" "d = of_int_d i"
    by (cases n) (auto simp: plain_num_def)
  from i(1) have "\<bar>i\<bar> < 2 ^ 53" by simp
  with JNum.prems i(2) have num: "read_number (int_str i @ r) = Ok (JNum d) r"
    by (simp add: read_number_int_str)
  obtain c t where c: "int_str i = c # t" "is_digit c \<or> c = CHR ''-''" by (rule int_str_head)
  have "c \<noteq> CHR ''{''" "c \<noteq> CHR ''[''" "c \<noteq> CHR 0x22" "c \<noteq> CHR ''t''" "c \<noteq> CHR ''f''" "c \<noteq> CHR ''n''"
    using c(2) by (auto simp: is_digit_def)
  moreover have "\<not> is_ws c" using digit_value_head[OF c(2)] by (simp add: value_head_def)
  ultimately show ?case
    using num c i by (simp add: n num_text_of_int ws_Cons read_at_def)
next
  case (JArr xs)
  then obtain m where n: "n = Suc m" by (cases n) auto
  show ?case
  proof (cases "xs = []")
    case False
    have val: "read_value m (jsonText x @ r) = Ok x r" if "x \<in> set xs" "delim r" for x r
      using JArr that n by simp
    obtain c t where "jsonText (hd xs) = c # t" "value_head c"
      using jsonText_head[of "hd xs"] JArr.prems(2) False by auto
    then obtain t' where ct: "join_with '','' (map jsonText xs) @ CHR '']'' # r = c # t'" "value_head c"
      using False by (cases xs) (auto simp: join_comma simp del: join_with.simps)
    then have ws: "ws (join_with '','' (map jsonText xs) @ CHR '']'' # r) =
        join_with '','' (map jsonText xs) @ CHR '']'' # r"
      by (simp add: ws_Cons value_head_def)
    have k: "length xs \<le> Suc (length (join_with '','' (map jsonText xs) @ CHR '']'' # r))"
      using length_join_comma[of "map jsonText xs"] by simp
    show ?thesis
      using read_items_written[OF val False k, of "[]" r] ct ws
      by (simp add: n ws_Cons is_ws_def read_at_def read_array_def value_head_def Let_def)
  qed (simp add: n ws_Cons is_ws_def read_at_def read_array_def)
next
  case (JObj kvs)
  then obtain m where n: "n = Suc m" by (cases n) auto
  show ?case
  proof (cases "kvs = []")
    case False
    let ?f = "\<lambda>kv. jsonStr (fst kv) @ '':'' @ jsonText (snd kv)"
    have val: "read_value m (jsonText (snd kv) @ r) = Ok (snd kv) r" if "kv \<in> set kvs" "delim r" for kv r
      using JObj.IH[of kv "snd kv" m r] JObj.prems that n
      by (cases kv) (fastforce simp: prod_set_simps)
    obtain t' where ct: "join_with '','' (map ?f kvs) @ CHR ''}'' # r = CHR 0x22 # t'"
      using False by (cases kvs) (auto simp: join_comma jsonStr_def simp del: join_with.simps)
    have k: "length kvs \<le> Suc (length (join_with '','' (map ?f kvs) @ CHR ''}'' # r))"
      using length_join_comma[of "map ?f kvs"] by simp
    show ?thesis
      using read_members_written[OF val False k, of "[]" r, unfolded ct] ct
      by (simp add: n ws_Cons is_ws_def read_at_def read_object_def Let_def)
  qed (simp add: n ws_Cons is_ws_def read_at_def read_object_def)
next
  case (JStr s)
  then show ?case
    using read_string_jsonStr[of s r] ws_jsonStr[of s r]
    by (auto simp: gr0_conv_Suc read_at_def Let_def)
qed (auto simp: ws_Cons is_ws_def read_at_def gr0_conv_Suc)

text \<open>
  C9. Reading JSON always ends: on every text the reader answers a value or an error, never
  running its member and element loops past their bound. A value it returns has only finite
  numbers and nests at most 64 deep, so the recursive walks over it are bounded.
\<close>

theorem parseJson_total_and_bounded:
  "parseJson s \<noteq> None \<and> (\<forall>j. parseJson s = Some (Inr j) \<longrightarrow> json_ok kMaxObjectWalk j)"
  using rv.total[of kMaxObjectWalk s] rv.within[of kMaxObjectWalk s]
  by (auto simp: parseJson_def split: rd.splits if_splits)

theorem parseJson_total_and_bounded_witness:
  "parseJson ''[[null]]'' = Some (Inr (JArr [JArr [JNull]])) \<and>
   json_ok kMaxObjectWalk (JArr [JArr [JNull]])"
proof -
  have k: "kMaxObjectWalk = Suc (Suc (Suc 61))" by (simp add: kMaxObjectWalk_def)
  have p: "parseJson ''[[null]]'' = Some (Inr (JArr [JArr [JNull]]))"
    unfolding parseJson_def k read_value.simps
    by (simp add: ws_def is_ws_def read_at_def read_array_def read_items.simps Let_def)
  with parseJson_total_and_bounded[of "''[[null]]''"] show ?thesis by blast
qed

text \<open>
  C8. The writer and the reader agree: the text written for a value that nests at most 64 deep
  and whose numbers are integers below \<open>10 ^ 15\<close> in magnitude reads back as that value. Strings
  and keys are arbitrary byte strings, control characters, quotes and backslashes included.
\<close>

theorem parseJson_jsonText:
  assumes "json_ok kMaxObjectWalk j" "plain j"
  shows "parseJson (jsonText j) = Some (Inr j)"
  using read_value_jsonText[OF assms, of "[]"]
  by (simp add: parseJson_def delim_def ws_def)

theorem parseJson_jsonText_witness:
  "let j = JObj [([CHR 0x22, CHR 0x01, CHR 0x5C], JArr [JNum (of_int_d (- 7)), JStr ''a'']), ([], JBool False)]
   in parseJson (jsonText j) = Some (Inr j)"
proof -
  have "plain_num (of_int_d (- 7))" "finite_d (of_int_d (- 7))"
    by (auto simp: plain_num_def intro!: exI[of _ "- 7"] of_int_d_finite)
  then show ?thesis unfolding Let_def
    by (intro parseJson_jsonText) (simp_all add: kMaxObjectWalk_def)
qed

end
