(* ===== verification/Profile_Vars.thy ===== *)
theory Profile_Vars
  imports Json
begin

text \<open>
  Variables of a profile (\<^verbatim>\<open>profile_vars.cpp\<close>): their declarations, the values a run
  gives them, and their substitution into the profile. The script engine is a parameter: the
  outcome of a script is an error text, or its result and the variables after it.
\<close>

section \<open>Declarations\<close>

type_synonym VarMap = "string \<rightharpoonup> string"

record ProfileVariable =
  pv_name :: string
  pv_label :: string
  pv_type :: string
  pv_default :: string
  pv_script :: string
  pv_choices :: "string list"

definition field_text :: "Json \<Rightarrow> string \<Rightarrow> string" where
  "field_text v k = (case json_get v k of Some f \<Rightarrow> json_text f | None \<Rightarrow> [])"

fun is_obj :: "Json \<Rightarrow> bool" where
  "is_obj (JObj _) = True"
| "is_obj _ = False"

fun is_arr :: "Json \<Rightarrow> bool" where
  "is_arr (JArr _) = True"
| "is_arr _ = False"

definition profile_variable :: "Json \<Rightarrow> ProfileVariable" where
  "profile_variable v =
     \<lparr>pv_name = field_text v ''name'', pv_label = field_text v ''label'', pv_type = field_text v ''type'',
      pv_default = field_text v ''default'', pv_script = field_text v ''script'',
      pv_choices = (case json_get v ''choices'' of Some c \<Rightarrow> map json_text (json_arr c) | None \<Rightarrow> [])\<rparr>"

definition listProfileVariables :: "Json \<Rightarrow> ProfileVariable list" where
  "listProfileVariables profile =
     (case json_get profile ''variables'' of
        Some vars \<Rightarrow>
          if is_arr vars
          then filter (\<lambda>pv. pv_name pv \<noteq> []) (map profile_variable (filter is_obj (json_arr vars)))
          else []
      | None \<Rightarrow> [])"

definition parseProfile :: "string \<Rightarrow> Json option" where
  "parseProfile text =
     (case parseJson text of Some (Inr j) \<Rightarrow> (if is_obj j then Some j else None) | _ \<Rightarrow> None)"

definition listProfileVariables_text :: "string \<Rightarrow> ProfileVariable list" where
  "listProfileVariables_text text =
     (case parseProfile text of Some root \<Rightarrow> listProfileVariables root | None \<Rightarrow> [])"

definition profileVariableDefaults :: "string \<Rightarrow> VarMap \<Rightarrow> VarMap" where
  "profileVariableDefaults text overrides =
     foldl (\<lambda>m v. m(pv_name v \<mapsto> pv_default v)) Map.empty (listProfileVariables_text text) ++ overrides"

section \<open>Values\<close>

type_synonym script_engine = "string \<Rightarrow> string \<Rightarrow> VarMap \<Rightarrow> string \<Rightarrow> string + string \<times> VarMap"

text \<open>A missing key reads as the empty string, as \<^verbatim>\<open>operator[]\<close> does.\<close>

definition at_or_empty :: "VarMap \<Rightarrow> string \<Rightarrow> string" where
  "at_or_empty m k = (case m k of Some v \<Rightarrow> v | None \<Rightarrow> [])"

definition add_default :: "VarMap \<Rightarrow> ProfileVariable \<Rightarrow> VarMap" where
  "add_default vals v = (if vals (pv_name v) = None then vals(pv_name v \<mapsto> pv_default v) else vals)"

text \<open>One round of the second loop: values and notes.\<close>

definition resolve_one :: "script_engine \<Rightarrow> string \<Rightarrow> string \<Rightarrow> VarMap \<Rightarrow>
    VarMap \<times> string list \<Rightarrow> ProfileVariable \<Rightarrow> VarMap \<times> string list" where
  "resolve_one js docJson resultsJson overrides st v =
     (case st of (vals, notes) \<Rightarrow>
        let (vals, notes) =
          (case overrides (pv_name v) of
             Some ov \<Rightarrow> (vals, notes @ [pv_name v @ '' = '' @ ov])
           | None \<Rightarrow>
               if pv_script v \<noteq> [] then
                 (case js (pv_script v) docJson (vals(pv_name v \<mapsto> [])) resultsJson of
                    Inr (r, m) \<Rightarrow>
                      let r = (if r = [] then at_or_empty m (pv_name v) else r)
                      in (vals(pv_name v \<mapsto> r), notes @ [pv_name v @ '' = '' @ r])
                  | Inl err \<Rightarrow>
                      (vals, notes @ [''variable '' @ pv_name v @ '' not evaluated, default used: '' @ err]))
               else (vals, notes))
        in if pv_choices v \<noteq> [] \<and> at_or_empty vals (pv_name v) \<notin> set (pv_choices v)
           then (vals, notes @ [''variable '' @ pv_name v @ '': '' @ [CHR 0x22] @ at_or_empty vals (pv_name v) @ [CHR 0x22] @ '' is not one of its choices''])
           else (vals, notes))"

definition resolveVariables :: "script_engine \<Rightarrow> ProfileVariable list \<Rightarrow> string \<Rightarrow> VarMap \<Rightarrow> string \<Rightarrow>
    VarMap \<times> string list" where
  "resolveVariables js defs docJson overrides resultsJson =
     foldl (resolve_one js docJson resultsJson overrides) (foldl add_default overrides defs, []) defs"

section \<open>Substitution\<close>

definition numeric :: "string \<Rightarrow> bool" where
  "numeric v \<longleftrightarrow> v \<noteq> [] \<and> (\<forall>c \<in> set v. c \<notin> set ''xXnNiI'') \<and> snd (strtod v) = []"

function subst_loop :: "VarMap \<Rightarrow> string \<Rightarrow> string \<Rightarrow> string" where
  "subst_loop vals out t =
     (case find_idx (\<lambda>c. c = CHR ''{'') t of
        None \<Rightarrow> out @ t
      | Some o' \<Rightarrow>
          (case find_idx_from (\<lambda>c. c = CHR ''}'') t (o' + 1) of
             None \<Rightarrow> out @ t
           | Some c \<Rightarrow>
               (case vals (substr t (o' + 1) (c - o' - 1)) of
                  None \<Rightarrow> subst_loop vals (out @ take (o' + 1) t) (drop (o' + 1) t)
                | Some v \<Rightarrow> subst_loop vals (out @ take o' t @ v) (drop (c + 1) t))))"
  by pat_completeness auto
termination
proof (relation "measure (\<lambda>(vals, out, t). length t)", goal_cases)
  case (2 vals out t o' c)
  then show ?case by (auto simp: find_idx_Some)
next
  case (3 vals out t o' c v)
  then show ?case by (cases t) auto
qed simp

declare subst_loop.simps [simp del]

definition substituteVariables :: "string \<Rightarrow> VarMap \<Rightarrow> string" where
  "substituteVariables t vals = (if CHR ''{'' \<notin> set t then t else subst_loop vals [] t)"

text \<open>A string node that is one placeholder takes the type of its value.\<close>

definition substitute_string :: "VarMap \<Rightarrow> string \<Rightarrow> Json" where
  "substitute_string vals s =
     (let value = (if length s > 2 \<and> hd s = CHR ''{'' \<and> last s = CHR ''}''
                   then vals (substr s 1 (length s - 2)) else None)
      in case value of
           Some v \<Rightarrow>
             if v = ''true'' \<or> v = ''false'' then JBool (v = ''true'')
             else if numeric v then JNum (fst (strtod v))
             else JStr (substituteVariables s vals)
         | None \<Rightarrow> JStr (substituteVariables s vals))"

fun substituteNode :: "VarMap \<Rightarrow> Json \<Rightarrow> Json" where
  "substituteNode vals (JStr s) = substitute_string vals s"
| "substituteNode vals (JArr xs) = JArr (map (substituteNode vals) xs)"
| "substituteNode vals (JObj kvs) = JObj (map (\<lambda>kv. (fst kv, substituteNode vals (snd kv))) kvs)"
| "substituteNode vals j = j"

fun substituteProfile :: "VarMap \<Rightarrow> Json \<Rightarrow> Json" where
  "substituteProfile vals (JObj kvs) =
     JObj (map (\<lambda>kv. if fst kv \<noteq> ''variables'' then (fst kv, substituteNode vals (snd kv)) else kv) kvs)"
| "substituteProfile vals j = j"

section \<open>Properties of substitution\<close>

text \<open>A text as literal pieces and placeholders.\<close>

datatype piece = Lit string | Var string

fun piece_text :: "piece \<Rightarrow> string" where
  "piece_text (Lit s) = s"
| "piece_text (Var n) = ''{'' @ n @ ''}''"

fun piece_value :: "VarMap \<Rightarrow> piece \<Rightarrow> string" where
  "piece_value vals (Lit s) = s"
| "piece_value vals (Var n) = (case vals n of Some v \<Rightarrow> v | None \<Rightarrow> ''{'' @ n @ ''}'')"

fun piece_ok :: "piece \<Rightarrow> bool" where
  "piece_ok (Lit s) \<longleftrightarrow> CHR ''{'' \<notin> set s"
| "piece_ok (Var n) \<longleftrightarrow> CHR ''{'' \<notin> set n \<and> CHR ''}'' \<notin> set n"

lemma find_idx_skip: "\<forall>c \<in> set s. \<not> f c \<Longrightarrow> find_idx f (s @ t) = map_option ((+) (length s)) (find_idx f t)"
  by (induction s) (simp_all add: option.map_comp comp_def option.map_ident_strong plus_nat.simps(2)[abs_def])

lemma subst_loop_literal:
  assumes "CHR ''{'' \<notin> set s"
  shows "subst_loop vals out (s @ t) = subst_loop vals (out @ s) t"
proof (cases "find_idx (\<lambda>c. c = CHR ''{'') t")
  case None
  with assms have "find_idx (\<lambda>c. c = CHR ''{'') (s @ t) = None" by (auto simp: find_idx_None)
  with None show ?thesis
    by (simp add: subst_loop.simps[of _ _ "s @ t"] subst_loop.simps[of _ _ t])
next
  case (Some k)
  have f: "find_idx (\<lambda>c. c = CHR ''{'') (s @ t) = Some (length s + k)"
    using assms Some by (subst find_idx_skip) auto
  have c: "find_idx_from (\<lambda>c. c = CHR ''}'') (s @ t) (length s + k + 1) =
      map_option ((+) (length s)) (find_idx_from (\<lambda>c. c = CHR ''}'') t (k + 1))"
    by (cases "find_idx (\<lambda>c. c = CHR ''}'') (drop (Suc k) t)") (simp_all add: find_idx_from_def)
  show ?thesis
    using Some f c
    by (cases "find_idx_from (\<lambda>c. c = CHR ''}'') t (k + 1)")
      (simp_all add: subst_loop.simps[of _ _ "s @ t"] subst_loop.simps[of _ _ t] substr_def add.assoc
        split: option.splits)
qed

lemma subst_loop_placeholder:
  assumes "CHR ''{'' \<notin> set n" "CHR ''}'' \<notin> set n"
  shows "subst_loop vals out (CHR ''{'' # n @ CHR ''}'' # t) =
    (case vals n of
       Some v \<Rightarrow> subst_loop vals (out @ v) t
     | None \<Rightarrow> subst_loop vals (out @ ''{'') (n @ CHR ''}'' # t))"
proof -
  have "find_idx_from (\<lambda>c. c = CHR ''}'') (CHR ''{'' # n @ CHR ''}'' # t) 1 = Some (length n + 1)"
    using assms(2) by (simp add: find_idx_from_def) (subst find_idx_skip; auto)
  then show ?thesis
    by (simp add: subst_loop.simps[of _ _ "CHR ''{'' # _"] substr_def split: option.splits)
qed

lemma subst_loop_pieces:
  "list_all piece_ok ps \<Longrightarrow>
     subst_loop vals out (concat (map piece_text ps)) = out @ concat (map (piece_value vals) ps)"
proof (induction ps arbitrary: out)
  case Nil
  show ?case by (simp add: subst_loop.simps)
next
  case (Cons p ps)
  show ?case
  proof (cases p)
    case (Lit s)
    with Cons show ?thesis by (simp add: subst_loop_literal)
  next
    case (Var n)
    with Cons show ?thesis
      using subst_loop_literal[of "n @ ''}''" vals "out @ ''{''" "concat (map piece_text ps)"]
      by (simp add: subst_loop_placeholder split: option.splits)
  qed
qed

text \<open>
  C10. Substitution replaces exactly the placeholders of known variables, in one pass: in a text
  made of literal pieces and placeholders, every placeholder of a variable that has a value
  becomes that value, a placeholder of an unknown variable stays as it is, literal text is kept,
  and braces inside a value are not expanded again.
\<close>

theorem substituteVariables_pieces:
  assumes "list_all piece_ok ps"
  shows "substituteVariables (concat (map piece_text ps)) vals = concat (map (piece_value vals) ps)"
proof (cases "CHR ''{'' \<in> set (concat (map piece_text ps))")
  case True
  with subst_loop_pieces[OF assms, of vals "[]"] show ?thesis by (simp add: substituteVariables_def)
next
  case False
  then have "piece_value vals p = piece_text p" if "p \<in> set ps" for p
    using that by (cases p) fastforce+
  then have "map (piece_value vals) ps = map piece_text ps" by simp
  with False show ?thesis by (simp only: substituteVariables_def if_True simp_thms)
qed

theorem substituteVariables_pieces_witness:
  "substituteVariables ''a{x}b{y}'' [''x'' \<mapsto> ''{y}''] = ''a{y}b{y}''"
  using substituteVariables_pieces[of "[Lit ''a'', Var ''x'', Lit ''b'', Var ''y'']" "[''x'' \<mapsto> ''{y}'']"]
  by simp

section \<open>Properties of the values\<close>

definition overrides_win :: "VarMap \<Rightarrow> VarMap \<Rightarrow> bool" where
  "overrides_win overrides vals \<longleftrightarrow> (\<forall>n v. overrides n = Some v \<longrightarrow> vals n = Some v)"

lemma resolve_one_keeps:
  assumes "resolve_one js dj rj overrides (vals, nts) v = (vals', nts')" "overrides_win overrides vals"
  shows "overrides_win overrides vals' \<and> dom vals' = dom vals \<union> (if pv_script v \<noteq> [] \<and>
    overrides (pv_name v) = None \<and> (\<exists>r. js (pv_script v) dj (vals(pv_name v \<mapsto> [])) rj = Inr r) then {pv_name v} else {}) \<and>
    (\<forall>n. n \<noteq> pv_name v \<longrightarrow> vals' n = vals n)"
  using assms
  by (auto simp: resolve_one_def overrides_win_def Let_def split: option.splits sum.splits prod.splits if_splits)

lemma resolve_fold:
  assumes "overrides_win overrides vals"
  shows "overrides_win overrides (fst (foldl (resolve_one js dj rj overrides) (vals, nts) defs)) \<and>
    dom vals \<subseteq> dom (fst (foldl (resolve_one js dj rj overrides) (vals, nts) defs)) \<and>
    (\<forall>n. n \<notin> pv_name ` set defs \<longrightarrow> fst (foldl (resolve_one js dj rj overrides) (vals, nts) defs) n = vals n)"
  using assms
proof (induction defs arbitrary: vals nts)
  case (Cons v defs)
  obtain vals' nts' where r: "resolve_one js dj rj overrides (vals, nts) v = (vals', nts')"
    by (cases "resolve_one js dj rj overrides (vals, nts) v")
  from resolve_one_keeps[OF r Cons.prems] have k: "overrides_win overrides vals'" "dom vals \<subseteq> dom vals'"
    "\<And>n. n \<noteq> pv_name v \<Longrightarrow> vals' n = vals n" by auto
  note ih = Cons.IH[OF k(1), of nts']
  have "dom vals \<subseteq> dom (fst (foldl (resolve_one js dj rj overrides) (vals', nts') defs))"
    using k(2) ih by blast
  with ih k(3) r show ?case by simp
qed simp

lemma defaults_fold:
  "overrides_win overrides vals \<Longrightarrow>
     overrides_win overrides (foldl add_default vals defs) \<and>
     dom (foldl add_default vals defs) = dom vals \<union> pv_name ` set defs \<and>
     (\<forall>n. n \<notin> pv_name ` set defs \<longrightarrow> foldl add_default vals defs n = vals n)"
proof (induction defs arbitrary: vals)
  case (Cons v defs)
  have "overrides_win overrides (add_default vals v)" "dom (add_default vals v) = insert (pv_name v) (dom vals)"
    "\<And>n. n \<noteq> pv_name v \<Longrightarrow> add_default vals v n = vals n"
    using Cons.prems by (auto simp: add_default_def overrides_win_def)
  with Cons.IH[of "add_default vals v"] show ?case by auto
qed simp

text \<open>
  C11. Every declared variable of a profile gets a value, an override given by the user is never
  replaced by a default or a script, and no other variable appears or changes, whatever the
  scripts return.
\<close>

theorem resolveVariables_complete:
  "dom (fst (resolveVariables js defs dj overrides rj)) \<supseteq> dom overrides \<union> pv_name ` set defs \<and>
   (\<forall>n v. overrides n = Some v \<longrightarrow> fst (resolveVariables js defs dj overrides rj) n = Some v) \<and>
   (\<forall>n. n \<notin> pv_name ` set defs \<longrightarrow> fst (resolveVariables js defs dj overrides rj) n = overrides n)"
proof -
  have o: "overrides_win overrides overrides" by (simp add: overrides_win_def)
  note d = defaults_fold[OF o, of defs]
  note r = resolve_fold[of overrides "foldl add_default overrides defs" js dj rj "[]" defs]
  show ?thesis
    unfolding resolveVariables_def using d r by (auto simp: overrides_win_def)
qed

theorem resolveVariables_complete_witness:
  "fst (resolveVariables (\<lambda>s d m r. Inr (''5'', m))
     [\<lparr>pv_name = ''dpi'', pv_label = [], pv_type = [], pv_default = ''72'', pv_script = ''x'', pv_choices = []\<rparr>]
     ''{}'' [''dpi'' \<mapsto> ''300''] ''[]'') ''dpi'' = Some ''300''"
  using resolveVariables_complete[of "[''dpi'' \<mapsto> ''300'']"] by simp

section \<open>A value that overflows\<close>

lemma strtod_1e999: "strtod ''1e999'' = (Inf False, [])"
proof -
  have "(2::nat) ^ 1024 \<le> 2 ^ (3 * 999)" by (rule power_increasing) simp_all
  also have "\<dots> = (2 ^ 3) ^ 999" by (rule power_mult)
  also have "\<dots> \<le> 10 ^ 999" by (rule power_mono) simp_all
  finally have i: "round_pq False (10 ^ 999) 1 = Inf False" by (rule round_pq_overflow)
  have m: "mantissa is_digit ''1e999'' = (''1'', [], ''e999'')"
    by (simp add: mantissa_def is_digit_def Let_def)
  have e: "exponent_after (CHR ''e'') ''e999'' = (999, [])"
    by (simp add: exponent_after_def to_lower_def is_upper_def exponent_def is_digit_def digits_val_def Let_def)
  have s: "scaled (digits_val (''1'' @ [])) 1 10 (int (length ([] :: string)) - 999) = (10 ^ 999, 1)"
  proof -
    have v: "digits_val (''1'' @ []) = 1" "int (length ([] :: string)) - 999 = - 999" by (simp_all add: digits_val_def)
    have n: "nat (- (- 999)) = 999" "\<not> 0 \<le> (- 999 :: int)" by simp_all
    show ?thesis unfolding v scaled_def by (simp only: n if_False mult_1)
  qed
  have d: "strtod_dec False ''1e999'' = Some (Inf False, [])"
    unfolding strtod_dec_def m prod.case e s i by simp
  show ?thesis
    by (simp add: strtod_def cstr_def is_space_def strtod_word_def starts_with_def to_lower_def
        is_upper_def d)
qed

text \<open>
  C13. A variable value too large for a double breaks the profile: \<^verbatim>\<open>numeric\<close> accepts it,
  substitution stores infinity, and the text written for the substituted profile is not JSON any
  more, so the reader refuses the whole profile.
\<close>

theorem overflowing_variable_breaks_profile:
  "parseJson (jsonText (substituteProfile [''x'' \<mapsto> ''1e999''] (JObj [(''a'', JStr ''{x}'')]))) =
     Some (Inl ''unexpected character at byte 5'')"
proof -
  have "numeric ''1e999''" by (simp add: numeric_def strtod_1e999)
  then have "substituteProfile [''x'' \<mapsto> ''1e999''] (JObj [(''a'', JStr ''{x}'')]) = JObj [(''a'', JNum (Inf False))]"
    by (simp add: substitute_string_def substr_def strtod_1e999 numeric_def)
  moreover have "jsonText (JObj [(''a'', JNum (Inf False))]) = CHR ''{'' # CHR 0x22 # ''a'' @ CHR 0x22 # '':inf}''"
    by (simp add: jsonStr_def str_char_def num_text_def sign_str_def)
  moreover have "parseJson (CHR ''{'' # CHR 0x22 # ''a'' @ CHR 0x22 # '':inf}'') = Some (Inl ''unexpected character at byte 5'')"
  proof -
    have k: "kMaxObjectWalk = Suc (Suc 62)" by (simp add: kMaxObjectWalk_def)
    show ?thesis
      unfolding parseJson_def k read_value.simps
      by (simp add: ws_def is_ws_def read_at_def read_object_def read_members.simps read_string_def
          read_number_def is_numch_def is_digit_def Let_def fail_at_def nat_str.simps digit_char_def
          char_of_def bit_simps)
  qed
  ultimately show ?thesis by simp
qed

end
