(* ===== verification/Jobs.thy ===== *)
theory Jobs
  imports Engine Profile_Vars Page_Ranges
begin

text \<open>
  Jobs (\<^verbatim>\<open>jobs.cpp\<close>): a prepared run with the variables and the target of its profile
  and its fallbacks (\<^verbatim>\<open>runPrepared\<close>), and a plan, a small state machine whose steps run
  prepared sub-profiles and choose the next step (\<^verbatim>\<open>runPlan\<close>). Beside the engine the
  parameters are the script engine, the facts a script sees of a document, the files a plan
  may read and what undefined reads from a null input give.
\<close>

section \<open>Small helpers\<close>

record ('d, 'h) job =
  eng :: "('d, 'h) engine"
  scripts :: script_engine
  docFacts :: "string \<Rightarrow> string \<Rightarrow> string \<Rightarrow> string option"
  readFile :: "string \<Rightarrow> string option"
  nullBytes :: "nat \<Rightarrow> string"

definition isHit :: "Issue \<Rightarrow> bool" where
  "isHit i \<longleftrightarrow> code i = ''CHECK_HIT''"

text \<open>The number before the last " hit" of the text, 1 when there is none.\<close>

definition hitCount :: "Issue \<Rightarrow> int" where
  "hitCount i =
     (case rfind_upto '' hit'' (detail i) (length (detail i)) of
        None \<Rightarrow> 1
      | Some h \<Rightarrow>
          let digits = length (takeWhile is_digit (rev (take h (detail i))))
          in if digits = 0 then 1 else atoi (drop (h - digits) (detail i)))"

definition resolutionOf :: "Json option \<Rightarrow> double \<Rightarrow> double" where
  "resolutionOf j dflt =
     (case j of
        None \<Rightarrow> dflt
      | Some j \<Rightarrow>
          let v = fst (strtod (json_text j)); lo = of_int_d 24; hi = of_int_d 1200
          in if less_d zero_d v then (if less_d v lo then lo else if less_d hi v then hi else v) else dflt)"

definition filter_issue :: "string \<Rightarrow> Issue \<Rightarrow> Issue option" where
  "filter_issue range_text i =
     (if pages i = [] then Some i
      else let ps = filter (pageInRange range_text) (pages i)
           in if ps = [] then None else Some (i\<lparr>pages := ps\<rparr>))"

definition filterRange :: "Issue list \<Rightarrow> string \<Rightarrow> Issue list" where
  "filterRange is range_text = List.map_filter (filter_issue range_text) is"

text \<open>
  The input as a byte string. A null pointer with a size is undefined behaviour where the code
  copies it; what comes of it is a parameter.
\<close>

definition bytes_of :: "('d, 'h) job \<Rightarrow> input \<Rightarrow> string" where
  "bytes_of J inp = (case inp of Buf d \<Rightarrow> d | NullBuf n \<Rightarrow> if n = 0 then [] else nullBytes J n)"

definition is_slash :: "char \<Rightarrow> bool" where
  "is_slash c \<longleftrightarrow> c = CHR ''/'' \<or> c = CHR 0x5C"

definition docJsonOf :: "('d, 'h) job \<Rightarrow> string \<Rightarrow> Options \<Rightarrow> string" where
  "docJsonOf J data o' =
     (let path = (if inputName o' = [] then inputPath o' else inputName o');
          name = (case find_last_idx is_slash path of None \<Rightarrow> path | Some k \<Rightarrow> drop (k + 1) path)
      in case docFacts J data (password o') name of Some j \<Rightarrow> j | None \<Rightarrow> ''{}'')"

definition verify_options :: "Options \<Rightarrow> Options" where
  "verify_options o' = o'\<lparr>verifyOnly := True, preflightProfile := [], profileFixOps := [],
     colorJobEnabled := False, signDocument := None, hasRasterizePage := False, bookmarks := []\<rparr>"

definition verifyBytes :: "('d, 'h) job \<Rightarrow> string \<Rightarrow> Options \<Rightarrow> Result" where
  "verifyBytes J data o' = convertOnce (eng J) (Buf data) (verify_options o')"

definition mk_note :: "string \<Rightarrow> string \<Rightarrow> bool \<Rightarrow> int \<Rightarrow> Issue" where
  "mk_note c d f sev = \<lparr>code = c, detail = d, fixed = f, severity = sev, pages = []\<rparr>"

abbreviation in_quotes :: "string \<Rightarrow> string" where
  "in_quotes s \<equiv> CHR 0x22 # s @ [CHR 0x22]"

section \<open>A prepared run\<close>

text \<open>The target level of a profile: options, text for the report and problems.\<close>

definition convert_level :: "Json \<Rightarrow> Options \<Rightarrow> Options \<times> string \<times> Issue list" where
  "convert_level cv o' =
     (case json_get cv ''level'' of
        Some lv \<Rightarrow>
          if levelFromProfile o' then
            (case levelFromString (levelName (json_text lv)) of
               Some l \<Rightarrow> (o'\<lparr>level := l\<rparr>, ''profile converts to '' @ levelToString l, [])
             | None \<Rightarrow> (o', [], [mk_note ''PROFILE_INVALID'' (''convert.level: '' @ in_quotes (json_text lv) @ '' is not a known standard'') False 3]))
          else (o', [], [])
      | None \<Rightarrow> (o', [], []))"

definition convert_also :: "Json \<Rightarrow> Options \<times> string \<times> Issue list \<Rightarrow> Options \<times> string \<times> Issue list" where
  "convert_also cv st =
     (case st of (o', what, pre) \<Rightarrow>
        (case json_get cv ''also'' of
           None \<Rightarrow> st
         | Some al \<Rightarrow>
             if json_text al = [] then st
             else case levelFromString (levelName (json_text al)) of
               Some l \<Rightarrow>
                 if levelFamily l = PDFX
                 then (o'\<lparr>dualPrint := True\<rparr>,
                       what @ (if what = [] then ''profile adds'' else '','') @ '' also '' @ levelToString l, pre)
                 else (o', what, pre @ [mk_note ''PROFILE_INVALID'' (''convert.also: '' @ in_quotes (json_text al) @ '' is not a PDF/X standard'') False 3])
             | None \<Rightarrow> (o', what, pre @ [mk_note ''PROFILE_INVALID'' (''convert.also: '' @ in_quotes (json_text al) @ '' is not a PDF/X standard'') False 3])))"

definition convert_fallback :: "Json \<Rightarrow> Options \<Rightarrow> Options" where
  "convert_fallback cv o0 =
     (let o1 = (case json_get cv ''reconvert'' of
                  Some rc \<Rightarrow> o0\<lparr>reconvert := reconvert o0 \<or> rc = JBool True\<rparr> | None \<Rightarrow> o0)
      in case json_get cv ''raster_fallback'' of
           None \<Rightarrow> o1
         | Some rf \<Rightarrow>
             if \<not> is_obj rf then o1
             else
               let o2 = (if le_d (fallbackDpi o1) zero_d
                         then o1\<lparr>fallbackDpi := resolutionOf (json_get rf ''resolution'') (of_int_d 300)\<rparr> else o1);
                   o3 = (case json_get rf ''pages'' of
                           Some pg \<Rightarrow> if json_text pg = ''problem_pages'' then o2\<lparr>fallbackProblemPagesOnly := True\<rparr> else o2
                         | None \<Rightarrow> o2)
               in if json_get rf ''keep_text'' = Some (JBool False) then o3\<lparr>rasterKeepText := False\<rparr> else o3)"

definition applyConvert :: "Json \<Rightarrow> Options \<Rightarrow> Issue list \<Rightarrow> Options \<times> Issue list" where
  "applyConvert root o0 pre =
     (case json_get root ''convert'' of
        None \<Rightarrow> (o0, pre)
      | Some cv \<Rightarrow>
          if \<not> is_obj cv then (o0, pre)
          else case convert_also cv (convert_level cv o0) of
            (o1, what, problems) \<Rightarrow>
              (convert_fallback cv o1,
               pre @ problems @ (if what \<noteq> [] then [mk_note ''PROFILE_TARGET'' what False 1] else [])))"

definition variable_note :: "string \<Rightarrow> Issue" where
  "variable_note n = mk_note ''VARIABLE_SET'' n False (if starts_with n ''variable '' then 2 else 1)"

text \<open>The profile of the run with its variables substituted, and the target it sets.\<close>

definition prepare_profile :: "('d, 'h) job \<Rightarrow> input \<Rightarrow> Options \<Rightarrow> Options \<times> Issue list" where
  "prepare_profile J inp o0 =
     (if preflightProfile o0 = [] then (o0, [])
      else case parseJson (preflightProfile o0) of
        Some (Inr root) \<Rightarrow>
          if \<not> is_obj root then (o0, [])
          else
            let defs = listProfileVariables root
            in if defs \<noteq> [] \<or> profileVars o0 \<noteq> Map.empty then
                 (case resolveVariables (scripts J) defs (docJsonOf J (bytes_of J inp) o0) (profileVars o0) ''[]'' of
                    (vals, nts) \<Rightarrow>
                      let root = substituteProfile vals root
                      in applyConvert root (o0\<lparr>preflightProfile := jsonText root\<rparr>) (map variable_note nts))
               else applyConvert root o0 []
      | _ \<Rightarrow> (o0, []))"

text \<open>A second conversion from the first result; the answer is the result and the last check.\<close>

definition try_reconvert :: "('d, 'h) job \<Rightarrow> Options \<Rightarrow> Result \<Rightarrow> Result \<Rightarrow> (Result \<times> Result) \<times> bool" where
  "try_reconvert J o' r check =
     (let r2 = convertOnce (eng J) (Buf (pdf r)) (o'\<lparr>preflightProfile := [], profileFixOps := [], colorJobEnabled := False\<rparr>)
      in if ok r2 then
           (let check = verifyBytes J (pdf r2) o'
            in if compliant check
               then ((r2\<lparr>analysis := analysis r @ analysis r2,
                         issues := issues r2 @ [mk_note ''FALLBACK_RECONVERTED'' ''converted a second time from the first result'' True 1]\<rparr>,
                      check), True)
               else ((r, check), False))
         else ((r, check), False))"

definition try_raster :: "('d, 'h) job \<Rightarrow> input \<Rightarrow> Options \<Rightarrow> Result \<Rightarrow> Result \<Rightarrow> Result" where
  "try_raster J inp o' r check =
     (let o1 = o'\<lparr>rasterDpi := fallbackDpi o'\<rparr>;
          o2 = (if fallbackProblemPagesOnly o' \<and> ok r
                then o1\<lparr>rasterPages := rasterPages o1 \<union> (\<Union>i \<in> set (filter deviation (issues check)). set (pages i))\<rparr>
                else o1);
          o3 = (if rasterPages o2 = {} then o2\<lparr>rasterizeAllPages := True\<rparr> else o2);
          r3 = convertOnce (eng J) inp o3
      in if ok r3
         then r3\<lparr>issues := issues r3 @ [mk_note ''FALLBACK_RASTERIZED''
                (''regular conversion did not reach compliance; '' @
                 (if rasterizeAllPages o3 then ''all pages'' else nat_str (card (rasterPages o3)) @ '' page(s)'') @
                 '' converted to images'' @
                 (if rasterKeepText o3 then '' with the original text kept invisible'' else [])) True 2]\<rparr>
         else r)"

definition fallbacks :: "('d, 'h) job \<Rightarrow> input \<Rightarrow> Options \<Rightarrow> Result \<Rightarrow> Result" where
  "fallbacks J inp o' r =
     (if \<not> verifyOnly o' \<and> (reconvert o' \<or> less_d zero_d (fallbackDpi o')) \<and> levelFamily (level o') = PDFA then
        let check = (if ok r then verifyBytes J (pdf r) o' else Result0);
            good = (ok r \<and> compliant check);
            ((r, check), good) = (if \<not> good \<and> reconvert o' \<and> ok r then try_reconvert J o' r check else ((r, check), good))
        in if \<not> good \<and> less_d zero_d (fallbackDpi o') \<and> hasRasterizePage o' then try_raster J inp o' r check else r
      else r)"

definition quick :: "Options \<Rightarrow> Result \<Rightarrow> Result" where
  "quick o' r =
     (if quickCheck o' \<and> verifyOnly o'
      then (case find deviation (issues r) of Some i \<Rightarrow> r\<lparr>issues := [i]\<rparr> | None \<Rightarrow> r) else r)"

definition restrict_pages :: "Options \<Rightarrow> Result \<Rightarrow> Result" where
  "restrict_pages o' r0 =
     (if pageRange o' = [] then r0
      else
        let r = r0\<lparr>issues := filterRange (issues r0) (pageRange o'), analysis := filterRange (analysis r0) (pageRange o')\<rparr>
        in if verifyOnly o' \<and> ok r then r\<lparr>compliant := \<not> list_ex deviation (issues r)\<rparr> else r)"

definition runPrepared :: "('d, 'h) job \<Rightarrow> input \<Rightarrow> Options \<Rightarrow> Result" where
  "runPrepared J inp o0 =
     (case prepare_profile J inp o0 of
        (o', pre) \<Rightarrow>
          let r = restrict_pages o' (quick o' (fallbacks J inp o' (convertOnce (eng J) inp o')))
          in r\<lparr>analysis := pre @ analysis r\<rparr>)"

section \<open>The helpers of a plan\<close>

record StepOutcome =
  so_sev :: int
  so_hits :: int
  so_pages :: "int set"

definition StepOutcome0 :: StepOutcome where
  "StepOutcome0 = \<lparr>so_sev = 0, so_hits = 0, so_pages = {}\<rparr>"

definition collect_hit :: "StepOutcome \<Rightarrow> Issue \<Rightarrow> StepOutcome" where
  "collect_hit so i =
     (if \<not> isHit i then so
      else so\<lparr>so_sev := max (so_sev so) (if severity i \<noteq> 0 then min (severity i) 3 else 3),
              so_hits := so_hits so + hitCount i, so_pages := so_pages so \<union> set (pages i)\<rparr>)"

definition collectHits :: "Result \<Rightarrow> StepOutcome \<Rightarrow> StepOutcome" where
  "collectHits r so = foldl collect_hit so (analysis r)"

fun set_pair :: "string \<Rightarrow> Json \<Rightarrow> (string \<times> Json) list \<Rightarrow> (string \<times> Json) list" where
  "set_pair k v [] = [(k, v)]"
| "set_pair k v (kv # kvs) = (if fst kv = k then (k, v) # kvs else kv # set_pair k v kvs)"

definition setKey :: "Json \<Rightarrow> string \<Rightarrow> Json \<Rightarrow> Json" where
  "setKey j k v = (case j of JObj kvs \<Rightarrow> JObj (set_pair k v kvs) | _ \<Rightarrow> j)"

definition withoutKeys :: "Json \<Rightarrow> string list \<Rightarrow> Json" where
  "withoutKeys root ks = JObj (filter (\<lambda>kv. fst kv \<notin> set ks) (json_obj root))"

text \<open>One check of the profile, silenced unless it is the one to keep.\<close>

definition keeps_check :: "string \<Rightarrow> Json \<Rightarrow> bool" where
  "keeps_check keep c \<longleftrightarrow>
     keep \<noteq> [] \<and> (case json_get c ''name'' of Some n \<Rightarrow> json_text n = keep | None \<Rightarrow> False)"

definition silence_check :: "string \<Rightarrow> Json \<Rightarrow> Json" where
  "silence_check keep c = (if keeps_check keep c then c else setKey c ''silent'' (JBool True))"

fun map_arr :: "(Json \<Rightarrow> Json) \<Rightarrow> Json \<Rightarrow> Json" where
  "map_arr f (JArr xs) = JArr (map f xs)"
| "map_arr f j = j"

definition silenceChecks :: "Json \<Rightarrow> string \<Rightarrow> Json \<times> bool" where
  "silenceChecks prof keep =
     (JObj (map (\<lambda>kv. if fst kv = ''checks'' then (fst kv, map_arr (silence_check keep) (snd kv)) else kv) (json_obj prof)),
      \<exists>kv \<in> set (json_obj prof). fst kv = ''checks'' \<and> list_ex (keeps_check keep) (json_arr (snd kv)))"

definition hasEntries :: "Json \<Rightarrow> string \<Rightarrow> bool" where
  "hasEntries prof k =
     (case json_get prof k of
        Some (JArr xs) \<Rightarrow> xs \<noteq> [] | Some (JObj kvs) \<Rightarrow> True | _ \<Rightarrow> False)"

definition readProfileFile :: "('d, 'h) job \<Rightarrow> string \<Rightarrow> Options \<Rightarrow> string option" where
  "readProfileFile J path o' =
     (let full =
        (case find_last_idx is_slash (profilePath o') of
           Some k \<Rightarrow>
             if path \<noteq> [] \<and> hd path \<noteq> CHR ''/'' \<and> CHR '':'' \<notin> set path
             then take (k + 1) (profilePath o') @ path else path
         | None \<Rightarrow> path)
      in readFile J full)"

definition truthy :: "string \<Rightarrow> bool" where
  "truthy v \<longleftrightarrow> v \<notin> {[], ''0'', ''false'', ''undefined'', ''null'', ''NaN''}"

definition resultsJson :: "string list \<Rightarrow> string" where
  "resultsJson results = ''['' @ join_with '','' results @ '']''"

section \<open>The plan machine\<close>

text \<open>
  The state of a running plan: the result so far, the current file, the variables, the results
  of the steps so far, whether a step converted, and the index of the next step.
\<close>

record plan_state =
  ps_out :: Result
  ps_cur :: string
  ps_vars :: VarMap
  ps_results :: "string list"
  ps_converted :: bool
  ps_i :: int

text \<open>What a step did: its description, its failure and its outcome.\<close>

record step_report =
  sr_what :: string
  sr_failure :: string
  sr_so :: StepOutcome

abbreviation report :: "string \<Rightarrow> string \<Rightarrow> StepOutcome \<Rightarrow> step_report" where
  "report w f so \<equiv> \<lparr>sr_what = w, sr_failure = f, sr_so = so\<rparr>"

definition add_issue :: "Issue \<Rightarrow> plan_state \<Rightarrow> plan_state" where
  "add_issue i st = st\<lparr>ps_out := (ps_out st)\<lparr>issues := issues (ps_out st) @ [i]\<rparr>\<rparr>"

definition add_analysis :: "Issue list \<Rightarrow> plan_state \<Rightarrow> plan_state" where
  "add_analysis is st = st\<lparr>ps_out := (ps_out st)\<lparr>analysis := analysis (ps_out st) @ is\<rparr>\<rparr>"

definition tagged :: "string \<Rightarrow> string \<Rightarrow> string" where
  "tagged sid t = ''['' @ sid @ ''] '' @ t"

definition step_field :: "Json \<Rightarrow> VarMap \<Rightarrow> string \<Rightarrow> string" where
  "step_field step vars k = (case json_get step k of Some f \<Rightarrow> substituteVariables (json_text f) vars | None \<Rightarrow> [])"

definition stepId :: "Json list \<Rightarrow> VarMap \<Rightarrow> nat \<Rightarrow> string" where
  "stepId steps vars i =
     (case json_get (steps ! i) ''id'' of
        Some sid \<Rightarrow> substituteVariables (json_text sid) vars | None \<Rightarrow> ''step'' @ nat_str (i + 1))"

definition step_disabled :: "Json \<Rightarrow> VarMap \<Rightarrow> bool" where
  "step_disabled step vars =
     (case json_get step ''enabled'' of
        Some en \<Rightarrow> en = JBool False \<or> substituteVariables (json_text en) vars = ''false''
      | None \<Rightarrow> False)"

definition step_variable :: "('d, 'h) job \<Rightarrow> Options \<Rightarrow> ProfileVariable list \<Rightarrow> Json \<Rightarrow> string \<Rightarrow>
    plan_state \<Rightarrow> plan_state \<times> step_report" where
  "step_variable J o' defs step sid st =
     (let vars = ps_vars st;
          name = step_field step vars ''variable'';
          val = at_or_empty vars name;
          finish = (\<lambda>st val.
            (add_analysis [mk_note ''VARIABLE_SET'' (tagged sid (name @ '' = '' @ val)) False 1] st,
             report (''variable '' @ name @ '' = '' @ val) [] (if truthy val then StepOutcome0 else StepOutcome0\<lparr>so_sev := 3\<rparr>)))
      in case find (\<lambda>v. pv_name v = name) defs of
           None \<Rightarrow> (st, report [] (''variable '' @ name @ '' is not defined'') StepOutcome0)
         | Some def \<Rightarrow>
             if pv_script def = [] then finish st val
             else case scripts J (pv_script def) (docJsonOf J (ps_cur st) o') (vars(name \<mapsto> [])) (resultsJson (ps_results st)) of
               Inr (r, m) \<Rightarrow>
                 let val = (if r = [] then at_or_empty m name else r)
                 in finish (st\<lparr>ps_vars := vars(name \<mapsto> val)\<rparr>) val
             | Inl err \<Rightarrow> (st, report [] (''variable '' @ name @ '': '' @ err) StepOutcome0))"

text \<open>The sub-profile of a step: description, failure, profile and whether it converts.\<close>

definition sub_check :: "Json \<Rightarrow> string \<Rightarrow> string \<times> string \<times> Json \<times> bool" where
  "sub_check raw name =
     (case silenceChecks (withoutKeys raw [''plan'', ''fixes'', ''convert'']) name of
        (sub, found) \<Rightarrow>
          (''check '' @ name, if found then [] else ''check '' @ name @ '' is not in the profile'', sub, False))"

definition find_fix :: "Json \<Rightarrow> VarMap \<Rightarrow> Json \<Rightarrow> Json" where
  "find_fix raw vars step =
     (case json_get step ''fix'' of
        None \<Rightarrow> JNull
      | Some f \<Rightarrow>
          if is_obj f then f
          else
            let name = substituteVariables (json_text f) vars;
                all = (case json_get raw ''fixes'' of Some a \<Rightarrow> json_arr a | None \<Rightarrow> [])
            in case find (\<lambda>c. case json_get c ''fix'' of Some cid \<Rightarrow> json_text cid = name | None \<Rightarrow> False) all of
                 Some c \<Rightarrow> c | None \<Rightarrow> JNull)"

definition sub_fix :: "Json \<Rightarrow> VarMap \<Rightarrow> Json \<Rightarrow> string \<times> string \<times> Json \<times> bool" where
  "sub_fix raw vars step =
     (let fx = find_fix raw vars step;
          what = ''fix '' @ (case json_get fx ''fix'' of Some fid \<Rightarrow> json_text fid | None \<Rightarrow> ''?'');
          ftext = (case json_get step ''fix'' of Some f \<Rightarrow> json_text f | None \<Rightarrow> []);
          failure = (if is_obj fx then [] else ''fix '' @ ftext @ '' is not in the profile'');
          sub = fst (silenceChecks (withoutKeys raw [''plan'', ''fixes'', ''convert'']) [])
      in (what, failure, setKey sub ''fixes'' (JArr [fx]), True))"

definition sub_profile :: "('d, 'h) job \<Rightarrow> Options \<Rightarrow> VarMap \<Rightarrow> Json \<Rightarrow> string \<times> string \<times> Json \<times> bool" where
  "sub_profile J o' vars step =
     (let (what, failure, sub) =
        (case json_get step ''profile'' of
           Some (JObj kvs) \<Rightarrow> (''profile (inline)'', [], JObj kvs)
         | _ \<Rightarrow>
             let path = step_field step vars ''profile''; what = ''profile '' @ path
             in case readProfileFile J path o' of
                  None \<Rightarrow> (what, ''cannot read profile '' @ path, JNull)
                | Some text \<Rightarrow>
                    (case parseJson text of
                       Some (Inr j) \<Rightarrow> (what, if is_obj j then [] else ''profile '' @ path @ '': '', j)
                     | Some (Inl err) \<Rightarrow> (what, ''profile '' @ path @ '': '' @ err, JNull)
                     | None \<Rightarrow> (what, ''profile '' @ path @ '': '', JNull)))
      in (what, failure, sub, hasEntries sub ''fixes'' \<or> hasEntries sub ''convert''))"

text \<open>After a converting profile step with checks, the checks are run again on its result.\<close>

definition recheck :: "('d, 'h) job \<Rightarrow> Options \<Rightarrow> Result \<Rightarrow> StepOutcome" where
  "recheck J o' r =
     (let v = o'\<lparr>verifyOnly := True, levelFromProfile := False\<rparr>;
          v = (case levelFromString (res_level r) of Some l \<Rightarrow> v\<lparr>level := l\<rparr> | None \<Rightarrow> v);
          after = runPrepared J (Buf (pdf r)) v
      in if ok after then collectHits after StepOutcome0 else StepOutcome0\<lparr>so_sev := 3\<rparr>)"

definition run_sub :: "('d, 'h) job \<Rightarrow> Options \<Rightarrow> string \<Rightarrow> string \<Rightarrow> string \<Rightarrow> Json \<Rightarrow> bool \<Rightarrow>
    plan_state \<Rightarrow> plan_state \<times> StepOutcome" where
  "run_sub J opt' sid kind what sub converts st =
     (let o' = opt'\<lparr>preflightProfile := jsonText sub, profileVars := ps_vars st,
                    verifyOnly := verifyOnly opt' \<or> \<not> converts\<rparr>;
          r = runPrepared J (Buf (ps_cur st)) o';
          st = add_analysis (map (\<lambda>i. i\<lparr>detail := tagged sid (detail i)\<rparr>)
                 (filter (\<lambda>i. code i \<noteq> ''VARIABLE_SET'') (analysis r))) st
      in if \<not> ok r then
           (add_issue (mk_note ''PLAN_STEP_FAILED'' (tagged sid (what @ '': '' @ error r)) True 3) st, StepOutcome0\<lparr>so_sev := 3\<rparr>)
         else if \<not> verifyOnly o' then
           (st\<lparr>ps_out := (ps_out st)\<lparr>issues := issues (ps_out st) @ issues r, res_level := res_level r\<rparr>,
               ps_cur := pdf r, ps_converted := True\<rparr>,
            if kind = ''profile'' \<and> hasEntries sub ''checks'' then recheck J o' r else StepOutcome0)
         else
           (if compliant r then st else st\<lparr>ps_out := (ps_out st)\<lparr>compliant := False\<rparr>\<rparr>,
            collectHits r StepOutcome0))"

definition step_sub :: "('d, 'h) job \<Rightarrow> Options \<Rightarrow> Json \<Rightarrow> Json \<Rightarrow> string \<Rightarrow> string \<Rightarrow> plan_state \<Rightarrow>
    plan_state \<times> step_report" where
  "step_sub J o' raw step sid kind st =
     (case (if kind = ''check'' then sub_check raw (step_field step (ps_vars st) ''check'')
            else if kind = ''fix'' then sub_fix raw (ps_vars st) step
            else sub_profile J o' (ps_vars st) step) of
        (what, failure, sub, converts) \<Rightarrow>
          if failure \<noteq> [] then (st, report what failure StepOutcome0)
          else case run_sub J o' sid kind what sub converts st of (st, so) \<Rightarrow> (st, report what [] so))"

definition step_body :: "('d, 'h) job \<Rightarrow> string \<Rightarrow> Options \<Rightarrow> ProfileVariable list \<Rightarrow> Json \<Rightarrow> Json \<Rightarrow> string \<Rightarrow>
    plan_state \<Rightarrow> plan_state \<times> step_report" where
  "step_body J data o' defs raw step sid st =
     (let kind = step_field step (ps_vars st) ''do''
      in if kind = ''revert'' then (st\<lparr>ps_cur := data\<rparr>, report ''revert to the original file'' [] StepOutcome0)
         else if kind = ''variable'' then step_variable J o' defs step sid st
         else if kind = ''check'' \<or> kind = ''fix'' \<or> kind = ''profile'' then step_sub J o' raw step sid kind st
         else (st, report [] (''unknown step kind '' @ in_quotes kind) StepOutcome0))"

definition outcome_key :: "int \<Rightarrow> string" where
  "outcome_key sev = [''pass'', ''info'', ''warning'', ''error''] ! nat (min 3 (max 0 sev))"

definition result_entry :: "string \<Rightarrow> StepOutcome \<Rightarrow> string" where
  "result_entry sid so =
     ''{'' @ in_quotes ''step'' @ '':'' @ in_quotes sid @ '','' @ in_quotes ''hits'' @ '':'' @ int_str (so_hits so) @
     '','' @ in_quotes ''pages'' @ '':['' @ join_with '','' (map int_str (sorted_list_of_set (so_pages so))) @ '']}''"

text \<open>The name a step's \<open>next\<close> gives for an outcome, empty when it gives none.\<close>

definition next_name :: "Json \<Rightarrow> VarMap \<Rightarrow> string \<Rightarrow> string" where
  "next_name step vars key =
     (case json_get step ''next'' of
        None \<Rightarrow> []
      | Some nx \<Rightarrow>
          (case (case json_get nx key of Some t \<Rightarrow> Some t | None \<Rightarrow> json_get nx ''default'') of
             Some t \<Rightarrow> substituteVariables (json_text t) vars | None \<Rightarrow> []))"

text \<open>The last step with the name wins; \<open>-1\<close> ends the plan and \<open>-2\<close> means there is none.\<close>

definition find_step :: "Json list \<Rightarrow> VarMap \<Rightarrow> string \<Rightarrow> int" where
  "find_step steps vars name =
     foldl (\<lambda>ni k. if stepId steps vars k = name then int k else ni) (- 2) [0..<length steps]"

definition choose_next :: "Json list \<Rightarrow> nat \<Rightarrow> string \<Rightarrow> string \<Rightarrow> plan_state \<Rightarrow> plan_state \<times> int" where
  "choose_next steps i sid key st =
     (let name = next_name (steps ! i) (ps_vars st) key
      in if name = [] then (st, int i + 1)
         else if name = ''end'' then (st, - 1)
         else
           let ni = find_step steps (ps_vars st) name
           in if ni = - 2
              then (add_issue (mk_note ''PLAN_STEP_FAILED'' (tagged sid (''next step '' @ in_quotes name @ '' does not exist'')) True 3) st, - 1)
              else (st, ni))"

definition plan_step :: "('d, 'h) job \<Rightarrow> string \<Rightarrow> Options \<Rightarrow> ProfileVariable list \<Rightarrow> Json \<Rightarrow> Json list \<Rightarrow>
    plan_state \<Rightarrow> plan_state" where
  "plan_step J data o' defs raw steps st =
     (let i = nat (ps_i st); step = steps ! i
      in if step_disabled step (ps_vars st) then st\<lparr>ps_i := ps_i st + 1\<rparr>
         else
           let sid = stepId steps (ps_vars st) i
           in case step_body J data o' defs raw step sid st of
                (st, rep) \<Rightarrow>
                  let failed = (sr_failure rep \<noteq> []);
                      so = (if failed then (sr_so rep)\<lparr>so_sev := 3\<rparr> else sr_so rep);
                      what = (if failed then sr_failure rep else sr_what rep);
                      st = (if failed then add_issue (mk_note ''PLAN_STEP_FAILED'' (tagged sid (sr_failure rep)) True 3) st else st);
                      st = st\<lparr>ps_results := ps_results st @ [result_entry sid so]\<rparr>;
                      key = outcome_key (so_sev so)
                  in case choose_next steps i sid key st of
                       (st, ni) \<Rightarrow>
                         let nextName = (if 0 \<le> ni \<and> ni < int (length steps) then stepId steps (ps_vars st) (nat ni) else ''end'')
                         in add_analysis [mk_note ''PLAN_STEP'' (''step '' @ sid @ '': '' @ what @ '' -> '' @ key @ '', next '' @ nextName) False 1]
                              (st\<lparr>ps_i := ni\<rparr>))"

text \<open>The loop; its bound is the \<open>guard\<close> of the code.\<close>

fun plan_loop :: "nat \<Rightarrow> ('d, 'h) job \<Rightarrow> string \<Rightarrow> Options \<Rightarrow> ProfileVariable list \<Rightarrow> Json \<Rightarrow> Json list \<Rightarrow>
    plan_state \<Rightarrow> plan_state" where
  "plan_loop 0 J data o' defs raw steps st = st"
| "plan_loop (Suc g) J data o' defs raw steps st =
     (if 0 \<le> ps_i st \<and> ps_i st < int (length steps)
      then plan_loop g J data o' defs raw steps (plan_step J data o' defs raw steps st) else st)"

definition plan_steps :: "Json \<Rightarrow> Json list" where
  "plan_steps raw =
     (case json_get raw ''plan'' of
        Some p \<Rightarrow> (case json_get p ''steps'' of Some s \<Rightarrow> json_arr s | None \<Rightarrow> []) | None \<Rightarrow> [])"

definition step_variables :: "Json list \<Rightarrow> string set" where
  "step_variables steps =
     set (List.map_filter (\<lambda>st.
       case (json_get st ''do'', json_get st ''variable'') of
         (Some d, Some v) \<Rightarrow> if json_text d = ''variable'' then Some (json_text v) else None
       | _ \<Rightarrow> None) steps)"

definition plan_start :: "('d, 'h) job \<Rightarrow> string \<Rightarrow> Options \<Rightarrow> Json \<Rightarrow> Options \<times> plan_state" where
  "plan_start J data o0 raw =
     (let defs = listProfileVariables raw;
          sv = step_variables (plan_steps raw);
          initial = map (\<lambda>v. if pv_name v \<in> sv then v\<lparr>pv_script := []\<rparr> else v) defs
      in case resolveVariables (scripts J) initial (docJsonOf J data o0) (profileVars o0) ''[]'' of
           (vars, nts) \<Rightarrow>
             (case applyConvert (substituteProfile vars raw) o0 (map variable_note nts) of
                (o', an) \<Rightarrow>
                  (o', \<lparr>ps_out = Result0\<lparr>ok := True, compliant := True, analysis := an, res_level := levelToString (level o')\<rparr>,
                        ps_cur = data, ps_vars = vars, ps_results = [], ps_converted = False, ps_i = 0\<rparr>)))"

definition plan_finish :: "Options \<Rightarrow> plan_state \<Rightarrow> Result" where
  "plan_finish o' st =
     (let st = (if \<not> ps_converted st \<and> \<not> verifyOnly o'
                then add_issue (mk_note ''PLAN_NO_CONVERSION'' ''the plan ran no converting step; output equals input'' False 1) st
                else st)
      in if verifyOnly o' then ps_out st else (ps_out st)\<lparr>pdf := ps_cur st\<rparr>)"

definition runPlan :: "('d, 'h) job \<Rightarrow> string \<Rightarrow> Options \<Rightarrow> Json \<Rightarrow> Result" where
  "runPlan J data o0 raw =
     (case plan_start J data o0 raw of
        (o', st) \<Rightarrow> plan_finish o' (plan_loop 256 J data o' (listProfileVariables raw) raw (plan_steps raw) st))"

definition has_plan :: "Json \<Rightarrow> bool" where
  "has_plan root \<longleftrightarrow> is_obj root \<and>
     (case json_get root ''plan'' of
        Some p \<Rightarrow> (case json_get p ''steps'' of Some s \<Rightarrow> is_arr s | None \<Rightarrow> False) | None \<Rightarrow> False)"

text \<open>The entry point of a job; calls made inside a job go to \<open>convertOnce\<close> directly.\<close>

definition convert :: "('d, 'h) job \<Rightarrow> input \<Rightarrow> Options \<Rightarrow> Result" where
  "convert J inp o' =
     (if contains (preflightProfile o') (in_quotes ''plan'') then
        (case parseJson (preflightProfile o') of
           Some (Inr root) \<Rightarrow> if has_plan root then runPlan J (bytes_of J inp) o' root else runPrepared J inp o'
         | _ \<Rightarrow> runPrepared J inp o')
      else runPrepared J inp o')"

section \<open>What every prepared run keeps of a conversion\<close>

text \<open>
  A contract of single conversions that depends on the options only through checking mode, and
  that the notes a job adds and the page filter cannot break, holds for prepared runs: every
  result a run returns comes from a conversion in the mode of the run.
\<close>

locale result_contract =
  fixes E :: "('d, 'h) engine" and V :: "bool \<Rightarrow> bool" and P :: "Result \<Rightarrow> bool"
  assumes once: "V (verifyOnly o') \<Longrightarrow> P (convertOnce E inp o')"
    and issues_free: "P r \<Longrightarrow> P (r\<lparr>issues := is\<rparr>)"
    and analysis_free: "P r \<Longrightarrow> P (r\<lparr>analysis := an\<rparr>)"
    and compliant_free: "P r \<Longrightarrow> P (r\<lparr>compliant := c\<rparr>)"
begin

lemma once_job: "eng J = E \<Longrightarrow> V (verifyOnly o') \<Longrightarrow> P (convertOnce (eng J) inp o')"
  using once by simp

lemma try_reconvert_contract:
  assumes "eng J = E" "V (verifyOnly o')" "P r"
  shows "P (fst (fst (try_reconvert J o' r check)))"
proof -
  have "P (convertOnce (eng J) (Buf (pdf r)) (o'\<lparr>preflightProfile := [], profileFixOps := [], colorJobEnabled := False\<rparr>))"
    by (rule once_job[OF assms(1)]) (use assms(2) in simp)
  with assms(3) show ?thesis
    by (auto simp: try_reconvert_def Let_def intro!: issues_free analysis_free)
qed

lemma try_raster_contract:
  assumes "eng J = E" "V (verifyOnly o')" "P r"
  shows "P (try_raster J inp o' r check)"
proof -
  define o1 where "o1 = o'\<lparr>rasterDpi := fallbackDpi o'\<rparr>"
  define o2 where "o2 = (if fallbackProblemPagesOnly o' \<and> ok r
    then o1\<lparr>rasterPages := rasterPages o1 \<union> (\<Union>i \<in> set (filter deviation (issues check)). set (pages i))\<rparr> else o1)"
  define o3 where "o3 = (if rasterPages o2 = {} then o2\<lparr>rasterizeAllPages := True\<rparr> else o2)"
  have "verifyOnly o3 = verifyOnly o'" by (simp add: o3_def o2_def o1_def)
  then have "P (convertOnce (eng J) inp o3)" using assms by (intro once_job) auto
  with assms(3) show ?thesis
    unfolding try_raster_def Let_def o1_def[symmetric] o2_def[symmetric] o3_def[symmetric]
    by (simp add: issues_free)
qed

lemma fallbacks_contract:
  assumes "eng J = E" "V (verifyOnly o')" "P r"
  shows "P (fallbacks J inp o' r)"
  using assms try_reconvert_contract[OF assms, of "verifyBytes J (pdf r) o'"]
  by (auto simp: fallbacks_def Let_def split: prod.splits intro!: try_raster_contract)

lemma prepared_contract:
  assumes "eng J = E" "V (verifyOnly (fst (prepare_profile J inp o0)))"
  shows "P (runPrepared J inp o0)"
proof -
  have quick: "P r \<Longrightarrow> P (quick o' r)" for o' r
    by (auto simp: quick_def issues_free split: option.splits)
  have restrict: "P r \<Longrightarrow> P (restrict_pages o' r)" for o' r
    by (auto simp: restrict_pages_def Let_def intro!: issues_free analysis_free compliant_free)
  obtain o' pre where p: "prepare_profile J inp o0 = (o', pre)" by (cases "prepare_profile J inp o0")
  have "P (restrict_pages o' (quick o' (fallbacks J inp o' (convertOnce (eng J) inp o'))))"
    using assms p by (intro restrict quick fallbacks_contract once_job) auto
  then show ?thesis by (simp add: runPrepared_def p Let_def analysis_free)
qed

end

text \<open>A profile changes neither the mode of a run nor its page range.\<close>

definition same_run :: "Options \<Rightarrow> Options \<Rightarrow> bool" where
  "same_run o1 o2 \<longleftrightarrow> verifyOnly o1 = verifyOnly o2 \<and> pageRange o1 = pageRange o2"

lemma convert_level_same: "same_run (fst (convert_level cv o')) o'"
  by (simp add: convert_level_def same_run_def split: option.splits)

lemma convert_also_same: "same_run (fst (convert_also cv (o', what, pre))) o'"
  by (simp add: convert_also_def same_run_def split: option.splits)

lemma convert_fallback_same: "same_run (convert_fallback cv o') o'"
  by (simp add: convert_fallback_def same_run_def Let_def split: option.splits)

lemma applyConvert_same: "same_run (fst (applyConvert root o' pre)) o'"
proof (cases "json_get root ''convert''")
  case None
  then show ?thesis by (simp add: applyConvert_def same_run_def)
next
  case (Some cv)
  obtain o1 w p where l: "convert_level cv o' = (o1, w, p)" by (cases "convert_level cv o'")
  obtain o2 w2 p2 where a: "convert_also cv (o1, w, p) = (o2, w2, p2)" by (cases "convert_also cv (o1, w, p)")
  have "same_run o2 o'"
    using convert_also_same[of cv o1 w p] convert_level_same[of cv o'] l a by (simp add: same_run_def)
  with Some convert_fallback_same[of cv o2] show ?thesis by (auto simp: applyConvert_def l a same_run_def)
qed

lemma prepare_profile_same: "same_run (fst (prepare_profile J inp o0)) o0"
  using applyConvert_same[of _ "o0\<lparr>preflightProfile := _\<rparr>"] applyConvert_same[of _ o0]
  by (auto simp: prepare_profile_def Let_def same_run_def split: option.splits sum.splits prod.splits)

lemmas prepare_profile_verifyOnly [simp] = prepare_profile_same[unfolded same_run_def, THEN conjunct1]
lemmas prepare_profile_pageRange [simp] = prepare_profile_same[unfolded same_run_def, THEN conjunct2]

interpretation consistency: result_contract E "\<lambda>v. True" consistent_result for E
  by unfold_locales (use convertOnce_result in \<open>auto simp: consistent_result_def\<close>)

interpretation no_file: result_contract E "\<lambda>v. v" "\<lambda>r. passes_write_no_output E \<longrightarrow> pdf r = []" for E
  by unfold_locales (simp_all add: convertOnce_verify_pdf)

section \<open>The plan as a machine\<close>

text \<open>One round of the loop, and runs of a given number of rounds.\<close>

abbreviation running :: "Json list \<Rightarrow> plan_state \<Rightarrow> bool" where
  "running steps st \<equiv> 0 \<le> ps_i st \<and> ps_i st < int (length steps)"

inductive plan_run :: "(plan_state \<Rightarrow> plan_state) \<Rightarrow> Json list \<Rightarrow> nat \<Rightarrow> plan_state \<Rightarrow> plan_state \<Rightarrow> bool"
  for f :: "plan_state \<Rightarrow> plan_state" and steps :: "Json list" where
  run_0: "plan_run f steps 0 st st"
| run_Suc: "running steps st \<Longrightarrow> plan_run f steps k (f st) st' \<Longrightarrow> plan_run f steps (Suc k) st st'"

inductive_simps plan_run_0 [simp]: "plan_run f steps 0 st st'"
inductive_simps plan_run_Suc: "plan_run f steps (Suc k) st st'"

lemma plan_loop_run:
  "\<exists>k st'. k \<le> g \<and> plan_run (plan_step J data o' defs raw steps) steps k st st' \<and>
     plan_loop g J data o' defs raw steps st = st' \<and> (running steps st' \<longrightarrow> k = g)"
proof (induction g arbitrary: st)
  case 0
  show ?case by simp
next
  case (Suc g)
  show ?case
  proof (cases "running steps st")
    case True
    obtain k st' where "k \<le> g" "plan_run (plan_step J data o' defs raw steps) steps k (plan_step J data o' defs raw steps st) st'"
      "plan_loop g J data o' defs raw steps (plan_step J data o' defs raw steps st) = st'" "running steps st' \<longrightarrow> k = g"
      using Suc.IH by blast
    with True show ?thesis by (intro exI[of _ "Suc k"] exI[of _ st']) (auto intro: run_Suc)
  next
    case False
    then show ?thesis by (intro exI[of _ 0] exI[of _ st]) auto
  qed
qed

text \<open>What holds of a plan at any time.\<close>

definition plan_inv :: "string \<Rightarrow> Options \<Rightarrow> nat \<Rightarrow> plan_state \<Rightarrow> bool" where
  "plan_inv data o' n st \<longleftrightarrow>
     ok (ps_out st) \<and> errorCode (ps_out st) = [] \<and> error (ps_out st) = [] \<and> pdf (ps_out st) = [] \<and>
     - 1 \<le> ps_i st \<and> ps_i st \<le> int n \<and>
     (if ps_converted st then \<not> verifyOnly o'
      else ps_cur st = data \<and> res_level (ps_out st) = levelToString (level o'))"

text \<open>The part of the invariant a step's body works on; it leaves the index alone.\<close>

definition body_inv :: "string \<Rightarrow> Options \<Rightarrow> int \<Rightarrow> plan_state \<Rightarrow> bool" where
  "body_inv data o' i st \<longleftrightarrow>
     ok (ps_out st) \<and> errorCode (ps_out st) = [] \<and> error (ps_out st) = [] \<and> pdf (ps_out st) = [] \<and> ps_i st = i \<and>
     (if ps_converted st then \<not> verifyOnly o'
      else ps_cur st = data \<and> res_level (ps_out st) = levelToString (level o'))"

lemma body_inv_notes [simp]:
  "body_inv data o' i (add_issue x st) = body_inv data o' i st"
  "body_inv data o' i (add_analysis xs st) = body_inv data o' i st"
  "body_inv data o' i (st\<lparr>ps_results := rs\<rparr>) = body_inv data o' i st"
  "body_inv data o' i (st\<lparr>ps_vars := vs\<rparr>) = body_inv data o' i st"
  by (simp_all add: body_inv_def add_issue_def add_analysis_def)

lemma plan_inv_body: "plan_inv data o' n st \<longleftrightarrow> body_inv data o' (ps_i st) st \<and> - 1 \<le> ps_i st \<and> ps_i st \<le> int n"
  by (auto simp: plan_inv_def body_inv_def)

lemma plan_inv_notes [simp]: "plan_inv data o' n (add_analysis xs st) = plan_inv data o' n st"
  by (simp add: plan_inv_def add_analysis_def)

lemma step_variable_inv:
  "body_inv data o' i st \<Longrightarrow> body_inv data o' i (fst (step_variable J o'' defs step sid st))"
  by (simp add: step_variable_def Let_def split: option.splits sum.splits)

lemma run_sub_inv:
  assumes "body_inv data o' i st"
  shows "body_inv data o' i (fst (run_sub J o' sid kind what sub converts st))"
proof -
  have c: "body_inv data o' i (st\<lparr>ps_out := (ps_out st)\<lparr>compliant := False\<rparr>\<rparr>)" if "body_inv data o' i st" for st
    using that by (simp add: body_inv_def)
  have v: "body_inv data o' i (st\<lparr>ps_out := (ps_out st)\<lparr>issues := xs, res_level := l\<rparr>, ps_cur := d, ps_converted := True\<rparr>)"
    if "body_inv data o' i st" "\<not> verifyOnly o'" for st xs l d
    using that by (simp add: body_inv_def)
  show ?thesis
    using assms by (auto simp: run_sub_def Let_def intro!: c v)
qed

lemma step_sub_inv:
  assumes "body_inv data o' i st"
  shows "body_inv data o' i (fst (step_sub J o' raw step sid kind st))"
proof -
  define s where "s = (if kind = ''check'' then sub_check raw (step_field step (ps_vars st) ''check'')
            else if kind = ''fix'' then sub_fix raw (ps_vars st) step else sub_profile J o' (ps_vars st) step)"
  obtain what failure sub converts where s': "s = (what, failure, sub, converts)" by (cases s)
  obtain st1 so where r: "run_sub J o' sid kind what sub converts st = (st1, so)" by fastforce
  show ?thesis
    using assms run_sub_inv[OF assms, of J sid kind what sub converts]
    unfolding step_sub_def s_def[symmetric] s' r by (simp add: r)
qed

lemma step_body_inv:
  assumes "body_inv data o' i st"
  shows "body_inv data o' i (fst (step_body J data o' defs raw step sid st))"
proof -
  have "body_inv data o' i (st\<lparr>ps_cur := data\<rparr>)" using assms by (simp add: body_inv_def)
  with step_variable_inv[OF assms, of J] step_sub_inv[OF assms, of J] assms show ?thesis
    by (simp add: step_body_def Let_def)
qed

lemma find_step_last:
  "find_step steps vars name =
     (case find (\<lambda>k. stepId steps vars k = name) (rev [0..<length steps]) of Some k \<Rightarrow> int k | None \<Rightarrow> - 2)"
proof -
  have "foldl (\<lambda>ni k. if stepId steps vars k = name then int k else ni) (- 2) ks =
      (case find (\<lambda>k. stepId steps vars k = name) (rev ks) of Some k \<Rightarrow> int k | None \<Rightarrow> - 2)" for ks
    by (induction ks rule: rev_induct) auto
  then show ?thesis by (simp only: find_step_def)
qed

lemma find_step_cases: "find_step steps vars name = - 2 \<or> (\<exists>k < length steps. find_step steps vars name = int k)"
proof (cases "find (\<lambda>k. stepId steps vars k = name) (rev [0..<length steps])")
  case (Some k)
  then have "k \<in> set (rev [0..<length steps])" unfolding find_Some_iff by (metis nth_mem)
  with Some show ?thesis by (simp add: find_step_last)
qed (simp add: find_step_last)

lemma choose_next_inv:
  assumes "body_inv data o' i st" "k < length steps"
  shows "body_inv data o' i (fst (choose_next steps k sid key st)) \<and>
    - 1 \<le> snd (choose_next steps k sid key st) \<and> snd (choose_next steps k sid key st) \<le> int (length steps)"
  using assms find_step_cases[of steps "ps_vars st" "next_name (steps ! k) (ps_vars st) key"]
  by (auto simp: choose_next_def Let_def)

lemma plan_step_inv:
  assumes "plan_inv data o' (length steps) st" "running steps st"
  shows "plan_inv data o' (length steps) (plan_step J data o' defs raw steps st)"
proof (cases "step_disabled (steps ! nat (ps_i st)) (ps_vars st)")
  case True
  with assms show ?thesis by (simp add: plan_step_def plan_inv_def)
next
  case False
  define i where "i = nat (ps_i st)"
  define sid where "sid = stepId steps (ps_vars st) i"
  obtain st1 rep where b: "step_body J data o' defs raw (steps ! i) sid st = (st1, rep)"
    by (cases "step_body J data o' defs raw (steps ! i) sid st")
  have inv1: "body_inv data o' (ps_i st) st1"
    using step_body_inv[of data o' "ps_i st" st J defs raw "steps ! i" sid] assms b by (simp add: plan_inv_body)
  define so where "so = (if sr_failure rep \<noteq> [] then (sr_so rep)\<lparr>so_sev := 3\<rparr> else sr_so rep)"
  define st2 where "st2 = (if sr_failure rep \<noteq> []
    then add_issue (mk_note ''PLAN_STEP_FAILED'' (tagged sid (sr_failure rep)) True 3) st1 else st1)"
  define st3 where "st3 = st2\<lparr>ps_results := ps_results st2 @ [result_entry sid so]\<rparr>"
  have inv3: "body_inv data o' (ps_i st) st3" using inv1 by (simp add: st3_def st2_def)
  obtain st4 ni where c: "choose_next steps i sid (outcome_key (so_sev so)) st3 = (st4, ni)"
    by (cases "choose_next steps i sid (outcome_key (so_sev so)) st3")
  have "i < length steps" using assms(2) unfolding i_def by linarith
  from choose_next_inv[OF inv3 this] c
  have "body_inv data o' (ps_i st) st4" "- 1 \<le> ni" "ni \<le> int (length steps)" by (metis fst_conv snd_conv)+
  then have "plan_inv data o' (length steps) (st4\<lparr>ps_i := ni\<rparr>)" by (simp add: plan_inv_def body_inv_def)
  with False b c show ?thesis
    by (simp add: plan_step_def Let_def i_def[symmetric] sid_def[symmetric] so_def[symmetric] st2_def[symmetric] st3_def[symmetric])
qed

lemma plan_run_inv:
  assumes "plan_run (plan_step J data o' defs raw steps) steps k st st'" "plan_inv data o' (length steps) st"
  shows "plan_inv data o' (length steps) st'"
  using assms by (induction rule: plan_run.induct) (auto intro: plan_step_inv)

lemma plan_start_inv:
  "plan_start J data o0 raw = (o', st) \<Longrightarrow> plan_inv data o' n st \<and> verifyOnly o' = verifyOnly o0"
  using applyConvert_same[of _ o0]
  by (auto simp: same_run_def plan_start_def plan_inv_def Let_def Result0_def split: prod.splits) (metis fst_conv)+

lemma runPlan_reaches:
  obtains o' st where "verifyOnly o' = verifyOnly o0" "fst (plan_start J data o0 raw) = o'"
    "plan_inv data o' (length (plan_steps raw)) st" "runPlan J data o0 raw = plan_finish o' st"
proof -
  obtain o' st0 where s: "plan_start J data o0 raw = (o', st0)" by fastforce
  note i = plan_start_inv[OF s, of "length (plan_steps raw)"]
  obtain k st where "plan_run (plan_step J data o' (listProfileVariables raw) raw (plan_steps raw)) (plan_steps raw) k st0 st"
    "runPlan J data o0 raw = plan_finish o' st"
    using plan_loop_run[of 256 J data o' "listProfileVariables raw" raw "plan_steps raw" st0]
    by (auto simp: runPlan_def s)
  with i s show thesis using plan_run_inv[of J data o' _ raw "plan_steps raw" k st0 st] by (intro that[of o' st]) auto
qed

lemma plan_finish_simps [simp]:
  "ok (plan_finish o' st) = ok (ps_out st)" "errorCode (plan_finish o' st) = errorCode (ps_out st)"
  "res_level (plan_finish o' st) = res_level (ps_out st)"
  "pdf (plan_finish o' st) = (if verifyOnly o' then pdf (ps_out st) else ps_cur st)"
  by (simp_all add: plan_finish_def add_issue_def Let_def)

lemma runPlan_consistent: "consistent_result (runPlan J data o0 raw)"
  by (rule runPlan_reaches[of o0 J data raw]) (simp add: consistent_result_def plan_inv_def)

lemma convert_cases:
  obtains root where "convert J inp o' = runPlan J (bytes_of J inp) o' root" | "convert J inp o' = runPrepared J inp o'"
proof -
  have "convert J inp o' = runPrepared J inp o' \<or> (\<exists>root. convert J inp o' = runPlan J (bytes_of J inp) o' root)"
    by (simp add: convert_def split: option.splits sum.splits) blast
  with that show thesis by blast
qed

text \<open>
  C12. A job of any kind, with its fallbacks, its plan and the conversions of its steps,
  succeeds exactly when it reports no error code, and returns no file when it fails.
\<close>

theorem convert_consistent:
  "if ok (convert J inp o') then errorCode (convert J inp o') = []
   else errorCode (convert J inp o') \<noteq> [] \<and> pdf (convert J inp o') = []"
proof -
  have "consistent_result (convert J inp o')"
    using runPlan_consistent consistency.prepared_contract by (metis convert_cases)
  then show ?thesis by (simp add: consistent_result_def)
qed

text \<open>
  A job in checking mode, a plan included, returns no file, when the passes write no
  output themselves (only serialization and signing do).
\<close>

theorem convert_checks_without_file:
  assumes "passes_write_no_output (eng J)" "verifyOnly o'"
  shows "pdf (convert J inp o') = []"
proof (cases rule: convert_cases[of J inp o'])
  case (1 root)
  then show ?thesis
    using assms(2) by (cases rule: runPlan_reaches[of o' J "bytes_of J inp" root]) (auto simp: plan_inv_def)
next
  case 2
  with assms no_file.prepared_contract[of J "eng J" inp o'] show ?thesis by simp
qed

definition idle_job :: "(obj, obj) job" where
  "idle_job = \<lparr>eng = idle_engine, scripts = (\<lambda>src doc vars results. Inl ''no engine''),
     docFacts = (\<lambda>data pw name. None), readFile = (\<lambda>path. None), nullBytes = (\<lambda>n. [])\<rparr>"

theorem convert_checks_without_file_witness:
  "pdf (convert idle_job (Buf ''x'') (Options0\<lparr>verifyOnly := True, preflightProfile := ''{}''\<rparr>)) = []"
  by (rule convert_checks_without_file)
    (simp_all add: idle_job_def passes_write_no_output_def engine_passes_def idle_engine_def)

section \<open>Page ranges, silenced checks and the next step\<close>

lemma filterRange_pages: "list_all (\<lambda>i. list_all (pageInRange rg) (pages i)) (filterRange is rg)"
  by (auto simp: filterRange_def list_all_iff map_filter_def filter_issue_def Let_def split: if_splits)

lemma convert_level_notes: "list_all (\<lambda>i. pages i = []) (snd (snd (convert_level cv o')))"
  by (simp add: convert_level_def mk_note_def split: option.splits)

lemma convert_also_notes:
  "list_all (\<lambda>i. pages i = []) pre \<Longrightarrow> list_all (\<lambda>i. pages i = []) (snd (snd (convert_also cv (o', what, pre))))"
  by (simp add: convert_also_def mk_note_def split: option.splits)

lemma applyConvert_notes:
  assumes "list_all (\<lambda>i. pages i = []) pre"
  shows "list_all (\<lambda>i. pages i = []) (snd (applyConvert root o' pre))"
proof (cases "json_get root ''convert''")
  case (Some cv)
  obtain o1 w p where l: "convert_level cv o' = (o1, w, p)" by (cases "convert_level cv o'")
  obtain o2 w2 p2 where a: "convert_also cv (o1, w, p) = (o2, w2, p2)" by (cases "convert_also cv (o1, w, p)")
  have "list_all (\<lambda>i. pages i = []) p2"
    using convert_also_notes[of p cv o1 w] convert_level_notes[of cv o'] l a by simp
  with assms Some show ?thesis by (simp add: applyConvert_def l a mk_note_def)
qed (use assms in \<open>simp add: applyConvert_def\<close>)

lemma variable_notes: "list_all (\<lambda>i. pages i = []) (map variable_note nts)"
  by (simp add: list_all_iff variable_note_def mk_note_def)

lemma prepare_profile_notes: "list_all (\<lambda>i. pages i = []) (snd (prepare_profile J inp o'))"
  by (auto simp: prepare_profile_def Let_def applyConvert_notes variable_notes split: option.splits sum.splits prod.splits)

text \<open>
  A check restricted to a page range lists for every issue and note only pages of the
  range, and reports the range compliant exactly when no listed issue is a deviation.
\<close>

theorem runPrepared_page_range:
  assumes "verifyOnly o'" "pageRange o' \<noteq> []" "ok (runPrepared J inp o')"
  shows "list_all (\<lambda>i. list_all (pageInRange (pageRange o')) (pages i))
      (issues (runPrepared J inp o') @ analysis (runPrepared J inp o')) \<and>
    (compliant (runPrepared J inp o') \<longleftrightarrow> \<not> list_ex deviation (issues (runPrepared J inp o')))"
proof -
  obtain o1 pre where p: "prepare_profile J inp o' = (o1, pre)" by fastforce
  have o1: "verifyOnly o1" "pageRange o1 = pageRange o'"
    using prepare_profile_verifyOnly[of J inp o'] prepare_profile_pageRange[of J inp o'] assms(1) p by simp_all
  have pre: "list_all (\<lambda>i. list_all (pageInRange (pageRange o')) (pages i)) pre"
    using prepare_profile_notes[of J inp o'] p by (auto simp: list_all_iff)
  define r where "r = quick o1 (fallbacks J inp o1 (convertOnce (eng J) inp o1))"
  have "runPrepared J inp o' = restrict_pages o1 r\<lparr>analysis := pre @ analysis (restrict_pages o1 r)\<rparr>"
    by (simp add: runPrepared_def p r_def Let_def)
  with assms(2,3) o1 pre show ?thesis
    by (cases "ok r") (simp_all add: restrict_pages_def Let_def filterRange_pages)
qed

theorem runPrepared_page_range_witness:
  "let J = idle_job\<lparr>eng := idle_engine\<lparr>passPages := \<lambda>c. (c\<lparr>res := (res c)\<lparr>issues := [(mkIssue ''X'' [] True 2)\<lparr>pages := [1, 3]\<rparr>]\<rparr>\<rparr>, None)\<rparr>\<rparr>
   in \<not> compliant (runPrepared J (Buf ''x'') (Options0\<lparr>verifyOnly := True, pageRange := ''3-''\<rparr>))"
proof -
  let ?o = "Options0\<lparr>verifyOnly := True, pageRange := ''3-''\<rparr>"
  let ?J = "idle_job\<lparr>eng := idle_engine\<lparr>passPages := \<lambda>c. (c\<lparr>res := (res c)\<lparr>issues := [(mkIssue ''X'' [] True 2)\<lparr>pages := [1, 3]\<rparr>]\<rparr>\<rparr>, None)\<rparr>\<rparr>"
  have pr: "pageInRange ''3-'' 3" "\<not> pageInRange ''3-'' 1" by code_simp+
  have "ok (runPrepared ?J (Buf ''x'') ?o) \<and>
    issues (runPrepared ?J (Buf ''x'') ?o) = [(mkIssue ''X'' [] True 2)\<lparr>pages := [3]\<rparr>]"
    by (simp add: runPrepared_def prepare_profile_def fallbacks_def quick_def restrict_pages_def filterRange_def
        filter_issue_def pr map_filter_simps idle_job_def
        convertOnce_def convertSingle_def prepare_def open_active_def ensure_size_def run_document_def
        refusal_def levelVerifyOnly_def levelRow_def kLevelTable_def nesting_too_deep_def obj_qpdf_def
        early_stages_def later_stages_def run_stage_def classify_def idle_simps Let_def)
  with runPrepared_page_range[of ?o ?J "Buf ''x''"] show ?thesis
    by (simp add: Let_def deviation_def issueIsNormalization_def Options0_def)
qed

lemma set_pair_lookup: "map_of (set_pair k v kvs) k' = (if k' = k then Some v else map_of kvs k')"
  by (induction kvs) auto

lemma map_of_map_key:
  "map_of (map (\<lambda>kv. if fst kv = c then (fst kv, g (snd kv)) else kv) kvs) k =
     (if k = c then map_option g (map_of kvs k) else map_of kvs k)"
  by (induction kvs) auto

text \<open>
  The profile a check step of a plan runs has the checks of the whole profile, where every
  check other than the named one is marked silent and is otherwise unchanged, and no other
  entry differs; the step fails exactly when no check of the profile has the name.
\<close>

theorem silenceChecks_keeps_one:
  "json_get (fst (silenceChecks prof keep)) k =
     (if k = ''checks'' then map_option (map_arr (silence_check keep)) (json_get prof k) else json_get prof k) \<and>
   json_get (silence_check keep c) key =
     (if is_obj c \<and> \<not> keeps_check keep c \<and> key = ''silent'' then Some (JBool True) else json_get c key) \<and>
   (snd (silenceChecks (JObj [(''checks'', JArr cs)]) keep) \<longleftrightarrow> list_ex (keeps_check keep) cs)"
  by (cases c) (auto simp: silenceChecks_def json_get_def map_of_map_key silence_check_def setKey_def set_pair_lookup)

text \<open>
  C21. The step after a step: the following one when \<open>next\<close> names nothing for the outcome, none
  when it names \<open>end\<close>, the last step of that name when there is one, and otherwise the plan
  ends with an issue.
\<close>

theorem choose_next_target:
  "choose_next steps i sid key st =
     (let name = next_name (steps ! i) (ps_vars st) key;
          named = filter (\<lambda>k. stepId steps (ps_vars st) k = name) [0..<length steps]
      in if name = [] then (st, int i + 1)
         else if name = ''end'' then (st, - 1)
         else if named = []
         then (add_issue (mk_note ''PLAN_STEP_FAILED'' (tagged sid (''next step '' @ in_quotes name @ '' does not exist'')) True 3) st, - 1)
         else (st, int (last named)))"
proof -
  have "find P (rev ks) = (if filter P ks = [] then None else Some (last (filter P ks)))" for P and ks :: "nat list"
    by (induction ks rule: rev_induct) auto
  then show ?thesis by (simp add: choose_next_def Let_def find_step_last)
qed

end
