(* ===== verification/Calculator.thy ===== *)
theory Calculator
  imports Double "HOL-Library.Word"
begin

unbundle bit_operations_syntax

text \<open>
  PostScript calculator functions (class \<^verbatim>\<open>CalcFn\<close> of \<^verbatim>\<open>pdffunc.cpp\<close>): the
  one-pass compiler from program text to jump code (\<^verbatim>\<open>parseBlock\<close>) and the stack machine
  that runs it (\<^verbatim>\<open>compute\<close>). A run ends with a value, is refused (the function returns
  \<^verbatim>\<open>false\<close>), or reaches an operation that C++ leaves undefined (signed overflow, a
  division that overflows).

  The refinement at the end shows that a function does what its program says: the text of a
  program is compiled to jump code, and running the code from its start gives the value of the
  tree the text was written from, whatever the inputs.
\<close>

section \<open>Numbers of the machine\<close>

text \<open>
  The mathematical functions of the C library, and what the platform's conversion to
  \<^verbatim>\<open>int\<close> and \<^verbatim>\<open>long long\<close> gives for a value outside the type.
\<close>

record machine =
  m_sqrt :: "double \<Rightarrow> double"
  m_sin :: "double \<Rightarrow> double"
  m_cos :: "double \<Rightarrow> double"
  m_log :: "double \<Rightarrow> double"
  m_log10 :: "double \<Rightarrow> double"
  m_pow :: "double \<Rightarrow> double \<Rightarrow> double"
  m_atan2 :: "double \<Rightarrow> double \<Rightarrow> double"
  m_int :: "double \<Rightarrow> 32 word"
  m_llong :: "double \<Rightarrow> 64 word"

definition in_type :: "nat \<Rightarrow> double \<Rightarrow> bool" where
  "in_type w x \<longleftrightarrow> finite_d x \<and> - (2 ^ (w - 1)) \<le> trunc_d x \<and> trunc_d x < 2 ^ (w - 1)"

definition to_int :: "machine \<Rightarrow> double \<Rightarrow> int" where
  "to_int M x = (if in_type 32 x then trunc_d x else sint (m_int M x))"

definition to_llong :: "machine \<Rightarrow> double \<Rightarrow> 64 word" where
  "to_llong M x = (if in_type 64 x then word_of_int (trunc_d x) else m_llong M x)"

definition ceil_d :: "double \<Rightarrow> double" where
  "ceil_d x = neg_d (floor_d (neg_d x))"

definition trunc_to_d :: "double \<Rightarrow> double" where
  "trunc_to_d x = (case x of Fin s m e \<Rightarrow> if s then ceil_d x else floor_d x | _ \<Rightarrow> x)"

definition bool_d :: "bool \<Rightarrow> double" where
  "bool_d b = of_int_d (if b then 1 else 0)"

definition kPi :: double where
  "kPi = lit_d 314159265358979323846 20"

section \<open>Instructions\<close>

datatype PsOp =
  kAbs | kAdd | kAtan | kCeiling | kCos | kCvi | kCvr | kDiv | kExp | kFloor | kIdiv | kLn | kLog | kMod |
  kMul | kNeg | kRound | kSin | kSqrt | kSub | kTruncate | kAnd | kBitshift | kEq | kFalse | kGe | kGt |
  kLe | kLt | kNe | kNot | kOr | kTrue | kXor | kCopy | kDup | kExch | kIndex | kPop | kRoll | kIf |
  kIfelse | kPush | kJump | kJumpFalse

record PsInstr =
  ps_op :: PsOp
  ps_val :: double
  ps_target :: nat

abbreviation instr :: "PsOp \<Rightarrow> PsInstr" where
  "instr k \<equiv> \<lparr>ps_op = k, ps_val = zero_d, ps_target = 0\<rparr>"

datatype 'a outcome = Value 'a | Refused | Undefined

fun then_do :: "'a outcome \<Rightarrow> ('a \<Rightarrow> 'b outcome) \<Rightarrow> 'b outcome" where
  "then_do (Value x) f = f x"
| "then_do Refused f = Refused"
| "then_do Undefined f = Undefined"

text \<open>The stack is the list of the entries of the array below \<^verbatim>\<open>sp\<close>, the top first.\<close>

type_synonym stack = "double list"

fun unary :: "(double \<Rightarrow> double) \<Rightarrow> stack \<Rightarrow> stack outcome" where
  "unary f (a # st) = Value (f a # st)"
| "unary f [] = Refused"

definition push :: "double \<Rightarrow> stack \<Rightarrow> stack outcome" where
  "push v st = (if length st \<ge> 128 then Refused else Value (v # st))"

definition isBool :: "double \<Rightarrow> bool" where
  "isBool v \<longleftrightarrow> eq_d v zero_d \<or> eq_d v (of_int_d 1)"

definition llong_d :: "64 word \<Rightarrow> double" where
  "llong_d w = of_int_d (sint w)"

definition not_op :: "machine \<Rightarrow> double \<Rightarrow> double" where
  "not_op M v = (if isBool v then bool_d (eq_d v zero_d) else llong_d (NOT (to_llong M v)))"

text \<open>Division of \<^verbatim>\<open>long long\<close> values truncates; the smallest value divided by \<open>-1\<close> overflows.\<close>

definition div_overflows :: "64 word \<Rightarrow> 64 word \<Rightarrow> bool" where
  "div_overflows a b \<longleftrightarrow> sint a = - (2 ^ 63) \<and> sint b = - 1"

definition tdiv :: "int \<Rightarrow> int \<Rightarrow> int" where
  "tdiv a b = sgn a * sgn b * (\<bar>a\<bar> div \<bar>b\<bar>)"

definition tmod :: "int \<Rightarrow> int \<Rightarrow> int" where
  "tmod a b = a - tdiv a b * b"

definition shift_op :: "64 word \<Rightarrow> 64 word \<Rightarrow> double outcome" where
  "shift_op a b =
     (if sint b \<ge> 0 then Value (llong_d (push_bit (nat (min (sint b) 62)) a))
      else if sint b = - (2 ^ 63) then Undefined
      else Value (of_int_d (sint a div 2 ^ nat (min (- sint b) 62))))"

definition atan_op :: "machine \<Rightarrow> double \<Rightarrow> double \<Rightarrow> double" where
  "atan_op M a b =
     (let r = div_d (mul_d (m_atan2 M a b) (of_int_d 180)) kPi
      in if less_d r zero_d then add_d r (of_int_d 360) else r)"

definition exp_op :: "machine \<Rightarrow> double \<Rightarrow> double \<Rightarrow> double" where
  "exp_op M a b = (let r = m_pow M a b in if finite_d r then r else zero_d)"

text \<open>The operators that take two values, \<open>b\<close> from the top and \<open>a\<close> below it.\<close>

definition binary :: "machine \<Rightarrow> PsOp \<Rightarrow> double \<Rightarrow> double \<Rightarrow> double outcome" where
  "binary M k a b =
     (let ia = to_llong M a; ib = to_llong M b in
      case k of
        kAdd \<Rightarrow> Value (add_d a b)
      | kSub \<Rightarrow> Value (sub_d a b)
      | kMul \<Rightarrow> Value (mul_d a b)
      | kDiv \<Rightarrow> Value (if eq_d b zero_d then zero_d else div_d a b)
      | kIdiv \<Rightarrow> if ib = 0 then Value zero_d else if div_overflows ia ib then Undefined
                 else Value (of_int_d (tdiv (sint ia) (sint ib)))
      | kMod \<Rightarrow> if ib = 0 then Value zero_d else if div_overflows ia ib then Undefined
                else Value (of_int_d (tmod (sint ia) (sint ib)))
      | kExp \<Rightarrow> Value (exp_op M a b)
      | kAtan \<Rightarrow> Value (atan_op M a b)
      | kAnd \<Rightarrow> Value (llong_d (ia AND ib))
      | kOr \<Rightarrow> Value (llong_d (ia OR ib))
      | kXor \<Rightarrow> Value (llong_d (ia XOR ib))
      | kBitshift \<Rightarrow> shift_op ia ib
      | kEq \<Rightarrow> Value (bool_d (eq_d a b))
      | kNe \<Rightarrow> Value (bool_d (\<not> eq_d a b))
      | kGt \<Rightarrow> Value (bool_d (less_d b a))
      | kGe \<Rightarrow> Value (bool_d (le_d b a))
      | kLt \<Rightarrow> Value (bool_d (less_d a b))
      | kLe \<Rightarrow> Value (bool_d (le_d a b))
      | _ \<Rightarrow> Refused)"

definition binary_op :: "machine \<Rightarrow> PsOp \<Rightarrow> stack \<Rightarrow> stack outcome" where
  "binary_op M k st =
     (case st of b # a # rest \<Rightarrow> then_do (binary M k a b) (\<lambda>r. Value (r # rest)) | _ \<Rightarrow> Refused)"

definition copy_op :: "machine \<Rightarrow> stack \<Rightarrow> stack outcome" where
  "copy_op M st =
     (case st of
        [] \<Rightarrow> Refused
      | v # rest \<Rightarrow>
          let n = to_int M v
          in if n < 0 \<or> n > int (length rest) \<or> int (length rest) + n > 128 then Refused
             else Value (take (nat n) rest @ rest))"

definition index_op :: "machine \<Rightarrow> stack \<Rightarrow> stack outcome" where
  "index_op M st =
     (case st of
        [] \<Rightarrow> Refused
      | v # rest \<Rightarrow>
          let n = to_int M v
          in if n < 0 then Refused
             else if n + 1 \<ge> 2 ^ 31 then Undefined
             else if n + 1 > int (length rest) \<or> length rest \<ge> 128 then Refused
             else Value (rest ! nat n # rest))"

text \<open>The remainder of C++ has the sign of the dividend; \<open>((j % n) + n) % n\<close> is the usual modulus.\<close>

definition roll_op :: "machine \<Rightarrow> stack \<Rightarrow> stack outcome" where
  "roll_op M st =
     (case st of
        vj # vn # rest \<Rightarrow>
          let j = to_int M vj; n = to_int M vn
          in if n < 0 \<or> n > int (length rest) then Refused
             else if n = 0 then Value rest
             else let k = nat (tmod (tmod j n + n) n); top = take (nat n) rest
                  in Value (drop k top @ take k top @ drop (nat n) rest)
      | _ \<Rightarrow> Refused)"

definition degrees :: "double \<Rightarrow> double" where
  "degrees v = div_d (mul_d v kPi) (of_int_d 180)"

text \<open>The instructions other than the jumps and the push of a number.\<close>

definition operate :: "machine \<Rightarrow> PsOp \<Rightarrow> stack \<Rightarrow> stack outcome" where
  "operate M k st =
     (case k of
        kAbs \<Rightarrow> unary abs_d st
      | kNeg \<Rightarrow> unary neg_d st
      | kCeiling \<Rightarrow> unary ceil_d st
      | kFloor \<Rightarrow> unary floor_d st
      | kRound \<Rightarrow> unary (\<lambda>v. floor_d (add_d v (lit_d 5 1))) st
      | kTruncate \<Rightarrow> unary trunc_to_d st
      | kCvi \<Rightarrow> unary trunc_to_d st
      | kCvr \<Rightarrow> Value st
      | kSqrt \<Rightarrow> unary (\<lambda>v. m_sqrt M (max_d zero_d v)) st
      | kSin \<Rightarrow> unary (\<lambda>v. m_sin M (degrees v)) st
      | kCos \<Rightarrow> unary (\<lambda>v. m_cos M (degrees v)) st
      | kLn \<Rightarrow> unary (\<lambda>v. if less_d zero_d v then m_log M v else zero_d) st
      | kLog \<Rightarrow> unary (\<lambda>v. if less_d zero_d v then m_log10 M v else zero_d) st
      | kNot \<Rightarrow> unary (not_op M) st
      | kTrue \<Rightarrow> push (of_int_d 1) st
      | kFalse \<Rightarrow> push zero_d st
      | kDup \<Rightarrow> (case st of [] \<Rightarrow> Refused | a # _ \<Rightarrow> push a st)
      | kPop \<Rightarrow> (case st of [] \<Rightarrow> Refused | _ # rest \<Rightarrow> Value rest)
      | kExch \<Rightarrow> (case st of a # b # rest \<Rightarrow> Value (b # a # rest) | _ \<Rightarrow> Refused)
      | kCopy \<Rightarrow> copy_op M st
      | kIndex \<Rightarrow> index_op M st
      | kRoll \<Rightarrow> roll_op M st
      | _ \<Rightarrow> binary_op M k st)"

definition exec :: "machine \<Rightarrow> PsInstr \<Rightarrow> nat \<Rightarrow> stack \<Rightarrow> (nat \<times> stack) outcome" where
  "exec M ins pc st =
     (case ps_op ins of
        kPush \<Rightarrow> then_do (push (ps_val ins) st) (\<lambda>st. Value (pc, st))
      | kJump \<Rightarrow> Value (ps_target ins, st)
      | kJumpFalse \<Rightarrow>
          (case st of [] \<Rightarrow> Refused | v # rest \<Rightarrow> Value (if eq_d v zero_d then ps_target ins else pc, rest))
      | k \<Rightarrow> then_do (operate M k st) (\<lambda>st. Value (pc, st)))"

text \<open>The loop; \<open>n\<close> is the number of instructions it may still run.\<close>

fun run :: "machine \<Rightarrow> PsInstr list \<Rightarrow> nat \<Rightarrow> nat \<Rightarrow> stack \<Rightarrow> stack outcome" where
  "run M code 0 pc st = (if pc < length code then Refused else Value st)"
| "run M code (Suc n) pc st =
     (if pc < length code
      then then_do (exec M (code ! pc) (pc + 1) st) (\<lambda>(pc', st'). run M code n pc' st') else Value st)"

section \<open>The compiler\<close>

definition word_end :: "char \<Rightarrow> bool" where
  "word_end c \<longleftrightarrow> is_space c \<or> c = CHR ''{'' \<or> c = CHR ''}'' \<or> c = CHR ''%''"

definition nextWord :: "string \<Rightarrow> string \<times> string" where
  "nextWord s = (let t = dropWhile is_space s
     in (takeWhile (\<lambda>c. \<not> word_end c) t, dropWhile (\<lambda>c. \<not> word_end c) t))"

definition ops :: "(string \<times> PsOp) list" where
  "ops =
    [(''abs'', kAbs), (''add'', kAdd), (''atan'', kAtan), (''ceiling'', kCeiling), (''cos'', kCos),
     (''cvi'', kCvi), (''cvr'', kCvr), (''div'', kDiv), (''exp'', kExp), (''floor'', kFloor),
     (''idiv'', kIdiv), (''ln'', kLn), (''log'', kLog), (''mod'', kMod), (''mul'', kMul),
     (''neg'', kNeg), (''round'', kRound), (''sin'', kSin), (''sqrt'', kSqrt), (''sub'', kSub),
     (''truncate'', kTruncate), (''and'', kAnd), (''bitshift'', kBitshift), (''eq'', kEq),
     (''false'', kFalse), (''ge'', kGe), (''gt'', kGt), (''le'', kLe), (''lt'', kLt), (''ne'', kNe),
     (''not'', kNot), (''or'', kOr), (''true'', kTrue), (''xor'', kXor), (''copy'', kCopy),
     (''dup'', kDup), (''exch'', kExch), (''index'', kIndex), (''pop'', kPop), (''roll'', kRoll)]"

text \<open>One word of the program: a number, an operator or nothing the language has.\<close>

definition word_instr :: "string \<Rightarrow> PsInstr option" where
  "word_instr w =
     (case strtod w of
        (v, []) \<Rightarrow> Some \<lparr>ps_op = kPush, ps_val = v, ps_target = 0\<rparr>
      | _ \<Rightarrow> (case map_of ops w of Some k \<Rightarrow> Some (instr k) | None \<Rightarrow> None))"

definition set_target :: "PsInstr list \<Rightarrow> nat \<Rightarrow> PsInstr list" where
  "set_target code k = code[k := (code ! k)\<lparr>ps_target := length code\<rparr>]"

text \<open>
  The text from \<^verbatim>\<open>pos\<close> on and the code so far; \<open>Stuck\<close> when the recursion bound \<open>n\<close>
  runs out, which it does not when it exceeds the length of the text.
\<close>

datatype parse = Done string "PsInstr list" | Bad | Stuck

fun parseBlock :: "nat \<Rightarrow> nat \<Rightarrow> string \<Rightarrow> PsInstr list \<Rightarrow> parse" where
  "parseBlock 0 depth s code = Stuck"
| "parseBlock (Suc n) depth s code =
     (if depth > 64 then Bad
      else case s of
        [] \<Rightarrow> if depth = 0 then Done [] code else Bad
      | c # t \<Rightarrow>
          if is_space c then parseBlock n depth t code
          else if c = CHR ''%'' then
            parseBlock n depth (dropWhile (\<lambda>x. x \<noteq> CHR 0x0A \<and> x \<noteq> CHR 0x0D) s) code
          else if c = CHR ''}'' then Done t code
          else if c = CHR ''{'' then
            (case parseBlock n (depth + 1) t (code @ [instr kJumpFalse]) of
               Done r code1 \<Rightarrow>
                 (case nextWord r of (w, r1) \<Rightarrow>
                    if w = ''if'' then parseBlock n depth r1 (set_target code1 (length code))
                    else
                      (case dropWhile is_space r of
                         c2 # r2 \<Rightarrow>
                           if c2 \<noteq> CHR ''{'' then Bad
                           else
                             (case parseBlock n (depth + 1) r2 (set_target (code1 @ [instr kJump]) (length code)) of
                                Done r3 code2 \<Rightarrow>
                                  (case nextWord r3 of (w, r4) \<Rightarrow>
                                     if w = ''ifelse'' then parseBlock n depth r4 (set_target code2 (length code1)) else Bad)
                              | Bad \<Rightarrow> Bad | Stuck \<Rightarrow> Stuck)
                       | [] \<Rightarrow> Bad))
             | Bad \<Rightarrow> Bad | Stuck \<Rightarrow> Stuck)
          else
            (case nextWord s of (w, r) \<Rightarrow>
               (case (if w = [] then None else word_instr w) of
                  Some ins \<Rightarrow> parseBlock n depth r (code @ [ins]) | None \<Rightarrow> Bad)))"

definition parse_program :: "string \<Rightarrow> PsInstr list option" where
  "parse_program src =
     (case find_idx (\<lambda>c. c = CHR ''{'') src of
        None \<Rightarrow> None
      | Some p \<Rightarrow> (case parseBlock (length src + 1) 0 (drop (p + 1) src) [] of Done r code \<Rightarrow> Some code | _ \<Rightarrow> None))"

section \<open>The nested program\<close>

datatype ps = Ins PsInstr | PIf "ps list" | PIfelse "ps list" "ps list"

abbreviation jump :: "PsOp \<Rightarrow> nat \<Rightarrow> PsInstr" where
  "jump k t \<equiv> \<lparr>ps_op = k, ps_val = zero_d, ps_target = t\<rparr>"

text \<open>The code of a block that starts at address \<open>b\<close>.\<close>

fun code_of :: "nat \<Rightarrow> ps list \<Rightarrow> PsInstr list" where
  "code_of b [] = []"
| "code_of b (Ins i # ps) = i # code_of (b + 1) ps"
| "code_of b (PIf q # ps) =
     (let c = code_of (b + 1) q; e = b + 1 + length c in jump kJumpFalse e # c @ code_of e ps)"
| "code_of b (PIfelse q r # ps) =
     (let c1 = code_of (b + 1) q; m = b + 1 + length c1; c2 = code_of (m + 1) r; e = m + 1 + length c2
      in jump kJumpFalse (m + 1) # c1 @ jump kJump e # c2 @ code_of e ps)"

definition straight :: "PsInstr \<Rightarrow> bool" where
  "straight i \<longleftrightarrow> ps_op i \<noteq> kJump \<and> ps_op i \<noteq> kJumpFalse"

fun blocks_ok :: "ps list \<Rightarrow> bool" where
  "blocks_ok [] = True"
| "blocks_ok (Ins i # ps) = (straight i \<and> blocks_ok ps)"
| "blocks_ok (PIf q # ps) = (blocks_ok q \<and> blocks_ok ps)"
| "blocks_ok (PIfelse q r # ps) = (blocks_ok q \<and> blocks_ok r \<and> blocks_ok ps)"

definition step_ins :: "machine \<Rightarrow> PsInstr \<Rightarrow> stack \<Rightarrow> stack outcome" where
  "step_ins M i st = (if ps_op i = kPush then push (ps_val i) st else operate M (ps_op i) st)"

text \<open>What the block does to the stack.\<close>

fun eval :: "machine \<Rightarrow> ps list \<Rightarrow> stack \<Rightarrow> stack outcome" where
  "eval M [] st = Value st"
| "eval M (Ins i # ps) st = then_do (step_ins M i st) (eval M ps)"
| "eval M (PIf q # ps) st =
     (case st of [] \<Rightarrow> Refused
      | v # rest \<Rightarrow> if eq_d v zero_d then eval M ps rest else then_do (eval M q rest) (eval M ps))"
| "eval M (PIfelse q r # ps) st =
     (case st of [] \<Rightarrow> Refused
      | v # rest \<Rightarrow> then_do (if eq_d v zero_d then eval M r rest else eval M q rest) (eval M ps))"

lemma code_of_append: "code_of b (ps @ qs) = code_of b ps @ code_of (b + length (code_of b ps)) qs"
  by (induction b ps rule: code_of.induct) (auto simp: Let_def add.assoc)

lemma blocks_ok_append [simp]: "blocks_ok (ps @ qs) \<longleftrightarrow> blocks_ok ps \<and> blocks_ok qs"
  by (induction ps rule: blocks_ok.induct) auto

lemma then_do_assoc: "then_do (then_do x f) g = then_do x (\<lambda>y. then_do (f y) g)"
  by (cases x) auto

lemma then_do_Value [simp]: "then_do x Value = x"
  by (cases x) auto

lemma exec_straight: "straight i \<Longrightarrow> exec M i pc st = then_do (step_ins M i st) (\<lambda>st. Value (pc, st))"
  by (cases "ps_op i") (auto simp: exec_def step_ins_def straight_def)

text \<open>
  From the start of a block's code the machine reaches its end with the stack the block
  computes, within as many instructions as the code has.
\<close>

definition runs_block :: "machine \<Rightarrow> PsInstr list \<Rightarrow> nat \<Rightarrow> nat \<Rightarrow> (stack \<Rightarrow> stack outcome) \<Rightarrow> bool" where
  "runs_block M code a b f \<longleftrightarrow> (\<forall>n st. b - a \<le> n \<longrightarrow>
     (\<exists>n'. n \<le> n' + (b - a) \<and> run M code n a st = then_do (f st) (run M code n' b)))"

lemma runs_blockI:
  "(\<And>n st. b - a \<le> n \<Longrightarrow> \<exists>n'. n \<le> n' + (b - a) \<and> run M code n a st = then_do (f st) (run M code n' b)) \<Longrightarrow>
     runs_block M code a b f"
  by (simp add: runs_block_def)

lemma runs_block_seq:
  assumes "runs_block M code a b f" "runs_block M code b c g" "a \<le> b" "b \<le> c"
  shows "runs_block M code a c (\<lambda>st. then_do (f st) g)"
proof (rule runs_blockI)
  fix n st assume n: "c - a \<le> n"
  then obtain n1 where n1: "n \<le> n1 + (b - a)" "run M code n a st = then_do (f st) (run M code n1 b)"
    using assms(1,3,4) unfolding runs_block_def by (meson diff_le_mono le_trans)
  have "c - b \<le> n1" using n n1(1) assms(3,4) by linarith
  show "\<exists>n'. n \<le> n' + (c - a) \<and> run M code n a st = then_do (then_do (f st) g) (run M code n' c)"
  proof (cases "f st")
    case (Value st1)
    obtain n2 where "n1 \<le> n2 + (c - b)" "run M code n1 b st1 = then_do (g st1) (run M code n2 c)"
      using assms(2) \<open>c - b \<le> n1\<close> unfolding runs_block_def by blast
    then show ?thesis using Value n1 assms(3,4) by (intro exI[of _ n2]) auto
  qed (use n1 in \<open>auto intro: exI[of _ n]\<close>)
qed

lemma runs_block_empty: "runs_block M code a a Value"
  by (rule runs_blockI) auto

lemma runs_block_shorter:
  assumes "runs_block M code t b g" "a \<le> t" "t \<le> b" "b - a \<le> n"
  shows "\<exists>n'. n \<le> n' + (b - a) \<and> run M code n t st = then_do (g st) (run M code n' b)"
proof -
  have "b - t \<le> n" using assms by linarith
  then obtain n' where "n \<le> n' + (b - t)" "run M code n t st = then_do (g st) (run M code n' b)"
    using assms(1) unfolding runs_block_def by blast
  then show ?thesis using assms(2,3) by (intro exI[of _ n']) auto
qed

lemma runs_block_step:
  assumes "a < length code" "a + 1 \<le> b"
    and "\<And>n st. b - (a + 1) \<le> n \<Longrightarrow> \<exists>n'. n \<le> n' + (b - (a + 1)) \<and>
      then_do (exec M (code ! a) (a + 1) st) (\<lambda>(pc', st'). run M code n pc' st') = then_do (f st) (run M code n' b)"
  shows "runs_block M code a b f"
proof (rule runs_blockI)
  fix n st assume "b - a \<le> n"
  then obtain k where k: "n = Suc k" "b - (a + 1) \<le> k" using assms(2) by (cases n) auto
  from assms(3)[OF k(2), of st] obtain n' where "k \<le> n' + (b - (a + 1))"
    "then_do (exec M (code ! a) (a + 1) st) (\<lambda>(pc', st'). run M code k pc' st') = then_do (f st) (run M code n' b)" by blast
  then show "\<exists>n'. n \<le> n' + (b - a) \<and> run M code n a st = then_do (f st) (run M code n' b)"
    using k assms(1,2) by (intro exI[of _ n']) auto
qed

lemma runs_straight:
  assumes "a < length code" "straight (code ! a)" "runs_block M code (a + 1) b g" "a + 1 \<le> b"
  shows "runs_block M code a b (\<lambda>st. then_do (step_ins M (code ! a) st) g)"
proof (rule runs_block_step[OF assms(1,4)])
  fix n st assume n: "b - (a + 1) \<le> n"
  show "\<exists>n'. n \<le> n' + (b - (a + 1)) \<and>
      then_do (exec M (code ! a) (a + 1) st) (\<lambda>(pc', st'). run M code n pc' st') =
      then_do (then_do (step_ins M (code ! a) st) g) (run M code n' b)"
  proof (cases "step_ins M (code ! a) st")
    case (Value st1)
    then show ?thesis
      using assms(3) n unfolding runs_block_def exec_straight[OF assms(2)] by simp
  qed (auto simp: exec_straight[OF assms(2)] intro: exI[of _ n])
qed

lemma runs_jump:
  assumes "a < length code" "code ! a = jump kJump t" "runs_block M code t b g" "a + 1 \<le> t" "t \<le> b"
  shows "runs_block M code a b g"
proof (rule runs_block_step[OF assms(1)])
  show "\<exists>n'. n \<le> n' + (b - (a + 1)) \<and>
      then_do (exec M (code ! a) (a + 1) st) (\<lambda>(pc', st'). run M code n pc' st') = then_do (g st) (run M code n' b)"
    if "b - (a + 1) \<le> n" for n st
    using runs_block_shorter[OF assms(3,4,5) that, of st] by (simp add: exec_def assms(2))
qed (use assms in simp)

lemma runs_jump_false:
  assumes "a < length code" "code ! a = jump kJumpFalse t"
    and "runs_block M code (a + 1) b f" "runs_block M code t b g" "a + 1 \<le> t" "t \<le> b"
  shows "runs_block M code a b
    (\<lambda>st. case st of [] \<Rightarrow> Refused | v # rest \<Rightarrow> if eq_d v zero_d then g rest else f rest)"
proof (rule runs_block_step[OF assms(1)])
  fix n and st :: stack assume n: "b - (a + 1) \<le> n"
  have "a + 1 \<le> b" using assms(5,6) by linarith
  then show "\<exists>n'. n \<le> n' + (b - (a + 1)) \<and>
      then_do (exec M (code ! a) (a + 1) st) (\<lambda>(pc', st'). run M code n pc' st') =
      then_do (case st of [] \<Rightarrow> Refused | v # rest \<Rightarrow> if eq_d v zero_d then g rest else f rest) (run M code n' b)"
    using runs_block_shorter[OF assms(3) le_refl _ n, of "tl st"] runs_block_shorter[OF assms(4,5,6) n, of "tl st"]
    by (cases st) (auto simp: exec_def assms(2) intro: exI[of _ n])
qed (use assms in simp)

lemma run_code_of:
  assumes "blocks_ok ps" "b = length pre"
  shows "runs_block M (pre @ code_of b ps @ post) b (b + length (code_of b ps)) (eval M ps)"
  using assms
proof (induction b ps arbitrary: pre post rule: code_of.induct)
  case (1 b)
  have "eval M [] = Value" by auto
  then show ?case using runs_block_empty by simp
next
  case (2 b i ps)
  let ?code = "pre @ code_of b (Ins i # ps) @ post"
  have at: "?code ! b = i" "b < length ?code" using 2 by simp_all
  have "runs_block M ((pre @ [i]) @ code_of (b + 1) ps @ post) (b + 1) (b + 1 + length (code_of (b + 1) ps)) (eval M ps)"
    by (rule "2.IH") (use "2.prems" in auto)
  then have "runs_block M ?code (b + 1) (b + length (code_of b (Ins i # ps))) (eval M ps)" by simp
  from runs_straight[OF at(2) _ this] 2(2) at(1) show ?case by simp
next
  case (3 b q ps)
  define c where "c = code_of (b + 1) q"
  define e where "e = b + 1 + length c"
  define code where "code = pre @ code_of b (PIf q # ps) @ post"
  have code: "code = pre @ jump kJumpFalse e # c @ code_of e ps @ post" by (simp add: code_def c_def e_def Let_def)
  have at: "code ! b = jump kJumpFalse e" "b < length code" using 3 by (simp_all add: code)
  have e: "e = length (pre @ jump kJumpFalse e # c)" using "3.prems" by (simp add: e_def)
  have "runs_block M ((pre @ [jump kJumpFalse e]) @ code_of (b + 1) q @ (code_of e ps @ post)) (b + 1)
      (b + 1 + length (code_of (b + 1) q)) (eval M q)"
    by (rule "3.IH"(1)) (use "3.prems" in auto)
  then have q: "runs_block M code (b + 1) e (eval M q)" by (simp add: code c_def e_def)
  have "runs_block M ((pre @ jump kJumpFalse e # c) @ code_of e ps @ post) e (e + length (code_of e ps)) (eval M ps)"
    by (rule "3.IH"(2)) (use "3.prems" e c_def e_def in auto)
  then have r: "runs_block M code e (e + length (code_of e ps)) (eval M ps)" by (simp add: code)
  have f: "eval M (PIf q # ps) = (\<lambda>st. case st of [] \<Rightarrow> Refused
      | v # rest \<Rightarrow> if eq_d v zero_d then eval M ps rest else then_do (eval M q rest) (eval M ps))"
    by (rule ext) simp
  have "runs_block M code b (e + length (code_of e ps)) (eval M (PIf q # ps))"
    unfolding f by (rule runs_jump_false[OF at(2,1) runs_block_seq[OF q r] r]) (auto simp: e_def)
  moreover have "b + length (code_of b (PIf q # ps)) = e + length (code_of e ps)" by (simp add: c_def e_def Let_def)
  ultimately show ?case unfolding code_def[symmetric] by (simp only:)
next
  case (4 b q r ps)
  define c1 where "c1 = code_of (b + 1) q"
  define m where "m = b + 1 + length c1"
  define c2 where "c2 = code_of (m + 1) r"
  define e where "e = m + 1 + length c2"
  define code where "code = pre @ code_of b (PIfelse q r # ps) @ post"
  have code: "code = pre @ jump kJumpFalse (m + 1) # c1 @ jump kJump e # c2 @ code_of e ps @ post"
    by (simp add: code_def c1_def c2_def m_def e_def Let_def)
  have at: "code ! b = jump kJumpFalse (m + 1)" "b < length code" "m < length code" using 4 by (simp_all add: code m_def)
  have at2: "code ! m = jump kJump e" using "4.prems" by (simp add: code m_def nth_append)
  have "runs_block M ((pre @ [jump kJumpFalse (m + 1)]) @ code_of (b + 1) q @ (jump kJump e # c2 @ code_of e ps @ post)) (b + 1)
      (b + 1 + length (code_of (b + 1) q)) (eval M q)"
    by (rule "4.IH"(1)) (use "4.prems" in auto)
  then have q: "runs_block M code (b + 1) m (eval M q)" by (simp add: code c1_def m_def)
  have "runs_block M ((pre @ jump kJumpFalse (m + 1) # c1 @ [jump kJump e]) @ code_of (m + 1) r @ (code_of e ps @ post)) (m + 1)
      (m + 1 + length (code_of (m + 1) r)) (eval M r)"
    by (rule "4.IH"(2)) (use "4.prems" m_def c1_def in auto)
  then have r: "runs_block M code (m + 1) e (eval M r)" by (simp add: code c2_def e_def)
  have "runs_block M ((pre @ jump kJumpFalse (m + 1) # c1 @ jump kJump e # c2) @ code_of e ps @ post) e (e + length (code_of e ps)) (eval M ps)"
    by (rule "4.IH"(3)) (use "4.prems" m_def c1_def c2_def e_def in auto)
  then have p: "runs_block M code e (e + length (code_of e ps)) (eval M ps)" by (simp add: code)
  have j: "runs_block M code m (e + length (code_of e ps)) (eval M ps)"
    by (rule runs_jump[OF at(3) at2 p]) (simp_all add: e_def)
  have f: "eval M (PIfelse q r # ps) = (\<lambda>st. case st of [] \<Rightarrow> Refused
      | v # rest \<Rightarrow> if eq_d v zero_d then then_do (eval M r rest) (eval M ps) else then_do (eval M q rest) (eval M ps))"
    by (rule ext) (auto split: list.splits)
  have "runs_block M code b (e + length (code_of e ps)) (eval M (PIfelse q r # ps))"
    unfolding f
    by (rule runs_jump_false[OF at(2,1) runs_block_seq[OF q j] runs_block_seq[OF r p]]) (auto simp: e_def m_def)
  moreover have "b + length (code_of b (PIfelse q r # ps)) = e + length (code_of e ps)"
    by (simp add: c1_def c2_def m_def e_def Let_def)
  ultimately show ?case unfolding code_def[symmetric] by (simp only:)
qed

section \<open>The parser compiles\<close>

lemma nextWord_length: "nextWord s = (w, r) \<Longrightarrow> length r + length w \<le> length s"
proof -
  assume "nextWord s = (w, r)"
  then have "w @ r = dropWhile is_space s" by (auto simp: nextWord_def Let_def)
  then have "length w + length r = length (dropWhile is_space s)" by (metis length_append)
  with length_dropWhile_le[of is_space s] show ?thesis by simp
qed

lemma word_instr_straight: "word_instr w = Some i \<Longrightarrow> straight i"
  by (auto simp: word_instr_def straight_def ops_def split: prod.splits list.splits option.splits if_splits)

lemma length_set_target [simp]: "length (set_target code k) = length code"
  by (simp add: set_target_def)

lemma set_target_if:
  "set_target (code @ instr kJumpFalse # code_of (length code + 1) q) (length code) = code @ code_of (length code) [PIf q]"
  by (simp add: set_target_def Let_def)

lemma set_target_ifelse:
  assumes "code1 = code @ instr kJumpFalse # code_of (length code + 1) q"
    "code2 = set_target (code1 @ [instr kJump]) (length code) @ code_of (length code1 + 1) r"
  shows "set_target code2 (length code1) = code @ code_of (length code) [PIfelse q r]"
proof -
  let ?c = "code_of (length code + 1) q"
  have l: "length code1 = length code + 1 + length ?c" by (simp add: assms(1))
  have "set_target (code1 @ [instr kJump]) (length code) =
      (code @ jump kJumpFalse (length code1 + 1) # ?c) @ [instr kJump]"
    by (simp add: assms(1) set_target_def)
  then have "code2 = (code @ jump kJumpFalse (length code1 + 1) # ?c) @ instr kJump # code_of (length code1 + 1) r"
    by (simp add: assms(2))
  moreover have "length (code @ jump kJumpFalse (length code1 + 1) # ?c) = length code1" by (simp add: l)
  ultimately have "set_target code2 (length code1) =
      (code @ jump kJumpFalse (length code1 + 1) # ?c) @ jump kJump (length code2) # code_of (length code1 + 1) r"
    unfolding set_target_def by (metis (no_types, lifting) list_update_length nth_append_length PsInstr.update_convs(3))
  moreover have "length code2 = length code1 + 1 + length (code_of (length code1 + 1) r)" by (simp add: assms)
  ultimately show ?thesis by (simp add: l Let_def)
qed

lemma comment_shorter:
  "c = CHR ''%'' \<Longrightarrow> length (dropWhile (\<lambda>x. x \<noteq> CHR 0x0A \<and> x \<noteq> CHR 0x0D) (c # t)) < length (c # t)"
  by (simp add: less_Suc_eq_le length_dropWhile_le)

lemma nextWord_shorter: "nextWord s = (w, r) \<Longrightarrow> w \<noteq> [] \<Longrightarrow> length r < length s"
  using nextWord_length[of s w r] by (cases w) auto

lemma dropWhile_shorter: "dropWhile P s = c # r \<Longrightarrow> length r < length s"
  using length_dropWhile_le[of P s] by simp

text \<open>How a round of the parser that succeeds went on.\<close>

lemma parseBlock_Done:
  assumes "parseBlock (Suc n) depth s code = Done r code'"
  obtains (stop) "code' = code" "0 < depth \<longrightarrow> length r < length s"
  | (skip) t where "length t < length s" "parseBlock n depth t code = Done r code'"
  | (word) ins t where "straight ins" "length t < length s" "parseBlock n depth t (code @ [ins]) = Done r code'"
  | (cond) t r1 code1 r2 where "length t < length s" "length r2 \<le> length r1"
      "parseBlock n (depth + 1) t (code @ [instr kJumpFalse]) = Done r1 code1"
      "parseBlock n depth r2 (set_target code1 (length code)) = Done r code'"
  | (either) t r1 code1 r2 r3 code2 r4 where "length t < length s" "length r2 \<le> length r1" "length r4 \<le> length r3"
      "parseBlock n (depth + 1) t (code @ [instr kJumpFalse]) = Done r1 code1"
      "parseBlock n (depth + 1) r2 (set_target (code1 @ [instr kJump]) (length code)) = Done r3 code2"
      "parseBlock n depth r4 (set_target code2 (length code1)) = Done r code'"
proof (cases s)
  case Nil
  with assms stop show thesis by (auto split: if_splits)
next
  case (Cons c t)
  from assms have d: "\<not> 64 < depth" by (auto split: if_splits)
  note step = assms[unfolded parseBlock.simps(2) if_not_P[OF d] Cons list.case]
  consider (space) "is_space c" | (comment) "\<not> is_space c" "c = CHR ''%''"
    | (close) "\<not> is_space c" "c = CHR ''}''" | (block) "\<not> is_space c" "c = CHR ''{''"
    | (other) "\<not> is_space c" "c \<noteq> CHR ''%''" "c \<noteq> CHR ''}''" "c \<noteq> CHR ''{''" by blast
  then show thesis
  proof cases
    case block
    then obtain r1 code1 where n1: "parseBlock n (depth + 1) t (code @ [instr kJumpFalse]) = Done r1 code1"
      using step by (auto split: parse.splits)
    obtain w r2 where w: "nextWord r1 = (w, r2)" by fastforce
    show thesis
    proof (cases "w = ''if''")
      case True
      have "length r2 \<le> length r1" using nextWord_length[OF w] by simp
      moreover have "parseBlock n depth r2 (set_target code1 (length code)) = Done r code'"
        using True w n1 block step by auto
      ultimately show thesis using cond[OF _ _ n1] Cons by auto
    next
      case False
      then obtain r3 r4 code2 r5 where n2: "dropWhile is_space r1 = CHR ''{'' # r3"
        "parseBlock n (depth + 1) r3 (set_target (code1 @ [instr kJump]) (length code)) = Done r4 code2"
        "nextWord r4 = (''ifelse'', r5)" "parseBlock n depth r5 (set_target code2 (length code1)) = Done r code'"
        using n1 w block step by (auto split: parse.splits list.splits prod.splits if_splits)
      from either[OF _ _ _ n1 n2(2,4)] Cons dropWhile_shorter[OF n2(1)] nextWord_length[OF n2(3)] show thesis by simp
    qed
  next
    case other
    then obtain w r1 ins where "nextWord s = (w, r1)" "w \<noteq> []" "word_instr w = Some ins"
      "parseBlock n depth r1 (code @ [ins]) = Done r code'"
      using step Cons by (auto split: prod.splits option.splits if_splits)
    then show thesis using word word_instr_straight nextWord_shorter by blast
  qed (use step stop skip Cons comment_shorter in auto)
qed

text \<open>A successful parse appends the code of some blocks; at depth above 0 it also consumes text.\<close>

abbreviation appends_blocks :: "PsInstr list \<Rightarrow> PsInstr list \<Rightarrow> bool" where
  "appends_blocks code code' \<equiv> \<exists>ps. blocks_ok ps \<and> code' = code @ code_of (length code) ps"

lemma appends_blocks_trans:
  assumes "blocks_ok qs" "appends_blocks (code @ code_of (length code) qs) code'"
  shows "appends_blocks code code'"
proof -
  from assms(2) obtain ps where "blocks_ok ps"
    "code' = code @ code_of (length code) qs @ code_of (length code + length (code_of (length code) qs)) ps" by auto
  with assms(1) show ?thesis by (intro exI[of _ "qs @ ps"]) (simp add: code_of_append)
qed

lemma parseBlock_code:
  "parseBlock n depth s code = Done r code' \<Longrightarrow> appends_blocks code code' \<and> (0 < depth \<longrightarrow> length r < length s)"
proof (induction n arbitrary: depth s code r code')
  case (Suc n)
  from Suc.prems show ?case
  proof (cases rule: parseBlock_Done)
    case stop
    then show ?thesis by (auto intro: exI[of _ "[]"])
  next
    case (skip t)
    with Suc.IH[OF skip(2)] show ?thesis by auto
  next
    case (word ins t)
    have "appends_blocks (code @ code_of (length code) [Ins ins]) code'" using Suc.IH[OF word(3)] by simp
    then have "appends_blocks code code'" by (rule appends_blocks_trans[rotated]) (simp add: word(1))
    moreover have "0 < depth \<longrightarrow> length r < length s" using word(2) Suc.IH[OF word(3)] by linarith
    ultimately show ?thesis ..
  next
    case (cond t r1 code1 r2)
    from Suc.IH[OF cond(3)] obtain q where q: "blocks_ok q" "code1 = code @ instr kJumpFalse # code_of (length code + 1) q"
      and l: "length r1 < length t" by auto
    have "appends_blocks (code @ code_of (length code) [PIf q]) code'"
      using Suc.IH[OF cond(4), unfolded q(2) set_target_if] by (rule conjunct1)
    then have "appends_blocks code code'" by (rule appends_blocks_trans[rotated]) (simp add: q(1))
    moreover have "0 < depth \<longrightarrow> length r < length s" using cond(1,2) l Suc.IH[OF cond(4)] by linarith
    ultimately show ?thesis ..
  next
    case (either t r1 code1 r2 r3 code2 r4)
    from Suc.IH[OF either(4)] obtain q where q: "blocks_ok q" "code1 = code @ instr kJumpFalse # code_of (length code + 1) q"
      and l: "length r1 < length t" by auto
    from Suc.IH[OF either(5)] obtain e where e: "blocks_ok e"
      "code2 = set_target (code1 @ [instr kJump]) (length code) @ code_of (length code1 + 1) e" and l2: "length r3 < length r2"
      by auto
    have "appends_blocks (code @ code_of (length code) [PIfelse q e]) code'"
      using Suc.IH[OF either(6), unfolded set_target_ifelse[OF q(2) e(2)]] by (rule conjunct1)
    then have "appends_blocks code code'" by (rule appends_blocks_trans[rotated]) (simp add: q(1) e(1))
    moreover have "0 < depth \<longrightarrow> length r < length s" using either(1-3) l l2 Suc.IH[OF either(6)] by linarith
    ultimately show ?thesis ..
  qed
qed simp

lemma parseBlock_shorter: "parseBlock n (Suc depth) s code = Done r code' \<Longrightarrow> length r < length s"
  using parseBlock_code by blast

text \<open>The part of a round after an opening brace does not get stuck when shorter texts do not.\<close>

lemma block_not_stuck:
  assumes IH: "\<And>t d c. length t \<le> length s \<Longrightarrow> parseBlock n d t c \<noteq> Stuck"
    and "\<not> is_space (CHR ''{'')"
  shows "parseBlock (Suc n) depth (CHR ''{'' # s) code \<noteq> Stuck"
proof (cases "parseBlock n (Suc depth) s (code @ [instr kJumpFalse])")
  case (Done r1 code1)
  obtain w r2 where w: "nextWord r1 = (w, r2)" by fastforce
  have l: "length r1 < length s" "length r2 \<le> length r1"
    using parseBlock_shorter[OF Done] nextWord_length[OF w] by simp_all
  have "parseBlock n depth r4 c2 \<noteq> Stuck"
    if "dropWhile is_space r1 = c # r" "parseBlock n (Suc depth) r c1 = Done r3 c1'" "nextWord r3 = (v, r4)" for c r c1 r3 c1' v r4 c2
    using l(1) dropWhile_shorter[OF that(1)] parseBlock_shorter[OF that(2)] nextWord_length[OF that(3)] by (intro IH) simp
  moreover have "parseBlock n d r c1 \<noteq> Stuck" if "dropWhile is_space r1 = c # r" for c r d c1
    using l(1) dropWhile_shorter[OF that] by (intro IH) simp
  ultimately show ?thesis
    using IH[of r2] Done w l assms(2) by (auto split: list.splits parse.splits prod.splits)
qed (use IH[of s] assms(2) in auto)

lemma parseBlock_not_stuck: "length s < n \<Longrightarrow> parseBlock n depth s code \<noteq> Stuck"
proof (induction n arbitrary: depth s code)
  case (Suc n)
  then have IH: "length t < length s \<Longrightarrow> parseBlock n d t c \<noteq> Stuck" for t d c by simp
  show ?case
  proof (cases s)
    case (Cons c t)
    have sp: "\<not> is_space (CHR ''{'')" by (simp add: is_space_def)
    have "parseBlock (Suc n) depth (CHR ''{'' # t) code \<noteq> Stuck"
      by (rule block_not_stuck[OF _ sp]) (use IH Cons in auto)
    moreover have "parseBlock n depth r c2 \<noteq> Stuck" if "nextWord s = (w, r)" "w \<noteq> []" for w r c2
      using nextWord_shorter[OF that] by (rule IH)
    moreover have "parseBlock n depth t code \<noteq> Stuck" by (rule IH) (simp add: Cons)
    moreover have "c = CHR ''%'' \<Longrightarrow> parseBlock n depth (dropWhile (\<lambda>x. x \<noteq> CHR 0x0A \<and> x \<noteq> CHR 0x0D) s) code \<noteq> Stuck"
      using comment_shorter[of c t] Cons by (intro IH) simp
    ultimately show ?thesis
      using Cons by (cases "c = CHR ''{''") (auto split: prod.splits option.splits if_splits)
  qed simp
qed simp

lemma parse_program_answers:
  "find_idx (\<lambda>c. c = CHR ''{'') src = Some p \<Longrightarrow> parseBlock (length src + 1) 0 (drop (p + 1) src) [] \<noteq> Stuck"
  by (rule parseBlock_not_stuck) simp

lemma parse_program_code:
  assumes "parse_program src = Some code"
  obtains ps where "blocks_ok ps" "code = code_of 0 ps"
  using assms parseBlock_code[of "length src + 1" 0 _ "[]"]
  by (auto simp: parse_program_def split: option.splits parse.splits)

section \<open>Program texts\<close>

text \<open>
  A program as it is written: words, each with the white space after it, and blocks in braces
  before \<open>if\<close> and \<open>ifelse\<close>, with the white space between and after.
\<close>

datatype src = Word string string | SIf "src list" string string | SIfelse "src list" string "src list" string string

fun src_text :: "src list \<Rightarrow> string" where
  "src_text [] = []"
| "src_text (Word w g # ps) = w @ g @ src_text ps"
| "src_text (SIf q g1 g2 # ps) = CHR ''{'' # src_text q @ CHR ''}'' # g1 @ ''if'' @ g2 @ src_text ps"
| "src_text (SIfelse q g0 r g1 g2 # ps) =
     CHR ''{'' # src_text q @ CHR ''}'' # g0 @ CHR ''{'' # src_text r @ CHR ''}'' # g1 @ ''ifelse'' @ g2 @ src_text ps"

text \<open>The words are numbers and operators, and white space follows each word.\<close>

fun src_ok :: "src list \<Rightarrow> bool" where
  "src_ok [] = True"
| "src_ok (Word w g # ps) =
     (w \<noteq> [] \<and> list_all (\<lambda>c. \<not> word_end c) w \<and> word_instr w \<noteq> None \<and> g \<noteq> [] \<and> list_all is_space g \<and> src_ok ps)"
| "src_ok (SIf q g1 g2 # ps) = (src_ok q \<and> list_all is_space g1 \<and> g2 \<noteq> [] \<and> list_all is_space g2 \<and> src_ok ps)"
| "src_ok (SIfelse q g0 r g1 g2 # ps) =
     (src_ok q \<and> list_all is_space g0 \<and> src_ok r \<and> list_all is_space g1 \<and> g2 \<noteq> [] \<and> list_all is_space g2 \<and> src_ok ps)"

fun src_depth :: "src list \<Rightarrow> nat" where
  "src_depth [] = 0"
| "src_depth (Word w g # ps) = src_depth ps"
| "src_depth (SIf q g1 g2 # ps) = max (Suc (src_depth q)) (src_depth ps)"
| "src_depth (SIfelse q g0 r g1 g2 # ps) = max (Suc (max (src_depth q) (src_depth r))) (src_depth ps)"

text \<open>The tree of the program.\<close>

fun src_tree :: "src list \<Rightarrow> ps list" where
  "src_tree [] = []"
| "src_tree (Word w g # ps) = Ins (the (word_instr w)) # src_tree ps"
| "src_tree (SIf q g1 g2 # ps) = PIf (src_tree q) # src_tree ps"
| "src_tree (SIfelse q g0 r g1 g2 # ps) = PIfelse (src_tree q) (src_tree r) # src_tree ps"

lemma src_tree_ok: "src_ok ps \<Longrightarrow> blocks_ok (src_tree ps)"
  by (induction ps rule: src_tree.induct) (auto dest: word_instr_straight)

lemma space_ends_word: "is_space c \<Longrightarrow> word_end c"
  by (simp add: word_end_def)

lemma nextWord_word:
  assumes "list_all is_space g" "w \<noteq> []" "list_all (\<lambda>c. \<not> word_end c) w" "h \<noteq> []" "list_all is_space h"
  shows "nextWord (g @ w @ h @ r) = (w, h @ r)"
proof -
  have "dropWhile is_space (g @ w @ h @ r) = w @ h @ r"
    using assms(1-3) by (cases w) (auto simp: dropWhile_append2 list_all_iff word_end_def)
  moreover have "takeWhile (\<lambda>c. \<not> word_end c) (w @ h @ r) = w" "dropWhile (\<lambda>c. \<not> word_end c) (w @ h @ r) = h @ r"
    using assms(3-5) by (cases h; auto simp: takeWhile_append dropWhile_append list_all_iff space_ends_word)+
  ultimately show ?thesis by (simp add: nextWord_def Let_def)
qed

lemma parseBlock_spaces:
  assumes "list_all is_space g" "depth \<le> 64" "length (g @ s) < n"
  shows "\<exists>n'. length s < n' \<and> parseBlock n depth (g @ s) code = parseBlock n' depth s code"
  using assms
proof (induction g arbitrary: n)
  case (Cons c g)
  then obtain m where n: "n = Suc m" by (cases n) auto
  with Cons show ?case by auto
qed auto

text \<open>The parser reads the text of a program and appends its code.\<close>

definition src_reads :: "src list \<Rightarrow> ps list \<Rightarrow> string \<Rightarrow> bool" where
  "src_reads ps tree txt \<longleftrightarrow>
     (\<forall>n depth rest code. depth + src_depth ps \<le> 64 \<longrightarrow> length (txt @ rest) < n \<longrightarrow>
        (\<exists>n'. length rest < n' \<and> parseBlock n depth (txt @ rest) code = parseBlock n' depth rest (code @ code_of (length code) tree)))"

lemma src_readsD:
  assumes "src_reads ps tree txt" "depth + src_depth ps \<le> 64" "length (txt @ rest) < n"
  shows "\<exists>n'. length rest < n' \<and> parseBlock n depth (txt @ rest) code = parseBlock n' depth rest (code @ code_of (length code) tree)"
  using assms unfolding src_reads_def by blast

lemma src_reads_block:
  assumes "src_reads q tree txt" "Suc depth + src_depth q \<le> 64" "length (txt @ CHR ''}'' # r) < n"
  shows "parseBlock n (Suc depth) (txt @ CHR ''}'' # r) code = Done r (code @ code_of (length code) tree)"
proof -
  obtain n' where n': "length (CHR ''}'' # r) < n'"
    "parseBlock n (Suc depth) (txt @ CHR ''}'' # r) code = parseBlock n' (Suc depth) (CHR ''}'' # r) (code @ code_of (length code) tree)"
    using assms unfolding src_reads_def by blast
  moreover obtain m where "n' = Suc m" using n'(1) by (cases n') auto
  ultimately show ?thesis using assms(2) by (simp add: is_space_def)
qed

lemma src_reads_seq:
  assumes "src_reads [p] tr txt" "src_reads ps trs txts" "src_depth (p # ps) = max (src_depth [p]) (src_depth ps)"
  shows "src_reads (p # ps) (tr @ trs) (txt @ txts)"
  unfolding src_reads_def
proof (intro allI impI)
  fix n depth rest code
  assume d: "depth + src_depth (p # ps) \<le> 64" and l: "length ((txt @ txts) @ rest) < n"
  have dd: "depth + src_depth [p] \<le> 64" "depth + src_depth ps \<le> 64" using d assms(3) by linarith+
  obtain n1 where n1: "length (txts @ rest) < n1"
    "parseBlock n depth (txt @ txts @ rest) code = parseBlock n1 depth (txts @ rest) (code @ code_of (length code) tr)"
    using src_readsD[OF assms(1), of depth "txts @ rest" n code] dd l by auto
  obtain n2 where "length rest < n2" "parseBlock n1 depth (txts @ rest) (code @ code_of (length code) tr) =
      parseBlock n2 depth rest ((code @ code_of (length code) tr) @ code_of (length (code @ code_of (length code) tr)) trs)"
    using src_readsD[OF assms(2), of depth rest n1 "code @ code_of (length code) tr"] dd n1(1) by auto
  with n1(2) show "\<exists>n'. length rest < n' \<and>
      parseBlock n depth ((txt @ txts) @ rest) code = parseBlock n' depth rest (code @ code_of (length code) (tr @ trs))"
    by (auto simp: code_of_append)
qed

lemma src_reads_word:
  assumes "src_ok [Word w g]"
  shows "src_reads [Word w g] (src_tree [Word w g]) (w @ g)"
  unfolding src_reads_def
proof (intro allI impI)
  fix n depth rest code
  assume d: "depth + src_depth [Word w g] \<le> 64" and l: "length ((w @ g) @ rest) < n"
  obtain m where n: "n = Suc m" using l by (cases n) auto
  obtain c t where w: "w = c # t" "\<not> word_end c" using assms by (cases w) auto
  obtain i where i: "word_instr w = Some i" using assms by auto
  have "nextWord (w @ g @ rest) = (w, g @ rest)" using nextWord_word[of "[]" w g rest] assms by simp
  then have "parseBlock n depth (w @ g @ rest) code = parseBlock m depth (g @ rest) (code @ [i])"
    using w d i unfolding n by (auto simp: word_end_def)
  moreover obtain n' where "length rest < n'" "parseBlock m depth (g @ rest) (code @ [i]) = parseBlock n' depth rest (code @ [i])"
    using parseBlock_spaces[of g depth rest m "code @ [i]"] assms d l w(1) n by auto
  ultimately show "\<exists>n'. length rest < n' \<and>
      parseBlock n depth ((w @ g) @ rest) code = parseBlock n' depth rest (code @ code_of (length code) (src_tree [Word w g]))"
    by (auto simp: i)
qed

lemma if_words: "list_all (\<lambda>c. \<not> word_end c) ''if''" "list_all (\<lambda>c. \<not> word_end c) ''ifelse''"
  by (simp_all add: word_end_def is_space_def)

lemma src_reads_if:
  assumes "src_reads q tr txt" "list_all is_space g1" "g2 \<noteq> []" "list_all is_space g2"
  shows "src_reads [SIf q g1 g2] [PIf tr] (CHR ''{'' # txt @ CHR ''}'' # g1 @ ''if'' @ g2)"
  unfolding src_reads_def
proof (intro allI impI)
  fix n depth rest code
  let ?s = "CHR ''{'' # txt @ CHR ''}'' # g1 @ ''if'' @ g2"
  assume d: "depth + src_depth [SIf q g1 g2] \<le> 64" and l: "length (?s @ rest) < n"
  obtain m where n: "n = Suc m" using l by (cases n) auto
  let ?r = "g1 @ ''if'' @ g2 @ rest"
  let ?c = "code @ [instr kJumpFalse]"
  have "parseBlock m (Suc depth) (txt @ CHR ''}'' # ?r) ?c = Done ?r (?c @ code_of (length ?c) tr)"
    by (rule src_reads_block[OF assms(1)]) (use d l n in auto)
  moreover have "nextWord ?r = (''if'', g2 @ rest)" by (rule nextWord_word[OF assms(2) _ if_words(1) assms(3,4)]) simp
  ultimately have "parseBlock n depth (?s @ rest) code = parseBlock m depth (g2 @ rest) (code @ code_of (length code) [PIf tr])"
    unfolding n using d set_target_if[of code tr] by (simp add: is_space_def)
  moreover obtain n' where "length rest < n'"
    "parseBlock m depth (g2 @ rest) (code @ code_of (length code) [PIf tr]) = parseBlock n' depth rest (code @ code_of (length code) [PIf tr])"
    using parseBlock_spaces[OF assms(4), of depth rest m] d l n by auto
  ultimately show "\<exists>n'. length rest < n' \<and>
      parseBlock n depth (?s @ rest) code = parseBlock n' depth rest (code @ code_of (length code) [PIf tr])"
    by auto
qed

lemma src_reads_ifelse:
  assumes "src_reads q tr txt" "src_reads r tr2 txt2" "list_all is_space g0" "list_all is_space g1" "g2 \<noteq> []" "list_all is_space g2"
  shows "src_reads [SIfelse q g0 r g1 g2] [PIfelse tr tr2]
    (CHR ''{'' # txt @ CHR ''}'' # g0 @ CHR ''{'' # txt2 @ CHR ''}'' # g1 @ ''ifelse'' @ g2)"
  unfolding src_reads_def
proof (intro allI impI)
  fix n depth rest code
  let ?s = "CHR ''{'' # txt @ CHR ''}'' # g0 @ CHR ''{'' # txt2 @ CHR ''}'' # g1 @ ''ifelse'' @ g2"
  assume d: "depth + src_depth [SIfelse q g0 r g1 g2] \<le> 64" and l: "length (?s @ rest) < n"
  obtain m where n: "n = Suc m" using l by (cases n) auto
  let ?r2 = "g1 @ ''ifelse'' @ g2 @ rest"
  let ?r1 = "g0 @ CHR ''{'' # txt2 @ CHR ''}'' # ?r2"
  define code1 where "code1 = code @ instr kJumpFalse # code_of (length code + 1) tr"
  define mid where "mid = set_target (code1 @ [instr kJump]) (length code)"
  define code2 where "code2 = mid @ code_of (length code1 + 1) tr2"
  have lm: "length mid = length code1 + 1" by (simp add: mid_def)
  have b1: "parseBlock m (Suc depth) (txt @ CHR ''}'' # ?r1) (code @ [instr kJumpFalse]) = Done ?r1 code1"
    using src_reads_block[OF assms(1), of depth ?r1 m "code @ [instr kJumpFalse]"] d l n by (simp add: code1_def)
  have b2: "parseBlock m (Suc depth) (txt2 @ CHR ''}'' # ?r2) mid = Done ?r2 code2"
    using src_reads_block[OF assms(2), of depth ?r2 m mid] d l n by (simp add: code2_def lm)
  have "dropWhile is_space ?r1 = CHR ''{'' # txt2 @ CHR ''}'' # ?r2"
    using assms(3) by (simp add: dropWhile_append2 list_all_iff is_space_def)
  moreover from this have "nextWord ?r1 = ([], CHR ''{'' # txt2 @ CHR ''}'' # ?r2)" by (simp add: nextWord_def word_end_def)
  moreover have "nextWord ?r2 = (''ifelse'', g2 @ rest)" by (rule nextWord_word[OF assms(4) _ if_words(2) assms(5,6)]) simp
  moreover have "set_target code2 (length code1) = code @ code_of (length code) [PIfelse tr tr2]"
    by (rule set_target_ifelse[OF code1_def code2_def[unfolded mid_def]])
  ultimately have "parseBlock n depth (?s @ rest) code = parseBlock m depth (g2 @ rest) (code @ code_of (length code) [PIfelse tr tr2])"
    unfolding n using d b1 b2 by (simp add: is_space_def mid_def[symmetric])
  moreover obtain n' where "length rest < n'"
    "parseBlock m depth (g2 @ rest) (code @ code_of (length code) [PIfelse tr tr2]) = parseBlock n' depth rest (code @ code_of (length code) [PIfelse tr tr2])"
    using parseBlock_spaces[OF assms(6), of depth rest m] d l n by auto
  ultimately show "\<exists>n'. length rest < n' \<and>
      parseBlock n depth (?s @ rest) code = parseBlock n' depth rest (code @ code_of (length code) [PIfelse tr tr2])"
    by auto
qed

lemma src_reads_text: "src_ok ps \<Longrightarrow> src_reads ps (src_tree ps) (src_text ps)"
proof (induction ps rule: src_text.induct)
  case 1
  show ?case by (auto simp: src_reads_def)
next
  case (2 w g ps)
  then show ?case using src_reads_seq[OF src_reads_word[of w g], of ps "src_tree ps" "src_text ps"] by simp
next
  case (3 q g1 g2 ps)
  then show ?case using src_reads_seq[OF src_reads_if[of q "src_tree q" "src_text q" g1 g2], of ps "src_tree ps" "src_text ps"] by simp
next
  case (4 q g0 r g1 g2 ps)
  then show ?case
    using src_reads_seq[OF src_reads_ifelse[of q "src_tree q" "src_text q" r "src_tree r" "src_text r" g0 g1 g2], of ps "src_tree ps" "src_text ps"]
    by simp
qed

lemma parse_program_text:
  assumes "src_ok ps" "src_depth ps \<le> 64"
  shows "parse_program (CHR ''{'' # src_text ps @ CHR ''}'' # r) = Some (code_of 0 (src_tree ps))"
proof -
  let ?s = "src_text ps @ CHR ''}'' # r"
  obtain n' where n': "length (CHR ''}'' # r) < n'"
    "parseBlock (length ?s + 2) 0 ?s [] = parseBlock n' 0 (CHR ''}'' # r) (code_of 0 (src_tree ps))"
    using src_readsD[OF src_reads_text[OF assms(1)], of 0 "CHR ''}'' # r" "length ?s + 2" "[]"] assms(2) by auto
  moreover obtain m where "n' = Suc m" using n'(1) by (cases n') auto
  ultimately show ?thesis by (simp add: parse_program_def is_space_def)
qed

lemma run_tree:
  assumes "blocks_ok ps" "length (code_of 0 ps) \<le> n"
  shows "run M (code_of 0 ps) n 0 st = eval M ps st"
proof -
  let ?code = "code_of 0 ps"
  have "runs_block M ?code 0 (length ?code) (eval M ps)" using run_code_of[OF assms(1), of 0 "[]" M "[]"] by simp
  then obtain n' where "run M ?code n 0 st = then_do (eval M ps st) (run M ?code n' (length ?code))"
    using assms(2) unfolding runs_block_def by auto
  moreover have "run M ?code n' (length ?code) = Value" by (rule ext) (cases n', auto)
  ultimately show ?thesis by simp
qed

text \<open>
  C13. A calculator function computes what its program says: a program text, with words and blocks
  nested up to 64 levels and white space after each word, is compiled, and the machine, given at
  least as many instructions as the code has, computes from its code what the tree of the program
  computes on every stack, with every machine arithmetic, refusals and undefined operations
  included.
\<close>

theorem calculator_refines_program:
  assumes "src_ok ps" "src_depth ps \<le> 64"
  shows "\<exists>code. parse_program (CHR ''{'' # src_text ps @ CHR ''}'' # r) = Some code \<and>
    (\<forall>M n st. length code \<le> n \<longrightarrow> run M code n 0 st = eval M (src_tree ps) st)"
  using parse_program_text[OF assms] run_tree[OF src_tree_ok[OF assms(1)]] by blast

theorem calculator_refines_program_witness:
  "\<exists>code. parse_program ''{dup {neg }{pop }ifelse }'' = Some code \<and>
    (\<forall>M n st. length code \<le> n \<longrightarrow> run M code n 0 st =
       eval M [Ins (instr kDup), PIfelse [Ins (instr kNeg)] [Ins (instr kPop)]] st)"
proof -
  let ?ps = "[Word ''dup'' '' '', SIfelse [Word ''neg'' '' ''] [] [Word ''pop'' '' ''] [] '' '']"
  have w: "word_instr ''dup'' = Some (instr kDup)" "word_instr ''neg'' = Some (instr kNeg)" "word_instr ''pop'' = Some (instr kPop)"
    by code_simp+
  have "src_ok ?ps" "src_depth ?ps \<le> 64" by (simp_all add: w word_end_def is_space_def)
  from calculator_refines_program[OF this, of "[]"] show ?thesis by (simp add: w)
qed

lemma push_length: "push v st = Value st' \<Longrightarrow> length st' \<le> 128"
  by (auto simp: push_def split: if_splits)

lemma unary_length: "unary f st = Value st' \<Longrightarrow> length st' = length st"
  by (cases st) auto

lemma then_do_Some: "then_do x f = Value y \<longleftrightarrow> (\<exists>v. x = Value v \<and> f v = Value y)"
  by (cases x) auto

lemma binary_op_length: "binary_op M k st = Value st' \<Longrightarrow> length st' < length st"
  by (auto simp: binary_op_def then_do_Some split: list.splits)

lemma copy_op_length: "copy_op M st = Value st' \<Longrightarrow> length st' \<le> 128"
  by (auto simp: copy_op_def Let_def split: list.splits if_splits)

lemma index_op_length: "index_op M st = Value st' \<Longrightarrow> length st' = length st"
  by (auto simp: index_op_def Let_def split: list.splits if_splits)

lemma roll_op_length: "roll_op M st = Value st' \<Longrightarrow> length st' < length st"
  by (auto simp: roll_op_def Let_def split: list.splits if_splits)

lemma operate_length:
  assumes "operate M k st = Value st'" "length st \<le> 128"
  shows "length st' \<le> 128"
  using assms
  by (cases k)
    (auto simp: operate_def split: list.splits
      dest: push_length unary_length binary_op_length copy_op_length index_op_length roll_op_length)

text \<open>
  C14. The stack of the machine stays within its array: an instruction that runs on at most 128
  entries, as many as the array has, leaves at most 128.
\<close>

theorem calculator_stack_bounded:
  assumes "length st \<le> 128" "exec M ins pc st = Value (pc', st')"
  shows "length st' \<le> 128"
  using assms operate_length[of M "ps_op ins" st] push_length[of "ps_val ins" st]
  by (cases "ps_op ins") (auto simp: exec_def then_do_Some split: list.splits)

theorem calculator_stack_bounded_witness:
  "length (zero_d # replicate 127 zero_d) \<le> 128"
  by (rule calculator_stack_bounded[of "replicate 127 zero_d" undefined "instr kFalse" 1 1])
    (simp_all add: exec_def operate_def push_def)

lemma to_int_literal: "to_int M (of_int_d 2147483647) = 2147483647"
proof -
  have i: "is_int_d 2147483647 (of_int_d 2147483647)" by (rule of_int_d_exact) simp
  then show ?thesis
    using is_int_d_trunc[OF i] of_int_d_finite[of 2147483647] by (simp add: to_int_def in_type_def)
qed

lemma to_int_bound: "- (2 ^ 31) \<le> to_int M x \<and> to_int M x < 2 ^ 31"
  using sint_greater_eq[of "m_int M x"] sint_less[of "m_int M x"] by (auto simp: to_int_def in_type_def)

lemma binary_undefined:
  "binary M k a b = Undefined \<longleftrightarrow>
     (k = kIdiv \<or> k = kMod) \<and> to_llong M b \<noteq> 0 \<and> div_overflows (to_llong M a) (to_llong M b) \<or>
     k = kBitshift \<and> sint (to_llong M b) = - (2 ^ 63)"
  by (cases k) (auto simp: binary_def shift_op_def Let_def)

lemma binary_op_undefined:
  "binary_op M k st = Undefined \<longleftrightarrow> (\<exists>b a rest. st = b # a # rest \<and> binary M k a b = Undefined)"
proof -
  have "then_do (binary M k a b) (\<lambda>r. Value (r # rest)) = Undefined \<longleftrightarrow> binary M k a b = Undefined" for a b rest
    by (cases "binary M k a b") auto
  then show ?thesis by (auto simp: binary_op_def split: list.splits)
qed

lemma index_op_undefined: "index_op M st = Undefined \<longleftrightarrow> (\<exists>v rest. st = v # rest \<and> to_int M v = 2 ^ 31 - 1)"
proof (cases st)
  case (Cons v rest)
  then show ?thesis using to_int_bound[of M v] by (auto simp: index_op_def Let_def)
qed (simp add: index_op_def)

lemma unary_undefined: "unary f st \<noteq> Undefined" by (cases st) auto

text \<open>
  C19. The undefined operations are these: \<open>index\<close> with the largest \<^verbatim>\<open>int\<close>, whose test adds one to
  it, \<open>idiv\<close> and \<open>mod\<close> of the smallest \<^verbatim>\<open>long long\<close> by \<open>-1\<close>, and \<open>bitshift\<close> by the smallest
  \<^verbatim>\<open>long long\<close>, which is negated; every other instruction of every program is defined on every
  stack. A program reaches the first with a literal: the number 2147483647 converts exactly.
\<close>

theorem calculator_undefined_operations:
  "(operate M k st = Undefined \<longleftrightarrow>
     k = kIndex \<and> (\<exists>v rest. st = v # rest \<and> to_int M v = 2 ^ 31 - 1) \<or>
     (k = kIdiv \<or> k = kMod) \<and>
       (\<exists>b a rest. st = b # a # rest \<and> sint (to_llong M a) = - (2 ^ 63) \<and> sint (to_llong M b) = - 1) \<or>
     k = kBitshift \<and> (\<exists>b a rest. st = b # a # rest \<and> sint (to_llong M b) = - (2 ^ 63))) \<and>
   operate M kIndex [of_int_d 2147483647] = Undefined"
proof -
  have "sint w = - 1 \<Longrightarrow> w \<noteq> 0" for w :: "64 word" by auto
  then have b: "binary_op M k st = Undefined \<longleftrightarrow>
     (k = kIdiv \<or> k = kMod) \<and> (\<exists>b a rest. st = b # a # rest \<and> sint (to_llong M a) = - (2 ^ 63) \<and> sint (to_llong M b) = - 1) \<or>
     k = kBitshift \<and> (\<exists>b a rest. st = b # a # rest \<and> sint (to_llong M b) = - (2 ^ 63))"
    unfolding binary_op_undefined binary_undefined div_overflows_def by blast
  have "operate M k st = Undefined \<longleftrightarrow>
     (if k = kIndex then index_op M st = Undefined else binary_op M k st = Undefined)"
  proof (cases k)
    case kRoll
    then show ?thesis by (auto simp: operate_def roll_op_def binary_op_undefined binary_undefined Let_def split: list.splits)
  next
    case kCopy
    then show ?thesis by (auto simp: operate_def copy_op_def binary_op_undefined binary_undefined Let_def split: list.splits)
  qed (auto simp: operate_def unary_undefined push_def binary_op_undefined binary_undefined split: list.splits)
  then show ?thesis
    unfolding b index_op_undefined by (auto simp: operate_def index_op_undefined to_int_literal)
qed

end
