(* ===== verification/Functions.thy ===== *)
theory Functions
  imports Calculator Qpdf
begin

text \<open>
  PDF functions (\<^verbatim>\<open>pdffunc.cpp\<close>): sampled, exponential, stitching and calculator functions
  and arrays of functions, how each is read from a document and how it is computed. Parameters
  are the object accessors of the PDF library and the mathematical library of
  \<^verbatim>\<open>Calculator\<close>. An element access outside a table is \<open>Undefined\<close>.
\<close>

section \<open>Reading numbers\<close>

record ('d, 'h) qpdf_num = "('d, 'h) qpdf" +
  q_isNumber :: "'h \<Rightarrow> bool"
  q_getNumericValue :: "'h \<Rightarrow> double"

definition numOf :: "('d, 'h) qpdf_num \<Rightarrow> 'h \<Rightarrow> double \<Rightarrow> double" where
  "numOf L x dflt = (if q_isNumber L x then q_getNumericValue L x else dflt)"

definition numArray :: "('d, 'h) qpdf_num \<Rightarrow> 'h \<Rightarrow> double list" where
  "numArray L a = (if q_isArray L a then map (\<lambda>x. numOf L x zero_d) (q_items L a) else [])"

definition interp :: "double \<Rightarrow> double \<Rightarrow> double \<Rightarrow> double \<Rightarrow> double \<Rightarrow> double" where
  "interp x xmin xmax ymin ymax =
     (if eq_d xmax xmin then ymin
      else add_d ymin (div_d (mul_d (sub_d x xmin) (sub_d ymax ymin)) (sub_d xmax xmin)))"

text \<open>A \<^verbatim>\<open>long long\<close> cast to \<^verbatim>\<open>int\<close> keeps its low 32 bits.\<close>

definition wrap32 :: "int \<Rightarrow> int" where
  "wrap32 i = sint (word_of_int i :: 32 word)"

section \<open>Functions\<close>

record sampled =
  sm_bps :: nat
  sm_size :: "int list"
  sm_encode :: "double list"
  sm_decode :: "double list"
  sm_data :: string

datatype PdfFunction =
    SampledFn (fn_domain: "double list") (fn_range: "double list") (outputs: nat) sampled
  | ExpFn (fn_domain: "double list") (fn_range: "double list") (outputs: nat) "double list" "double list" double
  | StitchFn (fn_domain: "double list") (fn_range: "double list") (outputs: nat) "PdfFunction list" "double list" "double list"
  | CalcFn (fn_domain: "double list") (fn_range: "double list") (outputs: nat) "PsInstr list"
  | ArrayFn (fn_domain: "double list") (fn_range: "double list") (outputs: nat) "PdfFunction list"

definition inputs :: "PdfFunction \<Rightarrow> nat" where
  "inputs f = length (fn_domain f) div 2"

definition clip :: "double list \<Rightarrow> nat \<Rightarrow> double \<Rightarrow> double" where
  "clip bs i x = min_d (max_d x (bs ! (2 * i))) (bs ! (2 * i + 1))"

definition clipIn :: "double list \<Rightarrow> double list \<Rightarrow> double list" where
  "clipIn dm xs = map (\<lambda>i. clip dm i (xs ! i)) [0..<length dm div 2]"

definition clipOut :: "double list \<Rightarrow> nat \<Rightarrow> double list \<Rightarrow> double list" where
  "clipOut rng n out = (if length rng < 2 * n then out else map (\<lambda>i. clip rng i (out ! i)) [0..<n])"

section \<open>Sampled functions\<close>

text \<open>The sizes of the table, 1 to \<open>2 ^ 20\<close> each, of at most 16 million entries together.\<close>

fun read_sizes :: "machine \<Rightarrow> int \<Rightarrow> double list \<Rightarrow> int list option" where
  "read_sizes M tot [] = Some []"
| "read_sizes M tot (s # sz) =
     (let si = to_int M s
      in if si < 1 \<or> si > 2 ^ 20 \<or> tot * si > 16000000 then None
         else map_option ((#) si) (read_sizes M (tot * si) sz))"

text \<open>The table of a function whose header is in order, padded to the size it needs.\<close>

definition padded :: "nat \<Rightarrow> string \<Rightarrow> string" where
  "padded need dat =
     (if length dat * 8 < need then dat @ replicate ((need + 7) div 8 - length dat) (CHR 0x00) else dat)"

definition default_encode :: "int list \<Rightarrow> double list" where
  "default_encode ns = concat (map (\<lambda>k. [zero_d, of_int_d (k - 1)]) ns)"

definition sampled_table :: "('d, 'h) qpdf_num \<Rightarrow> 'h \<Rightarrow> double list \<Rightarrow> double list \<Rightarrow> nat \<Rightarrow> int list \<Rightarrow> PdfFunction option" where
  "sampled_table L fn dm rng bps ns =
     (let d = q_getDict L fn; n = length rng div 2;
          enc = numArray L (q_getKey L d ''/Encode'');
          dec = numArray L (q_getKey L d ''/Decode'')
      in case q_getStreamData L fn of
           Inl e \<Rightarrow> None
         | Inr dat \<Rightarrow>
             Some (SampledFn dm rng n
               \<lparr>sm_bps = bps, sm_size = ns,
                sm_encode = (if length enc \<noteq> 2 * (length dm div 2) then default_encode ns else enc),
                sm_decode = (if length dec \<noteq> length rng then rng else dec),
                sm_data = padded (nat (prod_list ns) * n * bps) dat\<rparr>))"

definition sampled_init :: "machine \<Rightarrow> ('d, 'h) qpdf_num \<Rightarrow> 'h \<Rightarrow> PdfFunction option" where
  "sampled_init M L fn =
     (let d = q_getDict L fn;
          dm = numArray L (q_getKey L d ''/Domain'');
          rng = numArray L (q_getKey L d ''/Range'');
          sz = numArray L (q_getKey L d ''/Size'');
          b = q_getKey L d ''/BitsPerSample'';
          bps = (if q_isInteger L b then wrap32 (q_getIntValue L b) else 0)
      in if length dm div 2 < 1 \<or> length dm div 2 > 8 \<or> length rng div 2 < 1 \<or> length rng div 2 > 32 \<or>
            length sz \<noteq> length dm div 2 then None
         else if bps \<notin> {1, 2, 4, 8, 12, 16, 24, 32} then None
         else case read_sizes M 1 sz of None \<Rightarrow> None | Some ns \<Rightarrow> sampled_table L fn dm rng (nat bps) ns)"

text \<open>The table entry \<open>k\<close>; a string may be read up to and at its length, where it has a NUL.\<close>

definition byte_at :: "string \<Rightarrow> int \<Rightarrow> nat outcome" where
  "byte_at s p = (if p < 0 \<or> p > int (length s) then Undefined
     else Value (if p = int (length s) then 0 else ord (s ! nat p)))"

fun sample_bits :: "string \<Rightarrow> int \<Rightarrow> nat \<Rightarrow> nat \<Rightarrow> nat outcome" where
  "sample_bits s p v 0 = Value v"
| "sample_bits s p v (Suc n) =
     then_do (byte_at s (p div 8)) (\<lambda>b. sample_bits s (p + 1) (2 * v + b div 2 ^ nat (7 - p mod 8) mod 2) n)"

definition sample :: "sampled \<Rightarrow> int \<Rightarrow> double outcome" where
  "sample sm k = then_do (sample_bits (sm_data sm) (k * int (sm_bps sm)) 0 (sm_bps sm)) (\<lambda>v. Value (of_int_d (int v)))"

text \<open>Where an input falls between two entries of its axis: the lower entry and the fraction.\<close>

definition encoded :: "double \<Rightarrow> double \<Rightarrow> double \<Rightarrow> double \<Rightarrow> double \<Rightarrow> int \<Rightarrow> double" where
  "encoded x d0 d1 e0 e1 k = min_d (max_d (interp x d0 d1 e0 e1) zero_d) (of_int_d (k - 1))"

definition axis :: "machine \<Rightarrow> int \<Rightarrow> double \<Rightarrow> int \<times> double" where
  "axis M k e =
     (let l0 = to_int M (floor_d e); l = (if l0 \<ge> k - 1 then max 0 (k - 2) else l0)
      in (l, if k = 1 then zero_d else sub_d e (of_int_d l)))"

definition axes :: "machine \<Rightarrow> double list \<Rightarrow> sampled \<Rightarrow> double list \<Rightarrow> (int \<times> int \<times> double) list" where
  "axes M dm sm x =
     map (\<lambda>i. (sm_size sm ! i,
            axis M (sm_size sm ! i)
              (encoded (x ! i) (dm ! (2 * i)) (dm ! (2 * i + 1)) (sm_encode sm ! (2 * i)) (sm_encode sm ! (2 * i + 1)) (sm_size sm ! i))))
       [0..<length dm div 2]"

text \<open>The weight and the index of a corner; the bits of \<open>c\<close> say which side of each axis it is on.\<close>

fun corner :: "nat \<Rightarrow> (int \<times> int \<times> double) list \<Rightarrow> double \<Rightarrow> int \<Rightarrow> int \<Rightarrow> double \<times> int" where
  "corner c [] w idx stride = (w, idx)"
| "corner c ((k, l, fr) # as) w idx stride =
     (let bit = int (c mod 2); pos = l + (if k = 1 then 0 else bit)
      in corner (c div 2) as (mul_d w (if bit = 1 then fr else sub_d (of_int_d 1) fr)) (idx + pos * stride) (stride * k))"

definition sample_max :: "sampled \<Rightarrow> double" where
  "sample_max sm = (if sm_bps sm \<ge> 32 then of_int_d 4294967295 else of_int_d (2 ^ sm_bps sm - 1))"

fun add_samples :: "sampled \<Rightarrow> double \<Rightarrow> int \<Rightarrow> nat \<Rightarrow> double list \<Rightarrow> double list outcome" where
  "add_samples sm w idx i [] = Value []"
| "add_samples sm w idx i (a # out) =
     then_do (sample sm (idx + int i)) (\<lambda>s.
       let v = add_d a (mul_d w (interp (div_d s (sample_max sm)) zero_d (of_int_d 1) (sm_decode sm ! (2 * i)) (sm_decode sm ! (2 * i + 1))))
       in then_do (add_samples sm w idx (i + 1) out) (\<lambda>vs. Value (v # vs)))"

fun corners :: "sampled \<Rightarrow> nat \<Rightarrow> (int \<times> int \<times> double) list \<Rightarrow> nat list \<Rightarrow> double list \<Rightarrow> double list outcome" where
  "corners sm n as [] out = Value out"
| "corners sm n as (c # cs) out =
     (case corner c as (of_int_d 1) 0 1 of (w, idx) \<Rightarrow>
        if eq_d w zero_d then corners sm n as cs out
        else then_do (add_samples sm w (idx * int n) 0 out) (corners sm n as cs))"

definition compute_sampled :: "machine \<Rightarrow> double list \<Rightarrow> double list \<Rightarrow> nat \<Rightarrow> sampled \<Rightarrow> double list \<Rightarrow> double list outcome" where
  "compute_sampled M dm rng n sm xs =
     (let as = axes M dm sm (clipIn dm xs)
      in then_do (corners sm n as [0..<2 ^ length as] (replicate n zero_d)) (\<lambda>out. Value (clipOut rng n out)))"

section \<open>Exponential, stitching and calculator functions\<close>

definition fit_range :: "double list \<Rightarrow> nat \<Rightarrow> double list" where
  "fit_range rng n = (if rng \<noteq> [] \<and> length rng \<noteq> 2 * n then [] else rng)"

definition exp_init :: "('d, 'h) qpdf_num \<Rightarrow> 'h \<Rightarrow> PdfFunction option" where
  "exp_init L d =
     (let dm = numArray L (q_getKey L d ''/Domain'');
          dm = take 2 (if length dm < 2 then [zero_d, of_int_d 1] else dm);
          rng = numArray L (q_getKey L d ''/Range'');
          c0 = numArray L (q_getKey L d ''/C0''); c0 = (if c0 = [] then [zero_d] else c0);
          c1 = numArray L (q_getKey L d ''/C1''); c1 = (if c1 = [] then [of_int_d 1] else c1);
          n = length c0
      in if length c0 \<noteq> length c1 \<or> n > 32 then None
         else Some (ExpFn dm (fit_range rng n) n c0 c1 (numOf L (q_getKey L d ''/N'') (of_int_d 1))))"

definition compute_exp :: "machine \<Rightarrow> double list \<Rightarrow> double list \<Rightarrow> nat \<Rightarrow> double list \<Rightarrow> double list \<Rightarrow> double \<Rightarrow>
    double list \<Rightarrow> double list outcome" where
  "compute_exp M dm rng n c0 c1 ex xs =
     (let x = clipIn dm xs ! 0;
          p = (if less_d x zero_d \<and> \<not> eq_d ex (floor_d ex) then zero_d else m_pow M x ex);
          p = (if finite_d p then p else zero_d)
      in Value (clipOut rng n (map (\<lambda>i. add_d (c0 ! i) (mul_d p (sub_d (c1 ! i) (c0 ! i)))) [0..<n])))"

definition stitch_index :: "double \<Rightarrow> double list \<Rightarrow> nat" where
  "stitch_index x bounds = length (takeWhile (\<lambda>b. le_d b x) bounds)"

definition compute_stitch :: "double list \<Rightarrow> double list \<Rightarrow> nat \<Rightarrow> (double list \<Rightarrow> double list outcome) list \<Rightarrow>
    double list \<Rightarrow> double list \<Rightarrow> double list \<Rightarrow> double list outcome" where
  "compute_stitch dm rng n fns bounds enc xs =
     (let x = clipIn dm xs ! 0; k = stitch_index x bounds;
          lo = (if k = 0 then dm ! 0 else bounds ! (k - 1));
          hi = (if k = length bounds then dm ! 1 else bounds ! k)
      in then_do ((fns ! k) [interp x lo hi (enc ! (2 * k)) (enc ! (2 * k + 1))]) (\<lambda>out. Value (clipOut rng n out)))"

definition stitch_init :: "('d, 'h) qpdf_num \<Rightarrow> ('h \<Rightarrow> PdfFunction option) \<Rightarrow> 'h \<Rightarrow> PdfFunction option" where
  "stitch_init L load_part d =
     (let dm = numArray L (q_getKey L d ''/Domain'');
          rng = numArray L (q_getKey L d ''/Range'');
          fa = q_getKey L d ''/Functions''
      in if length dm < 2 \<or> \<not> q_isArray L fa \<or> q_items L fa = [] then None
         else
           let parts = map load_part (q_items L fa)
           in if \<not> list_all (\<lambda>p. p \<noteq> None \<and> inputs (the p) = 1) parts then None
              else
                let fns = map the parts; n = outputs (hd fns);
                    bounds = numArray L (q_getKey L d ''/Bounds'');
                    enc = numArray L (q_getKey L d ''/Encode'');
                    enc = (if length enc \<noteq> 2 * length fns then concat (replicate (length fns) [zero_d, of_int_d 1]) else enc)
                in if \<not> list_all (\<lambda>f. outputs f = n) fns \<or> length bounds + 1 \<noteq> length fns then None
                   else Some (StitchFn (take 2 dm) (fit_range rng n) n fns bounds enc))"

definition calc_init :: "('d, 'h) qpdf_num \<Rightarrow> 'h \<Rightarrow> PdfFunction option" where
  "calc_init L fn =
     (let d = q_getDict L fn;
          dm = numArray L (q_getKey L d ''/Domain'');
          rng = numArray L (q_getKey L d ''/Range'');
          m = length dm div 2;
          n = length rng div 2
      in if m < 1 \<or> m > 32 \<or> n < 1 \<or> n > 32 then None
         else case q_getStreamData L fn of
           Inl e \<Rightarrow> None
         | Inr src \<Rightarrow> map_option (CalcFn dm rng n) (parse_program src))"

definition compute_calc :: "machine \<Rightarrow> double list \<Rightarrow> double list \<Rightarrow> nat \<Rightarrow> PsInstr list \<Rightarrow> double list \<Rightarrow> double list outcome" where
  "compute_calc M dm rng n code xs =
     then_do (run M code 200000 0 (rev (clipIn dm xs))) (\<lambda>st.
       if length st < n then Refused else Value (clipOut rng n (rev (take n st))))"

section \<open>Loading and computing\<close>

text \<open>\<open>k\<close> is 17 less the depth: a function nested deeper than 16 levels is not loaded.\<close>

fun load :: "machine \<Rightarrow> ('d, 'h) qpdf_num \<Rightarrow> nat \<Rightarrow> 'h \<Rightarrow> PdfFunction option" where
  "load M L 0 fn = None"
| "load M L (Suc k) fn =
     (let d = (if q_isStream L fn then q_getDict L fn else fn)
      in if \<not> q_isDictionary L d then None
         else
           let t = q_getKey L d ''/FunctionType''; ty = (if q_isInteger L t then q_getIntValue L t else - 1)
           in if ty = 0 \<and> q_isStream L fn then sampled_init M L fn
              else if ty = 2 then exp_init L d
              else if ty = 3 then stitch_init L (load M L k) d
              else if ty = 4 \<and> q_isStream L fn then calc_init L fn
              else None)"

definition array_init :: "PdfFunction option list \<Rightarrow> PdfFunction option" where
  "array_init parts =
     (if \<not> list_all (\<lambda>p. p \<noteq> None \<and> outputs (the p) = 1) parts then None
      else
        let fns = map the parts; n = length fns
        in if \<not> list_all (\<lambda>f. inputs f = inputs (hd fns)) fns \<or> n < 1 \<or> n > 32 then None
           else Some (ArrayFn (concat (replicate (inputs (hd fns)) [zero_d, of_int_d 1])) [] n fns))"

definition loadArray :: "machine \<Rightarrow> ('d, 'h) qpdf_num \<Rightarrow> 'h \<Rightarrow> PdfFunction option" where
  "loadArray M L fns =
     (if \<not> q_isArray L fns then load M L 17 fns
      else case q_items L fns of
        [x] \<Rightarrow> load M L 17 x
      | xs \<Rightarrow> array_init (map (load M L 17) xs))"

fun compute_parts :: "(double list \<Rightarrow> double list outcome) list \<Rightarrow> double list \<Rightarrow> double list outcome" where
  "compute_parts [] xs = Value []"
| "compute_parts (f # fs) xs =
     then_do (f xs) (\<lambda>a. then_do (compute_parts fs xs) (\<lambda>b. Value (a @ b)))"

fun compute :: "machine \<Rightarrow> PdfFunction \<Rightarrow> double list \<Rightarrow> double list outcome" where
  "compute M (SampledFn dm rng n sm) = compute_sampled M dm rng n sm"
| "compute M (ExpFn dm rng n c0 c1 ex) = compute_exp M dm rng n c0 c1 ex"
| "compute M (StitchFn dm rng n fns bounds enc) = compute_stitch dm rng n (map (compute M) fns) bounds enc"
| "compute M (CalcFn dm rng n code) = compute_calc M dm rng n code"
| "compute M (ArrayFn dm rng n fns) = compute_parts (map (compute M) fns)"

section \<open>Well-formed functions\<close>

definition sampled_ok :: "nat \<Rightarrow> nat \<Rightarrow> sampled \<Rightarrow> bool" where
  "sampled_ok m n sm \<longleftrightarrow>
     length (sm_size sm) = m \<and> list_all (\<lambda>k. 1 \<le> k \<and> k \<le> 2 ^ 20) (sm_size sm) \<and>
     length (sm_encode sm) = 2 * m \<and> 2 * n \<le> length (sm_decode sm) \<and> 0 < sm_bps sm \<and> sm_bps sm \<le> 32 \<and>
     nat (prod_list (sm_size sm)) * n * sm_bps sm \<le> 8 * length (sm_data sm)"

text \<open>What the arrays of a function must have for its computation to index them.\<close>

fun fn_ok :: "PdfFunction \<Rightarrow> bool" where
  "fn_ok (SampledFn dm rng n sm) \<longleftrightarrow>
     1 \<le> length dm div 2 \<and> length dm div 2 \<le> 8 \<and> n = length rng div 2 \<and> 1 \<le> n \<and> n \<le> 32 \<and> sampled_ok (length dm div 2) n sm"
| "fn_ok (ExpFn dm rng n c0 c1 ex) \<longleftrightarrow>
     length dm = 2 \<and> length c0 = n \<and> length c1 = n \<and> 1 \<le> n \<and> n \<le> 32 \<and> (rng = [] \<or> length rng = 2 * n)"
| "fn_ok (StitchFn dm rng n fns bounds enc) \<longleftrightarrow>
     length dm = 2 \<and> length bounds + 1 = length fns \<and> length enc = 2 * length fns \<and> (rng = [] \<or> length rng = 2 * n) \<and>
     1 \<le> n \<and> n \<le> 32 \<and> list_all (\<lambda>f. fn_ok f \<and> inputs f = 1 \<and> outputs f = n) fns"
| "fn_ok (CalcFn dm rng n code) \<longleftrightarrow>
     1 \<le> length dm div 2 \<and> length dm div 2 \<le> 32 \<and> n = length rng div 2 \<and> 1 \<le> n \<and> n \<le> 32 \<and>
     (\<exists>ps. blocks_ok ps \<and> code = code_of 0 ps)"
| "fn_ok (ArrayFn dm rng n fns) \<longleftrightarrow>
     length fns = n \<and> 1 \<le> n \<and> n \<le> 32 \<and> rng = [] \<and>
     list_all (\<lambda>f. fn_ok f \<and> outputs f = 1 \<and> length dm = 2 * inputs f) fns"

lemma fn_ok_outputs: "fn_ok f \<Longrightarrow> 1 \<le> outputs f \<and> outputs f \<le> 32"
  by (cases f) auto

lemma read_sizes_ok: "read_sizes M tot sz = Some ns \<Longrightarrow> length ns = length sz \<and> list_all (\<lambda>k. 1 \<le> k \<and> k \<le> 2 ^ 20) ns"
  by (induction M tot sz arbitrary: ns rule: read_sizes.induct) (auto simp: Let_def split: if_splits)

lemma length_pairs: "length (concat (map (\<lambda>k. [f k, g k]) ks)) = 2 * length ks"
  by (induction ks) auto

lemma padded_length: "need \<le> 8 * length (padded need dat)"
proof -
  have "need \<le> 8 * ((need + 7) div 8)" by presburger
  then show ?thesis by (auto simp: padded_def)
qed

lemma sampled_table_ok:
  assumes "sampled_table L fn dm rng bps ns = Some f" "length ns = length dm div 2" "list_all (\<lambda>k. 1 \<le> k \<and> k \<le> 2 ^ 20) ns"
    "1 \<le> length dm div 2" "length dm div 2 \<le> 8" "1 \<le> length rng div 2" "length rng div 2 \<le> 32" "0 < bps" "bps \<le> 32"
  shows "fn_ok f"
  using assms padded_length
  by (auto simp: sampled_table_def sampled_ok_def default_encode_def length_pairs Let_def split: sum.splits)

lemma sampled_init_ok:
  assumes "sampled_init M L fn = Some f"
  shows "fn_ok f"
proof -
  define dm where "dm = numArray L (q_getKey L (q_getDict L fn) ''/Domain'')"
  define rng where "rng = numArray L (q_getKey L (q_getDict L fn) ''/Range'')"
  define sz where "sz = numArray L (q_getKey L (q_getDict L fn) ''/Size'')"
  define b where "b = q_getKey L (q_getDict L fn) ''/BitsPerSample''"
  define bps where "bps = (if q_isInteger L b then wrap32 (q_getIntValue L b) else 0)"
  note folds = dm_def[symmetric] rng_def[symmetric] sz_def[symmetric] b_def[symmetric] bps_def[symmetric]
  have t: "\<not> (length dm div 2 < 1 \<or> length dm div 2 > 8 \<or> length rng div 2 < 1 \<or> length rng div 2 > 32 \<or>
      length sz \<noteq> length dm div 2)" "bps \<in> {1, 2, 4, 8, 12, 16, 24, 32}"
    using assms unfolding sampled_init_def Let_def folds by (auto split: if_splits)
  then obtain ns where n: "read_sizes M 1 sz = Some ns" "sampled_table L fn dm rng (nat bps) ns = Some f"
    using assms unfolding sampled_init_def Let_def folds by (auto split: option.splits)
  from t(2) have "0 < nat bps" "nat bps \<le> 32" by auto
  with t(1) read_sizes_ok[OF n(1)] show ?thesis by (intro sampled_table_ok[OF n(2)]) auto
qed

lemma fit_range_ok: "fit_range rng n = [] \<or> length (fit_range rng n) = 2 * n"
  by (simp add: fit_range_def)

lemma exp_init_ok: "exp_init L d = Some f \<Longrightarrow> fn_ok f"
  by (auto simp: exp_init_def fit_range_def Let_def not_less Suc_le_eq split: if_splits)

lemma calc_init_ok: "calc_init L fn = Some f \<Longrightarrow> fn_ok f"
proof -
  have "parse_program src = Some code \<Longrightarrow> \<exists>ps. blocks_ok ps \<and> code = code_of 0 ps" for src code
    by (metis parse_program_code)
  then show "calc_init L fn = Some f \<Longrightarrow> fn_ok f"
    by (auto simp: calc_init_def Let_def not_less Suc_le_eq split: if_splits sum.splits)
qed

lemma stitch_init_ok:
  assumes "stitch_init L g d = Some f" "\<And>x p. g x = Some p \<Longrightarrow> fn_ok p"
  shows "fn_ok f"
proof -
  define fa where "fa = q_getKey L d ''/Functions''"
  define parts where "parts = map g (q_items L fa)"
  define fns where "fns = map the parts"
  define bounds where "bounds = numArray L (q_getKey L d ''/Bounds'')"
  note folds = fa_def[symmetric] parts_def[symmetric] fns_def[symmetric] bounds_def[symmetric]
  have p: "list_all (\<lambda>p. p \<noteq> None \<and> inputs (the p) = 1) parts" "q_items L fa \<noteq> []"
    and n: "list_all (\<lambda>f. outputs f = outputs (hd fns)) fns" "length bounds + 1 = length fns"
    and d: "2 \<le> length (numArray L (q_getKey L d ''/Domain''))"
    using assms(1) unfolding stitch_init_def Let_def folds by (auto split: if_splits)
  have ok: "list_all (\<lambda>f. fn_ok f \<and> inputs f = 1 \<and> outputs f = outputs (hd fns)) fns"
    using p(1) n(1) assms(2) by (fastforce simp: fns_def parts_def list_all_iff split: option.splits)
  have "hd fns \<in> set fns" using p(2) by (intro hd_in_set) (simp add: fns_def parts_def)
  then have "1 \<le> outputs (hd fns)" "outputs (hd fns) \<le> 32"
    using ok fn_ok_outputs unfolding list_all_iff by blast+
  moreover have "length (concat (replicate k [zero_d, of_int_d 1])) = 2 * k" for k by (induction k) auto
  ultimately show ?thesis
    using assms(1) ok n d fit_range_ok[of "numArray L (q_getKey L d ''/Range'')" "outputs (hd fns)"]
    unfolding stitch_init_def Let_def folds by (auto split: if_splits)
qed

lemma load_ok: "load M L k fn = Some f \<Longrightarrow> fn_ok f"
proof (induction k arbitrary: fn f)
  case (Suc k)
  then show ?case
    using sampled_init_ok exp_init_ok calc_init_ok stitch_init_ok[OF _ Suc.IH] by (auto simp: Let_def split: if_splits)
qed simp

lemma array_init_ok:
  assumes "array_init parts = Some f" "\<And>p. Some p \<in> set parts \<Longrightarrow> fn_ok p"
  shows "fn_ok f"
proof -
  define fns where "fns = map the parts"
  have p: "list_all (\<lambda>p. p \<noteq> None \<and> outputs (the p) = 1) parts"
    and n: "list_all (\<lambda>f. inputs f = inputs (hd fns)) fns" "1 \<le> length fns" "length fns \<le> 32"
    and f: "f = ArrayFn (concat (replicate (inputs (hd fns)) [zero_d, of_int_d 1])) [] (length fns) fns"
    using assms(1) unfolding array_init_def Let_def fns_def[symmetric] by (auto simp: not_less Suc_le_eq split: if_splits)
  have "list_all (\<lambda>f. fn_ok f \<and> outputs f = 1 \<and> inputs f = inputs (hd fns)) fns"
    using p n(1) assms(2) by (fastforce simp: fns_def list_all_iff split: option.splits)
  moreover have "length (concat (replicate k [zero_d, of_int_d 1])) = 2 * k" for k by (induction k) auto
  ultimately show ?thesis using n f by (auto simp: list_all_iff)
qed

lemma loadArray_ok:
  assumes "loadArray M L h = Some f"
  shows "fn_ok f"
proof -
  have a: "array_init (map (load M L 17) xs) = Some f \<Longrightarrow> fn_ok f" for xs
    by (rule array_init_ok) (auto dest: load_ok[OF sym])
  show ?thesis
  proof (cases "\<exists>x. q_items L h = [x]")
    case True
    with assms show ?thesis by (auto simp: loadArray_def intro: load_ok split: if_splits)
  next
    case False
    then have "(case q_items L h of [x] \<Rightarrow> load M L 17 x | xs \<Rightarrow> array_init (map (load M L 17) xs)) =
        array_init (map (load M L 17) (q_items L h))"
      by (auto split: list.splits)
    with assms a show ?thesis unfolding loadArray_def by (auto intro: load_ok split: if_splits)
  qed
qed

text \<open>
  C15. A function that was loaded is well formed, with all its parts: its arrays have the lengths
  that computing it relies on, its table holds every sample its sizes call for, its program is
  the code of nested blocks, and it has 1 to 32 outputs.
\<close>

theorem loaded_function_ok:
  assumes "loadArray M L h = Some f"
  shows "fn_ok f"
  using assms by (rule loadArray_ok)

section \<open>Results lie in the range\<close>

lemma less_d_irrefl [simp]: "\<not> less_d x x"
  by (cases x) (auto split: prod.splits)

lemma clip_between:
  "\<not> less_d (bs ! (2 * i + 1)) (bs ! (2 * i)) \<Longrightarrow>
     \<not> less_d (clip bs i x) (bs ! (2 * i)) \<and> \<not> less_d (bs ! (2 * i + 1)) (clip bs i x)"
  by (auto simp: clip_def max_d_def min_d_def)

lemma clipOut_length: "length out = n \<Longrightarrow> length (clipOut rng n out) = n"
  by (simp add: clipOut_def)

lemma add_samples_length: "add_samples sm w idx i out = Value vs \<Longrightarrow> length vs = length out"
  by (induction sm w idx i out arbitrary: vs rule: add_samples.induct) (auto simp: then_do_Some Let_def)

lemma corners_length: "corners sm n as cs out = Value vs \<Longrightarrow> length vs = length out"
  by (induction sm n as cs out arbitrary: vs rule: corners.induct)
    (auto simp: then_do_Some add_samples_length split: prod.splits if_splits)

lemma compute_parts_length:
  "compute_parts gs xs = Value out \<Longrightarrow> (\<And>g ys vs. g \<in> set gs \<Longrightarrow> g ys = Value vs \<Longrightarrow> length vs = 1) \<Longrightarrow> length out = length gs"
  by (induction gs xs arbitrary: out rule: compute_parts.induct) (fastforce simp: then_do_Some)+

lemma stitch_index_le: "stitch_index x bounds \<le> length bounds"
  by (simp add: stitch_index_def length_takeWhile_le)

lemma compute_length: "fn_ok f \<Longrightarrow> compute M f xs = Value out \<Longrightarrow> length out = outputs f"
proof (induction f arbitrary: xs out)
  case (SampledFn dm rng n sm)
  then show ?case by (auto simp: compute_sampled_def Let_def then_do_Some clipOut_length corners_length)
next
  case (ExpFn dm rng n c0 c1 ex)
  then show ?case by (auto simp: compute_exp_def Let_def clipOut_length)
next
  case (StitchFn dm rng n fns bounds enc)
  define k where "k = stitch_index (clipIn dm xs ! 0) bounds"
  have k: "k < length fns" using StitchFn.prems(1) stitch_index_le[of "clipIn dm xs ! 0" bounds] unfolding k_def fn_ok.simps by linarith
  then have "fn_ok (fns ! k)" "outputs (fns ! k) = n" using StitchFn.prems by (auto simp: list_all_length)
  with k StitchFn show ?case
    by (auto simp: compute_stitch_def Let_def then_do_Some k_def[symmetric] intro!: clipOut_length)
next
  case (CalcFn dm rng n code)
  then show ?case by (auto simp: compute_calc_def then_do_Some clipOut_length split: if_splits)
next
  case (ArrayFn dm rng n fns)
  have "length vs = 1" if "g \<in> set (map (compute M) fns)" "g ys = Value vs" for g ys vs
    using that ArrayFn by (auto simp: list_all_iff)
  with ArrayFn.prems compute_parts_length[of "map (compute M) fns" xs out] show ?case by simp
qed

lemma compute_clipped:
  "compute M f xs = Value out \<Longrightarrow> fn_range f \<noteq> [] \<Longrightarrow> fn_ok f \<Longrightarrow> \<exists>vs. out = clipOut (fn_range f) (outputs f) vs"
  by (cases f) (auto simp: compute_sampled_def compute_exp_def compute_stitch_def compute_calc_def Let_def then_do_Some split: if_splits)

lemma fn_ok_range: "fn_ok f \<Longrightarrow> fn_range f = [] \<or> 2 * outputs f \<le> length (fn_range f)"
  by (cases f) auto

text \<open>
  C16. A loaded function that returns gives as many values as it has outputs, and when it has a
  range, no value compares below the lower or above the upper bound of its interval, if that
  interval is not empty: each value is in its interval or is a NaN, which compares with nothing and
  which the clipping lets through.
\<close>

theorem computed_values_in_range:
  assumes "loadArray M L h = Some f" "compute M f xs = Value out"
  shows "length out = outputs f \<and>
    (fn_range f \<noteq> [] \<longrightarrow> (\<forall>i < outputs f. \<not> less_d (fn_range f ! (2 * i + 1)) (fn_range f ! (2 * i)) \<longrightarrow>
       \<not> less_d (out ! i) (fn_range f ! (2 * i)) \<and> \<not> less_d (fn_range f ! (2 * i + 1)) (out ! i)))"
proof -
  have ok: "fn_ok f" using assms(1) by (rule loadArray_ok)
  have "\<not> less_d (out ! i) (fn_range f ! (2 * i)) \<and> \<not> less_d (fn_range f ! (2 * i + 1)) (out ! i)"
    if r: "fn_range f \<noteq> []" and i: "i < outputs f" and e: "\<not> less_d (fn_range f ! (2 * i + 1)) (fn_range f ! (2 * i))" for i
  proof -
    obtain vs where "out = clipOut (fn_range f) (outputs f) vs" using compute_clipped[OF assms(2) r ok] ..
    then have "out ! i = clip (fn_range f) i (vs ! i)" using fn_ok_range[OF ok] r i by (auto simp: clipOut_def)
    with clip_between[OF e] show ?thesis by simp
  qed
  with compute_length[OF ok assms(2)] show ?thesis by blast
qed

section \<open>Sampled functions stay inside their table\<close>

text \<open>The floor of a value clamped to an axis of \<open>k\<close> entries is one of the entries.\<close>

lemma mag_pos: "mag m e = (p, q) \<Longrightarrow> 0 < q"
  by (auto simp: mag_def split: if_splits)

lemma of_int_d_form:
  assumes "\<bar>i\<bar> < 2 ^ 53"
  obtains m e q where "of_int_d i = Fin (i < 0) m e" "mag m e = (nat \<bar>i\<bar> * q, q)" "0 < q"
  using of_int_d_exact[OF assms] by (auto simp: is_int_d_def)

lemma floor_between:
  assumes "finite_d c" "\<not> less_d c zero_d" "\<not> less_d (of_int_d i) c" "0 \<le> i" "i < 2 ^ 53"
  shows "finite_d (floor_d c) \<and> 0 \<le> trunc_d (floor_d c) \<and> trunc_d (floor_d c) \<le> i"
proof -
  obtain s m e where c: "c = Fin s m e" using assms(1) by (cases c) auto
  obtain p q where pq: "mag m e = (p, q)" by fastforce
  note q = mag_pos[OF pq]
  obtain m' e' q' where i: "of_int_d i = Fin (i < 0) m' e'" "mag m' e' = (nat \<bar>i\<bar> * q', q')" "0 < q'"
    using assms(4,5) of_int_d_form[of i] by auto
  obtain r where r: "mag 0 (- 1074) = (0, r)" "0 < r" by (auto simp: mag_def)
  then have "0 \<le> signed s p"
    using assms(2) by (auto simp: c pq zero_d_def signed_def not_less mult_le_0_iff split: if_splits)
  moreover have "signed s p \<le> i * int q"
  proof -
    have "\<not> i * int q' * int q < signed s p * int q'"
      using assms(3,4) unfolding c i(1) less_d.simps pq i(2) by (simp add: signed_def)
    then have "signed s p * int q' \<le> (i * int q) * int q'" by (simp add: mult.assoc mult.commute[of "int q'"])
    then show ?thesis using i(3) by simp
  qed
  ultimately have n: "0 \<le> signed s p div int q" "signed s p div int q \<le> i"
    using q zdiv_mono1[of "signed s p" "i * int q" "int q"] by (simp_all add: pos_imp_zdiv_nonneg_iff)
  then have "trunc_d (of_int_d (signed s p div int q)) = signed s p div int q"
    "finite_d (of_int_d (signed s p div int q))"
    using assms(5) of_int_d_exact[of "signed s p div int q"] of_int_d_finite[of "signed s p div int q"]
    by (auto intro: is_int_d_trunc)
  moreover have "trunc_d (Fin s 0 (- 1074)) = 0" using r by (simp add: signed_def)
  ultimately show ?thesis using n assms(4) by (auto simp: c pq Let_def)
qed

lemma encoded_entry:
  assumes "interp x d0 d1 e0 e1 \<noteq> NaN" "1 \<le> k" "k \<le> 2 ^ 20"
  shows "0 \<le> to_int M (floor_d (encoded x d0 d1 e0 e1 k)) \<and> to_int M (floor_d (encoded x d0 d1 e0 e1 k)) \<le> k - 1"
proof -
  let ?e = "interp x d0 d1 e0 e1" and ?c = "encoded x d0 d1 e0 e1 k"
  have k: "is_int_d (k - 1) (of_int_d (k - 1))" "finite_d (of_int_d (k - 1))" "is_int_d 0 zero_d"
    using assms(2,3) of_int_d_exact[of "k - 1"] of_int_d_finite[of "k - 1"] of_int_d_exact[of 0]
    by (auto simp: zero_d_def of_int_d_def round_pq_def)
  have z: "\<not> less_d (of_int_d (k - 1)) zero_d" using is_int_d_rel(2)[OF k(1,3)] assms(2) by simp
  have "finite_d ?c"
    using assms(1) k(2) by (cases ?e; cases "of_int_d (k - 1)") (auto simp: encoded_def max_d_def min_d_def zero_d_def)
  moreover have "\<not> less_d ?c zero_d" "\<not> less_d (of_int_d (k - 1)) ?c"
    using z by (auto simp: encoded_def max_d_def min_d_def)
  ultimately have "finite_d (floor_d ?c) \<and> 0 \<le> trunc_d (floor_d ?c) \<and> trunc_d (floor_d ?c) \<le> k - 1"
    using assms(2,3) by (intro floor_between) auto
  with assms(3) show ?thesis by (auto simp: to_int_def in_type_def)
qed

text \<open>An axis with \<open>k\<close> entries, the lower entry and its neighbour.\<close>

definition axis_ok :: "int \<times> int \<times> double \<Rightarrow> bool" where
  "axis_ok a = (case a of (k, l, fr) \<Rightarrow> 1 \<le> k \<and> 0 \<le> l \<and> (if k = 1 then l = 0 else l + 1 \<le> k - 1))"

lemma axis_ok_axis:
  assumes "0 \<le> to_int M (floor_d e)" "to_int M (floor_d e) \<le> k - 1" "1 \<le> k"
  shows "axis_ok (k, axis M k e)"
  using assms by (auto simp: axis_ok_def axis_def Let_def)

lemma corner_index:
  "list_all axis_ok as \<Longrightarrow> 0 < stride \<Longrightarrow> corner c as w idx stride = (w', idx') \<Longrightarrow>
     idx \<le> idx' \<and> idx' + stride \<le> idx + stride * prod_list (map fst as) \<and> 1 \<le> prod_list (map fst as)"
proof (induction as arbitrary: c w idx stride)
  case (Cons a as)
  obtain k l fr where a: "a = (k, l, fr)" by (cases a)
  note prems = Cons.prems[unfolded a]
  define pos where "pos = l + (if k = 1 then 0 else int (c mod 2))"
  have k: "1 \<le> k" "0 \<le> pos" "pos \<le> k - 1"
    using prems(1) by (auto simp: axis_ok_def pos_def mod2_eq_if split: if_splits)
  have "idx + pos * stride \<le> idx' \<and> idx' + stride * k \<le> idx + pos * stride + stride * k * prod_list (map fst as) \<and>
      1 \<le> prod_list (map fst as)"
    using prems k
    by (intro Cons.IH[where w = "mul_d w (if int (c mod 2) = 1 then fr else sub_d (of_int_d 1) fr)" and c = "c div 2"])
      (auto simp: pos_def Let_def)
  then have i: "idx + pos * stride \<le> idx'" "idx' + stride * k \<le> idx + pos * stride + stride * k * prod_list (map fst as)"
    and p: "1 \<le> prod_list (map fst as)" by auto
  have "0 \<le> pos * stride" "pos * stride \<le> (k - 1) * stride"
    using k prems(2) by (auto intro: mult_right_mono)
  with i have "idx \<le> idx'" "idx' + stride \<le> idx + stride * (k * prod_list (map fst as))"
    by (simp_all add: algebra_simps)
  moreover have "1 \<le> k * prod_list (map fst as)" using k(1) p by (metis mult_mono' mult_1 zero_le_one)
  ultimately show ?case by (simp add: a)
qed auto

lemma sample_bits_inside: "0 \<le> p \<Longrightarrow> p + int n \<le> 8 * int (length s) \<Longrightarrow> sample_bits s p v n \<noteq> Undefined"
proof (induction n arbitrary: p v)
  case (Suc n)
  then have "0 \<le> p div 8" "p div 8 < int (length s)" by auto
  with Suc show ?case by (simp add: byte_at_def)
qed simp

lemma sample_inside:
  assumes "0 \<le> k" "(k + 1) * int (sm_bps sm) \<le> 8 * int (length (sm_data sm))"
  shows "sample sm k \<noteq> Undefined"
proof -
  have "sample_bits (sm_data sm) (k * int (sm_bps sm)) 0 (sm_bps sm) \<noteq> Undefined"
    using assms by (intro sample_bits_inside) (simp_all add: algebra_simps)
  then show ?thesis by (cases "sample_bits (sm_data sm) (k * int (sm_bps sm)) 0 (sm_bps sm)") (auto simp: sample_def)
qed

lemma add_samples_inside:
  assumes "0 \<le> idx" "(idx + int i + int (length out)) * int (sm_bps sm) \<le> 8 * int (length (sm_data sm))"
  shows "add_samples sm w idx i out \<noteq> Undefined"
  using assms
proof (induction out arbitrary: i)
  case (Cons a out)
  have "(idx + int i + 1) * int (sm_bps sm) \<le> (idx + int i + int (length (a # out))) * int (sm_bps sm)"
    by (intro mult_right_mono) auto
  then have s: "sample sm (idx + int i) \<noteq> Undefined" using Cons.prems by (intro sample_inside) auto
  have r: "add_samples sm w idx (i + 1) out \<noteq> Undefined"
    using Cons.prems by (intro Cons.IH) (simp_all add: algebra_simps)
  show ?case
    using s r by (cases "sample sm (idx + int i)"; cases "add_samples sm w idx (i + 1) out") (auto simp: Let_def)
qed simp

lemma corners_inside:
  assumes "list_all axis_ok as" "prod_list (map fst as) * int n * int (sm_bps sm) \<le> 8 * int (length (sm_data sm))" "length out = n"
  shows "corners sm n as cs out \<noteq> Undefined"
  using assms(3)
proof (induction cs arbitrary: out)
  case (Cons c cs)
  obtain w idx where c: "corner c as (of_int_d 1) 0 1 = (w, idx)" by fastforce
  have i: "0 \<le> idx" "idx + 1 \<le> prod_list (map fst as)" using corner_index[OF assms(1) _ c] by auto
  have "(idx * int n + int 0 + int (length out)) * int (sm_bps sm) = (idx + 1) * int n * int (sm_bps sm)"
    using Cons.prems by (simp add: algebra_simps)
  also have "\<dots> \<le> prod_list (map fst as) * int n * int (sm_bps sm)" using i(2) by (intro mult_right_mono) auto
  finally have "add_samples sm w (idx * int n) 0 out \<noteq> Undefined"
    using i(1) assms(2) by (intro add_samples_inside) auto
  moreover have "length vs = n" if "add_samples sm w (idx * int n) 0 out = Value vs" for vs
    using add_samples_length[OF that] Cons.prems by simp
  ultimately show ?case
    using Cons.IH Cons.prems by (cases "add_samples sm w (idx * int n) 0 out") (simp_all add: c)
qed simp

text \<open>
  C17. A sampled function reads only its table: with a well-formed table and inputs that encode
  to numbers (an infinite or enormous domain can make the encoded value not a number), its
  computation never leaves the defined behaviour, whatever the platform does with conversions.
\<close>

theorem sampled_reads_inside_table:
  assumes "fn_ok (SampledFn dm rng n sm)"
    and "\<And>i. i < length dm div 2 \<Longrightarrow>
      interp (clipIn dm xs ! i) (dm ! (2 * i)) (dm ! (2 * i + 1)) (sm_encode sm ! (2 * i)) (sm_encode sm ! (2 * i + 1)) \<noteq> NaN"
  shows "compute M (SampledFn dm rng n sm) xs \<noteq> Undefined"
proof -
  let ?as = "axes M dm sm (clipIn dm xs)"
  have ok: "sampled_ok (length dm div 2) n sm" using assms(1) unfolding fn_ok.simps by blast
  have "axis_ok (?as ! i)" if "i < length dm div 2" for i
  proof -
    have "1 \<le> sm_size sm ! i" "sm_size sm ! i \<le> 2 ^ 20"
      using ok that by (auto simp: sampled_ok_def list_all_length)
    with encoded_entry[OF assms(2)[OF that], of "sm_size sm ! i" M] show ?thesis
      using that by (auto simp: axes_def intro!: axis_ok_axis)
  qed
  then have a: "list_all axis_ok ?as" by (simp add: list_all_length axes_def)
  have "map fst ?as = sm_size sm"
    using ok by (intro nth_equalityI) (auto simp: axes_def sampled_ok_def)
  moreover have "0 \<le> prod_list ks" if "list_all (\<lambda>k. 1 \<le> k \<and> k \<le> 2 ^ 20) ks" for ks :: "int list"
    using that by (induction ks) auto
  ultimately have p: "map fst ?as = sm_size sm" "0 \<le> prod_list (sm_size sm)"
    using ok by (auto simp: sampled_ok_def)
  have "int (nat (prod_list (sm_size sm)) * n * sm_bps sm) \<le> int (8 * length (sm_data sm))"
    using ok unfolding sampled_ok_def of_nat_le_iff by blast
  then have "prod_list (map fst ?as) * int n * int (sm_bps sm) \<le> 8 * int (length (sm_data sm))"
    using p by simp
  with a have "corners sm n ?as [0..<2 ^ length ?as] (replicate n zero_d) \<noteq> Undefined"
    by (intro corners_inside) auto
  then show ?thesis
    by (cases "corners sm n ?as [0..<2 ^ length ?as] (replicate n zero_d)") (auto simp: compute_sampled_def Let_def)
qed

text \<open>A machine for evaluating functions on concrete values.\<close>

definition plain_machine :: machine where
  "plain_machine = \<lparr>m_sqrt = (\<lambda>x. x), m_sin = (\<lambda>x. x), m_cos = (\<lambda>x. x), m_log = (\<lambda>x. x), m_log10 = (\<lambda>x. x),
     m_pow = (\<lambda>x y. x), m_atan2 = (\<lambda>x y. x), m_int = (\<lambda>x. 0), m_llong = (\<lambda>x. 0)\<rparr>"

theorem sampled_reads_inside_table_witness:
  "compute plain_machine (SampledFn [zero_d, zero_d] [zero_d, zero_d] 1
     \<lparr>sm_bps = 8, sm_size = [2], sm_encode = [zero_d, zero_d], sm_decode = [zero_d, zero_d], sm_data = ''ab''\<rparr>) [zero_d] \<noteq> Undefined"
  by (rule sampled_reads_inside_table) (simp_all add: sampled_ok_def interp_def zero_d_def split: prod.splits)

section \<open>A library of object values with numbers\<close>

definition obj_num :: "(obj, obj) qpdf_num" where
  "obj_num = qpdf.extend obj_qpdf (qpdf_num.fields
     (\<lambda>x. case deref x of OInt _ \<Rightarrow> True | _ \<Rightarrow> False)
     (\<lambda>x. case deref x of OInt i \<Rightarrow> of_int_d i | _ \<Rightarrow> zero_d))"

lemmas obj_num_simps = obj_num_def qpdf.defs qpdf_num.defs obj_qpdf_def

definition small_exp :: obj where
  "small_exp = ODict [(''/FunctionType'', OInt 2), (''/Range'', OArr [OInt 0, OInt 1])]"

lemma load_small_exp:
  "loadArray M obj_num small_exp =
     Some (ExpFn [zero_d, of_int_d 1] [of_int_d 0, of_int_d 1] 1 [zero_d] [of_int_d 1] (of_int_d 1))"
proof -
  have "load M obj_num 17 small_exp = load M obj_num (Suc 16) small_exp" by (simp del: load.simps)
  then show ?thesis
    unfolding loadArray_def load.simps(2)
    by (simp add: small_exp_def obj_num_simps exp_init_def numArray_def numOf_def fit_range_def Let_def)
qed

theorem loaded_function_ok_witness:
  "fn_ok (ExpFn [zero_d, of_int_d 1] [of_int_d 0, of_int_d 1] 1 [zero_d] [of_int_d 1] (of_int_d 1))"
  using load_small_exp by (rule loaded_function_ok)

theorem computed_values_in_range_witness:
  "\<exists>out. compute plain_machine (ExpFn [zero_d, of_int_d 1] [of_int_d 0, of_int_d 1] 1 [zero_d] [of_int_d 1] (of_int_d 1)) [zero_d] = Value out \<and>
     length out = 1 \<and> \<not> less_d (of_int_d 1) (out ! 0)"
proof -
  let ?f = "ExpFn [zero_d, of_int_d 1] [of_int_d 0, of_int_d 1] 1 [zero_d] [of_int_d 1] (of_int_d 1)"
  obtain out where o: "compute plain_machine ?f [zero_d] = Value out" by (simp add: compute_exp_def Let_def)
  have "\<not> less_d (of_int_d 1) (of_int_d 0)"
    using is_int_d_rel(2)[OF of_int_d_exact of_int_d_exact, of 1 0] by simp
  with computed_values_in_range[OF load_small_exp[of plain_machine] o] o show ?thesis by auto
qed

end
