(* ===== verification/Jpx.thy ===== *)
theory Jpx
  imports Prelude "HOL-Library.Word"
begin

unbundle bit_operations_syntax

text \<open>
  JPEG 2000 data (\<^verbatim>\<open>jpx.cpp\<close>): removal of the TLM marker segments before decoding, the
  memory stream the decoder reads from, and the test whether an image may stay in a PDF/A
  file. Offsets that come from the file keep their 64 bits. The OpenJPEG decoder itself is a
  parameter.
\<close>

section \<open>Bytes\<close>

definition byte :: "string \<Rightarrow> nat \<Rightarrow> nat" where
  "byte b i = ord (b ! i)"

text \<open>Big-endian numbers of \<open>k\<close> bytes.\<close>

fun be :: "string \<Rightarrow> nat \<Rightarrow> nat \<Rightarrow> nat" where
  "be b i 0 = 0"
| "be b i (Suc k) = 256 * be b i k + byte b (i + k)"

fun be_bytes :: "nat \<Rightarrow> nat \<Rightarrow> string" where
  "be_bytes 0 v = []"
| "be_bytes (Suc k) v = be_bytes k (v div 256) @ [chr (v mod 256)]"

definition be32 :: "string \<Rightarrow> nat \<Rightarrow> nat" where
  "be32 b i = be b i 4"

section \<open>Finding the code stream\<close>

text \<open>
  The walk over the boxes. A box with an extended length can move the position anywhere, since
  the addition wraps around; a walk that does not end has no value. The answer is the offset of
  the code stream, and where its box keeps its length, when it has one.
\<close>

definition ext_box :: "string \<Rightarrow> 64 word \<Rightarrow> bool" where
  "ext_box b p \<longleftrightarrow> be b (unat p) 4 = 1 \<and> p + 16 \<le> word_of_nat (length b)"

definition box_len :: "string \<Rightarrow> 64 word \<Rightarrow> 64 word" where
  "box_len b p = (if ext_box b p then word_of_nat (be b (unat p + 8) 8) else word_of_nat (be b (unat p) 4))"

definition box_hdr :: "string \<Rightarrow> 64 word \<Rightarrow> 64 word" where
  "box_hdr b p = (if ext_box b p then 16 else 8)"

type_synonym found = "(64 word \<times> (64 word \<times> bool) option) option"

partial_function (option) find_box :: "string \<Rightarrow> 64 word \<Rightarrow> found option" where
  "find_box b p =
     (if p + 8 \<le> word_of_nat (length b) then
        if substr b (unat p + 4) 4 = ''jp2c'' then
          Some (Some (p + box_hdr b p,
            if box_len b p \<noteq> 0 then Some (if ext_box b p then p + 8 else p, ext_box b p) else None))
        else if box_len b p = 0 \<or> box_len b p < box_hdr b p \<or> p + box_len b p > word_of_nat (length b) then Some None
        else find_box b (p + box_len b p)
      else Some None)"

definition is_soc :: "string \<Rightarrow> nat \<Rightarrow> bool" where
  "is_soc b p \<longleftrightarrow> byte b p = 0xFF \<and> byte b (p + 1) = 0x4F"

definition find_codestream :: "string \<Rightarrow> found option" where
  "find_codestream b =
     (if length b \<ge> 2 \<and> is_soc b 0 then Some (Some (0, None)) else find_box b 0)"

section \<open>Removing TLM segments\<close>

text \<open>
  The marker segments from \<open>p\<close> to the first tile part or the end: the text kept, the number
  of bytes removed and where the walk stopped; \<open>None\<close> when the data is malformed.
\<close>

function segments :: "string \<Rightarrow> nat \<Rightarrow> string \<Rightarrow> nat \<Rightarrow> (string \<times> nat \<times> nat) option" where
  "segments b p out removed =
     (if p + 4 \<le> length b then
        if byte b p \<noteq> 0xFF then None
        else if byte b (p + 1) \<in> {0x90, 0x93, 0xD9} then Some (out, removed, p)
        else
          let segLen = be b (p + 2) 2
          in if segLen < 2 \<or> p + 2 + segLen > length b then None
             else if byte b (p + 1) = 0x55 then segments b (p + 2 + segLen) out (removed + 2 + segLen)
             else segments b (p + 2 + segLen) (out @ substr b p (2 + segLen)) removed
      else Some (out, removed, p))"
  by pat_completeness auto
termination
  by (relation "measure (\<lambda>(b, p, out, removed). length b - p)") auto

declare segments.simps [simp del]

definition patch_len :: "string \<Rightarrow> nat \<Rightarrow> nat \<Rightarrow> nat \<Rightarrow> string" where
  "patch_len out i k removed =
     (let len = word_of_nat (be out i k) - word_of_nat removed :: 64 word
      in take i out @ be_bytes k (unat len) @ drop (i + k) out)"

definition withoutTlm :: "string \<Rightarrow> string option" where
  "withoutTlm b =
     (case find_codestream b of
        None \<Rightarrow> None
      | Some None \<Rightarrow> Some b
      | Some (Some (cs, lenAt)) \<Rightarrow>
          let p = unat cs
          in if p + 4 > length b \<or> \<not> is_soc b p then Some b
             else (case segments b (p + 2) (take (p + 2) b) 0 of
                     None \<Rightarrow> Some b
                   | Some (out, removed, q) \<Rightarrow>
                       if removed = 0 then Some b
                       else
                         let out = out @ drop q b
                         in Some (case lenAt of None \<Rightarrow> out
                              | Some (i, long) \<Rightarrow> patch_len out (unat i) (if long then 8 else 4) removed)))"

section \<open>The memory stream of the decoder\<close>

record MemStream =
  ms_data :: string
  ms_pos :: nat

text \<open>The bytes read, or \<open>None\<close> for the end of the stream, and the stream after it.\<close>

definition memRead :: "nat \<Rightarrow> MemStream \<Rightarrow> string option \<times> MemStream" where
  "memRead n ms =
     (if ms_pos ms \<ge> length (ms_data ms) then (None, ms)
      else let k = min n (length (ms_data ms) - ms_pos ms)
           in (Some (substr (ms_data ms) (ms_pos ms) k), ms\<lparr>ms_pos := ms_pos ms + k\<rparr>))"

definition memSkip :: "int \<Rightarrow> MemStream \<Rightarrow> int \<times> MemStream" where
  "memSkip n ms =
     (let target = int (ms_pos ms) + n
      in if target < 0 \<or> target > int (length (ms_data ms)) then (- 1, ms) else (n, ms\<lparr>ms_pos := nat target\<rparr>))"

definition memSeek :: "int \<Rightarrow> MemStream \<Rightarrow> bool \<times> MemStream" where
  "memSeek n ms =
     (if n < 0 \<or> n > int (length (ms_data ms)) then (False, ms) else (True, ms\<lparr>ms_pos := nat n\<rparr>))"

section \<open>Images that may stay\<close>

record jp2 =
  colrCount :: nat
  colrOk :: bool
  nc :: nat
  bpcVal :: int
  bpcVaries :: bool
  bpccEqual :: bool

definition ihdr_box :: "string \<Rightarrow> jp2 \<Rightarrow> jp2" where
  "ihdr_box p j =
     (let v = (if length p \<ge> 11 then int (byte p 10) else 0)
      in j\<lparr>nc := 256 * byte p 8 + byte p 9, bpcVal := v, bpcVaries := (v = 0xFF)\<rparr>)"

definition bpcc_box :: "string \<Rightarrow> jp2 \<Rightarrow> jp2" where
  "bpcc_box p j =
     (let j = j\<lparr>bpccEqual := list_all (\<lambda>c. c = hd p) (tl p)\<rparr>
      in if p \<noteq> [] then j\<lparr>bpcVal := int (byte p 0)\<rparr> else j)"

definition colr_valid :: "string \<Rightarrow> bool" where
  "colr_valid p =
     (if byte p 0 = 1 then length p \<ge> 7 \<and> be32 p 3 \<ge> 12 \<and> be32 p 3 \<le> 43 \<and> be32 p 3 \<noteq> 19
      else byte p 0 = 2)"

definition colr_box :: "string \<Rightarrow> jp2 \<Rightarrow> jp2" where
  "colr_box p j = j\<lparr>colrCount := colrCount j + 1, colrOk := colrOk j \<and> colr_valid p\<rparr>"

text \<open>The length and the header size of the box at the start of \<open>d\<close>, when they fit.\<close>

definition jp2_box :: "string \<Rightarrow> (nat \<times> nat) option" where
  "jp2_box d =
     (let len = be32 d 0 in
      if len = 1 \<and> length d < 16 then None
      else
        let (len, hdr) = (if len = 1 then (be32 d 8 * 2 ^ 32 + be32 d 12, 16) else if len = 0 then (length d, 8) else (len, 8))
        in if len < hdr \<or> len > length d then None else Some (len, hdr))"

text \<open>
  The boxes of \<open>d\<close> at a depth of \<open>kMaxJp2BoxNest\<close> less \<open>k\<close> levels; \<open>None\<close> when a
  box is malformed or nested too deeply, else the facts found and whether a header was seen.
\<close>

definition kMaxJp2BoxNest :: nat where
  "kMaxJp2BoxNest = 4"

function scan_boxes :: "(string \<Rightarrow> jp2 \<Rightarrow> jp2 option) \<Rightarrow> string \<Rightarrow> bool \<Rightarrow> jp2 \<Rightarrow> (bool \<times> jp2) option" where
  "scan_boxes nested d saw j =
     (if length d < 8 then Some (saw, j)
      else case jp2_box d of
        None \<Rightarrow> None
      | Some (len, hdr) \<Rightarrow>
          let ty = substr d 4 4; p = substr d hdr (len - hdr); rest = drop len d
          in if ty = ''jp2h'' then
               (case nested p j of None \<Rightarrow> None | Some j \<Rightarrow> scan_boxes nested rest True j)
             else if ty = ''ihdr'' \<and> length p \<ge> 10 then scan_boxes nested rest True (ihdr_box p j)
             else if ty = ''bpcc'' then scan_boxes nested rest saw (bpcc_box p j)
             else if ty = ''colr'' \<and> length p \<ge> 3 then scan_boxes nested rest saw (colr_box p j)
             else scan_boxes nested rest saw j)"
  by pat_completeness auto
termination
proof (relation "measure (\<lambda>(nested, d, saw, j). length d)", goal_cases)
qed (auto simp: jp2_box_def Let_def split: if_splits)

declare scan_boxes.simps [simp del]

fun scan_nested :: "nat \<Rightarrow> string \<Rightarrow> jp2 \<Rightarrow> jp2 option" where
  "scan_nested 0 d j = None"
| "scan_nested (Suc k) d j = map_option snd (scan_boxes (scan_nested k) d False j)"

definition scanJp2Boxes :: "string \<Rightarrow> jp2 \<Rightarrow> jp2 option" where
  "scanJp2Boxes d j =
     (case scan_boxes (scan_nested kMaxJp2BoxNest) d False j of Some (True, j) \<Rightarrow> Some j | _ \<Rightarrow> None)"

definition jpxPdfaConformant :: "string \<Rightarrow> bool" where
  "jpxPdfaConformant d =
     (if length d < 12 \<or> is_soc d 0 then False
      else case scanJp2Boxes d \<lparr>colrCount = 0, colrOk = True, nc = 0, bpcVal = - 1, bpcVaries = False, bpccEqual = True\<rparr> of
        None \<Rightarrow> False
      | Some j \<Rightarrow>
          if nc j \<notin> {1, 3, 4} then False
          else if bpcVaries j \<and> (\<not> bpccEqual j \<or> bpcVal j < 0) then False
          else
            let depthBits = (bpcVal j AND 0x7F) + 1
            in \<not> (depthBits < 1 \<or> depthBits > 38) \<and> colrCount j = 1 \<and> colrOk j)"

section \<open>Decoding\<close>

record RawImage =
  ri_ok :: bool
  ri_error :: string
  ri_width :: int
  ri_height :: int
  ri_comps :: int
  ri_samples :: string

text \<open>\<open>dec\<close> decodes at one position; data that does not start with an image is searched for one.\<close>

definition jp2Sig :: string where
  "jp2Sig = [CHR 0x00, CHR 0x00, CHR 0x00, CHR 0x0C, CHR 0x6A, CHR 0x50, CHR 0x20, CHR 0x20]"

definition j2kSig :: string where
  "j2kSig = [CHR 0xFF, CHR 0x4F, CHR 0xFF, CHR 0x51]"

definition decodeJpxData :: "(string \<Rightarrow> RawImage \<times> string) \<Rightarrow> string \<Rightarrow> RawImage \<times> string" where
  "decodeJpxData dec raw =
     (case dec raw of (out, alpha) \<Rightarrow>
        if ri_ok out \<or> length raw < 16 then (out, alpha)
        else
          case (case find_str jp2Sig raw of Some p \<Rightarrow> Some p | None \<Rightarrow> find_str j2kSig raw) of
            Some p \<Rightarrow>
              if p > 0
              then (case dec (drop p raw) of (retry, alpha) \<Rightarrow> if ri_ok retry then (retry, alpha) else (out, alpha))
              else (out, alpha)
          | None \<Rightarrow> (out, alpha))"

section \<open>The walk over the boxes\<close>

lemma be_bound: "be b i k < 256 ^ k"
proof (induction k)
  case (Suc k)
  moreover have "byte b (i + k) < 256" by (simp add: byte_def)
  ultimately show ?case by simp
qed simp

lemma word_add_small:
  fixes p q :: "64 word"
  assumes "unat p < 2 ^ 63" "unat q < 2 ^ 63"
  shows "unat (p + q) = unat p + unat q"
  using assms by (subst unat_add_lem[THEN iffD1]) auto

text \<open>
  The boxes the walk meets, on natural numbers: the first at the start of the file, each other
  behind one that is not the code stream, is at least as long as its header and ends in the file.
\<close>

definition has_ext :: "string \<Rightarrow> nat \<Rightarrow> bool" where
  "has_ext b q \<longleftrightarrow> be b q 4 = 1 \<and> q + 16 \<le> length b"

definition len_at :: "string \<Rightarrow> nat \<Rightarrow> nat" where
  "len_at b q = (if has_ext b q then be b (q + 8) 8 else be b q 4)"

inductive box_at :: "string \<Rightarrow> nat \<Rightarrow> bool" for b :: string where
  first: "box_at b 0"
| behind: "box_at b q \<Longrightarrow> q + 8 \<le> length b \<Longrightarrow> substr b (q + 4) 4 \<noteq> ''jp2c'' \<Longrightarrow>
    (if has_ext b q then 16 else 8) \<le> len_at b q \<Longrightarrow> q + len_at b q \<le> length b \<Longrightarrow> box_at b (q + len_at b q)"

definition lengths_small :: "string \<Rightarrow> bool" where
  "lengths_small b \<longleftrightarrow> (\<forall>q. box_at b q \<longrightarrow> has_ext b q \<longrightarrow> substr b (q + 4) 4 \<noteq> ''jp2c'' \<longrightarrow> be b (q + 8) 8 < 2 ^ 63)"

lemma find_box_returns:
  assumes b: "length b < 2 ^ 63" and small: "lengths_small b" and "unat p < 2 ^ 63" "box_at b (unat p)"
  shows "\<exists>r. find_box b p = Some r"
  using assms(3,4)
proof (induction "length b - unat p" arbitrary: p rule: less_induct)
  case less
  let ?n = "word_of_nat (length b) :: 64 word"
  have n: "unat ?n = length b" using b by (simp add: unat_of_nat take_bit_nat_eq_self)
  show ?case
  proof (cases "p + 8 \<le> ?n \<and> substr b (unat p + 4) 4 \<noteq> ''jp2c'' \<and>
      \<not> (box_len b p = 0 \<or> box_len b p < box_hdr b p \<or> p + box_len b p > ?n)")
    case False
    then show ?thesis by (subst find_box.simps) auto
  next
    case True
    have p8: "unat p + 8 \<le> length b"
      using True word_add_small[of p 8] less.prems n by (simp add: word_le_nat_alt)
    have ext: "ext_box b p = has_ext b (unat p)"
      using word_add_small[of p 16] less.prems n by (auto simp: ext_box_def has_ext_def word_le_nat_alt)
    have lt: "len_at b (unat p) < 2 ^ 63"
      using small less.prems(2) True be_bound[of b "unat p" 4] by (auto simp: lengths_small_def len_at_def)
    then have len: "unat (box_len b p) = len_at b (unat p)"
      by (auto simp: box_len_def ext len_at_def unat_of_nat take_bit_nat_eq_self)
    have l: "unat (p + box_len b p) = unat p + len_at b (unat p)"
      using word_add_small[of p "box_len b p"] less.prems(1) lt len by simp
    have fits: "unat p + len_at b (unat p) \<le> length b" "(if has_ext b (unat p) then 16 else 8) \<le> len_at b (unat p)"
      using True l n len by (auto simp: word_le_nat_alt not_less box_hdr_def ext)
    have "\<exists>r. find_box b (p + box_len b p) = Some r"
    proof (rule less.hyps)
      show "box_at b (unat (p + box_len b p))" unfolding l using less.prems(2) p8 fits True by (intro box_at.behind) auto
    qed (use fits b p8 in \<open>auto simp: l split: if_splits\<close>)
    with True show ?thesis by (subst find_box.simps) auto
  qed
qed

lemma length_be_bytes [simp]: "length (be_bytes k v) = k"
  by (induction k v rule: be_bytes.induct) auto

lemma segments_sizes:
  "segments b p out removed = Some (out', removed', q) \<Longrightarrow> p \<le> length b \<Longrightarrow>
     p \<le> q \<and> q \<le> length b \<and> length out' + removed' + p = length out + removed + q"
proof (induction b p out removed arbitrary: out' removed' q rule: segments.induct)
  case (1 b p out removed)
  show ?case
  proof (cases "p + 4 \<le> length b \<and> byte b p = 0xFF \<and> byte b (p + 1) \<notin> {0x90, 0x93, 0xD9} \<and>
      \<not> (be b (p + 2) 2 < 2 \<or> p + 2 + be b (p + 2) 2 > length b)")
    case False
    with "1.prems" show ?thesis by (subst (asm) segments.simps) (auto simp: Let_def split: if_splits)
  next
    case True
    then have len: "length (substr b p (2 + be b (p + 2) 2)) = 2 + be b (p + 2) 2" by auto
    show ?thesis
    proof (cases "byte b (p + 1) = 0x55")
      case T: True
      then have "segments b (p + 2 + be b (p + 2) 2) out (removed + 2 + be b (p + 2) 2) = Some (out', removed', q)"
        using True "1.prems"(1) by (subst (asm) segments.simps) (auto simp: Let_def)
      from "1.IH"(1)[OF _ _ _ refl _ T this] True show ?thesis by auto
    next
      case F: False
      then have "segments b (p + 2 + be b (p + 2) 2) (out @ substr b p (2 + be b (p + 2) 2)) removed = Some (out', removed', q)"
        using True "1.prems"(1) by (subst (asm) segments.simps) (auto simp: Let_def)
      from "1.IH"(2)[OF _ _ _ refl _ F this] True len show ?thesis by auto
    qed
  qed
qed

text \<open>
  C18. The removal of TLM segments returns for every file below \<open>2 ^ 63\<close> bytes in which no box
  that the walk meets before the code stream has an extended length of \<open>2 ^ 63\<close> or more.
\<close>

theorem withoutTlm_returns:
  assumes "length b < 2 ^ 63" "lengths_small b"
  shows "\<exists>out. withoutTlm b = Some out"
proof -
  have "\<exists>r. find_box b 0 = Some r" by (rule find_box_returns[OF assms]) (auto intro: box_at.first)
  then have "\<exists>r. find_codestream b = Some r" by (auto simp: find_codestream_def)
  then show ?thesis by (auto simp: withoutTlm_def Let_def split: option.splits prod.splits)
qed

text \<open>
  A file with a box of extended length 32, whose content looks like a box of an enormous length,
  and the box of a code stream.
\<close>

definition boxed_file :: string where
  "boxed_file =
     [CHR 0x00, CHR 0x00, CHR 0x00, CHR 0x01] @ ''free'' @
     [CHR 0x00, CHR 0x00, CHR 0x00, CHR 0x00, CHR 0x00, CHR 0x00, CHR 0x00, CHR 0x20] @
     [CHR 0x00, CHR 0x00, CHR 0x00, CHR 0x01] @ ''junk'' @
     [CHR 0xFF, CHR 0xFF, CHR 0xFF, CHR 0xFF, CHR 0xFF, CHR 0xFF, CHR 0xFF, CHR 0xF0] @
     [CHR 0x00, CHR 0x00, CHR 0x00, CHR 0x00] @ ''jp2c'' @ [CHR 0xFF, CHR 0x4F, CHR 0xFF, CHR 0xD9]"

text \<open>
  A file of two boxes, the second of which has the extended length \<open>2 ^ 64 - 16\<close> and starts at
  offset 16: the position after it is 0 again.
\<close>

definition looping_file :: string where
  "looping_file =
     [CHR 0x00, CHR 0x00, CHR 0x00, CHR 0x10] @ ''free12345678'' @ [CHR 0x00, CHR 0x00, CHR 0x00, CHR 0x01] @ ''free'' @
     [CHR 0xFF, CHR 0xFF, CHR 0xFF, CHR 0xFF, CHR 0xFF, CHR 0xFF, CHR 0xFF, CHR 0xF0]"

lemma be_add: "be b i (j + k) = be b i j * 256 ^ k + be b (i + j) k"
  by (induction k) (simp_all add: algebra_simps)

lemma be_1: "be b i 1 = byte b i"
  by simp

lemma be_2: "be b i 2 = 256 * byte b i + byte b (i + 1)"
  using be_add[of b i 1 1] by (simp add: numeral_2_eq_2)

lemma be_4: "be b i 4 = 65536 * be b i 2 + be b (i + 2) 2"
  using be_add[of b i 2 2] by simp

lemma be_8: "be b i 8 = 4294967296 * be b i 4 + be b (i + 4) 4"
  using be_add[of b i 4 4] by simp

lemma boxed_boxes:
  "be boxed_file 0 4 = 1" "be boxed_file 8 8 = 32" "length boxed_file = 44"
  "substr boxed_file 36 4 = ''jp2c''"
  unfolding be_8 be_4 be_2 by (simp_all add: boxed_file_def byte_def substr_def)

lemma boxed_walk: "box_at boxed_file q \<Longrightarrow> q = 0 \<or> q = 32"
  by (induction rule: box_at.induct) (auto simp: len_at_def has_ext_def boxed_boxes)

theorem withoutTlm_returns_witness: "\<exists>out. withoutTlm boxed_file = Some out"
proof (rule withoutTlm_returns)
  show "lengths_small boxed_file"
    unfolding lengths_small_def by (auto simp: has_ext_def boxed_boxes dest!: boxed_walk)
qed (simp add: boxed_boxes)

lemma looping_boxes:
  "be looping_file 0 4 = 16" "be looping_file 16 4 = 1" "be looping_file 24 8 = 2 ^ 64 - 16"
  "substr looping_file 4 4 = ''free''" "substr looping_file 20 4 = ''free''" "length looping_file = 32"
  unfolding be_8 be_4 be_2 by (simp_all add: looping_file_def byte_def substr_def)

lemma looping_steps:
  "box_len looping_file 0 = 16" "box_len looping_file 16 = - 16" "box_hdr looping_file 0 = 8" "box_hdr looping_file 16 = 16"
  by (simp_all add: box_len_def box_hdr_def ext_box_def looping_boxes)

lemma find_box_avoids_loop:
  assumes "find_box b p = Some y"
  shows "\<not> (b = looping_file \<and> (p = 0 \<or> p = 16))"
proof (rule find_box.raw_induct[OF _ assms])
  fix f :: "string \<Rightarrow> 64 word \<Rightarrow> found option" and b :: string and p :: "64 word" and y
  assume IH: "\<And>b p y. f b p = Some y \<Longrightarrow> \<not> (b = looping_file \<and> (p = 0 \<or> p = 16))"
    and step: "(if p + 8 \<le> word_of_nat (length b) then
        if substr b (unat p + 4) 4 = ''jp2c'' then
          Some (Some (p + box_hdr b p,
            if box_len b p \<noteq> 0 then Some (if ext_box b p then p + 8 else p, ext_box b p) else None))
        else if box_len b p = 0 \<or> box_len b p < box_hdr b p \<or> p + box_len b p > word_of_nat (length b) then Some None
        else f b (p + box_len b p)
      else Some None) = Some y"
  have "f looping_file 16 = Some y \<or> f looping_file 0 = Some y" if "b = looping_file \<and> (p = 0 \<or> p = 16)"
    using that step by (auto simp: looping_boxes looping_steps)
  with IH show "\<not> (b = looping_file \<and> (p = 0 \<or> p = 16))" by blast
qed

text \<open>
  C20. The walk over the boxes does not check an extended length for wrap-around: on the file of
  32 bytes above it goes from the second box back to the first and never ends.
\<close>

theorem withoutTlm_can_loop: "withoutTlm looping_file = None"
proof -
  have "find_box looping_file 0 = None" using find_box_avoids_loop by (cases "find_box looping_file 0") auto
  moreover have "\<not> is_soc looping_file 0" by (simp add: is_soc_def byte_def looping_file_def)
  ultimately show ?thesis by (simp add: withoutTlm_def find_codestream_def)
qed

section \<open>Removing exactly the TLM segments\<close>

text \<open>A marker segment as it is written: the marker, the length and the payload.\<close>

definition seg_bytes :: "nat \<times> string \<Rightarrow> string" where
  "seg_bytes s = CHR 0xFF # chr (fst s) # be_bytes 2 (length (snd s) + 2) @ snd s"

definition seg_ok :: "nat \<times> string \<Rightarrow> bool" where
  "seg_ok s \<longleftrightarrow> fst s < 256 \<and> fst s \<notin> {0x90, 0x93, 0xD9} \<and> length (snd s) + 2 < 65536"

definition is_tlm :: "nat \<times> string \<Rightarrow> bool" where
  "is_tlm s \<longleftrightarrow> fst s = 0x55"

definition tile_start :: "string \<Rightarrow> bool" where
  "tile_start t \<longleftrightarrow> length t \<ge> 4 \<and> byte t 0 = 0xFF \<and> byte t 1 \<in> {0x90, 0x93, 0xD9}"

lemma be_bytes_2: "be_bytes 2 v = [chr (v div 256 mod 256), chr (v mod 256)]"
  by (simp add: numeral_2_eq_2)

lemma two_bytes: "v < 65536 \<Longrightarrow> 256 * (v div 256 mod 256) + v mod 256 = (v :: nat)"
  by (simp add: less_mult_imp_div_less)

lemma seg_bytes_fields:
  assumes "seg_ok s"
  shows "byte (pre @ seg_bytes s @ t) (length pre) = 0xFF" "byte (pre @ seg_bytes s @ t) (length pre + 1) = fst s"
    "be (pre @ seg_bytes s @ t) (length pre + 2) 2 = length (snd s) + 2" "length (seg_bytes s) = length (snd s) + 4"
  using assms two_bytes[of "length (snd s) + 2"]
  by (simp_all add: byte_def seg_bytes_def be_2 be_bytes_2 nth_append seg_ok_def ord_chr)

lemma segments_step:
  assumes "seg_ok s"
  shows "segments (pre @ seg_bytes s @ t) (length pre) out removed =
    (if is_tlm s then segments ((pre @ seg_bytes s) @ t) (length (pre @ seg_bytes s)) out (removed + length (seg_bytes s))
     else segments ((pre @ seg_bytes s) @ t) (length (pre @ seg_bytes s)) (out @ seg_bytes s) removed)"
proof -
  note f = seg_bytes_fields(1-3)[OF assms, of pre t] seg_bytes_fields(4)[OF assms]
  have m: "fst s \<notin> {0x90, 0x93, 0xD9}" using assms by (simp add: seg_ok_def)
  have sub: "substr (pre @ seg_bytes s @ t) (length pre) (2 + (length (snd s) + 2)) = seg_bytes s"
    using f(4) by (simp add: substr_def)
  have e: "length pre + 2 + (length (snd s) + 2) = length (pre @ seg_bytes s)" using f(4) by simp
  have r: "removed + 2 + (length (snd s) + 2) = removed + length (seg_bytes s)" using f(4) by simp
  show ?thesis
    apply (subst segments.simps)
    unfolding f(1-3) sub e r Let_def using m f(4) by (simp add: is_tlm_def)
qed

lemma segments_written:
  assumes "list_all seg_ok ss" "tile_start t"
  shows "segments (pre @ concat (map seg_bytes ss) @ t) (length pre) out removed =
    Some (out @ concat (map seg_bytes (filter (\<lambda>s. \<not> is_tlm s) ss)), removed + length (concat (map seg_bytes (filter is_tlm ss))),
      length pre + length (concat (map seg_bytes ss)))"
  using assms(1)
proof (induction ss arbitrary: pre out removed)
  case Nil
  have "byte (pre @ t) (length pre) = byte t 0" "byte (pre @ t) (length pre + 1) = byte t 1"
    by (simp_all add: byte_def nth_append)
  then show ?case using assms(2) by (subst segments.simps) (auto simp: tile_start_def)
next
  case (Cons s ss)
  from Cons.IH[of "pre @ seg_bytes s"] Cons.prems segments_step[of s pre "concat (map seg_bytes ss) @ t" out removed]
  show ?case by (simp add: add.assoc)
qed

text \<open>
  C19. From a raw code stream exactly the TLM segments are removed: of the start marker, any
  marker segments and the tile data, the result is the start marker, the other segments in
  their order and the same tile data.
\<close>

theorem withoutTlm_removes_tlm:
  assumes "list_all seg_ok ss" "tile_start t"
  shows "withoutTlm ([CHR 0xFF, CHR 0x4F] @ concat (map seg_bytes ss) @ t) =
    Some ([CHR 0xFF, CHR 0x4F] @ concat (map seg_bytes (filter (\<lambda>s. \<not> is_tlm s) ss)) @ t)"
proof -
  let ?soc = "[CHR 0xFF, CHR 0x4F]" and ?b = "[CHR 0xFF, CHR 0x4F] @ concat (map seg_bytes ss) @ t"
  have s: "segments ?b 2 ?soc 0 =
     Some (?soc @ concat (map seg_bytes (filter (\<lambda>s. \<not> is_tlm s) ss)), length (concat (map seg_bytes (filter is_tlm ss))),
       2 + length (concat (map seg_bytes ss)))"
    using segments_written[OF assms, of ?soc ?soc 0] by (simp add: numeral_2_eq_2)
  have "is_soc ?b 0" by (simp add: is_soc_def byte_def)
  moreover have "4 \<le> length ?b" using assms(2) by (simp add: tile_start_def)
  moreover have "filter (\<lambda>s. \<not> is_tlm s) ss = ss" if "concat (map seg_bytes (filter is_tlm ss)) = []"
  proof -
    have "filter is_tlm ss = []" using that by (cases "filter is_tlm ss") (auto simp: seg_bytes_def)
    then show ?thesis by (simp add: filter_empty_conv filter_True)
  qed
  ultimately show ?thesis
    using s by (simp add: withoutTlm_def find_codestream_def Let_def numeral_2_eq_2)
qed

theorem withoutTlm_removes_tlm_witness:
  "withoutTlm ([CHR 0xFF, CHR 0x4F] @ concat (map seg_bytes [(0x51, ''size''), (0x55, ''lengths'')]) @
     [CHR 0xFF, CHR 0x90, CHR 0x00, CHR 0x0A]) =
   Some ([CHR 0xFF, CHR 0x4F] @ seg_bytes (0x51, ''size'') @ [CHR 0xFF, CHR 0x90, CHR 0x00, CHR 0x0A])"
  using withoutTlm_removes_tlm[of "[(0x51, ''size''), (0x55, ''lengths'')]" "[CHR 0xFF, CHR 0x90, CHR 0x00, CHR 0x0A]"]
  by (simp add: seg_ok_def tile_start_def byte_def is_tlm_def)

end
