(* ===== verification/Barcode.thy ===== *)
theory Barcode
  imports Prelude
begin

text \<open>
  Barcodes drawn without the ZXing library (\<^verbatim>\<open>barcode.cpp\<close>): Code 128 and EAN-13 as lists
  of dark and light modules. The optional ZXing encoder is a parameter that may decline. A
  reader for each symbology, written from the tables alone, reads the drawn codes back.
\<close>

section \<open>Code 128\<close>

record BarcodeMatrix =
  bm_width :: nat
  bm_height :: nat
  bm_linear :: bool
  bm_dark :: "bool list"
  bm_error :: string

definition BarcodeMatrix0 :: BarcodeMatrix where
  "BarcodeMatrix0 = \<lparr>bm_width = 0, bm_height = 0, bm_linear = False, bm_dark = [], bm_error = []\<rparr>"

text \<open>The widths of the bars and spaces of each symbol, and of the stop symbol with its final bar.\<close>

definition kCode128 :: "string list" where
  "kCode128 =
    [''212222'', ''222122'', ''222221'', ''121223'', ''121322'', ''131222'', ''122213'', ''122312'', ''132212'',
     ''221213'', ''221312'', ''231212'', ''112232'', ''122132'', ''122231'', ''113222'', ''123122'', ''123221'',
     ''223211'', ''221132'', ''221231'', ''213212'', ''223112'', ''312131'', ''311222'', ''321122'', ''321221'',
     ''312212'', ''322112'', ''322211'', ''212123'', ''212321'', ''232121'', ''111323'', ''131123'', ''131321'',
     ''112313'', ''132113'', ''132311'', ''211313'', ''231113'', ''231311'', ''112133'', ''112331'', ''132131'',
     ''113123'', ''113321'', ''133121'', ''313121'', ''211331'', ''231131'', ''213113'', ''213311'', ''213131'',
     ''311123'', ''311321'', ''331121'', ''312113'', ''312311'', ''332111'', ''314111'', ''221411'', ''431111'',
     ''111224'', ''111422'', ''121124'', ''121421'', ''141122'', ''141221'', ''112214'', ''112412'', ''122114'',
     ''122411'', ''142112'', ''142211'', ''241211'', ''221114'', ''413111'', ''241112'', ''134111'', ''111242'',
     ''121142'', ''121241'', ''114212'', ''124112'', ''124211'', ''411212'', ''421112'', ''421211'', ''212141'',
     ''214121'', ''412121'', ''111143'', ''111341'', ''131141'', ''114113'', ''114311'', ''411113'', ''411311'',
     ''113141'', ''114131'', ''311141'', ''411131'', ''211412'', ''211214'', ''211232'', ''2331112'']"

definition digit_of :: "char \<Rightarrow> nat" where
  "digit_of c = ord c - 48"

fun digit_pairs :: "string \<Rightarrow> nat list" where
  "digit_pairs (a # b # s) = (digit_of a * 10 + digit_of b) # digit_pairs s"
| "digit_pairs s = []"

definition allDigits :: "string \<Rightarrow> bool" where
  "allDigits data \<longleftrightarrow> length data \<ge> 2 \<and> even (length data) \<and> list_all is_digit data"

text \<open>The values of the text: a start value and set C for pairs of digits, set B otherwise.\<close>

definition code128_values :: "string \<Rightarrow> nat list option" where
  "code128_values data =
     (if allDigits data then Some (105 # digit_pairs data)
      else if list_all (\<lambda>c. 32 \<le> ord c \<and> ord c \<le> 127) data then Some (104 # map (\<lambda>c. ord c - 32) data)
      else None)"

fun weighted :: "nat \<Rightarrow> nat list \<Rightarrow> nat" where
  "weighted i [] = 0"
| "weighted i (v # vs) = v * i + weighted (i + 1) vs"

text \<open>The sum is an \<^verbatim>\<open>int\<close>; a sum that does not fit overflows, which C++ leaves undefined.\<close>

definition check_sum :: "nat list \<Rightarrow> nat" where
  "check_sum vals = hd vals + weighted 1 (tl vals)"

definition check_value :: "nat list \<Rightarrow> nat" where
  "check_value vals = check_sum vals mod 103"

fun modules :: "bool \<Rightarrow> string \<Rightarrow> bool list" where
  "modules bar [] = []"
| "modules bar (c # s) = replicate (digit_of c) bar @ modules (\<not> bar) s"

fun symbols :: "bool \<Rightarrow> nat list \<Rightarrow> bool list" where
  "symbols bar [] = []"
| "symbols bar (v # vs) =
     modules bar (kCode128 ! v) @ symbols (if even (length (kCode128 ! v)) then bar else \<not> bar) vs"

definition linear_matrix :: "bool list \<Rightarrow> BarcodeMatrix" where
  "linear_matrix dark = BarcodeMatrix0\<lparr>bm_dark := dark, bm_width := length dark, bm_height := 1, bm_linear := True\<rparr>"

definition code128 :: "string \<Rightarrow> BarcodeMatrix option" where
  "code128 data =
     (case code128_values data of
        None \<Rightarrow> Some (BarcodeMatrix0\<lparr>bm_error := ''Code 128 set B cannot encode this text''\<rparr>)
      | Some vals \<Rightarrow>
          if check_sum vals \<ge> 2 ^ 31 then None
          else Some (linear_matrix (symbols True (vals @ [check_value vals, 106]))))"

section \<open>EAN-13\<close>

definition ean_L :: "string list" where
  "ean_L =
    [''0001101'', ''0011001'', ''0010011'', ''0111101'', ''0100011'',
     ''0110001'', ''0101111'', ''0111011'', ''0110111'', ''0001011'']"

definition parity :: "string list" where
  "parity =
    [''LLLLLL'', ''LLGLGG'', ''LLGGLG'', ''LLGGGL'', ''LGLLGG'',
     ''LGGLLG'', ''LGGGLL'', ''LGLGLG'', ''LGLGGL'', ''LGGLGL'']"

definition inverted :: "string \<Rightarrow> string" where
  "inverted s = map (\<lambda>c. if c = CHR ''0'' then CHR ''1'' else CHR ''0'') s"

definition ean_G :: "string \<Rightarrow> string" where
  "ean_G l = rev (inverted l)"

fun ean_sum :: "nat \<Rightarrow> string \<Rightarrow> nat" where
  "ean_sum i [] = 0"
| "ean_sum i (c # s) = digit_of c * (if odd i then 3 else 1) + ean_sum (i + 1) s"

definition with_check :: "string \<Rightarrow> string" where
  "with_check d =
     (if length d = 12 \<and> list_all is_digit d then d @ [chr (48 + (10 - ean_sum 0 d mod 10) mod 10)] else d)"

definition left_digit :: "char \<Rightarrow> char \<Rightarrow> string" where
  "left_digit p c = (let l = ean_L ! digit_of c in if p = CHR ''G'' then ean_G l else l)"

definition ean_bits :: "string \<Rightarrow> string" where
  "ean_bits d =
     ''101'' @ concat (map2 left_digit (parity ! digit_of (d ! 0)) (substr d 1 6)) @ ''01010'' @
     concat (map (\<lambda>c. inverted (ean_L ! digit_of c)) (substr d 7 6)) @ ''101''"

definition ean13 :: "string \<Rightarrow> BarcodeMatrix" where
  "ean13 d0 =
     (let d = with_check d0
      in if length d \<noteq> 13 \<or> \<not> list_all is_digit d then BarcodeMatrix0\<lparr>bm_error := ''EAN-13 needs 12 or 13 digits''\<rparr>
         else linear_matrix (map (\<lambda>c. c = CHR ''1'') (ean_bits d)))"

section \<open>Choosing a barcode\<close>

definition lowerNoPunct :: "string \<Rightarrow> string" where
  "lowerNoPunct s = map to_lower (filter is_alnum s)"

text \<open>\<open>zx\<close> is the answer of the ZXing library, \<open>None\<close> in a build without it or when it declines.\<close>

definition makeBarcode :: "(string \<Rightarrow> string \<Rightarrow> BarcodeMatrix option) \<Rightarrow> string \<Rightarrow> string \<Rightarrow> BarcodeMatrix option" where
  "makeBarcode zx ty data =
     (case zx ty data of
        Some m \<Rightarrow> Some m
      | None \<Rightarrow>
          let t = lowerNoPunct ty
          in if contains t ''ean'' then Some (ean13 data)
             else if t = [] \<or> contains t ''128'' then code128 data
             else Some (BarcodeMatrix0\<lparr>bm_error := ''barcode type '' @ CHR 0x22 # ty @ CHR 0x22 # '' needs a build with barcode support''\<rparr>))"

section \<open>Reading Code 128\<close>

text \<open>
  A reader from the table of widths: symbols of eleven modules, an even number of them dark, up to
  the stop pattern, the last of them the check value, and the text of the values before it. The
  check value is the one of the standard: the start value and each further value times its
  position, summed, modulo 103.
\<close>

definition pattern :: "nat \<Rightarrow> bool list" where
  "pattern v = modules True (kCode128 ! v)"

function read_symbols :: "bool list \<Rightarrow> nat list option" where
  "read_symbols bs =
     (if bs = pattern 106 then Some []
      else if length bs < 11 then None
      else case find (\<lambda>v. pattern v = take 11 bs) [0..<106] of
        None \<Rightarrow> None | Some v \<Rightarrow> map_option ((#) v) (read_symbols (drop 11 bs)))"
  by pat_completeness auto
termination by (relation "measure length") auto

declare read_symbols.simps [simp del]

definition two_digits :: "nat \<Rightarrow> string" where
  "two_digits v = [chr (48 + v div 10), chr (48 + v mod 10)]"

definition text_of :: "nat list \<Rightarrow> string" where
  "text_of vals = (if hd vals = 105 then concat (map two_digits (tl vals)) else map (\<lambda>v. chr (v + 32)) (tl vals))"

definition standard_check :: "nat list \<Rightarrow> nat" where
  "standard_check vs = (vs ! 0 + (\<Sum>i = 1..<length vs. i * vs ! i)) mod 103"

definition self_checking :: "bool list \<Rightarrow> bool" where
  "self_checking bs \<longleftrightarrow> length bs = 11 \<and> even (length (filter (\<lambda>b. b) bs)) \<and> hd bs \<and> \<not> last bs"

definition read_code128 :: "bool list \<Rightarrow> string option" where
  "read_code128 bs =
     (case read_symbols bs of
        None \<Rightarrow> None
      | Some vs \<Rightarrow>
          if length vs \<ge> 2 \<and> list_all (\<lambda>v. self_checking (pattern v)) vs \<and> last vs = standard_check (butlast vs)
          then Some (text_of (butlast vs)) else None)"

lemma patterns_ok: "list_all (\<lambda>v. length (pattern v) = 11) [0..<106]" "length (pattern 106) = 13"
  "list_all (\<lambda>v. even (length (kCode128 ! v))) [0..<106]"
  by code_simp+

lemma patterns_self_checking: "list_all (\<lambda>v. self_checking (pattern v)) [0..<106]"
  by code_simp

lemma weighted_sum: "weighted i vs = (\<Sum>j < length vs. (i + j) * vs ! j)"
proof (induction i vs rule: weighted.induct)
  case (2 i v vs)
  then show ?case by (simp add: sum.lessThan_Suc_shift del: sum.lessThan_Suc)
qed simp

text \<open>The loop of the encoder computes the check value of the standard.\<close>

lemma check_value_standard: "vs \<noteq> [] \<Longrightarrow> check_value vs = standard_check vs"
proof (cases vs)
  case (Cons v ws)
  have "(\<Sum>i = 1..<length vs. i * vs ! i) = (\<Sum>j < length ws. (1 + j) * ws ! j)"
    using sum.shift_bounds_Suc_ivl[of "\<lambda>i. i * vs ! i" 0 "length ws"] by (simp add: Cons lessThan_atLeast0)
  then show ?thesis by (simp add: check_value_def standard_check_def check_sum_def weighted_sum Cons)
qed simp

lemma patterns_distinct: "distinct (map pattern [0..<106])"
  by code_simp

lemma pattern_length: "v < 106 \<Longrightarrow> length (pattern v) = 11"
  using patterns_ok(1) by (simp add: list_all_iff)

lemma find_pattern: "v < 106 \<Longrightarrow> find (\<lambda>w. pattern w = pattern v) [0..<106] = Some v"
proof -
  assume v: "v < 106"
  have "pattern w \<noteq> pattern v" if "w < v" for w
    using patterns_distinct v that inj_onD[of pattern "{0..<106}" w v] by (auto simp: distinct_map)
  then show ?thesis using v by (auto simp: find_Some_iff intro!: exI[of _ v])
qed

lemma symbols_even: "list_all (\<lambda>v. v < 106) vs \<Longrightarrow> symbols True (vs @ ws) = concat (map pattern vs) @ symbols True ws"
  using patterns_ok(3) by (induction vs) (auto simp: pattern_def list_all_iff)

lemma read_symbols_written: "list_all (\<lambda>v. v < 106) vs \<Longrightarrow> read_symbols (concat (map pattern vs) @ pattern 106) = Some vs"
proof (induction vs)
  case Nil
  show ?case by (subst read_symbols.simps) simp
next
  case (Cons v vs)
  then have v: "v < 106" by simp
  let ?bs = "concat (map pattern (v # vs)) @ pattern 106"
  have "length ?bs = 11 + length (concat (map pattern vs)) + 13" using pattern_length[OF v] patterns_ok(2) by simp
  then have "?bs \<noteq> pattern 106" "\<not> length ?bs < 11" using patterns_ok(2) by (auto dest: arg_cong[where f = length])
  moreover have "take 11 ?bs = pattern v" "drop 11 ?bs = concat (map pattern vs) @ pattern 106"
    using pattern_length[OF v] by simp_all
  ultimately show ?case using Cons find_pattern[OF v] by (subst read_symbols.simps) simp
qed

lemma digit_pairs_read:
  "even (length s) \<Longrightarrow> list_all is_digit s \<Longrightarrow>
     concat (map two_digits (digit_pairs s)) = s \<and> list_all (\<lambda>v. v < 100) (digit_pairs s) \<and> 2 * length (digit_pairs s) = length s"
proof (induction s rule: digit_pairs.induct)
  case (1 a b s)
  have d: "48 \<le> ord a" "ord a < 58" "48 \<le> ord b" "ord b < 58" using "1.prems"(2) by (auto simp: is_digit_def)
  define x y where "x = ord a - 48" and "y = ord b - 48"
  have xy: "x < 10" "y < 10" "chr (48 + x) = a" "chr (48 + y) = b" using d by (auto simp: x_def y_def)
  have "two_digits (x * 10 + y) = [a, b]" using xy by (simp add: two_digits_def)
  with 1 xy show ?case by (simp add: digit_of_def x_def[symmetric] y_def[symmetric])
qed auto

lemma weighted_bound: "list_all (\<lambda>v. v \<le> 99) vs \<Longrightarrow> 2 * weighted i vs \<le> 99 * length vs * (2 * i + length vs)"
proof (induction i vs rule: weighted.induct)
  case (2 i v vs)
  have "2 * weighted i (v # vs) = i * (v * 2) + 2 * weighted (i + 1) vs" by simp
  also have "\<dots> \<le> i * 198 + 99 * length vs * (2 * (i + 1) + length vs)"
    using 2 by (intro add_mono mult_le_mono2) auto
  also have "\<dots> \<le> 99 * length (v # vs) * (2 * i + length (v # vs))" by (simp add: algebra_simps)
  finally show ?case .
qed simp

lemma code128_values_ok:
  assumes "list_all (\<lambda>c. 32 \<le> ord c \<and> ord c \<le> 127) data"
  obtains vals where "code128_values data = Some vals" "text_of vals = data" "list_all (\<lambda>v. v < 106) vals" "vals \<noteq> []"
    "length data \<le> 6000 \<longrightarrow> check_sum vals < 2 ^ 31"
proof -
  have small: "105 + weighted 1 vs < 2 ^ 31" if "list_all (\<lambda>v. v \<le> 99) vs" "length vs \<le> 6000" for vs
  proof -
    have "99 * length vs * (2 * 1 + length vs) \<le> 99 * 6000 * (2 * 1 + 6000)" using that(2) by (intro mult_le_mono) auto
    with weighted_bound[OF that(1), of 1] show ?thesis by simp
  qed
  show thesis
  proof (cases "allDigits data")
    case True
    then have p: "concat (map two_digits (digit_pairs data)) = data" "list_all (\<lambda>v. v < 100) (digit_pairs data)"
      "2 * length (digit_pairs data) = length data"
      using digit_pairs_read[of data] by (auto simp: allDigits_def)
    have "list_all (\<lambda>v. v \<le> 99) (digit_pairs data)" "list_all (\<lambda>v. v < 106) (digit_pairs data)"
      using p(2) by (auto simp: list_all_iff)
    with p small[of "digit_pairs data"] True that[of "105 # digit_pairs data"] show thesis
      by (simp add: code128_values_def text_of_def check_sum_def)
  next
    case False
    let ?vs = "map (\<lambda>c. ord c - 32) data"
    have "list_all (\<lambda>v. v \<le> 99) ?vs" "list_all (\<lambda>v. v < 106) ?vs" using assms(1) by (auto simp: list_all_iff)
    moreover have "map (\<lambda>v. chr (v + 32)) ?vs = data" using assms(1) by (auto simp: list_all_iff intro!: map_idI)
    ultimately show thesis
      using small[of ?vs] False assms
      by (intro that[of "104 # ?vs"]) (auto simp: code128_values_def text_of_def check_sum_def)
  qed
qed

text \<open>
  C21. A Code 128 barcode reads back as its text, over the symbol table of \<^verbatim>\<open>barcode.cpp\<close>: for
  every text of printable characters whose check sum fits an \<^verbatim>\<open>int\<close>, in particular for every
  text of up to 6000 of them, the encoder draws a code without an error, and the drawn modules are
  self-checking symbols of the table, the last before the stop pattern with the check value of the
  standard, from which the reader has the text again.
\<close>

theorem code128_reads_back:
  assumes "list_all (\<lambda>c. 32 \<le> ord c \<and> ord c \<le> 127) data"
  shows "(length data \<le> 6000 \<longrightarrow> code128 data \<noteq> None) \<and>
    (\<forall>m. code128 data = Some m \<longrightarrow> bm_error m = [] \<and> read_code128 (bm_dark m) = Some data)"
proof -
  obtain vals where v: "code128_values data = Some vals" "text_of vals = data" "list_all (\<lambda>v. v < 106) vals" "vals \<noteq> []"
    "length data \<le> 6000 \<longrightarrow> check_sum vals < 2 ^ 31" by (rule code128_values_ok[OF assms])
  have "check_value vals < 106" using mod_less_divisor[of 103 "check_sum vals"] by (simp add: check_value_def)
  then have l: "list_all (\<lambda>v. v < 106) (vals @ [check_value vals])" using v(3) by simp
  have "list_all (\<lambda>v. self_checking (pattern v)) (vals @ [check_value vals])"
    using l patterns_self_checking by (auto simp: list_all_iff)
  moreover have "symbols True ((vals @ [check_value vals]) @ [106]) = concat (map pattern (vals @ [check_value vals])) @ pattern 106"
    unfolding symbols_even[OF l] by (simp add: pattern_def)
  then have "read_symbols (symbols True (vals @ [check_value vals, 106])) = Some (vals @ [check_value vals])"
    using read_symbols_written[OF l] by simp
  moreover have "length (vals @ [check_value vals]) \<ge> 2" using v(4) by (cases vals) auto
  ultimately have "read_code128 (symbols True (vals @ [check_value vals, 106])) = Some data"
    using v(2,4) check_value_standard by (simp add: read_code128_def)
  with v show ?thesis by (auto simp: code128_def linear_matrix_def BarcodeMatrix0_def)
qed

theorem code128_reads_back_witness:
  "\<exists>m. code128 ''KURA-2024'' = Some m \<and> bm_error m = [] \<and> read_code128 (bm_dark m) = Some ''KURA-2024''"
  using code128_reads_back[of "''KURA-2024''"] by auto

section \<open>Reading EAN-13\<close>

text \<open>
  A reader from the tables of the symbology: the guards, six left digits whose parities give the
  first digit, and six right digits.
\<close>

definition to_bits :: "string \<Rightarrow> bool list" where
  "to_bits s = map (\<lambda>c. c = CHR ''1'') s"

definition all_digits :: string where
  "all_digits = ''0123456789''"

definition read_left :: "bool list \<Rightarrow> (char \<times> char) option" where
  "read_left bs = find (\<lambda>(p, c). to_bits (left_digit p c) = bs) (List.product ''LG'' all_digits)"

definition read_right :: "bool list \<Rightarrow> char option" where
  "read_right bs = find (\<lambda>c. to_bits (inverted (ean_L ! digit_of c)) = bs) all_digits"

definition read_first :: "string \<Rightarrow> char option" where
  "read_first ps = find (\<lambda>c. parity ! digit_of c = ps) all_digits"

fun sevens :: "nat \<Rightarrow> bool list \<Rightarrow> bool list list" where
  "sevens 0 bs = []"
| "sevens (Suc n) bs = take 7 bs # sevens n (drop 7 bs)"

definition read_ean13 :: "bool list \<Rightarrow> string option" where
  "read_ean13 bs =
     (let l = map read_left (sevens 6 (drop 3 bs)); r = map read_right (sevens 6 (drop 50 bs))
      in if length bs \<noteq> 95 \<or> take 3 bs \<noteq> to_bits ''101'' \<or> take 5 (drop 45 bs) \<noteq> to_bits ''01010'' \<or> drop 92 bs \<noteq> to_bits ''101''
            \<or> None \<in> set l \<or> None \<in> set r then None
         else map_option (\<lambda>c. c # map (snd \<circ> the) l @ map the r) (read_first (map (fst \<circ> the) l)))"

lemma ean_tables:
  "list_all (\<lambda>(p, c). read_left (to_bits (left_digit p c)) = Some (p, c) \<and> length (left_digit p c) = 7) (List.product ''LG'' all_digits)"
  "list_all (\<lambda>c. read_right (to_bits (inverted (ean_L ! digit_of c))) = Some c \<and> length (inverted (ean_L ! digit_of c)) = 7) all_digits"
  "list_all (\<lambda>c. read_first (parity ! digit_of c) = Some c \<and> length (parity ! digit_of c) = 6 \<and> set (parity ! digit_of c) \<subseteq> set ''LG'') all_digits"
  by code_simp+

lemma digit_in_all: "is_digit c \<Longrightarrow> c \<in> set all_digits"
proof -
  assume "is_digit c"
  then have k: "ord c - 48 < 10" "chr (48 + (ord c - 48)) = c" by (auto simp: is_digit_def)
  have "list_all (\<lambda>k. chr (48 + k) \<in> set all_digits) [0..<10]" by code_simp
  then have "chr (48 + (ord c - 48)) \<in> set all_digits" using k(1) unfolding list_all_iff by fastforce
  then show ?thesis unfolding k(2) .
qed

lemma sevens_concat: "list_all (\<lambda>s. length s = 7) ss \<Longrightarrow> sevens (length ss) (concat ss @ t) = ss"
  by (induction ss) auto

lemma length_concat_7: "list_all (\<lambda>s. length s = 7) ss \<Longrightarrow> length (concat ss) = 7 * length ss"
  by (induction ss) auto

lemma to_bits_concat: "to_bits (concat ss) = concat (map to_bits ss)"
  by (induction ss) (auto simp: to_bits_def)

lemma to_bits_append: "to_bits (s @ t) = to_bits s @ to_bits t"
  by (simp add: to_bits_def)

lemma left_digit_read:
  assumes "p \<in> set ''LG''" "is_digit c"
  shows "read_left (to_bits (left_digit p c)) = Some (p, c) \<and> length (left_digit p c) = 7"
proof -
  have "(p, c) \<in> set (List.product ''LG'' all_digits)"
    using assms digit_in_all[OF assms(2)] by auto
  with ean_tables(1) show ?thesis unfolding list_all_iff by fast
qed

lemma right_digit_read:
  "is_digit c \<Longrightarrow> read_right (to_bits (inverted (ean_L ! digit_of c))) = Some c \<and> length (inverted (ean_L ! digit_of c)) = 7"
  using ean_tables(2) digit_in_all unfolding list_all_iff by blast

lemma parity_read:
  "is_digit c \<Longrightarrow> read_first (parity ! digit_of c) = Some c \<and> length (parity ! digit_of c) = 6 \<and> set (parity ! digit_of c) \<subseteq> set ''LG''"
  using ean_tables(3) digit_in_all unfolding list_all_iff by blast

lemma left_half:
  assumes "length ps = 6" "length a = 6" "set ps \<subseteq> set ''LG''" "list_all is_digit a"
  shows "list_all (\<lambda>s. length s = 7) (map to_bits (map2 left_digit ps a))"
    "map read_left (map to_bits (map2 left_digit ps a)) = map Some (zip ps a)"
proof -
  have "p \<in> set ''LG'' \<and> is_digit c" if "(p, c) \<in> set (zip ps a)" for p c
    using that assms(3,4) set_zip_leftD[OF that] set_zip_rightD[OF that] by (auto simp: list_all_iff)
  then show "list_all (\<lambda>s. length s = 7) (map to_bits (map2 left_digit ps a))"
    "map read_left (map to_bits (map2 left_digit ps a)) = map Some (zip ps a)"
    using left_digit_read by (fastforce simp: list_all_iff to_bits_def)+
qed

lemma right_half:
  assumes "list_all is_digit b"
  shows "list_all (\<lambda>s. length s = 7) (map to_bits (map (\<lambda>c. inverted (ean_L ! digit_of c)) b))"
    "map read_right (map to_bits (map (\<lambda>c. inverted (ean_L ! digit_of c)) b)) = map Some b"
  using assms right_digit_read by (auto simp: list_all_iff to_bits_def)

lemma read_ean13_halves:
  assumes l: "length L = 6" "list_all (\<lambda>s. length s = 7) L" and r: "length R = 6" "list_all (\<lambda>s. length s = 7) R"
    and bs: "bs = to_bits ''101'' @ concat L @ to_bits ''01010'' @ concat R @ to_bits ''101''"
    and read: "map read_left L = map Some pcs" "map read_right R = map Some b"
  shows "read_ean13 bs = map_option (\<lambda>c. c # map snd pcs @ b) (read_first (map fst pcs)) \<and> length bs = 95"
proof -
  have len: "length (concat L) = 42" "length (concat R) = 42" "length (to_bits s) = length s" for s
    using length_concat_7[OF l(2)] length_concat_7[OF r(2)] l(1) r(1) by (simp_all add: to_bits_def)
  have d: "take 3 bs = to_bits ''101''" "drop 3 bs = concat L @ to_bits ''01010'' @ concat R @ to_bits ''101''"
    "take 5 (drop 45 bs) = to_bits ''01010''" "drop 50 bs = concat R @ to_bits ''101''" "drop 92 bs = to_bits ''101''" "length bs = 95"
    unfolding bs by (simp_all add: len)
  have s: "sevens 6 (drop 3 bs) = L" "sevens 6 (drop 50 bs) = R"
    unfolding d(2,4) using sevens_concat[OF l(2)] sevens_concat[OF r(2)] l(1) r(1) by simp_all
  have "None \<notin> set (map Some xs)" for xs :: "'a list" by auto
  then show ?thesis
    unfolding read_ean13_def Let_def s read d(1,3,5,6) by (simp add: comp_def image_iff)
qed

lemma read_ean_bits:
  assumes "length d = 13" "list_all is_digit d"
  shows "read_ean13 (to_bits (ean_bits d)) = Some d \<and> length (ean_bits d) = 95"
proof -
  obtain c e where d: "d = c # e" "length e = 12" using assms(1) by (cases d) auto
  define a b where "a = take 6 e" and "b = drop 6 e"
  have ab: "e = a @ b" "length a = 6" "length b = 6" using d(2) by (simp_all add: a_def b_def)
  have dig: "is_digit c" "list_all is_digit a" "list_all is_digit b" using assms(2) by (simp_all add: d ab)
  note p = parity_read[OF dig(1)]
  let ?ps = "parity ! digit_of c"
  have l: "length (map to_bits (map2 left_digit ?ps a)) = 6" using p ab by simp
  have r: "length (map to_bits (map (\<lambda>c. inverted (ean_L ! digit_of c)) b)) = 6" using ab by simp
  have bits: "to_bits (ean_bits d) = to_bits ''101'' @ concat (map to_bits (map2 left_digit ?ps a)) @ to_bits ''01010'' @
      concat (map to_bits (map (\<lambda>c. inverted (ean_L ! digit_of c)) b)) @ to_bits ''101''"
  proof -
    have "substr d 1 6 = a" "substr d 7 6 = b" "d ! 0 = c" using ab by (simp_all add: d substr_def)
    then show ?thesis unfolding ean_bits_def to_bits_append to_bits_concat by simp
  qed
  have "read_ean13 (to_bits (ean_bits d)) = map_option (\<lambda>f. f # map snd (zip ?ps a) @ b) (read_first (map fst (zip ?ps a))) \<and>
      length (to_bits (ean_bits d)) = 95"
    by (rule read_ean13_halves[OF l left_half(1) r right_half(1) bits left_half(2) right_half(2)]) (use p ab dig in auto)
  with p ab d show ?thesis by (simp add: to_bits_def)
qed

lemma ean_sum_append: "ean_sum i (s @ t) = ean_sum i s + ean_sum (i + length s) t"
  by (induction i s rule: ean_sum.induct) auto

lemma complement_10: "(n + (10 - n mod 10) mod 10) mod 10 = (0 :: nat)"
proof -
  define q r where "q = n div 10" and "r = n mod 10"
  have "n = 10 * q + r" "r < 10" by (simp_all add: q_def r_def)
  then have "n + (10 - r) = 10 * (q + 1)" by simp
  then have "n + (10 - n mod 10) = 10 * (q + 1)" by (simp only: r_def)
  then show ?thesis unfolding mod_add_right_eq by simp
qed

lemma check_digit:
  assumes "length d = 12" "list_all is_digit d"
  shows "length (with_check d) = 13 \<and> list_all is_digit (with_check d) \<and> ean_sum 0 (with_check d) mod 10 = 0"
proof -
  define c where "c = (10 - ean_sum 0 d mod 10) mod 10"
  have c: "c < 10" "(ean_sum 0 d + c) mod 10 = 0" by (simp_all add: c_def complement_10)
  have "with_check d = d @ [chr (48 + c)]" using assms by (simp add: with_check_def c_def)
  moreover have "ord (chr (48 + c)) = 48 + c" using c(1) by (simp add: ord_chr)
  ultimately show ?thesis
    using assms c by (simp add: ean_sum_append is_digit_def digit_of_def)
qed

text \<open>
  An EAN-13 barcode reads back as its number: for twelve digits the code has 95 modules, the
  reader of the symbology finds the twelve digits and a thirteenth, and the weighted sum of the
  thirteen is a multiple of ten.
\<close>

theorem ean13_reads_back:
  assumes "length d = 12" "list_all is_digit d"
  shows "bm_error (ean13 d) = [] \<and> bm_width (ean13 d) = 95 \<and>
    read_ean13 (bm_dark (ean13 d)) = Some (with_check d) \<and> take 12 (with_check d) = d \<and> ean_sum 0 (with_check d) mod 10 = 0"
proof -
  note c = check_digit[OF assms]
  have "ean13 d = linear_matrix (to_bits (ean_bits (with_check d)))"
    using c by (simp add: ean13_def Let_def to_bits_def)
  with c read_ean_bits[of "with_check d"] assms show ?thesis
    by (simp add: linear_matrix_def BarcodeMatrix0_def to_bits_def with_check_def)
qed

theorem ean13_reads_back_witness:
  "read_ean13 (bm_dark (ean13 ''400638133393'')) = Some ''4006381333931''"
proof -
  have "with_check ''400638133393'' = ''4006381333931''" by code_simp
  with ean13_reads_back[of "''400638133393''"] show ?thesis by (simp add: is_digit_def)
qed

end
