(* ===== verification/Limits.thy ===== *)
theory Limits
  imports Double Utf8 "HOL-Library.Word"
begin

unbundle bit_operations_syntax

text \<open>
  Implementation limits and content streams (\<^verbatim>\<open>limits.cpp\<close>): names, numbers and strings cut
  to the limits of the target, the LZW decoder, and the token filter that rewrites every
  content stream (\<^verbatim>\<open>ContentFixFilter\<close>), inline images included. Tokens come from the tokenizer
  of the PDF library; parsing, unparsing and compression are parameters.
\<close>

section \<open>Limits of scalars\<close>

definition kMaxReal :: double where "kMaxReal = of_int_d 32767"

text \<open>The literals \<^verbatim>\<open>3.402823e38\<close> and \<^verbatim>\<open>1.175494e-38\<close>.\<close>

definition kMaxReal2 :: double where "kMaxReal2 = of_int_d (3402823 * 10 ^ 32)"
definition kMinDenorm :: double where "kMinDenorm = lit_d 1175494 44"
definition kMaxInt :: int where "kMaxInt = 2147483647"
definition kMaxString1 :: nat where "kMaxString1 = 65535"
definition kMaxString23 :: nat where "kMaxString23 = 32767"
definition kMaxName :: nat where "kMaxName = 127"

definition realText :: "double \<Rightarrow> string" where
  "realText v = fmt_f 1 v"

definition hex_upper :: "nat \<Rightarrow> char" where
  "hex_upper d = (if d < 10 then chr (48 + d) else chr (55 + d))"

fun hex_digits_upper :: "nat \<Rightarrow> nat \<Rightarrow> string" where
  "hex_digits_upper 0 n = []"
| "hex_digits_upper (Suc k) n = hex_digits_upper k (n div 16) @ [hex_upper (n mod 16)]"

definition shortenName :: "string \<Rightarrow> string" where
  "shortenName n = take (kMaxName - 9) n @ CHR ''X'' # hex_digits_upper 8 (unat (fnv1a32 n))"

text \<open>\<^verbatim>\<open>strtoll\<close> in base 10 saturates.\<close>

definition strtoll :: "string \<Rightarrow> int" where
  "strtoll s = max (- (2 ^ 63)) (min (2 ^ 63 - 1) (atoi (cstr s)))"

section \<open>LZW\<close>

text \<open>The code table: 256 bytes, two codes that are not entries, and the entries added since.\<close>

definition lzw_table0 :: "string list" where
  "lzw_table0 = map (\<lambda>i. [chr i]) [0..<256] @ [[], []]"

definition bit_at :: "string \<Rightarrow> nat \<Rightarrow> nat" where
  "bit_at s p = ord (s ! (p div 8)) div 2 ^ (7 - p mod 8) mod 2"

fun read_bits :: "string \<Rightarrow> nat \<Rightarrow> nat \<Rightarrow> nat" where
  "read_bits s p 0 = 0"
| "read_bits s p (Suc n) = 2 * read_bits s p n + bit_at s (p + n)"

record lzw =
  lz_table :: "string list"
  lz_width :: nat
  lz_out :: string
  lz_prev :: string
  lz_pos :: nat

definition lzw_init :: lzw where
  "lzw_init = \<lparr>lz_table = lzw_table0, lz_width = 9, lz_out = [], lz_prev = [], lz_pos = 0\<rparr>"

definition lzw_entry :: "lzw \<Rightarrow> nat \<Rightarrow> string option" where
  "lzw_entry z code =
     (if code < length (lz_table z) \<and> code < 256 \<or> code \<ge> 258 \<and> code < length (lz_table z) then Some (lz_table z ! code)
      else if code = length (lz_table z) \<and> lz_prev z \<noteq> [] then Some (lz_prev z @ [hd (lz_prev z)])
      else None)"

definition lzw_add :: "string \<Rightarrow> lzw \<Rightarrow> lzw" where
  "lzw_add entry z =
     (let t = (if lz_prev z \<noteq> [] then lz_table z @ [lz_prev z @ [hd entry]] else lz_table z)
      in z\<lparr>lz_out := lz_out z @ entry, lz_table := t, lz_prev := entry,
           lz_width := (if length t \<ge> 2 ^ lz_width z - 1 \<and> lz_width z < 12 then lz_width z + 1 else lz_width z)\<rparr>)"

text \<open>
  The loop over the codes. Every round reads at least nine bits (the width is 9 to 12, never 0),
  so the number of bits bounds the rounds. The answer is the output and whether the data was in
  order.
\<close>

function lzw_loop :: "string \<Rightarrow> lzw \<Rightarrow> string \<times> bool" where
  "lzw_loop s z =
     (if lz_width z = 0 \<or> lz_pos z + lz_width z > length s * 8 then (lz_out z, True)
      else
        let code = read_bits s (lz_pos z) (lz_width z); z = z\<lparr>lz_pos := lz_pos z + lz_width z\<rparr>
        in if code = 256 then lzw_loop s (z\<lparr>lz_table := lzw_table0, lz_width := 9, lz_prev := []\<rparr>)
           else if code = 257 then (lz_out z, True)
           else case lzw_entry z code of
             None \<Rightarrow> (lz_out z, False)
           | Some entry \<Rightarrow>
               if length (lz_out z) + length entry > 100000000 then (lz_out z, False)
               else lzw_loop s (lzw_add entry z))"
  by pat_completeness auto
termination
  by (relation "measure (\<lambda>(s, z). length s * 8 - lz_pos z)") (auto simp: lzw_add_def Let_def)

declare lzw_loop.simps [simp del]

definition lzwDecode :: "string \<Rightarrow> string \<times> bool" where
  "lzwDecode s = lzw_loop s lzw_init"

section \<open>Inline images\<close>

definition is_pdf_ws :: "char \<Rightarrow> bool" where
  "is_pdf_ws c \<longleftrightarrow> ord c \<in> {32, 9, 13, 10, 12, 0}"

definition containsInlineTerminator :: "string \<Rightarrow> bool" where
  "containsInlineTerminator d \<longleftrightarrow>
     (\<exists>i \<in> {0..<length d - 1}. d ! i = CHR ''E'' \<and> d ! (i + 1) = CHR ''I'' \<and>
        (i = 0 \<or> is_pdf_ws (d ! (i - 1))) \<and> (i + 2 \<ge> length d \<or> is_pdf_ws (d ! (i + 2))))"

text \<open>The PDF library as the filter uses it; \<open>'v\<close> are object handles.\<close>

record 'v objlib =
  o_parse :: "string \<Rightarrow> 'v option"
  o_isDictionary :: "'v \<Rightarrow> bool"
  o_isName :: "'v \<Rightarrow> bool"
  o_getName :: "'v \<Rightarrow> string"
  o_isBool :: "'v \<Rightarrow> bool"
  o_getBool :: "'v \<Rightarrow> bool"
  o_isNull :: "'v \<Rightarrow> bool"
  o_isInteger :: "'v \<Rightarrow> bool"
  o_getInt :: "'v \<Rightarrow> int"
  o_isArray :: "'v \<Rightarrow> bool"
  o_items :: "'v \<Rightarrow> 'v list"
  o_getKey :: "'v \<Rightarrow> string \<Rightarrow> 'v"
  o_getKeys :: "'v \<Rightarrow> string list"
  o_replaceKey :: "'v \<Rightarrow> string \<Rightarrow> 'v \<Rightarrow> 'v"
  o_removeKey :: "'v \<Rightarrow> string \<Rightarrow> 'v"
  o_newName :: "string \<Rightarrow> 'v"
  o_newBool :: "bool \<Rightarrow> 'v"
  o_newArray :: "'v list \<Rightarrow> 'v"
  o_unparse :: "'v \<Rightarrow> string"
  o_utf8 :: "string \<Rightarrow> string"
  o_unparseString :: "string \<Rightarrow> string"
  o_unparseUnicode :: "string \<Rightarrow> string"
  o_flate :: "string \<Rightarrow> string"

definition kValidRi :: "string set" where
  "kValidRi = {''/RelativeColorimetric'', ''/AbsoluteColorimetric'', ''/Perceptual'', ''/Saturation''}"

definition kToAbbrev :: "(string \<times> string) list" where
  "kToAbbrev =
    [(''/AHx'', ''/AHx''), (''/ASCIIHexDecode'', ''/AHx''), (''/A85'', ''/A85''), (''/ASCII85Decode'', ''/A85''),
     (''/Fl'', ''/Fl''), (''/FlateDecode'', ''/Fl''), (''/RL'', ''/RL''), (''/RunLengthDecode'', ''/RL''),
     (''/CCF'', ''/CCF''), (''/CCITTFaxDecode'', ''/CCF''), (''/DCT'', ''/DCT''), (''/DCTDecode'', ''/DCT'')]"

text \<open>The rewritten intent and interpolation flags: the dictionary, whether it changed, violations.\<close>

definition fix_intent :: "'v objlib \<Rightarrow> 'v \<times> bool \<times> nat \<Rightarrow> 'v \<times> bool \<times> nat" where
  "fix_intent L st =
     (case st of (d, ch, n) \<Rightarrow>
        let v = o_getKey L d ''/Intent''
        in if o_isName L v \<and> o_getName L v \<notin> kValidRi
           then (o_replaceKey L d ''/Intent'' (o_newName L ''/RelativeColorimetric''), True, n + 1) else st)"

definition fix_interpolate :: "'v objlib \<Rightarrow> string \<Rightarrow> 'v \<times> bool \<times> nat \<Rightarrow> 'v \<times> bool \<times> nat" where
  "fix_interpolate L k st =
     (case st of (d, ch, n) \<Rightarrow>
        if o_isBool L (o_getKey L d k) \<and> o_getBool L (o_getKey L d k)
        then (o_replaceKey L d k (o_newBool L False), True, n + 1) else st)"

definition filter_names :: "'v objlib \<Rightarrow> 'v \<Rightarrow> string list" where
  "filter_names L d =
     (let f0 = o_getKey L d ''/F''; f = (if o_isNull L f0 then o_getKey L d ''/Filter'' else f0)
      in (if o_isName L f then [o_getName L f] else []) @
         (if o_isArray L f then map (\<lambda>x. if o_isName L x then o_getName L x else []) (o_items L f) else []))"

text \<open>The short names of the filters, whether one changed, whether one is LZW; \<open>None\<close> for an unknown filter.\<close>

fun abbreviate :: "string list \<Rightarrow> string list \<times> bool \<times> bool \<times> nat \<Rightarrow> (string list \<times> bool \<times> bool \<times> nat) option \<times> nat" where
  "abbreviate [] (ns, ch, lzw_seen, viol) = (Some (ns, ch, lzw_seen, viol), viol)"
| "abbreviate (n # names) (ns, ch, lzw_seen, viol) =
     (case map_of kToAbbrev n of
        Some a \<Rightarrow> abbreviate names (ns @ [a], ch \<or> a \<noteq> n, lzw_seen, viol)
      | None \<Rightarrow>
          if contains (map to_lower n) ''lzw'' then abbreviate names (ns @ [''/LZW?''], True, True, viol + 1)
          else (None, viol + 1))"

text \<open>The data of an LZW image decoded, and packed again when that is shorter or a predictor needs it.\<close>

definition repack :: "'v objlib \<Rightarrow> 'v \<Rightarrow> string \<Rightarrow> ('v \<times> string \<times> string list) option" where
  "repack L d data =
     (case lzwDecode data of (raw, good) \<Rightarrow>
        if \<not> good \<or> raw = [] then None
        else
          let dp0 = o_getKey L d ''/DP''; dp = (if o_isNull L dp0 then o_getKey L d ''/DecodeParms'' else dp0);
              predictor = (if o_isDictionary L dp \<and> o_isInteger L (o_getKey L dp ''/Predictor'')
                           then o_getInt L (o_getKey L dp ''/Predictor'') else 1);
              must = (predictor > 1);
              packed = o_flate L raw;
              d' = (if must then d else o_removeKey L (o_removeKey L d ''/DP'') ''/DecodeParms'')
          in if packed \<noteq> [] \<and> (must \<or> length packed < length raw) then Some (d', packed, [''/Fl''])
             else if \<not> must then Some (d', raw, [])
             else None)"

definition set_filter :: "'v objlib \<Rightarrow> 'v \<Rightarrow> string list \<Rightarrow> 'v" where
  "set_filter L d ns =
     (case ns of [] \<Rightarrow> d | [n] \<Rightarrow> o_replaceKey L d ''/F'' (o_newName L n)
      | _ \<Rightarrow> o_replaceKey L d ''/F'' (o_newArray L (map (o_newName L) ns)))"

definition hex_data :: "string \<Rightarrow> string" where
  "hex_data s = concat (map (\<lambda>c. [hex_upper (ord c div 16), hex_upper (ord c mod 16)]) s) @ ''>''"

definition nl :: string where "nl = [CHR 0x0A]"

definition write_image :: "'v objlib \<Rightarrow> 'v \<Rightarrow> string \<Rightarrow> string list \<Rightarrow> string" where
  "write_image L d0 data0 ns0 =
     (let d1 = set_filter L (o_removeKey L (o_removeKey L (o_removeKey L (o_removeKey L d0 ''/F'') ''/Filter'') ''/L'') ''/Length'') ns0;
          (d, data) =
            (if containsInlineTerminator data0
             then (set_filter L (o_removeKey L (o_removeKey L d1 ''/F'') ''/Filter'') (''/AHx'' # ns0), hex_data data0)
             else (d1, data0))
      in ''BI'' @ concat (map (\<lambda>k. '' '' @ k @ '' '' @ o_unparse L (o_getKey L d k)) (o_getKeys L d)) @
         '' ID'' @ nl @ data @ nl @ ''EI'' @ nl)"

text \<open>The text written for an inline image, violations counted, and whether the image was rewritten.\<close>

definition image_rest :: "'v objlib \<Rightarrow> string \<Rightarrow> string \<Rightarrow> 'v \<Rightarrow> bool \<Rightarrow> nat \<Rightarrow> string list \<times> bool \<times> bool \<Rightarrow> nat \<Rightarrow> string \<times> nat \<times> bool" where
  "image_rest L passthrough data d changed nnames res viol =
     (case res of (ns, filterChanged, lzw_seen) \<Rightarrow>
        if lzw_seen then
          (if nnames \<noteq> 1 then (passthrough, viol, False)
           else case repack L d data of
             None \<Rightarrow> (passthrough, viol, False)
           | Some (d', data', ns') \<Rightarrow> (write_image L d' data' ns', viol, True))
        else if filterChanged \<or> changed then (write_image L d data ns, viol, True)
        else (passthrough, viol, False))"

definition processInlineImage :: "'v objlib \<Rightarrow> string \<Rightarrow> string \<Rightarrow> string \<times> nat \<times> bool" where
  "processInlineImage L dictText data =
     (let passthrough = ''BI '' @ dictText @ '' ID'' @ nl @ data @ nl @ ''EI'' @ nl
      in case o_parse L (''<<'' @ dictText @ ''>>'') of
           None \<Rightarrow> (passthrough, 0, False)
         | Some d0 \<Rightarrow>
             if \<not> o_isDictionary L d0 then (passthrough, 0, False)
             else
               case fix_interpolate L ''/Interpolate'' (fix_interpolate L ''/I'' (fix_intent L (d0, False, 0))) of
                 (d, changed, viol) \<Rightarrow>
                   let names = filter_names L d
                   in case abbreviate names ([], False, False, viol) of
                        (None, viol) \<Rightarrow> (passthrough, viol, False)
                      | (Some (ns, filterChanged, lzw_seen, _), viol) \<Rightarrow>
                          image_rest L passthrough data d changed (length names) (ns, filterChanged, lzw_seen) viol)"

section \<open>The content filter\<close>

datatype token_type = TBad | TArrayClose | TArrayOpen | TBraceClose | TBraceOpen | TDictClose | TDictOpen
  | TInteger | TName | TReal | TString | TNull | TBool | TWord | TEof | TSpace | TComment | TInlineImage

record token =
  t_type :: token_type
  t_value :: string
  t_raw :: string

text \<open>
  A token made by the filter; the library derives its raw text from the value, and the filter
  does not look at it again.
\<close>

definition mk_token :: "token_type \<Rightarrow> string \<Rightarrow> token" where
  "mk_token ty s = \<lparr>t_type = ty, t_value = s, t_raw = s\<rparr>"

text \<open>What the filter writes: tokens, and text of its own.\<close>

datatype emit = ETok token | EText string

record fopts =
  fo_pdf14 :: bool
  fo_limits23 :: bool
  fo_scrub :: bool

definition fo_limits :: "fopts \<Rightarrow> bool" where
  "fo_limits F \<longleftrightarrow> fo_pdf14 F \<or> fo_limits23 F"

definition fo_maxStr :: "fopts \<Rightarrow> nat" where
  "fo_maxStr F = (if fo_pdf14 F then kMaxString1 else kMaxString23)"

record fstate =
  f_out :: "emit list"
  f_inImageDict :: bool
  f_swallowEI :: bool
  f_held :: "token option"
  f_trail :: "token list"
  f_iiText :: string
  f_qDepth :: nat
  f_qSuppressed :: nat
  f_arrDepth :: nat
  f_dictDepth :: nat
  f_nameSinceOp :: bool
  f_lastName :: string
  f_usedNamed :: bool
  f_violations :: nat
  f_iiFixed :: nat
  f_puaFixed :: nat

definition fstate0 :: fstate where
  "fstate0 = \<lparr>f_out = [], f_inImageDict = False, f_swallowEI = False, f_held = None, f_trail = [], f_iiText = [],
     f_qDepth = 0, f_qSuppressed = 0, f_arrDepth = 0, f_dictDepth = 0, f_nameSinceOp = False, f_lastName = [],
     f_usedNamed = False, f_violations = 0, f_iiFixed = 0, f_puaFixed = 0\<rparr>"

definition put :: "emit \<Rightarrow> fstate \<Rightarrow> fstate" where
  "put e s = s\<lparr>f_out := f_out s @ [e]\<rparr>"

definition violation :: "fstate \<Rightarrow> fstate" where
  "violation s = s\<lparr>f_violations := f_violations s + 1\<rparr>"

definition held_tokens :: "fstate \<Rightarrow> emit list" where
  "held_tokens s = (case f_held s of Some n \<Rightarrow> [ETok n] | None \<Rightarrow> []) @ map ETok (f_trail s)"

definition flushHeld :: "fstate \<Rightarrow> fstate" where
  "flushHeld s = s\<lparr>f_out := f_out s @ held_tokens s, f_held := None, f_trail := []\<rparr>"

definition is_word :: "token \<Rightarrow> string \<Rightarrow> bool" where
  "is_word t w \<longleftrightarrow> t_type t = TWord \<and> t_value t = w"

definition kValidOps :: "string set" where
  "kValidOps =
    {''w'', ''J'', ''j'', ''M'', ''d'', ''ri'', ''i'', ''gs'', ''q'', ''Q'', ''cm'', ''m'', ''l'', ''c'', ''v'', ''y'',
     ''h'', ''re'', ''S'', ''s'', ''f'', ''F'', ''f*'', ''B'', ''B*'', ''b'', ''b*'', ''n'', ''W'', ''W*'', ''BT'',
     ''ET'', ''Tc'', ''Tw'', ''Tz'', ''TL'', ''Tf'', ''Tr'', ''Ts'', ''Td'', ''TD'', ''Tm'', ''T*'', ''Tj'', ''TJ'',
     [CHR 0x27], [CHR 0x22], ''d0'', ''d1'', ''CS'', ''cs'', ''SC'', ''SCN'', ''sc'', ''scn'', ''G'', ''g'', ''RG'', ''rg'',
     ''K'', ''k'', ''sh'', ''BI'', ''ID'', ''EI'', ''Do'', ''MP'', ''DP'', ''BMC'', ''BDC'', ''EMC'', ''BX'', ''EX'',
     ''true'', ''false'', ''null''}"

text \<open>Inside the dictionary of an inline image.\<close>

definition image_token :: "'v objlib \<Rightarrow> token \<Rightarrow> fstate \<Rightarrow> fstate" where
  "image_token L t s =
     (if is_word t ''ID'' then s
      else if t_type t = TInlineImage then
        (case processInlineImage L (f_iiText s) (t_raw t) of (txt, viol, fixed) \<Rightarrow>
           (put (EText txt) s)\<lparr>f_iiText := [], f_violations := f_violations s + viol,
             f_iiFixed := f_iiFixed s + (if fixed then 1 else 0), f_inImageDict := False, f_swallowEI := True\<rparr>)
      else if is_word t ''EI'' then
        (put (EText (''BI '' @ f_iiText s @ '' EI'' @ nl)) s)\<lparr>f_iiText := [], f_inImageDict := False\<rparr>
      else s\<lparr>f_iiText := f_iiText s @ t_raw t\<rparr>)"

text \<open>Whether an operator used a name it must find in the resources.\<close>

definition note_name_use :: "token \<Rightarrow> fstate \<Rightarrow> fstate" where
  "note_name_use t s =
     (if t_type t = TWord then
        s\<lparr>f_usedNamed := f_usedNamed s \<or> f_nameSinceOp s \<and>
             (t_value t \<in> {''Tf'', ''Do'', ''gs'', ''sh'', ''scn'', ''SCN''} \<or>
              t_value t \<in> {''cs'', ''CS''} \<and> f_lastName s \<notin> {''/DeviceRGB'', ''/DeviceCMYK'', ''/DeviceGray'', ''/Pattern''}),
          f_nameSinceOp := False\<rparr>
      else s)"

definition hold_name :: "fopts \<Rightarrow> token \<Rightarrow> fstate \<Rightarrow> fstate" where
  "hold_name F t s =
     (let s = (flushHeld s)\<lparr>f_nameSinceOp := True, f_lastName := t_value t\<rparr>
      in if fo_limits F \<and> length (t_value t) > kMaxName + 1
         then violation (s\<lparr>f_held := Some (mk_token TName (CHR ''/'' # shortenName (tl (t_value t))))\<rparr>)
         else s\<lparr>f_held := Some t\<rparr>)"

text \<open>
  Saving and restoring the graphics state: at most 28 levels. \<open>None\<close> when the token is
  dropped, with the restore that belongs to it.
\<close>

definition gstate :: "fopts \<Rightarrow> token \<Rightarrow> fstate \<Rightarrow> fstate \<times> bool" where
  "gstate F t s =
     (if \<not> fo_limits F then (s, False)
      else if is_word t ''q'' then
        (if f_qDepth s \<ge> 28 then (flushHeld ((violation s)\<lparr>f_qSuppressed := f_qSuppressed s + 1\<rparr>), True)
         else (s\<lparr>f_qDepth := f_qDepth s + 1\<rparr>, False))
      else if is_word t ''Q'' then
        (if f_qSuppressed s > 0 then (flushHeld (s\<lparr>f_qSuppressed := f_qSuppressed s - 1\<rparr>), True)
         else (s\<lparr>f_qDepth := f_qDepth s - 1\<rparr>, False))
      else (s, False))"

definition fix_ri :: "token \<Rightarrow> token \<Rightarrow> fstate \<Rightarrow> fstate" where
  "fix_ri n t s =
     put (ETok t)
       (if t_value n \<in> kValidRi then flushHeld s
        else flushHeld (violation (s\<lparr>f_held := Some (mk_token TName ''/RelativeColorimetric'')\<rparr>)))"

text \<open>Bad characters and an odd number of digits in a hexadecimal string are violations.\<close>

definition hex_violations :: "string \<Rightarrow> nat" where
  "hex_violations raw =
     length (filter (\<lambda>c. \<not> is_xdigit c \<and> c \<noteq> CHR ''>'' \<and> \<not> is_space c \<and> ord c \<noteq> 0 \<and> ord c \<noteq> 12) (tl raw)) +
     (if odd (length (filter is_xdigit (tl raw))) then 1 else 0)"

definition fix_bad :: "token \<Rightarrow> fstate \<Rightarrow> fstate" where
  "fix_bad t s =
     (let raw = t_raw t; hex = filter is_xdigit raw; s = flushHeld (violation s)
      in if raw \<noteq> [] \<and> hd raw = CHR ''<'' \<and> \<not> starts_with raw ''<<''
         then put (EText (''<'' @ (if odd (length hex) then hex @ ''0'' else hex) @ ''>'')) s else s)"

text \<open>Opening and closing brackets; a closing bracket with none open is dropped.\<close>

definition bracket :: "token \<Rightarrow> fstate \<Rightarrow> fstate option" where
  "bracket t s =
     (case t_type t of
        TArrayOpen \<Rightarrow> Some (s\<lparr>f_arrDepth := f_arrDepth s + 1\<rparr>)
      | TArrayClose \<Rightarrow> if f_arrDepth s = 0 then None else Some (s\<lparr>f_arrDepth := f_arrDepth s - 1\<rparr>)
      | TDictOpen \<Rightarrow> Some (s\<lparr>f_dictDepth := f_dictDepth s + 1\<rparr>)
      | TDictClose \<Rightarrow> if f_dictDepth s = 0 then None else Some (s\<lparr>f_dictDepth := f_dictDepth s - 1\<rparr>)
      | _ \<Rightarrow> Some s)"

text \<open>The last part: the token itself, or a number or string within the limits instead of it.\<close>

definition write_limited :: "'v objlib \<Rightarrow> fopts \<Rightarrow> token \<Rightarrow> fstate \<Rightarrow> fstate" where
  "write_limited L F t s =
     (if fo_limits F \<and> t_type t = TReal then
        (let v = fst (strtod (t_value t)); bound = (if fo_pdf14 F then kMaxReal else kMaxReal2)
         in if less_d bound v \<or> less_d v (neg_d bound)
            then put (ETok (mk_token TReal (realText (if less_d zero_d v then bound else neg_d bound)))) (violation s)
            else if \<not> eq_d v zero_d \<and> less_d (neg_d kMinDenorm) v \<and> less_d v kMinDenorm
            then put (ETok (mk_token TInteger ''0'')) (if fo_pdf14 F then violation s else s)
            else put (ETok t) s)
      else if fo_limits F \<and> t_type t = TInteger then
        (let v = strtoll (t_value t)
         in if v > kMaxInt \<or> v < - kMaxInt
            then put (ETok (mk_token TInteger (int_str (if v > 0 then kMaxInt else - kMaxInt)))) (violation s)
            else put (ETok t) s)
      else if fo_limits F \<and> t_type t = TString then
        put (EText (o_unparseString L (take (fo_maxStr F) (t_value t))))
          (if length (t_value t) > fo_maxStr F then violation s else s)
      else put (ETok t) s)"

definition write_token :: "'v objlib \<Rightarrow> fopts \<Rightarrow> token \<Rightarrow> fstate \<Rightarrow> fstate" where
  "write_token L F t s0 =
     (let s = (if t_type t = TString \<and> t_raw t \<noteq> [] \<and> hd (t_raw t) = CHR ''<''
               then s0\<lparr>f_violations := f_violations s0 + hex_violations (t_raw t)\<rparr> else s0)
      in if t_type t = TBad then fix_bad t s
         else case bracket t s of
           None \<Rightarrow> flushHeld (violation s)
         | Some s \<Rightarrow>
             if t_type t = TWord \<and> t_value t \<notin> kValidOps then flushHeld (violation s)
             else write_limited L F t (flushHeld s))"

text \<open>The replacement text of \<open>ActualText\<close> without private-use characters.\<close>

definition scrub_text :: "'v objlib \<Rightarrow> fopts \<Rightarrow> token \<Rightarrow> fstate \<Rightarrow> fstate option" where
  "scrub_text L F t s =
     (case f_held s of
        Some n \<Rightarrow>
          if t_type t = TString \<and> fo_scrub F \<and> t_value n = ''/ActualText'' then
            (case stripPuaUtf8 (o_utf8 L (t_value t)) False of
               (cleaned, True) \<Rightarrow>
                 Some ((violation (put (EText (o_unparseUnicode L cleaned)) (flushHeld s)))\<lparr>f_puaFixed := f_puaFixed s + 1\<rparr>)
             | _ \<Rightarrow> None)
          else None
      | None \<Rightarrow> None)"

definition plain_token :: "'v objlib \<Rightarrow> fopts \<Rightarrow> token \<Rightarrow> fstate \<Rightarrow> fstate" where
  "plain_token L F t s0 =
     (let s = note_name_use t s0
      in if t_type t = TName then hold_name F t s
         else case gstate F t s of
           (s, True) \<Rightarrow> s
         | (s, False) \<Rightarrow>
             if f_held s \<noteq> None \<and> (t_type t = TSpace \<or> t_type t = TComment) then s\<lparr>f_trail := f_trail s @ [t]\<rparr>
             else if is_word t ''ri'' \<and> f_held s \<noteq> None then fix_ri (the (f_held s)) t s
             else if is_word t ''BI'' then (flushHeld s)\<lparr>f_inImageDict := True, f_iiText := []\<rparr>
             else case scrub_text L F t s of Some s' \<Rightarrow> s' | None \<Rightarrow> write_token L F t s)"

definition handleToken :: "'v objlib \<Rightarrow> fopts \<Rightarrow> fstate \<Rightarrow> token \<Rightarrow> fstate" where
  "handleToken L F s t =
     (if f_inImageDict s then image_token L t s
      else if f_swallowEI s \<and> t_type t = TSpace then s
      else if f_swallowEI s \<and> is_word t ''EI'' then s\<lparr>f_swallowEI := False\<rparr>
      else plain_token L F t (s\<lparr>f_swallowEI := False\<rparr>))"

definition handleEOF :: "fstate \<Rightarrow> fstate" where
  "handleEOF s =
     (let s = flushHeld s
      in s\<lparr>f_out := f_out s @ replicate (f_arrDepth s) (EText '']'') @ replicate (f_dictDepth s) (EText ''>>''),
           f_arrDepth := 0, f_dictDepth := 0\<rparr>)"

definition filter_stream :: "'v objlib \<Rightarrow> fopts \<Rightarrow> token list \<Rightarrow> fstate" where
  "filter_stream L F ts = handleEOF (foldl (handleToken L F) fstate0 ts)"

section \<open>Counting what the filter writes\<close>

text \<open>
  A counter follows one kind of nesting over the tokens written; it has no value after a token
  that is not allowed. Names, spaces and comments do not count.
\<close>

locale token_counter =
  fixes step :: "nat \<Rightarrow> token \<Rightarrow> nat option"
  assumes neutral: "t_type t \<in> {TName, TSpace, TComment} \<Longrightarrow> step d t = Some d"
begin

fun count :: "nat \<Rightarrow> emit list \<Rightarrow> nat option" where
  "count d [] = Some d"
| "count d (EText x # es) = count d es"
| "count d (ETok t # es) = (case step d t of None \<Rightarrow> None | Some d' \<Rightarrow> count d' es)"

lemma count_append: "count d (xs @ ys) = (case count d xs of None \<Rightarrow> None | Some d' \<Rightarrow> count d' ys)"
  by (induction d xs rule: count.induct) (auto split: option.splits)

lemma count_text [simp]: "count d (xs @ [EText x]) = count d xs"
  by (simp add: count_append split: option.splits)

lemma count_neutral: "list_all (\<lambda>t. t_type t \<in> {TName, TSpace, TComment}) ts \<Longrightarrow> count d (map ETok ts) = Some d"
  by (induction ts) (auto simp: neutral)

end

definition q_step :: "nat \<Rightarrow> token \<Rightarrow> nat option" where
  "q_step d t =
     (if is_word t ''q'' then (if d \<ge> 28 then None else Some (d + 1)) else if is_word t ''Q'' then Some (d - 1) else Some d)"

definition arr_step :: "nat \<Rightarrow> token \<Rightarrow> nat option" where
  "arr_step d t =
     (if t_type t = TArrayOpen then Some (d + 1) else if t_type t = TArrayClose then (if d = 0 then None else Some (d - 1)) else Some d)"

definition dict_step :: "nat \<Rightarrow> token \<Rightarrow> nat option" where
  "dict_step d t =
     (if t_type t = TDictOpen then Some (d + 1) else if t_type t = TDictClose then (if d = 0 then None else Some (d - 1)) else Some d)"

interpretation q: token_counter q_step
  by unfold_locales (auto simp: q_step_def is_word_def)

interpretation ar: token_counter arr_step
  by unfold_locales (auto simp: arr_step_def)

interpretation di: token_counter dict_step
  by unfold_locales (auto simp: dict_step_def)

text \<open>Held tokens are a name and the blanks after it.\<close>

definition held_ok :: "fstate \<Rightarrow> bool" where
  "held_ok s \<longleftrightarrow> (case f_held s of Some n \<Rightarrow> t_type n = TName | None \<Rightarrow> True) \<and>
     list_all (\<lambda>t. t_type t = TSpace \<or> t_type t = TComment) (f_trail s)"

definition nested :: "fopts \<Rightarrow> nat option \<Rightarrow> nat option \<Rightarrow> nat option \<Rightarrow> fstate \<Rightarrow> bool" where
  "nested F dq da dd s \<longleftrightarrow> held_ok s \<and> (fo_limits F \<longrightarrow> q.count 0 (f_out s) = dq) \<and>
     ar.count 0 (f_out s) = da \<and> di.count 0 (f_out s) = dd"

lemma held_neutral:
  assumes "held_ok s"
  obtains ts where "held_tokens s = map ETok ts" "list_all (\<lambda>t. t_type t \<in> {TName, TSpace, TComment}) ts"
proof
  show "held_tokens s = map ETok ((case f_held s of Some n \<Rightarrow> [n] | None \<Rightarrow> []) @ f_trail s)"
    by (simp add: held_tokens_def split: option.splits)
  show "list_all (\<lambda>t. t_type t \<in> {TName, TSpace, TComment}) ((case f_held s of Some n \<Rightarrow> [n] | None \<Rightarrow> []) @ f_trail s)"
    using assms by (auto simp: held_ok_def list_all_iff split: option.splits)
qed

lemma nested_flush:
  assumes "nested F dq da dd s"
  shows "nested F dq da dd (flushHeld s)"
proof -
  have "held_ok s" using assms by (simp add: nested_def)
  then obtain ts where ts: "held_tokens s = map ETok ts" "list_all (\<lambda>t. t_type t \<in> {TName, TSpace, TComment}) ts"
    by (rule held_neutral)
  show ?thesis
    using assms q.count_neutral[OF ts(2)] ar.count_neutral[OF ts(2)] di.count_neutral[OF ts(2)]
    by (auto simp: nested_def flushHeld_def held_ok_def ts(1) q.count_append ar.count_append di.count_append split: option.splits)
qed

lemma nested_cong:
  "f_out s' = f_out s \<Longrightarrow> f_held s' = f_held s \<Longrightarrow> f_trail s' = f_trail s \<Longrightarrow> nested F dq da dd s' = nested F dq da dd s"
  by (simp add: nested_def held_ok_def)

lemma nested_fields [simp]:
  "nested F dq da dd (s\<lparr>f_inImageDict := b\<rparr>) = nested F dq da dd s" "nested F dq da dd (s\<lparr>f_swallowEI := b\<rparr>) = nested F dq da dd s"
  "nested F dq da dd (s\<lparr>f_iiText := x\<rparr>) = nested F dq da dd s" "nested F dq da dd (s\<lparr>f_qDepth := k\<rparr>) = nested F dq da dd s"
  "nested F dq da dd (s\<lparr>f_qSuppressed := k\<rparr>) = nested F dq da dd s" "nested F dq da dd (s\<lparr>f_arrDepth := k\<rparr>) = nested F dq da dd s"
  "nested F dq da dd (s\<lparr>f_dictDepth := k\<rparr>) = nested F dq da dd s" "nested F dq da dd (s\<lparr>f_nameSinceOp := b\<rparr>) = nested F dq da dd s"
  "nested F dq da dd (s\<lparr>f_lastName := x\<rparr>) = nested F dq da dd s" "nested F dq da dd (s\<lparr>f_usedNamed := b\<rparr>) = nested F dq da dd s"
  "nested F dq da dd (s\<lparr>f_violations := k\<rparr>) = nested F dq da dd s" "nested F dq da dd (s\<lparr>f_iiFixed := k\<rparr>) = nested F dq da dd s"
  "nested F dq da dd (s\<lparr>f_puaFixed := k\<rparr>) = nested F dq da dd s" "nested F dq da dd (violation s) = nested F dq da dd s"
  "nested F dq da dd (put (EText x) s) = nested F dq da dd s"
  by (simp_all add: nested_def held_ok_def violation_def put_def)

lemma nested_put:
  assumes "nested F (Some dq) (Some da) (Some dd) s"
  shows "nested F (q_step dq t) (arr_step da t) (dict_step dd t) (put (ETok t) s)"
  using assms by (auto simp: nested_def held_ok_def put_def q.count_append ar.count_append di.count_append split: option.splits)

definition finv :: "fopts \<Rightarrow> fstate \<Rightarrow> bool" where
  "finv F s \<longleftrightarrow> nested F (Some (f_qDepth s)) (Some (f_arrDepth s)) (Some (f_dictDepth s)) s"

lemma depth_fields [simp]:
  "f_qDepth (flushHeld s) = f_qDepth s" "f_arrDepth (flushHeld s) = f_arrDepth s" "f_dictDepth (flushHeld s) = f_dictDepth s"
  "f_qDepth (violation s) = f_qDepth s" "f_arrDepth (violation s) = f_arrDepth s" "f_dictDepth (violation s) = f_dictDepth s"
  "f_qDepth (put e s) = f_qDepth s" "f_arrDepth (put e s) = f_arrDepth s" "f_dictDepth (put e s) = f_dictDepth s"
  "f_held (flushHeld s) = None" "f_trail (flushHeld s) = []"
  by (simp_all add: flushHeld_def violation_def put_def)

lemma finv_flush: "finv F s \<Longrightarrow> finv F (flushHeld s)"
  by (simp add: finv_def nested_flush)

lemma finv_violation [simp]: "finv F (violation s) = finv F s"
  by (simp add: finv_def)

lemma finv_put_text [simp]: "finv F (put (EText x) s) = finv F s"
  by (simp add: finv_def)

lemma finv_put_neutral:
  assumes "finv F s" "t_type t \<notin> {TArrayOpen, TArrayClose, TDictOpen, TDictClose}" "\<not> is_word t ''q''" "\<not> is_word t ''Q''"
  shows "finv F (put (ETok t) s)"
  using nested_put[of F "f_qDepth s" "f_arrDepth s" "f_dictDepth s" s t] assms
  by (simp add: finv_def q_step_def arr_step_def dict_step_def)

lemma finv_image_token: "finv F s \<Longrightarrow> finv F (image_token L t s)"
  by (auto simp: image_token_def finv_def split: prod.splits)

lemma finv_hold_name:
  assumes "finv F s" "t_type t = TName"
  shows "finv F (hold_name F t s)"
proof -
  have "finv F ((flushHeld s)\<lparr>f_held := Some n\<rparr>)" if "t_type n = TName" for n
    using finv_flush[OF assms(1)] that by (simp add: finv_def nested_def held_ok_def)
  with assms show ?thesis
    by (auto simp: hold_name_def Let_def finv_def mk_token_def violation_def nested_def held_ok_def)
qed

text \<open>After the save and restore operators are counted, before their token is written.\<close>

definition pending :: "fopts \<Rightarrow> token \<Rightarrow> fstate \<Rightarrow> bool" where
  "pending F t s \<longleftrightarrow> (\<exists>dq. nested F (Some dq) (Some (f_arrDepth s)) (Some (f_dictDepth s)) s \<and>
     (fo_limits F \<longrightarrow> q_step dq t = Some (f_qDepth s)))"

lemma pending_finv: "pending F t s \<Longrightarrow> \<not> is_word t ''q'' \<Longrightarrow> \<not> is_word t ''Q'' \<Longrightarrow> finv F s"
  by (auto simp: pending_def finv_def q_step_def nested_def)

lemma gstate_finv:
  assumes "finv F s" "gstate F t s = (s', b)"
  shows "if b then finv F s' else pending F t s'"
proof (cases "fo_limits F")
  case False
  with assms show ?thesis by (auto simp: gstate_def finv_def pending_def)
next
  case True
  have "f_qDepth (s\<lparr>f_qDepth := k\<rparr>) = k" for k by simp
  with True assms finv_flush show ?thesis
    by (auto simp: gstate_def finv_def pending_def q_step_def nested_flush intro!: exI[of _ "f_qDepth s"] split: if_splits)
qed

lemma valid_ops_q: "is_word t ''q'' \<or> is_word t ''Q'' \<Longrightarrow> t_value t \<in> kValidOps \<and> t_type t = TWord"
  by (auto simp: is_word_def kValidOps_def)

lemma write_limited_cases:
  obtains "write_limited L F t s = put (ETok t) s"
  | u s' where "write_limited L F t s = put (ETok u) s'" "t_type t \<in> {TReal, TInteger}" "t_type u \<in> {TReal, TInteger}"
      "s' = s \<or> s' = violation s"
  | x s' where "write_limited L F t s = put (EText x) s'" "t_type t = TString" "s' = s \<or> s' = violation s"
proof -
  consider (real) "fo_limits F" "t_type t = TReal" | (int) "fo_limits F" "t_type t = TInteger"
    | (str) "fo_limits F" "t_type t = TString" | (other) "\<not> fo_limits F \<or> t_type t \<notin> {TReal, TInteger, TString}" by blast
  then show thesis
  proof cases
    case real
    then obtain c1 c2 x where "write_limited L F t s =
        (if c1 then put (ETok (mk_token TReal x)) (violation s)
         else if c2 then put (ETok (mk_token TInteger ''0'')) (if fo_pdf14 F then violation s else s) else put (ETok t) s)"
      unfolding write_limited_def Let_def by (simp only: simp_thms if_True)
    with real that show thesis by (cases c1; cases c2; cases "fo_pdf14 F") (auto simp: mk_token_def)
  next
    case int
    then obtain c x where "write_limited L F t s = (if c then put (ETok (mk_token TInteger x)) (violation s) else put (ETok t) s)"
      unfolding write_limited_def Let_def by simp
    with int that show thesis by (cases c) (auto simp: mk_token_def)
  next
    case str
    then obtain c x where "write_limited L F t s = put (EText x) (if c then violation s else s)"
      unfolding write_limited_def Let_def by simp
    with str that show thesis by (cases c) auto
  next
    case other
    then have "write_limited L F t s = put (ETok t) s" by (auto simp: write_limited_def)
    with that(1) show thesis .
  qed
qed

lemma finv_write_limited:
  assumes "nested F (Some dq) (Some da) (Some dd) s" "fo_limits F \<longrightarrow> q_step dq t = Some (f_qDepth s)"
    "arr_step da t = Some (f_arrDepth s)" "dict_step dd t = Some (f_dictDepth s)"
  shows "finv F (write_limited L F t s)"
proof (cases rule: write_limited_cases[of L F t s])
  case 1
  have "nested F (if fo_limits F then Some (f_qDepth s) else q_step dq t) (Some (f_arrDepth s)) (Some (f_dictDepth s)) (put (ETok t) s)"
    using nested_put[OF assms(1), of t] assms(2-4) by (auto simp: nested_def)
  then show ?thesis unfolding 1 finv_def by (auto simp: nested_def)
next
  case (2 u s')
  have "finv F s"
    using assms 2(2) by (auto simp: finv_def nested_def q_step_def is_word_def arr_step_def dict_step_def)
  then have "finv F s'" using 2(4) by auto
  then show ?thesis unfolding 2(1) using 2(3) by (intro finv_put_neutral) (auto simp: is_word_def)
next
  case (3 x s')
  have "finv F s"
    using assms 3(2) by (auto simp: finv_def nested_def q_step_def is_word_def arr_step_def dict_step_def)
  then show ?thesis unfolding 3(1) using 3(3) by auto
qed

lemma bracket_steps:
  "bracket t s = Some s' \<Longrightarrow> arr_step (f_arrDepth s) t = Some (f_arrDepth s') \<and> dict_step (f_dictDepth s) t = Some (f_dictDepth s') \<and>
     f_qDepth s' = f_qDepth s \<and> f_out s' = f_out s \<and> f_held s' = f_held s \<and> f_trail s' = f_trail s"
  by (auto simp: bracket_def arr_step_def dict_step_def split: token_type.splits if_splits)

lemma finv_write_token:
  assumes "pending F t s0"
  shows "finv F (write_token L F t s0)"
proof -
  define s where "s = (if t_type t = TString \<and> t_raw t \<noteq> [] \<and> hd (t_raw t) = CHR ''<''
      then s0\<lparr>f_violations := f_violations s0 + hex_violations (t_raw t)\<rparr> else s0)"
  have p: "pending F t s" using assms by (simp add: s_def pending_def)
  obtain dq where n: "nested F (Some dq) (Some (f_arrDepth s)) (Some (f_dictDepth s)) s"
    "fo_limits F \<longrightarrow> q_step dq t = Some (f_qDepth s)" using p by (auto simp: pending_def)
  have word: "t_type t \<noteq> TWord \<Longrightarrow> finv F s" using pending_finv[OF p] by (simp add: is_word_def)
  show ?thesis
  proof (cases "t_type t = TBad")
    case True
    then show ?thesis
      using word finv_flush[of F s] unfolding write_token_def Let_def s_def[symmetric] by (auto simp: fix_bad_def Let_def finv_flush)
  next
    case nb: False
    show ?thesis
    proof (cases "bracket t s")
      case None
      then have "t_type t \<noteq> TWord" by (auto simp: bracket_def split: token_type.splits if_splits)
      with None nb word show ?thesis unfolding write_token_def Let_def s_def[symmetric] by (simp add: finv_flush)
    next
      case (Some s1)
      note b = bracket_steps[OF Some]
      have n1: "nested F (Some dq) (Some (f_arrDepth s)) (Some (f_dictDepth s)) s1" using n(1) b nested_cong by blast
      show ?thesis
      proof (cases "t_type t = TWord \<and> t_value t \<notin> kValidOps")
        case True
        then have "\<not> is_word t ''q''" "\<not> is_word t ''Q''" using valid_ops_q[of t] by auto
        with True have "finv F s1"
          using n n1 b by (auto simp: finv_def nested_def q_step_def arr_step_def dict_step_def)
        with True nb Some show ?thesis unfolding write_token_def Let_def s_def[symmetric] by (simp add: finv_flush)
      next
        case False
        have "finv F (write_limited L F t (flushHeld s1))"
          by (rule finv_write_limited[OF nested_flush[OF n1]]) (use n(2) b in auto)
        with False nb Some show ?thesis unfolding write_token_def Let_def s_def[symmetric] by auto
      qed
    qed
  qed
qed

lemma pending_plain:
  assumes "pending F t s" "\<not> is_word t ''q''" "\<not> is_word t ''Q''" "t_type t \<notin> {TArrayOpen, TArrayClose, TDictOpen, TDictClose}"
  shows "finv F (put (ETok t) (flushHeld s))"
  using finv_flush[OF pending_finv[OF assms(1-3)]] assms(2-4) by (intro finv_put_neutral) auto

lemma finv_fix_ri:
  assumes "pending F t s" "is_word t ''ri''"
  shows "finv F (fix_ri n t s)"
proof -
  have t: "\<not> is_word t ''q''" "\<not> is_word t ''Q''" "t_type t \<notin> {TArrayOpen, TArrayClose, TDictOpen, TDictClose}"
    using assms(2) by (auto simp: is_word_def)
  have "finv F (s\<lparr>f_held := Some (mk_token TName ''/RelativeColorimetric'')\<rparr>)"
    using pending_finv[OF assms(1) t(1,2)] by (simp add: finv_def nested_def held_ok_def mk_token_def)
  with pending_finv[OF assms(1) t(1,2)] t show ?thesis
    unfolding fix_ri_def by (intro finv_put_neutral) (auto intro: finv_flush)
qed

lemma scrub_text_finv: "scrub_text L F t s = Some s' \<Longrightarrow> finv F s \<Longrightarrow> finv F s' \<and> t_type t = TString"
  using finv_flush[of F s] by (auto simp: scrub_text_def finv_def split: option.splits if_splits prod.splits bool.splits)

lemma finv_plain_token:
  assumes "finv F s0"
  shows "finv F (plain_token L F t s0)"
proof -
  define s where "s = note_name_use t s0"
  have s: "finv F s" using assms by (simp add: s_def note_name_use_def finv_def)
  obtain s1 b where g: "gstate F t s = (s1, b)" by fastforce
  note g1 = gstate_finv[OF s g]
  have blank: "finv F (s1\<lparr>f_trail := f_trail s1 @ [t]\<rparr>)" if "\<not> b" "t_type t = TSpace \<or> t_type t = TComment"
  proof -
    have "finv F s1" using pending_finv[of F t s1] g1 that by (auto simp: is_word_def)
    with that(2) show ?thesis by (auto simp: finv_def nested_def held_ok_def)
  qed
  have bi: "finv F ((flushHeld s1)\<lparr>f_inImageDict := True, f_iiText := []\<rparr>)" if "\<not> b" "is_word t ''BI''"
    using finv_flush[of F s1] pending_finv[of F t s1] g1 that by (auto simp: is_word_def finv_def)
  have scrub: "finv F s'" if "\<not> b" "scrub_text L F t s1 = Some s'" for s'
  proof -
    have "t_type t = TString" using that(2) by (auto simp: scrub_text_def split: option.splits if_splits)
    then have "finv F s1" using pending_finv[of F t s1] g1 that(1) by (auto simp: is_word_def)
    with scrub_text_finv[OF that(2)] show ?thesis by blast
  qed
  have rest: "\<not> b \<Longrightarrow> finv F (write_token L F t s1)" "\<not> b \<Longrightarrow> is_word t ''ri'' \<Longrightarrow> finv F (fix_ri n t s1)" for n
    using g1 finv_write_token finv_fix_ri by auto
  show ?thesis
    unfolding plain_token_def Let_def s_def[symmetric] g
    using g1 s blank bi scrub rest finv_hold_name by (auto split: option.splits bool.splits)
qed

lemma finv_handleToken: "finv F s \<Longrightarrow> finv F (handleToken L F s t)"
  by (auto simp: handleToken_def finv_image_token finv_plain_token) (simp_all add: finv_def finv_plain_token[unfolded finv_def])


section \<open>The LZW decoder reads back\<close>

text \<open>The value of a list of bits, the bits of a number, and bits packed into bytes.\<close>

definition bits_val :: "nat list \<Rightarrow> nat" where
  "bits_val bs = foldl (\<lambda>v b. 2 * v + b) 0 bs"

fun nbits :: "nat \<Rightarrow> nat \<Rightarrow> nat list" where
  "nbits 0 n = []"
| "nbits (Suc k) n = nbits k (n div 2) @ [n mod 2]"

function pack :: "nat list \<Rightarrow> string" where
  "pack bs = (if bs = [] then [] else chr (bits_val (take 8 (bs @ replicate 7 0))) # pack (drop 8 bs))"
  by pat_completeness auto
termination by (relation "measure length") auto

declare pack.simps [simp del]

lemma bits_val_snoc: "bits_val (bs @ [b]) = 2 * bits_val bs + b"
  by (simp add: bits_val_def)

lemma bits_val_append: "bits_val (xs @ ys) = bits_val xs * 2 ^ length ys + bits_val ys"
proof (induction ys rule: rev_induct)
  case (snoc y ys)
  show ?case unfolding append_assoc[symmetric] bits_val_snoc snoc.IH by (simp add: algebra_simps)
qed (simp add: bits_val_def)

lemma bits_val_less: "list_all (\<lambda>b. b < 2) bs \<Longrightarrow> bits_val bs < 2 ^ length bs"
proof (induction bs rule: rev_induct)
  case (snoc b bs)
  then show ?case unfolding bits_val_snoc by simp
qed (simp add: bits_val_def)

lemma bits_val_nbits: "bits_val (nbits k n) = n mod 2 ^ k"
proof (induction k arbitrary: n)
  case (Suc k)
  have "2 * (n div 2 mod 2 ^ k) + n mod 2 = n mod 2 ^ Suc k" by (simp add: mod_mult2_eq)
  then show ?case using Suc by (simp add: bits_val_snoc)
qed (simp add: bits_val_def)

lemma nbits_ok: "length (nbits k n) = k" "list_all (\<lambda>b. b < 2) (nbits k n)"
  by (induction k arbitrary: n) auto

lemma bits_val_nth:
  assumes "list_all (\<lambda>b. b < 2) bs" "i < length bs"
  shows "bits_val bs div 2 ^ (length bs - 1 - i) mod 2 = bs ! i"
proof -
  have split: "bs = (take i bs @ [bs ! i]) @ drop (Suc i) bs" using assms(2) by (simp add: id_take_nth_drop[symmetric])
  have "list_all (\<lambda>b. b < 2) (drop (Suc i) bs)" "bs ! i < 2" using assms by (auto simp: list_all_length)
  moreover have "length (drop (Suc i) bs) = length bs - 1 - i" using assms(2) by simp
  ultimately have "bits_val bs div 2 ^ (length bs - 1 - i) = bits_val (take i bs @ [bs ! i])"
    using bits_val_less[of "drop (Suc i) bs"] by (subst split) (simp add: bits_val_append del: append_assoc)
  then show ?thesis using \<open>bs ! i < 2\<close> by (simp add: bits_val_snoc)
qed

lemma bit_at_pack: "p < length bs \<Longrightarrow> list_all (\<lambda>b. b < 2) bs \<Longrightarrow> bit_at (pack bs) p = bs ! p \<and> p div 8 < length (pack bs)"
proof (induction bs arbitrary: p rule: pack.induct)
  case (1 bs)
  let ?b = "take 8 (bs @ replicate 7 0)"
  have ne: "bs \<noteq> []" using "1.prems"(1) by auto
  have "1 \<le> length bs" using ne by (simp add: Suc_le_eq)
  then have "length ?b = 8" unfolding length_take length_append length_replicate by linarith
  moreover have "list_all (\<lambda>b. b < 2) ?b" using "1.prems"(2) unfolding list_all_iff
    by (auto dest!: in_set_takeD)
  ultimately have b: "length ?b = 8" "list_all (\<lambda>b. b < 2) ?b" .
  have "(2::nat) ^ 8 = 256" by simp
  from bits_val_less[OF b(2), unfolded b(1) this] have byte: "bits_val ?b < 256" .
  have pk: "pack bs = chr (bits_val ?b) # pack (drop 8 bs)" using ne by (subst pack.simps) simp
  show ?case
  proof (cases "p < 8")
    case True
    have "8 - 1 - p = 7 - p" by simp
    from bits_val_nth[OF b(2), of p, unfolded b(1), OF True, unfolded this]
    have "bits_val ?b div 2 ^ (7 - p) mod 2 = ?b ! p" .
    moreover have "?b ! p = bs ! p" using True "1.prems"(1) by (simp add: nth_append)
    ultimately show ?thesis using True byte by (simp add: pk bit_at_def ord_chr)
  next
    case False
    then have "bit_at (pack (drop 8 bs)) (p - 8) = drop 8 bs ! (p - 8) \<and> (p - 8) div 8 < length (pack (drop 8 bs))"
      using "1.prems" ne by (intro "1.IH") (auto simp: list_all_length)
    moreover have "p div 8 = Suc ((p - 8) div 8)" "p mod 8 = (p - 8) mod 8" using False by (simp_all add: le_div_geq le_mod_geq)
    moreover have "drop 8 bs ! (p - 8) = bs ! p" using False "1.prems"(1) by simp
    ultimately show ?thesis using False by (simp add: pk bit_at_def)
  qed
qed

lemma read_bits_val: "read_bits s p n = bits_val (map (bit_at s) [p..<p + n])"
  by (induction n) (simp_all add: bits_val_snoc, simp add: bits_val_def)

text \<open>Codes of nine bits, and a text as a reset code before every byte and the end code.\<close>

definition pack9 :: "nat list \<Rightarrow> string" where
  "pack9 codes = pack (concat (map (nbits 9) codes))"

definition lzw_literals :: "string \<Rightarrow> nat list" where
  "lzw_literals s = concat (map (\<lambda>c. [256, ord c]) s)"

lemma concat_nbits: "length (concat (map (nbits 9) cs)) = 9 * length cs" "list_all (\<lambda>b. b < 2) (concat (map (nbits 9) cs))"
  by (induction cs) (simp_all add: nbits_ok)

lemma read_code:
  assumes "c < 512"
  shows "read_bits (pack9 (pre @ c # post)) (9 * length pre) 9 = c \<and> 9 * length pre + 9 \<le> length (pack9 (pre @ c # post)) * 8"
proof -
  let ?bs = "concat (map (nbits 9) (pre @ c # post))"
  have l: "length ?bs = 9 * (length pre + 1 + length post)" using concat_nbits(1)[of "pre @ c # post"] by simp
  have at: "?bs ! (9 * length pre + i) = nbits 9 c ! i" if "i < 9" for i
    using that concat_nbits(1)[of pre] by (simp add: nth_append nbits_ok)
  have "map (bit_at (pack9 (pre @ c # post))) [9 * length pre..<9 * length pre + 9] = nbits 9 c"
  proof (intro nth_equalityI)
    fix i assume "i < length (map (bit_at (pack9 (pre @ c # post))) [9 * length pre..<9 * length pre + 9])"
    then have i: "i < 9" by simp
    then have "bit_at (pack ?bs) (9 * length pre + i) = ?bs ! (9 * length pre + i)"
      using l by (intro conjunct1[OF bit_at_pack] concat_nbits(2)) simp
    with i at[OF i] show "map (bit_at (pack9 (pre @ c # post))) [9 * length pre..<9 * length pre + 9] ! i = nbits 9 c ! i"
      by (simp add: pack9_def)
  qed (simp add: nbits_ok)
  then have "read_bits (pack9 (pre @ c # post)) (9 * length pre) 9 = c"
    using assms by (simp only: read_bits_val bits_val_nbits) simp
  moreover have "(9 * length pre + 8) div 8 < length (pack9 (pre @ c # post))"
    unfolding pack9_def using l by (intro conjunct2[OF bit_at_pack] concat_nbits(2)) simp
  ultimately show ?thesis by auto
qed

lemma lzw_table0_length: "length lzw_table0 = 258"
  by (simp add: lzw_table0_def)

lemma lzw_table0_nth: "lzw_table0 ! ord c = [c]"
  using ord_less[of c] by (simp add: lzw_table0_def nth_append)

text \<open>One literal: the reset code and the code of the byte.\<close>

lemma lzw_literal:
  assumes "s = pack9 (pre @ 256 # ord c # post)" "length out < 100000000"
  shows "lzw_loop s \<lparr>lz_table = tb, lz_width = 9, lz_out = out, lz_prev = pv, lz_pos = 9 * length pre\<rparr> =
    lzw_loop s \<lparr>lz_table = lzw_table0, lz_width = 9, lz_out = out @ [c], lz_prev = [c], lz_pos = 9 * length (pre @ [256, ord c])\<rparr>"
proof -
  note r1 = read_code[of 256 pre "ord c # post", folded assms(1)]
  have "s = pack9 ((pre @ [256]) @ ord c # post)" using assms(1) by simp
  note r2 = read_code[of "ord c" "pre @ [256]" post, folded this]
  define n where "n = ord c"
  have n: "n < 256" "lzw_table0 ! n = [c]" using ord_less[of c] by (simp_all only: n_def lzw_table0_nth)
  then have r2': "read_bits s (9 * length pre + 9) 9 = n" "9 * length pre + 9 + 9 \<le> length s * 8"
    using r2 by (simp_all add: algebra_simps flip: n_def)
  have "lzw_loop s \<lparr>lz_table = tb, lz_width = 9, lz_out = out, lz_prev = pv, lz_pos = 9 * length pre\<rparr> =
      lzw_loop s \<lparr>lz_table = lzw_table0, lz_width = 9, lz_out = out, lz_prev = [], lz_pos = 9 * length pre + 9\<rparr>"
    using r1 by (subst lzw_loop.simps) (simp add: Let_def)
  also have "\<dots> = lzw_loop s \<lparr>lz_table = lzw_table0, lz_width = 9, lz_out = out @ [c], lz_prev = [c], lz_pos = 9 * length pre + 9 + 9\<rparr>"
    using r2' n assms(2)
    by (subst lzw_loop.simps) (simp add: Let_def lzw_entry_def lzw_add_def lzw_table0_length)
  finally show ?thesis by (simp add: algebra_simps)
qed

lemma lzw_loop_literals:
  assumes "s = pack9 (pre @ lzw_literals cs @ [257])" "length out + length cs \<le> 100000000"
  shows "lzw_loop s \<lparr>lz_table = tb, lz_width = 9, lz_out = out, lz_prev = pv, lz_pos = 9 * length pre\<rparr> = (out @ cs, True)"
  using assms
proof (induction cs arbitrary: pre out tb pv)
  case Nil
  then have "s = pack9 (pre @ 257 # [])" by (simp add: lzw_literals_def)
  from read_code[of 257 pre "[]", folded this] show ?case by (subst lzw_loop.simps) (simp add: Let_def)
next
  case (Cons c cs)
  have s: "s = pack9 (pre @ 256 # ord c # (lzw_literals cs @ [257]))" using Cons.prems(1) by (simp add: lzw_literals_def)
  show ?case
    using Cons.prems s by (subst lzw_literal[OF s]) (simp, subst Cons.IH, auto)
qed

text \<open>
  The LZW decoder reads back what is written with it: a text of at most 100 million bytes,
  written as a reset code and the code of the byte for every byte, nine bits each, and the end
  code, decodes to the text.
\<close>

theorem lzwDecode_literals:
  assumes "length s \<le> 100000000"
  shows "lzwDecode (pack9 (lzw_literals s @ [257])) = (s, True)"
  using lzw_loop_literals[of _ "[]" s "[]" lzw_table0 "[]"] assms by (simp add: lzwDecode_def lzw_init_def)

theorem lzwDecode_literals_witness: "lzwDecode (pack9 (lzw_literals ''inline image'' @ [257])) = (''inline image'', True)"
  by (rule lzwDecode_literals) simp

end
