(* ===== verification/Text_Map.thy ===== *)
theory Text_Map
  imports Prelude "HOL-Library.Char_ord" "HOL-Library.List_Lexorder"
begin

text \<open>
  \<^verbatim>\<open>std::map\<close> keyed by text. Its entries stand in the order of their keys, because
  several loops of the engine walk a map and stop at the first entry that fails; a lookup is
  \<open>map_of\<close>.
\<close>

fun map_put :: "string \<Rightarrow> 'a \<Rightarrow> (string \<times> 'a) list \<Rightarrow> (string \<times> 'a) list" where
  "map_put k v [] = [(k, v)]"
| "map_put k v ((k', v') # m) =
     (if k = k' then (k, v) # m else if k < k' then (k, v) # (k', v') # m else (k', v') # map_put k v m)"

definition map_has :: "string \<Rightarrow> (string \<times> 'a) list \<Rightarrow> bool" where
  "map_has k m \<longleftrightarrow> map_of m k \<noteq> None"

text \<open>The entries are in strictly increasing order of their keys.\<close>

definition map_ordered :: "(string \<times> 'a) list \<Rightarrow> bool" where
  "map_ordered m \<longleftrightarrow> sorted_wrt (<) (map fst m)"

lemma map_of_map_put: "map_of (map_put k v m) = (map_of m)(k \<mapsto> v)"
  by (induction k v m rule: map_put.induct) (auto simp: fun_eq_iff)

lemma set_map_put: "set (map_put k v m) \<subseteq> insert (k, v) (set m)"
  by (induction k v m rule: map_put.induct) auto

lemma keys_map_put: "fst ` set (map_put k v m) = insert k (fst ` set m)"
  by (induction k v m rule: map_put.induct) auto

lemma map_has_put [simp]: "map_has k (map_put k' v m) \<longleftrightarrow> k = k' \<or> map_has k m"
  by (auto simp: map_has_def map_of_map_put)

lemma map_has_keys: "map_has k m \<longleftrightarrow> k \<in> fst ` set m"
  by (auto simp: map_has_def map_of_eq_None_iff)

lemma map_ordered_Nil [simp]: "map_ordered []"
  by (simp add: map_ordered_def)

lemma map_ordered_put: "map_ordered m \<Longrightarrow> map_ordered (map_put k v m)"
proof (induction k v m rule: map_put.induct)
  case (2 k v k' v' m)
  then have m: "map_ordered m" "\<forall>x \<in> fst ` set m. k' < x" by (auto simp: map_ordered_def)
  show ?case
  proof (cases "k = k' \<or> k < k'")
    case True
    with m 2(2) show ?thesis by (auto simp: map_ordered_def)
  next
    case False
    then have "k' < k" by (metis linorder_neqE)
    with m have "\<forall>x \<in> fst ` set (map_put k v m). k' < x" by (simp add: keys_map_put)
    with False 2(1) m(1) show ?thesis by (simp add: map_ordered_def)
  qed
qed (simp add: map_ordered_def)

lemma map_ordered_distinct: "map_ordered m \<Longrightarrow> distinct (map fst m)"
  by (simp add: map_ordered_def strict_sorted_iff)

text \<open>In a map the entries are what a lookup finds.\<close>

lemma map_ordered_entry: "map_ordered m \<Longrightarrow> (k, v) \<in> set m \<longleftrightarrow> map_of m k = Some v"
  by (auto simp: map_ordered_distinct dest: map_of_SomeD)

end
