(* ===== verification/Xml.thy ===== *)
theory Xml
  imports Text_Map
begin

text \<open>
  The XML reader of the metadata checks (class \<^verbatim>\<open>XmlParser\<close> of
  \<^verbatim>\<open>profile_xmpcheck.cpp\<close>). The reader keeps an index into the text and only moves it
  forward; here it keeps the text from that index on. Elements nest at most 201 deep, so the
  recursion is structural in the levels that are left; the loops over content and over the
  document carry the length of the text as their bound, which they never reach.
\<close>

section \<open>Nodes\<close>

record XAttr =
  a_ns :: string
  a_local :: string
  a_value :: string

datatype XNode = XNode (x_ns: string) (x_local: string) (x_prefix: string) (x_attrs: "XAttr list")
  (x_decls: "(string \<times> string) list") (x_kids: "XNode list") (x_text: string)

section \<open>Characters and names\<close>

definition nameStart :: "char \<Rightarrow> bool" where
  "nameStart c \<longleftrightarrow> is_upper c \<or> is_lower c \<or> c = CHR ''_'' \<or> c = CHR '':'' \<or> ord c \<ge> 0x80"

definition nameChar :: "char \<Rightarrow> bool" where
  "nameChar c \<longleftrightarrow> nameStart c \<or> is_digit c \<or> c = CHR ''-'' \<or> c = CHR ''.''"

definition skipWs :: "string \<Rightarrow> string" where
  "skipWs r = dropWhile is_space r"

definition skipTo :: "string \<Rightarrow> string \<Rightarrow> string option" where
  "skipTo pat r = map_option (\<lambda>e. drop (e + length pat) r) (find_str pat r)"

text \<open>The text before the next \<open>c\<close> and the text from it on.\<close>

definition upto_char :: "char \<Rightarrow> string \<Rightarrow> (string \<times> string) option" where
  "upto_char c r = (if c \<in> set r then Some (takeWhile (\<lambda>x. x \<noteq> c) r, dropWhile (\<lambda>x. x \<noteq> c) r) else None)"

definition read_name :: "string \<Rightarrow> (string \<times> string) option" where
  "read_name r = (if r = [] \<or> \<not> nameStart (hd r) then None else Some (takeWhile nameChar r, dropWhile nameChar r))"

section \<open>Character data\<close>

definition cp_bytes :: "nat \<Rightarrow> string" where
  "cp_bytes cp =
     (if cp < 0x80 then [chr cp]
      else if cp < 0x800 then [chr (0xC0 OR drop_bit 6 cp), chr (0x80 OR (cp AND 0x3F))]
      else if cp < 0x10000 then
        [chr (0xE0 OR drop_bit 12 cp), chr (0x80 OR (drop_bit 6 cp AND 0x3F)), chr (0x80 OR (cp AND 0x3F))]
      else
        [chr (0xF0 OR drop_bit 18 cp), chr (0x80 OR (drop_bit 12 cp AND 0x3F)),
         chr (0x80 OR (drop_bit 6 cp AND 0x3F)), chr (0x80 OR (cp AND 0x3F))])"

definition xdigit_val :: "char \<Rightarrow> nat" where
  "xdigit_val c = (if is_digit c then ord c - 48 else if ord c \<ge> 97 then ord c - 87 else ord c - 55)"

text \<open>\<^verbatim>\<open>std::strtoul\<close> on digits of the base: a value out of range is the largest \<open>unsigned long\<close>.\<close>

definition strtoul :: "nat \<Rightarrow> string \<Rightarrow> nat" where
  "strtoul base ds = min (foldl (\<lambda>v c. v * base + xdigit_val c) 0 ds) (2 ^ 64 - 1)"

definition char_ref :: "string \<Rightarrow> string option" where
  "char_ref ent =
     (let hex = ent ! 1 = CHR ''x''; digits = drop (if hex then 2 else 1) ent
      in if digits = [] \<or> \<not> list_all (if hex then is_xdigit else is_digit) digits then None
         else Some (cp_bytes (strtoul (if hex then 16 else 10) digits)))"

definition entity :: "string \<Rightarrow> string option" where
  "entity ent =
     (if ent = ''lt'' then Some [CHR ''<'']
      else if ent = ''gt'' then Some [CHR ''>'']
      else if ent = ''amp'' then Some [CHR ''&'']
      else if ent = ''quot'' then Some [CHR 0x22]
      else if ent = ''apos'' then Some [CHR 0x27]
      else if length ent > 1 \<and> hd ent = CHR ''#'' then char_ref ent
      else None)"

lemma upto_char_eq:
  assumes "upto_char c r = Some (a, b)"
  shows "r = a @ b" "b \<noteq> []" "hd b = c" "c \<notin> set a"
proof -
  have c: "c \<in> set r" and ab: "a = takeWhile (\<lambda>x. x \<noteq> c) r" "b = dropWhile (\<lambda>x. x \<noteq> c) r"
    using assms by (auto simp: upto_char_def split: if_splits)
  show "r = a @ b" by (simp add: ab)
  show b: "b \<noteq> []" using c by (auto simp: ab dropWhile_eq_Nil_conv)
  show "hd b = c" using b hd_dropWhile[of "\<lambda>x. x \<noteq> c" r] by (simp add: ab)
  show "c \<notin> set a" by (auto simp: ab dest: set_takeWhileD)
qed

lemma upto_char_shorter: "upto_char c r = Some (a, b) \<Longrightarrow> length (tl b) < Suc (length r)"
  using upto_char_eq(1) by fastforce

function decode :: "string \<Rightarrow> string option" where
  "decode [] = Some []"
| "decode (c # t) =
     (if c = CHR ''<'' then None
      else if c \<noteq> CHR ''&'' then map_option ((#) c) (decode t)
      else case upto_char CHR '';'' t of
          None \<Rightarrow> None
        | Some (ent, r) \<Rightarrow>
            (case entity ent of None \<Rightarrow> None | Some e \<Rightarrow> map_option ((@) e) (decode (tl r))))"
  by pat_completeness auto

termination
  by (relation "measure length") (auto dest: upto_char_shorter)

section \<open>Names and namespaces\<close>

type_synonym scopes = "(string \<times> string) list list"

definition lookup_scope :: "string \<Rightarrow> scopes \<Rightarrow> string option" where
  "lookup_scope prefix scs = (case filter (\<lambda>sc. map_of sc prefix \<noteq> None) scs of [] \<Rightarrow> None | sc # _ \<Rightarrow> map_of sc prefix)"

text \<open>The namespace, the local name and the prefix of a qualified name; the innermost scope is the first.\<close>

definition resolve :: "scopes \<Rightarrow> string \<Rightarrow> bool \<Rightarrow> (string \<times> string \<times> string) option" where
  "resolve scs qname isAttr =
     (let (prefix, loc) = (case upto_char CHR '':'' qname of None \<Rightarrow> ([], qname) | Some (a, b) \<Rightarrow> (a, tl b))
      in if prefix = ''xml'' then Some (''http://www.w3.org/XML/1998/namespace'', loc, prefix)
         else if prefix = [] \<and> isAttr then Some ([], loc, prefix)
         else case lookup_scope prefix scs of
             Some ns \<Rightarrow> Some (ns, loc, prefix)
           | None \<Rightarrow> if prefix = [] then Some ([], loc, prefix) else None)"

section \<open>Attributes\<close>

definition attribute :: "string \<Rightarrow> (string \<times> string \<times> string) option" where
  "attribute r =
     (case read_name r of
        None \<Rightarrow> None
      | Some (an, r1) \<Rightarrow>
          (let r2 = skipWs r1
           in if r2 = [] \<or> hd r2 \<noteq> CHR ''='' then None
              else let r3 = skipWs (tl r2)
                   in if r3 = [] \<or> (hd r3 \<noteq> CHR 0x22 \<and> hd r3 \<noteq> CHR 0x27) then None
                      else case upto_char (hd r3) (tl r3) of
                          None \<Rightarrow> None
                        | Some (v, r4) \<Rightarrow>
                            (case decode v of None \<Rightarrow> None | Some val \<Rightarrow> Some (an, val, tl r4))))"

lemma skipWs_shorter: "length (skipWs r) \<le> length r"
  by (simp add: skipWs_def length_dropWhile_le)

lemma read_name_shorter: "read_name r = Some (n, t) \<Longrightarrow> length t < length r"
proof -
  assume "read_name r = Some (n, t)"
  then have "r \<noteq> []" "nameChar (hd r)" "t = dropWhile nameChar r"
    by (auto simp: read_name_def nameChar_def split: if_splits)
  then show ?thesis by (cases r) (auto simp: less_Suc_eq_le length_dropWhile_le)
qed

lemma attribute_shorter:
  assumes "attribute r = Some (an, val, t)"
  shows "length t < length r"
proof -
  obtain r1 where r1: "read_name r = Some (an, r1)"
    using assms by (auto simp: attribute_def Let_def split: option.splits if_splits)
  have *: "\<exists>v r4. upto_char (hd (skipWs (tl (skipWs r1)))) (tl (skipWs (tl (skipWs r1)))) = Some (v, r4) \<and> t = tl r4"
    using assms r1 by (auto simp: attribute_def Let_def split: option.splits if_splits)
  then obtain v r4 where "upto_char (hd (skipWs (tl (skipWs r1)))) (tl (skipWs (tl (skipWs r1)))) = Some (v, r4)" "t = tl r4" by blast
  then have "length t \<le> length (tl (skipWs (tl (skipWs r1))))"
    using upto_char_eq(1) by fastforce
  also have "\<dots> \<le> length r1" using skipWs_shorter[of "tl (skipWs r1)"] skipWs_shorter[of r1] by simp
  finally show ?thesis using read_name_shorter[OF r1] by simp
qed

text \<open>The attributes of a start tag, whether it closes itself, and the text after it.\<close>

function attributes :: "(string \<times> string) list \<Rightarrow> string \<Rightarrow> ((string \<times> string) list \<times> bool \<times> string) option" where
  "attributes raw r =
     (let r1 = skipWs r
      in if r1 = [] then None
         else if starts_with r1 ''/>'' then Some (raw, True, drop 2 r1)
         else if hd r1 = CHR ''>'' then Some (raw, False, tl r1)
         else case attribute r1 of
             None \<Rightarrow> None
           | Some (an, val, r2) \<Rightarrow> if an \<in> fst ` set raw then None else attributes (raw @ [(an, val)]) r2)"
  by pat_completeness auto

termination
proof (relation "measure (\<lambda>(raw, r). length r)", goal_cases)
  case (2 raw r r1 x an y val r2)
  then have "length r2 < length (skipWs r)" by (auto dest!: attribute_shorter)
  then show ?case using skipWs_shorter[of r] by simp
qed simp

declare attributes.simps [simp del]

definition is_decl :: "string \<Rightarrow> bool" where
  "is_decl an \<longleftrightarrow> an = ''xmlns'' \<or> starts_with an ''xmlns:''"

definition scope_of :: "(string \<times> string) list \<Rightarrow> (string \<times> string) list" where
  "scope_of raw =
     foldl (\<lambda>m (an, v). if an = ''xmlns'' then map_put [] v m
                        else if starts_with an ''xmlns:'' then map_put (drop 6 an) v m else m) [] raw"

fun resolve_attrs :: "scopes \<Rightarrow> (string \<times> string) list \<Rightarrow> XAttr list option" where
  "resolve_attrs scs [] = Some []"
| "resolve_attrs scs ((an, v) # raw) =
     (if is_decl an then resolve_attrs scs raw
      else case resolve scs an True of
          None \<Rightarrow> None
        | Some (ns, loc, _) \<Rightarrow> map_option ((#) \<lparr>a_ns = ns, a_local = loc, a_value = v\<rparr>) (resolve_attrs scs raw))"

section \<open>Elements\<close>

text \<open>
  The content of the element \<open>qn\<close> up to and with its end tag, \<open>elem\<close> the reader of a nested
  element, \<open>ks\<close> and \<open>tx\<close> the children and the text so far.
\<close>

fun content :: "nat \<Rightarrow> (string \<Rightarrow> (XNode \<times> string) option) \<Rightarrow> string \<Rightarrow> XNode list \<Rightarrow> string \<Rightarrow> string \<Rightarrow>
    (XNode list \<times> string \<times> string) option" where
  "content 0 elem qn ks tx r = None"
| "content (Suc n) elem qn ks tx r =
     (if r = [] then None
      else if starts_with r ''</'' then
        (case read_name (drop 2 r) of
           None \<Rightarrow> None
         | Some (en, r1) \<Rightarrow>
             if en \<noteq> qn then None
             else let r2 = skipWs r1 in if r2 = [] \<or> hd r2 \<noteq> CHR ''>'' then None else Some (ks, tx, tl r2))
      else if starts_with r ''<!--'' then
        (case skipTo ''-->'' r of None \<Rightarrow> None | Some r1 \<Rightarrow> content n elem qn ks tx r1)
      else if starts_with r ''<![CDATA['' then
        (case find_str '']]>'' r of
           None \<Rightarrow> None
         | Some e \<Rightarrow> content n elem qn ks (tx @ substr r 9 (e - 9)) (drop (e + 3) r))
      else if starts_with r ''<?'' then
        (case skipTo ''?>'' r of None \<Rightarrow> None | Some r1 \<Rightarrow> content n elem qn ks tx r1)
      else if hd r = CHR ''<'' then
        (case elem r of None \<Rightarrow> None | Some (k, r1) \<Rightarrow> content n elem qn (ks @ [k]) tx r1)
      else case upto_char CHR ''<'' r of
          None \<Rightarrow> None
        | Some (t, r1) \<Rightarrow> (case decode t of None \<Rightarrow> None | Some d \<Rightarrow> content n elem qn ks (tx @ d) r1))"

declare content.simps(2) [simp del]

fun element :: "nat \<Rightarrow> scopes \<Rightarrow> string \<Rightarrow> (XNode \<times> string) option" where
  "element 0 scs r = None"
| "element (Suc d) scs r =
     (case read_name (tl r) of
        None \<Rightarrow> None
      | Some (qn, r1) \<Rightarrow>
          (case attributes [] r1 of
             None \<Rightarrow> None
           | Some (raw, selfClose, r2) \<Rightarrow>
               (let scope = scope_of raw; scs' = scope # scs
                in case resolve scs' qn False of
                     None \<Rightarrow> None
                   | Some (ns, loc, prefix) \<Rightarrow>
                       (case resolve_attrs scs' raw of
                          None \<Rightarrow> None
                        | Some ats \<Rightarrow>
                            if selfClose then Some (XNode ns loc prefix ats scope [] [], r2)
                            else (case content (Suc (length r2)) (element d scs') qn [] [] r2 of
                                    None \<Rightarrow> None
                                  | Some (ks, tx, r3) \<Rightarrow> Some (XNode ns loc prefix ats scope ks tx, r3))))))"

definition kMaxDepth :: nat where
  "kMaxDepth = 201"

definition skip_doctype :: "string \<Rightarrow> string option" where
  "skip_doctype r =
     (case find_idx (\<lambda>c. c = CHR ''>'') r of
        None \<Rightarrow> None
      | Some gt \<Rightarrow>
          (case find_idx (\<lambda>c. c = CHR ''['') r of
             Some lb \<Rightarrow>
               if lb < gt then map_option (\<lambda>e. drop (lb + e + 2) r) (find_str '']>'' (drop lb r))
               else Some (drop (gt + 1) r)
           | None \<Rightarrow> Some (drop (gt + 1) r)))"

fun parse_loop :: "nat \<Rightarrow> XNode option \<Rightarrow> string \<Rightarrow> XNode option" where
  "parse_loop 0 root r = None"
| "parse_loop (Suc n) root r =
     (let r1 = skipWs r
      in if r1 = [] then root
         else if starts_with r1 ''<?'' then (case skipTo ''?>'' r1 of None \<Rightarrow> None | Some r2 \<Rightarrow> parse_loop n root r2)
         else if starts_with r1 ''<!--'' then (case skipTo ''-->'' r1 of None \<Rightarrow> None | Some r2 \<Rightarrow> parse_loop n root r2)
         else if starts_with r1 ''<!DOCTYPE'' then (case skip_doctype r1 of None \<Rightarrow> None | Some r2 \<Rightarrow> parse_loop n root r2)
         else if hd r1 = CHR ''<'' then
           (if root \<noteq> None then None
            else case element kMaxDepth [] r1 of None \<Rightarrow> None | Some (x, r2) \<Rightarrow> parse_loop n (Some x) r2)
         else if hd r1 = CHR 0x00 then parse_loop n root (tl r1)
         else None)"

declare parse_loop.simps(2) [simp del]

definition bom :: string where
  "bom = [CHR 0xEF, CHR 0xBB, CHR 0xBF]"

text \<open>\<open>Some x\<close> is the return value true with the root node \<open>x\<close>.\<close>

definition parseXml :: "string \<Rightarrow> XNode option" where
  "parseXml s = (let r = (if starts_with s bom then drop 3 s else s) in parse_loop (Suc (length r)) None r)"

section \<open>Written documents\<close>

text \<open>
  A document as a program writes it: pieces of text, and tags with their attributes, each with
  the blanks around it and its value between double quotes. Values and texts are escaped.
\<close>

type_synonym wattr = "string \<times> string \<times> string \<times> string"

datatype item = Txt string | Tag string "wattr list" "item list"

fun is_Tag :: "item \<Rightarrow> bool" where
  "is_Tag (Tag _ _ _) = True"
| "is_Tag (Txt _) = False"

definition render_attr :: "wattr \<Rightarrow> string" where
  "render_attr = (\<lambda>(pre, an, v, post). pre @ an @ [CHR ''='', CHR 0x22] @ v @ CHR 0x22 # post)"

fun render :: "item \<Rightarrow> string" where
  "render (Txt t) = t"
| "render (Tag q ats its) =
     ''<'' @ q @ concat (map render_attr ats) @ ''>'' @ concat (map render its) @ ''</'' @ q @ ''>''"

abbreviation renders :: "item list \<Rightarrow> string" where
  "renders its \<equiv> concat (map render its)"

definition qname_ok :: "string \<Rightarrow> bool" where
  "qname_ok q \<longleftrightarrow> q \<noteq> [] \<and> nameStart (hd q) \<and> list_all nameChar q"

definition attr_ok :: "wattr \<Rightarrow> bool" where
  "attr_ok = (\<lambda>(pre, an, v, post). pre \<noteq> [] \<and> list_all is_space pre \<and> list_all is_space post \<and>
     qname_ok an \<and> CHR 0x22 \<notin> set v \<and> decode v \<noteq> None)"

fun item_ok :: "item \<Rightarrow> bool" where
  "item_ok (Txt t) \<longleftrightarrow> decode t \<noteq> None"
| "item_ok (Tag q ats its) \<longleftrightarrow> qname_ok q \<and> list_all attr_ok ats \<and> distinct (map (fst \<circ> snd) ats) \<and> list_all item_ok its"

fun item_text :: "item \<Rightarrow> string" where
  "item_text (Txt t) = the (decode t)"
| "item_text (Tag _ _ _) = []"

definition raw_of :: "wattr list \<Rightarrow> (string \<times> string) list" where
  "raw_of ats = map (\<lambda>(_, an, v, _). (an, the (decode v))) ats"

fun node_of :: "scopes \<Rightarrow> item \<Rightarrow> XNode option" where
  "node_of scs (Txt t) = None"
| "node_of scs (Tag q ats its) =
     (let raw = raw_of ats; scs' = scope_of raw # scs
      in case resolve scs' q False of
           None \<Rightarrow> None
         | Some (ns, loc, prefix) \<Rightarrow>
             (case resolve_attrs scs' raw of
                None \<Rightarrow> None
              | Some xs \<Rightarrow>
                  map_option (\<lambda>ks. XNode ns loc prefix xs (scope_of raw) ks (concat (map item_text its)))
                    (those (map (node_of scs') (filter is_Tag its)))))"

fun idepth :: "item \<Rightarrow> nat" where
  "idepth (Txt _) = 0"
| "idepth (Tag _ _ its) = Suc (Max (insert 0 (set (map idepth its))))"

lemma lookup_scope_Cons: "lookup_scope p (sc # scs) = (case map_of sc p of Some u \<Rightarrow> Some u | None \<Rightarrow> lookup_scope p scs)"
  by (auto simp: lookup_scope_def)

subsection \<open>Characters and names\<close>

lemma name_chars [simp]:
  "nameStart c \<Longrightarrow> c \<noteq> CHR ''/''" "nameStart c \<Longrightarrow> c \<noteq> CHR ''!''" "nameStart c \<Longrightarrow> c \<noteq> CHR ''?''"
  "nameStart c \<Longrightarrow> c \<noteq> CHR ''>''" "nameStart c \<Longrightarrow> \<not> is_space c"
  "\<not> nameChar (CHR ''='')" "\<not> nameChar (CHR ''>'')"
  by (auto simp: nameStart_def nameChar_def is_upper_def is_lower_def is_space_def is_digit_def)

lemma space_chars [simp]: "is_space c \<Longrightarrow> \<not> nameChar c" "\<not> is_space CHR ''<''" "\<not> is_space CHR ''>''" "\<not> is_space CHR ''=''" "\<not> is_space CHR 0x22"
  by (auto simp: nameStart_def nameChar_def is_upper_def is_lower_def is_space_def is_digit_def)

lemma read_name_append:
  assumes "qname_ok q" "r = [] \<or> \<not> nameChar (hd r)"
  shows "read_name (q @ r) = Some (q, r)"
proof -
  have "takeWhile nameChar r = []" "dropWhile nameChar r = r" using assms(2) by (cases r; auto)+
  moreover have "\<forall>c\<in>set q. nameChar c" using assms(1) by (simp add: qname_ok_def list_all_iff)
  ultimately show ?thesis using assms(1) by (simp add: read_name_def qname_ok_def takeWhile_append2 dropWhile_append2)
qed

lemma skipWs_append: "list_all is_space w \<Longrightarrow> skipWs (w @ r) = skipWs r"
  by (simp add: skipWs_def list_all_iff dropWhile_append2)

lemma skipWs_stop: "r \<noteq> [] \<Longrightarrow> \<not> is_space (hd r) \<Longrightarrow> skipWs r = r"
  by (cases r) (auto simp: skipWs_def)

lemma upto_char_append: "c \<notin> set a \<Longrightarrow> upto_char c (a @ c # b) = Some (a, c # b)"
  unfolding upto_char_def by (induction a) auto

lemma decode_append: "decode a = Some x \<Longrightarrow> decode (a @ b) = map_option ((@) x) (decode b)"
proof (induction a arbitrary: x rule: decode.induct)
  case 1
  then show ?case by (cases "decode b") auto
next
  case (2 c t)
  show ?case
  proof (cases "c = CHR ''&''")
    case False
    with 2 show ?thesis by (cases "decode b") (auto split: if_splits)
  next
    case True
    then obtain ent r e y where u: "upto_char CHR '';'' t = Some (ent, r)" "entity ent = Some e" "decode (tl r) = Some y" "x = e @ y"
      using "2.prems" by (auto split: option.splits prod.splits)
    have r: "r = CHR '';'' # tl r" "CHR '';'' \<notin> set ent" "t = ent @ r" using upto_char_eq[OF u(1)] by (cases r; auto)+
    have "upto_char CHR '';'' (t @ b) = Some (ent, r @ b)"
      using upto_char_append[OF r(2), of "tl r @ b"] r(1,3) by (metis append_assoc append_Cons)
    moreover have "decode (tl r @ b) = map_option ((@) y) (decode b)" using "2.IH"(2)[OF _ _ u(1) refl u(2,3)] True by simp
    moreover have "tl (r @ b) = tl r @ b" using r(1) by (metis list.sel(3) append_Cons)
    ultimately show ?thesis using True u by (cases "decode b") simp_all
  qed
qed

lemma entity_no_lt: "entity e \<noteq> None \<Longrightarrow> CHR ''<'' \<notin> set e"
proof
  assume e: "entity e \<noteq> None" "CHR ''<'' \<in> set e"
  then have "length e > 1" "hd e = CHR ''#''" "char_ref e \<noteq> None" by (auto simp: entity_def split: if_splits)
  then obtain x t where xt: "e = CHR ''#'' # x # t" by (cases e; cases "tl e") auto
  with \<open>char_ref e \<noteq> None\<close> e(2) show False
    by (auto simp: char_ref_def Let_def is_xdigit_def is_digit_def list_all_iff split: if_splits)
qed

lemma decode_no_lt: "decode t \<noteq> None \<Longrightarrow> CHR ''<'' \<notin> set t"
proof (induction t rule: decode.induct)
  case (2 c t)
  show ?case
  proof (cases "c = CHR ''&''")
    case False
    with 2 show ?thesis by (auto split: if_splits)
  next
    case True
    then obtain ent r e where u: "upto_char CHR '';'' t = Some (ent, r)" "entity ent = Some e" "decode (tl r) \<noteq> None"
      using "2.prems" by (auto split: option.splits prod.splits)
    have "CHR ''<'' \<notin> set (tl r)" using "2.IH"(2)[OF _ _ u(1) refl u(2,3)] True by simp
    moreover have "t = ent @ CHR '';'' # tl r" using upto_char_eq[OF u(1)] by (cases r) auto
    moreover have "CHR ''<'' \<notin> set ent" using u(2) by (intro entity_no_lt) simp
    ultimately show ?thesis using True by simp
  qed
qed simp

subsection \<open>Attributes\<close>

lemma attribute_render:
  assumes "qname_ok an" "CHR 0x22 \<notin> set v" "decode v = Some x"
  shows "attribute (an @ [CHR ''='', CHR 0x22] @ v @ CHR 0x22 # r) = Some (an, x, r)"
proof -
  have "read_name (an @ [CHR ''='', CHR 0x22] @ v @ CHR 0x22 # r) = Some (an, CHR ''='' # CHR 0x22 # v @ CHR 0x22 # r)"
    using read_name_append[OF assms(1), of "CHR ''='' # CHR 0x22 # v @ CHR 0x22 # r"] by simp
  then show ?thesis
    using assms(2,3) by (simp add: attribute_def Let_def skipWs_stop upto_char_append)
qed

lemma attributes_render:
  assumes "list_all attr_ok ats" "distinct (map fst raw @ map (fst \<circ> snd) ats)" "list_all is_space w"
  shows "attributes raw (w @ concat (map render_attr ats) @ CHR ''>'' # r) = Some (raw @ raw_of ats, False, r)"
  using assms
proof (induction ats arbitrary: raw w)
  case Nil
  have "skipWs (w @ CHR ''>'' # r) = CHR ''>'' # r" using Nil.prems(3) by (simp add: skipWs_append skipWs_stop)
  then show ?case by (subst attributes.simps) (simp add: Let_def starts_with_def raw_of_def)
next
  case (Cons a ats)
  obtain pre an v post where a: "a = (pre, an, v, post)" by (cases a)
  then have ok: "pre \<noteq> []" "list_all is_space (w @ pre)" "list_all is_space post" "qname_ok an" "CHR 0x22 \<notin> set v" "decode v \<noteq> None"
    using Cons.prems by (auto simp: attr_ok_def)
  then obtain x where x: "decode v = Some x" by auto
  let ?r = "post @ concat (map render_attr ats) @ CHR ''>'' # r"
  let ?t = "an @ [CHR ''='', CHR 0x22] @ v @ CHR 0x22 # ?r"
  have an: "an \<noteq> []" "nameStart (hd an)" using ok(4) by (auto simp: qname_ok_def)
  have s: "skipWs (w @ concat (map render_attr (a # ats)) @ CHR ''>'' # r) = ?t"
    using skipWs_append[OF ok(2), of ?t] skipWs_stop[of ?t] an by (simp add: a render_attr_def)
  have h: "\<not> starts_with ?t ''/>''" "hd ?t \<noteq> CHR ''>''" "?t \<noteq> []" using an by (cases an; auto simp: starts_with_def)+
  have "an \<notin> fst ` set raw" using Cons.prems(2) by (auto simp: a)
  then have "attributes raw (w @ concat (map render_attr (a # ats)) @ CHR ''>'' # r) = attributes (raw @ [(an, x)]) ?r"
    unfolding attributes.simps[of raw] s Let_def using h attribute_render[OF ok(4,5) x] by simp
  also have "\<dots> = Some ((raw @ [(an, x)]) @ raw_of ats, False, r)"
    using Cons.prems ok(3) by (intro Cons.IH) (auto simp: a)
  finally show ?case by (simp add: raw_of_def a x)
qed

subsection \<open>Elements\<close>

lemma end_tag_starts [simp]: "starts_with (''</'' @ s) ''</''"
  by (simp add: starts_with_def)

lemma content_end:
  assumes "qname_ok q"
  shows "content (Suc n) elem q ks tx (''</'' @ q @ ''>'' @ rest) = Some (ks, tx, rest)"
  using read_name_append[OF assms, of "CHR ''>'' # rest"] by (simp add: content.simps starts_with_def skipWs_stop)

lemma content_text:
  assumes "decode u = Some u'" "u \<noteq> []" "r \<noteq> []" "hd r = CHR ''<''"
  shows "content (Suc n) elem q ks tx (u @ r) = content n elem q ks (tx @ u') r"
proof -
  have lt: "CHR ''<'' \<notin> set u" using assms(1) by (intro decode_no_lt) simp
  then have "hd u \<noteq> CHR ''<''" using assms(2) by (metis hd_in_set)
  moreover have "upto_char CHR ''<'' (u @ r) = Some (u, r)"
    using upto_char_append[OF lt, of "tl r"] assms(3,4) by (cases r) auto
  ultimately show ?thesis
    using assms(1,2) by (cases u) (simp_all add: content.simps starts_with_def)
qed

lemma render_Tag_hd:
  assumes "item_ok (Tag q ats its)"
  obtains c t where "render (Tag q ats its) = CHR ''<'' # c # t" "nameStart c"
  using assms by (cases q) (auto simp: qname_ok_def)

lemma content_tag:
  assumes "item_ok (Tag q' ats its)" "elem (render (Tag q' ats its) @ r) = Some (k, r)"
  shows "content (Suc n) elem q ks tx (render (Tag q' ats its) @ r) = content n elem q (ks @ [k]) tx r"
proof -
  obtain c t where ct: "render (Tag q' ats its) = CHR ''<'' # c # t" "nameStart c" using render_Tag_hd[OF assms(1)] .
  then have "c \<noteq> CHR ''/''" "c \<noteq> CHR ''!''" "c \<noteq> CHR ''?''" by auto
  then show ?thesis using assms(2) unfolding ct(1) by (simp add: content.simps starts_with_def)
qed

text \<open>\<open>u\<close> is text that was passed and not yet read, since adjacent texts are read as one.\<close>

lemma content_render:
  assumes "qname_ok q" "list_all item_ok its"
    "\<And>i r. i \<in> set its \<Longrightarrow> is_Tag i \<Longrightarrow> elem (render i @ r) = Some (f i, r)"
    "decode u = Some u'" "length u + length (renders its) < n"
  shows "content n elem q ks tx (u @ renders its @ ''</'' @ q @ ''>'' @ rest) =
    Some (ks @ map f (filter is_Tag its), tx @ u' @ concat (map item_text its), rest)"
  using assms
proof (induction its arbitrary: u u' n ks tx)
  case Nil
  then obtain m where n: "n = Suc m" by (cases n) auto
  show ?case
  proof (cases "u = []")
    case True
    with Nil n show ?thesis by (simp add: content_end[OF Nil.prems(1), simplified])
  next
    case False
    then obtain k where m: "m = Suc k" using Nil.prems(5) n by (cases m) auto
    show ?thesis
      unfolding n m by (simp add: content_text[OF Nil.prems(4) False] content_end[OF Nil.prems(1), simplified])
  qed
next
  case (Cons i its)
  show ?case
  proof (cases i)
    case (Txt t)
    then obtain t' where t: "decode t = Some t'" using Cons.prems(2) by auto
    have "content n elem q ks tx ((u @ t) @ renders its @ ''</'' @ q @ ''>'' @ rest) =
        Some (ks @ map f (filter is_Tag its), tx @ (u' @ t') @ concat (map item_text its), rest)"
      using Cons.prems t by (intro Cons.IH) (auto simp: Txt decode_append)
    then show ?thesis by (simp add: Txt t)
  next
    case (Tag q' ats its')
    have ok: "item_ok (Tag q' ats its')" using Cons.prems(2) Tag by simp
    let ?r = "renders its @ ''</'' @ q @ ''>'' @ rest"
    have e: "elem (render (Tag q' ats its') @ r) = Some (f i, r)" for r using Cons.prems(3)[of i r] Tag by simp
    have l: "0 < length (render (Tag q' ats its'))" by simp
    have step: "content m elem q ks tx (render (Tag q' ats its') @ ?r) =
        Some (ks @ f i # map f (filter is_Tag its), tx @ concat (map item_text its), rest)"
      if m: "length (render (Tag q' ats its') @ renders its) < m" for m tx
    proof -
      obtain k where k: "m = Suc k" using m by (cases m) auto
      have "content k elem q (ks @ [f i]) tx ([] @ ?r) =
          Some ((ks @ [f i]) @ map f (filter is_Tag its), tx @ [] @ concat (map item_text its), rest)"
        using Cons.prems m k l by (intro Cons.IH) auto
      moreover note content_tag[of q' ats its' elem ?r "f i", OF ok e]
      ultimately show ?thesis unfolding k by simp
    qed
    show ?thesis
    proof (cases "u = []")
      case True
      then show ?thesis using step[of n tx] Cons.prems(4,5) by (simp add: Tag)
    next
      case False
      then obtain k where k: "n = Suc k" "length (render (Tag q' ats its') @ renders its) < k"
        using Cons.prems(5) Tag by (cases n) (auto simp: Suc_le_eq neq_Nil_conv)
      have "content n elem q ks tx (u @ render (Tag q' ats its') @ ?r) =
          content k elem q ks (tx @ u') (render (Tag q' ats its') @ ?r)"
        unfolding k(1) by (rule content_text[OF Cons.prems(4) False]) auto
      then show ?thesis using step[OF k(2), of "tx @ u'"] by (simp add: Tag)
    qed
  qed
qed

lemma those_map: "those (map f xs) = Some ys \<Longrightarrow> ys = map (\<lambda>x. the (f x)) xs \<and> (\<forall>x\<in>set xs. f x \<noteq> None)"
  by (induction xs arbitrary: ys) (auto split: option.splits)

text \<open>An element is read back from its text, whatever follows it.\<close>

lemma element_render:
  "item_ok i \<Longrightarrow> idepth i \<le> d \<Longrightarrow> node_of scs i = Some x \<Longrightarrow> element d scs (render i @ rest) = Some (x, rest)"
proof (induction i arbitrary: d scs x rest)
  case (Tag q ats its)
  obtain d' where d: "d = Suc d'" using Tag.prems(2) by (cases d) auto
  let ?raw = "raw_of ats" and ?b = "renders its @ ''</'' @ q @ ''>'' @ rest"
  let ?scs = "scope_of ?raw # scs"
  have ok: "qname_ok q" "list_all attr_ok ats" "distinct (map (fst \<circ> snd) ats)" "list_all item_ok its"
    using Tag.prems(1) by auto
  obtain ns loc prefix xs ks where n: "resolve ?scs q False = Some (ns, loc, prefix)" "resolve_attrs ?scs ?raw = Some xs"
    "those (map (node_of ?scs) (filter is_Tag its)) = Some ks"
    "x = XNode ns loc prefix xs (scope_of ?raw) ks (concat (map item_text its))"
    using Tag.prems(3) by (auto simp: Let_def split: option.splits)
  note ks = those_map[OF n(3)]
  have e: "element d' ?scs (render i @ r) = Some (the (node_of ?scs i), r)" if "i \<in> set its" "is_Tag i" for i r
  proof (rule Tag.IH)
    show "i \<in> set its" by fact
    show "item_ok i" using ok(4) that(1) by (simp add: list_all_iff)
    show "idepth i \<le> d'" using Tag.prems(2) d that(1) by simp
    show "node_of ?scs i = Some (the (node_of ?scs i))" using ks that by auto
  qed
  have "read_name (q @ concat (map render_attr ats) @ CHR ''>'' # ?b) = Some (q, concat (map render_attr ats) @ CHR ''>'' # ?b)"
  proof (rule read_name_append[OF ok(1)])
    show "concat (map render_attr ats) @ CHR ''>'' # ?b = [] \<or> \<not> nameChar (hd (concat (map render_attr ats) @ CHR ''>'' # ?b))"
      using ok(2) by (cases ats) (auto simp: render_attr_def attr_ok_def neq_Nil_conv)
  qed
  moreover have "attributes [] (concat (map render_attr ats) @ CHR ''>'' # ?b) = Some (?raw, False, ?b)"
    using attributes_render[OF ok(2), of "[]" "[]" ?b] ok(3) by simp
  moreover have "content (Suc (length ?b)) (element d' ?scs) q [] [] ([] @ ?b) =
      Some ([] @ map (\<lambda>i. the (node_of ?scs i)) (filter is_Tag its), [] @ [] @ concat (map item_text its), rest)"
    by (rule content_render[OF ok(1,4) e]) auto
  ultimately show ?case
    using n ks by (simp add: d Let_def del: content.simps)
qed simp

section \<open>The reader consumes its text\<close>

fun xdepth :: "XNode \<Rightarrow> nat" where
  "xdepth (XNode _ _ _ _ _ ks _) = Suc (Max (insert 0 (set (map xdepth ks))))"

lemma skipTo_shorter:
  assumes "skipTo pat r = Some t" "pat \<noteq> []"
  shows "length t < length r"
proof -
  obtain e where e: "find_str pat r = Some e" "t = drop (e + length pat) r" using assms(1) by (auto simp: skipTo_def)
  have "0 < length pat" using assms(2) by simp
  then show ?thesis using find_str_Some[OF e(1)] unfolding e(2) length_drop by linarith
qed

lemma attributes_shorter: "attributes raw r = Some (raw', sc, t) \<Longrightarrow> length t < length r"
proof (induction raw r rule: attributes.induct)
  case (1 raw r)
  have s: "length (skipWs r) \<le> length r" by (rule skipWs_shorter)
  consider "skipWs r \<noteq> []" "t = drop 2 (skipWs r)" | "skipWs r \<noteq> []" "t = tl (skipWs r)"
    | an val r2 where "skipWs r \<noteq> []" "\<not> starts_with (skipWs r) ''/>''" "hd (skipWs r) \<noteq> CHR ''>''"
      "attribute (skipWs r) = Some (an, val, r2)" "an \<notin> fst ` set raw" "attributes (raw @ [(an, val)]) r2 = Some (raw', sc, t)"
    using "1.prems" unfolding attributes.simps[of raw] Let_def by (auto split: if_splits option.splits)
  then show ?case
  proof cases
    case 1
    then have "0 < length (skipWs r)" by simp
    then show ?thesis using s unfolding 1(2) length_drop by linarith
  next
    case 2
    then have "0 < length (skipWs r)" by simp
    then show ?thesis using s unfolding 2(2) length_tl by linarith
  next
    case 3
    from "1.IH"[OF refl 3(1-4) refl refl 3(5,6)] attribute_shorter[OF 3(4)] s show ?thesis by linarith
  qed
qed

text \<open>What the content loop relies on: a nested element takes text away and keeps within its level.\<close>

locale element_reader =
  fixes elem :: "string \<Rightarrow> (XNode \<times> string) option" and lim :: nat
  assumes shorter: "elem r = Some (x, t) \<Longrightarrow> length t < length r"
    and within: "elem r = Some (x, t) \<Longrightarrow> xdepth x \<le> lim"
begin

text \<open>One round of the loop ends it or goes on with a shorter text.\<close>

lemma content_round:
  obtains res where "\<And>m. content (Suc m) elem q ks tx r = res"
    "\<And>ks' tx' t. res = Some (ks', tx', t) \<Longrightarrow> ks' = ks \<and> length t < length r"
  | ks1 tx1 r1 where "\<And>m. content (Suc m) elem q ks tx r = content m elem q (ks @ ks1) tx1 r1"
    "length r1 < length r" "list_all (\<lambda>x. xdepth x \<le> lim) ks1"
proof -
  note c = content.simps(2)[of _ elem q ks tx r]
  consider (no) "r = []" | (ends) "r \<noteq> []" "starts_with r ''</''"
    | (comment) "r \<noteq> []" "\<not> starts_with r ''</''" "starts_with r ''<!--''"
    | (cdata) "r \<noteq> []" "\<not> starts_with r ''</''" "\<not> starts_with r ''<!--''" "starts_with r ''<![CDATA[''"
    | (pi) "r \<noteq> []" "\<not> starts_with r ''</''" "\<not> starts_with r ''<!--''" "\<not> starts_with r ''<![CDATA[''" "starts_with r ''<?''"
    | (tag) "r \<noteq> []" "\<not> starts_with r ''</''" "\<not> starts_with r ''<!--''" "\<not> starts_with r ''<![CDATA[''" "\<not> starts_with r ''<?''"
        "hd r = CHR ''<''"
    | (chars) "r \<noteq> []" "\<not> starts_with r ''</''" "\<not> starts_with r ''<!--''" "\<not> starts_with r ''<![CDATA[''" "\<not> starts_with r ''<?''"
        "hd r \<noteq> CHR ''<''"
    by blast
  then show thesis
  proof cases
    case no
    show thesis by (rule that(1)[of None]) (simp_all add: content.simps(2) no)
  next
    case ends
    show thesis
    proof (rule that(1)[of "content (Suc 0) elem q ks tx r"])
      fix ks' tx' t assume "content (Suc 0) elem q ks tx r = Some (ks', tx', t)"
      then obtain en r1 where "read_name (drop 2 r) = Some (en, r1)" "ks' = ks" "t = tl (skipWs r1)"
        using ends by (auto simp: c Let_def split: option.splits if_splits)
      with read_name_shorter[OF this(1)] skipWs_shorter[of r1] show "ks' = ks \<and> length t < length r" by simp
    qed (simp add: c ends)
  next
    case comment
    show thesis
    proof (cases "skipTo ''-->'' r")
      case None
      show thesis by (rule that(1)[of None]) (simp_all add: c comment None)
    next
      case (Some r1)
      show thesis by (rule that(2)[of "[]" tx r1]) (use skipTo_shorter[OF Some] in \<open>simp_all add: c comment Some\<close>)
    qed
  next
    case cdata
    show thesis
    proof (cases "find_str '']]>'' r")
      case None
      show thesis by (rule that(1)[of None]) (simp_all add: c cdata None)
    next
      case (Some e)
      have "e + 3 \<le> length r" using conjunct1[OF find_str_Some[OF Some]] by simp
      then have "length (drop (e + 3) r) < length r" unfolding length_drop by linarith
      then show thesis by (intro that(2)[of "[]" _ "drop (e + 3) r"]) (simp_all add: c cdata Some)
    qed
  next
    case pi
    show thesis
    proof (cases "skipTo ''?>'' r")
      case None
      show thesis by (rule that(1)[of None]) (simp_all add: c pi None)
    next
      case (Some r1)
      show thesis by (rule that(2)[of "[]" tx r1]) (use skipTo_shorter[OF Some] in \<open>simp_all add: c pi Some\<close>)
    qed
  next
    case tag
    show thesis
    proof (cases "elem r")
      case None
      show thesis by (rule that(1)[of None]) (simp_all add: c tag None)
    next
      case (Some p)
      then obtain k r1 where p: "elem r = Some (k, r1)" by (cases p) auto
      show thesis by (rule that(2)[of "[k]" tx r1]) (use shorter[OF p] within[OF p] in \<open>simp_all add: c tag p\<close>)
    qed
  next
    case chars
    show thesis
    proof (cases "\<exists>t r1 d. upto_char CHR ''<'' r = Some (t, r1) \<and> decode t = Some d")
      case True
      then obtain t r1 d where u: "upto_char CHR ''<'' r = Some (t, r1)" "decode t = Some d" by blast
      have "length r1 < length r" using upto_char_eq[OF u(1)] chars(6) by (cases t) auto
      then show thesis by (intro that(2)[of "[]" "tx @ d" r1]) (simp_all add: c chars u)
    next
      case False
      have "content (Suc m) elem q ks tx r = None" for m
        using False by (auto simp: c chars split: option.splits)
      then show thesis by (intro that(1)[of None]) simp_all
    qed
  qed
qed

lemma content_reads:
  "content n elem q ks tx r = Some (ks', tx', t) \<Longrightarrow> list_all (\<lambda>x. xdepth x \<le> lim) ks \<Longrightarrow>
   length t < length r \<and> list_all (\<lambda>x. xdepth x \<le> lim) ks'"
proof (induction n arbitrary: ks tx r)
  case (Suc n)
  show ?case
  proof (rule content_round[of q ks tx r])
    fix res assume r: "\<And>m. content (Suc m) elem q ks tx r = res"
      "\<And>ks' tx' t. res = Some (ks', tx', t) \<Longrightarrow> ks' = ks \<and> length t < length r"
    show ?thesis using r(2)[of ks' tx' t] Suc.prems r(1)[of n] by auto
  next
    fix ks1 tx1 r1 assume r: "\<And>m. content (Suc m) elem q ks tx r = content m elem q (ks @ ks1) tx1 r1"
      "length r1 < length r" "list_all (\<lambda>x. xdepth x \<le> lim) ks1"
    show ?thesis using Suc.IH[of "ks @ ks1" tx1 r1] Suc.prems r by auto
  qed
qed simp

end

lemma element_is_reader: "element_reader (element d scs) d"
proof (induction d arbitrary: scs)
  case 0
  show ?case by unfold_locales simp_all
next
  case (Suc d)
  have "length t < length r \<and> xdepth x \<le> Suc d" if el: "element (Suc d) scs r = Some (x, t)" for r x t
  proof -
    obtain qn r1 raw sc r2 where r: "read_name (tl r) = Some (qn, r1)" "attributes [] r1 = Some (raw, sc, r2)"
      using el by (auto split: option.splits)
    have l: "length r2 < length r" using read_name_shorter[OF r(1)] attributes_shorter[OF r(2)] by simp
    let ?scs = "scope_of raw # scs"
    consider "t = r2" "x_kids x = []"
      | ks tx where "content (Suc (length r2)) (element d ?scs) qn [] [] r2 = Some (ks, tx, t)" "x_kids x = ks"
      using el r by (auto simp: Let_def split: option.splits if_splits)
    then show ?thesis
    proof cases
      case 1
      then show ?thesis using l by (cases x) simp
    next
      case 2
      have "length t < length r2 \<and> list_all (\<lambda>x. xdepth x \<le> d) ks"
        using element_reader.content_reads[OF Suc 2(1)] by simp
      then show ?thesis using l 2(2) by (cases x) (auto simp: list_all_iff)
    qed
  qed
  then show ?case by unfold_locales blast+
qed

interpretation er: element_reader "element d scs" d for d scs
  by (rule element_is_reader)

section \<open>Documents\<close>

lemma skip_doctype_shorter:
  assumes "skip_doctype r = Some t"
  shows "length t < length r"
proof -
  obtain gt where gt: "find_idx (\<lambda>c. c = CHR ''>'') r = Some gt" using assms by (auto simp: skip_doctype_def split: option.splits)
  then have "gt < length r" by (simp add: find_idx_Some)
  moreover have "lb + e + 2 \<le> length r" if "find_str '']>'' (drop lb r) = Some e" for lb e
    using conjunct1[OF find_str_Some[OF that]] by simp
  ultimately show ?thesis
    using assms gt by (auto simp: skip_doctype_def split: option.splits if_splits)
qed

text \<open>One round over the document ends the loop or goes on with a shorter text.\<close>

lemma parse_round:
  obtains res where "\<And>m. parse_loop (Suc m) root r = res" "\<And>x. res = Some x \<Longrightarrow> root = Some x"
  | root1 r1 where "\<And>m. parse_loop (Suc m) root r = parse_loop m root1 r1" "length r1 < length r"
      "root1 = root \<or> (\<exists>x. root1 = Some x \<and> xdepth x \<le> kMaxDepth)"
proof -
  note stops = that(1) and goes = that(2)
  let ?r = "skipWs r"
  have w: "length ?r \<le> length r" by (rule skipWs_shorter)
  have opt: thesis
    if p: "\<And>m. parse_loop (Suc m) root r = (case o' of None \<Rightarrow> None | Some r2 \<Rightarrow> parse_loop m root r2)"
      and s: "\<And>t. o' = Some t \<Longrightarrow> length t < length ?r" for o'
  proof (cases o')
    case None
    show thesis by (rule stops[of None]) (simp_all add: p None)
  next
    case (Some r2)
    show thesis by (rule goes[of root r2]) (use s[OF Some] w in \<open>simp_all add: p Some\<close>)
  qed
  note c = parse_loop.simps(2)[of _ root r, unfolded Let_def]
  consider "?r = []" | "?r \<noteq> []" "starts_with ?r ''<?''" | "?r \<noteq> []" "\<not> starts_with ?r ''<?''" "starts_with ?r ''<!--''"
    | "?r \<noteq> []" "\<not> starts_with ?r ''<?''" "\<not> starts_with ?r ''<!--''" "starts_with ?r ''<!DOCTYPE''"
    | "?r \<noteq> []" "\<not> starts_with ?r ''<?''" "\<not> starts_with ?r ''<!--''" "\<not> starts_with ?r ''<!DOCTYPE''" "hd ?r = CHR ''<''"
    | "?r \<noteq> []" "\<not> starts_with ?r ''<?''" "\<not> starts_with ?r ''<!--''" "\<not> starts_with ?r ''<!DOCTYPE''" "hd ?r \<noteq> CHR ''<''"
    by blast
  then show thesis
  proof cases
    case 1
    show thesis by (rule stops[of root]) (simp_all add: c 1)
  next
    case 2
    show thesis by (rule opt[of "skipTo ''?>'' ?r"]) (simp_all add: c 2 skipTo_shorter)
  next
    case 3
    show thesis by (rule opt[of "skipTo ''-->'' ?r"]) (simp_all add: c 3 skipTo_shorter)
  next
    case 4
    show thesis by (rule opt[of "skip_doctype ?r"]) (simp_all add: c 4 skip_doctype_shorter)
  next
    case 5
    show thesis
    proof (cases "root = None \<and> element kMaxDepth [] ?r \<noteq> None")
      case True
      then obtain x r2 where e: "element kMaxDepth [] ?r = Some (x, r2)" by auto
      show thesis
        by (rule goes[of "Some x" r2]) (use er.shorter[OF e] er.within[OF e] w True in \<open>simp_all add: parse_loop.simps(2) 5 e\<close>)
    next
      case False
      then have "\<And>m. parse_loop (Suc m) root r = None" using 5 by (auto simp: c split: option.splits)
      then show thesis by (intro stops[of None]) simp_all
    qed
  next
    case 6
    show thesis
    proof (cases "hd ?r = CHR 0x00")
      case True
      have "length (tl ?r) < length r" using 6(1) w by (cases ?r) auto
      then show thesis by (intro goes[of root "tl ?r"]) (simp_all add: c 6 True)
    next
      case False
      show thesis by (rule stops[of None]) (simp_all add: c 6 False)
    qed
  qed
qed

lemma parse_loop_depth:
  "parse_loop n root r = Some x \<Longrightarrow> (\<And>y. root = Some y \<Longrightarrow> xdepth y \<le> kMaxDepth) \<Longrightarrow> xdepth x \<le> kMaxDepth"
proof (induction n arbitrary: root r)
  case (Suc n)
  show ?case
  proof (rule parse_round[of root r])
    fix res assume r: "\<And>m. parse_loop (Suc m) root r = res" "\<And>x. res = Some x \<Longrightarrow> root = Some x"
    show ?thesis using r(2)[of x] r(1)[of n] Suc.prems by auto
  next
    fix root1 r1 assume r: "\<And>m. parse_loop (Suc m) root r = parse_loop m root1 r1"
      "root1 = root \<or> (\<exists>x. root1 = Some x \<and> xdepth x \<le> kMaxDepth)"
    show ?thesis using Suc.IH[of root1 r1] Suc.prems r by auto
  qed
qed simp

text \<open>
  The loops of the reader as the code has them, without a bound on their rounds: the outer option
  is a loop that does not return.
\<close>

partial_function (option) content_loop ::
    "(string \<Rightarrow> (XNode \<times> string) option option) \<Rightarrow> string \<Rightarrow> XNode list \<Rightarrow> string \<Rightarrow> string \<Rightarrow> (XNode list \<times> string \<times> string) option option" where
  "content_loop elem qn ks tx r =
     (if r = [] then Some None
      else if starts_with r ''</'' then
        (case read_name (drop 2 r) of
           None \<Rightarrow> Some None
         | Some (en, r1) \<Rightarrow>
             if en \<noteq> qn then Some None
             else let r2 = skipWs r1 in if r2 = [] \<or> hd r2 \<noteq> CHR ''>'' then Some None else Some (Some (ks, tx, tl r2)))
      else if starts_with r ''<!--'' then
        (case skipTo ''-->'' r of None \<Rightarrow> Some None | Some r1 \<Rightarrow> content_loop elem qn ks tx r1)
      else if starts_with r ''<![CDATA['' then
        (case find_str '']]>'' r of
           None \<Rightarrow> Some None
         | Some e \<Rightarrow> content_loop elem qn ks (tx @ substr r 9 (e - 9)) (drop (e + 3) r))
      else if starts_with r ''<?'' then
        (case skipTo ''?>'' r of None \<Rightarrow> Some None | Some r1 \<Rightarrow> content_loop elem qn ks tx r1)
      else if hd r = CHR ''<'' then
        (case elem r of
           None \<Rightarrow> None
         | Some None \<Rightarrow> Some None
         | Some (Some (k, r1)) \<Rightarrow> content_loop elem qn (ks @ [k]) tx r1)
      else case upto_char CHR ''<'' r of
          None \<Rightarrow> Some None
        | Some (t, r1) \<Rightarrow> (case decode t of None \<Rightarrow> Some None | Some d \<Rightarrow> content_loop elem qn ks (tx @ d) r1))"

fun element_loop :: "nat \<Rightarrow> scopes \<Rightarrow> string \<Rightarrow> (XNode \<times> string) option option" where
  "element_loop 0 scs r = Some None"
| "element_loop (Suc d) scs r =
     (case read_name (tl r) of
        None \<Rightarrow> Some None
      | Some (qn, r1) \<Rightarrow>
          (case attributes [] r1 of
             None \<Rightarrow> Some None
           | Some (raw, selfClose, r2) \<Rightarrow>
               (let scope = scope_of raw; scs' = scope # scs
                in case resolve scs' qn False of
                     None \<Rightarrow> Some None
                   | Some (ns, loc, prefix) \<Rightarrow>
                       (case resolve_attrs scs' raw of
                          None \<Rightarrow> Some None
                        | Some ats \<Rightarrow>
                            if selfClose then Some (Some (XNode ns loc prefix ats scope [] [], r2))
                            else (case content_loop (element_loop d scs') qn [] [] r2 of
                                    None \<Rightarrow> None
                                  | Some None \<Rightarrow> Some None
                                  | Some (Some (ks, tx, r3)) \<Rightarrow> Some (Some (XNode ns loc prefix ats scope ks tx, r3)))))))"

partial_function (option) document_loop :: "XNode option \<Rightarrow> string \<Rightarrow> XNode option option" where
  "document_loop root r =
     (let r1 = skipWs r
      in if r1 = [] then Some root
         else if starts_with r1 ''<?'' then (case skipTo ''?>'' r1 of None \<Rightarrow> Some None | Some r2 \<Rightarrow> document_loop root r2)
         else if starts_with r1 ''<!--'' then (case skipTo ''-->'' r1 of None \<Rightarrow> Some None | Some r2 \<Rightarrow> document_loop root r2)
         else if starts_with r1 ''<!DOCTYPE'' then (case skip_doctype r1 of None \<Rightarrow> Some None | Some r2 \<Rightarrow> document_loop root r2)
         else if hd r1 = CHR ''<'' then
           (if root \<noteq> None then Some None
            else case element_loop kMaxDepth [] r1 of
                None \<Rightarrow> None | Some None \<Rightarrow> Some None | Some (Some (x, r2)) \<Rightarrow> document_loop (Some x) r2)
         else if hd r1 = CHR 0x00 then document_loop root (tl r1)
         else Some None)"

context element_reader
begin

lemma content_loop_returns:
  assumes el: "\<And>r. eloop r = Some (elem r)"
  shows "length r < n \<Longrightarrow> content_loop eloop q ks tx r = Some (content n elem q ks tx r)"
proof (induction n arbitrary: ks tx r)
  case (Suc n)
  have IH: "content_loop eloop q ks' tx' r1 = Some (content n elem q ks' tx' r1)" if "length r1 < length r" for r1 ks' tx'
    using Suc that by simp
  have skip: "content_loop eloop q ks' tx' r1 = Some (content n elem q ks' tx' r1)"
    if "skipTo pat r = Some r1" "pat \<noteq> []" for pat r1 ks' tx'
    using IH skipTo_shorter[OF that] by blast
  have cdata: "content_loop eloop q ks' tx' (drop (e + 3) r) = Some (content n elem q ks' tx' (drop (e + 3) r))"
    if "find_str '']]>'' r = Some e" for e ks' tx'
    using IH conjunct1[OF find_str_Some[OF that]] by simp
  have tag: "content_loop eloop q ks' tx' r1 = Some (content n elem q ks' tx' r1)" if "elem r = Some (k, r1)" for k r1 ks' tx'
    using IH shorter[OF that] by blast
  have chars: "content_loop eloop q ks' tx' r1 = Some (content n elem q ks' tx' r1)"
    if "upto_char CHR ''<'' r = Some (t, r1)" "hd r \<noteq> CHR ''<''" for t r1 ks' tx'
    by (rule IH) (use upto_char_eq[OF that(1)] that(2) in \<open>cases t; auto\<close>)
  note c = content_loop.simps[of eloop q ks tx r] content.simps(2)[of n elem q ks tx r]
  consider "r = []" | "r \<noteq> []" "starts_with r ''</''"
    | "r \<noteq> []" "\<not> starts_with r ''</''" "starts_with r ''<!--''"
    | "r \<noteq> []" "\<not> starts_with r ''</''" "\<not> starts_with r ''<!--''" "starts_with r ''<![CDATA[''"
    | "r \<noteq> []" "\<not> starts_with r ''</''" "\<not> starts_with r ''<!--''" "\<not> starts_with r ''<![CDATA[''" "starts_with r ''<?''"
    | "r \<noteq> []" "\<not> starts_with r ''</''" "\<not> starts_with r ''<!--''" "\<not> starts_with r ''<![CDATA[''" "\<not> starts_with r ''<?''"
        "hd r = CHR ''<''"
    | "r \<noteq> []" "\<not> starts_with r ''</''" "\<not> starts_with r ''<!--''" "\<not> starts_with r ''<![CDATA[''" "\<not> starts_with r ''<?''"
        "hd r \<noteq> CHR ''<''"
    by blast
  then show ?case
  proof cases
    case 1
    then show ?thesis by (simp add: content_loop.simps content.simps(2))
  next
    case 2
    then show ?thesis by (simp add: c Let_def split: option.split)
  next
    case 3
    then show ?thesis by (simp add: c split: option.split) (use skip in blast)
  next
    case 4
    then show ?thesis by (simp add: c split: option.split) (use cdata in blast)
  next
    case 5
    then show ?thesis by (simp add: c split: option.split) (use skip in blast)
  next
    case 6
    then show ?thesis by (simp add: c el[of r] split: option.split) (use tag in blast)
  next
    case 7
    then show ?thesis by (simp add: c split: option.split) (use chars in blast)
  qed
qed simp

end

lemma element_loop_returns: "element_loop d scs r = Some (element d scs r)"
proof (induction d arbitrary: scs r)
  case (Suc d)
  have "content_loop (element_loop d scs') q [] [] r2 = Some (content (Suc (length r2)) (element d scs') q [] [] r2)" for scs' q r2
    by (rule er.content_loop_returns) (simp_all add: Suc)
  then show ?case by (simp add: Let_def split: option.split)
qed simp

lemma document_loop_returns: "length r < n \<Longrightarrow> document_loop root r = Some (parse_loop n root r)"
proof (induction n arbitrary: root r)
  case (Suc n)
  let ?r = "skipWs r"
  have IH: "document_loop root' r1 = Some (parse_loop n root' r1)" if "length r1 < length ?r" for r1 root'
    using Suc that skipWs_shorter[of r] by simp
  have skip: "document_loop root' r1 = Some (parse_loop n root' r1)" if "skipTo pat ?r = Some r1" "pat \<noteq> []" for pat r1 root'
    using IH skipTo_shorter[OF that] by blast
  have doctype: "document_loop root' r1 = Some (parse_loop n root' r1)" if "skip_doctype ?r = Some r1" for r1 root'
    using IH skip_doctype_shorter[OF that] by blast
  have tag: "document_loop root' r1 = Some (parse_loop n root' r1)" if "element kMaxDepth [] ?r = Some (x, r1)" for x r1 root'
    using IH er.shorter[OF that] by blast
  have nul: "document_loop root' (tl ?r) = Some (parse_loop n root' (tl ?r))" if "?r \<noteq> []" for root'
    using IH[of "tl ?r"] that by simp
  note c = document_loop.simps[of root r] parse_loop.simps(2)[of n root r]
  consider "?r = []" | "?r \<noteq> []" "starts_with ?r ''<?''" | "?r \<noteq> []" "\<not> starts_with ?r ''<?''" "starts_with ?r ''<!--''"
    | "?r \<noteq> []" "\<not> starts_with ?r ''<?''" "\<not> starts_with ?r ''<!--''" "starts_with ?r ''<!DOCTYPE''"
    | "?r \<noteq> []" "\<not> starts_with ?r ''<?''" "\<not> starts_with ?r ''<!--''" "\<not> starts_with ?r ''<!DOCTYPE''" "hd ?r = CHR ''<''"
    | "?r \<noteq> []" "\<not> starts_with ?r ''<?''" "\<not> starts_with ?r ''<!--''" "\<not> starts_with ?r ''<!DOCTYPE''" "hd ?r \<noteq> CHR ''<''"
    by blast
  then show ?case
  proof cases
    case 1
    then show ?thesis by (simp add: c Let_def)
  next
    case 2
    then show ?thesis by (simp add: c Let_def split: option.split) (use skip in blast)
  next
    case 3
    then show ?thesis by (simp add: c Let_def split: option.split) (use skip in blast)
  next
    case 4
    then show ?thesis by (simp add: c Let_def split: option.split) (use doctype in blast)
  next
    case 5
    then show ?thesis by (simp add: c Let_def element_loop_returns split: option.split) (use tag in blast)
  next
    case 6
    then show ?thesis by (simp add: c Let_def nul)
  qed
qed simp

text \<open>
  C24. The XML reader returns on every text: run as the code runs it, with no bound on the rounds
  of its loops over the document and over the content of an element, it comes to an end with the
  answer of the model, a tree or a refusal, so the bounds of the model are never the reason for an
  answer; the tree is at most 201 levels deep.
\<close>

theorem parseXml_bounded:
  "document_loop None (if starts_with s bom then drop 3 s else s) = Some (parseXml s) \<and>
   (case parseXml s of None \<Rightarrow> True | Some x \<Rightarrow> xdepth x \<le> 201)"
proof -
  define r where "r = (if starts_with s bom then drop 3 s else s)"
  have p: "parseXml s = parse_loop (Suc (length r)) None r" by (simp add: parseXml_def r_def Let_def)
  have "xdepth x \<le> 201" if "parseXml s = Some x" for x
    using parse_loop_depth[of "Suc (length r)" None r x] that by (simp add: p kMaxDepth_def)
  moreover have "document_loop None r = Some (parseXml s)" unfolding p by (rule document_loop_returns) simp
  ultimately show ?thesis unfolding r_def[symmetric] by (simp split: option.split)
qed

subsection \<open>Reading a written document\<close>

lemma parse_loop_blank: "list_all is_space w \<Longrightarrow> parse_loop (Suc n) root (w @ r) = parse_loop (Suc n) root r"
  by (simp add: parse_loop.simps skipWs_append)

lemma parse_loop_end: "list_all is_space w \<Longrightarrow> parse_loop (Suc n) root w = root"
  using skipWs_append[of w "[]"] by (simp add: parse_loop.simps skipWs_def)

lemma parse_loop_pi:
  assumes "skipTo ''?>'' (''<?'' @ r) = Some t"
  shows "parse_loop (Suc n) root (''<?'' @ r) = parse_loop n root t"
  using assms by (simp add: parse_loop.simps skipWs_def starts_with_def)

lemma parse_loop_root:
  assumes "item_ok (Tag q ats its)" "idepth (Tag q ats its) \<le> 201" "node_of [] (Tag q ats its) = Some x"
  shows "parse_loop (Suc n) None (render (Tag q ats its) @ r) = parse_loop n (Some x) r"
proof -
  obtain c t where ct: "render (Tag q ats its) = CHR ''<'' # c # t" "nameStart c" using render_Tag_hd[OF assms(1)] .
  then have "c \<noteq> CHR ''!''" "c \<noteq> CHR ''?''" by auto
  moreover have "element kMaxDepth [] (render (Tag q ats its) @ r) = Some (x, r)"
    by (rule element_render) (use assms in \<open>simp_all add: kMaxDepth_def\<close>)
  ultimately show ?thesis unfolding ct(1) by (simp add: parse_loop.simps skipWs_def starts_with_def)
qed

text \<open>
  C23. A written document is read back: blanks, an element of well-formed names, attributes in
  double quotes and character data whose references decode, and blanks again, give the node
  that the names resolve to, with every attribute value and text decoded, as long as the tags
  nest at most 201 deep.
\<close>

theorem parseXml_rendered:
  assumes "item_ok (Tag q ats its)" "idepth (Tag q ats its) \<le> 201" "node_of [] (Tag q ats its) = Some x"
    "list_all is_space w" "list_all is_space w'"
  shows "parseXml (w @ render (Tag q ats its) @ w') = Some x"
proof -
  let ?s = "w @ render (Tag q ats its) @ w'"
  have "\<not> starts_with ?s bom"
    using assms(4) by (cases w) (auto simp: starts_with_def bom_def is_space_def)
  then have "parseXml ?s = parse_loop (Suc (length ?s)) None ?s" by (simp add: parseXml_def)
  also have "\<dots> = parse_loop (length ?s) (Some x) w'"
    by (simp only: parse_loop_blank[OF assms(4)] parse_loop_root[OF assms(1-3)])
  also have "\<dots> = Some x"
    using parse_loop_end[OF assms(5), of "length ?s - 1" "Some x"] by simp
  finally show ?thesis .
qed

theorem parseXml_rendered_witness:
  "parseXml ('' <a:b x='' @ CHR 0x22 # ''1 &lt; 2'' @ CHR 0x22 # '' xmlns:a='' @ CHR 0x22 # ''urn:n'' @ CHR 0x22 # ''>t&amp;u<a:c></a:c></a:b> '') =
   Some (XNode ''urn:n'' ''b'' ''a'' [\<lparr>a_ns = [], a_local = ''x'', a_value = ''1 < 2''\<rparr>] [(''a'', ''urn:n'')]
     [XNode ''urn:n'' ''c'' ''a'' [] [] [] []] ''t&u'')"
proof -
  let ?t = "Tag ''a:b'' [('' '', ''x'', ''1 &lt; 2'', []), ('' '', ''xmlns:a'', ''urn:n'', [])] [Txt ''t&amp;u'', Tag ''a:c'' [] []]"
  have "item_ok ?t" "idepth ?t \<le> 201" by code_simp+
  moreover have "node_of [] ?t = Some (XNode ''urn:n'' ''b'' ''a'' [\<lparr>a_ns = [], a_local = ''x'', a_value = ''1 < 2''\<rparr>] [(''a'', ''urn:n'')]
     [XNode ''urn:n'' ''c'' ''a'' [] [] [] []] ''t&u'')" by code_simp
  moreover have "list_all is_space '' ''" by (simp add: is_space_def)
  ultimately have "parseXml ('' '' @ render ?t @ '' '') = Some (XNode ''urn:n'' ''b'' ''a''
      [\<lparr>a_ns = [], a_local = ''x'', a_value = ''1 < 2''\<rparr>] [(''a'', ''urn:n'')] [XNode ''urn:n'' ''c'' ''a'' [] [] [] []] ''t&u'')"
    by (intro parseXml_rendered)
  then show ?thesis by (simp add: render_attr_def)
qed

end
