(* ===== verification/Xmp.thy ===== *)
theory Xmp
  imports Xml
begin

text \<open>
  XMP packets and their checks (\<^verbatim>\<open>profile_xmpcheck.cpp\<close>): the properties of a packet,
  their value types, the extension schemas that describe further properties, the tables of
  predefined properties, the check of a packet against PDF/A and the comparison with the
  document information. Lookups never depend on the order of a \<^verbatim>\<open>std::map\<close>, so maps are
  functions here.
\<close>

section \<open>Namespaces\<close>

definition kRdf :: string where "kRdf = ''http://www.w3.org/1999/02/22-rdf-syntax-ns#''"
definition kXmlNs :: string where "kXmlNs = ''http://www.w3.org/XML/1998/namespace''"
definition kExtNs :: string where "kExtNs = ''http://www.aiim.org/pdfa/ns/extension/''"
definition kSchemaNs :: string where "kSchemaNs = ''http://www.aiim.org/pdfa/ns/schema#''"
definition kPropNs :: string where "kPropNs = ''http://www.aiim.org/pdfa/ns/property#''"
definition kTypeNs :: string where "kTypeNs = ''http://www.aiim.org/pdfa/ns/type#''"
definition kFieldNs :: string where "kFieldNs = ''http://www.aiim.org/pdfa/ns/field#''"
definition kDc :: string where "kDc = ''http://purl.org/dc/elements/1.1/''"
definition kXmp :: string where "kXmp = ''http://ns.adobe.com/xap/1.0/''"
definition kRights :: string where "kRights = ''http://ns.adobe.com/xap/1.0/rights/''"
definition kMM :: string where "kMM = ''http://ns.adobe.com/xap/1.0/mm/''"
definition kBJ :: string where "kBJ = ''http://ns.adobe.com/xap/1.0/bj/''"
definition kTPg :: string where "kTPg = ''http://ns.adobe.com/xap/1.0/t/pg/''"
definition kDM :: string where "kDM = ''http://ns.adobe.com/xmp/1.0/DynamicMedia/''"
definition kPdf :: string where "kPdf = ''http://ns.adobe.com/pdf/1.3/''"
definition kPs :: string where "kPs = ''http://ns.adobe.com/photoshop/1.0/''"
definition kTiff :: string where "kTiff = ''http://ns.adobe.com/tiff/1.0/''"
definition kExif :: string where "kExif = ''http://ns.adobe.com/exif/1.0/''"
definition kAux :: string where "kAux = ''http://ns.adobe.com/exif/1.0/aux/''"
definition kCrs :: string where "kCrs = ''http://ns.adobe.com/camera-raw-settings/1.0/''"
definition kIdq :: string where "kIdq = ''http://ns.adobe.com/xmp/Identifier/qual/1.0/''"
definition kPdfaId :: string where "kPdfaId = ''http://www.aiim.org/pdfa/ns/id/''"
definition kPdfeId :: string where "kPdfeId = ''http://www.aiim.org/pdfe/ns/id/''"
definition kPdfxId :: string where "kPdfxId = ''http://www.npes.org/pdfx/ns/id/''"
definition kPdfvtId :: string where "kPdfvtId = ''http://www.npes.org/pdfvt/ns/id/''"
definition kStRef :: string where "kStRef = ''http://ns.adobe.com/xap/1.0/sType/ResourceRef#''"
definition kStEvt :: string where "kStEvt = ''http://ns.adobe.com/xap/1.0/sType/ResourceEvent#''"
definition kStVer :: string where "kStVer = ''http://ns.adobe.com/xap/1.0/sType/Version#''"
definition kStDim :: string where "kStDim = ''http://ns.adobe.com/xap/1.0/sType/Dimensions#''"
definition kStJob :: string where "kStJob = ''http://ns.adobe.com/xap/1.0/sType/Job#''"
definition kStFnt :: string where "kStFnt = ''http://ns.adobe.com/xap/1.0/sType/Font#''"
definition kXapG :: string where "kXapG = ''http://ns.adobe.com/xap/1.0/g/''"
definition kXapGImg :: string where "kXapGImg = ''http://ns.adobe.com/xap/1.0/g/img/''"

section \<open>Properties of a packet\<close>

datatype XProp = XProp (p_ns: string) (p_prefix: string) (p_name: string) (p_kind: nat) (p_arr: string)
  (p_value: string) (p_hasLang: bool) (p_lang: string) (p_kids: "XProp list")

record XPacket =
  pk_ok :: bool
  pk_props :: "XProp list"
  pk_decls :: "(string \<times> string) list"

definition isRdf :: "XNode \<Rightarrow> string \<Rightarrow> bool" where
  "isRdf n loc \<longleftrightarrow> x_ns n = kRdf \<and> x_local n = loc"

definition attrOf :: "XNode \<Rightarrow> string \<Rightarrow> string \<Rightarrow> string option" where
  "attrOf n ns loc = map_option a_value (find (\<lambda>a. a_ns a = ns \<and> a_local a = loc) (x_attrs n))"

definition plainAttr :: "XAttr \<Rightarrow> bool" where
  "plainAttr a \<longleftrightarrow> a_ns a \<noteq> [] \<and> a_ns a \<noteq> kRdf \<and> a_ns a \<noteq> kXmlNs"

definition fromAttr :: "XAttr \<Rightarrow> XProp" where
  "fromAttr a = XProp (a_ns a) [] (a_local a) 0 [] (a_value a) False [] []"

definition attr_props :: "XNode \<Rightarrow> XProp list" where
  "attr_props n = map fromAttr (filter plainAttr (x_attrs n))"

definition is_value_field :: "XProp \<Rightarrow> bool" where
  "is_value_field f \<longleftrightarrow> p_ns f = kRdf \<and> p_name f = ''value''"

definition renamed :: "XNode \<Rightarrow> XProp \<Rightarrow> XProp" where
  "renamed e f = XProp (x_ns e) (x_prefix e) (x_local e) (p_kind f) (p_arr f) (p_value f) (p_hasLang f) (p_lang f) (p_kids f)"

definition is_array :: "XNode \<Rightarrow> bool" where
  "is_array c \<longleftrightarrow> isRdf c ''Bag'' \<or> isRdf c ''Seq'' \<or> isRdf c ''Alt''"

text \<open>
  A property as the node \<open>e\<close> writes it, from its kind, array name, value and fields; a struct
  (\<^verbatim>\<open>fillStruct\<close>) has the plain attributes of its holder and then its children.
\<close>

definition mkProp :: "XNode \<Rightarrow> nat \<Rightarrow> string \<Rightarrow> string \<Rightarrow> XProp list \<Rightarrow> XProp" where
  "mkProp e kind arr val ks =
     (let lang = attrOf e kXmlNs ''lang''
      in XProp (x_ns e) (x_prefix e) (x_local e) kind arr val (lang \<noteq> None) (case lang of Some l \<Rightarrow> l | None \<Rightarrow> []) ks)"

lemma size_kid: "k \<in> set (x_kids e) \<Longrightarrow> size k < size e"
  by (cases e) (auto dest: size_list_estimation'[of _ _ _ size, OF _ order_refl])

function parseProp :: "XNode \<Rightarrow> XProp" where
  "parseProp e =
     (case attrOf e kRdf ''resource'' of
        Some v \<Rightarrow> mkProp e 0 [] v []
      | None \<Rightarrow>
          if attrOf e kRdf ''parseType'' = Some ''Resource'' then mkProp e 1 [] [] (attr_props e @ map parseProp (x_kids e))
          else if attrOf e kRdf ''parseType'' = Some ''Literal'' then mkProp e 0 [] (x_text e) []
          else (case x_kids e of
              [] \<Rightarrow> if list_ex plainAttr (x_attrs e) then mkProp e 1 [] [] (attr_props e) else mkProp e 0 [] (x_text e) []
            | c # cs \<Rightarrow>
                if cs = [] \<and> is_array c then mkProp e 2 (x_local c) [] (map parseProp (x_kids c))
                else if cs = [] \<and> isRdf c ''Description'' then
                  (let fs = attr_props c @ map parseProp (x_kids c)
                   in case find is_value_field fs of Some f \<Rightarrow> renamed e f | None \<Rightarrow> mkProp e 1 [] [] fs)
                else mkProp e 1 [] [] (attr_props e @ map parseProp (c # cs))))"
  by pat_completeness auto

termination
proof (relation "measure size", goal_cases)
  case (2 e k)
  then show ?case by (simp add: size_kid)
next
  case (3 e c cs k)
  then have "size k < size c" "size c < size e" by (auto intro: size_kid)
  then show ?case by simp
next
  case (4 e c cs k)
  then have "size k < size c" "size c < size e" by (auto intro: size_kid)
  then show ?case by simp
next
  case (5 e c cs k)
  then show ?case by (auto intro: size_kid)
qed simp

declare parseProp.simps [simp del]

fun first_some :: "('a \<Rightarrow> 'b option) \<Rightarrow> 'a list \<Rightarrow> 'b option" where
  "first_some f [] = None"
| "first_some f (x # xs) = (case f x of Some y \<Rightarrow> Some y | None \<Rightarrow> first_some f xs)"

text \<open>The argument counts the levels left: a node at depth 9 is looked at, its children are not.\<close>

primrec findRdf :: "nat \<Rightarrow> XNode \<Rightarrow> XNode option" where
  "findRdf 0 n = (if isRdf n ''RDF'' then Some n else None)"
| "findRdf (Suc k) n = (if isRdf n ''RDF'' then Some n else first_some (findRdf k) (x_kids n))"

fun collectDecls :: "XNode \<Rightarrow> (string \<times> string) list" where
  "collectDecls (XNode _ _ _ _ ds ks _) = ds @ concat (map collectDecls ks)"

definition description_props :: "XNode \<Rightarrow> XProp list" where
  "description_props d = attr_props d @ map parseProp (x_kids d)"

definition parsePacket :: "string \<Rightarrow> XPacket" where
  "parsePacket s =
     (case parseXml s of
        None \<Rightarrow> \<lparr>pk_ok = False, pk_props = [], pk_decls = []\<rparr>
      | Some root \<Rightarrow>
          (case findRdf 9 root of
             None \<Rightarrow> \<lparr>pk_ok = False, pk_props = [], pk_decls = []\<rparr>
           | Some rdf \<Rightarrow> \<lparr>pk_ok = True, pk_props = concat (map description_props (x_kids rdf)), pk_decls = collectDecls root\<rparr>))"

definition xmpWellFormed :: "string \<Rightarrow> bool" where
  "xmpWellFormed packet = pk_ok (parsePacket packet)"

definition xmlRootOf :: "string \<Rightarrow> (string \<times> string) option" where
  "xmlRootOf xml = (if xml = [] then None else map_option (\<lambda>root. (x_ns root, x_local root)) (parseXml xml))"

subsection \<open>Packets in UTF-16 and UTF-32\<close>

definition unit_val :: "bool \<Rightarrow> string \<Rightarrow> nat" where
  "unit_val big bs = foldl (\<lambda>v c. push_bit 8 v OR ord c) 0 (if big then bs else rev bs)"

function units :: "nat \<Rightarrow> bool \<Rightarrow> string \<Rightarrow> string" where
  "units width big r =
     (if width = 0 \<or> length r < width then []
      else let cp = unit_val big (take width r)
           in if width = 2 \<and> 0xD800 \<le> cp \<and> cp < 0xDC00 \<and> 4 \<le> length r
              then cp_bytes (0x10000 + push_bit 10 (cp - 0xD800) + unit_val big (take 2 (drop 2 r)) - 0xDC00) @ units width big (drop 4 r)
              else cp_bytes cp @ units width big (drop width r))"
  by pat_completeness auto

termination
  by (relation "measure (\<lambda>(w, b, r). length r)") auto

declare units.simps [simp del]

text \<open>The width and byte order of the packet, from its first \<open><\<close> at \<open>lt\<close>.\<close>

definition packet_width :: "string \<Rightarrow> nat \<Rightarrow> nat \<times> bool" where
  "packet_width raw lt =
     (let z = CHR 0x00
      in if starts_with (drop lt raw) [CHR ''<'', z, z, z] then (4, False)
         else if 3 \<le> lt \<and> starts_with (drop (lt - 3) raw) [z, z, z, CHR ''<''] then (4, True)
         else if starts_with (drop lt raw) [CHR ''<'', z] then (2, False)
         else if 1 \<le> lt \<and> raw ! (lt - 1) = z then (2, True)
         else (1, False))"

definition xmpUtf8 :: "string \<Rightarrow> string" where
  "xmpUtf8 raw =
     (case find_idx (\<lambda>c. c = CHR ''<'') raw of
        None \<Rightarrow> raw
      | Some lt \<Rightarrow>
          if lt < 8 then
            (let (width, big) = packet_width raw lt
             in if width > 1 then units width big (drop (if big then lt - (width - 1) else lt) raw) else raw)
          else raw)"

section \<open>Regular expressions\<close>

text \<open>
  The patterns the checks match a whole value with, by derivatives: \<open>rx_match r s\<close> says that
  \<open>s\<close> is in the language of \<open>r\<close>.
\<close>

datatype rx = Zero | Eps | Cls "char \<Rightarrow> bool" | Cat rx rx | Or rx rx | Star rx

abbreviation Opt :: "rx \<Rightarrow> rx" where "Opt r \<equiv> Or r Eps"
abbreviation Plus :: "rx \<Rightarrow> rx" where "Plus r \<equiv> Cat r (Star r)"
abbreviation Ch :: "char \<Rightarrow> rx" where "Ch c \<equiv> Cls (\<lambda>x. x = c)"
abbreviation Digit :: rx where "Digit \<equiv> Cls is_digit"
abbreviation Sign :: rx where "Sign \<equiv> Cls (\<lambda>c. c = CHR ''+'' \<or> c = CHR ''-'')"

primrec Rep :: "nat \<Rightarrow> rx \<Rightarrow> rx" where
  "Rep 0 r = Eps"
| "Rep (Suc n) r = Cat r (Rep n r)"

fun nullable :: "rx \<Rightarrow> bool" where
  "nullable Zero = False"
| "nullable Eps = True"
| "nullable (Cls f) = False"
| "nullable (Cat r s) = (nullable r \<and> nullable s)"
| "nullable (Or r s) = (nullable r \<or> nullable s)"
| "nullable (Star r) = True"

fun deriv :: "char \<Rightarrow> rx \<Rightarrow> rx" where
  "deriv c Zero = Zero"
| "deriv c Eps = Zero"
| "deriv c (Cls f) = (if f c then Eps else Zero)"
| "deriv c (Cat r s) = (if nullable r then Or (Cat (deriv c r) s) (deriv c s) else Cat (deriv c r) s)"
| "deriv c (Or r s) = Or (deriv c r) (deriv c s)"
| "deriv c (Star r) = Cat (deriv c r) (Star r)"

definition rx_match :: "string \<Rightarrow> rx \<Rightarrow> bool" where
  "rx_match s r = nullable (foldl (\<lambda>r c. deriv c r) r s)"

lemma rx_match_Cons: "rx_match (c # s) r = rx_match s (deriv c r)"
  by (simp add: rx_match_def)

lemma rx_match_Or: "rx_match s (Or r t) \<longleftrightarrow> rx_match s r \<or> rx_match s t"
  by (induction s arbitrary: r t) (simp_all add: rx_match_def)

lemma rx_match_Cat: "rx_match a r \<Longrightarrow> rx_match b t \<Longrightarrow> rx_match (a @ b) (Cat r t)"
proof (induction a arbitrary: r)
  case Nil
  then have "nullable r" by (simp add: rx_match_def)
  then show ?case using Nil.prems(2) by (cases b) (simp_all add: rx_match_Cons rx_match_Or, simp add: rx_match_def)
next
  case (Cons c a)
  then have "rx_match (a @ b) (Cat (deriv c r) t)" by (simp add: rx_match_Cons)
  then show ?case by (simp add: rx_match_Cons rx_match_Or)
qed

lemma rx_match_Cls: "f c \<Longrightarrow> rx_match [c] (Cls f)"
  by (simp add: rx_match_def)

lemma rx_match_Opt: "rx_match s r \<Longrightarrow> rx_match s (Opt r)"
  by (simp add: rx_match_Or)

lemma rx_match_Rep: "list_all is_digit s \<Longrightarrow> n = length s \<Longrightarrow> rx_match s (Rep n Digit)"
proof (induction s arbitrary: n)
  case (Cons c s)
  then have "rx_match ([c] @ s) (Cat Digit (Rep (length s) Digit))" by (intro rx_match_Cat rx_match_Cls) auto
  then show ?case using Cons.prems by simp
qed (simp add: rx_match_def)

lemma rx_match_Ch: "rx_match b t \<Longrightarrow> rx_match (c # b) (Cat (Ch c) t)"
  using rx_match_Cat[OF rx_match_Cls[of "\<lambda>x. x = c" c]] by simp

lemma rx_match_Digits: "list_all is_digit s \<Longrightarrow> length s = n \<Longrightarrow> rx_match b t \<Longrightarrow> rx_match (s @ b) (Cat (Rep n Digit) t)"
  by (intro rx_match_Cat rx_match_Rep) simp_all

definition kInt :: rx where
  "kInt = Cat (Opt Sign) (Plus Digit)"

definition kReal :: rx where
  "kReal = Cat (Opt Sign) (Cat (Or (Cat (Plus Digit) (Opt (Cat (Ch CHR ''.'') (Star Digit)))) (Cat (Ch CHR ''.'') (Plus Digit)))
     (Opt (Cat (Cls (\<lambda>c. c = CHR ''e'' \<or> c = CHR ''E'')) (Cat (Opt Sign) (Plus Digit)))))"

definition kRational :: rx where
  "kRational = Cat kInt (Cat (Ch CHR ''/'') kInt)"

definition kDate :: rx where
  "kDate = Cat (Rep 4 Digit) (Opt (Cat (Ch CHR ''-'') (Cat (Rep 2 Digit) (Opt (Cat (Ch CHR ''-'') (Cat (Rep 2 Digit)
     (Opt (Cat (Ch CHR ''T'') (Cat (Rep 2 Digit) (Cat (Ch CHR '':'') (Cat (Rep 2 Digit)
       (Cat (Opt (Cat (Ch CHR '':'') (Cat (Rep 2 Digit) (Opt (Cat (Ch CHR ''.'') (Plus Digit))))))
         (Opt (Or (Ch CHR ''Z'') (Cat Sign (Cat (Rep 2 Digit) (Cat (Ch CHR '':'') (Rep 2 Digit))))))))))))))))))"

definition kGps :: rx where
  "kGps = Cat (Cat Digit (Cat (Opt Digit) (Opt Digit))) (Cat (Ch CHR '','') (Cat (Cat Digit (Opt Digit))
     (Cat (Or (Cat (Ch CHR '','') (Cat Digit (Opt Digit))) (Cat (Ch CHR ''.'') (Plus Digit)))
       (Cls (\<lambda>c. c = CHR ''N'' \<or> c = CHR ''S'' \<or> c = CHR ''E'' \<or> c = CHR ''W'')))))"

definition kYear :: rx where
  "kYear = Rep 4 Digit"

section \<open>Value types\<close>

type_synonym FieldMap = "string \<rightharpoonup> string"

record StructDef =
  sd_ns :: string
  sd_fields :: FieldMap
  sd_any :: bool

definition struct_def :: "string \<Rightarrow> (string \<times> string) list \<Rightarrow> StructDef" where
  "struct_def ns fs = \<lparr>sd_ns = ns, sd_fields = map_of fs, sd_any = False\<rparr>"

definition structTypes :: "string \<rightharpoonup> StructDef" where
  "structTypes = map_of
     [(''ResourceRef'', struct_def kStRef [
         (''instanceID'', ''URI''), (''documentID'', ''URI''), (''versionID'', ''Text''),
         (''renditionClass'', ''RenditionClass''), (''renditionParams'', ''Text''), (''manager'', ''AgentName''),
         (''managerVariant'', ''Text''), (''manageTo'', ''URI''), (''manageUI'', ''URI'')]),
      (''ResourceEvent'', struct_def kStEvt [
         (''action'', ''Open Choice of Text''), (''instanceID'', ''URI''), (''parameters'', ''Text''),
         (''softwareAgent'', ''AgentName''), (''when'', ''Date'')]),
      (''Version'', struct_def kStVer [
         (''comments'', ''Text''), (''event'', ''ResourceEvent''), (''modifyDate'', ''Date''),
         (''modifier'', ''ProperName''), (''version'', ''Text'')]),
      (''Thumbnail'', struct_def kXapGImg [
         (''height'', ''Integer''), (''width'', ''Integer''), (''format'', ''Closed Choice of Text|JPEG''),
         (''image'', ''Text'')]),
      (''Dimensions'', struct_def kStDim [
         (''w'', ''Real''), (''h'', ''Real''), (''unit'', ''Open Choice of Text'')]),
      (''Job'', struct_def kStJob [
         (''name'', ''Text''), (''id'', ''Text''), (''url'', ''URL'')]),
      (''Font'', struct_def kStFnt [
         (''fontName'', ''Text''), (''fontFamily'', ''Text''), (''fontFace'', ''Text''),
         (''fontType'', ''Open Choice of Text''), (''versionString'', ''Text''), (''composite'', ''Boolean''),
         (''fontFileName'', ''Text''), (''childFontFiles'', ''Seq Text'')]),
      (''Colorant'', struct_def kXapG [
         (''swatchName'', ''Text''), (''mode'', ''Closed Choice of Text|CMYK|RGB|LAB''),
         (''type'', ''Closed Choice of Text|PROCESS|SPOT''), (''cyan'', ''Real''), (''magenta'', ''Real''),
         (''yellow'', ''Real''), (''black'', ''Real''), (''red'', ''Integer''), (''green'', ''Integer''),
         (''blue'', ''Integer''), (''L'', ''Real''), (''A'', ''Integer''), (''B'', ''Integer'')]),
      (''Flash'', struct_def kExif [
         (''Fired'', ''Boolean''), (''Return'', ''Closed Choice of Integer|0|2|3''),
         (''Mode'', ''Closed Choice of Integer|0|1|2|3''), (''Function'', ''Boolean''), (''RedEyeMode'', ''Boolean'')]),
      (''OECF/SFR'', struct_def kExif [
         (''Columns'', ''Integer''), (''Rows'', ''Integer''), (''Names'', ''Seq Text''),
         (''Values'', ''Seq Rational'')]),
      (''CFAPattern'', struct_def kExif [
         (''Columns'', ''Integer''), (''Rows'', ''Integer''), (''Values'', ''Seq Integer'')]),
      (''DeviceSettings'', struct_def kExif [
         (''Columns'', ''Integer''), (''Rows'', ''Integer''), (''Settings'', ''Seq Text'')]),
      (''Time'', struct_def kDM [
         (''value'', ''Integer''), (''scale'', ''Rational'')]),
      (''Marker'', struct_def kDM [
         (''startTime'', ''Time''), (''duration'', ''Time''), (''comment'', ''Text''), (''name'', ''Text''),
         (''location'', ''URI''), (''target'', ''Text''),
         (''type'', ''Closed Choice of Text|Chapter|Cue|Beat|Track|Index'')]),
      (''Media'', struct_def kDM [
         (''path'', ''URI''), (''track'', ''Text''), (''startTime'', ''Time''), (''duration'', ''Time''),
         (''managed'', ''Boolean''), (''webStatement'', ''URI'')]),
      (''ProjectLink'', struct_def kDM [
         (''type'', ''Closed Choice of Text|movie|still|audio|custom''), (''path'', ''URI'')]),
      (''Timecode'', struct_def kDM [
         (''timeValue'', ''Text''),
         (''timeFormat'', ''Closed Choice of Text|24Timecode|25Timecode|2997DropTimecode (semicolon delimiter)|2997NonDropTimecode|30Timecode|50Timecode|5994DropTimecode|5994NonDropTimecode|60Timecode|23976Timecode'')]),
      (''TimeScaleStretch'', struct_def kDM [
         (''quality'', ''Closed Choice of Text|High|Medium|Low''), (''frameSize'', ''Real''),
         (''frameOverlappingPercentage'', ''Real'')]),
      (''ResampleStretch'', struct_def kDM [
         (''quality'', ''Closed Choice of Text|High|Medium|Low'')]),
      (''BeatSpliceStretch'', struct_def kDM [
         (''useFileBeatsMarker'', ''Boolean''), (''riseInDecibel'', ''Real''), (''riseInTimeDuration'', ''Time'')])]"

record ExtDefs =
  ext_props :: "string \<rightharpoonup> FieldMap"
  ext_types :: "string \<rightharpoonup> StructDef"

definition ExtDefs0 :: ExtDefs where
  "ExtDefs0 = \<lparr>ext_props = Map.empty, ext_types = Map.empty\<rparr>"

definition structOf :: "string \<Rightarrow> ExtDefs option \<Rightarrow> StructDef option" where
  "structOf ty ext =
     (case structTypes ty of
        Some sd \<Rightarrow> Some sd
      | None \<Rightarrow> (case ext of Some e \<Rightarrow> ext_types e ty | None \<Rightarrow> None))"

definition texty :: "string set" where
  "texty = {''Text'', ''ProperName'', ''AgentName'', ''Locale'', ''MIMEType'', ''RenditionClass'', ''XPath'', ''GUID'', ''URI'',
     ''URL'', ''Choice'', ''Part'', ''FrameRate'', ''FrameCount''}"

definition choices :: "string list" where
  "choices = [''Closed Choice of '', ''Open Choice of '', ''closed Choice of '', ''open Choice of '']"

definition arrays :: "string list" where
  "arrays = [''Bag '', ''Seq '', ''Alt '']"

text \<open>The simple types, by a pattern of the trimmed value.\<close>

definition value_of_type :: "string \<Rightarrow> string \<Rightarrow> bool option" where
  "value_of_type ty v =
     (if ty \<in> texty then Some True
      else if ty = ''Integer'' then Some (rx_match v kInt)
      else if ty = ''Real'' then Some (rx_match v kReal)
      else if ty = ''Boolean'' then Some (v = ''True'' \<or> v = ''False'')
      else if ty = ''Rational'' then Some (rx_match v kRational)
      else if ty = ''Date'' then Some (rx_match v kDate)
      else if ty = ''GPSCoordinate'' then Some (rx_match v kGps)
      else None)"

text \<open>
  A choice type; \<open>check\<close> is the check one level deeper. A closed choice with alternatives takes
  only those, an open choice takes every value of its base type.
\<close>

definition checkChoice :: "(string \<Rightarrow> bool) \<Rightarrow> XProp \<Rightarrow> string \<Rightarrow> string \<Rightarrow> bool" where
  "checkChoice check p pre ty =
     (let rest = drop (length pre) ty
      in case find_idx (\<lambda>c. c = CHR ''|'') rest of
           None \<Rightarrow> check rest
         | Some bar \<Rightarrow>
             check (take bar rest) \<and>
             (to_lower (hd pre) = CHR ''o'' \<or> p_kind p \<noteq> 0 \<or>
              trim (p_value p) \<in> set (split_on CHR ''|'' (drop (bar + 1) rest))))"

definition checkStruct :: "(XProp \<Rightarrow> string \<Rightarrow> bool) \<Rightarrow> XProp \<Rightarrow> StructDef \<Rightarrow> bool" where
  "checkStruct check p sd \<longleftrightarrow>
     p_kind p = 1 \<and>
     (sd_any sd \<or>
      list_all (\<lambda>f. p_ns f = sd_ns sd \<and> (case sd_fields sd (p_name f) of None \<Rightarrow> False | Some ty \<Rightarrow> check f ty)) (p_kids p))"

text \<open>The argument counts the levels left of the 17 the code allows.\<close>

primrec checkType :: "nat \<Rightarrow> ExtDefs option \<Rightarrow> XProp \<Rightarrow> string \<Rightarrow> bool" where
  "checkType 0 ext p ty0 = False"
| "checkType (Suc k) ext p ty0 =
     (let ty = trim ty0
      in case find (starts_with ty) choices of
           Some pre \<Rightarrow> checkChoice (checkType k ext p) p pre ty
         | None \<Rightarrow>
             if ty = ''Lang Alt'' then
               p_kind p = 2 \<and> p_arr p = ''Alt'' \<and> list_all (\<lambda>i. p_kind i = 0 \<and> p_hasLang i) (p_kids p)
             else case find (starts_with ty) arrays of
                 Some pre \<Rightarrow>
                   p_kind p = 2 \<and> p_arr p = take 3 pre \<and> list_all (\<lambda>i. checkType k ext i (drop 4 ty)) (p_kids p)
               | None \<Rightarrow>
                   (case value_of_type ty (trim (p_value p)) of
                      Some b \<Rightarrow> p_kind p = 0 \<and> b
                    | None \<Rightarrow>
                        (case structOf ty ext of None \<Rightarrow> False | Some sd \<Rightarrow> checkStruct (checkType k ext) p sd)))"

definition check_type :: "ExtDefs option \<Rightarrow> XProp \<Rightarrow> string \<Rightarrow> bool" where
  "check_type ext p ty = checkType 17 ext p ty"

lemma find_idx_less: "find_idx f s = Some k \<Longrightarrow> k < length s"
  by (simp add: find_idx_Some)

lemma trim_shorter: "length (trim s) \<le> length s"
  by (auto simp: trim_def split: option.splits)

definition basic_types :: "string set" where
  "basic_types = {''Text'', ''ProperName'', ''AgentName'', ''Locale'', ''MIMEType'', ''RenditionClass'', ''XPath'', ''GUID'',
     ''URI'', ''URL'', ''Integer'', ''Real'', ''Boolean'', ''Rational'', ''Date'', ''Lang Alt'', ''GPSCoordinate'', ''Choice''}"

definition known_prefixes :: "string list" where
  "known_prefixes = [''Closed Choice of '', ''Open Choice of '', ''Bag '', ''Seq '', ''Alt '']"

definition before_bar :: "string \<Rightarrow> string" where
  "before_bar s = takeWhile (\<lambda>c. c \<noteq> CHR ''|'') s"

lemma before_bar_shorter: "length (before_bar s) \<le> length s"
  by (simp add: before_bar_def length_takeWhile_le)

function knownType :: "string \<Rightarrow> ExtDefs \<Rightarrow> bool" where
  "knownType ty0 ext =
     (let ty = trim ty0
      in case find (starts_with ty) known_prefixes of
           Some pre \<Rightarrow> knownType (before_bar (drop (length pre) ty)) ext
         | None \<Rightarrow> ty \<in> basic_types \<or> structTypes ty \<noteq> None \<or> ext_types ext ty \<noteq> None)"
  by pat_completeness auto

termination
proof (relation "measure (\<lambda>(ty, ext). length ty)", goal_cases)
  case (2 ty0 ext ty pre)
  then have s: "starts_with ty pre" "pre \<in> set known_prefixes" by (auto simp: find_Some_iff)
  then have "0 < length pre" by (auto simp: known_prefixes_def)
  moreover have "length pre \<le> length ty" using s(1) by (metis length_take min.cobounded1 starts_with_def)
  ultimately have "length (drop (length pre) ty) < length ty" unfolding length_drop by linarith
  then show ?case
    using before_bar_shorter[of "drop (length pre) ty"] trim_shorter[of ty0] 2(1) by simp
qed simp

declare knownType.simps [simp del]

section \<open>Predefined properties\<close>

text \<open>The entries of a table by namespace and name, a later entry in front of an earlier one.\<close>

type_synonym PropTable = "((string \<times> string) \<times> string) list"

definition add_props :: "PropTable \<Rightarrow> string \<times> (string \<times> string) list \<Rightarrow> PropTable" where
  "add_props t = (\<lambda>(n, l). rev (map (\<lambda>(k, v). ((n, k), v)) l) @ t)"

definition table_find :: "PropTable \<Rightarrow> XProp \<Rightarrow> string option" where
  "table_find t p = map_of t (p_ns p, p_name p)"

definition common_props :: "bool \<Rightarrow> (string \<times> (string \<times> string) list) list" where
  "common_props y2005 = [
     (kDc, [
       (''contributor'', ''Bag ProperName''), (''coverage'', ''Text''), (''creator'', ''Seq ProperName''),
       (''date'', ''Seq Date''), (''description'', ''Lang Alt''), (''format'', ''MIMEType''),
       (''identifier'', ''Text''), (''language'', ''Bag Locale''), (''publisher'', ''Bag ProperName''),
       (''relation'', ''Bag Text''), (''rights'', ''Lang Alt''), (''source'', ''Text''), (''subject'', ''Bag Text''),
       (''title'', ''Lang Alt''), (''type'', ''Bag Open Choice of Text'')]),
     (kXmp, [
       (''Advisory'', ''Bag XPath''), (''BaseURL'', ''URL''), (''CreateDate'', ''Date''),
       (''CreatorTool'', ''AgentName''), (''Identifier'', ''Bag Text''), (''MetadataDate'', ''Date''),
       (''ModifyDate'', ''Date''), (''Nickname'', ''Text''), (''Thumbnails'', ''Alt Thumbnail'')]),
     (kIdq, [
       (''Scheme'', ''Text'')]),
     (kRights, [
       (''Certificate'', ''URL''), (''Marked'', ''Boolean''), (''Owner'', ''Bag ProperName''),
       (''UsageTerms'', ''Lang Alt''), (''WebStatement'', ''URL'')]),
     (kMM, [
       (''DerivedFrom'', ''ResourceRef''), (''DocumentID'', ''URI''), (''History'', ''Seq ResourceEvent''),
       (''ManagedFrom'', ''ResourceRef''), (''Manager'', ''AgentName''), (''ManageTo'', ''URI''),
       (''ManageUI'', ''URI''), (''ManagerVariant'', ''Text''), (''RenditionClass'', ''RenditionClass''),
       (''RenditionParams'', ''Text''), (''VersionID'', ''Text''), (''Versions'', ''Seq Version''),
       (''LastURL'', ''URL''), (''RenditionOf'', ''ResourceRef''), (''SaveID'', ''Integer'')]),
     (kBJ, [
       (''JobRef'', ''Bag Job'')]),
     (kTPg, [
       (''MaxPageSize'', ''Dimensions''), (''NPages'', ''Integer'')]),
     (kPdf, [
       (''Keywords'', ''Text''), (''PDFVersion'', ''Text''), (''Producer'', ''AgentName'')]),
     (kPs, [
       (''AuthorsPosition'', ''Text''), (''CaptionWriter'', ''ProperName''), (''Category'', ''Text''),
       (''City'', ''Text''), (''Country'', ''Text''), (''Credit'', ''Text''), (''DateCreated'', ''Date''),
       (''Headline'', ''Text''), (''Instructions'', ''Text''), (''Source'', ''Text''), (''State'', ''Text''),
       (''SupplementalCategories'', if y2005 then ''Bag Text'' else ''Text''), (''TransmissionReference'', ''Text''),
       (''Urgency'', ''Integer'')]),
     (kTiff, [
       (''ImageWidth'', ''Integer''), (''ImageLength'', ''Integer''), (''BitsPerSample'', ''Seq Integer''),
       (''Compression'', ''Closed Choice of Integer|1|6''),
       (''PhotometricInterpretation'', ''Closed Choice of Integer|2|6''),
       (''Orientation'', ''Closed Choice of Integer|1|2|3|4|5|6|7|8''), (''SamplesPerPixel'', ''Integer''),
       (''PlanarConfiguration'', ''Closed Choice of Integer|1|2''), (''YCbCrSubSampling'', ''Seq Integer''),
       (''YCbCrPositioning'', ''Closed Choice of Integer|1|2''), (''XResolution'', ''Rational''),
       (''YResolution'', ''Rational''), (''ResolutionUnit'', ''Closed Choice of Integer|2|3''),
       (''TransferFunction'', ''Seq Integer''), (''WhitePoint'', ''Seq Rational''),
       (''PrimaryChromaticities'', ''Seq Rational''), (''YCbCrCoefficients'', ''Seq Rational''),
       (''ReferenceBlackWhite'', ''Seq Rational''), (''DateTime'', ''Date''), (''ImageDescription'', ''Lang Alt''),
       (''Make'', ''ProperName''), (''Model'', ''ProperName''), (''Software'', ''AgentName''),
       (''Artist'', ''ProperName''), (''Copyright'', ''Lang Alt'')]),
     (kExif, [
       (''ExifVersion'', ''Closed Choice of Text|0210''), (''FlashpixVersion'', ''Closed Choice of Text|0100''),
       (''ColorSpace'', ''Closed Choice of Integer|1|65535''), (''ComponentsConfiguration'', ''Seq Integer''),
       (''CompressedBitsPerPixel'', ''Rational''), (''PixelXDimension'', ''Integer''),
       (''PixelYDimension'', ''Integer''), (''UserComment'', ''Lang Alt''), (''RelatedSoundFile'', ''Text''),
       (''DateTimeOriginal'', ''Date''), (''DateTimeDigitized'', ''Date''), (''ExposureTime'', ''Rational''),
       (''FNumber'', ''Rational''), (''ExposureProgram'', ''Closed Choice of Integer|0|1|2|3|4|5|6|7|8''),
       (''SpectralSensitivity'', ''Text''), (''ISOSpeedRatings'', ''Seq Integer''), (''OECF'', ''OECF/SFR''),
       (''ShutterSpeedValue'', ''Rational''), (''ApertureValue'', ''Rational''), (''BrightnessValue'', ''Rational''),
       (''ExposureBiasValue'', ''Rational''), (''MaxApertureValue'', ''Rational''),
       (''SubjectDistance'', ''Rational''), (''MeteringMode'', ''Closed Choice of Integer|0|1|2|3|4|5|6|255''),
       (''LightSource'', ''Closed Choice of Integer|0|1|2|3|4|9|10|11|12|13|14|15|17|18|19|20|21|22|23|24|255''),
       (''Flash'', ''Flash''), (''FocalLength'', ''Rational''), (''SubjectArea'', ''Seq Integer''),
       (''FlashEnergy'', ''Rational''), (''SpatialFrequencyResponse'', ''OECF/SFR''),
       (''FocalPlaneXResolution'', ''Rational''), (''FocalPlaneYResolution'', ''Rational''),
       (''FocalPlaneResolutionUnit'', ''Closed Choice of Integer|2|3''), (''SubjectLocation'', ''Seq Integer''),
       (''ExposureIndex'', ''Rational''), (''SensingMethod'', ''Closed Choice of Integer|1|2|3|4|5|7|8''),
       (''FileSource'', ''Closed Choice of Integer|3''), (''SceneType'', ''Closed Choice of Integer|1''),
       (''CFAPattern'', ''CFAPattern''), (''CustomRendered'', ''Closed Choice of Integer|0|1''),
       (''ExposureMode'', ''Closed Choice of Integer|0|1|2''), (''WhiteBalance'', ''Closed Choice of Integer|0|1''),
       (''DigitalZoomRatio'', ''Rational''), (''FocalLengthIn35mmFilm'', ''Integer''),
       (''SceneCaptureType'', ''Closed Choice of Integer|0|1|2|3''),
       (''GainControl'', ''Closed Choice of Integer|0|1|2|3|4''), (''Contrast'', ''Closed Choice of Integer|0|1|2''),
       (''Saturation'', ''Closed Choice of Integer|0|1|2''), (''Sharpness'', ''Closed Choice of Integer|0|1|2''),
       (''DeviceSettingDescription'', ''DeviceSettings''),
       (''SubjectDistanceRange'', ''Closed Choice of Integer|0|1|2|3''), (''ImageUniqueID'', ''Text''),
       (''GPSVersionID'', ''Text''), (''GPSLatitude'', ''GPSCoordinate''), (''GPSLongitude'', ''GPSCoordinate''),
       (''GPSAltitudeRef'', ''Closed Choice of Integer|0|1''), (''GPSAltitude'', ''Rational''),
       (''GPSTimeStamp'', ''Date''), (''GPSSatellites'', ''Text''), (''GPSStatus'', ''Closed Choice of Text|A|V''),
       (''GPSMeasureMode'', ''Closed Choice of Text|2|3''), (''GPSDOP'', ''Rational''),
       (''GPSSpeedRef'', ''Closed Choice of Text|K|M|N''), (''GPSSpeed'', ''Rational''),
       (''GPSTrackRef'', ''Closed Choice of Text|T|M''), (''GPSTrack'', ''Rational''),
       (''GPSImgDirectionRef'', ''Closed Choice of Text|T|M''), (''GPSImgDirection'', ''Rational''),
       (''GPSMapDatum'', ''Text''), (''GPSDestLatitude'', ''GPSCoordinate''),
       (''GPSDestLongitude'', ''GPSCoordinate''), (''GPSDestBearingRef'', ''Closed Choice of Text|T|M''),
       (''GPSDestBearing'', ''Rational''), (''GPSDestDistanceRef'', ''Closed Choice of Text|K|M|N''),
       (''GPSDestDistance'', ''Rational''), (''GPSProcessingMethod'', ''Text''), (''GPSAreaInformation'', ''Text''),
       (''GPSDifferential'', ''Closed Choice of Integer|0|1'')])]"

definition props_2005 :: "(string \<times> (string \<times> string) list) list" where
  "props_2005 = [
     (kXmp, [
       (''Label'', ''Text''), (''Rating'', ''Open Choice of Integer'')]),
     (kTPg, [
       (''Fonts'', ''Bag Font''), (''Colorants'', ''Seq Colorant''), (''PlateNames'', ''Seq Text'')]),
     (kAux, [
       (''Lens'', ''Text''), (''SerialNumber'', ''Text'')]),
     (kCrs, [
       (''AutoBrightness'', ''Boolean''), (''AutoContrast'', ''Boolean''), (''AutoExposure'', ''Boolean''),
       (''AutoShadows'', ''Boolean''), (''BlueHue'', ''Integer''), (''BlueSaturation'', ''Integer''),
       (''Brightness'', ''Integer''), (''CameraProfile'', ''Text''), (''ChromaticAberrationB'', ''Integer''),
       (''ChromaticAberrationR'', ''Integer''), (''ColorNoiseReduction'', ''Integer''), (''Contrast'', ''Integer''),
       (''CropTop'', ''Real''), (''CropLeft'', ''Real''), (''CropBottom'', ''Real''), (''CropRight'', ''Real''),
       (''CropAngle'', ''Real''), (''CropWidth'', ''Real''), (''CropHeight'', ''Real''),
       (''CropUnits'', ''Integer''), (''Exposure'', ''Real''), (''GreenHue'', ''Integer''),
       (''GreenSaturation'', ''Integer''), (''HasCrop'', ''Boolean''), (''HasSettings'', ''Boolean''),
       (''LuminanceSmoothing'', ''Integer''), (''RawFileName'', ''Text''), (''RedHue'', ''Integer''),
       (''RedSaturation'', ''Integer''), (''Saturation'', ''Integer''), (''Shadows'', ''Integer''),
       (''ShadowTint'', ''Integer''), (''Sharpness'', ''Integer''), (''Temperature'', ''Integer''),
       (''Tint'', ''Integer''), (''ToneCurve'', ''Seq Text''), (''ToneCurveName'', ''Open Choice of Text''),
       (''Version'', ''Text''), (''VignetteAmount'', ''Integer''), (''VignetteMidpoint'', ''Integer''),
       (''WhiteBalance'', ''Closed Choice of Text|As Shot|Auto|Daylight|Cloudy|Shade|Tungsten|Fluorescent|Flash|Custom'')]),
     (kDM, [
       (''projectRef'', ''ProjectLink''), (''videoFrameRate'', ''Open Choice of Text''),
       (''videoFrameSize'', ''Dimensions''), (''videoPixelAspectRatio'', ''Rational''),
       (''videoPixelDepth'', ''Closed Choice of Text|8Int|16Int|32Int|32Float''),
       (''videoColorSpace'', ''Closed Choice of Text|sRGB|CCIR-601|CCIR-709''),
       (''videoAlphaMode'', ''Closed Choice of Text|straight|pre-multiplied''),
       (''videoAlphaPremultipleColor'', ''Colorant''), (''videoAlphaUnityIsTransparent'', ''Boolean''),
       (''videoCompressor'', ''Text''), (''videoFieldOrder'', ''Closed Choice of Text|Upper|Lower|Progressive''),
       (''pullDown'', ''Closed Choice of Text|WSSWW|SSWWW|SWWWS|WWWSS|WWSSW|WSSWW_24p|SSWWW_24p|SWWWS_24p|WWWSS_24p|WWSSW_24p''),
       (''audioSampleRate'', ''Integer''), (''audioSampleType'', ''Closed Choice of Text|8Int|16Int|32Int|32Float''),
       (''audioChannelType'', ''Closed Choice of Text|Mono|Stereo|5.1|7.1''), (''audioCompressor'', ''Text''),
       (''speakerPlacement'', ''Text''), (''fileDataRate'', ''Rational''), (''tapeName'', ''Text''),
       (''altTapeName'', ''Text''), (''startTimecode'', ''Timecode''), (''altTimecode'', ''Timecode''),
       (''duration'', ''Time''), (''scene'', ''Text''), (''shotName'', ''Text''), (''shotDate'', ''Date''),
       (''shotLocation'', ''Text''), (''logComment'', ''Text''), (''markers'', ''Seq Marker''),
       (''contributedMedia'', ''Bag Media''), (''absPeakAudioFilePath'', ''URI''),
       (''relativePeakAudioFilePath'', ''URI''), (''videoModDate'', ''Date''), (''audioModDate'', ''Date''),
       (''metadataModDate'', ''Date''), (''artist'', ''Text''), (''album'', ''Text''),
       (''trackNumber'', ''Integer''), (''genre'', ''Text''), (''copyright'', ''Text''), (''releaseDate'', ''Date''),
       (''composer'', ''Text''), (''engineer'', ''Text''), (''tempo'', ''Real''), (''instrument'', ''Text''),
       (''introTime'', ''Time''), (''outCue'', ''Time''), (''relativeTimestamp'', ''Time''), (''loop'', ''Boolean''),
       (''numberOfBeats'', ''Real''), (''key'', ''Closed Choice of Text|C|C#|D|D#|E|F|F#|G|G#|A|A#|B''),
       (''stretchMode'', ''Closed Choice of Text|Fixed length|Time-Scale|Resample|Beat Splice|Hybrid''),
       (''timeScaleParams'', ''TimeScaleStretch''), (''resampleParams'', ''ResampleStretch''),
       (''beatSpliceParams'', ''BeatSpliceStretch''),
       (''timeSignature'', ''Closed Choice of Text|2/4|3/4|4/4|5/4|7/4|6/8|9/8|12/8|other''),
       (''scaleType'', ''Closed Choice of Text|Major|Minor|Both|Neither'')])]"

definition addXmpCommon :: "bool \<Rightarrow> PropTable \<Rightarrow> PropTable" where
  "addXmpCommon y2005 t =
     (let t1 = foldl add_props t (common_props y2005)
      in if \<not> y2005 then add_props t1 (kExif, [(''MakerNote'', ''Text'')]) else foldl add_props t1 props_2005)"

definition buildTables :: "PropTable list" where
  "buildTables =
     (let t2004 = addXmpCommon False []; t2005 = addXmpCommon True [];
          pdfa1 = foldl add_props t2004
            [(kPdfaId, [(''part'', ''Open Choice of Integer''), (''amd'', ''Open Choice of Text''), (''conformance'', ''Closed Choice of Text|A|B'')]),
             (kMM, [(''InstanceID'', ''URI'')])];
          pdfa2 = foldl add_props t2005
            [(kPdfaId, [(''part'', ''Open Choice of Integer''), (''amd'', ''Open Choice of Text''),
               (''conformance'', ''Closed Choice of Text|A|B|U''), (''corr'', ''Open Choice of Text'')]),
             (kXmp, [(''Rating'', ''Real'')]),
             (kMM, [(''InstanceID'', ''URI'')])];
          pdfe1 = add_props t2005 (kPdfeId, [(''ISO_PDFEVersion'', ''Text'')]);
          pdfx4 = foldl add_props t2005 [(kPdfxId, [(''GTS_PDFXVersion'', ''Text'')]), (kPdf, [(''Trapped'', ''Text'')])]
      in [t2004, t2005, pdfa1, pdfa2, pdfe1, pdfx4])"

definition prop_table :: "int \<Rightarrow> PropTable" where
  "prop_table which = buildTables ! nat (if which < 0 \<or> which > 5 then 5 else which)"

definition tableIndex :: "string \<Rightarrow> int" where
  "tableIndex by' =
     (case map_of [(''xmp-2004'', 0), (''xmp-2005'', 1), (''pdfa-1'', 2), (''pdfa-2'', 3), (''pdfe-1'', 4), (''pdfx-4'', 5)] by' of
        Some i \<Rightarrow> i | None \<Rightarrow> - 1)"

text \<open>A table is a list of blocks, one for a namespace; a lookup only reads the blocks of its namespace.\<close>

definition block_find :: "(string \<times> (string \<times> string) list) list \<Rightarrow> string \<Rightarrow> string \<Rightarrow> string option" where
  "block_find bs n k = map_of (rev (concat (map snd (filter (\<lambda>b. fst b = n) bs)))) k"

lemma map_prefixed: "map_of (map (\<lambda>(k, v). ((n, k), v)) l) (m, k) = (if m = n then map_of l k else None)"
  by (induction l) auto

lemma map_of_add_props:
  "map_of (add_props t (n, l)) (m, k) = (if m = n then (case map_of (rev l) k of Some v \<Rightarrow> Some v | None \<Rightarrow> map_of t (m, k)) else map_of t (m, k))"
proof -
  have "map_of (rev (map (\<lambda>(k, v). ((n, k), v)) l)) (m, k) = (if m = n then map_of (rev l) k else None)"
    using map_prefixed[of n "rev l" m k] by (simp add: rev_map)
  then show ?thesis by (simp add: add_props_def map_add_def split: option.split)
qed

lemma map_of_blocks: "map_of (foldl add_props t bs) (n, k) = (case block_find bs n k of Some v \<Rightarrow> Some v | None \<Rightarrow> map_of t (n, k))"
proof (induction bs arbitrary: t)
  case (Cons b bs)
  then show ?case by (cases b) (auto simp: block_find_def map_of_add_props map_add_def split: option.split)
qed (simp add: block_find_def)

section \<open>Extension schemas\<close>

definition field :: "XProp \<Rightarrow> string \<Rightarrow> string \<Rightarrow> XProp option" where
  "field s ns name = find (\<lambda>f. p_ns f = ns \<and> p_name f = name) (p_kids s)"

definition field_value :: "XProp \<Rightarrow> string \<Rightarrow> string \<Rightarrow> string" where
  "field_value s ns name = (case field s ns name of Some f \<Rightarrow> p_value f | None \<Rightarrow> [])"

text \<open>All fields are among \<open>ok\<close>, and the required ones are there with a simple value.\<close>

definition fields_ok :: "XProp \<Rightarrow> string \<Rightarrow> string list \<Rightarrow> string list \<Rightarrow> bool" where
  "fields_ok s ns ok req \<longleftrightarrow>
     p_kind s = 1 \<and> list_all (\<lambda>f. p_ns f = ns \<and> p_name f \<in> set ok) (p_kids s) \<and>
     list_all (\<lambda>r. case field s ns r of None \<Rightarrow> False | Some f \<Rightarrow> p_kind f = 0) req"

definition is_seq :: "XProp \<Rightarrow> bool" where
  "is_seq p \<longleftrightarrow> p_kind p = 2 \<and> p_arr p = ''Seq''"

text \<open>A described value type: its fields are checked and it is entered among the local types.\<close>

definition field_def_ok :: "XProp \<Rightarrow> bool" where
  "field_def_ok fd = fields_ok fd kFieldNs [''name'', ''valueType'', ''description''] [''name'', ''valueType'', ''description'']"

definition type_ok :: "XProp \<Rightarrow> bool" where
  "type_ok t \<longleftrightarrow>
     fields_ok t kTypeNs [''type'', ''namespaceURI'', ''prefix'', ''description'', ''field''] [''type'', ''namespaceURI'', ''prefix'', ''description''] \<and>
     (case field t kTypeNs ''field'' of None \<Rightarrow> True | Some fl \<Rightarrow> is_seq fl \<and> list_all field_def_ok (p_kids fl))"

definition local_type :: "XProp \<Rightarrow> string \<times> StructDef" where
  "local_type t =
     (trim (field_value t kTypeNs ''type''),
      \<lparr>sd_ns = field_value t kTypeNs ''namespaceURI'',
       sd_fields = (case field t kTypeNs ''field'' of
           None \<Rightarrow> Map.empty
         | Some fl \<Rightarrow> foldl (\<lambda>m fd. m(field_value fd kFieldNs ''name'' \<mapsto> field_value fd kFieldNs ''valueType'')) Map.empty (p_kids fl)),
       sd_any = False\<rparr>)"

definition property_ok :: "XProp \<Rightarrow> bool" where
  "property_ok d \<longleftrightarrow>
     fields_ok d kPropNs [''name'', ''valueType'', ''category'', ''description''] [''name'', ''valueType'', ''category'', ''description''] \<and>
     trim (field_value d kPropNs ''category'') \<in> {''internal'', ''external''}"

definition schema_ok :: "XProp \<Rightarrow> bool" where
  "schema_ok s \<longleftrightarrow>
     fields_ok s kSchemaNs [''schema'', ''namespaceURI'', ''prefix'', ''property'', ''valueType''] [''schema'', ''namespaceURI'', ''prefix''] \<and>
     list_all (\<lambda>r. trim (field_value s kSchemaNs r) \<noteq> []) [''schema'', ''namespaceURI'', ''prefix''] \<and>
     (case field s kSchemaNs ''valueType'' of None \<Rightarrow> True | Some vt \<Rightarrow> is_seq vt \<and> list_all type_ok (p_kids vt)) \<and>
     (case field s kSchemaNs ''property'' of None \<Rightarrow> True | Some pr \<Rightarrow> is_seq pr \<and> list_all property_ok (p_kids pr))"

definition schema_types :: "XProp \<Rightarrow> XProp list" where
  "schema_types s = (case field s kSchemaNs ''valueType'' of None \<Rightarrow> [] | Some vt \<Rightarrow> p_kids vt)"

definition schema_properties :: "XProp \<Rightarrow> XProp list" where
  "schema_properties s = (case field s kSchemaNs ''property'' of None \<Rightarrow> [] | Some pr \<Rightarrow> p_kids pr)"

definition local_types :: "XProp list \<Rightarrow> ExtDefs" where
  "local_types ss = ExtDefs0\<lparr>ext_types := foldl (\<lambda>m t. m(fst (local_type t) \<mapsto> snd (local_type t))) Map.empty (concat (map schema_types ss))\<rparr>"

definition validate_prop :: "ExtDefs option \<Rightarrow> XProp \<Rightarrow> bool" where
  "validate_prop outer p \<longleftrightarrow>
     (if p_ns p \<noteq> kExtNs then p_ns p \<notin> {kSchemaNs, kPropNs, kTypeNs, kFieldNs}
      else p_name p = ''schemas'' \<and> p_kind p = 2 \<and> p_arr p = ''Bag'' \<and> list_all schema_ok (p_kids p) \<and>
        list_all (\<lambda>s. list_all (\<lambda>d. let vt = field_value d kPropNs ''valueType''
                                    in knownType vt (local_types (p_kids p)) \<or> (case outer of None \<Rightarrow> False | Some o' \<Rightarrow> knownType vt o'))
                      (schema_properties s)) (p_kids p))"

definition validateExt :: "XPacket \<Rightarrow> ExtDefs option \<Rightarrow> bool" where
  "validateExt pk outer = list_all (validate_prop outer) (pk_props pk)"

definition opt_value :: "XProp option \<Rightarrow> string" where
  "opt_value f = (case f of Some v \<Rightarrow> p_value v | None \<Rightarrow> [])"

definition collect_properties :: "XProp \<Rightarrow> FieldMap \<Rightarrow> FieldMap" where
  "collect_properties s fm =
     foldl (\<lambda>fm d. case field d kPropNs ''name'' of
                     None \<Rightarrow> fm | Some n \<Rightarrow> fm(trim (p_value n) \<mapsto> opt_value (field d kPropNs ''valueType''))) fm (schema_properties s)"

definition collected_type :: "XProp \<Rightarrow> StructDef" where
  "collected_type t =
     \<lparr>sd_ns = (case field t kTypeNs ''namespaceURI'' of Some n \<Rightarrow> trim (p_value n) | None \<Rightarrow> []),
      sd_fields = (case field t kTypeNs ''field'' of
          None \<Rightarrow> Map.empty
        | Some fl \<Rightarrow>
            foldl (\<lambda>m fd. case field fd kFieldNs ''name'' of
                            None \<Rightarrow> m | Some n \<Rightarrow> m(trim (p_value n) \<mapsto> opt_value (field fd kFieldNs ''valueType''))) Map.empty (p_kids fl)),
      sd_any = False\<rparr>"

definition collect_types :: "XProp \<Rightarrow> (string \<rightharpoonup> StructDef) \<Rightarrow> (string \<rightharpoonup> StructDef)" where
  "collect_types s ts =
     foldl (\<lambda>m t. case field t kTypeNs ''type'' of None \<Rightarrow> m | Some tn \<Rightarrow> m(trim (p_value tn) \<mapsto> collected_type t)) ts (schema_types s)"

definition collect_schema :: "ExtDefs \<Rightarrow> XProp \<Rightarrow> ExtDefs" where
  "collect_schema e s =
     (case field s kSchemaNs ''namespaceURI'' of
        None \<Rightarrow> e
      | Some ns \<Rightarrow>
          (let uri = trim (p_value ns); fm = (case ext_props e uri of Some m \<Rightarrow> m | None \<Rightarrow> Map.empty)
           in \<lparr>ext_props = (ext_props e)(uri \<mapsto> collect_properties s fm), ext_types = collect_types s (ext_types e)\<rparr>))"

definition collectExt :: "XPacket \<Rightarrow> ExtDefs \<Rightarrow> ExtDefs" where
  "collectExt pk e =
     foldl (\<lambda>e p. if p_ns p \<noteq> kExtNs \<or> p_name p \<noteq> ''schemas'' \<or> p_kind p \<noteq> 2 then e else foldl collect_schema e (p_kids p)) e (pk_props pk)"

definition ext_find :: "ExtDefs \<Rightarrow> XProp \<Rightarrow> string option" where
  "ext_find e p = (case ext_props e (p_ns p) of None \<Rightarrow> None | Some fm \<Rightarrow> fm (p_name p))"

definition extLookup :: "ExtDefs \<Rightarrow> XProp \<Rightarrow> string option" where
  "extLookup defs p = (case ext_find defs p of Some ty \<Rightarrow> Some ty | None \<Rightarrow> table_find (prop_table 1) p)"

subsection \<open>Which parts of a value are described\<close>

definition strip_prefix :: "string \<Rightarrow> string \<Rightarrow> string" where
  "strip_prefix ty pre = (if starts_with ty pre then drop (length pre) ty else ty)"

definition baseType :: "string \<Rightarrow> string" where
  "baseType ty = before_bar (foldl strip_prefix (trim ty) choices)"

fun walkDefined :: "XProp \<Rightarrow> string option \<Rightarrow> ExtDefs option \<Rightarrow> bool list" where
  "walkDefined (XProp ns pf nm kind arr val hl lang ks) ty0 ext =
     (ty0 \<noteq> None) #
     (let ty = (case ty0 of Some t \<Rightarrow> baseType t | None \<Rightarrow> [])
      in if kind = 2 then
           (let item = foldl strip_prefix (if ty = ''Lang Alt'' then ''Text'' else ty) arrays
            in concat (map (\<lambda>k. walkDefined k (if ty0 = None then None else Some item) ext) ks))
         else if kind = 1 then
           (let sd = (if ty0 = None then None else structOf ty ext)
            in concat (map (\<lambda>k. walkDefined k
                 (case sd of
                    None \<Rightarrow> None
                  | Some s \<Rightarrow> if sd_any s then Some ty else if p_ns k = sd_ns s then sd_fields s (p_name k) else None) ext) ks))
         else [])"

section \<open>The PDF/A check of a packet\<close>

definition pdfa_ids :: "XProp list \<Rightarrow> string \<rightharpoonup> string" where
  "pdfa_ids ps = foldl (\<lambda>m p. if p_ns p = kPdfaId \<and> p_kind p = 0 then m(p_name p \<mapsto> trim (p_value p)) else m) Map.empty ps"

definition id_text :: "(string \<rightharpoonup> string) \<Rightarrow> string \<Rightarrow> string" where
  "id_text m k = (case m k of Some v \<Rightarrow> v | None \<Rightarrow> [])"

definition header_attributes :: "string \<Rightarrow> bool" where
  "header_attributes packet =
     (case find_str ''<?xpacket'' packet of
        None \<Rightarrow> False
      | Some hdr \<Rightarrow>
          (let h = (case find_from ''?>'' packet hdr of
                      Some e \<Rightarrow> substr packet hdr (e - hdr) | None \<Rightarrow> drop hdr packet)
           in contains h ''bytes='' \<or> contains h ''encoding=''))"

definition canon :: "string \<rightharpoonup> string" where
  "canon = map_of [(kPdfaId, ''pdfaid''), (kExtNs, ''pdfaExtension''), (kSchemaNs, ''pdfaSchema''), (kPropNs, ''pdfaProperty''),
     (kTypeNs, ''pdfaType''), (kFieldNs, ''pdfaField'')]"

definition wrong_prefix :: "(string \<times> string) list \<Rightarrow> string option" where
  "wrong_prefix ds =
     first_some (\<lambda>(px, ns). case canon ns of
         Some c \<Rightarrow> if c \<noteq> px then Some (''namespace '' @ ns @ '' is bound to the prefix '' @ px @ '' instead of '' @ c) else None
       | None \<Rightarrow> None) ds"

definition prop_type :: "int \<Rightarrow> ExtDefs \<Rightarrow> XProp \<Rightarrow> string option" where
  "prop_type part ext p =
     (case table_find (prop_table (if part = 1 then 2 else 3)) p of Some d \<Rightarrow> Some d | None \<Rightarrow> ext_find ext p)"

definition prop_problem :: "int \<Rightarrow> ExtDefs \<Rightarrow> XProp \<Rightarrow> string option" where
  "prop_problem part ext p =
     (if p_ns p = kExtNs then None
      else case prop_type part ext p of
          None \<Rightarrow> Some (''XMP property '' @ p_name p @ '' ('' @ p_ns p @ '') is neither predefined nor described by an extension schema'')
        | Some d \<Rightarrow> if check_type (Some ext) p d then None
                    else Some (''XMP property '' @ p_name p @ '' does not have the value type '' @ trim d))"

definition part4_problem :: "(string \<rightharpoonup> string) \<Rightarrow> char \<Rightarrow> string" where
  "part4_problem ids conf =
     (if \<not> rx_match (id_text ids ''rev'') kYear then ''pdfaid:rev is missing or not a four-digit year''
      else if (if conf = CHR ''E'' \<or> conf = CHR ''F'' then ids ''conformance'' \<noteq> Some [conf] else ids ''conformance'' \<noteq> None)
      then ''pdfaid:conformance does not match the PDF/A-4 level''
      else [])"

text \<open>The packet with the schemas it may use, \<open>outer\<close> those of the document for another packet.\<close>

definition typed_problem :: "XPacket \<Rightarrow> int \<Rightarrow> string option \<Rightarrow> string" where
  "typed_problem pk part mainRaw =
     (let ext = (case mainRaw of
            None \<Rightarrow> ExtDefs0
          | Some m \<Rightarrow> let mk = parsePacket (xmpUtf8 m) in if pk_ok mk then collectExt mk ExtDefs0 else ExtDefs0)
      in if \<not> validateExt pk (if mainRaw = None then None else Some ext) then ''PDF/A extension schema is invalid''
         else case first_some (prop_problem part (collectExt pk ext)) (pk_props pk) of Some m \<Rightarrow> m | None \<Rightarrow> [])"

definition pdfaXmpProblem :: "string \<Rightarrow> int \<Rightarrow> char \<Rightarrow> string option \<Rightarrow> string" where
  "pdfaXmpProblem raw part conf mainRaw =
     (let packet = xmpUtf8 raw; pk = parsePacket packet; ids = pdfa_ids (pk_props pk)
      in if \<not> pk_ok pk then ''XMP metadata is not well-formed RDF/XML''
         else if header_attributes packet then ''XMP packet header uses the bytes or encoding attribute''
         else case wrong_prefix (pk_decls pk) of
             Some m \<Rightarrow> m
           | None \<Rightarrow>
               if mainRaw \<noteq> None \<and> part \<ge> 4 then []
               else if mainRaw = None \<and> id_text ids ''part'' \<noteq> int_str part
               then ''pdfaid:part does not identify PDF/A-'' @ int_str part
               else if part \<ge> 4 then part4_problem ids conf
               else if mainRaw = None \<and> id_text ids ''conformance'' \<noteq> [conf]
               then ''pdfaid:conformance does not match the PDF/A conformance level''
               else typed_problem pk part mainRaw)"

section \<open>Dates and the document information\<close>

text \<open>The fields of a date, as far as digits go; \<open>None\<close> is the return value false.\<close>

fun date_fields :: "nat list \<Rightarrow> bool \<Rightarrow> string \<Rightarrow> (int list \<times> string) option" where
  "date_fields [] first s = Some ([], s)"
| "date_fields (n # ns) first s =
     (if s = [] \<or> \<not> is_digit (hd s) then (if first then None else Some ([], s))
      else if length s < n \<or> \<not> list_all is_digit (take n s) then None
      else map_option (\<lambda>(fs, r). (int (digits_val (take n s)) # fs, r)) (date_fields ns False (drop n s)))"

definition zone_offset :: "string \<Rightarrow> int" where
  "zone_offset r =
     (if r \<noteq> [] \<and> (hd r = CHR ''+'' \<or> hd r = CHR ''-'') then
        (let d = filter is_digit (tl r);
             hh = (if length d \<ge> 2 then int (digits_val (take 2 d)) else 0);
             mm = (if length d \<ge> 4 then int (digits_val (take 2 (drop 2 d))) else 0)
         in (if hd r = CHR ''-'' then - 1 else 1) * (hh * 60 + mm))
      else 0)"

definition days_from_civil :: "int \<Rightarrow> int \<Rightarrow> int \<Rightarrow> int" where
  "days_from_civil y0 m d =
     (let y = (if m \<le> 2 then y0 - 1 else y0);
          era = cdiv (if y \<ge> 0 then y else y - 399) 400;
          yoe = y - era * 400;
          doy = cdiv (153 * (m + (if m > 2 then - 3 else 9)) + 2) 5 + d - 1
      in era * 146097 + yoe * 365 + cdiv yoe 4 - cdiv yoe 100 + doy)"

definition skip_fraction :: "string \<Rightarrow> string" where
  "skip_fraction r = (if r \<noteq> [] \<and> hd r = CHR ''.'' then dropWhile is_digit (tl r) else r)"

definition dateParts :: "string \<Rightarrow> bool \<Rightarrow> int option" where
  "dateParts s0 pdfDate =
     (let s = (if pdfDate then (if starts_with s0 ''D:'' then drop 2 s0 else s0)
               else filter (\<lambda>c. c \<noteq> CHR ''-'' \<and> c \<noteq> CHR '':'' \<and> c \<noteq> CHR ''T'') s0)
      in case date_fields [4, 2, 2, 2, 2, 2] True s of
           None \<Rightarrow> None
         | Some (fs, r) \<Rightarrow>
             (let f = (\<lambda>k. if k < length fs then fs ! k else [0, 1, 1, 0, 0, 0] ! k); off = zone_offset (skip_fraction r)
              in Some (((days_from_civil (f 0) (f 1) (f 2) * 24 + f 3) * 60 + f 4 - off) * 60 + f 5)))"

definition find_prop :: "XProp list \<Rightarrow> string \<Rightarrow> string \<Rightarrow> XProp option" where
  "find_prop ps ns name = find (\<lambda>p. p_ns p = ns \<and> p_name p = name) ps"

definition alt_default :: "XProp list \<Rightarrow> string \<Rightarrow> string option" where
  "alt_default ps name =
     (case find_prop ps kDc name of
        None \<Rightarrow> None
      | Some p \<Rightarrow> if p_kind p \<noteq> 2 then None else map_option p_value (find (\<lambda>k. p_lang k = ''x-default'') (p_kids p)))"

definition simple_info :: "string \<rightharpoonup> string \<times> string" where
  "simple_info = map_of [(''Keywords'', (kPdf, ''Keywords'')), (''Producer'', (kPdf, ''Producer'')), (''Creator'', (kXmp, ''CreatorTool'')),
     (''CreationDate'', (kXmp, ''CreateDate'')), (''ModDate'', (kXmp, ''ModifyDate''))]"

text \<open>The XMP value of a document information key: \<open>None\<close> for a key that is not compared, \<open>Some None\<close> when XMP has no value.\<close>

definition info_value :: "XProp list \<Rightarrow> string \<Rightarrow> string option option" where
  "info_value ps key =
     (if key = ''Title'' then Some (alt_default ps ''title'')
      else if key = ''Subject'' then Some (alt_default ps ''description'')
      else if key = ''Author'' then
        Some (case find_prop ps kDc ''creator'' of
                None \<Rightarrow> None
              | Some p \<Rightarrow> if p_kind p = 2 \<and> length (p_kids p) = 1 then Some (p_value (hd (p_kids p))) else None)
      else map_option (\<lambda>(ns, nm). case find_prop ps ns nm of
                None \<Rightarrow> None | Some p \<Rightarrow> if p_kind p = 0 then Some (p_value p) else None) (simple_info key))"

definition info_problem :: "XProp list \<Rightarrow> string \<times> string \<Rightarrow> string option" where
  "info_problem ps = (\<lambda>(key, val).
     case info_value ps key of
       None \<Rightarrow> None
     | Some None \<Rightarrow> Some (''document information entry '' @ key @ '' has no matching XMP property'')
     | Some (Some xv) \<Rightarrow>
         if (if key = ''CreationDate'' \<or> key = ''ModDate''
             then dateParts val True = None \<or> dateParts (trim xv) False = None \<or> dateParts val True \<noteq> dateParts (trim xv) False
             else xv \<noteq> val)
         then Some (''document information entry '' @ key @ '' does not match its XMP equivalent'') else None)"

text \<open>\<open>info\<close> lists the entries in the order of their keys.\<close>

definition xmpInfoMismatch :: "string \<Rightarrow> (string \<times> string) list \<Rightarrow> string" where
  "xmpInfoMismatch raw info =
     (let pk = parsePacket (xmpUtf8 raw)
      in if \<not> pk_ok pk then []
         else case first_some (info_problem (pk_props pk)) info of Some m \<Rightarrow> m | None \<Rightarrow> [])"

end
