(* ===== verification/Dates.thy ===== *)
theory Dates
  imports Xmp
begin

text \<open>
  Dates of the metadata pass (\<^verbatim>\<open>xmp.cpp\<close>): the reader of the date forms found in files, and the
  two forms a date is written in, for the document information and for XMP. The theory shows
  that the two forms are read back, by the reader itself and by the comparison of
  \<^verbatim>\<open>profile_xmpcheck.cpp\<close>, as the same date and instant, and that the day count of that
  comparison is the one of the calendar.
\<close>

section \<open>Dates\<close>

definition isXmpDate :: "string \<Rightarrow> bool" where
  "isXmpDate s \<longleftrightarrow>
     4 \<le> length s \<and> length s \<le> 40 \<and> list_all is_digit (take 4 s) \<and>
     list_all (\<lambda>c. is_digit c \<or> c \<in> {CHR ''-'', CHR '':'', CHR ''T'', CHR ''Z'', CHR ''+'', CHR ''.''}) s"

text \<open>\<open>Some v\<close> is the return value true with the out-parameter set to \<open>v\<close>.\<close>

definition parseIntField :: "string \<Rightarrow> nat \<Rightarrow> nat \<Rightarrow> nat \<Rightarrow> nat \<Rightarrow> nat option" where
  "parseIntField s pos len lo hi =
     (if pos + len > length s \<or> \<not> list_all is_digit (substr s pos len) then None
      else let v = digits_val (substr s pos len) in if v < lo \<or> v > hi then None else Some v)"

definition or_else :: "'a option \<Rightarrow> 'a \<Rightarrow> 'a" where
  "or_else x d = (case x of Some v \<Rightarrow> v | None \<Rightarrow> d)"

record date =
  d_year :: nat
  d_month :: nat
  d_day :: nat
  d_hour :: nat
  d_minute :: nat
  d_second :: nat
  d_neg :: bool
  d_tzh :: nat
  d_tzm :: nat
  d_haveTz :: bool

definition date_of :: "nat \<Rightarrow> nat \<Rightarrow> nat \<Rightarrow> date" where
  "date_of y m d = \<lparr>d_year = y, d_month = m, d_day = d, d_hour = 0, d_minute = 0, d_second = 0, d_neg = False, d_tzh = 0,
     d_tzm = 0, d_haveTz = False\<rparr>"

text \<open>The zone of a date with dashes, at position \<open>p\<close>.\<close>

definition dash_zone :: "string \<Rightarrow> nat \<Rightarrow> date \<Rightarrow> date" where
  "dash_zone s p d =
     (if p < length s \<and> (s ! p = CHR ''+'' \<or> s ! p = CHR ''-'') then
        (let h = parseIntField s (p + 1) 2 0 23
         in d\<lparr>d_neg := s ! p = CHR ''-'', d_haveTz := h \<noteq> None, d_tzh := or_else h 0,
              d_tzm := if p + 4 < length s \<and> s ! (p + 3) = CHR '':'' then or_else (parseIntField s (p + 4) 2 0 59) 0 else 0\<rparr>)
      else if p < length s \<and> s ! p = CHR ''Z'' then d\<lparr>d_haveTz := True\<rparr>
      else d)"

definition dash_date :: "string \<Rightarrow> date option" where
  "dash_date s =
     (case (parseIntField s 0 4 1 9999, parseIntField s 5 2 1 12, parseIntField s 8 2 1 31) of
        (Some y, Some m, Some day) \<Rightarrow>
          (let d = date_of y m day
           in Some (if length s \<ge> 19 \<and> (s ! 10 = CHR ''T'' \<or> s ! 10 = CHR '' '') then
                dash_zone s (19 + length (takeWhile (\<lambda>c. is_digit c \<or> c = CHR ''.'') (drop 19 s)))
                  (d\<lparr>d_hour := or_else (parseIntField s 11 2 0 23) 0, d_minute := or_else (parseIntField s 14 2 0 59) 0,
                     d_second := or_else (parseIntField s 17 2 0 59) 0\<rparr>)
              else d))
      | _ \<Rightarrow> None)"

definition plain_zone :: "string \<Rightarrow> date \<Rightarrow> date" where
  "plain_zone s d =
     (if length s > 14 \<and> (s ! 14 = CHR ''+'' \<or> s ! 14 = CHR ''-'') then
        (let d = d\<lparr>d_neg := s ! 14 = CHR ''-''\<rparr>
         in case parseIntField s 15 2 0 23 of
              None \<Rightarrow> d
            | Some h \<Rightarrow>
                d\<lparr>d_haveTz := True, d_tzh := h,
                  d_tzm := or_else (parseIntField s (if length s > 17 \<and> s ! 17 = CHR 0x27 then 18 else 17) 2 0 59) 0\<rparr>)
      else if length s > 14 \<and> s ! 14 = CHR ''Z'' then d\<lparr>d_haveTz := True\<rparr>
      else d)"

definition plain_time :: "string \<Rightarrow> date \<Rightarrow> date" where
  "plain_time s d =
     (case parseIntField s 8 2 0 23 of
        None \<Rightarrow> d
      | Some h \<Rightarrow>
          (case parseIntField s 10 2 0 59 of
             None \<Rightarrow> d\<lparr>d_hour := h\<rparr>
           | Some mi \<Rightarrow> plain_zone s (d\<lparr>d_hour := h, d_minute := mi, d_second := or_else (parseIntField s 12 2 0 59) 0\<rparr>)))"

definition plain_date :: "string \<Rightarrow> date option" where
  "plain_date s =
     (case parseIntField s 0 4 1 9999 of
        None \<Rightarrow> None
      | Some y \<Rightarrow>
          Some (case parseIntField s 4 2 1 12 of
             None \<Rightarrow> date_of y 1 1
           | Some m \<Rightarrow>
               (case parseIntField s 6 2 1 31 of
                  None \<Rightarrow> date_of y m 1
                | Some day \<Rightarrow> plain_time s (date_of y m day))))"

text \<open>\<^verbatim>\<open>%0nd\<close>.\<close>

definition pad0 :: "nat \<Rightarrow> nat \<Rightarrow> string" where
  "pad0 n v = replicate (n - length (nat_str v)) CHR ''0'' @ nat_str v"

definition sign_char :: "date \<Rightarrow> char" where
  "sign_char d = (if d_neg d then CHR ''-'' else CHR ''+'')"

definition has_zone :: "date \<Rightarrow> bool" where
  "has_zone d \<longleftrightarrow> d_haveTz d \<and> (d_tzh d \<noteq> 0 \<or> d_tzm d \<noteq> 0)"

definition iso_text :: "date \<Rightarrow> string" where
  "iso_text d = pad0 4 (d_year d) @ ''-'' @ pad0 2 (d_month d) @ ''-'' @ pad0 2 (d_day d) @ ''T'' @ pad0 2 (d_hour d) @ '':'' @
     pad0 2 (d_minute d) @ '':'' @ pad0 2 (d_second d) @
     (if has_zone d then sign_char d # pad0 2 (d_tzh d) @ '':'' @ pad0 2 (d_tzm d) else ''Z'')"

definition pdf_text :: "date \<Rightarrow> string" where
  "pdf_text d = ''D:'' @ pad0 4 (d_year d) @ pad0 2 (d_month d) @ pad0 2 (d_day d) @ pad0 2 (d_hour d) @ pad0 2 (d_minute d) @
     pad0 2 (d_second d) @
     (if has_zone d then sign_char d # pad0 2 (d_tzh d) @ [CHR 0x27] @ pad0 2 (d_tzm d) @ [CHR 0x27] else ''Z'')"

definition read_date :: "string \<Rightarrow> date option" where
  "read_date raw =
     (let s = (if starts_with raw ''D:'' then drop 2 raw else raw)
      in if length s \<ge> 10 \<and> s ! 4 = CHR ''-'' \<and> s ! 7 = CHR ''-'' then dash_date s else plain_date s)"

definition parseDateFlexible :: "string \<Rightarrow> (string \<times> string) option" where
  "parseDateFlexible raw = map_option (\<lambda>d. (iso_text d, pdf_text d)) (read_date raw)"

definition pdfDateToIso :: "string \<Rightarrow> string option" where
  "pdfDateToIso raw = map_option fst (parseDateFlexible raw)"

section \<open>Ranges\<close>

definition date_ok :: "date \<Rightarrow> bool" where
  "date_ok d \<longleftrightarrow> 1 \<le> d_year d \<and> d_year d \<le> 9999 \<and> 1 \<le> d_month d \<and> d_month d \<le> 12 \<and> 1 \<le> d_day d \<and> d_day d \<le> 31 \<and>
     d_hour d \<le> 23 \<and> d_minute d \<le> 59 \<and> d_second d \<le> 59 \<and> d_tzh d \<le> 23 \<and> d_tzm d \<le> 59"

lemma parseIntField_range: "parseIntField s p n lo hi = Some v \<Longrightarrow> lo \<le> v \<and> v \<le> hi"
  by (auto simp: parseIntField_def Let_def split: if_splits)

lemma parseIntField_default: "or_else (parseIntField s p n 0 hi) 0 \<le> hi"
  by (auto simp: or_else_def dest: parseIntField_range split: option.splits)

lemma date_of_ok: "1 \<le> y \<Longrightarrow> y \<le> 9999 \<Longrightarrow> 1 \<le> m \<Longrightarrow> m \<le> 12 \<Longrightarrow> 1 \<le> day \<Longrightarrow> day \<le> 31 \<Longrightarrow> date_ok (date_of y m day)"
  by (simp add: date_ok_def date_of_def)

lemma dash_zone_ok: "date_ok d \<Longrightarrow> date_ok (dash_zone s p d)"
  by (auto simp: dash_zone_def date_ok_def Let_def parseIntField_default)

lemma plain_zone_ok: "date_ok d \<Longrightarrow> date_ok (plain_zone s d)"
  by (auto simp: plain_zone_def date_ok_def Let_def parseIntField_default dest!: parseIntField_range split: option.splits)

lemma date_ok_time:
  "date_ok d \<Longrightarrow> h \<le> 23 \<Longrightarrow> date_ok (d\<lparr>d_hour := h\<rparr>)"
  "date_ok d \<Longrightarrow> h \<le> 23 \<Longrightarrow> mi \<le> 59 \<Longrightarrow> sec \<le> 59 \<Longrightarrow> date_ok (d\<lparr>d_hour := h, d_minute := mi, d_second := sec\<rparr>)"
  by (simp_all add: date_ok_def)

lemma plain_time_ok: "date_ok d \<Longrightarrow> date_ok (plain_time s d)"
  unfolding plain_time_def
  by (auto dest!: parseIntField_range split: option.splits intro!: plain_zone_ok date_ok_time parseIntField_default)

lemma dash_date_ok: "dash_date s = Some d \<Longrightarrow> date_ok d"
  unfolding dash_date_def Let_def
  by (auto dest!: parseIntField_range split: option.splits if_splits
      intro!: dash_zone_ok date_ok_time parseIntField_default date_of_ok)

lemma plain_date_ok: "plain_date s = Some d \<Longrightarrow> date_ok d"
  unfolding plain_date_def
  by (auto dest!: parseIntField_range split: option.splits intro!: plain_time_ok date_of_ok)

lemma read_date_ok: "read_date raw = Some d \<Longrightarrow> date_ok d"
  by (auto simp: read_date_def Let_def intro: dash_date_ok plain_date_ok split: if_splits)

section \<open>Written dates\<close>

fun digs :: "nat \<Rightarrow> nat \<Rightarrow> string" where
  "digs 0 v = []"
| "digs (Suc n) v = digs n (v div 10) @ [digit_char (v mod 10)]"

lemma digit_char_0: "digit_char 0 = CHR ''0''"
  by code_simp

lemma digs_0: "digs n 0 = replicate n CHR ''0''"
  by (induction n) (simp_all add: digit_char_0 replicate_append_same)

lemma pad0_digs: "v < 10 ^ Suc n \<Longrightarrow> pad0 (Suc n) v = digs (Suc n) v"
proof (induction n arbitrary: v)
  case 0
  then show ?case by (simp add: pad0_def nat_str.simps[of v])
next
  case (Suc n)
  show ?case
  proof (cases "v < 10")
    case True
    then show ?thesis
      by (simp add: pad0_def nat_str.simps[of v] digs_0 digit_char_0 replicate_append_same flip: replicate_Suc)
  next
    case False
    have "v div 10 < 10 ^ Suc n" using Suc.prems by (simp add: less_mult_imp_div_less)
    from Suc.IH[OF this] have "digs (Suc (Suc n)) v = pad0 (Suc n) (v div 10) @ [digit_char (v mod 10)]" by simp
    also have "\<dots> = pad0 (Suc (Suc n)) v" using False by (simp add: pad0_def nat_str.simps[of v])
    finally show ?thesis by simp
  qed
qed

lemma digs_digits: "length (digs n v) = n" "list_all is_digit (digs n v)"
  by (induction n arbitrary: v) auto

lemma digs_val: "v < 10 ^ n \<Longrightarrow> digits_val (digs n v) = v"
proof (induction n arbitrary: v)
  case (Suc n)
  then have "digits_val (digs n (v div 10)) = v div 10" by (simp add: less_mult_imp_div_less)
  then show ?case by simp
qed (simp add: digits_val_def)

lemma pad0_2:
  assumes "v < 100"
  shows "pad0 2 v = digs 2 v"
  using pad0_digs[of v 1] assms by (simp add: numeral_2_eq_2)

lemma pad0_4:
  assumes "v < 10000"
  shows "pad0 4 v = digs 4 v"
  using pad0_digs[of v 3] assms by simp

text \<open>Reading fixed-width fields out of a text made of them.\<close>

lemma parseIntField_digs:
  assumes "length a = p" "v < 10 ^ n" "lo \<le> v" "v \<le> hi"
  shows "parseIntField (a @ digs n v @ b) p n lo hi = Some v"
  using assms digs_val[OF assms(2)] by (simp add: parseIntField_def substr_def digs_digits Let_def)

lemma parseIntField_digs_end:
  assumes "length a = p" "v < 10 ^ n" "lo \<le> v" "v \<le> hi"
  shows "parseIntField (a @ digs n v) p n lo hi = Some v"
  using parseIntField_digs[OF assms, of "[]"] by simp

text \<open>The pieces of the two forms before the zone.\<close>

definition iso_head :: "date \<Rightarrow> string" where
  "iso_head d = digs 4 (d_year d) @ ''-'' @ digs 2 (d_month d) @ ''-'' @ digs 2 (d_day d) @ ''T'' @ digs 2 (d_hour d) @ '':'' @
     digs 2 (d_minute d) @ '':'' @ digs 2 (d_second d)"

definition plain_head :: "date \<Rightarrow> string" where
  "plain_head d = digs 4 (d_year d) @ digs 2 (d_month d) @ digs 2 (d_day d) @ digs 2 (d_hour d) @ digs 2 (d_minute d) @ digs 2 (d_second d)"

definition zone :: "string \<Rightarrow> string \<Rightarrow> date \<Rightarrow> string" where
  "zone mid fin d = (if has_zone d then sign_char d # digs 2 (d_tzh d) @ mid @ digs 2 (d_tzm d) @ fin else ''Z'')"

lemma iso_text_head: "date_ok d \<Longrightarrow> iso_text d = iso_head d @ zone '':'' [] d"
  by (simp add: iso_text_def iso_head_def zone_def pad0_2 pad0_4 date_ok_def)

lemma pdf_text_head: "date_ok d \<Longrightarrow> pdf_text d = ''D:'' @ plain_head d @ zone [CHR 0x27] [CHR 0x27] d"
  by (simp add: pdf_text_def plain_head_def zone_def pad0_2 pad0_4 date_ok_def)

text \<open>What a date keeps when it is written: a zone of zero minutes is the zone \<open>Z\<close>.\<close>

definition canonical :: "date \<Rightarrow> date" where
  "canonical d = (if has_zone d then d\<lparr>d_haveTz := True\<rparr> else d\<lparr>d_neg := False, d_tzh := 0, d_tzm := 0, d_haveTz := True\<rparr>)"

lemma canonical_text: "iso_text (canonical d) = iso_text d" "pdf_text (canonical d) = pdf_text d"
  by (auto simp: canonical_def iso_text_def pdf_text_def has_zone_def sign_char_def)

lemma head_lengths: "length (plain_head d) = 14" "length (iso_head d) = 19"
  by (simp_all add: plain_head_def iso_head_def digs_digits)

lemma digs_hd: "0 < n \<Longrightarrow> \<exists>c cs. digs n v = c # cs \<and> is_digit c"
  using digs_digits[of n v] by (cases "digs n v") auto

lemma not_digit_chars: "\<not> is_digit (CHR ''-'')" "\<not> is_digit (CHR ''+'')" "\<not> is_digit (CHR ''Z'')" "\<not> is_digit (CHR '':'')"
  "\<not> is_digit (CHR ''T'')" "\<not> is_digit (CHR ''.'')" "\<not> is_digit (CHR ''D'')" "\<not> is_digit (CHR 0x27)"
  by code_simp+

lemma sign_char_cases: "sign_char d = CHR ''+'' \<and> \<not> d_neg d \<or> sign_char d = CHR ''-'' \<and> d_neg d"
  by (simp add: sign_char_def)

lemma plain_zone_written:
  assumes "date_ok d" "length h = 14"
  shows "plain_zone (h @ zone [CHR 0x27] [CHR 0x27] d) (d\<lparr>d_neg := False, d_tzh := 0, d_tzm := 0, d_haveTz := False\<rparr>) = canonical d"
proof (cases "has_zone d")
  case False
  then show ?thesis using assms(2) by (simp add: zone_def plain_zone_def canonical_def nth_append)
next
  case True
  let ?s = "h @ sign_char d # digs 2 (d_tzh d) @ CHR 0x27 # digs 2 (d_tzm d) @ [CHR 0x27]"
  have r: "d_tzh d < 10 ^ 2" "d_tzh d \<le> 23" "d_tzm d < 10 ^ 2" "d_tzm d \<le> 59" using assms(1) by (auto simp: date_ok_def)
  have "parseIntField ?s 15 2 0 23 = Some (d_tzh d)"
    using parseIntField_digs[of "h @ [sign_char d]" 15 "d_tzh d" 2 0 23 "CHR 0x27 # digs 2 (d_tzm d) @ [CHR 0x27]"] r assms(2) by simp
  moreover have "parseIntField ?s 18 2 0 59 = Some (d_tzm d)"
    using parseIntField_digs[of "h @ sign_char d # digs 2 (d_tzh d) @ [CHR 0x27]" 18 "d_tzm d" 2 0 59 "[CHR 0x27]"] r assms(2)
    by (simp add: digs_digits)
  moreover have "?s ! 14 = sign_char d" "?s ! 17 = CHR 0x27" using assms(2) by (simp_all add: nth_append digs_digits)
  ultimately show ?thesis
    using True sign_char_cases[of d] assms(2)
    by (auto simp: zone_def plain_zone_def canonical_def digs_digits or_else_def Let_def has_zone_def)
qed

lemma read_pdf_text:
  assumes "date_ok d"
  shows "read_date (pdf_text d) = Some (canonical d)"
proof -
  define z where "z = zone [CHR 0x27] [CHR 0x27] d"
  let ?s = "plain_head d @ z"
  have r: "d_year d < 10 ^ 4" "1 \<le> d_year d" "d_year d \<le> 9999" "d_month d < 10 ^ 2" "1 \<le> d_month d" "d_month d \<le> 12"
    "d_day d < 10 ^ 2" "1 \<le> d_day d" "d_day d \<le> 31" "d_hour d < 10 ^ 2" "d_hour d \<le> 23" "d_minute d < 10 ^ 2" "d_minute d \<le> 59"
    "d_second d < 10 ^ 2" "d_second d \<le> 59" using assms by (auto simp: date_ok_def)
  note [simp] = digs_digits(1)
  have f: "parseIntField ?s 0 4 1 9999 = Some (d_year d)" "parseIntField ?s 4 2 1 12 = Some (d_month d)"
    "parseIntField ?s 6 2 1 31 = Some (d_day d)" "parseIntField ?s 8 2 0 23 = Some (d_hour d)"
    "parseIntField ?s 10 2 0 59 = Some (d_minute d)" "parseIntField ?s 12 2 0 59 = Some (d_second d)"
    using parseIntField_digs[of "[]" 0 "d_year d" 4 1 9999] parseIntField_digs[of "digs 4 (d_year d)" 4 "d_month d" 2 1 12]
      parseIntField_digs[of "digs 4 (d_year d) @ digs 2 (d_month d)" 6 "d_day d" 2 1 31]
      parseIntField_digs[of "digs 4 (d_year d) @ digs 2 (d_month d) @ digs 2 (d_day d)" 8 "d_hour d" 2 0 23]
      parseIntField_digs[of "digs 4 (d_year d) @ digs 2 (d_month d) @ digs 2 (d_day d) @ digs 2 (d_hour d)" 10 "d_minute d" 2 0 59]
      parseIntField_digs[of "digs 4 (d_year d) @ digs 2 (d_month d) @ digs 2 (d_day d) @ digs 2 (d_hour d) @ digs 2 (d_minute d)"
        12 "d_second d" 2 0 59] r
    by (simp_all add: plain_head_def)
  obtain c cs where c: "digs 2 (d_month d) = c # cs" "is_digit c" using digs_hd[of 2 "d_month d"] by auto
  have "?s ! 4 = c" by (simp add: plain_head_def nth_append c)
  then have nd: "?s ! 4 \<noteq> CHR ''-''" using c(2) not_digit_chars by metis
  let ?d = "date_of (d_year d) (d_month d) (d_day d)\<lparr>d_hour := d_hour d, d_minute := d_minute d, d_second := d_second d\<rparr>"
  have d: "?d = d\<lparr>d_neg := False, d_tzh := 0, d_tzm := 0, d_haveTz := False\<rparr>" by (simp add: date_of_def)
  have "plain_zone ?s ?d = canonical d" unfolding d z_def by (rule plain_zone_written[OF assms head_lengths(1)])
  then have "plain_date ?s = Some (canonical d)" unfolding plain_date_def plain_time_def f or_else_def by simp
  then show ?thesis
    using nd by (simp add: read_date_def pdf_text_head[OF assms] z_def[symmetric] starts_with_def Let_def)
qed

lemma dash_zone_written:
  assumes "date_ok d" "length h = 19"
  shows "dash_zone (h @ zone '':'' [] d) 19 (d\<lparr>d_neg := False, d_tzh := 0, d_tzm := 0, d_haveTz := False\<rparr>) = canonical d"
proof (cases "has_zone d")
  case False
  then show ?thesis using assms(2) by (simp add: zone_def dash_zone_def canonical_def nth_append)
next
  case True
  let ?s = "h @ sign_char d # digs 2 (d_tzh d) @ CHR '':'' # digs 2 (d_tzm d)"
  have r: "d_tzh d < 10 ^ 2" "d_tzh d \<le> 23" "d_tzm d < 10 ^ 2" "d_tzm d \<le> 59" using assms(1) by (auto simp: date_ok_def)
  have "parseIntField ?s 20 2 0 23 = Some (d_tzh d)"
    using parseIntField_digs[of "h @ [sign_char d]" 20 "d_tzh d" 2 0 23 "CHR '':'' # digs 2 (d_tzm d)"] r assms(2) by simp
  moreover have "parseIntField ?s 23 2 0 59 = Some (d_tzm d)"
    using parseIntField_digs_end[of "h @ sign_char d # digs 2 (d_tzh d) @ '':''" 23 "d_tzm d" 2 0 59] r assms(2)
    by (simp add: digs_digits)
  moreover have "?s ! 19 = sign_char d" "?s ! 22 = CHR '':''" using assms(2) by (simp_all add: nth_append digs_digits)
  ultimately show ?thesis
    using True sign_char_cases[of d] assms(2)
    by (auto simp: zone_def dash_zone_def canonical_def digs_digits or_else_def Let_def has_zone_def)
qed

lemma zone_hd: "\<exists>c cs. zone mid fin d = c # cs \<and> \<not> is_digit c \<and> c \<noteq> CHR ''.''"
  using sign_char_cases[of d] not_digit_chars by (auto simp: zone_def)

lemma read_iso_text:
  assumes "date_ok d"
  shows "read_date (iso_text d) = Some (canonical d)"
proof -
  define z where "z = zone '':'' [] d"
  let ?s = "iso_head d @ z"
  have r: "d_year d < 10 ^ 4" "1 \<le> d_year d" "d_year d \<le> 9999" "d_month d < 10 ^ 2" "1 \<le> d_month d" "d_month d \<le> 12"
    "d_day d < 10 ^ 2" "1 \<le> d_day d" "d_day d \<le> 31" "d_hour d < 10 ^ 2" "d_hour d \<le> 23" "d_minute d < 10 ^ 2" "d_minute d \<le> 59"
    "d_second d < 10 ^ 2" "d_second d \<le> 59" using assms by (auto simp: date_ok_def)
  note [simp] = digs_digits(1)
  let ?a = "digs 4 (d_year d) @ ''-''" and ?b = "digs 4 (d_year d) @ ''-'' @ digs 2 (d_month d) @ ''-''"
  let ?c = "?b @ digs 2 (d_day d) @ ''T''"
  let ?e = "?c @ digs 2 (d_hour d) @ '':''"
  let ?f = "?e @ digs 2 (d_minute d) @ '':''"
  have f: "parseIntField ?s 0 4 1 9999 = Some (d_year d)" "parseIntField ?s 5 2 1 12 = Some (d_month d)"
    "parseIntField ?s 8 2 1 31 = Some (d_day d)" "parseIntField ?s 11 2 0 23 = Some (d_hour d)"
    "parseIntField ?s 14 2 0 59 = Some (d_minute d)" "parseIntField ?s 17 2 0 59 = Some (d_second d)"
    using parseIntField_digs[of "[]" 0 "d_year d" 4 1 9999] parseIntField_digs[of ?a 5 "d_month d" 2 1 12]
      parseIntField_digs[of ?b 8 "d_day d" 2 1 31] parseIntField_digs[of ?c 11 "d_hour d" 2 0 23]
      parseIntField_digs[of ?e 14 "d_minute d" 2 0 59] parseIntField_digs[of ?f 17 "d_second d" 2 0 59] r
    by (simp_all add: iso_head_def)
  have at: "?s ! 4 = CHR ''-''" "?s ! 7 = CHR ''-''" "?s ! 10 = CHR ''T''"
    by (simp_all add: iso_head_def nth_append)
  obtain c cs where c: "z = c # cs" "\<not> is_digit c" "c \<noteq> CHR ''.''" using zone_hd[of "'':''" "[]" d] by (auto simp: z_def)
  have len: "length ?s \<ge> 19" "length ?s \<ge> 10" "drop 19 ?s = z" by (simp_all add: head_lengths)
  have tw: "takeWhile (\<lambda>c. is_digit c \<or> c = CHR ''.'') (drop 19 ?s) = []" unfolding len(3) using c by simp
  let ?d = "date_of (d_year d) (d_month d) (d_day d)\<lparr>d_hour := d_hour d, d_minute := d_minute d, d_second := d_second d\<rparr>"
  have d: "?d = d\<lparr>d_neg := False, d_tzh := 0, d_tzm := 0, d_haveTz := False\<rparr>" by (simp add: date_of_def)
  have dz: "dash_zone ?s 19 ?d = canonical d" unfolding d z_def by (rule dash_zone_written[OF assms head_lengths(2)])
  have "dash_date ?s = Some (canonical d)" unfolding dash_date_def f tw Let_def or_else_def using len at dz by simp
  moreover have "\<not> starts_with ?s ''D:''"
    using digs_hd[of 4 "d_year d"] not_digit_chars by (auto simp: starts_with_def iso_head_def)
  ultimately show ?thesis
    unfolding iso_text_head[OF assms] z_def[symmetric] read_date_def Let_def using at len by simp
qed

text \<open>
  A date that was read is written in two forms that read back as the same date: whatever
  text a date came from, reading either form again gives the same two forms.
\<close>

theorem parseDateFlexible_stable:
  assumes "parseDateFlexible raw = Some (xd, pd)"
  shows "parseDateFlexible xd = Some (xd, pd) \<and> parseDateFlexible pd = Some (xd, pd)"
proof -
  obtain d where d: "read_date raw = Some d" "xd = iso_text d" "pd = pdf_text d"
    using assms by (auto simp: parseDateFlexible_def)
  note ok = read_date_ok[OF d(1)]
  show ?thesis
    by (simp add: parseDateFlexible_def d(2,3) read_iso_text[OF ok] read_pdf_text[OF ok] canonical_text)
qed

theorem parseDateFlexible_stable_witness:
  "parseDateFlexible ''2024-02-29T12:30:05+01:00'' = Some (''2024-02-29T12:30:05+01:00'', ''D:20240229123005+01'' @ CHR 0x27 # ''00'' @ [CHR 0x27]) \<and>
   parseDateFlexible (''D:20240229123005+01'' @ CHR 0x27 # ''00'' @ [CHR 0x27]) =
     Some (''2024-02-29T12:30:05+01:00'', ''D:20240229123005+01'' @ CHR 0x27 # ''00'' @ [CHR 0x27])"
proof (rule parseDateFlexible_stable)
  show "parseDateFlexible ''D:20240229123005+01'' = Some (''2024-02-29T12:30:05+01:00'', ''D:20240229123005+01'' @ CHR 0x27 # ''00'' @ [CHR 0x27])"
    by code_simp
qed

section \<open>The comparison of dates\<close>

text \<open>The minutes of the zone, and the instant a date stands for.\<close>

definition zone_minutes :: "date \<Rightarrow> int" where
  "zone_minutes d = (if has_zone d then (if d_neg d then - 1 else 1) * (int (d_tzh d) * 60 + int (d_tzm d)) else 0)"

definition instant :: "int \<Rightarrow> date \<Rightarrow> int" where
  "instant off d =
     ((days_from_civil (int (d_year d)) (int (d_month d)) (int (d_day d)) * 24 + int (d_hour d)) * 60 + int (d_minute d) - off) * 60 +
     int (d_second d)"

lemma date_fields_digs:
  assumes "v < 10 ^ Suc n"
  shows "date_fields (Suc n # ns) b (digs (Suc n) v @ r) = map_option (\<lambda>(fs, t). (int v # fs, t)) (date_fields ns False r)"
proof -
  have "digs (Suc n) v \<noteq> []" "is_digit (hd (digs (Suc n) v @ r))"
    using digs_hd[of "Suc n" v] by (auto simp del: digs.simps)
  then show ?thesis
    using digs_val[OF assms] digs_digits[of "Suc n" v] by (simp del: digs.simps)
qed

lemma date_fields_plain:
  assumes "date_ok d"
  shows "date_fields [4, 2, 2, 2, 2, 2] True (plain_head d @ z) =
    Some ([int (d_year d), int (d_month d), int (d_day d), int (d_hour d), int (d_minute d), int (d_second d)], z)"
proof -
  have r: "d_year d < 10 ^ 4" "d_month d < 10 ^ 2" "d_day d < 10 ^ 2" "d_hour d < 10 ^ 2" "d_minute d < 10 ^ 2" "d_second d < 10 ^ 2"
    using assms by (auto simp: date_ok_def)
  have two: "date_fields (2 # ns) b (digs 2 v @ t) = map_option (\<lambda>(fs, t). (int v # fs, t)) (date_fields ns False t)"
    if "v < 10 ^ 2" for v ns b t
    using date_fields_digs[of v 1 ns b t] that by (simp add: numeral_2_eq_2)
  have four: "date_fields (4 # ns) b (digs 4 v @ t) = map_option (\<lambda>(fs, t). (int v # fs, t)) (date_fields ns False t)"
    if "v < 10 ^ 4" for v ns b t
    using date_fields_digs[of v 3 ns b t] that by simp
  show ?thesis
    unfolding plain_head_def append_assoc
    by (simp only: two[OF r(2)] two[OF r(3)] two[OF r(4)] two[OF r(5)] two[OF r(6)] four[OF r(1)] date_fields.simps(1) option.map prod.case)
qed

lemma filter_digs: "(\<And>c. is_digit c \<Longrightarrow> P c) \<Longrightarrow> filter P (digs n v) = digs n v"
  using digs_digits(2)[of n v] by (simp add: filter_id_conv list_all_iff)

lemma dateParts_of_fields:
  assumes "date_ok d" "s = plain_head d @ z"
  shows "(case date_fields [4, 2, 2, 2, 2, 2] True s of
            None \<Rightarrow> None
          | Some (fs, r) \<Rightarrow>
              (let f = (\<lambda>k. if k < length fs then fs ! k else [0, 1, 1, 0, 0, 0] ! k); off = zone_offset (skip_fraction r)
               in Some (((days_from_civil (f 0) (f 1) (f 2) * 24 + f 3) * 60 + f 4 - off) * 60 + f 5))) =
         Some (instant (zone_offset (skip_fraction z)) d)"
  unfolding assms(2) date_fields_plain[OF assms(1)] by (simp add: instant_def Let_def)

lemma zone_digits_val:
  assumes "date_ok d"
  shows "digits_val (digs 2 (d_tzh d)) = d_tzh d" "digits_val (digs 2 (d_tzm d)) = d_tzm d"
  using assms by (auto intro!: digs_val simp: date_ok_def)

lemma dateParts_pdf_text:
  assumes "date_ok d"
  shows "dateParts (pdf_text d) True = Some (instant (zone_minutes d) d)"
proof -
  have "zone_offset (skip_fraction (zone [CHR 0x27] [CHR 0x27] d)) = zone_minutes d"
    using sign_char_cases[of d] not_digit_chars zone_digits_val[OF assms]
    by (auto simp: zone_def zone_minutes_def zone_offset_def skip_fraction_def filter_digs digs_digits Let_def)
  then show ?thesis
    using dateParts_of_fields[OF assms refl, of "zone [CHR 0x27] [CHR 0x27] d"]
    by (simp add: dateParts_def pdf_text_head[OF assms] starts_with_def Let_def)
qed

lemma dateParts_iso_text:
  assumes "date_ok d"
  shows "dateParts (iso_text d) False = Some (instant (if d_neg d then 0 else zone_minutes d) d)"
proof -
  let ?P = "\<lambda>c. c \<noteq> CHR ''-'' \<and> c \<noteq> CHR '':'' \<and> c \<noteq> CHR ''T''"
  have dg: "filter ?P (digs n v) = digs n v" for n v by (rule filter_digs) (auto simp: is_digit_def)
  have "filter ?P (iso_head d) = plain_head d" by (simp add: iso_head_def plain_head_def dg)
  then have f: "filter ?P (iso_text d) = plain_head d @ filter ?P (zone '':'' [] d)" by (simp add: iso_text_head[OF assms])
  obtain c cs where c: "digs 2 (d_tzh d) = c # cs" "is_digit c" using digs_hd[of 2 "d_tzh d"] by auto
  have cc: "c \<noteq> CHR ''+''" "c \<noteq> CHR ''-''" "c \<noteq> CHR ''.''" using c(2) not_digit_chars by metis+
  have neg: "zone_offset (skip_fraction (digs 2 (d_tzh d) @ t)) = 0" for t
    unfolding c(1) using cc by (simp add: zone_offset_def skip_fraction_def)
  have "zone_offset (skip_fraction (filter ?P (zone '':'' [] d))) = (if d_neg d then 0 else zone_minutes d)"
  proof (cases "has_zone d \<and> \<not> d_neg d")
    case True
    then show ?thesis
      using zone_digits_val[OF assms]
      by (simp add: zone_def zone_minutes_def zone_offset_def skip_fraction_def sign_char_def dg filter_digs digs_digits Let_def)
  next
    case False
    then show ?thesis
      using neg by (auto simp: zone_def zone_minutes_def sign_char_def dg) (simp_all add: zone_offset_def skip_fraction_def)
  qed
  then show ?thesis
    using dateParts_of_fields[OF assms refl, of "filter ?P (zone '':'' [] d)"] by (simp add: dateParts_def f Let_def)
qed

lemma dateParts_agree:
  assumes "date_ok d"
  shows "dateParts (pdf_text d) True = dateParts (iso_text d) False \<longleftrightarrow> \<not> (has_zone d \<and> d_neg d)"
proof -
  have "zone_minutes d \<noteq> 0" if "has_zone d" using that by (auto simp: zone_minutes_def has_zone_def)
  then show ?thesis
    by (auto simp: dateParts_pdf_text[OF assms] dateParts_iso_text[OF assms] instant_def) (auto simp: zone_minutes_def)
qed

text \<open>
  C25. The comparison of the document information with XMP accepts the two forms of a date that
  the engine itself writes exactly when the zone of the date is not negative: the comparison
  drops the minus sign of a zone together with the dashes of the XMP form.
\<close>

theorem dateParts_agree_iff_zone_not_negative:
  assumes "read_date raw = Some d"
  shows "dateParts (pdf_text d) True = dateParts (iso_text d) False \<longleftrightarrow> \<not> (has_zone d \<and> d_neg d)"
  by (rule dateParts_agree[OF read_date_ok[OF assms]])

theorem dateParts_agree_iff_zone_not_negative_witness:
  "dateParts (''D:20240229123005-05'' @ CHR 0x27 # ''00'' @ [CHR 0x27]) True \<noteq> dateParts ''2024-02-29T12:30:05-05:00'' False"
proof -
  let ?d = "\<lparr>d_year = 2024, d_month = 2, d_day = 29, d_hour = 12, d_minute = 30, d_second = 5, d_neg = True, d_tzh = 5, d_tzm = 0, d_haveTz = True\<rparr>"
  have "read_date ''2024-02-29T12:30:05-05:00'' = Some ?d" by code_simp
  moreover have "pdf_text ?d = ''D:20240229123005-05'' @ CHR 0x27 # ''00'' @ [CHR 0x27]" "iso_text ?d = ''2024-02-29T12:30:05-05:00''"
    "has_zone ?d" "d_neg ?d" by code_simp+
  ultimately show ?thesis using dateParts_agree_iff_zone_not_negative[of "''2024-02-29T12:30:05-05:00''" ?d] by simp
qed

section \<open>The day count\<close>

text \<open>The calendar: leap years, lengths of months, and the day after a day.\<close>

definition leap :: "int \<Rightarrow> bool" where
  "leap y \<longleftrightarrow> 4 dvd y \<and> (\<not> 100 dvd y \<or> 400 dvd y)"

definition month_days :: "int \<Rightarrow> int \<Rightarrow> int" where
  "month_days y m = (if m = 2 then (if leap y then 29 else 28) else if m \<in> {4, 6, 9, 11} then 30 else 31)"

definition next_day :: "int \<Rightarrow> int \<Rightarrow> int \<Rightarrow> int \<times> int \<times> int" where
  "next_day y m d = (if d < month_days y m then (y, m, d + 1) else if m < 12 then (y, m + 1, 1) else (y + 1, 1, 1))"

lemma cdiv_pos: "0 \<le> a \<Longrightarrow> 0 < b \<Longrightarrow> cdiv a b = a div b"
  by (cases "a = 0") (auto simp: cdiv_def)

definition year_days :: "int \<Rightarrow> int" where
  "year_days y = 365 * y + y div 4 - y div 100 + y div 400"

definition march_days :: "int \<Rightarrow> int" where
  "march_days m = (153 * (m + (if m > 2 then - 3 else 9)) + 2) div 5"

lemma days_from_civil_pos:
  assumes "1 \<le> y" "1 \<le> m"
  shows "days_from_civil y m d = year_days (if m \<le> 2 then y - 1 else y) + march_days m + d - 1"
proof -
  define y' where "y' = (if m \<le> 2 then y - 1 else y)"
  have y': "0 \<le> y'" using assms(1) by (simp add: y'_def)
  define e where "e = y' div 400"
  define r where "r = y' mod 400"
  have er: "y' = 400 * e + r" "0 \<le> r" "r < 400" by (simp_all add: e_def r_def)
  have d: "y' div 4 = 100 * e + r div 4" "y' div 100 = 4 * e + r div 100" "y' div 400 = e" "y' - e * 400 = r"
    using er by auto
  have "0 \<le> 153 * (m + (if m > 2 then - 3 else 9)) + 2" using assms(2) by auto
  then show ?thesis
    using y' er d unfolding days_from_civil_def y'_def[symmetric] Let_def year_days_def march_days_def
    by (simp add: cdiv_pos)
qed

lemma div_step: "y div k - (y - 1) div k = (if k dvd y then 1 else 0)" if "0 < k" for k y :: int
proof (cases "k dvd y")
  case True
  then obtain c where c: "y = k * c" by (rule dvdE)
  have "(y - 1) div k = c - 1" by (rule int_div_pos_eq[of _ _ _ "k - 1"]) (use that in \<open>simp_all add: c algebra_simps\<close>)
  then show ?thesis using True c that by simp
next
  case False
  then have "0 < y mod k" using that by (simp add: dvd_eq_mod_eq_0 order_less_le)
  then have "(y - 1) div k = y div k"
    by (intro int_div_pos_eq[of _ _ _ "y mod k - 1"]) (use pos_mod_bound[OF that, of y] in \<open>simp_all add: algebra_simps\<close>)
  then show ?thesis using False by simp
qed

lemma year_days_step: "year_days y - year_days (y - 1) = 365 + (if leap y then 1 else 0)"
proof -
  have "(4::int) dvd 100" "(100::int) dvd 400" by simp_all
  then have dv: "(100::int) dvd y \<Longrightarrow> 4 dvd y" "(400::int) dvd y \<Longrightarrow> 100 dvd y"
    by (blast intro: dvd_trans)+
  define b4 b100 b400 where "b4 = ((4::int) dvd y)" and "b100 = ((100::int) dvd y)" and "b400 = ((400::int) dvd y)"
  have e: "y div 4 - (y - 1) div 4 = (if b4 then 1 else 0)" "y div 100 - (y - 1) div 100 = (if b100 then 1 else 0)"
    "y div 400 - (y - 1) div 400 = (if b400 then 1 else 0)"
    unfolding b4_def b100_def b400_def by (rule div_step; simp)+
  have lin: "(365 * y + a - b + c) - (365 * (y - 1) + a' - b' + c') = 365 + (a - a') - (b - b') + (c - c')" for a b c a' b' c' :: int
    by simp
  note st = lin[of "y div 4" "y div 100" "y div 400" "(y - 1) div 4" "(y - 1) div 100" "(y - 1) div 400", folded year_days_def, unfolded e]
  have "leap y = (b4 \<and> (\<not> b100 \<or> b400))" by (simp add: leap_def b4_def b100_def b400_def)
  then show ?thesis unfolding st using dv[folded b4_def b100_def b400_def] by (cases b4; cases b100; cases b400) simp_all
qed

text \<open>
  The day count of the date comparison is the one of the calendar: from every day of a
  month of every year from 1 on it goes up by exactly one to the day after it.
\<close>

theorem days_from_civil_next:
  assumes "1 \<le> y" "1 \<le> m" "m \<le> 12" "1 \<le> d" "d \<le> month_days y m" "next_day y m d = (y', m', d')"
  shows "days_from_civil y' m' d' = days_from_civil y m d + 1"
proof (cases "d < month_days y m")
  case True
  then show ?thesis using assms by (simp add: next_day_def days_from_civil_pos)
next
  case False
  then have d: "d = month_days y m" using assms(5) by simp
  have "m = 1 \<or> m = 2 \<or> m = 3 \<or> m = 4 \<or> m = 5 \<or> m = 6 \<or> m = 7 \<or> m = 8 \<or> m = 9 \<or> m = 10 \<or> m = 11 \<or> m = 12"
    using assms(2,3) by presburger
  then show ?thesis
    using assms(1,6) False d year_days_step[of y]
    by (elim disjE) (auto simp: next_day_def month_days_def days_from_civil_pos march_days_def)
qed

theorem days_from_civil_next_witness: "days_from_civil 2024 3 1 = days_from_civil 2024 2 29 + 1"
  by (rule days_from_civil_next[of 2024 2 29]) (simp_all add: next_day_def month_days_def leap_def)

end
