(* ===== verification/Metadata.thy ===== *)
theory Metadata
  imports Dates Levels
begin

text \<open>
  The metadata pass (\<^verbatim>\<open>xmp.cpp\<close>): the document
  information the pass keeps, and the XMP packet it writes. The theory shows that the packet is
  read back by the reader of \<open>Xml\<close> and accepted by the checks of \<open>Xmp\<close>.
\<close>

section \<open>Text\<close>

text \<open>A character of a text that is kept, and its form in XML.\<close>

definition kept_char :: "char \<Rightarrow> bool" where
  "kept_char c \<longleftrightarrow> \<not> (ord c < 0x20 \<and> c \<noteq> CHR 0x09 \<and> c \<noteq> CHR 0x0A \<and> c \<noteq> CHR 0x0D)"

definition escape_char :: "char \<Rightarrow> string" where
  "escape_char c =
     (if c = CHR ''&'' then ''&amp;'' else if c = CHR ''<'' then ''&lt;'' else if c = CHR ''>'' then ''&gt;''
      else if c = CHR 0x22 then ''&quot;'' else if \<not> kept_char c then [] else [c])"

definition xmlEscape :: "string \<Rightarrow> string" where
  "xmlEscape s = concat (map escape_char s)"

definition cleanText :: "string \<Rightarrow> string" where
  "cleanText s = filter kept_char s"

definition xmpElementText :: "string \<Rightarrow> string \<Rightarrow> string" where
  "xmpElementText xmp name =
     (let attr = (case find_str (name @ [CHR ''='', CHR 0x22]) xmp of
                    None \<Rightarrow> []
                  | Some p \<Rightarrow> (let start = p + length name + 2
                              in case find_idx_from (\<lambda>c. c = CHR 0x22) xmp start of
                                   None \<Rightarrow> [] | Some e \<Rightarrow> substr xmp start (e - start)))
      in case find_str (name @ ''>'') xmp of
           None \<Rightarrow> attr
         | Some p \<Rightarrow> (let start = p + length name + 1
                     in case find_idx_from (\<lambda>c. c = CHR ''<'') xmp start of
                          None \<Rightarrow> attr | Some e \<Rightarrow> substr xmp start (e - start)))"

section \<open>Version markers\<close>

definition xVersionString :: "'d Ctx \<Rightarrow> string" where
  "xVersionString ctx =
     (case level (opt ctx) of
        X1A \<Rightarrow> ''PDF/X-1a:2003'' | X3 \<Rightarrow> ''PDF/X-3:2003'' | X4P \<Rightarrow> ''PDF/X-4p'' | X5G \<Rightarrow> ''PDF/X-5g'' | X5N \<Rightarrow> ''PDF/X-5n''
      | X5PG \<Rightarrow> ''PDF/X-5pg'' | X6N \<Rightarrow> ''PDF/X-6n'' | X6P \<Rightarrow> ''PDF/X-6p''
      | _ \<Rightarrow> if pdf20Print ctx \<or> (dualX ctx \<and> part ctx \<ge> 4) then ''PDF/X-6'' else ''PDF/X-4'')"

definition vtVersionString :: "'d Ctx \<Rightarrow> string" where
  "vtVersionString ctx =
     (if level (opt ctx) = VT2 then ''PDF/VT-2'' else if pdf20Print ctx then ''PDF/VT-3'' else ''PDF/VT-1'')"

definition xVersionAcceptable :: "'d Ctx \<Rightarrow> string \<Rightarrow> bool" where
  "xVersionAcceptable ctx v =
     (case level (opt ctx) of
        X1A \<Rightarrow> v \<in> {''PDF/X-1a:2001'', ''PDF/X-1a:2003''}
      | X3 \<Rightarrow> v \<in> {''PDF/X-3:2002'', ''PDF/X-3:2003''}
      | X4 \<Rightarrow> v \<in> {''PDF/X-4'', ''PDF/X-4:2010''}
      | X4P \<Rightarrow> v \<in> {''PDF/X-4p'', ''PDF/X-4p:2010''}
      | X5G \<Rightarrow> v \<in> {''PDF/X-5g'', ''PDF/X-5g:2010''}
      | X5N \<Rightarrow> v \<in> {''PDF/X-5n'', ''PDF/X-5n:2010''}
      | X5PG \<Rightarrow> v \<in> {''PDF/X-5pg'', ''PDF/X-5pg:2010''}
      | X6 \<Rightarrow> v = ''PDF/X-6''
      | X6N \<Rightarrow> v = ''PDF/X-6n''
      | X6P \<Rightarrow> v = ''PDF/X-6p''
      | VT1 \<Rightarrow> v \<in> {''PDF/X-4'', ''PDF/X-4:2010''}
      | VT2 \<Rightarrow> v \<in> {''PDF/X-4p'', ''PDF/X-4p:2010'', ''PDF/X-5g'', ''PDF/X-5g:2010'', ''PDF/X-5pg'', ''PDF/X-5pg:2010''}
      | VT3 \<Rightarrow> v = ''PDF/X-6''
      | _ \<Rightarrow> True)"

section \<open>The document information\<close>

text \<open>
  What the pass reads from the document: whether \<^verbatim>\<open>/Info\<close> is a dictionary, its keys and the
  text of a key with a string, the name in \<^verbatim>\<open>/Trapped\<close>, the old XMP text, whether the
  catalog has \<^verbatim>\<open>/PieceInfo\<close>, and the date of today.
\<close>

record docinfo =
  di_dict :: bool
  di_null :: bool
  di_keys :: "string list"
  di_text :: "string \<rightharpoonup> string"
  di_trapped :: string
  di_oldXmp :: string
  di_pieceInfo :: bool
  di_now :: string

record InfoData =
  i_title :: string
  i_author :: string
  i_subject :: string
  i_keywords :: string
  i_creator :: string
  i_producer :: string
  i_createIso :: string
  i_modifyIso :: string
  i_trapped :: string

definition kProducer :: string where
  "kProducer = ''BentoPDF Kura Engine'' @ '' '' @ ''1.3.0''"

definition InfoData0 :: InfoData where
  "InfoData0 = \<lparr>i_title = [], i_author = [], i_subject = [], i_keywords = [], i_creator = [], i_producer = kProducer,
     i_createIso = [], i_modifyIso = [], i_trapped = []\<rparr>"

text \<open>What becomes of \<^verbatim>\<open>/Info\<close>, and whether \<^verbatim>\<open>/PieceInfo\<close> is removed.\<close>

datatype info_action = InfoKept | InfoRemoved | InfoSet "(string \<times> string) list"

definition info_text :: "docinfo \<Rightarrow> string \<Rightarrow> string" where
  "info_text i k = (case di_text i k of Some v \<Rightarrow> cleanText v | None \<Rightarrow> [])"

definition info_date :: "docinfo \<Rightarrow> string \<Rightarrow> (string \<times> string) option" where
  "info_date i k = (if info_text i k = [] then None else parseDateFlexible (info_text i k))"

definition date_dropped :: "docinfo \<Rightarrow> string \<Rightarrow> bool" where
  "date_dropped i k \<longleftrightarrow> info_text i k \<noteq> [] \<and> info_date i k = None"

definition entry :: "string \<Rightarrow> string \<Rightarrow> (string \<times> string) list" where
  "entry k v = (if v = [] then [] else [(k, v)])"

definition iso_of :: "(string \<times> string) option \<Rightarrow> string" where
  "iso_of d = (case d of Some (a, b) \<Rightarrow> a | None \<Rightarrow> [])"

definition canon_of :: "(string \<times> string) option \<Rightarrow> string" where
  "canon_of d = (case d of Some (a, b) \<Rightarrow> b | None \<Rightarrow> [])"

definition info_data :: "docinfo \<Rightarrow> InfoData" where
  "info_data i = InfoData0\<lparr>i_title := info_text i ''/Title'', i_author := info_text i ''/Author'', i_subject := info_text i ''/Subject'',
     i_keywords := info_text i ''/Keywords'', i_creator := info_text i ''/Creator'',
     i_createIso := iso_of (info_date i ''/CreationDate''), i_modifyIso := iso_of (info_date i ''/ModDate'')\<rparr>"

definition clean_info :: "docinfo \<Rightarrow> (string \<times> string) list" where
  "clean_info i = entry ''/Title'' (info_text i ''/Title'') @ entry ''/Author'' (info_text i ''/Author'') @
     entry ''/Subject'' (info_text i ''/Subject'') @ entry ''/Keywords'' (info_text i ''/Keywords'') @
     entry ''/Creator'' (info_text i ''/Creator'') @ entry ''/Producer'' kProducer @
     entry ''/CreationDate'' (canon_of (info_date i ''/CreationDate'')) @ entry ''/ModDate'' (canon_of (info_date i ''/ModDate''))"

definition kInfoKeys :: "string set" where
  "kInfoKeys = {''/Title'', ''/Author'', ''/Subject'', ''/Keywords'', ''/Creator'', ''/Producer'', ''/CreationDate'', ''/ModDate''}"

text \<open>The title of the old XMP packet.\<close>

definition xmp_title :: "string \<Rightarrow> string" where
  "xmp_title x =
     (case find_str ''<dc:title'' x of
        None \<Rightarrow> []
      | Some tp \<Rightarrow>
          (case find_from ''</dc:title'' x tp of
             None \<Rightarrow> []
           | Some tend \<Rightarrow>
               (case find_from ''<rdf:li'' x tp of
                  None \<Rightarrow> []
                | Some li \<Rightarrow>
                    if li > tend then []
                    else case find_from ''>'' x li of
                        None \<Rightarrow> []
                      | Some opn \<Rightarrow>
                          if opn > tend then []
                          else case find_from ''<'' x (opn + 1) of
                              None \<Rightarrow> []
                            | Some cls \<Rightarrow> if cls \<le> tend \<and> cls > opn + 1 then substr x (opn + 1) (cls - opn - 1) else [])))"

definition x20 :: "'d Ctx \<Rightarrow> bool" where
  "x20 ctx \<longleftrightarrow> pdf20Print ctx \<or> (dualX ctx \<and> part ctx \<ge> 4)"

text \<open>The dates and the title that PDF 2.0 print levels take over from the old XMP.\<close>

definition from_xmp :: "docinfo \<Rightarrow> InfoData \<Rightarrow> InfoData" where
  "from_xmp i d =
     (let x = di_oldXmp i; c = xmpElementText x ''xmp:CreateDate''; mo = xmpElementText x ''xmp:ModifyDate''
      in d\<lparr>i_createIso := if i_createIso d = [] \<and> isXmpDate c then c else i_createIso d,
           i_modifyIso := if i_modifyIso d = [] \<and> isXmpDate mo then mo else i_modifyIso d,
           i_title := if i_title d = [] then xmp_title x else i_title d\<rparr>)"

definition quoted_text :: "string \<Rightarrow> string" where
  "quoted_text s = CHR 0x22 # s @ [CHR 0x22]"

definition version_issue :: "string \<Rightarrow> string \<Rightarrow> string \<Rightarrow> 'd Ctx \<Rightarrow> 'd Ctx" where
  "version_issue c declared want ctx =
     issue c (if declared = [] then ''recorded the '' @ want @ '' version marker''
              else ''replaced the declared version marker '' @ quoted_text declared @ '' with '' @ want) True ctx"

text \<open>
  The required title and dates of a print level: the data, the entries added to the cleaned
  information, and the context with its issues.
\<close>

definition print_required :: "docinfo \<Rightarrow> InfoData \<times> (string \<times> string) list \<times> 'd Ctx \<Rightarrow> InfoData \<times> (string \<times> string) list \<times> 'd Ctx" where
  "print_required i = (\<lambda>(d, cl, ctx).
     (let now = or_else (pdfDateToIso (di_now i)) [];
          (d, cl, ctx) = (if i_title d = [] then
            (d\<lparr>i_title := ''Untitled document''\<rparr>, cl @ [(''/Title'', ''Untitled document'')],
             issue ''TITLE_SYNTHESIZED'' (''PDF/X requires a document title; set placeholder '' @ quoted_text ''Untitled document'') True ctx)
            else (d, cl, ctx));
          (d, cl, ctx) = (if i_createIso d = [] then
            (d\<lparr>i_createIso := now\<rparr>, cl @ [(''/CreationDate'', di_now i)], issue ''DOCINFO_DATE_SYNTHESIZED'' ''added required /CreationDate'' True ctx)
            else (d, cl, ctx))
      in if i_modifyIso d = [] then
           (d\<lparr>i_modifyIso := now\<rparr>, cl @ [(''/ModDate'', di_now i)], issue ''DOCINFO_DATE_SYNTHESIZED'' ''added required /ModDate'' True ctx)
         else (d, cl, ctx)))"

definition print_versions :: "docinfo \<Rightarrow> 'd Ctx \<Rightarrow> 'd Ctx" where
  "print_versions i ctx =
     (let declared = (if x20 ctx then xmpElementText (di_oldXmp i) ''GTS_PDFXVersion'' else info_text i ''/GTS_PDFXVersion'');
          declaredVt = (if x20 ctx then xmpElementText (di_oldXmp i) ''GTS_PDFVTVersion'' else info_text i ''/GTS_PDFVTVersion'');
          ctx = (if \<not> xVersionAcceptable ctx declared then version_issue ''X_VERSION_SET'' declared (xVersionString ctx) ctx else ctx)
      in if isVT ctx \<and> declaredVt \<noteq> vtVersionString ctx then version_issue ''VT_VERSION_SET'' declaredVt (vtVersionString ctx) ctx else ctx)"

text \<open>PDF 2.0 print levels keep their information in XMP.\<close>

definition reduced_info :: "docinfo \<Rightarrow> InfoData \<Rightarrow> string \<Rightarrow> 'd Ctx \<Rightarrow> info_action \<times> 'd Ctx" where
  "reduced_info i d canonModify ctx =
     (let hadInfo = di_dict i \<and> di_keys i \<noteq> []
      in if di_pieceInfo i \<and> i_modifyIso d \<noteq> [] \<and> canonModify \<noteq> [] then
           (InfoSet [(''/ModDate'', canonModify)],
            if hadInfo \<and> length (di_keys i) > 1
            then issue ''DOCINFO_REDUCED'' ''kept only /ModDate in document info (required alongside /PieceInfo)'' True ctx else ctx)
         else if hadInfo then
           (InfoRemoved,
            issue ''DOCINFO_REMOVED'' ''removed the document information dictionary (PDF 2.0 print standards keep document metadata in XMP only)'' True ctx)
         else (if \<not> di_dict i \<and> \<not> di_null i then InfoRemoved else InfoKept, ctx))"

definition trapped_name :: "docinfo \<Rightarrow> string option" where
  "trapped_name i =
     (let fromXmp = xmpElementText (di_oldXmp i) ''pdf:Trapped''
      in if di_trapped i \<in> {''/True'', ''/False''} then Some (di_trapped i)
         else if fromXmp \<in> {''True'', ''False''} then Some (CHR ''/'' # fromXmp) else None)"

definition print_info :: "docinfo \<Rightarrow> 'd Ctx \<Rightarrow> InfoData \<times> info_action \<times> 'd Ctx" where
  "print_info i ctx =
     (let d0 = (if x20 ctx then from_xmp i (info_data i) else info_data i);
          (d, cl, ctx) = print_required i (d0, clean_info i, ctx);
          ctx = print_versions i ctx
      in if x20 ctx then (let (act, ctx) = reduced_info i d (canon_of (info_date i ''/ModDate'')) ctx in (d, act, ctx))
         else let trapped = or_else (trapped_name i) ''/False'';
                  ctx = (if trapped_name i = None then issue ''TRAPPED_SET'' ''PDF/X requires /Trapped to state True or False; set False'' True ctx else ctx)
              in (d\<lparr>i_trapped := if trapped = ''/True'' then ''True'' else ''False''\<rparr>,
                  InfoSet (cl @ [(''/GTS_PDFXVersion'', xVersionString ctx)] @
                    (if isVT ctx then [(''/GTS_PDFVTVersion'', vtVersionString ctx)] else []) @ [(''/Trapped'', trapped)]), ctx))"

definition part4_info :: "docinfo \<Rightarrow> 'd Ctx \<Rightarrow> InfoData \<times> info_action \<times> bool \<times> 'd Ctx" where
  "part4_info i ctx =
     (let d = info_data i; canonModify = canon_of (info_date i ''/ModDate'');
          infoBad = (\<not> verifyOnly (opt ctx) \<or> list_ex (\<lambda>k. k \<noteq> ''/ModDate'') (di_keys i))
      in if di_pieceInfo i \<and> i_modifyIso d \<noteq> [] \<and> canonModify \<noteq> [] then
           (d, InfoSet [(''/ModDate'', canonModify)], False,
            issue ''DOCINFO_REDUCED'' ''kept only /ModDate in document info (required alongside /PieceInfo)'' infoBad ctx)
         else let ctx = (if di_pieceInfo i then issue ''PIECEINFO_REMOVED'' ''removed catalog /PieceInfo (no valid /ModDate to pair with it)'' True ctx else ctx)
              in (d, InfoRemoved, di_pieceInfo i,
                  if clean_info i \<noteq> [] \<or> verifyOnly (opt ctx)
                  then issue ''DOCINFO_MIGRATED'' ''migrated document info dictionary into XMP (deprecated in PDF 2.0)'' True ctx else ctx))"

text \<open>The answer is the data for XMP, what becomes of \<^verbatim>\<open>/Info\<close>, and whether \<^verbatim>\<open>/PieceInfo\<close> is removed.\<close>

definition collectInfo :: "docinfo \<Rightarrow> 'd Ctx \<Rightarrow> InfoData \<times> info_action \<times> bool \<times> 'd Ctx" where
  "collectInfo i0 ctx =
     (let printLevel = (isX ctx \<or> dualX ctx);
          i = (if di_dict i0 then i0 else i0\<lparr>di_keys := [], di_text := Map.empty, di_trapped := []\<rparr>)
      in if \<not> di_dict i0 \<and> \<not> printLevel then (InfoData0, if di_null i0 then InfoKept else InfoRemoved, False, ctx)
         else let ctx = (if date_dropped i ''/CreationDate'' \<or> date_dropped i ''/ModDate''
                         then issue ''DOCINFO_DATE_DROPPED'' ''dropped unparseable date from document info'' True ctx else ctx)
              in if printLevel then (let (d, act, ctx) = print_info i ctx in (d, act, False, ctx))
                 else if isA ctx \<and> part ctx \<ge> 4 then part4_info i ctx
                 else let ctx = (if list_ex (\<lambda>k. k \<notin> kInfoKeys) (di_keys i)
                                 then issue ''DOCINFO_CUSTOM_REMOVED'' ''removed nonstandard document info entries'' (\<not> verifyOnly (opt ctx)) ctx else ctx)
                      in (info_data i, InfoSet (clean_info i), False, ctx))"

end
