(* ===== verification/Packet.thy ===== *)
theory Packet
  imports Metadata
begin

text \<open>
  The metadata pass itself (\<open>passMetadata\<close> of \<^verbatim>\<open>xmp.cpp\<close>): the check of the metadata a
  file came with, and the XMP packet the pass writes. The packet is the text of a tree, so the
  reader of \<open>Xml\<close> gives that tree back, and the theorems compare what was written with what
  the checks of \<open>Xmp\<close> ask for.
\<close>

section \<open>Lines of the packet\<close>

definition nl :: string where
  "nl = [CHR 0x0A]"

definition sp :: "nat \<Rightarrow> string" where
  "sp n = replicate n CHR '' ''"

text \<open>A declaration of a prefix, and a line with one element.\<close>

definition ns_decl :: "string \<times> string \<Rightarrow> string" where
  "ns_decl = (\<lambda>(p, u). sp 8 @ ''xmlns:'' @ p @ ''='' @ quoted_text u)"

definition xml_line :: "nat \<Rightarrow> string \<Rightarrow> string \<Rightarrow> string" where
  "xml_line n tag body = sp n @ ''<'' @ tag @ ''>'' @ body @ ''</'' @ tag @ ''>'' @ nl"

definition appendSimple :: "string \<Rightarrow> string \<Rightarrow> string" where
  "appendSimple tag v = (if v = [] then [] else xml_line 6 tag (xmlEscape v))"

definition appendAlt :: "string \<Rightarrow> string \<Rightarrow> string \<Rightarrow> string" where
  "appendAlt tag v lang =
     (if v = [] then []
      else xml_line 6 tag (''<rdf:Alt><rdf:li xml:lang='' @ quoted_text (xmlEscape lang) @ ''>'' @ xmlEscape v @ ''</rdf:li></rdf:Alt>''))"

definition appendSeq :: "string \<Rightarrow> string \<Rightarrow> string" where
  "appendSeq tag v =
     (if v = [] then [] else xml_line 6 tag (''<rdf:Seq><rdf:li>'' @ xmlEscape v @ ''</rdf:li></rdf:Seq>''))"

section \<open>The description of the document\<close>

definition onlyIf :: "bool \<Rightarrow> 'a list \<Rightarrow> 'a list" where
  "onlyIf b xs = (if b then xs else [])"

definition isPrint :: "'d Ctx \<Rightarrow> bool" where
  "isPrint ctx \<longleftrightarrow> isX ctx \<or> dualX ctx"

definition withXml :: "'d Ctx \<Rightarrow> bool" where
  "withXml ctx \<longleftrightarrow> attachXml (opt ctx) \<noteq> []"

definition packet_decls :: "'d Ctx \<Rightarrow> (string \<times> string) list" where
  "packet_decls ctx =
     onlyIf (isA ctx) [(''pdfaid'', ''http://www.aiim.org/pdfa/ns/id/'')] @
     onlyIf (ua (opt ctx)) [(''pdfuaid'', ''http://www.aiim.org/pdfua/ns/id/'')] @
     onlyIf (isPrint ctx) [(''pdfxid'', ''http://www.npes.org/pdfx/ns/id/'')] @
     onlyIf (isVT ctx) [(''pdfvtid'', ''http://www.npes.org/pdfvt/ns/id/'')] @
     onlyIf (isE ctx) [(''pdfe'', ''http://www.aiim.org/pdfe/ns/id/'')] @
     onlyIf (withXml ctx) [(iv_prefix (invc ctx), iv_nsUri (invc ctx))] @
     [(''dc'', ''http://purl.org/dc/elements/1.1/''), (''xmp'', ''http://ns.adobe.com/xap/1.0/'')] @
     onlyIf (isPrint ctx) [(''xmpMM'', ''http://ns.adobe.com/xap/1.0/mm/'')]"

definition open_description :: "'d Ctx \<Rightarrow> string" where
  "open_description ctx =
     sp 4 @ ''<rdf:Description rdf:about='' @ quoted_text [] @ nl @ concat (map (\<lambda>d. ns_decl d @ nl) (packet_decls ctx)) @
     ns_decl (''pdf'', ''http://ns.adobe.com/pdf/1.3/'') @ ''>'' @ nl"

text \<open>The elements with a plain value that identify the levels, in their order.\<close>

definition pdfa_lines :: "'d Ctx \<Rightarrow> (string \<times> string) list" where
  "pdfa_lines ctx =
     onlyIf (isA ctx) ((''pdfaid:part'', int_str (part ctx)) #
       (if part ctx \<ge> 4 then (''pdfaid:rev'', ''2020'') #
          onlyIf (conf ctx = CHR ''F'' \<or> conf ctx = CHR ''E'') [(''pdfaid:conformance'', [conf ctx])]
        else [(''pdfaid:conformance'', [conf ctx])]))"

definition pdfua_lines :: "'d Ctx \<Rightarrow> (string \<times> string) list" where
  "pdfua_lines ctx =
     onlyIf (ua (opt ctx)) (if ua2 ctx then [(''pdfuaid:part'', ''2''), (''pdfuaid:rev'', ''2024'')] else [(''pdfuaid:part'', ''1'')])"

definition pdfx_lines :: "'d Ctx \<Rightarrow> InfoData \<Rightarrow> (string \<times> string) list" where
  "pdfx_lines ctx d =
     onlyIf (isPrint ctx)
       [(''pdfxid:GTS_PDFXVersion'', xVersionString ctx), (''pdf:Trapped'', if i_trapped d = [] then ''False'' else i_trapped d)]"

definition pdfvt_lines :: "'d Ctx \<Rightarrow> InfoData \<Rightarrow> (string \<times> string) list" where
  "pdfvt_lines ctx d =
     onlyIf (isVT ctx)
       ([(''pdfvtid:GTS_PDFVTVersion'', vtVersionString ctx), (''pdfvtid:GTS_PDFVTModDate'', xmlEscape (i_modifyIso d))] @
        onlyIf (pdf20Print ctx) [(''pdfvtid:GTS_PDFVTRev'', ''2020''), (''pdfvtid:rev'', ''2020'')])"

definition pdfe_lines :: "'d Ctx \<Rightarrow> (string \<times> string) list" where
  "pdfe_lines ctx = onlyIf (isE ctx) [(''pdfe:ISO_PDFEVersion'', ''PDF/E-1'')]"

definition invoice_lines :: "'d Ctx \<Rightarrow> (string \<times> string) list" where
  "invoice_lines ctx =
     (let px = iv_prefix (invc ctx)
      in onlyIf (withXml ctx)
           [(px @ '':DocumentType'', xmlEscape (iv_documentType (invc ctx))), (px @ '':DocumentFileName'', xmlEscape (iv_filename (invc ctx))),
            (px @ '':Version'', xmlEscape (iv_version (invc ctx))), (px @ '':ConformanceLevel'', xmlEscape (iv_profile (invc ctx)))])"

definition id_lines :: "'d Ctx \<Rightarrow> InfoData \<Rightarrow> (string \<times> string) list" where
  "id_lines ctx d = pdfa_lines ctx @ pdfua_lines ctx @ pdfx_lines ctx d @ pdfvt_lines ctx d @ pdfe_lines ctx @ invoice_lines ctx @
     [(''dc:format'', ''application/pdf'')]"

text \<open>The title of an accessible file is never missing and carries the language of the file.\<close>

definition packet_title :: "'d Ctx \<Rightarrow> InfoData \<Rightarrow> string" where
  "packet_title ctx d = (if ua (opt ctx) \<and> i_title d = [] then ''Untitled document'' else i_title d)"

definition title_lang :: "'d Ctx \<Rightarrow> string" where
  "title_lang ctx = (if ua (opt ctx) then docLang ctx else ''x-default'')"

definition lower_hex :: "nat \<Rightarrow> char" where
  "lower_hex k = (if k < 10 then char_of (48 + k) else char_of (87 + k))"

definition hex8 :: "32 word \<Rightarrow> string" where
  "hex8 w = map (\<lambda>i. lower_hex (unat (drop_bit (28 - 4 * i) w AND 15))) [0..<8]"

definition document_id :: "'d Ctx \<Rightarrow> InfoData \<Rightarrow> string" where
  "document_id ctx d =
     (let hash = fnv1a32 (i_createIso d @ i_modifyIso d @ levelToString (level (opt ctx)))
      in ''uuid:'' @ hex8 hash @ ''-0000-4000-8000-'' @ hex8 (hash XOR 0x9e3779b9) @ ''0000'')"

definition print_lines :: "'d Ctx \<Rightarrow> InfoData \<Rightarrow> (string \<times> string) list" where
  "print_lines ctx d =
     onlyIf (isPrint ctx)
       [(''xmp:MetadataDate'', i_modifyIso d), (''xmpMM:DocumentID'', document_id ctx d), (''xmpMM:InstanceID'', document_id ctx d),
        (''xmpMM:VersionID'', ''1''), (''xmpMM:RenditionClass'', ''default'')]"

definition simple_lines :: "'d Ctx \<Rightarrow> InfoData \<Rightarrow> (string \<times> string) list" where
  "simple_lines ctx d =
     [(''pdf:Keywords'', i_keywords d), (''xmp:CreatorTool'', i_creator d), (''pdf:Producer'', i_producer d),
      (''xmp:CreateDate'', i_createIso d), (''xmp:ModifyDate'', i_modifyIso d)] @ print_lines ctx d"

definition description_lines :: "'d Ctx \<Rightarrow> InfoData \<Rightarrow> string" where
  "description_lines ctx d =
     concat (map (\<lambda>(tag, body). xml_line 6 tag body) (id_lines ctx d)) @
     appendAlt ''dc:title'' (packet_title ctx d) (title_lang ctx) @ appendSeq ''dc:creator'' (i_author d) @
     appendAlt ''dc:description'' (i_subject d) ''x-default'' @
     concat (map (\<lambda>(tag, v). appendSimple tag v) (simple_lines ctx d))"

section \<open>The extension schemas\<close>

text \<open>A described property: its name, value type, category and description.\<close>

type_synonym xprop_def = "string \<times> string \<times> string \<times> string"

definition property_li :: "xprop_def \<Rightarrow> string" where
  "property_li = (\<lambda>(nm, ty, cat, descr).
     sp 16 @ ''<rdf:li rdf:parseType='' @ quoted_text ''Resource'' @ ''>'' @ nl @
     xml_line 18 ''pdfaProperty:name'' nm @ xml_line 18 ''pdfaProperty:valueType'' ty @ xml_line 18 ''pdfaProperty:category'' cat @
     xml_line 18 ''pdfaProperty:description'' descr @ sp 16 @ ''</rdf:li>'' @ nl)"

definition schema_li :: "string \<times> string \<times> string \<times> xprop_def list \<Rightarrow> string" where
  "schema_li = (\<lambda>(nm, uri, prefix, props).
     sp 10 @ ''<rdf:li rdf:parseType='' @ quoted_text ''Resource'' @ ''>'' @ nl @
     xml_line 12 ''pdfaSchema:schema'' nm @ xml_line 12 ''pdfaSchema:namespaceURI'' uri @ xml_line 12 ''pdfaSchema:prefix'' prefix @
     sp 12 @ ''<pdfaSchema:property>'' @ nl @ sp 14 @ ''<rdf:Seq>'' @ nl @ concat (map property_li props) @
     sp 14 @ ''</rdf:Seq>'' @ nl @ sp 12 @ ''</pdfaSchema:property>'' @ nl @ sp 10 @ ''</rdf:li>'' @ nl)"

definition ua_schema :: "string \<times> string \<times> string \<times> xprop_def list" where
  "ua_schema = (''PDF/UA identification schema'', ''http://www.aiim.org/pdfua/ns/id/'', ''pdfuaid'',
     [(''part'', ''Integer'', ''internal'', ''Indicates, which part of ISO 14289 standard is followed'')])"

definition x_schema :: "string \<times> string \<times> string \<times> xprop_def list" where
  "x_schema = (''PDF/X ID Schema'', ''http://www.npes.org/pdfx/ns/id/'', ''pdfxid'',
     [(''GTS_PDFXVersion'', ''Text'', ''internal'', ''ID of PDF/X standard'')])"

definition trapped_schema :: "string \<times> string \<times> string \<times> xprop_def list" where
  "trapped_schema = (''Adobe PDF Schema'', ''http://ns.adobe.com/pdf/1.3/'', ''pdf'',
     [(''Trapped'', ''Text'', ''external'', ''Indication if the document has been modified to include trapping information'')])"

definition fx_schema :: "InvoiceProfile \<Rightarrow> string \<times> string \<times> string \<times> xprop_def list" where
  "fx_schema v = (iv_schemaName v, iv_nsUri v, iv_prefix v,
     [(''DocumentFileName'', ''Text'', ''external'', ''name of the embedded XML document file''),
      (''DocumentType'', ''Text'', ''external'', iv_documentType v),
      (''Version'', ''Text'', ''external'', ''The actual version of the '' @ iv_standard v @ '' data''),
      (''ConformanceLevel'', ''Text'', ''external'', ''The conformance level of the embedded '' @ iv_standard v @ '' data'')])"

definition packet_schemas :: "'d Ctx \<Rightarrow> (string \<times> string \<times> string \<times> xprop_def list) list" where
  "packet_schemas ctx =
     onlyIf (ua (opt ctx) \<and> part ctx \<le> 3) [ua_schema] @
     onlyIf (dualX ctx \<and> part ctx \<le> 3) [x_schema, trapped_schema] @
     onlyIf (withXml ctx \<and> isA ctx \<and> part ctx \<le> 3) [fx_schema (invc ctx)]"

definition extension_decls :: "(string \<times> string) list" where
  "extension_decls = [(''pdfaExtension'', ''http://www.aiim.org/pdfa/ns/extension/''), (''pdfaSchema'', ''http://www.aiim.org/pdfa/ns/schema#'')]"

definition schemas_description :: "'d Ctx \<Rightarrow> string" where
  "schemas_description ctx =
     (if packet_schemas ctx = [] then []
      else sp 4 @ ''<rdf:Description rdf:about='' @ quoted_text [] @ nl @ concat (map (\<lambda>d. ns_decl d @ nl) extension_decls) @
        ns_decl (''pdfaProperty'', ''http://www.aiim.org/pdfa/ns/property#'') @ ''>'' @ nl @
        sp 6 @ ''<pdfaExtension:schemas>'' @ nl @ sp 8 @ ''<rdf:Bag>'' @ nl @ concat (map schema_li (packet_schemas ctx)) @
        sp 8 @ ''</rdf:Bag>'' @ nl @ sp 6 @ ''</pdfaExtension:schemas>'' @ nl @ sp 4 @ ''</rdf:Description>'' @ nl)"

section \<open>The packet\<close>

definition packet_head :: string where
  "packet_head = ''<?xpacket begin='' @ quoted_text bom @ '' id='' @ quoted_text ''W5M0MpCehiHzreSzNTczkc9d'' @ ''?>''"

definition packet_tail :: string where
  "packet_tail = concat (replicate 20 (sp 99 @ nl)) @ ''<?xpacket end='' @ quoted_text ''w'' @ ''?>''"

definition metadata_packet :: "'d Ctx \<Rightarrow> InfoData \<Rightarrow> string" where
  "metadata_packet ctx d =
     packet_head @ nl @
     ''<x:xmpmeta xmlns:x='' @ quoted_text ''adobe:ns:meta/'' @ ''>'' @ nl @
     sp 2 @ ''<rdf:RDF xmlns:rdf='' @ quoted_text ''http://www.w3.org/1999/02/22-rdf-syntax-ns#'' @ ''>'' @ nl @
     open_description ctx @ description_lines ctx d @ sp 4 @ ''</rdf:Description>'' @ nl @
     schemas_description ctx @
     sp 2 @ ''</rdf:RDF>'' @ nl @ ''</x:xmpmeta>'' @ nl @ packet_tail"

section \<open>The pass\<close>

text \<open>
  What the pass reads of a document: the information, the metadata of the catalog (\<open>None\<close> without
  a stream, \<open>Some None\<close> for one that cannot be decoded) and that of the other objects the walk
  over the object graph meets, without those of reference forms where these are allowed.
\<close>

record metadata_doc =
  md_info :: docinfo
  md_root :: "string option option"
  md_objects :: "string option list"

definition kInfoNames :: "string list" where
  "kInfoNames = [''Author'', ''CreationDate'', ''Creator'', ''Keywords'', ''ModDate'', ''Producer'', ''Subject'', ''Title'']"

text \<open>The entries as the check reads them, in the order of their keys; an entry that is no string is a zero byte.\<close>

definition info_entries :: "docinfo \<Rightarrow> (string \<times> string) list" where
  "info_entries i =
     concat (map (\<lambda>k. case di_text i (CHR ''/'' # k) of
                        Some v \<Rightarrow> [(k, v)]
                      | None \<Rightarrow> onlyIf (CHR ''/'' # k \<in> set (di_keys i)) [(k, [CHR 0x00])]) kInfoNames)"

definition checkXmp :: "'d Ctx \<Rightarrow> bool" where
  "checkXmp ctx \<longleftrightarrow> verifyOnly (opt ctx) \<and> isA ctx"

definition mainXmp :: "metadata_doc \<Rightarrow> string" where
  "mainXmp md = (case md_root md of Some (Some x) \<Rightarrow> x | _ \<Rightarrow> [])"

definition xmp_why :: "metadata_doc \<Rightarrow> 'd Ctx \<Rightarrow> string" where
  "xmp_why md ctx =
     (let why = (case md_root md of
                   None \<Rightarrow> ''document has no XMP metadata stream''
                 | Some None \<Rightarrow> ''XMP metadata stream cannot be decoded''
                 | Some (Some x) \<Rightarrow> pdfaXmpProblem x (part ctx) (conf ctx) None)
      in if why = [] \<and> part ctx = 1 \<and> di_dict (md_info md) then xmpInfoMismatch (mainXmp md) (info_entries (md_info md)) else why)"

text \<open>A conversion removes every such stream; a check counts the ones it finds fault with.\<close>

definition counts_as_stripped :: "metadata_doc \<Rightarrow> 'd Ctx \<Rightarrow> string option \<Rightarrow> bool" where
  "counts_as_stripped md ctx packet \<longleftrightarrow>
     \<not> checkXmp ctx \<or> (case packet of None \<Rightarrow> True | Some x \<Rightarrow> pdfaXmpProblem x (part ctx) (conf ctx) (Some (mainXmp md)) \<noteq> [])"

definition stripped :: "metadata_doc \<Rightarrow> 'd Ctx \<Rightarrow> nat" where
  "stripped md ctx = length (filter (counts_as_stripped md ctx) (md_objects md))"

text \<open>What the pass does to the document: the packet, and the answer of \<open>collectInfo\<close>.\<close>

record metadata_out =
  mo_packet :: string
  mo_info :: InfoData
  mo_action :: info_action
  mo_pieceRemoved :: bool

definition check_metadata :: "metadata_doc \<Rightarrow> 'd Ctx \<Rightarrow> 'd Ctx" where
  "check_metadata md ctx =
     (let ctx1 = (if checkXmp ctx \<and> xmp_why md ctx \<noteq> [] then issue ''XMP_NONCONFORMING'' (xmp_why md ctx) True ctx else ctx)
      in if stripped md ctx \<noteq> 0
         then issue ''OBJECT_METADATA_REMOVED''
                (''removed '' @ nat_str (stripped md ctx) @ '' object-level XMP metadata stream reference(s) with nonconforming schemas'') True ctx1
         else ctx1)"

definition ua_title_detail :: string where
  "ua_title_detail = ''document has no title; set placeholder dc:title '' @ quoted_text ''Untitled document'' @
     '' (PDF/UA requires a title '' @ [CHR 0xE2, CHR 0x80, CHR 0x94] @ '' supply a real one for meaningful accessibility)''"

definition passMetadata :: "metadata_doc \<Rightarrow> 'd Ctx \<Rightarrow> metadata_out \<times> 'd Ctx" where
  "passMetadata md ctx0 =
     (let (d, act, pieceRemoved, ctx) = collectInfo (md_info md) (check_metadata md ctx0);
          ctx1 = (if ua (opt ctx) \<and> i_title d = [] then issue ''TITLE_SYNTHESIZED'' ua_title_detail True ctx else ctx)
      in (\<lparr>mo_packet = metadata_packet ctx d, mo_info = d, mo_action = act, mo_pieceRemoved = pieceRemoved\<rparr>,
          issue ''XMP_REBUILT'' ''regenerated XMP metadata with PDF/A identification'' True ctx1))"

end
