(* ===== verification/Packet_Read.thy ===== *)
theory Packet_Read
  imports Packet
begin

text \<open>
  The packet of \<open>Packet\<close> read back. Its text is that of a tree of tags; every tag resolves in
  the prefixes around it, so the reader of \<open>Xml\<close> gives the nodes and \<open>parsePacket\<close> of \<open>Xmp\<close> the
  properties that were meant (\<open>all_props\<close>).
\<close>

section \<open>Texts\<close>

lemma decode_escape_char: "decode (escape_char c) = Some (filter kept_char [c])"
proof -
  have e: "decode ''&amp;'' = Some ''&''" "decode ''&lt;'' = Some ''<''" "decode ''&gt;'' = Some ''>''" "decode ''&quot;'' = Some [CHR 0x22]"
    by code_simp+
  have k: "kept_char CHR ''&''" "kept_char CHR ''<''" "kept_char CHR ''>''" "kept_char CHR 0x22" by (simp_all add: kept_char_def)
  show ?thesis
    by (cases "c = CHR ''&''"; cases "c = CHR ''<''"; cases "c = CHR ''>''"; cases "c = CHR 0x22"; cases "kept_char c")
      (simp_all add: escape_char_def e k del: decode.simps, simp_all)
qed

lemma decode_xmlEscape: "decode (xmlEscape s) = Some (cleanText s)"
proof (induction s)
  case (Cons c s)
  then show ?case
    using decode_append[OF decode_escape_char, of c "xmlEscape s"] by (simp add: xmlEscape_def cleanText_def)
qed (simp add: xmlEscape_def cleanText_def)

lemma xmlEscape_no_quote: "CHR 0x22 \<notin> set (xmlEscape s)"
  by (auto simp: xmlEscape_def escape_char_def split: if_splits)

definition plain :: "string \<Rightarrow> bool" where
  "plain s \<longleftrightarrow> list_all (\<lambda>c. c \<noteq> CHR ''<'' \<and> c \<noteq> CHR ''&'') s"

lemma decode_plain: "plain s \<Longrightarrow> decode s = Some s"
  by (induction s) (auto simp: plain_def)

section \<open>Prefixes\<close>

definition decl_attrs :: "(string \<times> string) list \<Rightarrow> (string \<times> string) list" where
  "decl_attrs ds = map (\<lambda>(p, u). (''xmlns:'' @ p, u)) ds"

lemma scope_fold:
  fixes m :: "(string \<times> string) list"
  defines "f \<equiv> \<lambda>m (an, v). if an = ''xmlns'' then map_put [] v m else if starts_with an ''xmlns:'' then map_put (drop 6 an) v m else m"
  shows "map_of (foldl f m (decl_attrs ds)) = map_of m ++ map_of (rev ds)" "set (foldl f m (decl_attrs ds)) \<subseteq> set ds \<union> set m"
proof (induction ds arbitrary: m)
  case (Cons d ds)
  obtain p u where d: "d = (p, u)" by fastforce
  have f: "f m (''xmlns:'' @ p, u) = map_put p u m" for m by (simp add: f_def starts_with_def)
  { case 1 show ?case using Cons(1)[of "map_put p u m"] f by (auto simp: decl_attrs_def d map_of_map_put map_add_def fun_eq_iff split: option.splits) }
  { case 2 show ?case using Cons(2)[of "map_put p u m"] f set_map_put[of p u m] by (auto simp: decl_attrs_def d) }
qed (simp_all add: decl_attrs_def)

lemma scope_of_decls: "map_of (scope_of (decl_attrs ds)) = map_of (rev ds)" "set (scope_of (decl_attrs ds)) \<subseteq> set ds"
  unfolding scope_of_def using scope_fold[where m = "[]" and ds = ds] by simp_all

lemma scope_of_about: "scope_of ((''rdf:about'', v) # raw) = scope_of raw"
  by (simp add: scope_of_def starts_with_def)

lemma resolve_attrs_decls: "resolve_attrs scs (decl_attrs ds) = Some []"
  by (induction ds) (auto simp: decl_attrs_def is_decl_def starts_with_def)

section \<open>The tree of a packet\<close>

definition lined :: "nat \<Rightarrow> item list \<Rightarrow> item list" where
  "lined n ts = concat (map (\<lambda>t. [Txt (sp n), t, Txt nl]) ts)"

definition leaf :: "string \<times> string \<Rightarrow> item" where
  "leaf = (\<lambda>(tag, body). Tag tag [] [Txt body])"

definition alt_item :: "string \<Rightarrow> string \<Rightarrow> string \<Rightarrow> item list" where
  "alt_item tag v lang =
     onlyIf (v \<noteq> []) [Tag tag [] [Tag ''rdf:Alt'' [] [Tag ''rdf:li'' [('' '', ''xml:lang'', xmlEscape lang, [])] [Txt (xmlEscape v)]]]]"

definition seq_item :: "string \<Rightarrow> string \<Rightarrow> item list" where
  "seq_item tag v = onlyIf (v \<noteq> []) [Tag tag [] [Tag ''rdf:Seq'' [] [leaf (''rdf:li'', xmlEscape v)]]]"

definition simple_item :: "string \<times> string \<Rightarrow> item list" where
  "simple_item = (\<lambda>(tag, v). onlyIf (v \<noteq> []) [leaf (tag, xmlEscape v)])"

definition description_items :: "'d Ctx \<Rightarrow> InfoData \<Rightarrow> item list" where
  "description_items ctx d =
     map leaf (id_lines ctx d) @ alt_item ''dc:title'' (packet_title ctx d) (title_lang ctx) @ seq_item ''dc:creator'' (i_author d) @
     alt_item ''dc:description'' (i_subject d) ''x-default'' @ concat (map simple_item (simple_lines ctx d))"

definition decl_wattrs :: "(string \<times> string) list \<Rightarrow> string \<times> string \<Rightarrow> wattr list" where
  "decl_wattrs ds l = ('' '', ''rdf:about'', [], nl) # map (\<lambda>(p, u). (sp 8, ''xmlns:'' @ p, u, nl)) ds @
     [(sp 8, ''xmlns:'' @ fst l, snd l, [])]"

definition resource :: "wattr list" where
  "resource = [('' '', ''rdf:parseType'', ''Resource'', [])]"

definition property_item :: "xprop_def \<Rightarrow> item" where
  "property_item = (\<lambda>(nm, ty, cat, descr).
     Tag ''rdf:li'' resource (Txt nl # lined 18 (map leaf [(''pdfaProperty:name'', nm), (''pdfaProperty:valueType'', ty),
       (''pdfaProperty:category'', cat), (''pdfaProperty:description'', descr)]) @ [Txt (sp 16)]))"

definition schema_item :: "string \<times> string \<times> string \<times> xprop_def list \<Rightarrow> item" where
  "schema_item = (\<lambda>(nm, uri, prefix, props).
     Tag ''rdf:li'' resource (Txt nl # lined 12 (map leaf [(''pdfaSchema:schema'', nm), (''pdfaSchema:namespaceURI'', uri),
       (''pdfaSchema:prefix'', prefix)] @
       [Tag ''pdfaSchema:property'' [] (Txt nl # lined 14 [Tag ''rdf:Seq'' [] (Txt nl # lined 16 (map property_item props) @ [Txt (sp 14)])] @
          [Txt (sp 12)])]) @ [Txt (sp 10)]))"

definition schemas_item :: "'d Ctx \<Rightarrow> item" where
  "schemas_item ctx =
     Tag ''pdfaExtension:schemas'' [] (Txt nl # lined 8 [Tag ''rdf:Bag'' [] (Txt nl # lined 10 (map schema_item (packet_schemas ctx)) @ [Txt (sp 8)])] @
       [Txt (sp 6)])"

definition description_item :: "(string \<times> string) list \<Rightarrow> string \<times> string \<Rightarrow> item list \<Rightarrow> item" where
  "description_item ds l ts = Tag ''rdf:Description'' (decl_wattrs ds l) (Txt nl # lined 6 ts @ [Txt (sp 4)])"

definition pdf_decl :: "string \<times> string" where
  "pdf_decl = (''pdf'', ''http://ns.adobe.com/pdf/1.3/'')"

definition property_decl :: "string \<times> string" where
  "property_decl = (''pdfaProperty'', ''http://www.aiim.org/pdfa/ns/property#'')"

definition rdf_items :: "'d Ctx \<Rightarrow> InfoData \<Rightarrow> item list" where
  "rdf_items ctx d =
     description_item (packet_decls ctx) pdf_decl (description_items ctx d) #
     onlyIf (packet_schemas ctx \<noteq> []) [description_item extension_decls property_decl [schemas_item ctx]]"

definition rdf_item :: "'d Ctx \<Rightarrow> InfoData \<Rightarrow> item" where
  "rdf_item ctx d = Tag ''rdf:RDF'' [('' '', ''xmlns:rdf'', ''http://www.w3.org/1999/02/22-rdf-syntax-ns#'', [])] (Txt nl # lined 4 (rdf_items ctx d) @ [Txt (sp 2)])"

definition root_item :: "'d Ctx \<Rightarrow> InfoData \<Rightarrow> item" where
  "root_item ctx d = Tag ''x:xmpmeta'' [('' '', ''xmlns:x'', ''adobe:ns:meta/'', [])] (Txt nl # lined 2 [rdf_item ctx d])"

lemma renders_lined: "renders (lined n ts) = concat (map (\<lambda>t. sp n @ render t @ nl) ts)"
  by (induction ts) (simp_all add: lined_def)

lemma render_leaf: "render (leaf (tag, body)) = ''<'' @ tag @ ''>'' @ body @ ''</'' @ tag @ ''>''"
  by (simp add: leaf_def)

lemma line_leaf: "sp n @ render (leaf (tag, body)) @ nl @ r = xml_line n tag body @ r"
  by (simp add: leaf_def xml_line_def)

lemma render_description_items: "renders (lined 6 (description_items ctx d)) = description_lines ctx d"
proof -
  have "concat (map (\<lambda>t. sp 6 @ render t @ nl) (map leaf ls)) = concat (map (\<lambda>(tag, body). xml_line 6 tag body) ls)" for ls
    by (induction ls) (auto simp: leaf_def xml_line_def)
  moreover have "concat (map (\<lambda>t. sp 6 @ render t @ nl) (concat (map simple_item ls))) = concat (map (\<lambda>(tag, v). appendSimple tag v) ls)" for ls
    by (induction ls) (auto simp: leaf_def xml_line_def simple_item_def onlyIf_def appendSimple_def)
  moreover have "concat (map (\<lambda>t. sp 6 @ render t @ nl) (alt_item tag v lang)) = appendAlt tag v lang" for tag v lang
    by (simp add: alt_item_def onlyIf_def appendAlt_def xml_line_def render_attr_def quoted_text_def)
  moreover have "concat (map (\<lambda>t. sp 6 @ render t @ nl) (seq_item tag v)) = appendSeq tag v" for tag v
    by (simp add: seq_item_def onlyIf_def appendSeq_def xml_line_def leaf_def)
  ultimately show ?thesis unfolding renders_lined description_items_def description_lines_def by simp
qed

lemma render_property_item: "sp 16 @ render (property_item p) @ nl = property_li p"
  by (cases p) (simp add: property_item_def property_li_def resource_def render_attr_def quoted_text_def renders_lined leaf_def xml_line_def)

lemma render_property_items: "concat (map (\<lambda>p. sp 16 @ render (property_item p) @ nl) ps) = concat (map property_li ps)"
  by (simp add: render_property_item)

lemma render_schema_item: "sp 10 @ render (schema_item s) @ nl = schema_li s"
  by (cases s) (simp add: schema_item_def schema_li_def resource_def render_attr_def quoted_text_def renders_lined leaf_def xml_line_def
      comp_def render_property_items[symmetric])

lemma render_decl_wattrs:
  "concat (map render_attr (decl_wattrs ds l)) = '' rdf:about='' @ quoted_text [] @ nl @ concat (map (\<lambda>d. ns_decl d @ nl) ds) @ ns_decl l"
proof -
  have "concat (map render_attr (map (\<lambda>(p, u). (sp 8, ''xmlns:'' @ p, u, nl)) ds)) = concat (map (\<lambda>d. ns_decl d @ nl) ds)"
    by (induction ds) (auto simp: render_attr_def ns_decl_def quoted_text_def)
  then show ?thesis by (cases l) (simp add: decl_wattrs_def render_attr_def ns_decl_def quoted_text_def)
qed

lemma render_description_item:
  "sp 4 @ render (description_item ds l ts) @ nl =
   sp 4 @ ''<rdf:Description rdf:about='' @ quoted_text [] @ nl @ concat (map (\<lambda>d. ns_decl d @ nl) ds) @ ns_decl l @ ''>'' @ nl @
   renders (lined 6 ts) @ sp 4 @ ''</rdf:Description>'' @ nl"
  by (simp add: description_item_def render_decl_wattrs)

lemma metadata_packet_render: "metadata_packet ctx d = packet_head @ nl @ render (root_item ctx d) @ nl @ packet_tail"
proof -
  have s: "concat (map (\<lambda>s. sp 10 @ render (schema_item s) @ nl) ss) = concat (map schema_li ss)" for ss
    by (simp add: render_schema_item)
  have "sp 4 @ render (description_item (packet_decls ctx) pdf_decl (description_items ctx d)) @ nl =
      open_description ctx @ description_lines ctx d @ sp 4 @ ''</rdf:Description>'' @ nl"
    unfolding render_description_item by (simp add: open_description_def render_description_items pdf_decl_def)
  moreover have "concat (map (\<lambda>t. sp 4 @ render t @ nl) (onlyIf (packet_schemas ctx \<noteq> []) [description_item extension_decls property_decl [schemas_item ctx]])) =
      schemas_description ctx"
    by (simp only: onlyIf_def list.map concat.simps render_description_item append_Nil2 if_distrib[of "\<lambda>x. concat (map _ x)"] schemas_description_def)
      (simp add: schemas_item_def renders_lined comp_def s property_decl_def)
  ultimately show ?thesis
    by (simp add: metadata_packet_def root_item_def rdf_item_def renders_lined rdf_items_def render_attr_def quoted_text_def)
qed

section \<open>Reading elements back\<close>

text \<open>The item can be written inside the scopes, with at most \<open>k\<close> levels, and reads as the property \<open>p\<close>.\<close>

definition reads :: "scopes \<Rightarrow> nat \<Rightarrow> item \<Rightarrow> XProp \<Rightarrow> bool" where
  "reads scs k it p \<longleftrightarrow> item_ok it \<and> is_Tag it \<and> idepth it \<le> k \<and>
     (\<exists>x. node_of scs it = Some x \<and> parseProp x = p \<and> collectDecls x = [])"

definition looks :: "scopes \<Rightarrow> (string \<times> string) list \<Rightarrow> bool" where
  "looks scs ds \<longleftrightarrow> (\<forall>(p, u) \<in> set ds. lookup_scope p scs = Some u)"

lemma looks_Cons [simp]: "looks scs ((p, u) # ds) \<longleftrightarrow> lookup_scope p scs = Some u \<and> looks scs ds"
  by (auto simp: looks_def)

lemma lookup_empty [simp]: "lookup_scope p ([] # scs) = lookup_scope p scs"
  by (simp add: lookup_scope_Cons)

lemma looks_simps [simp]: "looks scs []" "looks ([] # scs) ds \<longleftrightarrow> looks scs ds"
  by (auto simp: looks_def)

definition qn :: "string \<Rightarrow> string \<Rightarrow> string \<Rightarrow> bool" where
  "qn tag p l \<longleftrightarrow> tag = p @ '':'' @ l \<and> CHR '':'' \<notin> set p \<and> p \<noteq> [] \<and> p \<noteq> ''xml'' \<and> qname_ok tag"

lemma resolve_qn: "qn tag p l \<Longrightarrow> lookup_scope p scs = Some u \<Longrightarrow> resolve scs tag b = Some (u, l, p)"
  by (auto simp: qn_def resolve_def upto_char_append)

definition text_prop :: "string \<Rightarrow> string \<Rightarrow> string \<Rightarrow> string \<Rightarrow> XProp" where
  "text_prop u p l v = XProp u p l 0 [] v False [] []"

definition alt_prop :: "string \<Rightarrow> string \<Rightarrow> string \<Rightarrow> string \<Rightarrow> string \<Rightarrow> XProp" where
  "alt_prop u p l lang v = XProp u p l 2 ''Alt'' [] False [] [XProp kRdf ''rdf'' ''li'' 0 [] v True lang []]"

definition array_prop :: "string \<Rightarrow> string \<Rightarrow> string \<Rightarrow> string \<Rightarrow> XProp list \<Rightarrow> XProp" where
  "array_prop u p l arr ps = XProp u p l 2 arr [] False [] ps"

definition li_struct :: "XProp list \<Rightarrow> XProp" where
  "li_struct ps = XProp kRdf ''rdf'' ''li'' 1 [] [] False [] ps"

lemma scope_of_Nil [simp]: "scope_of [] = []" "raw_of [] = []"
  by (simp_all add: scope_of_def raw_of_def)

lemma parse_leaf: "parseProp (XNode u l p [] ds [] v) = text_prop u p l v"
  by (simp add: parseProp.simps attrOf_def mkProp_def text_prop_def)

lemma reads_leaf:
  assumes "qn tag p l" "lookup_scope p scs = Some u" "decode body = Some v" "1 \<le> k"
  shows "reads scs k (leaf (tag, body)) (text_prop u p l v)"
  using assms resolve_qn[OF assms(1), of "[] # scs" u False]
  by (auto simp: reads_def leaf_def qn_def parse_leaf)

lemma xml_lang: "resolve scs ''xml:lang'' True = Some (kXmlNs, ''lang'', ''xml'')"
  by (simp add: resolve_def upto_char_def kXmlNs_def)

lemma qn_rdf: "qn ''rdf:Alt'' ''rdf'' ''Alt''" "qn ''rdf:li'' ''rdf'' ''li''" "qn ''rdf:Seq'' ''rdf'' ''Seq''" "qn ''rdf:Bag'' ''rdf'' ''Bag''"
  "qn ''rdf:parseType'' ''rdf'' ''parseType''" "qn ''rdf:about'' ''rdf'' ''about''" "qn ''rdf:Description'' ''rdf'' ''Description''" "qn ''rdf:RDF'' ''rdf'' ''RDF''"
  by (simp_all add: qn_def qname_ok_def nameStart_def nameChar_def is_upper_def is_lower_def)

text \<open>The items are the tags \<open>ts\<close> with texts between them.\<close>

definition padded :: "item list \<Rightarrow> item list \<Rightarrow> bool" where
  "padded its ts \<longleftrightarrow> filter is_Tag its = ts \<and> (\<forall>i \<in> set its. is_Tag i \<or> item_ok i)"

lemma blank_ok [simp]: "item_ok (Txt (sp n))" "item_ok (Txt nl)"
proof -
  have "plain (sp n)" "plain nl" by (auto simp: plain_def sp_def nl_def list_all_iff)
  then show "item_ok (Txt (sp n))" "item_ok (Txt nl)" by (simp_all add: decode_plain)
qed

lemma padded_lined: "list_all is_Tag ts \<Longrightarrow> padded (Txt nl # lined n ts @ [Txt (sp m)]) ts"
  "list_all is_Tag ts \<Longrightarrow> padded (Txt nl # lined n ts) ts"
  by (induction ts) (auto simp: padded_def lined_def simp del: item_ok.simps)

lemma padded_self: "list_all is_Tag ts \<Longrightarrow> padded ts ts"
  by (auto simp: padded_def list_all_iff)

lemma padded_tag: "padded its ts \<Longrightarrow> i \<in> set its \<Longrightarrow> is_Tag i \<Longrightarrow> i \<in> set ts"
  by (auto simp: padded_def)

lemma idepth_Tag: "idepth (Tag q ats its) \<le> Suc k \<longleftrightarrow> (\<forall>i \<in> set its. idepth i \<le> k)"
  by simp

lemma idepth_Txt: "\<not> is_Tag i \<Longrightarrow> idepth i = 0"
  by (cases i) auto

lemma reads_list:
  assumes "list_all2 (reads scs k) ts ps" "padded its ts"
  shows "list_all item_ok its" "\<forall>i \<in> set its. idepth i \<le> k"
    "\<exists>xs. those (map (node_of scs) (filter is_Tag its)) = Some xs \<and> map parseProp xs = ps \<and> concat (map collectDecls xs) = []"
proof -
  have r: "\<forall>t \<in> set ts. \<exists>p. reads scs k t p" using assms(1) by (induction rule: list_all2_induct) auto
  note tags = padded_tag[OF assms(2)]
  show "list_all item_ok its" using r tags assms(2) by (fastforce simp: list_all_iff padded_def reads_def)
  show "\<forall>i \<in> set its. idepth i \<le> k"
  proof
    fix i assume "i \<in> set its"
    then show "idepth i \<le> k" using r tags[of i] by (cases "is_Tag i") (auto simp: reads_def idepth_Txt)
  qed
  have "\<exists>xs. those (map (node_of scs) ts) = Some xs \<and> map parseProp xs = ps \<and> concat (map collectDecls xs) = []"
    using assms(1) by (induction rule: list_all2_induct) (auto simp: reads_def)
  then show "\<exists>xs. those (map (node_of scs) (filter is_Tag its)) = Some xs \<and> map parseProp xs = ps \<and> concat (map collectDecls xs) = []"
    using assms(2) by (simp add: padded_def)
qed

lemma reads_is_Tag: "list_all2 (reads scs k) ts ps \<Longrightarrow> list_all is_Tag ts"
  by (induction rule: list_all2_induct) (auto simp: reads_def)

lemma reads_array:
  assumes q: "qn tag p l" "lookup_scope p scs = Some u" and a: "arr \<in> {''Alt'', ''Seq'', ''Bag''}" "looks scs [(''rdf'', kRdf)]"
    and r: "list_all2 (reads ([] # [] # scs) k) ts ps" "padded its ts" "padded its' [Tag (''rdf:'' @ arr) [] its]" and k: "Suc (Suc k) \<le> k'"
  shows "reads scs k' (Tag tag [] its') (array_prop u p l arr ps)"
proof -
  have qa: "qn (''rdf:'' @ arr) ''rdf'' arr" using a(1) qn_rdf by auto
  obtain xs where xs: "those (map (node_of ([] # [] # scs)) (filter is_Tag its)) = Some xs" "map parseProp xs = ps" "concat (map collectDecls xs) = []"
    using reads_list(3)[OF r(1,2)] by blast
  let ?y = "XNode kRdf arr ''rdf'' [] [] xs (concat (map item_text its))"
  have y: "node_of ([] # scs) (Tag (''rdf:'' @ arr) [] its) = Some ?y"
    using resolve_qn[OF qa, of "[] # [] # scs" kRdf False] a(2) xs(1) by simp
  have ok: "item_ok (Tag (''rdf:'' @ arr) [] its)" using reads_list(1)[OF r(1,2)] qa by (simp add: qn_def)
  have ok': "item_ok i" if "i \<in> set its'" for i
    using padded_tag[OF r(3) that] ok r(3) that by (cases "is_Tag i") (auto simp: padded_def)
  have "idepth (Tag (''rdf:'' @ arr) [] its) \<le> Suc k" using reads_list(2)[OF r(1,2)] by simp
  then have d: "idepth i \<le> Suc k" if "i \<in> set its'" for i
    using padded_tag[OF r(3) that] by (cases "is_Tag i") (auto simp: idepth_Txt)
  have arr: "is_array ?y" using a(1) by (auto simp: is_array_def isRdf_def)
  have "node_of scs (Tag tag [] its') = Some (XNode u l p [] [] [?y] (concat (map item_text its')))"
    using resolve_qn[OF q(1), of "[] # scs" u False] q(2) y r(3) by (simp add: padded_def)
  moreover have "parseProp (XNode u l p [] [] [?y] tx) = array_prop u p l arr ps" for tx
    using arr xs(2) by (simp add: parseProp.simps[of "XNode u l p [] [] [?y] tx"] attrOf_def mkProp_def array_prop_def)
  moreover have "item_ok (Tag tag [] its')" using ok' q(1) by (auto simp: qn_def list_all_iff)
  moreover have "idepth (Tag tag [] its') \<le> k'" using d k by (meson idepth_Tag order_trans)
  ultimately show ?thesis using xs(3) by (auto simp: reads_def)
qed

lemma reads_li_struct:
  assumes "looks scs [(''rdf'', kRdf)]" "list_all2 (reads ([] # scs) k) ts ps" "padded its ts" "Suc k \<le> k'"
  shows "reads scs k' (Tag ''rdf:li'' resource its) (li_struct ps)"
proof -
  obtain xs where xs: "those (map (node_of ([] # scs)) (filter is_Tag its)) = Some xs" "map parseProp xs = ps" "concat (map collectDecls xs) = []"
    using reads_list(3)[OF assms(2,3)] by blast
  have raw: "raw_of resource = [(''rdf:parseType'', ''Resource'')]" "scope_of [(''rdf:parseType'', ''Resource'')] = []"
    by (simp_all add: raw_of_def resource_def scope_of_def starts_with_def)
  have "resolve ([] # scs) ''rdf:li'' False = Some (kRdf, ''li'', ''rdf'')" "resolve ([] # scs) ''rdf:parseType'' True = Some (kRdf, ''parseType'', ''rdf'')"
    using assms(1) resolve_qn qn_rdf by auto
  moreover have "\<not> is_decl ''rdf:parseType''" by (simp add: is_decl_def starts_with_def)
  ultimately have n: "node_of scs (Tag ''rdf:li'' resource its) = Some (XNode kRdf ''li'' ''rdf'' [\<lparr>a_ns = kRdf, a_local = ''parseType'', a_value = ''Resource''\<rparr>]
      [] xs (concat (map item_text its)))"
    using xs(1) by (simp add: raw)
  moreover have "parseProp (XNode kRdf ''li'' ''rdf'' [\<lparr>a_ns = kRdf, a_local = ''parseType'', a_value = ''Resource''\<rparr>] [] xs tx) = li_struct ps" for tx
  proof -
    have "kRdf \<noteq> kXmlNs" by (simp add: kRdf_def kXmlNs_def)
    then show ?thesis
      using xs(2) by (subst parseProp.simps) (simp add: attrOf_def mkProp_def li_struct_def attr_props_def plainAttr_def)
  qed
  moreover have "item_ok (Tag ''rdf:li'' resource its)"
    using reads_list(1)[OF assms(2,3)] qn_rdf
    by (auto simp: qn_def resource_def attr_ok_def is_space_def)
  moreover have "idepth (Tag ''rdf:li'' resource its) \<le> k'"
    using reads_list(2)[OF assms(2,3)] assms(4) by (meson idepth_Tag order_trans)
  ultimately show ?thesis using xs(3) by (auto simp: reads_def)
qed

section \<open>The properties that are written\<close>

definition written_pdfa :: "'d Ctx \<Rightarrow> XProp list" where
  "written_pdfa ctx =
     onlyIf (isA ctx) (text_prop kPdfaId ''pdfaid'' ''part'' (int_str (part ctx)) #
       (if part ctx \<ge> 4 then text_prop kPdfaId ''pdfaid'' ''rev'' ''2020'' #
          onlyIf (conf ctx = CHR ''F'' \<or> conf ctx = CHR ''E'') [text_prop kPdfaId ''pdfaid'' ''conformance'' [conf ctx]]
        else [text_prop kPdfaId ''pdfaid'' ''conformance'' [conf ctx]]))"

definition written_ids :: "'d Ctx \<Rightarrow> InfoData \<Rightarrow> XProp list" where
  "written_ids ctx d =
     onlyIf (ua (opt ctx)) (let u = ''http://www.aiim.org/pdfua/ns/id/'' in
       if ua2 ctx then [text_prop u ''pdfuaid'' ''part'' ''2'', text_prop u ''pdfuaid'' ''rev'' ''2024''] else [text_prop u ''pdfuaid'' ''part'' ''1'']) @
     onlyIf (isPrint ctx) [text_prop kPdfxId ''pdfxid'' ''GTS_PDFXVersion'' (xVersionString ctx),
       text_prop kPdf ''pdf'' ''Trapped'' (if i_trapped d = [] then ''False'' else i_trapped d)] @
     onlyIf (isVT ctx) ([text_prop kPdfvtId ''pdfvtid'' ''GTS_PDFVTVersion'' (vtVersionString ctx),
         text_prop kPdfvtId ''pdfvtid'' ''GTS_PDFVTModDate'' (cleanText (i_modifyIso d))] @
       onlyIf (pdf20Print ctx) [text_prop kPdfvtId ''pdfvtid'' ''GTS_PDFVTRev'' ''2020'', text_prop kPdfvtId ''pdfvtid'' ''rev'' ''2020'']) @
     onlyIf (isE ctx) [text_prop kPdfeId ''pdfe'' ''ISO_PDFEVersion'' ''PDF/E-1''] @
     onlyIf (withXml ctx) (let u = iv_nsUri (invc ctx); px = iv_prefix (invc ctx) in
       [text_prop u px ''DocumentType'' (cleanText (iv_documentType (invc ctx))), text_prop u px ''DocumentFileName'' (cleanText (iv_filename (invc ctx))),
        text_prop u px ''Version'' (cleanText (iv_version (invc ctx))), text_prop u px ''ConformanceLevel'' (cleanText (iv_profile (invc ctx)))]) @
     [text_prop kDc ''dc'' ''format'' ''application/pdf'']"

definition written_simple :: "'d Ctx \<Rightarrow> InfoData \<Rightarrow> XProp list" where
  "written_simple ctx d =
     (let entry = (\<lambda>u p l v. onlyIf (v \<noteq> []) [text_prop u p l (cleanText v)])
      in entry kPdf ''pdf'' ''Keywords'' (i_keywords d) @ entry kXmp ''xmp'' ''CreatorTool'' (i_creator d) @
         entry kPdf ''pdf'' ''Producer'' (i_producer d) @ entry kXmp ''xmp'' ''CreateDate'' (i_createIso d) @
         entry kXmp ''xmp'' ''ModifyDate'' (i_modifyIso d) @
         onlyIf (isPrint ctx) (entry kXmp ''xmp'' ''MetadataDate'' (i_modifyIso d) @
           entry kMM ''xmpMM'' ''DocumentID'' (document_id ctx d) @ entry kMM ''xmpMM'' ''InstanceID'' (document_id ctx d) @
           entry kMM ''xmpMM'' ''VersionID'' ''1'' @ entry kMM ''xmpMM'' ''RenditionClass'' ''default''))"

definition written_rest :: "'d Ctx \<Rightarrow> InfoData \<Rightarrow> XProp list" where
  "written_rest ctx d =
     written_ids ctx d @
     onlyIf (packet_title ctx d \<noteq> []) [alt_prop kDc ''dc'' ''title'' (cleanText (title_lang ctx)) (cleanText (packet_title ctx d))] @
     onlyIf (i_author d \<noteq> []) [array_prop kDc ''dc'' ''creator'' ''Seq'' [text_prop kRdf ''rdf'' ''li'' (cleanText (i_author d))]] @
     onlyIf (i_subject d \<noteq> []) [alt_prop kDc ''dc'' ''description'' ''x-default'' (cleanText (i_subject d))] @
     written_simple ctx d"

definition written_props :: "'d Ctx \<Rightarrow> InfoData \<Rightarrow> XProp list" where
  "written_props ctx d = written_pdfa ctx @ written_rest ctx d"

lemma list_all2_onlyIf: "(b \<Longrightarrow> list_all2 P xs ys) \<Longrightarrow> list_all2 P (onlyIf b xs) (onlyIf b ys)"
  by (simp add: onlyIf_def)

lemma onlyIf_map: "map f (onlyIf b xs) = onlyIf b (map f xs)" "concat (onlyIf b xss) = onlyIf b (concat xss)"
  by (simp_all add: onlyIf_def)

lemma packet_lookups:
  assumes "looks S (packet_decls ctx @ [pdf_decl])"
  shows "isA ctx \<Longrightarrow> lookup_scope ''pdfaid'' S = Some kPdfaId" "ua (opt ctx) \<Longrightarrow> lookup_scope ''pdfuaid'' S = Some ''http://www.aiim.org/pdfua/ns/id/''"
    "isPrint ctx \<Longrightarrow> lookup_scope ''pdfxid'' S = Some kPdfxId" "isVT ctx \<Longrightarrow> lookup_scope ''pdfvtid'' S = Some kPdfvtId"
    "isE ctx \<Longrightarrow> lookup_scope ''pdfe'' S = Some kPdfeId" "withXml ctx \<Longrightarrow> lookup_scope (iv_prefix (invc ctx)) S = Some (iv_nsUri (invc ctx))"
    "lookup_scope ''dc'' S = Some kDc" "lookup_scope ''xmp'' S = Some kXmp" "lookup_scope ''pdf'' S = Some kPdf"
    "isPrint ctx \<Longrightarrow> lookup_scope ''xmpMM'' S = Some kMM"
  using assms
  by (simp_all add: looks_def packet_decls_def onlyIf_def pdf_decl_def kPdfaId_def kPdfxId_def kPdfvtId_def kPdfeId_def kDc_def kXmp_def kPdf_def kMM_def)

lemma qn_packet:
  "qn ''pdfaid:part'' ''pdfaid'' ''part''" "qn ''pdfaid:rev'' ''pdfaid'' ''rev''" "qn ''pdfaid:conformance'' ''pdfaid'' ''conformance''"
  "qn ''pdfuaid:part'' ''pdfuaid'' ''part''" "qn ''pdfuaid:rev'' ''pdfuaid'' ''rev''"
  "qn ''pdfxid:GTS_PDFXVersion'' ''pdfxid'' ''GTS_PDFXVersion''" "qn ''pdf:Trapped'' ''pdf'' ''Trapped''"
  "qn ''pdfvtid:GTS_PDFVTVersion'' ''pdfvtid'' ''GTS_PDFVTVersion''" "qn ''pdfvtid:GTS_PDFVTModDate'' ''pdfvtid'' ''GTS_PDFVTModDate''"
  "qn ''pdfvtid:GTS_PDFVTRev'' ''pdfvtid'' ''GTS_PDFVTRev''" "qn ''pdfvtid:rev'' ''pdfvtid'' ''rev''" "qn ''pdfe:ISO_PDFEVersion'' ''pdfe'' ''ISO_PDFEVersion''"
  "qn ''dc:format'' ''dc'' ''format''" "qn ''dc:title'' ''dc'' ''title''" "qn ''dc:creator'' ''dc'' ''creator''" "qn ''dc:description'' ''dc'' ''description''"
  "qn ''pdf:Keywords'' ''pdf'' ''Keywords''" "qn ''xmp:CreatorTool'' ''xmp'' ''CreatorTool''" "qn ''pdf:Producer'' ''pdf'' ''Producer''"
  "qn ''xmp:CreateDate'' ''xmp'' ''CreateDate''" "qn ''xmp:ModifyDate'' ''xmp'' ''ModifyDate''" "qn ''xmp:MetadataDate'' ''xmp'' ''MetadataDate''"
  "qn ''xmpMM:DocumentID'' ''xmpMM'' ''DocumentID''" "qn ''xmpMM:InstanceID'' ''xmpMM'' ''InstanceID''" "qn ''xmpMM:VersionID'' ''xmpMM'' ''VersionID''"
  "qn ''xmpMM:RenditionClass'' ''xmpMM'' ''RenditionClass''"
  by (simp_all add: qn_def qname_ok_def nameStart_def nameChar_def is_upper_def is_lower_def)

lemma qn_invoice: "p \<in> {''fx'', ''zf''} \<Longrightarrow> qn (p @ '':DocumentType'') p ''DocumentType''"
  "p \<in> {''fx'', ''zf''} \<Longrightarrow> qn (p @ '':DocumentFileName'') p ''DocumentFileName''"
  "p \<in> {''fx'', ''zf''} \<Longrightarrow> qn (p @ '':Version'') p ''Version''"
  "p \<in> {''fx'', ''zf''} \<Longrightarrow> qn (p @ '':ConformanceLevel'') p ''ConformanceLevel''"
  by (auto simp: qn_def qname_ok_def nameStart_def nameChar_def is_upper_def is_lower_def)

lemma decode_int_str: "decode (int_str i) = Some (int_str i)"
proof (rule decode_plain)
  have "is_digit c \<Longrightarrow> c \<noteq> CHR ''<'' \<and> c \<noteq> CHR ''&''" for c by (auto simp: is_digit_def)
  then show "plain (int_str i)" by (auto simp: plain_def int_str_def list_all_iff dest!: nat_str_digits)
qed

lemma decode_version: "decode (xVersionString ctx) = Some (xVersionString ctx)" "decode (vtVersionString ctx) = Some (vtVersionString ctx)"
  by (rule decode_plain, simp add: plain_def xVersionString_def vtVersionString_def split: Level.split)+

text \<open>The values \<open>detectInvoice\<close> gives to the fields that are written unescaped.\<close>

definition invoice_ok :: "InvoiceProfile \<Rightarrow> bool" where
  "invoice_ok v \<longleftrightarrow> iv_prefix v \<in> {''fx'', ''zf''} \<and>
     iv_nsUri v \<in> {''urn:factur-x:pdfa:CrossIndustryDocument:invoice:1p0#'', ''urn:factur-x:pdfa:CrossIndustryDocument:1p0#'',
       ''urn:ferd:pdfa:CrossIndustryDocument:invoice:1p0#'', ''urn:zugferd:pdfa:CrossIndustryDocument:invoice:1p0#''} \<and>
     iv_schemaName v \<in> {''Factur-X PDFA Extension Schema'', ''ZUGFeRD PDFA Extension Schema''} \<and>
     iv_standard v \<in> {''Factur-X'', ''Order-X'', ''ZUGFeRD 1.0'', ''ZUGFeRD 2.0'', ''XRechnung''} \<and>
     iv_documentType v \<in> {''INVOICE'', ''ORDER'', ''ORDER_CHANGE'', ''ORDER_RESPONSE''}"

lemma invoice_parts:
  assumes "invoice_ok v"
  shows "iv_prefix v \<in> {''fx'', ''zf''}"
    "iv_nsUri v \<in> {''urn:factur-x:pdfa:CrossIndustryDocument:invoice:1p0#'', ''urn:factur-x:pdfa:CrossIndustryDocument:1p0#'',
       ''urn:ferd:pdfa:CrossIndustryDocument:invoice:1p0#'', ''urn:zugferd:pdfa:CrossIndustryDocument:invoice:1p0#''}"
    "iv_schemaName v \<in> {''Factur-X PDFA Extension Schema'', ''ZUGFeRD PDFA Extension Schema''}"
    "iv_standard v \<in> {''Factur-X'', ''Order-X'', ''ZUGFeRD 1.0'', ''ZUGFeRD 2.0'', ''XRechnung''}"
    "iv_documentType v \<in> {''INVOICE'', ''ORDER'', ''ORDER_CHANGE'', ''ORDER_RESPONSE''}"
  using assms by (simp_all only: invoice_ok_def)

lemma orderDocumentType_values: "orderDocumentType xml \<in> {''ORDER'', ''ORDER_CHANGE'', ''ORDER_RESPONSE''}"
  by (simp add: orderDocumentType_def Let_def)

lemma by_guideline_ok: "invoice_ok v \<Longrightarrow> invoice_ok (by_guideline xml urn v)"
  using orderDocumentType_values[of xml] by (simp add: by_guideline_def invoice_ok_def Let_def)

lemma detectInvoice_ok: "invoice_ok (detectInvoice xml profile name)"
proof -
  have "invoice_ok (factur_x\<lparr>iv_rootName := a, iv_rootKnown := b, iv_guidelineId := c\<rparr>)" for a b c
    by (simp add: factur_x_def InvoiceProfile0_def invoice_ok_def)
  note f = this by_guideline_ok[OF this]
  have u: "invoice_ok (v\<lparr>iv_profileValid := x1, iv_relationship := x2\<rparr>) = invoice_ok v"
    "invoice_ok (v\<lparr>iv_profile := x3, iv_detected := x4\<rparr>) = invoice_ok v" "invoice_ok (v\<lparr>iv_filename := x5\<rparr>) = invoice_ok v" for v x1 x2 x3 x4 x5
    by (simp_all add: invoice_ok_def)
  show ?thesis unfolding detectInvoice_def Let_def u by (simp add: u f)
qed

definition packet_ok :: "'d Ctx \<Rightarrow> InfoData \<Rightarrow> bool" where
  "packet_ok ctx d \<longleftrightarrow> plain [conf ctx] \<and> plain (i_trapped d) \<and> (withXml ctx \<longrightarrow> invoice_ok (invc ctx))"

lemma reads_ids:
  assumes "looks S (packet_decls ctx @ [pdf_decl])" "packet_ok ctx d" "1 \<le> k"
  shows "list_all2 (reads S k) (map leaf (id_lines ctx d)) (written_pdfa ctx @ written_ids ctx d)"
proof -
  note l = packet_lookups[OF assms(1)]
  have iv: "withXml ctx \<Longrightarrow> iv_prefix (invc ctx) \<in> {''fx'', ''zf''}" using assms(2) by (simp add: packet_ok_def invoice_ok_def)
  have c: "decode [conf ctx] = Some [conf ctx]" "decode (i_trapped d) = Some (i_trapped d)"
    using assms(2) by (simp_all only: packet_ok_def decode_plain)
  have [simp]: "decode ''2020'' = Some ''2020''" "decode ''2024'' = Some ''2024''" "decode ''E'' = Some ''E''" "decode ''F'' = Some ''F''" "decode ''1'' = Some ''1''" "decode ''2'' = Some ''2''" "decode ''False'' = Some ''False''"
     "decode ''PDF/E-1'' = Some ''PDF/E-1''" "decode ''application/pdf'' = Some ''application/pdf''" by (simp_all add: decode_plain plain_def)
  show ?thesis
    unfolding id_lines_def written_pdfa_def written_ids_def map_append Let_def
    by (intro list_all2_appendI)
      (auto simp: pdfa_lines_def pdfua_lines_def pdfx_lines_def pdfvt_lines_def pdfe_lines_def invoice_lines_def onlyIf_def Let_def
         simp del: decode.simps
         intro!: reads_leaf qn_packet qn_invoice l c decode_int_str decode_version decode_xmlEscape assms(3)
         dest: iv)
qed

lemma reads_alt:
  assumes q: "qn tag p l" "lookup_scope p S = Some u" "looks S [(''rdf'', kRdf)]" "3 \<le> k"
  shows "list_all2 (reads S k) (alt_item tag v lang) (onlyIf (v \<noteq> []) [alt_prop u p l (cleanText lang) (cleanText v)])"
proof (cases "v = []")
  case False
  let ?ats = "[('' '', ''xml:lang'', xmlEscape lang, [])]"
  let ?li = "Tag ''rdf:li'' ?ats [Txt (xmlEscape v)]"
  let ?x = "XNode kRdf ''li'' ''rdf'' [\<lparr>a_ns = kXmlNs, a_local = ''lang'', a_value = cleanText lang\<rparr>] [] [] (cleanText v)"
  have raw: "raw_of ?ats = [(''xml:lang'', cleanText lang)]" "scope_of [(''xml:lang'', cleanText lang)] = []"
    by (simp_all add: raw_of_def decode_xmlEscape scope_of_def starts_with_def)
  have "resolve ([] # [] # [] # S) ''rdf:li'' False = Some (kRdf, ''li'', ''rdf'')" using assms(3) resolve_qn qn_rdf by auto
  moreover have "\<not> is_decl ''xml:lang''" by (simp add: is_decl_def starts_with_def)
  ultimately have "node_of ([] # [] # S) ?li = Some ?x" by (simp add: raw xml_lang decode_xmlEscape)
  moreover have "kXmlNs \<noteq> kRdf" by (simp add: kRdf_def kXmlNs_def)
  then have "parseProp ?x = XProp kRdf ''rdf'' ''li'' 0 [] (cleanText v) True (cleanText lang) []"
    by (subst parseProp.simps) (simp add: attrOf_def mkProp_def plainAttr_def)
  moreover have "item_ok ?li"
    using qn_rdf xmlEscape_no_quote[of lang]
    by (auto simp: attr_ok_def is_space_def decode_xmlEscape qn_def) (simp_all add: qname_ok_def nameStart_def nameChar_def is_lower_def)
  ultimately have "reads ([] # [] # S) 1 ?li (XProp kRdf ''rdf'' ''li'' 0 [] (cleanText v) True (cleanText lang) [])"
    by (auto simp: reads_def)
  then have "reads S k (Tag tag [] [Tag (''rdf:'' @ ''Alt'') [] [?li]]) (array_prop u p l ''Alt'' [XProp kRdf ''rdf'' ''li'' 0 [] (cleanText v) True (cleanText lang) []])"
    using assms by (intro reads_array[where k = 1 and ts = "[?li]" and its = "[?li]"]) (auto simp: padded_def)
  then show ?thesis using False by (simp add: alt_item_def onlyIf_def alt_prop_def array_prop_def)
qed (simp add: alt_item_def onlyIf_def)

lemma reads_seq:
  assumes q: "qn tag p l" "lookup_scope p S = Some u" "looks S [(''rdf'', kRdf)]" "3 \<le> k"
  shows "list_all2 (reads S k) (seq_item tag v) (onlyIf (v \<noteq> []) [array_prop u p l ''Seq'' [text_prop kRdf ''rdf'' ''li'' (cleanText v)]])"
proof (cases "v = []")
  case False
  have "reads ([] # [] # S) 1 (leaf (''rdf:li'', xmlEscape v)) (text_prop kRdf ''rdf'' ''li'' (cleanText v))"
    using assms(3) by (intro reads_leaf qn_rdf decode_xmlEscape) auto
  then have "reads S k (Tag tag [] [Tag (''rdf:'' @ ''Seq'') [] [leaf (''rdf:li'', xmlEscape v)]]) (array_prop u p l ''Seq'' [text_prop kRdf ''rdf'' ''li'' (cleanText v)])"
    using assms by (intro reads_array[where k = 1 and ts = "[leaf (''rdf:li'', xmlEscape v)]" and its = "[leaf (''rdf:li'', xmlEscape v)]"])
        (auto simp: leaf_def padded_def)
  then show ?thesis using False by (simp add: seq_item_def onlyIf_def)
qed (simp add: seq_item_def onlyIf_def)

lemma reads_simple:
  assumes "qn tag p l" "lookup_scope p S = Some u" "1 \<le> k"
  shows "list_all2 (reads S k) (simple_item (tag, v)) (onlyIf (v \<noteq> []) [text_prop u p l (cleanText v)])"
  using reads_leaf[OF assms(1,2) decode_xmlEscape assms(3)] by (simp add: simple_item_def onlyIf_def)

lemma reads_simples:
  assumes "looks S (packet_decls ctx @ [pdf_decl])" "1 \<le> k"
  shows "list_all2 (reads S k) (concat (map simple_item (simple_lines ctx d))) (written_simple ctx d)"
proof -
  note l = packet_lookups[OF assms(1)]
  have "list_all2 (reads S k) (concat (map simple_item (print_lines ctx d)))
     (onlyIf (isPrint ctx) (onlyIf (i_modifyIso d \<noteq> []) [text_prop kXmp ''xmp'' ''MetadataDate'' (cleanText (i_modifyIso d))] @
      onlyIf (document_id ctx d \<noteq> []) [text_prop kMM ''xmpMM'' ''DocumentID'' (cleanText (document_id ctx d))] @
      onlyIf (document_id ctx d \<noteq> []) [text_prop kMM ''xmpMM'' ''InstanceID'' (cleanText (document_id ctx d))] @
      onlyIf (''1'' \<noteq> []) [text_prop kMM ''xmpMM'' ''VersionID'' (cleanText ''1'')] @ onlyIf (''default'' \<noteq> []) [text_prop kMM ''xmpMM'' ''RenditionClass'' (cleanText ''default'')]))"
    unfolding print_lines_def onlyIf_map list.map concat.simps append_Nil2
    by (intro list_all2_onlyIf list_all2_appendI reads_simple qn_packet l assms(2))
  then show ?thesis
    unfolding simple_lines_def written_simple_def map_append concat_append list.map concat.simps append_assoc append_Nil append_Nil2 Let_def
    by (intro list_all2_appendI reads_simple qn_packet l assms(2))
qed

lemma reads_description:
  assumes "looks S (packet_decls ctx @ [pdf_decl])" "looks S [(''rdf'', kRdf)]" "packet_ok ctx d"
  shows "list_all2 (reads S 3) (description_items ctx d) (written_props ctx d)"
proof -
  note l = packet_lookups[OF assms(1)]
  have x: "cleanText ''x-default'' = ''x-default''" by (simp add: cleanText_def kept_char_def)
  have "list_all2 (reads S 3) (alt_item ''dc:description'' (i_subject d) ''x-default'')
     (onlyIf (i_subject d \<noteq> []) [alt_prop kDc ''dc'' ''description'' ''x-default'' (cleanText (i_subject d))])"
    using reads_alt[OF qn_packet(16) l(7) assms(2), of 3 "i_subject d" "''x-default''"] by (simp add: x)
  then show ?thesis
    unfolding description_items_def written_props_def written_rest_def append_assoc[of "written_pdfa ctx", symmetric]
    by (intro list_all2_appendI reads_ids reads_alt reads_seq reads_simples qn_packet l assms) simp_all
qed

subsection \<open>Descriptions\<close>

definition decls_ok :: "(string \<times> string) list \<Rightarrow> bool" where
  "decls_ok ds \<longleftrightarrow> distinct (map fst ds) \<and>
     list_all (\<lambda>(p, u). qname_ok (''xmlns:'' @ p) \<and> CHR 0x22 \<notin> set u \<and> plain u \<and> p \<noteq> ''rdf'') ds"

lemma raw_of_decls: "decls_ok (ds @ [l]) \<Longrightarrow> raw_of (decl_wattrs ds l) = (''rdf:about'', []) # decl_attrs (ds @ [l])"
  by (cases l) (auto simp: raw_of_def decl_wattrs_def decl_attrs_def decls_ok_def decode_plain list_all_iff)

lemma decls_lookup:
  assumes "decls_ok ds"
  shows "looks (scope_of (decl_attrs ds) # scs) ds" "lookup_scope ''rdf'' (scope_of (decl_attrs ds) # scs) = lookup_scope ''rdf'' scs"
proof -
  have d: "distinct (map fst ds)" and "\<forall>(p, u) \<in> set ds. p \<noteq> ''rdf''" using assms by (auto simp: decls_ok_def list_all_iff)
  then have "map_of (rev ds) ''rdf'' = None" by (auto simp: map_of_eq_None_iff)
  then show "lookup_scope ''rdf'' (scope_of (decl_attrs ds) # scs) = lookup_scope ''rdf'' scs"
    by (simp add: lookup_scope_Cons scope_of_decls)
  have "map_of (rev ds) p = Some u" if "(p, u) \<in> set ds" for p u
    using that d by (intro map_of_is_SomeI) (simp_all add: rev_map[symmetric])
  then show "looks (scope_of (decl_attrs ds) # scs) ds"
    by (auto simp: looks_def lookup_scope_Cons scope_of_decls)
qed

lemma decls_attr_ok:
  assumes "decls_ok (ds @ [l])"
  shows "list_all attr_ok (decl_wattrs ds l)" "distinct (map (fst \<circ> snd) (decl_wattrs ds l))"
proof -
  have s: "list_all is_space (sp 8)" "list_all is_space nl" "sp 8 \<noteq> []" by (simp_all add: sp_def nl_def is_space_def list_all_iff)
  have "attr_ok ('' '', ''rdf:about'', [], nl)" using s qn_rdf(6) by (simp add: attr_ok_def qn_def is_space_def)
  then show "list_all attr_ok (decl_wattrs ds l)"
    using assms s by (cases l) (auto simp: decl_wattrs_def decls_ok_def list_all_iff attr_ok_def decode_plain simp del: decode.simps)
  have "map (fst \<circ> snd) (decl_wattrs ds l) = ''rdf:about'' # map (\<lambda>p. ''xmlns:'' @ p) (map fst (ds @ [l]))"
    by (cases l) (auto simp: decl_wattrs_def)
  then show "distinct (map (fst \<circ> snd) (decl_wattrs ds l))"
    using assms by (auto simp: decls_ok_def distinct_map inj_on_def)
qed

text \<open>A description of properties reads as these properties, and declares what it was given.\<close>

lemma description_node:
  assumes ok: "decls_ok (ds @ [l])" and rdf: "lookup_scope ''rdf'' scs = Some kRdf"
    and r: "list_all2 (reads (scope_of (decl_attrs (ds @ [l])) # scs) k) ts ps"
  shows "\<exists>x. node_of scs (description_item ds l ts) = Some x \<and> description_props x = ps \<and> set (collectDecls x) \<subseteq> set (ds @ [l]) \<and>
    \<not> isRdf x ''RDF''"
    and "item_ok (description_item ds l ts)" "idepth (description_item ds l ts) \<le> Suc k"
proof -
  let ?S = "scope_of (decl_attrs (ds @ [l])) # scs" and ?its = "Txt nl # lined 6 ts @ [Txt (sp 4)]"
  have pad: "padded ?its ts" by (rule padded_lined(1)[OF reads_is_Tag[OF r]])
  obtain xs where xs: "those (map (node_of ?S) (filter is_Tag ?its)) = Some xs" "map parseProp xs = ps" "concat (map collectDecls xs) = []"
    using reads_list(3)[OF r pad] by blast
  have "lookup_scope ''rdf'' ?S = Some kRdf" using decls_lookup(2)[OF ok] rdf by simp
  then have q: "resolve ?S ''rdf:Description'' False = Some (kRdf, ''Description'', ''rdf'')" "resolve ?S ''rdf:about'' True = Some (kRdf, ''about'', ''rdf'')"
    using resolve_qn qn_rdf by auto
  have "resolve_attrs ?S ((''rdf:about'', []) # decl_attrs (ds @ [l])) = Some [\<lparr>a_ns = kRdf, a_local = ''about'', a_value = []\<rparr>]"
    by (simp add: q is_decl_def starts_with_def resolve_attrs_decls)
  then have n: "node_of scs (description_item ds l ts) = Some (XNode kRdf ''Description'' ''rdf'' [\<lparr>a_ns = kRdf, a_local = ''about'', a_value = []\<rparr>]
      (scope_of (decl_attrs (ds @ [l]))) xs (concat (map item_text ?its)))"
    unfolding description_item_def node_of.simps raw_of_decls[OF ok] scope_of_about Let_def q option.case prod.case xs(1)
    by simp
  show "\<exists>x. node_of scs (description_item ds l ts) = Some x \<and> description_props x = ps \<and> set (collectDecls x) \<subseteq> set (ds @ [l]) \<and> \<not> isRdf x ''RDF''"
    unfolding n using xs(2,3) scope_of_decls(2)[of "ds @ [l]"]
    by (simp add: description_props_def attr_props_def plainAttr_def isRdf_def)
  show "item_ok (description_item ds l ts)"
    using reads_list(1)[OF r pad] decls_attr_ok[OF ok] qn_rdf(7) by (simp add: description_item_def qn_def)
  show "idepth (description_item ds l ts) \<le> Suc k"
    unfolding description_item_def idepth_Tag by (rule reads_list(2)[OF r pad])
qed

subsection \<open>Schemas\<close>

type_synonym schema_def = "string \<times> string \<times> string \<times> xprop_def list"

definition property_prop :: "xprop_def \<Rightarrow> XProp" where
  "property_prop = (\<lambda>(nm, ty, cat, descr).
     li_struct [text_prop kPropNs ''pdfaProperty'' ''name'' nm, text_prop kPropNs ''pdfaProperty'' ''valueType'' ty,
       text_prop kPropNs ''pdfaProperty'' ''category'' cat, text_prop kPropNs ''pdfaProperty'' ''description'' descr])"

definition schema_prop :: "schema_def \<Rightarrow> XProp" where
  "schema_prop = (\<lambda>(nm, uri, prefix, props).
     li_struct [text_prop kSchemaNs ''pdfaSchema'' ''schema'' nm, text_prop kSchemaNs ''pdfaSchema'' ''namespaceURI'' uri,
       text_prop kSchemaNs ''pdfaSchema'' ''prefix'' prefix,
       array_prop kSchemaNs ''pdfaSchema'' ''property'' ''Seq'' (map property_prop props)])"

definition schemas_prop :: "'d Ctx \<Rightarrow> XProp" where
  "schemas_prop ctx = array_prop kExtNs ''pdfaExtension'' ''schemas'' ''Bag'' (map schema_prop (packet_schemas ctx))"

definition schema_plain :: "schema_def \<Rightarrow> bool" where
  "schema_plain = (\<lambda>(nm, uri, prefix, props). plain nm \<and> plain uri \<and> plain prefix \<and>
     list_all (\<lambda>(a, b, c, e). plain a \<and> plain b \<and> plain c \<and> plain e) props)"

lemma qn_schema:
  "qn ''pdfaProperty:name'' ''pdfaProperty'' ''name''" "qn ''pdfaProperty:valueType'' ''pdfaProperty'' ''valueType''"
  "qn ''pdfaProperty:category'' ''pdfaProperty'' ''category''" "qn ''pdfaProperty:description'' ''pdfaProperty'' ''description''"
  "qn ''pdfaSchema:schema'' ''pdfaSchema'' ''schema''" "qn ''pdfaSchema:namespaceURI'' ''pdfaSchema'' ''namespaceURI''"
  "qn ''pdfaSchema:prefix'' ''pdfaSchema'' ''prefix''" "qn ''pdfaSchema:property'' ''pdfaSchema'' ''property''"
  "qn ''pdfaExtension:schemas'' ''pdfaExtension'' ''schemas''"
  by (simp_all add: qn_def qname_ok_def nameStart_def nameChar_def is_upper_def is_lower_def)

lemma reads_leaves:
  assumes "list_all2 (\<lambda>(tag, body) (p, l, u). qn tag p l \<and> lookup_scope p S = Some u \<and> plain body) ls rs" "1 \<le> k"
  shows "list_all2 (reads S k) (map leaf ls) (map2 (\<lambda>(tag, body) (p, l, u). text_prop u p l body) ls rs)"
  using assms by (induction rule: list_all2_induct) (auto intro: reads_leaf decode_plain)

abbreviation ext_env :: "scopes \<Rightarrow> bool" where
  "ext_env S \<equiv> looks S [(''rdf'', kRdf), (''pdfaExtension'', kExtNs), (''pdfaSchema'', kSchemaNs), (''pdfaProperty'', kPropNs)]"

lemma reads_property:
  assumes "ext_env S" "schema_plain (a, b, c, props)" "p \<in> set props"
  shows "reads S 2 (property_item p) (property_prop p)"
proof -
  obtain nm ty cat descr where p: "p = (nm, ty, cat, descr)" by (cases p)
  have pl: "plain nm" "plain ty" "plain cat" "plain descr" using assms(2,3) by (auto simp: p schema_plain_def list_all_iff)
  let ?ls = "[(''pdfaProperty:name'', nm), (''pdfaProperty:valueType'', ty), (''pdfaProperty:category'', cat), (''pdfaProperty:description'', descr)]"
  have "list_all2 (reads ([] # S) 1) (map leaf ?ls) [text_prop kPropNs ''pdfaProperty'' ''name'' nm, text_prop kPropNs ''pdfaProperty'' ''valueType'' ty,
       text_prop kPropNs ''pdfaProperty'' ''category'' cat, text_prop kPropNs ''pdfaProperty'' ''description'' descr]"
    using assms(1) pl by (auto intro!: reads_leaf qn_schema decode_plain)
  from reads_li_struct[OF _ this padded_lined(1)[OF reads_is_Tag[OF this]], of 2 18 16] assms(1) show ?thesis
    by (simp add: p property_item_def property_prop_def)
qed

lemma reads_schema:
  assumes "ext_env S" "schema_plain s"
  shows "reads S 5 (schema_item s) (schema_prop s)"
proof -
  obtain nm uri prefix props where s: "s = (nm, uri, prefix, props)" by (cases s)
  have pl: "plain nm" "plain uri" "plain prefix" using assms(2) by (auto simp: s schema_plain_def)
  let ?ls = "[(''pdfaSchema:schema'', nm), (''pdfaSchema:namespaceURI'', uri), (''pdfaSchema:prefix'', prefix)]"
  let ?seq = "Tag (''rdf:'' @ ''Seq'') [] (Txt nl # lined 16 (map property_item props) @ [Txt (sp 14)])"
  have ps: "list_all2 (reads ([] # [] # [] # S) 2) (map property_item props) (map property_prop props)"
    using assms reads_property[of "[] # [] # [] # S" nm uri prefix props] by (auto simp: s list.rel_map intro!: list.rel_refl_strong)
  have "reads ([] # S) 4 (Tag ''pdfaSchema:property'' [] (Txt nl # lined 14 [?seq] @ [Txt (sp 12)]))
      (array_prop kSchemaNs ''pdfaSchema'' ''property'' ''Seq'' (map property_prop props))"
    by (rule reads_array[OF qn_schema(8) _ _ _ ps padded_lined(1) padded_lined(1)]) (use assms(1) in \<open>simp_all add: property_item_def list_all_iff split: prod.split\<close>)
  moreover have "list_all2 (reads ([] # S) 4) (map leaf ?ls) [text_prop kSchemaNs ''pdfaSchema'' ''schema'' nm,
      text_prop kSchemaNs ''pdfaSchema'' ''namespaceURI'' uri, text_prop kSchemaNs ''pdfaSchema'' ''prefix'' prefix]"
    using assms(1) pl by (auto intro!: reads_leaf qn_schema decode_plain)
  ultimately have r: "list_all2 (reads ([] # S) 4) (map leaf ?ls @ [Tag ''pdfaSchema:property'' [] (Txt nl # lined 14 [?seq] @ [Txt (sp 12)])])
     ([text_prop kSchemaNs ''pdfaSchema'' ''schema'' nm, text_prop kSchemaNs ''pdfaSchema'' ''namespaceURI'' uri, text_prop kSchemaNs ''pdfaSchema'' ''prefix'' prefix] @
      [array_prop kSchemaNs ''pdfaSchema'' ''property'' ''Seq'' (map property_prop props)])"
    by (intro list_all2_appendI) auto
  from reads_li_struct[OF _ r padded_lined(1)[OF reads_is_Tag[OF r]], of 5 12 10] assms(1) show ?thesis
    by (simp add: s schema_item_def schema_prop_def)
qed

lemma reads_schemas:
  assumes "ext_env S" "list_all schema_plain (packet_schemas ctx)"
  shows "reads S 7 (schemas_item ctx) (schemas_prop ctx)"
proof -
  let ?bag = "Tag (''rdf:'' @ ''Bag'') [] (Txt nl # lined 10 (map schema_item (packet_schemas ctx)) @ [Txt (sp 8)])"
  have ss: "list_all2 (reads ([] # [] # S) 5) (map schema_item (packet_schemas ctx)) (map schema_prop (packet_schemas ctx))"
    using assms reads_schema[of "[] # [] # S"] by (auto simp: list.rel_map list_all_iff intro!: list.rel_refl_strong)
  have "reads S 7 (Tag ''pdfaExtension:schemas'' [] (Txt nl # lined 8 [?bag] @ [Txt (sp 6)])) (schemas_prop ctx)"
    unfolding schemas_prop_def
    by (rule reads_array[OF qn_schema(9) _ _ _ ss padded_lined(1) padded_lined(1)]) (use assms(1) in \<open>simp_all add: schema_item_def list_all_iff split: prod.split\<close>)
  then show ?thesis by (simp add: schemas_item_def)
qed

subsection \<open>The packet\<close>

lemma onlyIf_simps [simp]: "list_all P (onlyIf b xs) \<longleftrightarrow> (b \<longrightarrow> list_all P xs)" "distinct (onlyIf b xs) \<longleftrightarrow> (b \<longrightarrow> distinct xs)"
  "x \<in> set (onlyIf b xs) \<longleftrightarrow> b \<and> x \<in> set xs" "set (onlyIf b xs) \<inter> A = {} \<longleftrightarrow> (b \<longrightarrow> set xs \<inter> A = {})"
  by (auto simp: onlyIf_def)

lemma plain_append [simp]: "plain (s @ t) \<longleftrightarrow> plain s \<and> plain t"
  by (simp add: plain_def)

lemma invoice_plain:
  assumes "invoice_ok v"
  shows "plain (iv_prefix v)" "plain (iv_nsUri v)" "plain (iv_schemaName v)" "plain (iv_standard v)" "plain (iv_documentType v)"
    "CHR 0x22 \<notin> set (iv_nsUri v)" "qname_ok (''xmlns:'' @ iv_prefix v)"
proof -
  note m = invoice_parts[OF assms]
  show "plain (iv_prefix v)" "qname_ok (''xmlns:'' @ iv_prefix v)"
    using m(1) by (auto simp: plain_def qname_ok_def nameStart_def nameChar_def is_lower_def)
  show "plain (iv_nsUri v)" "CHR 0x22 \<notin> set (iv_nsUri v)" using m(2) by (auto simp: plain_def)
  show "plain (iv_schemaName v)" "plain (iv_standard v)" "plain (iv_documentType v)" using m(3-5) by (auto simp: plain_def)
qed

lemma packet_decls_distinct:
  assumes "packet_ok ctx d"
  shows "distinct (map fst (packet_decls ctx @ [pdf_decl]))"
proof -
  have "withXml ctx \<Longrightarrow> iv_prefix (invc ctx) \<in> {''fx'', ''zf''}" using assms by (simp add: packet_ok_def invoice_ok_def)
  then show ?thesis by (auto simp: packet_decls_def pdf_decl_def onlyIf_map)
qed

lemma packet_decls_ok: "packet_ok ctx d \<Longrightarrow> decls_ok (packet_decls ctx @ [pdf_decl])"
proof -
  assume ok: "packet_ok ctx d"
  then have v: "withXml ctx \<Longrightarrow> invoice_ok (invc ctx)" by (simp add: packet_ok_def)
  then have iv: "withXml ctx \<Longrightarrow> iv_prefix (invc ctx) \<noteq> ''rdf''" by (auto simp: invoice_ok_def)
  have "list_all (\<lambda>(p, u). qname_ok (''xmlns:'' @ p) \<and> CHR 0x22 \<notin> set u \<and> plain u \<and> p \<noteq> ''rdf'')
     (onlyIf (withXml ctx) [(iv_prefix (invc ctx), iv_nsUri (invc ctx))])"
    using v iv by (simp add: invoice_plain del: append.simps append_Cons)
  then show "decls_ok (packet_decls ctx @ [pdf_decl])"
    unfolding decls_ok_def packet_decls_def list_all_append
    using packet_decls_distinct[OF ok]
    by (simp add: packet_decls_def pdf_decl_def plain_def qname_ok_def nameStart_def nameChar_def is_upper_def is_lower_def)
qed

lemma extension_decls_ok: "decls_ok (extension_decls @ [property_decl])"
  by (simp add: decls_ok_def extension_decls_def property_decl_def plain_def qname_ok_def nameStart_def nameChar_def is_upper_def is_lower_def)

lemma packet_schemas_plain:
  assumes "packet_ok ctx d"
  shows "list_all schema_plain (packet_schemas ctx)"
proof -
  have "schema_plain ua_schema" "schema_plain x_schema" "schema_plain trapped_schema"
    by (simp_all add: schema_plain_def ua_schema_def x_schema_def trapped_schema_def plain_def)
  moreover have "schema_plain (fx_schema v)" if "invoice_ok v" for v
  proof -
    have "plain ''DocumentFileName''" "plain ''Text''" "plain ''external''" "plain ''name of the embedded XML document file''" "plain ''DocumentType''" "plain ''Version''"
      "plain ''The actual version of the ''" "plain '' data''" "plain ''The conformance level of the embedded ''" "plain ''ConformanceLevel''" by (simp_all add: plain_def)
    then show ?thesis by (simp only: schema_plain_def fx_schema_def prod.case list.pred_inject plain_append invoice_plain[OF that] simp_thms)
  qed
  ultimately show ?thesis using assms by (simp add: packet_schemas_def packet_ok_def)
qed

definition all_props :: "'d Ctx \<Rightarrow> InfoData \<Rightarrow> XProp list" where
  "all_props ctx d = written_props ctx d @ onlyIf (packet_schemas ctx \<noteq> []) [schemas_prop ctx]"

definition all_decls :: "'d Ctx \<Rightarrow> (string \<times> string) list" where
  "all_decls ctx = [(''x'', ''adobe:ns:meta/''), (''rdf'', kRdf)] @ packet_decls ctx @ [pdf_decl] @ extension_decls @ [property_decl]"

lemma rdf_nodes:
  assumes "packet_ok ctx d" "lookup_scope ''rdf'' scs = Some kRdf"
  shows "\<exists>xs. those (map (node_of scs) (rdf_items ctx d)) = Some xs \<and> concat (map description_props xs) = all_props ctx d \<and>
      set (concat (map collectDecls xs)) \<subseteq> set (all_decls ctx)"
    and "list_all item_ok (rdf_items ctx d)" "\<forall>i \<in> set (rdf_items ctx d). idepth i \<le> 8" "list_all is_Tag (rdf_items ctx d)"
proof -
  note ok = packet_decls_ok[OF assms(1)]
  let ?S = "scope_of (decl_attrs (packet_decls ctx @ [pdf_decl])) # scs" and ?T = "scope_of (decl_attrs (extension_decls @ [property_decl])) # scs"
  have "looks ?S [(''rdf'', kRdf)]" using decls_lookup(2)[OF ok] assms(2) by simp
  from reads_description[OF decls_lookup(1)[OF ok] this assms(1)]
  have r: "list_all2 (reads ?S 3) (description_items ctx d) (written_props ctx d)" .
  obtain x where x: "node_of scs (description_item (packet_decls ctx) pdf_decl (description_items ctx d)) = Some x" "description_props x = written_props ctx d"
    "set (collectDecls x) \<subseteq> set (packet_decls ctx @ [pdf_decl])"
    using description_node(1)[OF ok assms(2) r] by blast
  have "ext_env ?T"
    using decls_lookup[OF extension_decls_ok, of scs] assms(2) by (simp add: extension_decls_def property_decl_def kExtNs_def kSchemaNs_def kPropNs_def)
  then have "list_all2 (reads ?T 7) [schemas_item ctx] [schemas_prop ctx]" using reads_schemas[OF _ packet_schemas_plain[OF assms(1)]] by simp
  note e = description_node[OF extension_decls_ok assms(2) this]
  obtain y where y: "node_of scs (description_item extension_decls property_decl [schemas_item ctx]) = Some y" "description_props y = [schemas_prop ctx]"
    "set (collectDecls y) \<subseteq> set (extension_decls @ [property_decl])"
    using e(1) by blast
  show "\<exists>xs. those (map (node_of scs) (rdf_items ctx d)) = Some xs \<and> concat (map description_props xs) = all_props ctx d \<and>
      set (concat (map collectDecls xs)) \<subseteq> set (all_decls ctx)"
    using x y by (intro exI[of _ "x # onlyIf (packet_schemas ctx \<noteq> []) [y]"]) (auto simp: rdf_items_def all_props_def all_decls_def onlyIf_def)
  show "list_all item_ok (rdf_items ctx d)" "\<forall>i \<in> set (rdf_items ctx d). idepth i \<le> 8"
    using description_node(2,3)[OF ok assms(2) r] e(2,3) by (auto simp: rdf_items_def onlyIf_def)
  show "list_all is_Tag (rdf_items ctx d)" by (simp add: rdf_items_def onlyIf_def description_item_def)
qed

lemma findRdf_RDF: "isRdf n ''RDF'' \<Longrightarrow> findRdf k n = Some n"
  by (cases k) auto

lemma findRdf_first: "0 < k \<Longrightarrow> \<not> isRdf n ''RDF'' \<Longrightarrow> x_kids n = r # rs \<Longrightarrow> isRdf r ''RDF'' \<Longrightarrow> findRdf k n = Some r"
  by (cases k) (auto simp: findRdf_RDF)

lemma root_node:
  assumes "packet_ok ctx d"
  shows "\<exists>x r. node_of [] (root_item ctx d) = Some x \<and> findRdf 9 x = Some r \<and> concat (map description_props (x_kids r)) = all_props ctx d \<and>
      set (collectDecls x) \<subseteq> set (all_decls ctx)"
    and "item_ok (root_item ctx d)" "idepth (root_item ctx d) \<le> 201"
proof -
  let ?x = "[(''x'', ''adobe:ns:meta/'')]" and ?r = "[(''rdf'', kRdf)]"
  let ?ra = "[('' '', ''xmlns:rdf'', ''http://www.w3.org/1999/02/22-rdf-syntax-ns#'', [])]" and ?xa = "[('' '', ''xmlns:x'', ''adobe:ns:meta/'', [])]"
  have S: "scope_of (raw_of ?xa) = ?x" "scope_of (raw_of ?ra) = ?r" "resolve_attrs scs (raw_of ?xa) = Some []" "resolve_attrs scs (raw_of ?ra) = Some []" for scs
    by (simp_all add: raw_of_def scope_of_def starts_with_def is_decl_def kRdf_def)
  have lk: "lookup_scope ''rdf'' [?r, ?x] = Some kRdf" "lookup_scope ''x'' [?x] = Some ''adobe:ns:meta/''" by (simp_all add: lookup_scope_def)
  note n = rdf_nodes[OF assms lk(1)]
  let ?its = "Txt nl # lined 4 (rdf_items ctx d) @ [Txt (sp 2)]"
  have pad: "padded ?its (rdf_items ctx d)" "padded (Txt nl # lined 2 [rdf_item ctx d]) [rdf_item ctx d]"
    using padded_lined(1)[OF n(4)] padded_lined(2)[of "[rdf_item ctx d]"] by (simp_all add: rdf_item_def)
  obtain xs where xs: "those (map (node_of [?r, ?x]) (rdf_items ctx d)) = Some xs" "concat (map description_props xs) = all_props ctx d"
      "set (concat (map collectDecls xs)) \<subseteq> set (all_decls ctx)" using n(1) by blast
  have q: "qn ''x:xmpmeta'' ''x'' ''xmpmeta''" "qname_ok ''xmlns:rdf''" "qname_ok ''xmlns:x''"
    by (simp_all add: qn_def qname_ok_def nameStart_def nameChar_def is_lower_def)
  let ?R = "XNode kRdf ''RDF'' ''rdf'' [] ?r xs (concat (map item_text ?its))"
  have "node_of [?x] (rdf_item ctx d) = Some ?R"
    using resolve_qn[OF qn_rdf(8) lk(1)] pad(1) xs(1) by (simp add: rdf_item_def S padded_def)
  then have "node_of [] (root_item ctx d) = Some (XNode ''adobe:ns:meta/'' ''xmpmeta'' ''x'' [] ?x [?R] (concat (map item_text (Txt nl # lined 2 [rdf_item ctx d]))))"
    using resolve_qn[OF q(1) lk(2)] pad(2) by (simp add: root_item_def S padded_def)
  moreover have "findRdf 9 (XNode ''adobe:ns:meta/'' ''xmpmeta'' ''x'' [] ?x [?R] tx) = Some ?R" for tx
    by (rule findRdf_first) (simp_all add: isRdf_def)
  ultimately show "\<exists>x r. node_of [] (root_item ctx d) = Some x \<and> findRdf 9 x = Some r \<and> concat (map description_props (x_kids r)) = all_props ctx d \<and>
      set (collectDecls x) \<subseteq> set (all_decls ctx)"
    using xs(2,3) by (auto simp: all_decls_def)
  have ok: "item_ok i" if "i \<in> set ?its" for i
    using pad(1) n(2) padded_tag[OF pad(1) that] that by (cases "is_Tag i") (auto simp: padded_def list_all_iff)
  have d8: "idepth i \<le> 8" if "i \<in> set ?its" for i
    using n(3) padded_tag[OF pad(1) that] by (cases "is_Tag i") (auto simp: idepth_Txt)
  have pl: "decode ''http://www.w3.org/1999/02/22-rdf-syntax-ns#'' \<noteq> None" "decode ''adobe:ns:meta/'' \<noteq> None" by (simp_all add: decode_plain plain_def)
  have ri: "item_ok (rdf_item ctx d)"
    using ok q(2) qn_rdf(8) pl by (auto simp: rdf_item_def qn_def list_all_iff attr_ok_def is_space_def simp del: decode.simps)
  have "idepth (rdf_item ctx d) \<le> Suc 8" unfolding rdf_item_def idepth_Tag using d8 by blast
  then have "\<forall>i \<in> set (Txt nl # lined 2 [rdf_item ctx d]). idepth i \<le> 9" by (auto simp: lined_def)
  then have "idepth (root_item ctx d) \<le> Suc 9" unfolding root_item_def idepth_Tag .
  then show "idepth (root_item ctx d) \<le> 201" by simp
  show "item_ok (root_item ctx d)"
    using ri q pl by (auto simp: root_item_def lined_def qn_def attr_ok_def is_space_def simp del: decode.simps item_ok.simps(1))
qed

lemma packet_head_eq: "packet_head = ''<?'' @ drop 2 packet_head" "length packet_head = 53" "find_str ''?>'' packet_head = Some 51"
  "find_str ''<?xpacket'' packet_head = Some 0" "\<not> contains (take 51 packet_head) ''bytes=''" "\<not> contains (take 51 packet_head) ''encoding=''"
  by code_simp+

lemma skipTo_head: "skipTo ''?>'' (''<?'' @ drop 2 packet_head @ r) = Some r"
proof -
  have "''<?'' @ drop 2 packet_head @ r = packet_head @ r" using packet_head_eq(1) by simp
  then show ?thesis unfolding skipTo_def using find_str_append[OF packet_head_eq(3), of r] packet_head_eq(2) by (simp only:) simp
qed

lemma packet_tail_eq: "\<exists>w. packet_tail = w @ ''<?'' @ drop 2 (''<?xpacket end='' @ quoted_text ''w'' @ ''?>'') \<and> list_all is_space w"
  by (intro exI[of _ "concat (replicate 20 (sp 99 @ nl))"]) (simp add: packet_tail_def sp_def nl_def is_space_def list_all_iff)

lemma skipTo_tail: "skipTo ''?>'' (''<?'' @ drop 2 (''<?xpacket end='' @ quoted_text ''w'' @ ''?>'')) = Some []"
  by code_simp

lemma parse_packet_loop:
  assumes "item_ok (root_item ctx d)" "idepth (root_item ctx d) \<le> 201" "node_of [] (root_item ctx d) = Some x"
  shows "parseXml (metadata_packet ctx d) = Some x"
proof -
  let ?rest = "nl @ render (root_item ctx d) @ nl @ packet_tail"
  obtain w where w: "packet_tail = w @ ''<?'' @ drop 2 (''<?xpacket end='' @ quoted_text ''w'' @ ''?>'')" "list_all is_space w" using packet_tail_eq by blast
  have sp: "list_all is_space nl" by (simp add: nl_def is_space_def)
  have h: "metadata_packet ctx d = ''<?'' @ drop 2 packet_head @ ?rest"
    unfolding metadata_packet_render by (metis append_assoc packet_head_eq(1))
  obtain q ats its where r: "root_item ctx d = Tag q ats its" by (simp add: root_item_def)
  have "3 \<le> length (metadata_packet ctx d)" unfolding metadata_packet_render length_append packet_head_eq(2) by simp
  then obtain n where n: "length (metadata_packet ctx d) = Suc (Suc (Suc n))"
    by (metis Suc_le_D Suc_le_mono numeral_3_eq_3)
  have "parse_loop (Suc (length (metadata_packet ctx d))) None (metadata_packet ctx d) = parse_loop (Suc (Suc (Suc n))) None ?rest"
    unfolding h[THEN arg_cong[where f = "parse_loop m None" for m]] n using parse_loop_pi[OF skipTo_head] by simp
  also have "\<dots> = parse_loop (Suc (Suc n)) (Some x) packet_tail"
    unfolding parse_loop_blank[OF sp] using parse_loop_root[OF assms[unfolded r]] r by (simp add: parse_loop_blank[OF sp])
  also have "\<dots> = parse_loop (Suc n) (Some x) []"
    unfolding w(1) parse_loop_blank[OF w(2)] parse_loop_pi[OF skipTo_tail] ..
  also have "\<dots> = Some x" by (rule parse_loop_end) simp
  finally have "parse_loop (Suc (length (metadata_packet ctx d))) None (metadata_packet ctx d) = Some x" .
  moreover have "\<not> starts_with (metadata_packet ctx d) bom" unfolding h by (simp add: starts_with_def bom_def)
  ultimately show ?thesis by (simp add: parseXml_def)
qed

lemma xmpUtf8_packet: "xmpUtf8 (metadata_packet ctx d) = metadata_packet ctx d"
proof -
  have h: "metadata_packet ctx d = ''<?'' @ drop 2 packet_head @ nl @ render (root_item ctx d) @ nl @ packet_tail"
    unfolding metadata_packet_render by (metis append_assoc packet_head_eq(1))
  show ?thesis unfolding h by (simp add: xmpUtf8_def packet_width_def starts_with_def)
qed

text \<open>The properties of a packet that was written are those that were meant.\<close>

lemma parsePacket_packet:
  assumes "packet_ok ctx d"
  shows "\<exists>ds. parsePacket (metadata_packet ctx d) = \<lparr>pk_ok = True, pk_props = all_props ctx d, pk_decls = ds\<rparr> \<and> set ds \<subseteq> set (all_decls ctx)"
proof -
  obtain x r where x: "node_of [] (root_item ctx d) = Some x" "findRdf 9 x = Some r" "concat (map description_props (x_kids r)) = all_props ctx d"
    "set (collectDecls x) \<subseteq> set (all_decls ctx)"
    using root_node(1)[OF assms] by blast
  then show ?thesis using parse_packet_loop[OF root_node(2,3)[OF assms] x(1)] by (simp add: parsePacket_def)
qed

lemma header_attributes_packet: "\<not> header_attributes (metadata_packet ctx d)"
proof -
  let ?r = "nl @ render (root_item ctx d) @ nl @ packet_tail"
  have "find_from ''?>'' (packet_head @ ?r) 0 = Some 51"
    using find_str_append[OF packet_head_eq(3), of ?r] by (simp add: find_from_def)
  moreover have "substr (packet_head @ ?r) 0 (51 - 0) = take 51 packet_head" using packet_head_eq(2) by (simp add: substr_def)
  ultimately show ?thesis
    unfolding metadata_packet_render header_attributes_def find_str_append[OF packet_head_eq(4), of ?r]
    using packet_head_eq(5,6) by simp
qed

lemma wrong_prefix_packet:
  assumes "packet_ok ctx d" "set ds \<subseteq> set (all_decls ctx)"
  shows "wrong_prefix ds = None"
proof -
  have none: "first_some f xs = None \<longleftrightarrow> (\<forall>x \<in> set xs. f x = None)" for f :: "string \<times> string \<Rightarrow> string option" and xs
    by (induction xs) (auto split: option.splits)
  let ?c = "\<lambda>(px, ns). case canon ns of
         Some c \<Rightarrow> if c \<noteq> px then Some (''namespace '' @ ns @ '' is bound to the prefix '' @ px @ '' instead of '' @ c) else None
       | None \<Rightarrow> None"
  note k = canon_def kPdfaId_def kExtNs_def kSchemaNs_def kPropNs_def kTypeNs_def kFieldNs_def
  have "canon (iv_nsUri (invc ctx)) = None" if "withXml ctx"
  proof -
    have "iv_nsUri (invc ctx) \<in> {''urn:factur-x:pdfa:CrossIndustryDocument:invoice:1p0#'', ''urn:factur-x:pdfa:CrossIndustryDocument:1p0#'',
       ''urn:ferd:pdfa:CrossIndustryDocument:invoice:1p0#'', ''urn:zugferd:pdfa:CrossIndustryDocument:invoice:1p0#''}"
      using assms(1) that by (simp only: packet_ok_def invoice_ok_def simp_thms)
    then show ?thesis by (auto simp: k)
  qed
  then have "list_all (\<lambda>x. ?c x = None) (all_decls ctx)"
    by (simp add: all_decls_def packet_decls_def extension_decls_def pdf_decl_def property_decl_def kRdf_def) (simp add: k)
  then show ?thesis using assms(2) by (auto simp: wrong_prefix_def none list_all_iff)
qed

end
