(* ===== verification/Packet_Check.thy ===== *)
theory Packet_Check
  imports Packet_Read
begin

text \<open>
  The properties of a written packet against the checks of \<open>Xmp\<close>: the PDF/A check accepts every
  packet the metadata pass writes, and for PDF/A-1 it is said exactly when the document
  information written beside it agrees.
\<close>

section \<open>The PDF/A check of a written packet\<close>

definition reserved :: "string set" where
  "reserved = {kExtNs, kSchemaNs, kPropNs, kTypeNs, kFieldNs}"

lemmas ns_defs = kPdfaId_def kExtNs_def kSchemaNs_def kPropNs_def kTypeNs_def kFieldNs_def kRdf_def kDc_def kXmp_def kPdf_def kMM_def
  kPdfxId_def kPdfvtId_def kPdfeId_def

lemma prop_sels [simp]: "p_ns (text_prop u p l v) = u" "p_name (text_prop u p l v) = l" "p_kind (text_prop u p l v) = 0" "p_value (text_prop u p l v) = v"
  "p_ns (alt_prop u p l g v) = u" "p_name (alt_prop u p l g v) = l" "p_kind (alt_prop u p l g v) = 2"
  "p_ns (array_prop u p l a ps) = u" "p_name (array_prop u p l a ps) = l" "p_kind (array_prop u p l a ps) = 2" "p_arr (array_prop u p l a ps) = a" "p_kids (array_prop u p l a ps) = ps"
  "p_kind (li_struct ps) = 1" "p_kids (li_struct ps) = ps"
  by (simp_all add: text_prop_def alt_prop_def array_prop_def li_struct_def)

lemma invoice_ns:
  assumes "packet_ok ctx d" "withXml ctx"
  shows "iv_nsUri (invc ctx) \<notin> insert kPdfaId reserved"
proof -
  have "iv_nsUri (invc ctx) \<in> {''urn:factur-x:pdfa:CrossIndustryDocument:invoice:1p0#'', ''urn:factur-x:pdfa:CrossIndustryDocument:1p0#'',
       ''urn:ferd:pdfa:CrossIndustryDocument:invoice:1p0#'', ''urn:zugferd:pdfa:CrossIndustryDocument:invoice:1p0#''}"
    using assms by (simp only: packet_ok_def invoice_ok_def simp_thms)
  then show ?thesis by (auto simp: reserved_def ns_defs)
qed

lemma rest_ns:
  assumes "packet_ok ctx d"
  shows "list_all (\<lambda>p. p_ns p \<notin> insert kPdfaId reserved) (written_rest ctx d)"
proof -
  have n: "kDc \<notin> insert kPdfaId reserved" "kXmp \<notin> insert kPdfaId reserved" "kPdf \<notin> insert kPdfaId reserved" "kMM \<notin> insert kPdfaId reserved"
    "kPdfxId \<notin> insert kPdfaId reserved" "kPdfvtId \<notin> insert kPdfaId reserved" "kPdfeId \<notin> insert kPdfaId reserved"
    "''http://www.aiim.org/pdfua/ns/id/'' \<notin> insert kPdfaId reserved"
    by (simp_all add: reserved_def ns_defs)
  show ?thesis using n invoice_ns[OF assms] by (simp add: written_rest_def written_ids_def written_simple_def Let_def)
qed

lemma pdfa_ids_append:
  assumes "list_all (\<lambda>p. p_ns p \<noteq> kPdfaId) ys"
  shows "pdfa_ids (xs @ ys) = pdfa_ids xs"
proof -
  have "foldl (\<lambda>m p. if p_ns p = kPdfaId \<and> p_kind p = 0 then m(p_name p \<mapsto> trim (p_value p)) else m) m ys = m" for m :: "string \<rightharpoonup> string"
    using assms by (induction ys arbitrary: m) auto
  then show ?thesis by (simp add: pdfa_ids_def)
qed

lemma pdfa_ids_packet:
  assumes "packet_ok ctx d" "isA ctx"
  shows "pdfa_ids (all_props ctx d) = pdfa_ids (written_pdfa ctx)"
proof -
  have "kExtNs \<noteq> kPdfaId" by (simp add: ns_defs)
  then have "list_all (\<lambda>p. p_ns p \<noteq> kPdfaId) (written_rest ctx d @ onlyIf (packet_schemas ctx \<noteq> []) [schemas_prop ctx])"
    using rest_ns[OF assms(1)] by (simp add: schemas_prop_def) (simp add: list_all_iff)
  then show ?thesis unfolding all_props_def written_props_def append_assoc by (rule pdfa_ids_append)
qed

text \<open>The levels of PDF/A.\<close>

definition pdfa_level :: "'d Ctx \<Rightarrow> bool" where
  "pdfa_level ctx \<longleftrightarrow> isA ctx \<and> (part ctx, conf ctx) \<in> {(1, CHR ''A''), (1, CHR ''B''), (2, CHR ''A''), (2, CHR ''B''), (2, CHR ''U''),
     (3, CHR ''A''), (3, CHR ''B''), (3, CHR ''U''), (4, CHR 0x00), (4, CHR ''F''), (4, CHR ''E'')}"

lemma mkCtx_pdfa_level: "levelFamily (level o') = PDFA \<Longrightarrow> pdfa_level (mkCtx doc o' r)"
  by (cases "level o'") (simp_all add: level_defs pdfa_level_def mkCtx_def isA_def)

lemma part4_ids:
  assumes "isA ctx" "part ctx = 4"
  shows "id_text (pdfa_ids (written_pdfa ctx)) ''part'' = int_str (part ctx)" "id_text (pdfa_ids (written_pdfa ctx)) ''rev'' = ''2020''"
    "pdfa_ids (written_pdfa ctx) ''conformance'' = (if conf ctx = CHR ''F'' \<or> conf ctx = CHR ''E'' then Some [conf ctx] else None)"
proof -
  have t: "trim (int_str 4) = int_str 4" "trim ''2020'' = ''2020''" "trim ''F'' = ''F''" "trim ''E'' = ''E''" by code_simp+
  show "id_text (pdfa_ids (written_pdfa ctx)) ''part'' = int_str (part ctx)" "id_text (pdfa_ids (written_pdfa ctx)) ''rev'' = ''2020''"
    "pdfa_ids (written_pdfa ctx) ''conformance'' = (if conf ctx = CHR ''F'' \<or> conf ctx = CHR ''E'' then Some [conf ctx] else None)"
    using assms t by (auto simp: pdfa_ids_def written_pdfa_def onlyIf_def id_text_def)
qed

lemma early_ids:
  assumes "isA ctx" "part ctx \<in> {1, 2, 3}" "conf ctx \<in> {CHR ''A'', CHR ''B'', CHR ''U''}"
  shows "id_text (pdfa_ids (written_pdfa ctx)) ''part'' = int_str (part ctx)" "id_text (pdfa_ids (written_pdfa ctx)) ''conformance'' = [conf ctx]"
proof -
  have t: "trim (int_str 1) = int_str 1" "trim (int_str 2) = int_str 2" "trim (int_str 3) = int_str 3" "trim ''A'' = ''A''" "trim ''B'' = ''B''" "trim ''U'' = ''U''"
    by code_simp+
  show "id_text (pdfa_ids (written_pdfa ctx)) ''part'' = int_str (part ctx)" "id_text (pdfa_ids (written_pdfa ctx)) ''conformance'' = [conf ctx]"
    using assms t by (auto simp: pdfa_ids_def written_pdfa_def onlyIf_def id_text_def)
qed

lemma year_2020: "rx_match ''2020'' kYear"
  by code_simp

text \<open>What is left of the check after the identification.\<close>

lemma pdfaXmpProblem_packet:
  assumes "packet_ok ctx d" "pdfa_level ctx"
    and ty: "\<And>ds. part ctx \<noteq> 4 \<Longrightarrow> typed_problem \<lparr>pk_ok = True, pk_props = all_props ctx d, pk_decls = ds\<rparr> (part ctx) None = []"
  shows "pdfaXmpProblem (metadata_packet ctx d) (part ctx) (conf ctx) None = []"
proof -
  have A: "isA ctx" using assms(2) by (simp add: pdfa_level_def)
  obtain ds where pk: "parsePacket (metadata_packet ctx d) = \<lparr>pk_ok = True, pk_props = all_props ctx d, pk_decls = ds\<rparr>" "set ds \<subseteq> set (all_decls ctx)"
    using parsePacket_packet[OF assms(1)] by blast
  note common = xmpUtf8_packet pk(1) header_attributes_packet wrong_prefix_packet[OF assms(1) pk(2)] pdfa_ids_packet[OF assms(1) A]
  show ?thesis
  proof (cases "part ctx = 4")
    case True
    note i = part4_ids[OF A True]
    show ?thesis using i year_2020 True assms(2) by (auto simp: pdfaXmpProblem_def common part4_problem_def Let_def pdfa_level_def)
  next
    case False
    then have e: "part ctx \<in> {1, 2, 3}" "conf ctx \<in> {CHR ''A'', CHR ''B'', CHR ''U''}" using assms(2) by (auto simp: pdfa_level_def)
    then show ?thesis using early_ids[OF A e] ty[OF False] by (auto simp: pdfaXmpProblem_def common Let_def)
  qed
qed

section \<open>Value types\<close>

lemma checkType_pos:
  "0 < k \<Longrightarrow> checkType k ext p ty0 =
     (let ty = trim ty0
      in case find (starts_with ty) choices of
           Some pre \<Rightarrow> checkChoice (checkType (k - 1) ext p) p pre ty
         | None \<Rightarrow>
             if ty = ''Lang Alt'' then
               p_kind p = 2 \<and> p_arr p = ''Alt'' \<and> list_all (\<lambda>i. p_kind i = 0 \<and> p_hasLang i) (p_kids p)
             else case find (starts_with ty) arrays of
                 Some pre \<Rightarrow>
                   p_kind p = 2 \<and> p_arr p = take 3 pre \<and> list_all (\<lambda>i. checkType (k - 1) ext i (drop 4 ty)) (p_kids p)
               | None \<Rightarrow>
                   (case value_of_type ty (trim (p_value p)) of
                      Some b \<Rightarrow> p_kind p = 0 \<and> b
                    | None \<Rightarrow>
                        (case structOf ty ext of None \<Rightarrow> False | Some sd \<Rightarrow> checkStruct (checkType (k - 1) ext) p sd)))"
  by (cases k) (simp_all only: checkType.simps(2) diff_Suc_1 less_irrefl)

lemma simple_types:
  "list_all (\<lambda>ty. trim ty = ty \<and> find (starts_with ty) choices = None \<and> ty \<noteq> ''Lang Alt'' \<and> find (starts_with ty) arrays = None)
     [''Text'', ''MIMEType'', ''AgentName'', ''URI'', ''RenditionClass'', ''ProperName'', ''Integer'', ''Date'']"
  by code_simp

lemma check_texty:
  assumes "ty \<in> {''Text'', ''MIMEType'', ''AgentName'', ''URI'', ''RenditionClass'', ''ProperName''}" "0 < k" "p_kind p = 0"
  shows "checkType k ext p ty"
proof -
  have "trim ty = ty" "find (starts_with ty) choices = None" "ty \<noteq> ''Lang Alt''" "find (starts_with ty) arrays = None" using assms(1) simple_types by auto
  moreover have "value_of_type ty v = Some True" for v using assms(1) by (auto simp: value_of_type_def texty_def)
  ultimately show ?thesis using assms(2,3) by (simp add: checkType_pos Let_def)
qed

lemma check_matched:
  assumes "0 < k" "p_kind p = 0"
  shows "rx_match (trim (p_value p)) kInt \<Longrightarrow> checkType k ext p ''Integer''" "rx_match (trim (p_value p)) kDate \<Longrightarrow> checkType k ext p ''Date''"
proof -
  have s: "trim ty = ty" "find (starts_with ty) choices = None" "ty \<noteq> ''Lang Alt''" "find (starts_with ty) arrays = None" if "ty \<in> {''Integer'', ''Date''}" for ty
    using that simple_types by auto
  have v: "value_of_type ''Integer'' v = Some (rx_match v kInt)" "value_of_type ''Date'' v = Some (rx_match v kDate)" for v by (simp_all add: value_of_type_def texty_def)
  show "checkType k ext p ''Integer''" if "rx_match (trim (p_value p)) kInt" using that assms by (simp add: checkType_pos Let_def s v)
  show "checkType k ext p ''Date''" if "rx_match (trim (p_value p)) kDate" using that assms by (simp add: checkType_pos Let_def s v)
qed

subsection \<open>Patterns\<close>

lemma iso_text_match:
  assumes "date_ok d"
  shows "rx_match (iso_text d) kDate"
proof -
  note dd = digs_digits
  have zone: "rx_match (zone '':'' [] d) (Opt (Or (Ch CHR ''Z'') (Cat Sign (Cat (Rep 2 Digit) (Cat (Ch CHR '':'') (Rep 2 Digit))))))"
  proof (cases "has_zone d")
    case True
    have "rx_match ([sign_char d] @ digs 2 (d_tzh d) @ CHR '':'' # digs 2 (d_tzm d)) (Cat Sign (Cat (Rep 2 Digit) (Cat (Ch CHR '':'') (Rep 2 Digit))))"
      using sign_char_cases[of d] by (intro rx_match_Cat rx_match_Cls rx_match_Digits rx_match_Ch rx_match_Rep dd) (auto simp: dd)
    then show ?thesis using True by (simp add: zone_def rx_match_Or)
  qed (simp add: zone_def rx_match_Or rx_match_def)
  have sec: "rx_match (CHR '':'' # digs 2 (d_second d)) (Opt (Cat (Ch CHR '':'') (Cat (Rep 2 Digit) (Opt (Cat (Ch CHR ''.'') (Plus Digit))))))"
    using rx_match_Digits[OF dd(2,1), of "[]" "Opt (Cat (Ch CHR ''.'') (Plus Digit))" 2 "d_second d"]
    by (intro rx_match_Opt rx_match_Ch) (simp add: rx_match_def)
  have "rx_match (digs 4 (d_year d) @ CHR ''-'' # digs 2 (d_month d) @ CHR ''-'' # digs 2 (d_day d) @ CHR ''T'' # digs 2 (d_hour d) @ CHR '':'' #
      digs 2 (d_minute d) @ (CHR '':'' # digs 2 (d_second d)) @ zone '':'' [] d) kDate"
    unfolding kDate_def by (intro rx_match_Digits rx_match_Opt rx_match_Ch rx_match_Cat[OF sec] zone dd)
  then show ?thesis unfolding iso_text_head[OF assms] by (simp add: iso_head_def)
qed

subsection \<open>Values of the packet\<close>

lemma check_choice:
  assumes "0 < k" "trim (pre @ rest) = pre @ rest" "find (starts_with (pre @ rest)) choices = Some pre" "find_idx (\<lambda>c. c = CHR ''|'') rest = None"
    "checkType (k - 1) ext p rest"
  shows "checkType k ext p (pre @ rest)"
  using assms by (simp add: checkType_pos Let_def checkChoice_def)

lemma check_part:
  assumes "part ctx \<in> {1, 2, 3}"
  shows "check_type ext (text_prop u p l (int_str (part ctx))) ''Open Choice of Integer''"
proof -
  have "rx_match (trim (int_str 1)) kInt" "rx_match (trim (int_str 2)) kInt" "rx_match (trim (int_str 3)) kInt" by code_simp+
  then have "checkType (17 - 1) ext (text_prop u p l (int_str (part ctx))) ''Integer''" using assms by (intro check_matched(1)) auto
  moreover have "trim (''Open Choice of '' @ ''Integer'') = ''Open Choice of '' @ ''Integer''"
    "find (starts_with (''Open Choice of '' @ ''Integer'')) choices = Some ''Open Choice of ''" "find_idx (\<lambda>c. c = CHR ''|'') ''Integer'' = None" by code_simp+
  ultimately have "checkType 17 ext (text_prop u p l (int_str (part ctx))) (''Open Choice of '' @ ''Integer'')" by (intro check_choice) simp_all
  then show ?thesis by (simp add: check_type_def)
qed

lemma check_conformance:
  "c \<in> {CHR ''A'', CHR ''B''} \<Longrightarrow> check_type ext (text_prop u p l [c]) ''Closed Choice of Text|A|B''"
  "c \<in> {CHR ''A'', CHR ''B'', CHR ''U''} \<Longrightarrow> check_type ext (text_prop u p l [c]) ''Closed Choice of Text|A|B|U''"
proof -
  have t: "trim ''Closed Choice of Text|A|B'' = ''Closed Choice of Text|A|B''" "trim ''Closed Choice of Text|A|B|U'' = ''Closed Choice of Text|A|B|U''"
    "find (starts_with ''Closed Choice of Text|A|B'') choices = Some ''Closed Choice of ''" "find (starts_with ''Closed Choice of Text|A|B|U'') choices = Some ''Closed Choice of ''"
    "drop (length ''Closed Choice of '') ''Closed Choice of Text|A|B'' = ''Text|A|B''" "drop (length ''Closed Choice of '') ''Closed Choice of Text|A|B|U'' = ''Text|A|B|U''"
    "find_idx (\<lambda>c. c = CHR ''|'') ''Text|A|B'' = Some 4" "find_idx (\<lambda>c. c = CHR ''|'') ''Text|A|B|U'' = Some 4"
    "take 4 ''Text|A|B'' = ''Text''" "take 4 ''Text|A|B|U'' = ''Text''"
    "split_on CHR ''|'' (drop (4 + 1) ''Text|A|B'') = [''A'', ''B'']" "split_on CHR ''|'' (drop (4 + 1) ''Text|A|B|U'') = [''A'', ''B'', ''U'']"
    "trim ''A'' = ''A''" "trim ''B'' = ''B''" "trim ''U'' = ''U''"
    by code_simp+
  have x: "checkType (17 - 1) ext (text_prop u p l [c]) ''Text''" by (rule check_texty) simp_all
  have n: "0 < (17 :: nat)" by simp
  show "c \<in> {CHR ''A'', CHR ''B''} \<Longrightarrow> check_type ext (text_prop u p l [c]) ''Closed Choice of Text|A|B''"
    unfolding check_type_def checkType_pos[OF n] checkChoice_def Let_def t option.case using x by (auto simp: t)
  show "c \<in> {CHR ''A'', CHR ''B'', CHR ''U''} \<Longrightarrow> check_type ext (text_prop u p l [c]) ''Closed Choice of Text|A|B|U''"
    unfolding check_type_def checkType_pos[OF n] checkChoice_def Let_def t option.case using x by (auto simp: t)
qed

lemma check_lang_alt: "check_type ext (alt_prop u p l g v) ''Lang Alt''"
proof -
  have t: "trim ''Lang Alt'' = ''Lang Alt''" "find (starts_with ''Lang Alt'') choices = None" by code_simp+
  have n: "0 < (17 :: nat)" by simp
  show ?thesis unfolding check_type_def checkType_pos[OF n] Let_def t option.case by (simp add: alt_prop_def)
qed

lemma check_seq: "check_type ext (array_prop u p l ''Seq'' [text_prop u' p' l' v]) ''Seq ProperName''"
proof -
  have t: "trim ''Seq ProperName'' = ''Seq ProperName''" "find (starts_with ''Seq ProperName'') choices = None"
    "find (starts_with ''Seq ProperName'') arrays = Some ''Seq ''" "drop 4 ''Seq ProperName'' = ''ProperName''" "''Seq ProperName'' \<noteq> ''Lang Alt''" "take 3 ''Seq '' = ''Seq''"
    by code_simp+
  have n: "0 < (17 :: nat)" by simp
  have "checkType (17 - 1) ext (text_prop u' p' l' v) ''ProperName''" by (rule check_texty) simp_all
  then show ?thesis unfolding check_type_def checkType_pos[OF n] Let_def t option.case if_not_P[OF t(5)] by simp
qed

lemma iso_text_clean:
  assumes "date_ok d"
  shows "cleanText (iso_text d) = iso_text d" "trim (iso_text d) = iso_text d" "iso_text d \<noteq> []"
proof -
  have "is_digit c \<or> c \<in> {CHR ''-'', CHR '':'', CHR ''T'', CHR ''+'', CHR ''Z''}" if "c \<in> set (iso_text d)" for c
    using that sign_char_cases[of d] digs_digits(2) unfolding iso_text_head[OF assms]
    by (auto simp: iso_head_def zone_def list_all_iff split: if_splits)
  then have "\<forall>c \<in> set (iso_text d). kept_char c \<and> \<not> is_blank c"
    by (fastforce simp: kept_char_def is_blank_def is_digit_def is_space_def)
  moreover show "iso_text d \<noteq> []" unfolding iso_text_head[OF assms] by (simp add: iso_head_def)
  ultimately show "cleanText (iso_text d) = iso_text d" "trim (iso_text d) = iso_text d" by (simp_all add: cleanText_def trim_id)
qed

subsection \<open>The tables\<close>

definition blocks_a1 :: "(string \<times> (string \<times> string) list) list" where
  "blocks_a1 = common_props False @ [(kExif, [(''MakerNote'', ''Text'')]),
     (kPdfaId, [(''part'', ''Open Choice of Integer''), (''amd'', ''Open Choice of Text''), (''conformance'', ''Closed Choice of Text|A|B'')]),
     (kMM, [(''InstanceID'', ''URI'')])]"

definition blocks_a2 :: "(string \<times> (string \<times> string) list) list" where
  "blocks_a2 = common_props True @ props_2005 @
     [(kPdfaId, [(''part'', ''Open Choice of Integer''), (''amd'', ''Open Choice of Text''),
        (''conformance'', ''Closed Choice of Text|A|B|U''), (''corr'', ''Open Choice of Text'')]),
      (kXmp, [(''Rating'', ''Real'')]), (kMM, [(''InstanceID'', ''URI'')])]"

lemma prop_table_blocks: "prop_table 2 = foldl add_props [] blocks_a1" "prop_table 3 = foldl add_props [] blocks_a2"
  by (simp_all add: prop_table_def buildTables_def blocks_a1_def blocks_a2_def addXmpCommon_def Let_def numeral_2_eq_2 numeral_3_eq_3)

lemma namespaces_a1: "map fst blocks_a1 = [kDc, kXmp, kIdq, kRights, kMM, kBJ, kTPg, kPdf, kPs, kTiff, kExif, kExif, kPdfaId, kMM]"
  by (simp add: blocks_a1_def common_props_def)

definition packet_types :: "((string \<times> string) \<times> string) list" where
  "packet_types =
     [((kPdfaId, ''part''), ''Open Choice of Integer''), ((kDc, ''format''), ''MIMEType''), ((kDc, ''title''), ''Lang Alt''), ((kDc, ''creator''), ''Seq ProperName''),
      ((kDc, ''description''), ''Lang Alt''), ((kPdf, ''Keywords''), ''Text''), ((kPdf, ''Producer''), ''AgentName''), ((kXmp, ''CreatorTool''), ''AgentName''),
      ((kXmp, ''CreateDate''), ''Date''), ((kXmp, ''ModifyDate''), ''Date''), ((kXmp, ''MetadataDate''), ''Date''), ((kMM, ''DocumentID''), ''URI''),
      ((kMM, ''InstanceID''), ''URI''), ((kMM, ''VersionID''), ''Text''), ((kMM, ''RenditionClass''), ''RenditionClass'')]"

lemma blocks_have: "list_all (\<lambda>((n, k), ty). block_find blocks_a1 n k = Some ty) packet_types" "list_all (\<lambda>((n, k), ty). block_find blocks_a2 n k = Some ty) packet_types"
  by code_simp+

lemma blocks_conformance:
  "block_find blocks_a1 kPdfaId ''conformance'' = Some ''Closed Choice of Text|A|B''" "block_find blocks_a2 kPdfaId ''conformance'' = Some ''Closed Choice of Text|A|B|U''"
  by code_simp+

definition foreign :: "(string \<times> string) list" where
  "foreign = [(kPdfxId, ''GTS_PDFXVersion''), (kPdf, ''Trapped''), (''http://www.aiim.org/pdfua/ns/id/'', ''part'')]"

lemma blocks_lack: "list_all (\<lambda>(n, k). block_find blocks_a1 n k = None \<and> block_find blocks_a2 n k = None) foreign"
  by code_simp

lemma blocks_urn: "list_all (\<lambda>b. \<not> starts_with (fst b) ''urn:'') (blocks_a1 @ blocks_a2)"
  by code_simp

lemma table_packet:
  assumes "(k, ty) \<in> set packet_types" "(p_ns p, p_name p) = k"
  shows "prop_type n ext p = Some ty"
proof -
  have b: "block_find blocks_a1 (fst k) (snd k) = Some ty" "block_find blocks_a2 (fst k) (snd k) = Some ty"
    using assms(1) blocks_have by (auto simp: list_all_iff)
  then have "table_find (prop_table (if n = 1 then 2 else 3)) p = Some ty"
    using assms(2) by (cases k) (auto simp: table_find_def prop_table_blocks map_of_blocks)
  then show ?thesis by (simp add: prop_type_def)
qed

lemma table_conformance:
  assumes "p_ns p = kPdfaId" "p_name p = ''conformance''"
  shows "prop_type n ext p = Some (if n = 1 then ''Closed Choice of Text|A|B'' else ''Closed Choice of Text|A|B|U'')"
  using assms blocks_conformance by (auto simp: prop_type_def table_find_def prop_table_blocks map_of_blocks)

lemma table_foreign:
  assumes "(p_ns p, p_name p) \<in> set foreign \<or> starts_with (p_ns p) ''urn:''"
  shows "prop_type n ext p = ext_find ext p"
proof -
  have "block_find blocks_a1 (p_ns p) (p_name p) = None \<and> block_find blocks_a2 (p_ns p) (p_name p) = None"
    using assms
  proof
    assume "(p_ns p, p_name p) \<in> set foreign"
    then show ?thesis using blocks_lack by (auto simp: list_all_iff)
  next
    assume u: "starts_with (p_ns p) ''urn:''"
    have "fst b \<noteq> p_ns p" if "b \<in> set (blocks_a1 @ blocks_a2)" for b
      using blocks_urn u that unfolding list_all_iff by metis
    then have "filter (\<lambda>b. fst b = p_ns p) blocks_a1 = []" "filter (\<lambda>b. fst b = p_ns p) blocks_a2 = []"
      by (simp_all add: filter_empty_conv)
    then show ?thesis by (simp add: block_find_def)
  qed
  then have "table_find (prop_table (if n = 1 then 2 else 3)) p = None"
    by (auto simp: table_find_def prop_table_blocks map_of_blocks)
  then show ?thesis by (simp add: prop_type_def)
qed

subsection \<open>The schemas\<close>

definition schema_good :: "schema_def \<Rightarrow> bool" where
  "schema_good = (\<lambda>(nm, uri, prefix, props). trim nm \<noteq> [] \<and> uri \<noteq> [] \<and> trim uri = uri \<and> trim prefix \<noteq> [] \<and>
     list_all (\<lambda>(a, ty, cat, e). trim a = a \<and> ty \<in> {''Text'', ''Integer''} \<and> cat \<in> {''internal'', ''external''}) props)"

lemma property_fields:
  "field (property_prop (a, ty, cat, e)) kPropNs ''name'' = Some (text_prop kPropNs ''pdfaProperty'' ''name'' a)"
  "field (property_prop (a, ty, cat, e)) kPropNs ''valueType'' = Some (text_prop kPropNs ''pdfaProperty'' ''valueType'' ty)"
  "field (property_prop (a, ty, cat, e)) kPropNs ''category'' = Some (text_prop kPropNs ''pdfaProperty'' ''category'' cat)"
  "field (property_prop (a, ty, cat, e)) kPropNs ''description'' = Some (text_prop kPropNs ''pdfaProperty'' ''description'' e)"
  by (simp_all add: field_def property_prop_def)

lemma schema_fields:
  "field (schema_prop (nm, uri, prefix, props)) kSchemaNs ''schema'' = Some (text_prop kSchemaNs ''pdfaSchema'' ''schema'' nm)"
  "field (schema_prop (nm, uri, prefix, props)) kSchemaNs ''namespaceURI'' = Some (text_prop kSchemaNs ''pdfaSchema'' ''namespaceURI'' uri)"
  "field (schema_prop (nm, uri, prefix, props)) kSchemaNs ''prefix'' = Some (text_prop kSchemaNs ''pdfaSchema'' ''prefix'' prefix)"
  "field (schema_prop (nm, uri, prefix, props)) kSchemaNs ''property'' = Some (array_prop kSchemaNs ''pdfaSchema'' ''property'' ''Seq'' (map property_prop props))"
  "field (schema_prop (nm, uri, prefix, props)) kSchemaNs ''valueType'' = None"
  by (simp_all add: field_def schema_prop_def)

lemma property_prop_ok: "cat \<in> {''internal'', ''external''} \<Longrightarrow> property_ok (property_prop (a, ty, cat, e))"
proof -
  have "trim ''internal'' = ''internal''" "trim ''external'' = ''external''" by code_simp+
  moreover assume "cat \<in> {''internal'', ''external''}"
  ultimately show ?thesis
    by (auto simp: property_ok_def fields_ok_def field_value_def property_fields) (auto simp: property_prop_def)
qed

lemma schema_prop_ok: "schema_good s \<Longrightarrow> schema_ok (schema_prop s)"
proof -
  assume g: "schema_good s"
  obtain nm uri prefix props where s: "s = (nm, uri, prefix, props)" by (cases s)
  have "list_all property_ok (map property_prop props)" using g property_prop_ok by (auto simp: s schema_good_def list_all_iff)
  then show ?thesis
    using g by (simp add: s schema_ok_def schema_good_def fields_ok_def field_value_def schema_fields is_seq_def) (simp add: schema_prop_def)
qed

lemma knownType_simple: "ty \<in> {''Text'', ''Integer''} \<Longrightarrow> knownType ty e"
proof -
  have t: "trim ''Text'' = ''Text''" "trim ''Integer'' = ''Integer''" "find (starts_with ''Text'') known_prefixes = None" "find (starts_with ''Integer'') known_prefixes = None"
    by code_simp+
  assume "ty \<in> {''Text'', ''Integer''}"
  then show ?thesis by (auto simp: knownType.simps t basic_types_def)
qed

lemma validate_schemas:
  assumes "list_all schema_good (packet_schemas ctx)"
  shows "validate_prop None (schemas_prop ctx)"
proof -
  have "list_all (\<lambda>d. knownType (field_value d kPropNs ''valueType'') e) (schema_properties (schema_prop s))" if "s \<in> set (packet_schemas ctx)" for s e
  proof -
    obtain nm uri prefix props where s: "s = (nm, uri, prefix, props)" by (cases s)
    have "schema_good s" using assms that by (simp add: list_all_iff)
    then have ty: "list_all (\<lambda>(a, ty, cat, e). ty \<in> {''Text'', ''Integer''}) props" by (auto simp: s schema_good_def list_all_iff)
    have "knownType (field_value (property_prop q) kPropNs ''valueType'') e" if "q \<in> set props" for q
    proof -
      obtain a ty cat g where q: "q = (a, ty, cat, g)" by (cases q)
      show ?thesis using ty that unfolding q field_value_def property_fields option.case prop_sels
        by (intro knownType_simple) (auto simp: list_all_iff)
    qed
    then show ?thesis by (simp add: s schema_properties_def schema_fields list_all_iff)
  qed
  then show ?thesis
    using assms schema_prop_ok by (simp add: validate_prop_def schemas_prop_def list_all_iff Let_def)
qed

lemma packet_schemas_good:
  assumes "packet_ok ctx d"
  shows "list_all schema_good (packet_schemas ctx)"
proof -
  have "schema_good ua_schema" "schema_good x_schema" "schema_good trapped_schema" by code_simp+
  moreover have "schema_good (fx_schema v)" if "invoice_ok v" for v
  proof -
    let ?L = "[''fx'', ''zf'', ''urn:factur-x:pdfa:CrossIndustryDocument:invoice:1p0#'', ''urn:factur-x:pdfa:CrossIndustryDocument:1p0#'',
       ''urn:ferd:pdfa:CrossIndustryDocument:invoice:1p0#'', ''urn:zugferd:pdfa:CrossIndustryDocument:invoice:1p0#'',
       ''Factur-X PDFA Extension Schema'', ''ZUGFeRD PDFA Extension Schema'', ''DocumentFileName'', ''DocumentType'', ''Version'', ''ConformanceLevel'']"
    have "list_all (\<lambda>u. trim u = u \<and> u \<noteq> []) ?L" by code_simp
    then have t: "trim u = u" "u \<noteq> []" if "u \<in> set ?L" for u using that unfolding list_all_iff by metis+
    have "iv_prefix v \<in> set ?L" "iv_nsUri v \<in> set ?L" "iv_schemaName v \<in> set ?L" using invoice_parts[OF that] by auto
    note f = t[OF this(1)] t[OF this(2)] t[OF this(3)]
    have "trim ''DocumentFileName'' = ''DocumentFileName''" "trim ''DocumentType'' = ''DocumentType''" "trim ''Version'' = ''Version''"
      "trim ''ConformanceLevel'' = ''ConformanceLevel''" by (rule t(1), simp)+
    then show ?thesis using f by (simp add: schema_good_def fx_schema_def)
  qed
  ultimately show ?thesis using assms by (simp add: packet_schemas_def packet_ok_def)
qed

subsection \<open>What the schemas describe\<close>

definition described :: "xprop_def list \<Rightarrow> FieldMap" where
  "described props = map_of (rev (map (\<lambda>p. (fst p, fst (snd p))) props))"

lemma collect_properties_prop:
  assumes "schema_good (nm, uri, prefix, props)"
  shows "collect_properties (schema_prop (nm, uri, prefix, props)) fm = fm ++ described props"
proof -
  have "list_all (\<lambda>(a, ty, cat, e). trim a = a) props" using assms by (auto simp: schema_good_def list_all_iff)
  then have "foldl (\<lambda>fm d. case field d kPropNs ''name'' of
                     None \<Rightarrow> fm | Some n \<Rightarrow> fm(trim (p_value n) \<mapsto> opt_value (field d kPropNs ''valueType''))) fm (map property_prop props) =
      fm ++ described props" for fm :: FieldMap
    by (induction props arbitrary: fm) (auto simp: described_def property_fields opt_value_def)
  then show ?thesis by (simp add: collect_properties_def schema_properties_def schema_fields)
qed

lemma collect_schema_prop:
  assumes "schema_good (nm, uri, prefix, props)"
  shows "ext_props (collect_schema e (schema_prop (nm, uri, prefix, props))) =
    (ext_props e)(uri \<mapsto> (case ext_props e uri of Some m \<Rightarrow> m | None \<Rightarrow> Map.empty) ++ described props)"
proof -
  have "trim uri = uri" using assms by (simp add: schema_good_def)
  then show ?thesis by (simp add: collect_schema_def schema_fields collect_properties_prop[OF assms] Let_def)
qed

abbreviation uri_of :: "schema_def \<Rightarrow> string" where
  "uri_of s \<equiv> fst (snd s)"

lemma collect_schemas_other:
  "list_all schema_good ss \<Longrightarrow> u \<notin> set (map uri_of ss) \<Longrightarrow> ext_props (foldl collect_schema e (map schema_prop ss)) u = ext_props e u"
proof (induction ss arbitrary: e)
  case (Cons s ss)
  then show ?case by (cases s) (simp add: collect_schema_prop)
qed simp

lemma collect_schemas:
  assumes "list_all schema_good ss" "distinct (map uri_of ss)" "(nm, uri, prefix, props) \<in> set ss" "ext_props e uri = None"
  shows "ext_props (foldl collect_schema e (map schema_prop ss)) uri = Some (described props)"
  using assms
proof (induction ss arbitrary: e)
  case (Cons s ss)
  obtain nm' uri' prefix' props' where s: "s = (nm', uri', prefix', props')" by (cases s)
  have g: "schema_good (nm', uri', prefix', props')" "list_all schema_good ss" "uri' \<notin> set (map uri_of ss)" using Cons.prems(1,2) by (auto simp: s)
  show ?case
  proof (cases "(nm, uri, prefix, props) = s")
    case True
    then show ?thesis
      using collect_schemas_other[OF g(2), of uri "collect_schema e (schema_prop s)"] g(1,3) Cons.prems(4) by (simp add: s collect_schema_prop)
  next
    case False
    then have m: "(nm, uri, prefix, props) \<in> set ss" using Cons.prems(3) by simp
    then have "uri \<noteq> uri'" using g(3) by force
    then show ?thesis using Cons.IH[OF g(2) _ m, of "collect_schema e (schema_prop s)"] Cons.prems(2,4) g(1) by (simp add: s collect_schema_prop)
  qed
qed simp

lemma packet_schemas_distinct:
  assumes "packet_ok ctx d"
  shows "distinct (map uri_of (packet_schemas ctx))"
proof -
  have "iv_nsUri (invc ctx) \<notin> {''http://www.aiim.org/pdfua/ns/id/'', ''http://www.npes.org/pdfx/ns/id/'', ''http://ns.adobe.com/pdf/1.3/''}" if "withXml ctx"
    using invoice_parts(2)[of "invc ctx"] assms that unfolding packet_ok_def by auto
  then show ?thesis
    by (auto simp: packet_schemas_def onlyIf_map ua_schema_def x_schema_def trapped_schema_def fx_schema_def)
qed

lemma collectExt_packet:
  assumes "packet_ok ctx d"
  shows "collectExt \<lparr>pk_ok = True, pk_props = all_props ctx d, pk_decls = ds\<rparr> e = foldl collect_schema e (map schema_prop (packet_schemas ctx))"
proof -
  let ?f = "\<lambda>e p. if p_ns p \<noteq> kExtNs \<or> p_name p \<noteq> ''schemas'' \<or> p_kind p \<noteq> 2 then e else foldl collect_schema e (p_kids p)"
  have skip: "foldl ?f e ps = e" if "list_all (\<lambda>p. p_ns p \<noteq> kExtNs) ps" for e ps using that by (induction ps) auto
  have "kPdfaId \<noteq> kExtNs" by (simp add: ns_defs)
  then have "list_all (\<lambda>p. p_ns p \<noteq> kExtNs) (written_props ctx d)"
    using rest_ns[OF assms] by (simp add: written_props_def written_pdfa_def) (simp add: list_all_iff reserved_def)
  from skip[OF this] show ?thesis
    unfolding collectExt_def all_props_def XPacket.select_convs foldl_append by (simp only:) (simp add: onlyIf_def schemas_prop_def)
qed

lemma described_packet:
  assumes "packet_ok ctx d" "s \<in> set (packet_schemas ctx)" "p_ns p = uri_of s"
  shows "ext_find (foldl collect_schema ExtDefs0 (map schema_prop (packet_schemas ctx))) p = described (snd (snd (snd s))) (p_name p)"
proof -
  obtain nm uri prefix props where s: "s = (nm, uri, prefix, props)" by (cases s)
  show ?thesis
    using collect_schemas[OF packet_schemas_good[OF assms(1)] packet_schemas_distinct[OF assms(1)] assms(2)[unfolded s], of ExtDefs0] assms(3)
    by (simp add: s ext_find_def ExtDefs0_def)
qed

lemma validate_packet:
  assumes "packet_ok ctx d"
  shows "validateExt \<lparr>pk_ok = True, pk_props = all_props ctx d, pk_decls = ds\<rparr> None"
proof -
  have "kPdfaId \<notin> reserved" by (simp add: reserved_def ns_defs)
  then have "list_all (validate_prop None) (written_pdfa ctx)"
    by (simp add: written_pdfa_def validate_prop_def reserved_def)
  moreover have "list_all (validate_prop None) (written_rest ctx d)"
    using rest_ns[OF assms] by (auto simp: list_all_iff validate_prop_def reserved_def)
  ultimately show ?thesis
    using validate_schemas[OF packet_schemas_good[OF assms]] by (simp add: validateExt_def all_props_def written_props_def)
qed

lemma no_problem: "prop_type n ext p = Some ty \<Longrightarrow> check_type (Some ext) p ty \<Longrightarrow> prop_problem n ext p = None"
  by (simp add: prop_problem_def)

lemma no_problem_text:
  assumes "prop_type n ext p = Some ty" "ty \<in> {''Text'', ''MIMEType'', ''AgentName'', ''URI'', ''RenditionClass'', ''ProperName''}" "p_kind p = 0"
  shows "prop_problem n ext p = None"
  using assms check_texty[of ty 17 p "Some ext"] by (intro no_problem) (simp_all add: check_type_def)

definition iso_or_empty :: "string \<Rightarrow> bool" where
  "iso_or_empty s \<longleftrightarrow> s = [] \<or> (\<exists>x. date_ok x \<and> s = iso_text x)"

lemma no_problem_date:
  assumes "prop_type n ext (text_prop u p l (cleanText v)) = Some ''Date''" "iso_or_empty v" "v \<noteq> []"
  shows "prop_problem n ext (text_prop u p l (cleanText v)) = None"
proof -
  obtain x where "date_ok x" "v = iso_text x" using assms(2,3) by (auto simp: iso_or_empty_def)
  then have "rx_match (trim (cleanText v)) kDate" using iso_text_clean iso_text_match by simp
  then have "check_type (Some ext) (text_prop u p l (cleanText v)) ''Date''" unfolding check_type_def by (intro check_matched(2)) simp_all
  with assms(1) show ?thesis by (rule no_problem)
qed

lemma problem_free_simple:
  assumes "iso_or_empty (i_createIso d)" "iso_or_empty (i_modifyIso d)"
  shows "list_all (\<lambda>p. prop_problem n ext p = None) (written_simple ctx d)"
proof -
  have ty: "((kPdf, ''Keywords''), ''Text'') \<in> set packet_types" "((kPdf, ''Producer''), ''AgentName'') \<in> set packet_types" "((kXmp, ''CreatorTool''), ''AgentName'') \<in> set packet_types"
      "((kXmp, ''CreateDate''), ''Date'') \<in> set packet_types" "((kXmp, ''ModifyDate''), ''Date'') \<in> set packet_types" "((kXmp, ''MetadataDate''), ''Date'') \<in> set packet_types"
      "((kMM, ''DocumentID''), ''URI'') \<in> set packet_types" "((kMM, ''InstanceID''), ''URI'') \<in> set packet_types" "((kMM, ''VersionID''), ''Text'') \<in> set packet_types"
      "((kMM, ''RenditionClass''), ''RenditionClass'') \<in> set packet_types" by (simp_all add: packet_types_def)
  note tt = ty[THEN table_packet]
  have t: "prop_problem n ext (text_prop kPdf ''pdf'' ''Keywords'' v) = None" "prop_problem n ext (text_prop kPdf ''pdf'' ''Producer'' v) = None"
    "prop_problem n ext (text_prop kXmp ''xmp'' ''CreatorTool'' v) = None" "prop_problem n ext (text_prop kMM ''xmpMM'' ''DocumentID'' v) = None"
    "prop_problem n ext (text_prop kMM ''xmpMM'' ''InstanceID'' v) = None" "prop_problem n ext (text_prop kMM ''xmpMM'' ''VersionID'' v) = None"
    "prop_problem n ext (text_prop kMM ''xmpMM'' ''RenditionClass'' v) = None" for v
    by (rule no_problem_text, rule tt, simp_all)+
  have dt: "v \<noteq> [] \<Longrightarrow> prop_problem n ext (text_prop kXmp ''xmp'' l (cleanText v)) = None" if "iso_or_empty v" "l \<in> {''CreateDate'', ''ModifyDate'', ''MetadataDate''}" for v l
  proof (rule no_problem_date)
    have "((kXmp, l), ''Date'') \<in> set packet_types" using that(2) ty by auto
    then show "prop_type n ext (text_prop kXmp ''xmp'' l (cleanText v)) = Some ''Date''" by (rule table_packet) simp
  qed (use that(1) in auto)
  show ?thesis unfolding written_simple_def Let_def using dt[OF assms(1)] dt[OF assms(2)] by (simp add: t)
qed

lemma problem_free_pdfa:
  assumes "pdfa_level ctx" "part ctx \<noteq> 4"
  shows "list_all (\<lambda>p. prop_problem (part ctx) ext p = None) (written_pdfa ctx)"
proof -
  have n: "part ctx \<in> {1, 2, 3}" "\<not> part ctx \<ge> 4" using assms by (auto simp: pdfa_level_def)
  have "((kPdfaId, ''part''), ''Open Choice of Integer'') \<in> set packet_types" by (simp add: packet_types_def)
  then have "prop_problem (part ctx) ext (text_prop kPdfaId ''pdfaid'' ''part'' (int_str (part ctx))) = None"
    using check_part[OF n(1)] by (intro no_problem table_packet) simp_all
  moreover have "prop_problem (part ctx) ext (text_prop kPdfaId ''pdfaid'' ''conformance'' [conf ctx]) = None"
    using assms by (intro no_problem[OF table_conformance]) (auto simp: pdfa_level_def intro: check_conformance)
  ultimately show ?thesis using n(2) by (simp add: written_pdfa_def)
qed

lemma schema_described:
  "described (snd (snd (snd ua_schema))) ''part'' = Some ''Integer''" "described (snd (snd (snd x_schema))) ''GTS_PDFXVersion'' = Some ''Text''"
  "described (snd (snd (snd trapped_schema))) ''Trapped'' = Some ''Text''"
  "l \<in> {''DocumentFileName'', ''DocumentType'', ''Version'', ''ConformanceLevel''} \<Longrightarrow> described (snd (snd (snd (fx_schema v)))) l = Some ''Text''"
  by (auto simp: described_def ua_schema_def x_schema_def trapped_schema_def fx_schema_def)

lemma problem_free_ids:
  assumes "packet_ok ctx d" "pdfa_level ctx" "part ctx \<noteq> 4"
  defines "ext \<equiv> foldl collect_schema ExtDefs0 (map schema_prop (packet_schemas ctx))"
  shows "list_all (\<lambda>p. prop_problem (part ctx) ext p = None) (written_ids ctx d)"
proof -
  have n: "part ctx \<le> 3" "isA ctx" "\<not> isX ctx" "\<not> isVT ctx" "\<not> isE ctx" "\<not> ua2 ctx"
    using assms(2,3) by (auto simp: pdfa_level_def isA_def isX_def isVT_def isE_def ua2_def)
  have ft: "prop_type (part ctx) ext p = Some ty"
    if "(p_ns p, p_name p) \<in> set foreign \<or> starts_with (p_ns p) ''urn:''" "s \<in> set (packet_schemas ctx)" "p_ns p = uri_of s" "described (snd (snd (snd s))) (p_name p) = Some ty" for p s ty
    using table_foreign[OF that(1)] described_packet[OF assms(1) that(2,3)] that(4) unfolding ext_def by simp
  have ua: "prop_problem (part ctx) ext (text_prop ''http://www.aiim.org/pdfua/ns/id/'' ''pdfuaid'' ''part'' ''1'') = None" if "ua (opt ctx)"
  proof (rule no_problem)
    show "prop_type (part ctx) ext (text_prop ''http://www.aiim.org/pdfua/ns/id/'' ''pdfuaid'' ''part'' ''1'') = Some ''Integer''"
      using that n schema_described(1) by (intro ft[of _ ua_schema]) (simp_all add: foreign_def packet_schemas_def, simp_all add: ua_schema_def)
    have "rx_match (trim ''1'') kInt" by code_simp
    then show "check_type (Some ext) (text_prop ''http://www.aiim.org/pdfua/ns/id/'' ''pdfuaid'' ''part'' ''1'') ''Integer''"
      unfolding check_type_def by (intro check_matched(1)) simp_all
  qed
  have px: "prop_problem (part ctx) ext (text_prop kPdfxId ''pdfxid'' ''GTS_PDFXVersion'' v) = None" "prop_problem (part ctx) ext (text_prop kPdf ''pdf'' ''Trapped'' v) = None"
    if "isPrint ctx" for v
  proof -
    have s: "x_schema \<in> set (packet_schemas ctx)" "trapped_schema \<in> set (packet_schemas ctx)" using that n by (simp_all add: packet_schemas_def isPrint_def)
    have u: "uri_of x_schema = kPdfxId" "uri_of trapped_schema = kPdf" by (simp_all add: x_schema_def trapped_schema_def kPdfxId_def kPdf_def)
    show "prop_problem (part ctx) ext (text_prop kPdfxId ''pdfxid'' ''GTS_PDFXVersion'' v) = None"
      by (rule no_problem_text[OF ft[OF _ s(1), where ty = "''Text''"]]) (simp_all add: u schema_described foreign_def)
    show "prop_problem (part ctx) ext (text_prop kPdf ''pdf'' ''Trapped'' v) = None"
      by (rule no_problem_text[OF ft[OF _ s(2), where ty = "''Text''"]]) (simp_all add: u schema_described foreign_def)
  qed
  have fx: "prop_problem (part ctx) ext (text_prop (iv_nsUri (invc ctx)) px l v) = None"
    if "withXml ctx" "l \<in> {''DocumentFileName'', ''DocumentType'', ''Version'', ''ConformanceLevel''}" for l v px
  proof -
    have s: "fx_schema (invc ctx) \<in> set (packet_schemas ctx)" using that n by (simp add: packet_schemas_def)
    have "starts_with (iv_nsUri (invc ctx)) ''urn:''" using invoice_parts(2)[of "invc ctx"] assms(1) that(1) by (auto simp: packet_ok_def starts_with_def)
    then show ?thesis
      using schema_described(4)[OF that(2)] by (intro no_problem_text[OF ft[OF _ s, where ty = "''Text''"]]) (simp_all, simp add: fx_schema_def)
  qed
  have fm: "((kDc, ''format''), ''MIMEType'') \<in> set packet_types" by (simp add: packet_types_def)
  have "prop_problem (part ctx) ext (text_prop kDc ''dc'' ''format'' ''application/pdf'') = None" by (rule no_problem_text[OF table_packet[OF fm]]) simp_all
  then show ?thesis using n ua px fx by (simp add: written_ids_def Let_def)
qed

lemma typed_packet:
  assumes "packet_ok ctx d" "pdfa_level ctx" "part ctx \<noteq> 4" "iso_or_empty (i_createIso d)" "iso_or_empty (i_modifyIso d)"
  shows "typed_problem \<lparr>pk_ok = True, pk_props = all_props ctx d, pk_decls = ds\<rparr> (part ctx) None = []"
proof -
  let ?ext = "foldl collect_schema ExtDefs0 (map schema_prop (packet_schemas ctx))"
  have "((kDc, ''title''), ''Lang Alt'') \<in> set packet_types" "((kDc, ''description''), ''Lang Alt'') \<in> set packet_types" "((kDc, ''creator''), ''Seq ProperName'') \<in> set packet_types"
    by (simp_all add: packet_types_def)
  note t = this[THEN table_packet]
  have "prop_problem (part ctx) ?ext (alt_prop kDc ''dc'' l g v) = None" if "l \<in> {''title'', ''description''}" for l g v
    using that t by (intro no_problem[OF _ check_lang_alt]) auto
  moreover have "prop_problem (part ctx) ?ext (array_prop kDc ''dc'' ''creator'' ''Seq'' [text_prop u p l v]) = None" for u p l v
    by (rule no_problem[OF t(3) check_seq]) simp
  moreover have "prop_problem (part ctx) ?ext (schemas_prop ctx) = None" by (simp add: prop_problem_def schemas_prop_def)
  ultimately have "list_all (\<lambda>p. prop_problem (part ctx) ?ext p = None) (all_props ctx d)"
    using problem_free_pdfa[OF assms(2,3)] problem_free_ids[OF assms(1-3)] problem_free_simple[OF assms(4,5)]
    by (simp add: all_props_def written_props_def written_rest_def)
  moreover have "first_some f ps = None" if "list_all (\<lambda>p. f p = None) ps" for f :: "XProp \<Rightarrow> string option" and ps using that by (induction ps) auto
  ultimately show ?thesis
    using validate_packet[OF assms(1), of ds] collectExt_packet[OF assms(1), of ds ExtDefs0] by (simp add: typed_problem_def Let_def)
qed

lemma packet_accepted:
  assumes "packet_ok ctx d" "pdfa_level ctx" "part ctx \<noteq> 4 \<Longrightarrow> iso_or_empty (i_createIso d) \<and> iso_or_empty (i_modifyIso d)"
  shows "pdfaXmpProblem (metadata_packet ctx d) (part ctx) (conf ctx) None = []"
  using assms by (intro pdfaXmpProblem_packet typed_packet) auto

section \<open>What the pass keeps and collects\<close>

definition made_for_level :: "'d Ctx \<Rightarrow> bool" where
  "made_for_level ctx \<longleftrightarrow> part ctx = levelPart (level (opt ctx)) \<and> conf ctx = levelConformance (level (opt ctx)) \<and> fam ctx = levelFamily (level (opt ctx)) \<and>
     (attachXml (opt ctx) \<noteq> [] \<longrightarrow> invc ctx = detectInvoice (attachXml (opt ctx)) (facturxProfile (opt ctx)) (attachXmlName (opt ctx)))"

definition same_run :: "'d Ctx \<Rightarrow> 'd Ctx \<Rightarrow> bool" where
  "same_run ctx ctx' \<longleftrightarrow> opt ctx' = opt ctx \<and> part ctx' = part ctx \<and> conf ctx' = conf ctx \<and> fam ctx' = fam ctx \<and> invc ctx' = invc ctx"

lemma same_run_refl [simp]: "same_run ctx ctx"
  by (simp add: same_run_def)

lemma same_run_issue [simp]: "same_run ctx (issue c x f ctx') \<longleftrightarrow> same_run ctx ctx'" "same_run (issue c x f ctx) ctx' \<longleftrightarrow> same_run ctx ctx'"
  by (simp_all add: same_run_def issue_def Let_def)

lemma same_run_trans: "same_run a b \<Longrightarrow> same_run b c \<Longrightarrow> same_run a c"
  by (simp add: same_run_def)

lemma same_run_if [simp]: "same_run ctx a \<Longrightarrow> same_run ctx b \<Longrightarrow> same_run ctx (if x then a else b)"
  by simp

lemma print_required_run: "print_required i (d, cl, ctx) = (d', cl', ctx') \<Longrightarrow> same_run ctx ctx'"
  by (auto simp: print_required_def Let_def split: if_splits)

lemma print_versions_run [simp]: "same_run a (print_versions i ctx) \<longleftrightarrow> same_run a ctx" "same_run (print_versions i ctx) a \<longleftrightarrow> same_run ctx a"
  by (simp_all add: print_versions_def version_issue_def Let_def)

lemma reduced_info_run: "reduced_info i d c ctx = (act, ctx') \<Longrightarrow> same_run ctx ctx'"
  by (auto simp: reduced_info_def Let_def split: if_splits)

lemma print_info_run: "print_info i ctx = (d, act, ctx') \<Longrightarrow> same_run ctx ctx'"
  unfolding print_info_def Let_def
  by (auto split: prod.splits if_splits dest!: print_required_run reduced_info_run intro: same_run_trans)

lemma part4_info_run: "part4_info i ctx = (d, act, b, ctx') \<Longrightarrow> same_run ctx ctx'"
  by (auto simp: part4_info_def Let_def split: if_splits)

lemma collectInfo_run: "collectInfo i ctx = (d, act, b, ctx') \<Longrightarrow> same_run ctx ctx'"
  unfolding collectInfo_def Let_def
  by (auto split: prod.splits if_splits dest!: print_info_run part4_info_run intro: same_run_trans)

lemma check_metadata_run: "same_run ctx (check_metadata md ctx)"
  by (simp add: check_metadata_def Let_def)

subsection \<open>The collected values\<close>

lemma iso_of_date: "iso_or_empty (iso_of (info_date i k))"
  using read_date_ok by (auto simp: info_date_def iso_of_def iso_or_empty_def parseDateFlexible_def split: option.splits)

lemma iso_now: "iso_or_empty (or_else (pdfDateToIso s) [])"
  using read_date_ok by (auto simp: pdfDateToIso_def or_else_def iso_or_empty_def parseDateFlexible_def split: option.splits)

definition dates_iso :: "InfoData \<Rightarrow> bool" where
  "dates_iso d \<longleftrightarrow> iso_or_empty (i_createIso d) \<and> iso_or_empty (i_modifyIso d)"

lemma info_data_iso: "dates_iso (info_data i)"
  by (simp add: dates_iso_def info_data_def iso_of_date)

lemma print_required_iso: "print_required i (d, cl, ctx) = (d', cl', ctx') \<Longrightarrow> dates_iso d \<Longrightarrow> dates_iso d'"
  using iso_now[of "di_now i"] by (auto simp: print_required_def Let_def dates_iso_def split: if_splits)

lemma print_required_trapped: "print_required i (d, cl, ctx) = (d', cl', ctx') \<Longrightarrow> i_trapped d' = i_trapped d"
  by (auto simp: print_required_def Let_def split: if_splits)

lemma plain_trapped: "plain ''True''" "plain ''False''" "plain []"
  by (simp_all add: plain_def)

lemma info_data_trapped: "i_trapped (info_data i) = []" "i_trapped (from_xmp i d) = i_trapped d"
  by (simp_all add: info_data_def InfoData0_def from_xmp_def Let_def)

lemma print_info_values:
  assumes "print_info i ctx = (d, act, ctx')"
  shows "plain (i_trapped d)" "\<not> x20 ctx \<Longrightarrow> dates_iso d"
proof -
  obtain d1 cl ctx1 where r: "print_required i (if x20 ctx then from_xmp i (info_data i) else info_data i, clean_info i, ctx) = (d1, cl, ctx1)"
    by (metis prod_cases3)
  have "i_trapped d1 = []" using print_required_trapped[OF r] by (simp add: info_data_trapped)
  then show "plain (i_trapped d)"
    using assms plain_trapped unfolding print_info_def Let_def r by (auto split: if_splits prod.splits)
  show "dates_iso d" if "\<not> x20 ctx"
  proof -
    have "dates_iso d1" using print_required_iso[OF r] that info_data_iso by simp
    then show ?thesis using assms unfolding print_info_def Let_def r by (auto simp: dates_iso_def split: if_splits prod.splits)
  qed
qed

lemma collectInfo_values:
  assumes "collectInfo i ctx = (d, act, b, ctx')"
  shows "plain (i_trapped d)" "\<not> x20 ctx \<Longrightarrow> dates_iso d"
proof -
  have x: "x20 (issue c x f ctx) = x20 ctx" for c x f by (simp add: x20_def issue_def Let_def pdf20Print_def dualX_def)
  have e: "dates_iso InfoData0" by (simp add: dates_iso_def InfoData0_def iso_or_empty_def)
  have t: "plain (i_trapped InfoData0)" "plain (i_trapped (info_data j))" for j using info_data_trapped plain_trapped by (simp_all add: InfoData0_def)
  have p4: "part4_info j c = (d', a', b', c') \<Longrightarrow> d' = info_data j" for j c d' a' b' c'
    by (auto simp: part4_info_def Let_def split: if_splits)
  show "plain (i_trapped d)"
    using assms t unfolding collectInfo_def Let_def by (auto split: if_splits prod.splits dest!: p4 print_info_values(1))
  show "dates_iso d" if "\<not> x20 ctx"
    using assms that e info_data_iso unfolding collectInfo_def Let_def by (auto simp: x split: if_splits prod.splits dest!: p4 print_info_values(2))
qed

section \<open>The pass writes metadata that passes the check\<close>

lemma made_for_level_run: "made_for_level ctx \<Longrightarrow> same_run ctx ctx' \<Longrightarrow> made_for_level ctx'"
  by (simp add: made_for_level_def same_run_def)

lemma made_for_level_pdfa:
  assumes "made_for_level ctx" "fam ctx = PDFA"
  shows "pdfa_level ctx" "part ctx \<noteq> 4 \<Longrightarrow> \<not> x20 ctx"
proof -
  have "levelFamily (level (opt ctx)) = PDFA" using assms by (simp add: made_for_level_def)
  then show "pdfa_level ctx" "part ctx \<noteq> 4 \<Longrightarrow> \<not> x20 ctx"
    using assms by (cases "level (opt ctx)"; simp add: level_defs made_for_level_def pdfa_level_def isA_def x20_def pdf20Print_def dualX_def)+
qed

lemma packet_ok_collected:
  assumes "made_for_level ctx" "fam ctx = PDFA" "collectInfo i ctx0 = (d, act, b, ctx)"
  shows "packet_ok ctx d"
proof -
  have "plain [conf ctx]" using made_for_level_pdfa(1)[OF assms(1,2)] by (auto simp: pdfa_level_def plain_def)
  then show ?thesis
    using assms(1) collectInfo_values(1)[OF assms(3)] detectInvoice_ok by (auto simp: packet_ok_def withXml_def made_for_level_def)
qed

lemma passMetadata_collected:
  assumes "made_for_level ctx0" "fam ctx0 = PDFA"
  shows "\<exists>d act b ctx. collectInfo (md_info md) (check_metadata md ctx0) = (d, act, b, ctx) \<and> same_run ctx0 ctx \<and> packet_ok ctx d \<and> pdfa_level ctx \<and>
    (part ctx \<noteq> 4 \<longrightarrow> dates_iso d) \<and>
    fst (passMetadata md ctx0) = \<lparr>mo_packet = metadata_packet ctx d, mo_info = d, mo_action = act, mo_pieceRemoved = b\<rparr>"
proof -
  obtain d act b ctx where c: "collectInfo (md_info md) (check_metadata md ctx0) = (d, act, b, ctx)" by (metis prod_cases4)
  note r1 = check_metadata_run[of ctx0 md]
  have r: "same_run ctx0 ctx" using same_run_trans[OF r1 collectInfo_run[OF c]] .
  then have m: "made_for_level ctx" "fam ctx = PDFA" using made_for_level_run[OF assms(1)] assms(2) by (auto simp: same_run_def)
  have m1: "made_for_level (check_metadata md ctx0)" "fam (check_metadata md ctx0) = PDFA"
    using made_for_level_run[OF assms(1) r1] r1 assms(2) by (auto simp: same_run_def)
  have "part ctx \<noteq> 4 \<longrightarrow> dates_iso d"
    using made_for_level_pdfa(2)[OF m1] collectInfo_values(2)[OF c] r1 r by (auto simp: same_run_def)
  then show ?thesis using c r packet_ok_collected[OF m c] made_for_level_pdfa(1)[OF m] by (auto simp: passMetadata_def)
qed

text \<open>
  C5. The metadata pass conforms to its own check: for every document and every PDF/A level, with
  or without PDF/UA, PDF/X and an attached invoice, the packet the pass writes is well-formed,
  carries the identification of the level, uses the prescribed prefixes, describes every
  property outside the predefined schemas, and every value has its type.
\<close>

theorem passMetadata_conforms:
  assumes "made_for_level ctx" "fam ctx = PDFA"
  shows "pdfaXmpProblem (mo_packet (fst (passMetadata md ctx))) (part ctx) (conf ctx) None = []"
proof -
  obtain d act b ctx' where c: "same_run ctx ctx'" "packet_ok ctx' d" "pdfa_level ctx'" "part ctx' \<noteq> 4 \<longrightarrow> dates_iso d"
    "fst (passMetadata md ctx) = \<lparr>mo_packet = metadata_packet ctx' d, mo_info = d, mo_action = act, mo_pieceRemoved = b\<rparr>"
    using passMetadata_collected[OF assms] by blast
  then show ?thesis using packet_accepted[OF c(2,3)] by (simp add: dates_iso_def same_run_def)
qed

section \<open>PDF/A-1: the information and the packet\<close>

text \<open>
  The document as \<^verbatim>\<open>passMetadata\<close> leaves it, as the check of the metadata reads it: the packet
  in the catalog and the document information as the pass set it. Passes that run later, such as
  the limits, which shorten long strings, are not part of it.
\<close>

definition written_info :: "docinfo \<Rightarrow> info_action \<Rightarrow> docinfo" where
  "written_info i act =
     (case act of
        InfoKept \<Rightarrow> i
      | InfoRemoved \<Rightarrow> i\<lparr>di_dict := False, di_null := True, di_keys := [], di_text := Map.empty\<rparr>
      | InfoSet es \<Rightarrow> i\<lparr>di_dict := True, di_null := False, di_keys := map fst es, di_text := map_of es\<rparr>)"

definition written_doc :: "metadata_doc \<Rightarrow> metadata_out \<Rightarrow> metadata_doc" where
  "written_doc md out = md\<lparr>md_root := Some (Some (mo_packet out)), md_info := written_info (md_info md) (mo_action out)\<rparr>"

definition west_zone :: "docinfo \<Rightarrow> string \<Rightarrow> bool" where
  "west_zone i k \<longleftrightarrow> info_text i k \<noteq> [] \<and> (case read_date (info_text i k) of Some x \<Rightarrow> has_zone x \<and> d_neg x | None \<Rightarrow> False)"

lemma cleanText_idem [simp]: "cleanText (cleanText s) = cleanText s"
  by (simp add: cleanText_def)

lemma cleanText_info [simp]: "cleanText (info_text i k) = info_text i k"
  by (simp add: info_text_def cleanText_def split: option.split)

lemma find_between: "find P xs = None \<Longrightarrow> find P zs = None \<Longrightarrow> find P (xs @ ys @ zs) = find P ys"
  by (simp add: find_append split: option.split)

lemma find_onlyIf: "find P (onlyIf b xs) = (if b then find P xs else None)"
  by (simp add: onlyIf_def)

text \<open>The properties of a PDF/A-1 packet that the comparison looks up.\<close>

lemma found_props:
  assumes "packet_ok ctx d" "pdfa_level ctx" "part ctx = 1"
  defines "ps \<equiv> all_props ctx d"
  shows "find_prop ps kDc ''title'' = (if packet_title ctx d = [] then None else Some (alt_prop kDc ''dc'' ''title'' (cleanText (title_lang ctx)) (cleanText (packet_title ctx d))))"
    "find_prop ps kDc ''description'' = (if i_subject d = [] then None else Some (alt_prop kDc ''dc'' ''description'' ''x-default'' (cleanText (i_subject d))))"
    "find_prop ps kDc ''creator'' = (if i_author d = [] then None else Some (array_prop kDc ''dc'' ''creator'' ''Seq'' [text_prop kRdf ''rdf'' ''li'' (cleanText (i_author d))]))"
    "find_prop ps kPdf ''Keywords'' = (if i_keywords d = [] then None else Some (text_prop kPdf ''pdf'' ''Keywords'' (cleanText (i_keywords d))))"
    "find_prop ps kPdf ''Producer'' = (if i_producer d = [] then None else Some (text_prop kPdf ''pdf'' ''Producer'' (cleanText (i_producer d))))"
    "find_prop ps kXmp ''CreatorTool'' = (if i_creator d = [] then None else Some (text_prop kXmp ''xmp'' ''CreatorTool'' (cleanText (i_creator d))))"
    "find_prop ps kXmp ''CreateDate'' = (if i_createIso d = [] then None else Some (text_prop kXmp ''xmp'' ''CreateDate'' (cleanText (i_createIso d))))"
    "find_prop ps kXmp ''ModifyDate'' = (if i_modifyIso d = [] then None else Some (text_prop kXmp ''xmp'' ''ModifyDate'' (cleanText (i_modifyIso d))))"
proof -
  have n: "isA ctx" "\<not> isPrint ctx" "\<not> isVT ctx" "\<not> isE ctx" using assms(2,3) by (auto simp: pdfa_level_def isA_def isPrint_def isX_def dualX_def isVT_def isE_def)
  have neq: "kPdfaId \<noteq> u" "''http://www.aiim.org/pdfua/ns/id/'' \<noteq> u" "kExtNs \<noteq> u" if "u \<in> {kDc, kPdf, kXmp}" for u using that by (auto simp: ns_defs)
  have neq': "kDc \<noteq> kPdf" "kDc \<noteq> kXmp" "kPdf \<noteq> kXmp" "kPdf \<noteq> kDc" "kXmp \<noteq> kDc" "kXmp \<noteq> kPdf" by (simp_all add: ns_defs)
  have iv: "iv_nsUri (invc ctx) \<noteq> u" if "withXml ctx" "u \<in> {kDc, kPdf, kXmp}" for u
    using invoice_parts(2)[of "invc ctx"] assms(1) that by (auto simp: packet_ok_def ns_defs)
  have pre: "find (\<lambda>p. p_ns p = u \<and> p_name p = l) (written_pdfa ctx @ written_ids ctx d) = None" if "u \<in> {kDc, kPdf, kXmp}" "l \<noteq> ''format''" for u l
    using that n neq iv by (auto simp: written_pdfa_def written_ids_def find_append find_onlyIf Let_def split: option.split)
  have ext: "p_ns (schemas_prop ctx) = kExtNs" by (simp add: schemas_prop_def)
  have eq: "find_prop ps u l = find (\<lambda>p. p_ns p = u \<and> p_name p = l)
     (onlyIf (packet_title ctx d \<noteq> []) [alt_prop kDc ''dc'' ''title'' (cleanText (title_lang ctx)) (cleanText (packet_title ctx d))] @
     onlyIf (i_author d \<noteq> []) [array_prop kDc ''dc'' ''creator'' ''Seq'' [text_prop kRdf ''rdf'' ''li'' (cleanText (i_author d))]] @
     onlyIf (i_subject d \<noteq> []) [alt_prop kDc ''dc'' ''description'' ''x-default'' (cleanText (i_subject d))] @ written_simple ctx d)"
    if "u \<in> {kDc, kPdf, kXmp}" "l \<noteq> ''format''" for u l
    unfolding find_prop_def ps_def all_props_def written_props_def written_rest_def append_assoc[of "written_pdfa ctx", symmetric]
      append_assoc[of "written_pdfa ctx @ written_ids ctx d"]
    by (rule find_between[OF pre[OF that]]) (use neq(3)[OF that(1)] in \<open>simp add: find_onlyIf ext\<close>)
  show "find_prop ps kDc ''title'' = (if packet_title ctx d = [] then None else Some (alt_prop kDc ''dc'' ''title'' (cleanText (title_lang ctx)) (cleanText (packet_title ctx d))))"
    "find_prop ps kDc ''description'' = (if i_subject d = [] then None else Some (alt_prop kDc ''dc'' ''description'' ''x-default'' (cleanText (i_subject d))))"
    "find_prop ps kDc ''creator'' = (if i_author d = [] then None else Some (array_prop kDc ''dc'' ''creator'' ''Seq'' [text_prop kRdf ''rdf'' ''li'' (cleanText (i_author d))]))"
    "find_prop ps kPdf ''Keywords'' = (if i_keywords d = [] then None else Some (text_prop kPdf ''pdf'' ''Keywords'' (cleanText (i_keywords d))))"
    "find_prop ps kPdf ''Producer'' = (if i_producer d = [] then None else Some (text_prop kPdf ''pdf'' ''Producer'' (cleanText (i_producer d))))"
    "find_prop ps kXmp ''CreatorTool'' = (if i_creator d = [] then None else Some (text_prop kXmp ''xmp'' ''CreatorTool'' (cleanText (i_creator d))))"
    "find_prop ps kXmp ''CreateDate'' = (if i_createIso d = [] then None else Some (text_prop kXmp ''xmp'' ''CreateDate'' (cleanText (i_createIso d))))"
    "find_prop ps kXmp ''ModifyDate'' = (if i_modifyIso d = [] then None else Some (text_prop kXmp ''xmp'' ''ModifyDate'' (cleanText (i_modifyIso d))))"
    using n(2) neq' by (simp_all add: eq written_simple_def find_append find_onlyIf Let_def)
qed

lemma entry_lookup: "map_of (entry k v) j = (if j = k \<and> v \<noteq> [] then Some v else None)"
  by (simp add: entry_def)

lemma clean_info_lookup:
  "map_of (clean_info i) (''/Title'') = (if info_text i ''/Title'' = [] then None else Some (info_text i ''/Title''))"
  "map_of (clean_info i) (''/Author'') = (if info_text i ''/Author'' = [] then None else Some (info_text i ''/Author''))"
  "map_of (clean_info i) (''/Subject'') = (if info_text i ''/Subject'' = [] then None else Some (info_text i ''/Subject''))"
  "map_of (clean_info i) (''/Keywords'') = (if info_text i ''/Keywords'' = [] then None else Some (info_text i ''/Keywords''))"
  "map_of (clean_info i) (''/Creator'') = (if info_text i ''/Creator'' = [] then None else Some (info_text i ''/Creator''))"
  "map_of (clean_info i) (''/Producer'') = Some kProducer"
  "map_of (clean_info i) (''/CreationDate'') = (if canon_of (info_date i ''/CreationDate'') = [] then None else Some (canon_of (info_date i ''/CreationDate'')))"
  "map_of (clean_info i) (''/ModDate'') = (if canon_of (info_date i ''/ModDate'') = [] then None else Some (canon_of (info_date i ''/ModDate'')))"
  by (simp_all add: clean_info_def map_of_append map_add_def entry_lookup kProducer_def split: option.split)

lemma info_entries_written:
  "set (info_entries (written_info i (InfoSet es))) = {(k, v). k \<in> set kInfoNames \<and> map_of es (CHR ''/'' # k) = Some v}"
proof -
  have "CHR ''/'' # k \<notin> fst ` set es" if "map_of es (CHR ''/'' # k) = None" for k using that by (simp add: map_of_eq_None_iff)
  then show ?thesis by (auto simp: info_entries_def written_info_def onlyIf_def split: option.splits if_splits)
qed

lemma mismatch_free:
  assumes "parsePacket (xmpUtf8 x) = \<lparr>pk_ok = True, pk_props = ps, pk_decls = ds\<rparr>"
  shows "xmpInfoMismatch x es = [] \<longleftrightarrow> (\<forall>e \<in> set es. info_problem ps e = None)"
proof -
  have "first_some (info_problem ps) es \<noteq> Some []"
    by (induction es) (auto simp: info_problem_def split: option.splits prod.splits if_splits)
  moreover have "first_some (info_problem ps) es = None \<longleftrightarrow> (\<forall>e \<in> set es. info_problem ps e = None)"
    by (induction es) (auto split: option.splits)
  ultimately show ?thesis by (auto simp: xmpInfoMismatch_def assms Let_def split: option.splits)
qed

lemma date_entry:
  assumes "k \<in> {''/CreationDate'', ''/ModDate''}"
  shows "(if canon_of (info_date i k) = [] then True else
      dateParts (canon_of (info_date i k)) True \<noteq> None \<and> dateParts (trim (cleanText (iso_of (info_date i k)))) False \<noteq> None \<and>
      dateParts (canon_of (info_date i k)) True = dateParts (trim (cleanText (iso_of (info_date i k)))) False) \<longleftrightarrow> \<not> west_zone i k"
    and "canon_of (info_date i k) \<noteq> [] \<Longrightarrow> iso_of (info_date i k) \<noteq> []"
proof -
  show "canon_of (info_date i k) \<noteq> [] \<Longrightarrow> iso_of (info_date i k) \<noteq> []"
    using iso_text_clean(3)[OF read_date_ok] by (auto simp: canon_of_def iso_of_def info_date_def parseDateFlexible_def split: option.splits if_splits)
  show "(if canon_of (info_date i k) = [] then True else
      dateParts (canon_of (info_date i k)) True \<noteq> None \<and> dateParts (trim (cleanText (iso_of (info_date i k)))) False \<noteq> None \<and>
      dateParts (canon_of (info_date i k)) True = dateParts (trim (cleanText (iso_of (info_date i k)))) False) \<longleftrightarrow> \<not> west_zone i k"
  proof (cases "info_text i k = [] \<or> read_date (info_text i k) = None")
    case True
    then have "canon_of (info_date i k) = []" "\<not> west_zone i k" by (auto simp: canon_of_def info_date_def parseDateFlexible_def west_zone_def)
    then show ?thesis by simp
  next
    case False
    then obtain x where x: "read_date (info_text i k) = Some x" "info_text i k \<noteq> []" by auto
    note ok = read_date_ok[OF x(1)]
    have "canon_of (info_date i k) = pdf_text x" "iso_of (info_date i k) = iso_text x" "pdf_text x \<noteq> []"
      using x by (simp_all add: canon_of_def iso_of_def info_date_def parseDateFlexible_def pdf_text_def)
    then show ?thesis
      using dateParts_agree[OF ok] dateParts_pdf_text[OF ok] dateParts_iso_text[OF ok] x by (simp add: iso_text_clean[OF ok] west_zone_def)
  qed
qed

text \<open>One entry of the information after another against the packet.\<close>

definition entry_fits :: "'d Ctx \<Rightarrow> docinfo \<Rightarrow> string \<Rightarrow> bool" where
  "entry_fits ctx i k \<longleftrightarrow>
     (\<forall>v. map_of (clean_info i) (CHR ''/'' # k) = Some v \<longrightarrow> info_problem (all_props ctx (info_data i)) (k, v) = None)"

lemma entry_problems:
  assumes "packet_ok ctx (info_data i)" "pdfa_level ctx" "part ctx = 1"
  defines "P \<equiv> entry_fits ctx i"
  shows "P ''Author''" "P ''Creator''" "P ''Keywords''" "P ''Producer''" "P ''Subject''"
    "P ''Title'' \<longleftrightarrow> info_text i ''/Title'' = [] \<or> cleanText (title_lang ctx) = ''x-default''"
    "P ''CreationDate'' \<longleftrightarrow> \<not> west_zone i ''/CreationDate''" "P ''ModDate'' \<longleftrightarrow> \<not> west_zone i ''/ModDate''"
proof -
  note f = found_props[OF assms(1-3)]
  have v: "i_author (info_data i) = info_text i ''/Author''" "i_creator (info_data i) = info_text i ''/Creator''" "i_keywords (info_data i) = info_text i ''/Keywords''"
    "i_producer (info_data i) = kProducer" "i_subject (info_data i) = info_text i ''/Subject''" "i_title (info_data i) = info_text i ''/Title''"
    "i_createIso (info_data i) = iso_of (info_date i ''/CreationDate'')" "i_modifyIso (info_data i) = iso_of (info_date i ''/ModDate'')"
    by (simp_all add: info_data_def InfoData0_def)
  have kp: "cleanText kProducer = kProducer" "kProducer \<noteq> []" by code_simp+
  note iv = info_problem_def info_value_def simple_info_def clean_info_lookup f v kp
  show "P ''Author''" "P ''Creator''" "P ''Keywords''" "P ''Producer''" by (simp_all add: P_def entry_fits_def iv)
  show "P ''Subject''" by (simp add: P_def entry_fits_def iv alt_default_def) (simp add: alt_prop_def)
  show "P ''Title'' \<longleftrightarrow> info_text i ''/Title'' = [] \<or> cleanText (title_lang ctx) = ''x-default''"
    by (simp add: P_def entry_fits_def iv alt_default_def packet_title_def) (simp add: alt_prop_def)
  show "P ''CreationDate'' \<longleftrightarrow> \<not> west_zone i ''/CreationDate''"
    using date_entry[of "''/CreationDate''" i] by (auto simp: P_def entry_fits_def iv split: if_splits)
  show "P ''ModDate'' \<longleftrightarrow> \<not> west_zone i ''/ModDate''"
    using date_entry[of "''/ModDate''" i] by (auto simp: P_def entry_fits_def iv split: if_splits)
qed

lemma title_lang_cases:
  "cleanText (title_lang ctx) = ''x-default'' \<longleftrightarrow> (ua (opt ctx) \<longrightarrow> cleanText (docLang ctx) = ''x-default'')"
  by (simp add: title_lang_def cleanText_def kept_char_def)

lemma collectInfo_part1:
  assumes "pdfa_level ctx" "part ctx = 1" "di_dict i" "collectInfo i ctx = (d, act, b, ctx')"
  shows "d = info_data i" "act = InfoSet (clean_info i)"
proof -
  have n: "\<not> isX ctx" "\<not> dualX ctx" using assms(1,2) by (auto simp: pdfa_level_def isA_def isX_def dualX_def)
  have p: "part (issue c x f ctx) = part ctx" for c x f by (simp add: issue_def Let_def)
  show "d = info_data i" "act = InfoSet (clean_info i)"
    using assms(2-4) n by (auto simp: collectInfo_def Let_def p split: if_splits)
qed

text \<open>
  C6. On the document as \<^verbatim>\<open>passMetadata\<close> leaves it at a PDF/A-1 level (before any later pass,
  and for a document whose information was a dictionary), the check of the metadata finds no
  fault, the packet and the document information being in agreement, exactly in these cases: no
  date has a zone west of Greenwich, and a document with a title is not made PDF/UA as well, unless
  its language is \<^verbatim>\<open>x-default\<close>: the title is then written under the language of the document,
  where the check does not look for it.
\<close>

theorem passMetadata_info_matches:
  assumes "made_for_level ctx" "fam ctx = PDFA" "part ctx = 1" "di_dict (md_info md)"
  shows "xmp_why (written_doc md (fst (passMetadata md ctx))) ctx = [] \<longleftrightarrow>
    (info_text (md_info md) ''/Title'' = [] \<or> \<not> ua (opt ctx) \<or> cleanText (docLang ctx) = ''x-default'') \<and>
    \<not> west_zone (md_info md) ''/CreationDate'' \<and> \<not> west_zone (md_info md) ''/ModDate''"
proof -
  let ?i = "md_info md"
  obtain d act b ctx' where c: "collectInfo ?i (check_metadata md ctx) = (d, act, b, ctx')" "same_run ctx ctx'" "packet_ok ctx' d" "pdfa_level ctx'" "part ctx' \<noteq> 4 \<longrightarrow> dates_iso d"
    "fst (passMetadata md ctx) = \<lparr>mo_packet = metadata_packet ctx' d, mo_info = d, mo_action = act, mo_pieceRemoved = b\<rparr>"
    using passMetadata_collected[OF assms(1,2)] by blast
  have s: "part ctx' = part ctx" "conf ctx' = conf ctx" "opt ctx' = opt ctx" using c(2) by (auto simp: same_run_def)
  have "part (check_metadata md ctx) = 1" "pdfa_level (check_metadata md ctx)"
    using check_metadata_run[of ctx md] c(2,4) assms(3) by (auto simp: same_run_def pdfa_level_def isA_def)
  note da = collectInfo_part1[OF this(2,1) assms(4) c(1)]
  have p1: "part ctx' = 1" using s(1) assms(3) by simp
  have ok: "pdfaXmpProblem (metadata_packet ctx' d) (part ctx) (conf ctx) None = []"
    using packet_accepted[OF c(3,4)] c(5) s by (simp add: dates_iso_def)
  obtain ds where pk: "parsePacket (xmpUtf8 (metadata_packet ctx' d)) = \<lparr>pk_ok = True, pk_props = all_props ctx' d, pk_decls = ds\<rparr>"
    using parsePacket_packet[OF c(3)] by (auto simp: xmpUtf8_packet)
  have dd: "di_dict (written_info ?i act)" by (simp add: da written_info_def)
  have "xmp_why (written_doc md (fst (passMetadata md ctx))) ctx = [] \<longleftrightarrow>
      (\<forall>e \<in> set (info_entries (written_info ?i act)). info_problem (all_props ctx' d) e = None)"
    unfolding c(6) xmp_why_def written_doc_def using ok assms(3) dd by (simp add: mainXmp_def mismatch_free[OF pk] Let_def)
  also have "\<dots> \<longleftrightarrow> list_all (entry_fits ctx' ?i) kInfoNames"
    by (auto simp: da info_entries_written list_all_iff entry_fits_def)
  also have "\<dots> \<longleftrightarrow> (info_text ?i ''/Title'' = [] \<or> cleanText (title_lang ctx') = ''x-default'') \<and> \<not> west_zone ?i ''/CreationDate'' \<and> \<not> west_zone ?i ''/ModDate''"
    using entry_problems[OF c(3)[unfolded da] c(4) p1] by (auto simp: kInfoNames_def)
  finally show ?thesis using s by (simp add: title_lang_cases docLang_def)
qed

definition sample_doc :: "(string \<times> string) list \<Rightarrow> metadata_doc" where
  "sample_doc es = \<lparr>md_info = \<lparr>di_dict = True, di_null = False, di_keys = map fst es, di_text = map_of es, di_trapped = [], di_oldXmp = [],
     di_pieceInfo = False, di_now = ''D:20240229123005Z''\<rparr>, md_root = None, md_objects = []\<rparr>"

theorem passMetadata_conforms_witness:
  "pdfaXmpProblem (mo_packet (fst (passMetadata (sample_doc [(''/Title'', ''A & B'')])
     (mkCtx () (Options0\<lparr>level := A3B, ua := True, dualPrint := True\<rparr>) Result0)))) 3 CHR ''B'' None = []"
  using passMetadata_conforms[of "mkCtx () (Options0\<lparr>level := A3B, ua := True, dualPrint := True\<rparr>) Result0" "sample_doc [(''/Title'', ''A & B'')]"]
  by (simp add: mkCtx_def made_for_level_def level_defs Options0_def)

theorem passMetadata_info_matches_witness:
  "xmp_why (written_doc (sample_doc [(''/Title'', ''T''), (''/Author'', ''A'')])
      (fst (passMetadata (sample_doc [(''/Title'', ''T''), (''/Author'', ''A'')]) (mkCtx () (Options0\<lparr>level := A1B\<rparr>) Result0))))
      (mkCtx () (Options0\<lparr>level := A1B\<rparr>) Result0) = [] \<and>
   xmp_why (written_doc (sample_doc [(''/Title'', ''T'')]) (fst (passMetadata (sample_doc [(''/Title'', ''T'')]) (mkCtx () (Options0\<lparr>level := A1A, ua := True\<rparr>) Result0))))
      (mkCtx () (Options0\<lparr>level := A1A, ua := True\<rparr>) Result0) \<noteq> []"
proof -
  let ?md = "sample_doc [(''/Title'', ''T''), (''/Author'', ''A'')]" and ?md' = "sample_doc [(''/Title'', ''T'')]"
  let ?c = "mkCtx () (Options0\<lparr>level := A1B\<rparr>) Result0" and ?c' = "mkCtx () (Options0\<lparr>level := A1A, ua := True\<rparr>) Result0"
  have m: "made_for_level ?c" "fam ?c = PDFA" "part ?c = 1" "made_for_level ?c'" "fam ?c' = PDFA" "part ?c' = 1"
    by (simp_all add: mkCtx_def made_for_level_def level_defs Options0_def)
  have d: "di_dict (md_info ?md)" "di_dict (md_info ?md')" "\<not> ua (opt ?c)" "ua (opt ?c')" "docLang ?c' = ''en''"
    by (simp_all add: sample_doc_def mkCtx_def Options0_def docLang_def)
  have t: "info_text (md_info ?md) ''/CreationDate'' = []" "info_text (md_info ?md) ''/ModDate'' = []" "info_text (md_info ?md') ''/Title'' = ''T''"
    "cleanText ''en'' = ''en''"
    by (simp_all add: sample_doc_def info_text_def cleanText_def kept_char_def)
  have w: "\<not> west_zone (md_info ?md) ''/CreationDate''" "\<not> west_zone (md_info ?md) ''/ModDate''" by (simp_all add: west_zone_def t)
  have n: "info_text (md_info ?md') ''/Title'' \<noteq> []" "cleanText (docLang ?c') \<noteq> ''x-default''" unfolding t d by simp_all
  show ?thesis
  proof (intro conjI notI)
    show "xmp_why (written_doc ?md (fst (passMetadata ?md ?c))) ?c = []"
      by (rule passMetadata_info_matches[OF m(1-3) d(1), THEN iffD2]) (intro conjI disjI2 disjI1 w d(3))
    assume "xmp_why (written_doc ?md' (fst (passMetadata ?md' ?c'))) ?c' = []"
    from passMetadata_info_matches[OF m(4-6) d(2), THEN iffD1, OF this, THEN conjunct1] n d(4) show False by (elim disjE notE)
  qed
qed

end
