(* ===== verification/Registry.thy ===== *)
theory Registry
  imports Json Text_Map
begin

text \<open>
  The registry of preflight checks and fixes (\<^verbatim>\<open>check_registry.cpp\<close>,
  \<^verbatim>\<open>check_registry.hh\<close>): which parameters and operators a check has, how the text of a
  profile becomes a checked condition (\<^verbatim>\<open>checkAtom\<close>), and how a value found in a document is
  compared with it (\<^verbatim>\<open>compare\<close>). The tables \<^verbatim>\<open>kChecks\<close> and \<^verbatim>\<open>kFixes\<close> are generated
  from a catalogue and are data: the record \<open>registry\<close> holds them, with the three operations of
  \<^verbatim>\<open>std::regex\<close> the code calls. Every theorem holds for every such record. An error is a
  text, and no error is the empty text, as in the source.
\<close>

named_theorems registry \<comment> \<open>what an accepted condition, parameter list or fix satisfies\<close>

section \<open>The tables\<close>

datatype Domain = kNone | kPaint | kText | kImage | kDoc | kPage | kAny | kAnnot | kFont

record ParamDef =
  pd_name :: string
  pd_type :: string
  pd_defaultValue :: string
  pd_hasDefault :: bool
  pd_required :: bool
  pd_enums :: string

record CheckDef =
  cd_id :: string
  cd_value :: string
  cd_domain :: Domain
  cd_operators :: string
  cd_params :: "ParamDef list"

record FixDef =
  fd_id :: string
  fd_params :: "ParamDef list"

text \<open>
  \<open>re_valid p i\<close>: the pattern compiles, ignoring case if \<open>i\<close>; \<open>re_match\<close> and \<open>re_search\<close>
  are \<^verbatim>\<open>std::regex_match\<close> and \<^verbatim>\<open>std::regex_search\<close> of a compiled pattern on a text. The
  cache of compiled patterns (\<^verbatim>\<open>regexFor\<close>) does not change what they return.
\<close>

record registry =
  kChecks :: "CheckDef list"
  kFixes :: "FixDef list"
  re_valid :: "string \<Rightarrow> bool \<Rightarrow> bool"
  re_match :: "string \<Rightarrow> bool \<Rightarrow> string \<Rightarrow> bool"
  re_search :: "string \<Rightarrow> bool \<Rightarrow> string \<Rightarrow> bool"

type_synonym params = "(string \<times> string) list"

record PfAtom =
  at_token :: string
  at_op :: string
  at_vals :: "string list"
  at_params :: params
  at_refs :: "string list"
  at_tol :: double
  at_negate :: bool
  at_icase :: bool
  at_countOp :: string
  at_nums :: "double list"
  at_check :: int

definition PfAtom0 :: PfAtom where
  "PfAtom0 = \<lparr>at_token = [], at_op = [], at_vals = [], at_params = [], at_refs = [], at_tol = zero_d,
     at_negate = False, at_icase = False, at_countOp = [], at_nums = [], at_check = -1\<rparr>"

record PfFix =
  fx_id :: string
  fx_args :: params
  fx_onlyWhere :: "string list"
  fx_fix :: int

definition PfFix0 :: PfFix where
  "PfFix0 = \<lparr>fx_id = [], fx_args = [], fx_onlyWhere = [], fx_fix = -1\<rparr>"

section \<open>Text\<close>

definition splitOn :: "string \<Rightarrow> char \<Rightarrow> string list" where
  "splitOn s sep = (if s = [] then [] else split_on sep s)"

definition listed :: "string \<Rightarrow> string \<Rightarrow> bool" where
  "listed bar v \<longleftrightarrow> v \<in> set (splitOn bar (CHR ''|''))"

abbreviation lower :: "string \<Rightarrow> string" where
  "lower s \<equiv> map to_lower s"

text \<open>The number, its unit, and whether a finite number was read.\<close>

definition readNumber :: "string \<Rightarrow> bool \<times> double \<times> string" where
  "readNumber s =
     (let p = cstr (trim s); (v, e) = strtod p
      in if e = p then (False, v, []) else (finite_d v, v, lower (trim e)))"

definition unitFactor :: "string \<Rightarrow> double" where
  "unitFactor u =
     (if u = ''mm'' then div_d (of_int_d 72) (lit_d 254 1)
      else if u = ''cm'' then div_d (of_int_d 72) (lit_d 254 2)
      else if u = ''in'' then of_int_d 72
      else of_int_d 1)"

definition byteFactor :: "string \<Rightarrow> double" where
  "byteFactor u =
     (if u = ''kb'' then of_int_d 1024
      else if u = ''mb'' then mul_d (of_int_d 1024) (of_int_d 1024)
      else of_int_d 1)"

definition fmtNumber :: "double \<Rightarrow> string" where
  "fmtNumber v = fmt_g 6 v"

definition quoted :: "string \<Rightarrow> string" where
  "quoted s = CHR 0x22 # s @ [CHR 0x22]"

definition commas :: "string \<Rightarrow> string" where
  "commas s = map (\<lambda>c. if c = CHR ''|'' then CHR '','' else c) s"

section \<open>Lookups\<close>

text \<open>
  The index of an identifier; the table is entered front to back, so the last row of a repeated
  identifier counts, and an unknown one has index \<open>-1\<close>.
\<close>

definition index_of :: "string \<Rightarrow> string list \<Rightarrow> int" where
  "index_of s ids = foldl (\<lambda>r (i, x). if x = s then int i else r) (-1) (enumerate 0 ids)"

definition checkIndex :: "registry \<Rightarrow> string \<Rightarrow> int" where
  "checkIndex R s = index_of s (map cd_id (kChecks R))"

definition fixIndex :: "registry \<Rightarrow> string \<Rightarrow> int" where
  "fixIndex R s = index_of s (map fd_id (kFixes R))"

definition checkDef :: "registry \<Rightarrow> int \<Rightarrow> CheckDef" where
  "checkDef R i = kChecks R ! nat i"

definition findParam :: "ParamDef list \<Rightarrow> string \<Rightarrow> ParamDef option" where
  "findParam ps n = find (\<lambda>p. n = pd_name p) ps"

definition param :: "PfAtom \<Rightarrow> string \<Rightarrow> string" where
  "param a n = (case map_of (at_params a) n of None \<Rightarrow> [] | Some v \<Rightarrow> v)"

definition paramBool :: "PfAtom \<Rightarrow> string \<Rightarrow> bool" where
  "paramBool a n \<longleftrightarrow> param a n = ''true''"

definition paramList :: "PfAtom \<Rightarrow> string \<Rightarrow> string list" where
  "paramList a n = splitOn (param a n) (CHR 0x0A)"

definition paramsOf :: "registry \<Rightarrow> PfAtom \<Rightarrow> ParamDef list" where
  "paramsOf R a = (if at_check a < 0 then [] else cd_params (checkDef R (at_check a)))"

definition fixParam :: "PfFix \<Rightarrow> string \<Rightarrow> string" where
  "fixParam f n = (case map_of (fx_args f) n of None \<Rightarrow> [] | Some v \<Rightarrow> v)"

definition fixParamBool :: "PfFix \<Rightarrow> string \<Rightarrow> bool" where
  "fixParamBool f n \<longleftrightarrow> fixParam f n = ''true''"

definition fixParamList :: "PfFix \<Rightarrow> string \<Rightarrow> string list" where
  "fixParamList f n = splitOn (fixParam f n) (CHR 0x0A)"

section \<open>Quantities\<close>

text \<open>The value in points and whether the text was a length.\<close>

definition lengthToPt :: "string \<Rightarrow> string \<Rightarrow> double \<times> bool" where
  "lengthToPt text0 defaultUnit =
     (let (good, v, rest) = readNumber text0;
          u = (if good \<and> rest = [] then lower defaultUnit else rest);
          good = (good \<and> u \<in> {''pt'', ''mm'', ''cm'', ''in'', ''percent'', ''%'', []})
      in (if good then mul_d v (unitFactor u) else zero_d, good))"

definition degree_sign :: string where
  "degree_sign = [CHR 0xC2, CHR 0xB0]"

definition parseQuantity :: "string \<Rightarrow> string \<Rightarrow> string \<Rightarrow> double \<times> bool" where
  "parseQuantity text0 type unit =
     (if type = ''length'' then lengthToPt text0 unit
      else
        let (good, v, rest) = readNumber text0;
            u = (if rest = [] then lower unit else rest);
            v = (if good \<and> type = ''bytes'' then mul_d v (byteFactor u) else v);
            good = (good \<and>
              (if type = ''bytes'' then u = [] \<or> u = ''bytes'' \<or> u = ''b'' \<or> u = ''kb'' \<or> u = ''mb''
               else if type = ''percent'' then rest = [] \<or> rest = ''%''
               else if type = ''resolution'' then rest = [] \<or> rest = ''ppi'' \<or> rest = ''dpi''
               else if type = ''angle'' then rest = [] \<or> rest = ''deg'' \<or> rest = degree_sign
               else rest = []))
        in (if good then v else zero_d, good))"

definition atof :: "string \<Rightarrow> double" where
  "atof s = fst (strtod s)"

definition paramNum :: "registry \<Rightarrow> PfAtom \<Rightarrow> string \<Rightarrow> double" where
  "paramNum R a n =
     (let v = param a n
      in case findParam (paramsOf R a) n of
           None \<Rightarrow> atof v
         | Some p \<Rightarrow>
             if v = [] then atof v
             else fst (parseQuantity v (pd_type p) (if pd_type p = ''length'' then ''pt'' else param a ''unit'')))"

definition fixParamNum :: "registry \<Rightarrow> PfFix \<Rightarrow> string \<Rightarrow> double" where
  "fixParamNum R f n =
     (let v = fixParam f n
      in case (if fx_fix f < 0 then None else findParam (fd_params (kFixes R ! nat (fx_fix f))) n) of
           None \<Rightarrow> atof v
         | Some p \<Rightarrow>
             if v = [] then atof v
             else fst (parseQuantity v (pd_type p) (if pd_type p = ''length'' then ''pt'' else fixParam f ''unit'')))"

section \<open>Paper sizes\<close>

definition inch_sizes :: "(string \<times> double \<times> double) list" where
  "inch_sizes =
     [(''letter'', lit_d 85 1, of_int_d 11), (''legal'', lit_d 85 1, of_int_d 14),
      (''tabloid'', of_int_d 11, of_int_d 17), (''ledger'', of_int_d 11, of_int_d 17)]"

text \<open>Halving the longer side, \<open>n\<close> times, as the loop does.\<close>

fun iso_halve :: "nat \<Rightarrow> double \<Rightarrow> double \<Rightarrow> double \<times> double" where
  "iso_halve 0 w h = (w, h)"
| "iso_halve (Suc n) w h = iso_halve n (floor_d (div_d h (of_int_d 2))) w"

definition iso_base :: "char \<Rightarrow> double \<times> double" where
  "iso_base c =
     (of_int_d (if c = CHR ''a'' then 841 else if c = CHR ''b'' then 1000 else 917),
      of_int_d (if c = CHR ''a'' then 1189 else if c = CHR ''b'' then 1414 else 1297))"

text \<open>Millimetres to points, as the code writes it: first times 72, then divided by 25.4.\<close>

definition mm_pt :: "double \<Rightarrow> double" where
  "mm_pt x = div_d (mul_d x (of_int_d 72)) (lit_d 254 1)"

text \<open>
  The number after the letter as the C library reads it: limited to 64 bits by \<^verbatim>\<open>strtol\<close>, then
  cut to the 32 bits of an \<open>int\<close>, so that it may be negative and the loop does not run.
\<close>

definition atoi_int :: "string \<Rightarrow> int" where
  "atoi_int s = signed_take_bit 31 (max (- (2 ^ 63)) (min (2 ^ 63 - 1) (atoi s)))"

definition paperSize :: "string \<Rightarrow> (double list) option" where
  "paperSize n =
     (case map_of inch_sizes n of
        Some (w, h) \<Rightarrow> Some [mul_d w (of_int_d 72), mul_d h (of_int_d 72)]
      | None \<Rightarrow>
          if length n < 2 \<or> (hd n \<noteq> CHR ''a'' \<and> hd n \<noteq> CHR ''b'' \<and> hd n \<noteq> CHR ''c'') then None
          else if \<not> list_all is_digit (tl n) then None
          else if atoi_int (tl n) > 10 then None
          else case iso_base (hd n) of (w0, h0) \<Rightarrow>
            (case iso_halve (nat (atoi_int (tl n))) w0 h0 of (w, h) \<Rightarrow> Some [mm_pt w, mm_pt h]))"

section \<open>Parameters\<close>

definition checkValue :: "ParamDef \<Rightarrow> string \<Rightarrow> string" where
  "checkValue p v =
     (let t = pd_type p
      in if t = ''enum'' then
           (if \<not> listed (pd_enums p) v then quoted v @ '' is not one of '' @ commas (pd_enums p) else [])
         else if t = ''bool'' then (if v = ''true'' \<or> v = ''false'' then [] else ''expects true or false'')
         else if t = ''text'' \<or> t = ''list'' \<or> t = ''date'' then []
         else if snd (parseQuantity v t (if t = ''length'' then ''pt'' else [])) then []
         else quoted v @ '' is not a '' @ t)"

fun check_given :: "ParamDef list \<Rightarrow> string \<Rightarrow> string \<Rightarrow> params \<Rightarrow> string" where
  "check_given defs owner loc [] = []"
| "check_given defs owner loc ((k, v) # kvs) =
     (case findParam defs k of
        None \<Rightarrow> loc @ ''.'' @ k @ '': unknown parameter for '' @ owner
      | Some p \<Rightarrow>
          if pd_type p = ''list'' then check_given defs owner loc kvs
          else
            let err = checkValue p v
            in if err \<noteq> [] then loc @ ''.'' @ k @ '': '' @ err else check_given defs owner loc kvs)"

fun fill_missing :: "ParamDef list \<Rightarrow> string \<Rightarrow> string \<Rightarrow> params \<Rightarrow> string \<times> params" where
  "fill_missing [] owner loc ps = ([], ps)"
| "fill_missing (p # defs) owner loc ps =
     (if map_has (pd_name p) ps then fill_missing defs owner loc ps
      else if pd_required p then (loc @ ''.'' @ pd_name p @ '': required by '' @ owner, ps)
      else fill_missing defs owner loc (map_put (pd_name p) (if pd_hasDefault p then pd_defaultValue p else []) ps))"

definition fillParams :: "ParamDef list \<Rightarrow> params \<Rightarrow> string \<Rightarrow> string \<Rightarrow> string \<times> params" where
  "fillParams defs ps owner loc =
     (let err = check_given defs owner loc ps
      in if err \<noteq> [] then (err, ps) else fill_missing defs owner loc ps)"

section \<open>Comparisons\<close>

definition numericOp :: "string \<Rightarrow> bool" where
  "numericOp p \<longleftrightarrow> p \<in> {''<'', ''<='', ''=='', ''!='', ''>='', ''>'', ''multiple_of''}"

definition numericType :: "string \<Rightarrow> bool" where
  "numericType t \<longleftrightarrow> t \<in> {''number'', ''count'', ''length'', ''percent'', ''angle'', ''resolution'', ''ratio'',
     ''bytes'', ''version''}"

text \<open>The magnitude of \<^verbatim>\<open>std::fmod(x, 1.0)\<close>, which is exact.\<close>

definition frac_d :: "double \<Rightarrow> double" where
  "frac_d x = sub_d (abs_d x) (floor_d (abs_d x))"

definition cmpNumbers :: "double \<Rightarrow> string \<Rightarrow> double \<Rightarrow> double \<Rightarrow> bool" where
  "cmpNumbers l p r tol =
     (let gap = abs_d (sub_d l r); eq = (less_d gap (lit_d 1 6) \<or> le_d gap tol)
      in if p = ''<'' then less_d l (sub_d r tol)
         else if p = ''<='' then le_d l (add_d r tol)
         else if p = ''>'' then less_d (add_d r tol) l
         else if p = ''>='' then le_d (sub_d r tol) l
         else if p = ''=='' \<or> p = ''in'' then eq
         else if p = ''!='' then \<not> eq
         else if p = ''multiple_of'' then
           (if eq_d r zero_d \<or> less_d (abs_d l) (abs_d r) then False
            else let f = frac_d (div_d l r)
                 in le_d (min_d f (sub_d (of_int_d 1) f)) (max_d tol (lit_d 2 4)))
         else False)"

definition ends_with :: "string \<Rightarrow> string \<Rightarrow> bool" where
  "ends_with v x \<longleftrightarrow> length v \<ge> length x \<and> drop (length v - length x) v = x"

text \<open>
  The loop over the values of a text condition, \<open>v\<close> the text after case folding: most operators
  go on until one value matches, the ordering operators and \<open>!=\<close> decide on the first.
\<close>

fun text_loop :: "string \<Rightarrow> string \<Rightarrow> string list \<Rightarrow> bool" where
  "text_loop p v [] = False"
| "text_loop p v (x # xs) =
     (if p = ''=='' \<or> p = ''in'' then v = x \<or> text_loop p v xs
      else if p = ''!='' then v \<noteq> x
      else if p = ''contains'' then contains v x \<or> text_loop p v xs
      else if p = ''starts_with'' then starts_with v x \<or> text_loop p v xs
      else if p = ''ends_with'' then ends_with v x \<or> text_loop p v xs
      else if p = ''occurs_in'' then contains x v \<or> text_loop p v xs
      else if p = ''<'' then v < x
      else if p = ''<='' then v \<le> x
      else if p = ''>'' then x < v
      else if p = ''>='' then x \<le> v
      else text_loop p v xs)"

definition fold_case :: "PfAtom \<Rightarrow> string \<Rightarrow> string" where
  "fold_case a x = (if at_icase a then lower x else x)"

definition regex_hit :: "registry \<Rightarrow> string \<Rightarrow> string \<Rightarrow> bool \<Rightarrow> string \<Rightarrow> bool" where
  "regex_hit R raw p icase x \<longleftrightarrow>
     re_valid R x icase \<and> (if p = ''matches'' then re_match R x icase raw else re_search R x icase raw)"

definition textOp :: "registry \<Rightarrow> string \<Rightarrow> string \<Rightarrow> PfAtom \<Rightarrow> bool" where
  "textOp R raw p a =
     (if p = ''matches'' \<or> p = ''finds'' then list_ex (regex_hit R raw p (at_icase a)) (at_vals a)
      else text_loop p (fold_case a raw) (map (fold_case a) (at_vals a)))"

text \<open>The target of a size condition: its parameters, else its value.\<close>

definition size_target :: "PfAtom \<Rightarrow> (double \<times> double) option" where
  "size_target a =
     (let pw = param a ''width''; ph = param a ''height''
      in if pw \<noteq> [] \<and> ph \<noteq> [] then Some (fst (lengthToPt pw ''pt''), fst (lengthToPt ph ''pt''))
         else if length (at_nums a) \<ge> 2 then Some (at_nums a ! 0, at_nums a ! 1)
         else None)"

definition size_test :: "string \<Rightarrow> double \<Rightarrow> double \<Rightarrow> double \<Rightarrow> double \<Rightarrow> double \<Rightarrow> bool" where
  "size_test p tw th tol x y =
     (let slack = add_d tol (lit_d 1 6);
          eq = (le_d (abs_d (sub_d x tw)) slack \<and> le_d (abs_d (sub_d y th)) slack);
          fits = (le_d x (add_d tw tol) \<and> le_d y (add_d th tol))
      in if p = ''=='' then eq
         else if p = ''!='' then \<not> eq
         else if p = ''fits_within'' then fits
         else if p = ''exceeds'' then \<not> fits
         else False)"

definition sizeOp :: "double \<Rightarrow> double \<Rightarrow> PfAtom \<Rightarrow> bool" where
  "sizeOp w h a =
     (case size_target a of
        None \<Rightarrow> False
      | Some (tw, th) \<Rightarrow>
          let pt = param a ''tolerance'';
              tol = (if pt = [] then at_tol a else fst (lengthToPt pt ''pt''));
              either = paramBool a ''either_orientation'';
              p = at_op a;
              r = size_test p tw th tol w h;
              s = size_test p tw th tol h w
          in if either \<and> p \<noteq> ''!='' \<and> p \<noteq> ''exceeds'' then r \<or> s
             else if either \<and> (p = ''!='' \<or> p = ''exceeds'') then r \<and> s
             else r)"

text \<open>A value found in a document.\<close>

datatype Value = VNone | VBool bool | VNum double | VText string | VList "string list" | VSize double double

text \<open>The fields \<^verbatim>\<open>num\<close> and \<^verbatim>\<open>text\<close>, which only some constructors set.\<close>

fun v_num :: "Value \<Rightarrow> double" where
  "v_num (VNum n) = n"
| "v_num (VSize w _) = w"
| "v_num _ = zero_d"

fun v_text :: "Value \<Rightarrow> string" where
  "v_text (VText s) = s"
| "v_text _ = []"

definition value_true :: "Value \<Rightarrow> bool" where
  "value_true v = (case v of VBool b \<Rightarrow> b | VNum n \<Rightarrow> \<not> eq_d n zero_d | _ \<Rightarrow> v_text v \<noteq> [])"

text \<open>A text compared as a number, for a check whose values are numbers.\<close>

definition number_text :: "registry \<Rightarrow> string \<Rightarrow> PfAtom \<Rightarrow> bool" where
  "number_text R t a =
     (let (good, n, rest) = readNumber t; unit = param a ''unit'';
          n = (if cd_value (checkDef R (at_check a)) = ''length''
               then fst (lengthToPt t (if unit = [] then ''pt'' else unit)) else n)
      in if \<not> good then at_op a = ''!='' else cmpNumbers n (at_op a) (hd (at_nums a)) (at_tol a))"

definition scalarMatch :: "registry \<Rightarrow> Value \<Rightarrow> PfAtom \<Rightarrow> bool" where
  "scalarMatch R v a =
     (let p = at_op a
      in if p = ''is'' then value_true v = (at_vals a = [] \<or> hd (at_vals a) \<noteq> ''false'')
         else case v of
           VSize w h \<Rightarrow> sizeOp w h a
         | VNum n \<Rightarrow>
             if p = ''in'' \<or> p = ''not_in'' then
               (let any = list_ex (\<lambda>m. cmpNumbers n ''=='' m (at_tol a)) (at_nums a)
                in if p = ''in'' then any else \<not> any)
             else if numericOp p \<and> at_nums a \<noteq> [] then cmpNumbers n p (hd (at_nums a)) (at_tol a)
             else textOp R (fmtNumber n) p a
         | _ \<Rightarrow>
             let t = (case v of VBool b \<Rightarrow> if b then ''true'' else ''false'' | _ \<Rightarrow> v_text v)
             in if p = ''not_in'' then \<not> textOp R t ''in'' a
                else if numericOp p \<and> at_check a \<ge> 0 \<and> numericType (cd_value (checkDef R (at_check a))) \<and>
                        at_nums a \<noteq> []
                then number_text R t a
                else textOp R t p a)"

text \<open>\<^verbatim>\<open>includes\<close> and \<^verbatim>\<open>excludes\<close> on a list of values.\<close>

definition list_wants :: "PfAtom \<Rightarrow> string list \<Rightarrow> int" where
  "list_wants a vs =
     (let same = (\<lambda>x y. fold_case a x = fold_case a y);
          found = (\<lambda>want. list_ex (\<lambda>e. same e want) vs);
          present = length (filter (\<lambda>e. list_ex (same e) (at_vals a)) vs);
          incl = (at_op a = ''includes'');
          r = (if incl then list_all found (at_vals a) else list_all (\<lambda>w. \<not> found w) (at_vals a))
      in if r = at_negate a then 0
         else if incl \<and> \<not> at_negate a then max (int present) 1 else 1)"

abbreviation hit :: "bool \<Rightarrow> int" where
  "hit b \<equiv> (if b then 1 else 0)"

definition compare :: "registry \<Rightarrow> Value \<Rightarrow> PfAtom \<Rightarrow> int" where
  "compare R v a =
     (let p = at_op a
      in if v = VNone then 0
         else if p = ''count'' then
           (let n = (case v of VList l \<Rightarrow> of_int_d (int (length l)) | _ \<Rightarrow> v_num v);
                r = (at_nums a \<noteq> [] \<and> cmpNumbers n (at_countOp a) (hd (at_nums a)) (at_tol a))
            in hit (r \<noteq> at_negate a))
         else case v of
           VList l \<Rightarrow>
             if p = ''includes'' \<or> p = ''excludes'' then list_wants a l
             else int (length (filter (\<lambda>e. scalarMatch R (VText e) a \<noteq> at_negate a) l))
         | _ \<Rightarrow> hit (scalarMatch R v a \<noteq> at_negate a))"

section \<open>Checking a condition of a profile\<close>

text \<open>
  \<open>Inl\<close> is the error the function returns, \<open>Inr\<close> the condition it completed; a condition that
  was refused is thrown away by the caller.
\<close>

definition check_is :: "string \<Rightarrow> PfAtom \<Rightarrow> string + PfAtom" where
  "check_is loc a =
     (let vs = (if at_vals a = [] then [''true''] else at_vals a)
      in if length vs \<noteq> 1 \<or> hd vs \<noteq> ''true'' \<and> hd vs \<noteq> ''false''
         then Inl (loc @ ''.value: operator is expects true or false'')
         else Inr (a\<lparr>at_vals := vs\<rparr>))"

definition size_hint :: string where
  "size_hint = ''.value: missing (give a size such as '' @ quoted ''A4'' @ '' or '' @ quoted ''210 x 297 mm'' @
     '', or width and height)''"

definition multi_op :: "string \<Rightarrow> bool" where
  "multi_op p \<longleftrightarrow> p = ''in'' \<or> p = ''not_in'' \<or> p = ''includes'' \<or> p = ''excludes''"

text \<open>The tests on the operator and the number of values; the empty text is no error.\<close>

definition value_shape :: "string \<Rightarrow> string \<Rightarrow> PfAtom \<Rightarrow> string" where
  "value_shape vt loc a =
     (if at_op a = ''count'' \<and> (\<not> numericOp (at_countOp a) \<or> at_countOp a = ''multiple_of'')
      then loc @ ''.compare: count needs one of <, <=, ==, !=, >=, >''
      else if at_op a \<noteq> ''count'' \<and> at_countOp a \<noteq> []
      then loc @ ''.compare: only used with operator count''
      else if vt = ''size'' \<and> at_op a \<noteq> ''count'' \<and> at_vals a = [] \<and> (param a ''width'' = [] \<or> param a ''height'' = [])
      then loc @ size_hint
      else if at_vals a = [] \<and> vt \<noteq> ''size'' then loc @ ''.value: missing''
      else if \<not> multi_op (at_op a) \<and> length (at_vals a) > 1
      then loc @ ''.value: operator '' @ at_op a @ '' takes a single value''
      else [])"

text \<open>A size: width and height with one unit for both, or the name of a paper.\<close>

definition size_nums :: "string \<Rightarrow> double list option" where
  "size_nums v =
     (let s = lower v
      in case find_idx (\<lambda>c. c = CHR ''x'') s of
           None \<Rightarrow> paperSize s
         | Some x \<Rightarrow>
             let hs = drop (x + 1) s;
                 rest = snd (snd (readNumber hs));
                 u = (if rest = [] then ''pt'' else rest);
                 (w, ok1) = lengthToPt (take x s) u;
                 (h, ok2) = lengthToPt hs u
             in if ok1 \<and> ok2 then Some [w, h] else None)"

fun quantities :: "string \<Rightarrow> string \<Rightarrow> string \<Rightarrow> string list \<Rightarrow> string + double list" where
  "quantities type unit loc [] = Inr []"
| "quantities type unit loc (v # vs) =
     (case parseQuantity v type unit of (n, ok) \<Rightarrow>
        if \<not> ok then Inl (loc @ ''.value: '' @ quoted v @ '' is not a '' @ type)
        else map_sum id ((#) n) (quantities type unit loc vs))"

definition atom_nums :: "string \<Rightarrow> string \<Rightarrow> PfAtom \<Rightarrow> string + double list" where
  "atom_nums vt loc a =
     (let unit = param a ''unit''; p = at_op a; qtype = (if p = ''count'' then ''count'' else vt)
      in if qtype = ''size'' then
           (if at_vals a = [] then Inr []
            else case size_nums (hd (at_vals a)) of
              None \<Rightarrow> Inl (loc @ ''.value: expects a paper name or width x height, e.g. '' @ quoted ''A4'' @ '' or '' @
                        quoted ''210 x 297 mm'')
            | Some ns \<Rightarrow> Inr ns)
         else if numericType qtype \<and> (numericOp p \<or> p = ''in'' \<or> p = ''not_in'' \<or> p = ''count'')
         then quantities qtype (if qtype = ''length'' \<and> unit = [] then ''pt'' else unit) loc (at_vals a)
         else Inr [])"

definition check_regex :: "registry \<Rightarrow> string \<Rightarrow> PfAtom \<Rightarrow> string" where
  "check_regex R loc a =
     (if at_op a = ''matches'' \<or> at_op a = ''finds'' then
        (case find (\<lambda>v. \<not> re_valid R v (at_icase a)) (at_vals a) of
           Some v \<Rightarrow> loc @ ''.value: invalid regular expression '' @ quoted v | None \<Rightarrow> [])
      else [])"

definition check_compared :: "registry \<Rightarrow> string \<Rightarrow> string \<Rightarrow> PfAtom \<Rightarrow> string + PfAtom" where
  "check_compared R vt loc a =
     (if value_shape vt loc a \<noteq> [] then Inl (value_shape vt loc a)
      else case atom_nums vt loc a of
        Inl e \<Rightarrow> Inl e
      | Inr ns \<Rightarrow> if check_regex R loc a \<noteq> [] then Inl (check_regex R loc a) else Inr (a\<lparr>at_nums := ns\<rparr>))"

definition checkAtom :: "registry \<Rightarrow> PfAtom \<Rightarrow> string \<Rightarrow> string + PfAtom" where
  "checkAtom R a0 loc =
     (let a = a0\<lparr>at_check := checkIndex R (at_token a0)\<rparr>
      in if at_check a < 0 then Inl (loc @ ''.check: unknown check '' @ quoted (at_token a))
         else
           let d = checkDef R (at_check a);
               a = (if at_op a = [] \<and> cd_value d = ''bool'' then a\<lparr>at_op := ''is''\<rparr> else a)
           in if at_op a = [] then Inl (loc @ ''.op: missing for '' @ cd_id d)
              else if \<not> listed (cd_operators d) (at_op a)
              then Inl (loc @ ''.op: '' @ quoted (at_op a) @ '' is not allowed for '' @ cd_id d @ '' (use '' @
                        commas (cd_operators d) @ '')'')
              else case fillParams (cd_params d) (at_params a) (cd_id d) loc of (err, ps) \<Rightarrow>
                if err \<noteq> [] then Inl err
                else let a = a\<lparr>at_params := ps\<rparr>
                     in if at_op a = ''is'' then check_is loc a else check_compared R (cd_value d) loc a)"

text \<open>An unknown fix is accepted here, with index \<open>-1\<close>; running it reports it.\<close>

definition checkFix :: "registry \<Rightarrow> PfFix \<Rightarrow> string \<Rightarrow> string + PfFix" where
  "checkFix R f0 loc =
     (let f = f0\<lparr>fx_fix := fixIndex R (fx_id f0)\<rparr>
      in if fx_fix f < 0 then Inr f
         else let d = kFixes R ! nat (fx_fix f)
              in case fillParams (fd_params d) (fx_args f) (fd_id d) loc of (err, ps) \<Rightarrow>
                   if err \<noteq> [] then Inl err else Inr (f\<lparr>fx_args := ps\<rparr>))"

section \<open>What a condition is asked of\<close>

definition scope_enums :: "CheckDef \<Rightarrow> string" where
  "scope_enums d = (case findParam (cd_params d) ''scope'' of Some p \<Rightarrow> pd_enums p | None \<Rightarrow> [])"

definition level_domain :: "CheckDef \<Rightarrow> string \<Rightarrow> Domain" where
  "level_domain d l =
     (case (if cd_domain d = kDoc then findParam (cd_params d) ''level'' else None) of
        None \<Rightarrow> cd_domain d
      | Some lv \<Rightarrow>
          if pd_enums lv \<noteq> ''document|page|object|annotation'' then cd_domain d
          else if l = ''page'' then kPage
          else if l = ''object'' then kAny
          else if l = ''annotation'' then kAnnot
          else cd_domain d)"

definition domainOf :: "registry \<Rightarrow> PfAtom \<Rightarrow> Domain" where
  "domainOf R a =
     (if at_check a < 0 then kNone
      else
        let d = checkDef R (at_check a)
        in if param a ''subject'' = ''annotation'' then kAnnot
           else if cd_domain d \<noteq> kDoc \<and> param a ''scope'' = ''document'' then kDoc
           else if cd_domain d = kDoc \<and> param a ''scope'' = ''page'' \<and>
                   (scope_enums d = ''document|page'' \<or> scope_enums d = ''page|document'') then kPage
           else level_domain d (param a ''level''))"

section \<open>The table of evaluators\<close>

text \<open>
  Class \<^verbatim>\<open>CheckTable\<close>: a slot per row of the registry, made on the first registration.
  Registering an unknown check, or a second evaluator for a check, throws.
\<close>

type_synonym 'f CheckTable = "'f option list"

definition evaluator_add :: "registry \<Rightarrow> string \<Rightarrow> 'f \<Rightarrow> 'f CheckTable \<Rightarrow> string + 'f CheckTable" where
  "evaluator_add R s fn fns =
     (let i = checkIndex R s
      in if i < 0 then Inl (''evaluator for unknown check '' @ s)
         else let fns = (if fns = [] then replicate (length (kChecks R)) None else fns)
              in if fns ! nat i \<noteq> None then Inl (''two evaluators for check '' @ s)
                 else Inr (fns[nat i := Some fn]))"

definition evaluator_find :: "'f CheckTable \<Rightarrow> int \<Rightarrow> 'f option" where
  "evaluator_find fns i = (if i < 0 \<or> nat i \<ge> length fns then None else fns ! nat i)"

fun register :: "registry \<Rightarrow> (string \<times> 'f) list \<Rightarrow> 'f CheckTable \<Rightarrow> string + 'f CheckTable" where
  "register R [] fns = Inr fns"
| "register R ((s, fn) # rs) fns = (case evaluator_add R s fn fns of Inl e \<Rightarrow> Inl e | Inr fns' \<Rightarrow> register R rs fns')"

section \<open>Accepted parameters and conditions\<close>

lemma index_of_snoc: "index_of s (ids @ [x]) = (if x = s then int (length ids) else index_of s ids)"
  by (simp add: index_of_def enumerate_append_eq)

lemma index_of_Nil: "index_of s [] = -1"
  by (simp add: index_of_def)

lemma index_of_bounds: "index_of s ids = -1 \<or> (0 \<le> index_of s ids \<and> nat (index_of s ids) < length ids \<and> ids ! nat (index_of s ids) = s)"
  by (induction ids rule: rev_induct) (auto simp: index_of_snoc nth_append index_of_Nil)

lemma index_of_known: "s \<in> set ids \<Longrightarrow> index_of s ids \<ge> 0"
  by (induction ids rule: rev_induct) (auto simp: index_of_snoc)

lemma checkIndex_def_id [registry]:
  "checkIndex R s \<ge> 0 \<Longrightarrow> nat (checkIndex R s) < length (kChecks R) \<and> cd_id (checkDef R (checkIndex R s)) = s"
  using index_of_bounds[of s "map cd_id (kChecks R)"] by (auto simp: checkIndex_def checkDef_def)

lemma fixIndex_def_id [registry]:
  "fixIndex R s \<ge> 0 \<Longrightarrow> nat (fixIndex R s) < length (kFixes R) \<and> fd_id (kFixes R ! nat (fixIndex R s)) = s"
  using index_of_bounds[of s "map fd_id (kFixes R)"] by (auto simp: fixIndex_def)

text \<open>A value that was checked, or that an optional parameter got because it was not given.\<close>

definition value_fits :: "ParamDef \<Rightarrow> string \<Rightarrow> bool" where
  "value_fits p v \<longleftrightarrow> pd_type p = ''list'' \<or> checkValue p v = [] \<or>
     (\<not> pd_required p \<and> v = (if pd_hasDefault p then pd_defaultValue p else []))"

text \<open>Every declared parameter has a value, every value belongs to a declared parameter and fits it.\<close>

definition params_ok :: "ParamDef list \<Rightarrow> params \<Rightarrow> bool" where
  "params_ok defs ps \<longleftrightarrow> map_ordered ps \<and> (\<forall>p \<in> set defs. map_has (pd_name p) ps) \<and>
     (\<forall>(k, v) \<in> set ps. \<exists>p \<in> set defs. pd_name p = k \<and> value_fits p v)"

lemma findParam_Some: "findParam ps n = Some p \<Longrightarrow> p \<in> set ps \<and> pd_name p = n"
  by (auto simp: findParam_def find_Some_iff)

lemma check_given_ok:
  assumes "check_given defs owner loc ps = []" "(k, v) \<in> set ps"
  shows "\<exists>p \<in> set defs. pd_name p = k \<and> value_fits p v"
  using assms
proof (induction ps)
  case (Cons kv ps)
  obtain k' v' where kv: "kv = (k', v')" by fastforce
  with Cons.prems(1) obtain p where p: "findParam defs k' = Some p" by (auto split: option.splits)
  with Cons.prems(1) kv have "value_fits p v'" and r: "check_given defs owner loc ps = []"
    by (auto simp: value_fits_def Let_def split: if_splits)
  with findParam_Some[OF p] kv Cons.IH[OF r] Cons.prems(2) show ?case by auto
qed simp

lemma fill_missing_ok:
  assumes "fill_missing defs owner loc ps = ([], qs)" "map_ordered ps"
    and "\<forall>(k, v) \<in> set ps. \<exists>p \<in> P. pd_name p = k \<and> value_fits p v" "set defs \<subseteq> P"
  shows "map_ordered qs \<and> (\<forall>k. map_has k ps \<longrightarrow> map_of qs k = map_of ps k) \<and> (\<forall>p \<in> set defs. map_has (pd_name p) qs) \<and>
    (\<forall>(k, v) \<in> set qs. \<exists>p \<in> P. pd_name p = k \<and> value_fits p v)"
  using assms
proof (induction defs owner loc ps rule: fill_missing.induct)
  case (2 p defs owner loc ps)
  show ?case
  proof (cases "map_has (pd_name p) ps")
    case True
    from 2(3) True have f: "fill_missing defs owner loc ps = ([], qs)" by simp
    have "map_ordered qs \<and> (\<forall>k. map_has k ps \<longrightarrow> map_of qs k = map_of ps k) \<and> (\<forall>p \<in> set defs. map_has (pd_name p) qs) \<and>
        (\<forall>(k, v) \<in> set qs. \<exists>p \<in> P. pd_name p = k \<and> value_fits p v)"
      by (rule 2(1)[OF True f 2(4,5)]) (use 2(6) in simp)
    with True show ?thesis by (auto simp: map_has_def)
  next
    case False
    let ?v = "if pd_hasDefault p then pd_defaultValue p else []"
    let ?m = "map_put (pd_name p) ?v ps"
    from 2(3) False have r: "\<not> pd_required p" and f: "fill_missing defs owner loc ?m = ([], qs)" by (auto split: if_splits)
    have fits: "\<forall>(k, v) \<in> set ?m. \<exists>p \<in> P. pd_name p = k \<and> value_fits p v"
      using 2(5,6) r set_map_put[of "pd_name p" ?v ps] by (fastforce simp: value_fits_def)
    have "set defs \<subseteq> P" using 2(6) by simp
    note IH = 2(2)[OF False r f map_ordered_put[OF 2(4)] fits this]
    from IH 2(6) have "map_of qs (pd_name p) = Some ?v" by (auto simp: map_of_map_put)
    moreover from IH 2(6) False have "map_has k ps \<longrightarrow> map_of qs k = map_of ps k" for k
      by (auto simp: map_of_map_put map_has_def)
    ultimately show ?thesis using IH 2(6) by (auto simp: map_has_def)
  qed
qed auto

lemma fillParams_ok [registry]:
  assumes "fillParams defs ps owner loc = ([], qs)" "map_ordered ps"
  shows "params_ok defs qs" and "map_has k ps \<Longrightarrow> map_of qs k = map_of ps k"
proof -
  from assms(1) have c: "check_given defs owner loc ps = []" and f: "fill_missing defs owner loc ps = ([], qs)"
    by (auto simp: fillParams_def Let_def split: if_splits)
  have "\<forall>(k, v) \<in> set ps. \<exists>p \<in> set defs. pd_name p = k \<and> value_fits p v" using check_given_ok[OF c] by blast
  from fill_missing_ok[OF f assms(2) this] show "params_ok defs qs" and "map_has k ps \<Longrightarrow> map_of qs k = map_of ps k"
    by (auto simp: params_ok_def)
qed

text \<open>A condition \<^verbatim>\<open>checkAtom\<close> has accepted.\<close>

definition is_ok :: "PfAtom \<Rightarrow> bool" where
  "is_ok a \<longleftrightarrow> at_vals a = [''true''] \<or> at_vals a = [''false'']"

definition compared_ok :: "registry \<Rightarrow> string \<Rightarrow> PfAtom \<Rightarrow> bool" where
  "compared_ok R vt a \<longleftrightarrow>
     (if at_op a = ''count'' then numericOp (at_countOp a) \<and> at_countOp a \<noteq> ''multiple_of'' else at_countOp a = []) \<and>
     (at_vals a \<noteq> [] \<or> vt = ''size'') \<and>
     (multi_op (at_op a) \<or> length (at_vals a) \<le> 1) \<and>
     (if vt = ''size'' \<and> at_op a \<noteq> ''count'' then size_target a \<noteq> None
      else if at_op a = ''count'' \<or> numericType vt \<and> (numericOp (at_op a) \<or> at_op a = ''in'' \<or> at_op a = ''not_in'')
      then length (at_nums a) = length (at_vals a) else at_nums a = []) \<and>
     (at_op a = ''matches'' \<or> at_op a = ''finds'' \<longrightarrow> (\<forall>v \<in> set (at_vals a). re_valid R v (at_icase a)))"

definition atom_ok :: "registry \<Rightarrow> PfAtom \<Rightarrow> bool" where
  "atom_ok R a \<longleftrightarrow>
     0 \<le> at_check a \<and> nat (at_check a) < length (kChecks R) \<and>
     (let d = checkDef R (at_check a)
      in cd_id d = at_token a \<and> listed (cd_operators d) (at_op a) \<and> params_ok (cd_params d) (at_params a) \<and>
         (if at_op a = ''is'' then is_ok a else compared_ok R (cd_value d) a))"

lemma quantities_length: "quantities type unit loc vs = Inr ns \<Longrightarrow> length ns = length vs"
  by (induction vs arbitrary: ns) (auto split: prod.splits if_splits sum.splits simp: map_sum_def)

lemma paperSize_two: "paperSize n = Some ns \<Longrightarrow> length ns = 2"
  by (auto simp: paperSize_def split: option.splits if_splits prod.splits)

lemma size_nums_two: "size_nums v = Some ns \<Longrightarrow> length ns = 2"
  by (auto simp: size_nums_def Let_def paperSize_two split: option.splits prod.splits if_splits)

lemma check_compared_ok:
  assumes "check_compared R vt loc a = Inr b" "at_op a \<noteq> ''is''"
  shows "\<exists>ns. b = a\<lparr>at_nums := ns\<rparr> \<and> compared_ok R vt b"
proof -
  from assms obtain ns where sh: "value_shape vt loc a = []" and ns: "atom_nums vt loc a = Inr ns"
    and re: "check_regex R loc a = []" and b: "b = a\<lparr>at_nums := ns\<rparr>"
    by (auto simp: check_compared_def split: if_splits sum.splits)
  have par: "param (a\<lparr>at_nums := ns\<rparr>) = param a" by (simp add: param_def fun_eq_iff)
  have sh': "(if at_op a = ''count'' then numericOp (at_countOp a) \<and> at_countOp a \<noteq> ''multiple_of'' else at_countOp a = [])"
    "at_vals a \<noteq> [] \<or> vt = ''size''" "multi_op (at_op a) \<or> length (at_vals a) \<le> 1"
    "vt = ''size'' \<and> at_op a \<noteq> ''count'' \<and> at_vals a = [] \<Longrightarrow> param a ''width'' \<noteq> [] \<and> param a ''height'' \<noteq> []"
    using sh by (auto simp: value_shape_def size_hint_def split: if_splits)
  have n: "if vt = ''size'' \<and> at_op a \<noteq> ''count'' then size_target b \<noteq> None
      else if at_op a = ''count'' \<or> numericType vt \<and> (numericOp (at_op a) \<or> at_op a = ''in'' \<or> at_op a = ''not_in'')
      then length (at_nums b) = length (at_vals a) else at_nums b = []"
  proof (cases "vt = ''size'' \<and> at_op a \<noteq> ''count''")
    case True
    show ?thesis
    proof (cases "at_vals a = []")
      case False
      with True ns have "length ns = 2" by (auto simp: atom_nums_def Let_def size_nums_two split: option.splits)
      with True show ?thesis by (simp add: b size_target_def Let_def)
    qed (use True sh'(4) in \<open>simp add: b size_target_def par Let_def\<close>)
  next
    case False
    have "numericType ''count''" by (simp add: numericType_def)
    with False ns show ?thesis
      by (auto simp: b atom_nums_def Let_def dest: quantities_length split: if_splits)
  qed
  have "at_op a = ''matches'' \<or> at_op a = ''finds'' \<longrightarrow> (\<forall>v \<in> set (at_vals a). re_valid R v (at_icase a))"
    using re by (auto simp: check_regex_def find_None_iff split: option.splits)
  moreover have "at_op b = at_op a" "at_countOp b = at_countOp a" "at_vals b = at_vals a" "at_icase b = at_icase a"
    by (simp_all add: b)
  ultimately have "compared_ok R vt b" using sh'(1-3) n by (simp only: compared_ok_def)
  with b show ?thesis by blast
qed

lemma check_is_ok:
  assumes "check_is loc a = Inr b"
  shows "\<exists>vs. b = a\<lparr>at_vals := vs\<rparr> \<and> is_ok b"
proof -
  let ?vs = "if at_vals a = [] then [''true''] else at_vals a"
  from assms have "b = a\<lparr>at_vals := ?vs\<rparr>" "length ?vs = 1" "hd ?vs = ''true'' \<or> hd ?vs = ''false''"
    by (auto simp: check_is_def Let_def split: if_splits)
  then show ?thesis by (intro exI[of _ ?vs]) (auto simp: is_ok_def length_Suc_conv)
qed

lemma checkAtom_ok:
  assumes "checkAtom R a loc = Inr b" "map_ordered (at_params a)"
  shows "atom_ok R b" and "at_token b = at_token a" and "at_refs b = at_refs a" and "at_tol b = at_tol a"
    and "map_has k (at_params a) \<Longrightarrow> map_of (at_params b) k = map_of (at_params a) k"
proof -
  let ?i = "checkIndex R (at_token a)"
  let ?d = "checkDef R ?i"
  define c where "c = (if at_op a = [] \<and> cd_value ?d = ''bool'' then a\<lparr>at_check := ?i, at_op := ''is''\<rparr> else a\<lparr>at_check := ?i\<rparr>)"
  have c: "at_check c = ?i" "at_token c = at_token a" "at_refs c = at_refs a" "at_params c = at_params a" "at_tol c = at_tol a"
    by (auto simp: c_def)
  obtain qs where i: "?i \<ge> 0" and op: "listed (cd_operators ?d) (at_op c)"
    and q: "fillParams (cd_params ?d) (at_params a) (cd_id ?d) loc = ([], qs)"
    and r: "(if at_op c = ''is'' then check_is loc (c\<lparr>at_params := qs\<rparr>)
             else check_compared R (cd_value ?d) loc (c\<lparr>at_params := qs\<rparr>)) = Inr b"
    using assms(1) c by (auto simp: checkAtom_def Let_def c_def split: prod.splits if_splits)
  note ps = fillParams_ok[OF q assms(2)]
  note d = checkIndex_def_id[OF i]
  have "atom_ok R b \<and> at_token b = at_token a \<and> at_refs b = at_refs a \<and> at_tol b = at_tol a \<and> at_params b = qs"
  proof (cases "at_op c = ''is''")
    case True
    with r check_is_ok obtain vs where "b = c\<lparr>at_params := qs, at_vals := vs\<rparr>" "is_ok b" by fastforce
    with True i op d ps(1) c show ?thesis by (simp add: atom_ok_def Let_def)
  next
    case False
    with r check_compared_ok[of R "cd_value ?d" loc "c\<lparr>at_params := qs\<rparr>" b] obtain ns
      where "b = c\<lparr>at_params := qs, at_nums := ns\<rparr>" "compared_ok R (cd_value ?d) b" by auto
    with False i op d ps(1) c show ?thesis by (simp add: atom_ok_def Let_def)
  qed
  with ps(2) show "atom_ok R b" "at_token b = at_token a" "at_refs b = at_refs a" "at_tol b = at_tol a"
    "map_has k (at_params a) \<Longrightarrow> map_of (at_params b) k = map_of (at_params a) k" by simp_all
qed

lemma checkFix_ok:
  assumes "checkFix R f loc = Inr g" "map_ordered (fx_args f)"
  shows "fx_id g = fx_id f" and "fx_onlyWhere g = fx_onlyWhere f" and "fx_fix g = fixIndex R (fx_id f)"
    and "fx_fix g \<ge> 0 \<Longrightarrow> params_ok (fd_params (kFixes R ! nat (fx_fix g))) (fx_args g)"
  using assms by (auto simp: checkFix_def Let_def fillParams_ok split: if_splits prod.splits)

section \<open>Comparing\<close>

lemma less_le_d: "a \<noteq> NaN \<Longrightarrow> b \<noteq> NaN \<Longrightarrow> less_d a b \<longleftrightarrow> \<not> le_d b a"
  by (cases a; cases b) (auto simp: le_d_def split: prod.splits)

lemma sub_d_finite: "finite_d a \<Longrightarrow> finite_d b \<Longrightarrow> sub_d a b \<noteq> NaN \<and> add_d a b \<noteq> NaN"
  by (cases a; cases b) (auto simp: sub_d_def round_pq_def Let_def split: prod.splits if_splits)

lemma cmpNumbers_complement:
  assumes "finite_d l" "finite_d r" "finite_d tol"
  shows "cmpNumbers l ''<'' r tol \<longleftrightarrow> \<not> cmpNumbers l ''>='' r tol"
    and "cmpNumbers l ''>'' r tol \<longleftrightarrow> \<not> cmpNumbers l ''<='' r tol"
    and "cmpNumbers l ''=='' r tol \<longleftrightarrow> \<not> cmpNumbers l ''!='' r tol"
proof -
  have "l \<noteq> NaN" using assms(1) by auto
  with sub_d_finite[OF assms(2,3)] 
  show "cmpNumbers l ''<'' r tol \<longleftrightarrow> \<not> cmpNumbers l ''>='' r tol"
    "cmpNumbers l ''>'' r tol \<longleftrightarrow> \<not> cmpNumbers l ''<='' r tol"
    "cmpNumbers l ''=='' r tol \<longleftrightarrow> \<not> cmpNumbers l ''!='' r tol"
   by (simp_all add: cmpNumbers_def Let_def less_le_d)
qed

lemma atom_negate_simps [simp]:
  "param (a\<lparr>at_negate := n\<rparr>) = param a" "paramBool (a\<lparr>at_negate := n\<rparr>) = paramBool a"
  "fold_case (a\<lparr>at_negate := n\<rparr>) = fold_case a" "size_target (a\<lparr>at_negate := n\<rparr>) = size_target a"
  by (auto simp add: fun_eq_iff param_def paramBool_def fold_case_def size_target_def Let_def)

lemma match_negate_simps [simp]:
  "textOp R t p (a\<lparr>at_negate := n\<rparr>) = textOp R t p a" "sizeOp w h (a\<lparr>at_negate := n\<rparr>) = sizeOp w h a"
  "number_text R t (a\<lparr>at_negate := n\<rparr>) = number_text R t a"
  by (simp_all add: textOp_def sizeOp_def number_text_def Let_def split: option.split prod.split)

lemma scalarMatch_negate [simp]: "scalarMatch R v (a\<lparr>at_negate := n\<rparr>) = scalarMatch R v a"
  by (cases v) (simp_all add: scalarMatch_def Let_def)

text \<open>
  C26. Negation in a condition is complement. For a value that is not a list, exactly one of a
  condition and its negation holds (one hit). For a list, \<^verbatim>\<open>count\<close>, \<^verbatim>\<open>includes\<close> and
  \<^verbatim>\<open>excludes\<close> judge the list, and again exactly one of the two has hits; every other operator
  judges the elements, and the hits of the two together are all elements. A missing value never
  hits, negated or not.
\<close>

theorem compare_negate:
  "compare R VNone a = 0 \<and>
   (let neg = compare R v (a\<lparr>at_negate := True\<rparr>); pos = compare R v (a\<lparr>at_negate := False\<rparr>)
    in case v of
         VNone \<Rightarrow> neg = 0 \<and> pos = 0
       | VList l \<Rightarrow> if at_op a \<in> {''count'', ''includes'', ''excludes''} then (neg > 0) \<noteq> (pos > 0)
                    else neg + pos = int (length l)
       | _ \<Rightarrow> neg + pos = 1)"
proof (cases v)
  case (VList l)
  show ?thesis
  proof (cases "at_op a \<in> {''includes'', ''excludes''}")
    case True
    then have "(list_wants (a\<lparr>at_negate := True\<rparr>) l > 0) \<noteq> (list_wants (a\<lparr>at_negate := False\<rparr>) l > 0)"
      by (auto simp: list_wants_def Let_def)
    with True VList show ?thesis by (auto simp: compare_def Let_def)
  next
    case False
    then show ?thesis using VList sum_length_filter_compl[of "\<lambda>e. scalarMatch R (VText e) a" l]
      by (auto simp: compare_def Let_def)
  qed
qed (auto simp: compare_def Let_def)

section \<open>Evaluators are found\<close>

lemma evaluator_add_find:
  assumes "evaluator_add R s fn fns = Inr t" "fns = [] \<or> length fns = length (kChecks R)"
  shows "length t = length (kChecks R)" "evaluator_find t i = (if i = checkIndex R s then Some fn else evaluator_find fns i)"
    "evaluator_find fns (checkIndex R s) = None" "checkIndex R s \<ge> 0"
proof -
  let ?c = "checkIndex R s"
  let ?f = "if fns = [] then replicate (length (kChecks R)) None else fns"
  from assms(1) have c: "?c \<ge> 0" and t: "t = ?f[nat ?c := Some fn]" "?f ! nat ?c = None"
    by (auto simp: evaluator_add_def Let_def split: if_splits)
  from checkIndex_def_id[OF c] have l: "nat ?c < length ?f" using assms(2) by auto
  have f: "evaluator_find ?f i = evaluator_find fns i" for i by (auto simp: evaluator_find_def)
  have "evaluator_find t i = (if i = ?c then Some fn else evaluator_find ?f i)"
    using c l by (auto simp: evaluator_find_def t nth_list_update)
  with f show "evaluator_find t i = (if i = ?c then Some fn else evaluator_find fns i)" by simp
  have "evaluator_find ?f ?c = None" using c t(2) by (simp add: evaluator_find_def)
  with f show "evaluator_find fns ?c = None" by simp
  show "length t = length (kChecks R)" "?c \<ge> 0" using c assms(2) by (auto simp: t)
qed

lemma register_find:
  assumes "register R rs fns = Inr t" "fns = [] \<or> length fns = length (kChecks R)"
  shows "(\<forall>(s, fn) \<in> set rs. checkIndex R s \<ge> 0 \<and> evaluator_find t (checkIndex R s) = Some fn) \<and>
    distinct (map (\<lambda>r. checkIndex R (fst r)) rs) \<and>
    (\<forall>i. i \<notin> (\<lambda>r. checkIndex R (fst r)) ` set rs \<longrightarrow> evaluator_find t i = evaluator_find fns i) \<and>
    (\<forall>r \<in> set rs. evaluator_find fns (checkIndex R (fst r)) = None)"
  using assms
proof (induction R rs fns rule: register.induct)
  case (2 R s fn rs fns)
  then obtain u where u: "evaluator_add R s fn fns = Inr u" and r: "register R rs u = Inr t" by (auto split: sum.splits)
  note a = evaluator_add_find[OF u 2(3)]
  have "u = [] \<or> length u = length (kChecks R)" using a(1) by simp
  note IH = 2(1)[OF u r this]
  let ?c = "checkIndex R s"
  have n: "?c \<notin> (\<lambda>r. checkIndex R (fst r)) ` set rs"
  proof
    assume "?c \<in> (\<lambda>r. checkIndex R (fst r)) ` set rs"
    then have "evaluator_find u ?c = None" using IH by auto
    with a(2) show False by simp
  qed
  with IH have c: "evaluator_find t ?c = Some fn" using a(2)[of ?c] by simp
  have o: "evaluator_find fns (checkIndex R (fst r)) = None" if "r \<in> set rs" for r
    using IH a(2)[of "checkIndex R (fst r)"] n that by (auto split: if_splits)
  have k: "evaluator_find t i = evaluator_find fns i" if "i \<notin> (\<lambda>r. checkIndex R (fst r)) ` set ((s, fn) # rs)" for i
    using IH a(2)[of i] that by auto
  show ?case using IH n c o k a(3,4) by auto
qed auto

end
