(* ===== verification/Profile_Reader.thy ===== *)
theory Profile_Reader
  imports Registry
begin

text \<open>
  The reader of preflight profiles (\<^verbatim>\<open>Parser\<close> and \<^verbatim>\<open>parseKuraJson\<close> of
  \<^verbatim>\<open>profile_parse.cpp\<close>, the types of \<^verbatim>\<open>profile_types.hh\<close>). The reader fills a profile and
  stops at the first error; on an error the caller empties the profile, so a failing step is
  \<open>Inl\<close> of its message here and has no profile. The members of a JSON object are walked in the
  order of the text, repeated ones included, as the source does.
\<close>

named_theorems accepts \<comment> \<open>when a reading step succeeds, and with what\<close>

section \<open>Steps that may fail\<close>

definition bind_e :: "'e + 'a \<Rightarrow> ('a \<Rightarrow> 'e + 'b) \<Rightarrow> 'e + 'b" where
  "bind_e m f = (case m of Inl e \<Rightarrow> Inl e | Inr x \<Rightarrow> f x)"

text \<open>A loop that stops at the first failing round, and one that keeps the results.\<close>

fun fold_e :: "('a \<Rightarrow> 's \<Rightarrow> 'e + 's) \<Rightarrow> 'a list \<Rightarrow> 's \<Rightarrow> 'e + 's" where
  "fold_e f [] s = Inr s"
| "fold_e f (x # xs) s = bind_e (f x s) (fold_e f xs)"

fun map_e :: "(nat \<Rightarrow> 'a \<Rightarrow> 'e + 'b) \<Rightarrow> nat \<Rightarrow> 'a list \<Rightarrow> 'e + 'b list" where
  "map_e f k [] = Inr []"
| "map_e f k (x # xs) = bind_e (f k x) (\<lambda>y. bind_e (map_e f (Suc k) xs) (\<lambda>ys. Inr (y # ys)))"

definition check_e :: "bool \<Rightarrow> 'e \<Rightarrow> 'e + unit" where
  "check_e b e = (if b then Inr () else Inl e)"

lemma bind_e_Inr [accepts]: "bind_e m f = Inr y \<longleftrightarrow> (\<exists>x. m = Inr x \<and> f x = Inr y)"
  by (auto simp: bind_e_def split: sum.splits)

lemma check_e_Inr [accepts]: "check_e b e = Inr u \<longleftrightarrow> b"
  by (simp add: check_e_def)

lemma fold_e_rule:
  assumes "fold_e f xs s = Inr t" "I s" "\<And>x s t. x \<in> set xs \<Longrightarrow> I s \<Longrightarrow> f x s = Inr t \<Longrightarrow> I t"
  shows "I t"
  using assms by (induction xs arbitrary: s) (auto simp: bind_e_Inr)

lemma map_e_Inr [accepts]:
  "map_e f k xs = Inr ys \<longleftrightarrow> length ys = length xs \<and> (\<forall>i < length xs. f (k + i) (xs ! i) = Inr (ys ! i))"
proof (induction xs arbitrary: k ys)
  case (Cons x xs)
  show ?case
    by (cases ys) (auto simp: bind_e_Inr Cons.IH All_less_Suc2)
qed auto

section \<open>Profiles\<close>

type_synonym PfCondition = "PfAtom list"

record PfRule =
  r_id :: string
  r_name :: string
  r_description :: string
  r_severity :: int
  r_logic :: int
  r_scope :: int
  r_silent :: bool
  r_reportDocHits :: string
  r_reportPageHits :: string
  r_maxHitsPerPage :: int
  r_condIds :: "string list"

definition PfRule0 :: PfRule where
  "PfRule0 = \<lparr>r_id = [], r_name = [], r_description = [], r_severity = 1, r_logic = 0, r_scope = 0,
     r_silent = False, r_reportDocHits = [], r_reportPageHits = [], r_maxHitsPerPage = 0, r_condIds = []\<rparr>"

record PfShape =
  sh_box :: string
  sh_check :: string
  sh_offset :: double

definition PfShape0 :: PfShape where
  "PfShape0 = \<lparr>sh_box = [], sh_check = [], sh_offset = zero_d\<rparr>"

record PfProfile =
  pf_name :: string
  pf_description :: string
  pf_conds :: "(string \<times> PfCondition) list"
  pf_rules :: "PfRule list"
  pf_ruleIndex :: "(string \<times> PfRule) list"
  pf_fixes :: "PfFix list"
  pf_shapes :: "(string \<times> PfShape) list"

definition PfProfile0 :: PfProfile where
  "PfProfile0 = \<lparr>pf_name = [], pf_description = [], pf_conds = [], pf_rules = [], pf_ruleIndex = [],
     pf_fixes = [], pf_shapes = []\<rparr>"

section \<open>Values\<close>

fun is_scalar :: "Json \<Rightarrow> bool" where
  "is_scalar (JStr _) = True"
| "is_scalar (JNum _) = True"
| "is_scalar (JBool _) = True"
| "is_scalar _ = False"

definition scalarList :: "Json \<Rightarrow> string list option" where
  "scalarList v =
     (case v of
        JArr xs \<Rightarrow> if list_all is_scalar xs then Some (map json_text xs) else None
      | _ \<Rightarrow> if is_scalar v then Some [json_text v] else None)"

definition joinList :: "string list \<Rightarrow> string" where
  "joinList v = join_with [CHR 0x0A] v"

definition comparison_char :: "char \<Rightarrow> bool" where
  "comparison_char c \<longleftrightarrow> c \<in> {CHR ''<'', CHR ''>'', CHR ''='', CHR ''!''}"

definition hitsRule :: "string \<Rightarrow> bool" where
  "hitsRule s =
     (let t = dropWhile (\<lambda>c. c = CHR '' '') s;
          p = takeWhile comparison_char t;
          rest = cstr (dropWhile comparison_char t);
          e = snd (strtod rest)
      in p \<in> {''<'', ''<='', ''=='', ''!='', ''>='', ''>''} \<and> e \<noteq> rest \<and> dropWhile (\<lambda>c. c = CHR '' '') e = [])"

text \<open>The text of a member that must be text, empty for any other value.\<close>

fun str_of :: "Json \<Rightarrow> string" where
  "str_of (JStr s) = s"
| "str_of _ = []"

section \<open>Conditions\<close>

fun names_of :: "string \<Rightarrow> Json list \<Rightarrow> string + string list" where
  "names_of err [] = Inr []"
| "names_of err (JStr s # xs) = bind_e (names_of err xs) (\<lambda>ys. Inr (s # ys))"
| "names_of err (_ # xs) = Inl err"

definition list_field :: "string \<Rightarrow> Json \<Rightarrow> string + string list" where
  "list_field at v =
     (case scalarList v of None \<Rightarrow> Inl (at @ '': expected a value or a list of values'') | Some xs \<Rightarrow> Inr xs)"

text \<open>One member of a condition; the second component of the state is the tolerance met so far.\<close>

definition atom_field :: "string \<Rightarrow> string \<times> Json \<Rightarrow> PfAtom \<times> Json option \<Rightarrow> string + (PfAtom \<times> Json option)" where
  "atom_field loc kv st =
     (case (kv, st) of ((key, v), (a, tol)) \<Rightarrow>
        let at = loc @ ''.'' @ key
        in if key = ''check'' then
             (case v of JStr s \<Rightarrow> Inr (a\<lparr>at_token := s\<rparr>, tol) | _ \<Rightarrow> Inl (at @ '': expected a check id''))
           else if key = ''op'' then
             (case v of JStr s \<Rightarrow> Inr (a\<lparr>at_op := s\<rparr>, tol) | _ \<Rightarrow> Inl (at @ '': expected an operator''))
           else if key = ''compare'' then
             (case v of JStr s \<Rightarrow> Inr (a\<lparr>at_countOp := s\<rparr>, tol) | _ \<Rightarrow> Inl (at @ '': expected an operator''))
           else if key = ''value'' then
             bind_e (list_field at v) (\<lambda>xs. Inr (a\<lparr>at_vals := at_vals a @ xs\<rparr>, tol))
           else if key = ''negate'' then
             (case v of JBool b \<Rightarrow> Inr (a\<lparr>at_negate := b\<rparr>, tol) | _ \<Rightarrow> Inl (at @ '': expected true or false''))
           else if key = ''case_sensitive'' then
             (case v of JBool b \<Rightarrow> Inr (a\<lparr>at_icase := \<not> b\<rparr>, tol) | _ \<Rightarrow> Inl (at @ '': expected true or false''))
           else if key = ''tolerance'' then
             (case v of JNum _ \<Rightarrow> Inr (a, Some v) | JStr _ \<Rightarrow> Inr (a, Some v) | _ \<Rightarrow> Inl (at @ '': expected a number''))
           else if key = ''objects'' then
             (case v of
                JArr xs \<Rightarrow> bind_e (names_of (at @ '': expected a list of check names'') xs)
                             (\<lambda>ns. Inr (a\<lparr>at_refs := at_refs a @ ns\<rparr>, tol))
              | _ \<Rightarrow> Inl (at @ '': expected a list of check names''))
           else bind_e (list_field at v) (\<lambda>xs. Inr (a\<lparr>at_params := map_put key (joinList xs) (at_params a)\<rparr>, tol)))"

text \<open>A tolerance is a parameter of the checks that declare one.\<close>

definition place_tolerance :: "registry \<Rightarrow> PfAtom \<times> Json option \<Rightarrow> PfAtom \<times> Json option" where
  "place_tolerance R st =
     (case st of
        (a, Some t) \<Rightarrow>
          let ci = checkIndex R (at_token a)
          in if ci \<ge> 0 \<and> findParam (cd_params (checkDef R ci)) ''tolerance'' \<noteq> None
             then (a\<lparr>at_params := map_put ''tolerance'' (json_text t) (at_params a)\<rparr>, None) else st
      | _ \<Rightarrow> st)"

definition read_tolerance :: "registry \<Rightarrow> string \<Rightarrow> Json option \<Rightarrow> PfAtom \<Rightarrow> string + PfAtom" where
  "read_tolerance R loc tol a =
     (case tol of
        None \<Rightarrow> Inr a
      | Some j \<Rightarrow>
          let type = cd_value (checkDef R (at_check a)); unit = param a ''unit'';
              (t, ok) = parseQuantity (json_text j) (if type = ''size'' then ''length'' else type)
                          (if unit = [] then ''pt'' else unit)
          in if \<not> ok then Inl (loc @ ''.tolerance: '' @ json_text j @ '' is not a '' @ type)
             else Inr (a\<lparr>at_tol := abs_d t\<rparr>))"

definition atom :: "registry \<Rightarrow> string \<Rightarrow> Json \<Rightarrow> string + PfAtom" where
  "atom R loc j =
     (case j of
        JObj kvs \<Rightarrow>
          bind_e (fold_e (atom_field loc) kvs (PfAtom0, None)) (\<lambda>st.
          bind_e (check_e (at_token (fst st) \<noteq> []) (loc @ ''.check: missing'')) (\<lambda>_.
            let st' = place_tolerance R st
            in bind_e (checkAtom R (fst st') loc) (read_tolerance R loc (snd st'))))
      | _ \<Rightarrow> Inl (loc @ '': expected an object''))"

definition condition :: "registry \<Rightarrow> string \<Rightarrow> Json \<Rightarrow> string + PfCondition" where
  "condition R loc j =
     (if json_arr j = [] then Inl (loc @ '': expected a non-empty list of conditions'')
      else map_e (\<lambda>k. atom R (loc @ ''['' @ nat_str k @ '']'')) 0 (json_arr j))"

section \<open>Checks\<close>

definition known_fields :: "string list" where
  "known_fields = [''name'', ''severity'', ''description'', ''all'', ''any'', ''scope'', ''report_when'',
     ''max_hits_per_page'', ''silent'']"

definition only_known :: "string list \<Rightarrow> string \<Rightarrow> Json \<Rightarrow> string + unit" where
  "only_known known pre j =
     (case find (\<lambda>kv. fst kv \<notin> set known) (json_obj j) of
        None \<Rightarrow> Inr () | Some kv \<Rightarrow> Inl (pre @ fst kv @ '': unknown field''))"

definition read_severity :: "string \<Rightarrow> Json \<Rightarrow> PfRule \<Rightarrow> string + PfRule" where
  "read_severity loc c r =
     (case json_get c ''severity'' of
        None \<Rightarrow> Inr r
      | Some sv \<Rightarrow>
          let s = str_of sv
          in if s \<noteq> ''error'' \<and> s \<noteq> ''warning'' \<and> s \<noteq> ''info''
             then Inl (loc @ ''.severity: expected error, warning or info'')
             else Inr (r\<lparr>r_severity := (if s = ''error'' then 3 else if s = ''warning'' then 2 else 1)\<rparr>))"

definition read_description :: "string \<Rightarrow> Json \<Rightarrow> PfRule \<Rightarrow> string + PfRule" where
  "read_description loc c r =
     (case json_get c ''description'' of
        None \<Rightarrow> Inr r
      | Some (JStr s) \<Rightarrow> Inr (r\<lparr>r_description := s\<rparr>)
      | Some _ \<Rightarrow> Inl (loc @ ''.description: expected text''))"

definition read_scope :: "string \<Rightarrow> Json \<Rightarrow> PfRule \<Rightarrow> string + PfRule" where
  "read_scope loc c r =
     (case json_get c ''scope'' of
        None \<Rightarrow> Inr r
      | Some sc \<Rightarrow>
          let s = str_of sc
          in if s \<noteq> ''page'' \<and> s \<noteq> ''trim'' \<and> s \<noteq> ''bleed'' then Inl (loc @ ''.scope: expected page, trim or bleed'')
             else Inr (r\<lparr>r_scope := (if s = ''trim'' then 2 else if s = ''bleed'' then 3 else 0)\<rparr>))"

definition report_field :: "string \<Rightarrow> string \<times> Json \<Rightarrow> PfRule \<Rightarrow> string + PfRule" where
  "report_field loc kv r =
     (case kv of (k, v) \<Rightarrow>
        if k \<noteq> ''document_hits'' \<and> k \<noteq> ''page_hits'' then Inl (loc @ ''.report_when.'' @ k @ '': unknown field'')
        else case v of
          JStr s \<Rightarrow>
            if \<not> hitsRule s
            then Inl (loc @ ''.report_when.'' @ k @ '': expected a comparison such as '' @ quoted ''> 3'')
            else Inr (if k = ''document_hits'' then r\<lparr>r_reportDocHits := s\<rparr> else r\<lparr>r_reportPageHits := s\<rparr>)
        | _ \<Rightarrow> Inl (loc @ ''.report_when.'' @ k @ '': expected a comparison such as '' @ quoted ''> 3''))"

definition read_report :: "string \<Rightarrow> Json \<Rightarrow> PfRule \<Rightarrow> string + PfRule" where
  "read_report loc c r =
     (case json_get c ''report_when'' of
        None \<Rightarrow> Inr r
      | Some (JObj kvs) \<Rightarrow> fold_e (report_field loc) kvs r
      | Some _ \<Rightarrow> Inl (loc @ ''.report_when: expected an object''))"

text \<open>
  The conversion of the number to \<^verbatim>\<open>long long\<close> is defined below \<open>2 ^ 63\<close>; from there on it
  is undefined behaviour, and an exact integer here.
\<close>

definition read_max_hits :: "string \<Rightarrow> Json \<Rightarrow> PfRule \<Rightarrow> string + PfRule" where
  "read_max_hits loc c r =
     (case json_get c ''max_hits_per_page'' of
        None \<Rightarrow> Inr r
      | Some (JNum n) \<Rightarrow>
          if less_d n zero_d \<or> \<not> eq_d n (floor_d n) then Inl (loc @ ''.max_hits_per_page: expected a whole number'')
          else Inr (r\<lparr>r_maxHitsPerPage := trunc_d n\<rparr>)
      | Some _ \<Rightarrow> Inl (loc @ ''.max_hits_per_page: expected a whole number''))"

definition read_silent :: "string \<Rightarrow> Json \<Rightarrow> PfRule \<Rightarrow> string + PfRule" where
  "read_silent loc c r =
     (case json_get c ''silent'' of
        None \<Rightarrow> Inr r
      | Some (JBool b) \<Rightarrow> Inr (r\<lparr>r_silent := b\<rparr>)
      | Some _ \<Rightarrow> Inl (loc @ ''.silent: expected true or false''))"

text \<open>The groups of conditions: one under \<open>all\<close>, or one for each alternative under \<open>any\<close>.\<close>

definition alternative :: "string \<Rightarrow> nat \<Rightarrow> Json \<Rightarrow> string + (Json \<times> string)" where
  "alternative loc g alt =
     (let at = loc @ ''.any['' @ nat_str g @ '']''
      in case json_get alt ''all'' of
           Some x \<Rightarrow>
             if length (json_obj alt) \<noteq> 1
             then Inl (at @ '': expected {'' @ quoted ''all'' @ '': [...]}'') else Inr (x, at @ ''.all'')
         | None \<Rightarrow> Inl (at @ '': expected {'' @ quoted ''all'' @ '': [...]}''))"

definition groups :: "string \<Rightarrow> Json \<Rightarrow> string + (int \<times> (Json \<times> string) list)" where
  "groups loc c =
     (case (json_get c ''all'', json_get c ''any'') of
        (Some x, None) \<Rightarrow> Inr (0, [(x, loc @ ''.all'')])
      | (None, Some y) \<Rightarrow>
          if json_arr y = [] then Inl (loc @ ''.any: expected a non-empty list'')
          else bind_e (map_e (alternative loc) 0 (json_arr y)) (\<lambda>gs. Inr (1, gs))
      | _ \<Rightarrow> Inl (loc @ '': needs either all or any''))"

definition cond_id :: "PfRule \<Rightarrow> nat \<Rightarrow> string" where
  "cond_id r g = ''C'' @ r_id r @ ''_'' @ nat_str g"

fun put_conds :: "PfRule \<Rightarrow> nat \<Rightarrow> PfCondition list \<Rightarrow> (string \<times> PfCondition) list \<Rightarrow> (string \<times> PfCondition) list" where
  "put_conds r g [] m = m"
| "put_conds r g (c # cs) m = put_conds r (Suc g) cs (map_put (cond_id r g) c m)"

text \<open>All fields of a check after its name.\<close>

definition rule_fields :: "string \<Rightarrow> Json \<Rightarrow> PfRule \<Rightarrow> string + PfRule" where
  "rule_fields loc c r =
     bind_e (read_severity loc c r) (\<lambda>r.
     bind_e (read_description loc c r) (\<lambda>r.
     bind_e (read_scope loc c r) (\<lambda>r.
     bind_e (read_report loc c r) (\<lambda>r.
     bind_e (read_max_hits loc c r) (read_silent loc c)))))"

definition rule_groups :: "registry \<Rightarrow> string \<Rightarrow> Json \<Rightarrow> string + (int \<times> PfCondition list)" where
  "rule_groups R loc c =
     bind_e (groups loc c) (\<lambda>lg.
     bind_e (map_e (\<lambda>_ (x, at). condition R at x) 0 (snd lg)) (\<lambda>cs. Inr (fst lg, cs)))"

definition add_rule :: "PfRule \<Rightarrow> PfCondition list \<Rightarrow> PfProfile \<Rightarrow> PfProfile" where
  "add_rule r cs p =
     p\<lparr>pf_conds := put_conds r 0 cs (pf_conds p),
       pf_ruleIndex := map_put (r_name r) r (map_put (r_id r) r (pf_ruleIndex p)),
       pf_rules := pf_rules p @ [r]\<rparr>"

definition rule_name :: "string \<Rightarrow> Json \<Rightarrow> string + string" where
  "rule_name loc c =
     (case json_get c ''name'' of
        Some (JStr s) \<Rightarrow> if s = [] then Inl (loc @ ''.name: missing'') else Inr s
      | _ \<Rightarrow> Inl (loc @ ''.name: missing''))"

definition rule_id :: "nat \<Rightarrow> string" where
  "rule_id index = ''K'' @ nat_str (index + 1)"

text \<open>The names of the checks so far are those of the rules; the source keeps them in a set.\<close>

definition check :: "registry \<Rightarrow> nat \<times> Json \<Rightarrow> PfProfile \<times> string set \<Rightarrow> string + (PfProfile \<times> string set)" where
  "check R ic st =
     (case (ic, st) of ((index, c), (p, names)) \<Rightarrow>
        let loc = ''checks['' @ nat_str index @ '']''
        in bind_e (check_e (case c of JObj _ \<Rightarrow> True | _ \<Rightarrow> False) (loc @ '': expected an object'')) (\<lambda>_.
           bind_e (only_known known_fields (loc @ ''.'') c) (\<lambda>_.
           bind_e (rule_name loc c) (\<lambda>n.
           bind_e (check_e (n \<notin> names) (loc @ ''.name: duplicate check name '' @ quoted n)) (\<lambda>_.
             let loc = ''check '' @ quoted n
             in bind_e (rule_fields loc c (PfRule0\<lparr>r_id := rule_id index, r_name := n\<rparr>)) (\<lambda>r.
                bind_e (rule_groups R loc c) (\<lambda>lg.
                  let r = r\<lparr>r_logic := fst lg\<rparr>;
                      r = r\<lparr>r_condIds := map (cond_id r) [0..<length (snd lg)]\<rparr>
                  in Inr (add_rule r (snd lg) p, insert n names))))))))"

section \<open>Fixes, shapes and the profile\<close>

fun rule_names :: "string \<Rightarrow> (string \<times> PfRule) list \<Rightarrow> string list \<Rightarrow> string + unit" where
  "rule_names at idx [] = Inr ()"
| "rule_names at idx (n # ns) =
     (case map_of idx n of
        Some r \<Rightarrow> if r_name r = n then rule_names at idx ns else Inl (at @ '': no check named '' @ quoted n)
      | None \<Rightarrow> Inl (at @ '': no check named '' @ quoted n))"

definition fix_field :: "PfProfile \<Rightarrow> string \<Rightarrow> string \<times> Json \<Rightarrow> PfFix \<Rightarrow> string + PfFix" where
  "fix_field p loc kv f =
     (case kv of (key, v) \<Rightarrow>
        let at = loc @ ''.'' @ key
        in if key = ''fix'' then
             (if str_of v = [] then Inl (at @ '': expected a fix id'') else Inr (f\<lparr>fx_id := str_of v\<rparr>))
           else if key = ''only_where'' then
             (case (v, scalarList v) of
                (JArr _, Some ns) \<Rightarrow>
                  bind_e (rule_names at (pf_ruleIndex p) ns) (\<lambda>_. Inr (f\<lparr>fx_onlyWhere := fx_onlyWhere f @ ns\<rparr>))
              | _ \<Rightarrow> Inl (at @ '': expected a list of check names''))
           else bind_e (list_field at v) (\<lambda>xs. Inr (f\<lparr>fx_args := map_put key (joinList xs) (fx_args f)\<rparr>)))"

definition read_fix :: "registry \<Rightarrow> PfProfile \<Rightarrow> nat \<Rightarrow> Json \<Rightarrow> string + PfFix" where
  "read_fix R p index j =
     (let loc = ''fixes['' @ nat_str index @ '']''
      in case j of
           JObj kvs \<Rightarrow>
             bind_e (fold_e (fix_field p loc) kvs PfFix0) (\<lambda>f.
             bind_e (check_e (fx_id f \<noteq> []) (loc @ ''.fix: missing'')) (\<lambda>_. checkFix R f loc))
         | _ \<Rightarrow> Inl (loc @ '': expected an object''))"

definition page_boxes :: "string list" where
  "page_boxes = [''media'', ''crop'', ''bleed'', ''trim'', ''art'']"

definition shape_field :: "string set \<Rightarrow> string \<Rightarrow> string \<times> Json \<Rightarrow> PfShape \<Rightarrow> string + PfShape" where
  "shape_field names at kv sh =
     (case kv of (key, v) \<Rightarrow>
        let t = json_text v
        in if key = ''box'' then
             (if t \<notin> set page_boxes then Inl (at @ ''.box: '' @ quoted t @ '' is not one of media,crop,bleed,trim,art'')
              else Inr (sh\<lparr>sh_box := t\<rparr>))
           else if key = ''check'' then
             (if t \<notin> names then Inl (at @ ''.check: no check named '' @ quoted t) else Inr (sh\<lparr>sh_check := t\<rparr>))
           else if key = ''offset'' then
             (case lengthToPt t ''pt'' of (v, ok) \<Rightarrow>
                if \<not> ok then Inl (at @ ''.offset: '' @ t @ '' is not a length'') else Inr (sh\<lparr>sh_offset := v\<rparr>))
           else Inl (at @ ''.'' @ key @ '': unknown field''))"

definition read_shape :: "string set \<Rightarrow> string \<times> Json \<Rightarrow> PfProfile \<Rightarrow> string + PfProfile" where
  "read_shape names kv p =
     (case kv of (n, d) \<Rightarrow>
        let at = ''shapes.'' @ n
        in case d of
             JObj kvs \<Rightarrow>
               bind_e (fold_e (shape_field names at) kvs PfShape0) (\<lambda>sh.
               bind_e (check_e ((sh_box sh = []) \<noteq> (sh_check sh = [])) (at @ '': give either box or check'')) (\<lambda>_.
                 Inr (p\<lparr>pf_shapes := map_put n sh (pf_shapes p)\<rparr>)))
           | _ \<Rightarrow> Inl (at @ '': expected an object''))"

text \<open>A shape condition must name a page box, a shape or a check, unless it holds a placeholder.\<close>

definition shape_known :: "string set \<Rightarrow> PfProfile \<Rightarrow> PfAtom \<Rightarrow> bool" where
  "shape_known names p a \<longleftrightarrow>
     (let sh = param a ''shape''
      in at_token a \<noteq> ''content.shape_relation'' \<or> CHR ''{'' \<in> set sh \<or> sh \<in> set page_boxes \<or>
         map_has sh (pf_shapes p) \<or> sh \<in> names)"

definition check_shapes :: "string set \<Rightarrow> PfProfile \<Rightarrow> string + unit" where
  "check_shapes names p =
     (case find (\<lambda>a. \<not> shape_known names p a) (concat (map snd (pf_conds p))) of
        None \<Rightarrow> Inr ()
      | Some a \<Rightarrow> Inl (''content.shape_relation.shape: '' @ quoted (param a ''shape'') @
                        '' is not a page box, a shape or a check name''))"

definition profile_fields :: "string list" where
  "profile_fields = [''kura-profile'', ''name'', ''description'', ''variables'', ''shapes'', ''checks'', ''fixes'',
     ''convert'', ''plan'']"

definition text_field :: "string \<Rightarrow> Json \<Rightarrow> string + string" where
  "text_field key root =
     (case json_get root key of
        None \<Rightarrow> Inr []
      | Some (JStr s) \<Rightarrow> Inr s
      | Some _ \<Rightarrow> Inl (key @ '': expected text''))"

definition read_version :: "Json \<Rightarrow> string + unit" where
  "read_version root =
     (case json_get root ''kura-profile'' of
        None \<Rightarrow> Inl ''kura-profile: missing''
      | Some (JNum n) \<Rightarrow> check_e (eq_d n (of_int_d 1)) ''kura-profile: expected 1''
      | Some _ \<Rightarrow> Inl ''kura-profile: expected 1'')"

definition read_checks :: "registry \<Rightarrow> Json \<Rightarrow> PfProfile \<Rightarrow> string + (PfProfile \<times> string set)" where
  "read_checks R root p =
     (case json_get root ''checks'' of
        None \<Rightarrow> Inr (p, {})
      | Some (JArr cs) \<Rightarrow> fold_e (check R) (enumerate 0 cs) (p, {})
      | Some _ \<Rightarrow> Inl ''checks: expected a list'')"

definition read_shapes :: "Json \<Rightarrow> string set \<Rightarrow> PfProfile \<Rightarrow> string + PfProfile" where
  "read_shapes root names p =
     (case json_get root ''shapes'' of
        None \<Rightarrow> Inr p
      | Some (JObj kvs) \<Rightarrow> fold_e (read_shape names) kvs p
      | Some _ \<Rightarrow> Inl ''shapes: expected an object'')"

definition read_fixes :: "registry \<Rightarrow> Json \<Rightarrow> PfProfile \<Rightarrow> string + PfProfile" where
  "read_fixes R root p =
     (case json_get root ''fixes'' of
        None \<Rightarrow> Inr p
      | Some (JArr fs) \<Rightarrow> bind_e (map_e (read_fix R p) 0 fs) (\<lambda>xs. Inr (p\<lparr>pf_fixes := xs\<rparr>))
      | Some _ \<Rightarrow> Inl ''fixes: expected a list'')"

definition profile :: "registry \<Rightarrow> Json \<Rightarrow> string + PfProfile" where
  "profile R root =
     bind_e (check_e (case root of JObj _ \<Rightarrow> True | _ \<Rightarrow> False) ''profile: expected a JSON object'') (\<lambda>_.
     bind_e (read_version root) (\<lambda>_.
     bind_e (only_known profile_fields [] root) (\<lambda>_.
     bind_e (text_field ''name'' root) (\<lambda>n.
     bind_e (text_field ''description'' root) (\<lambda>d.
     bind_e (read_checks R root (PfProfile0\<lparr>pf_name := n, pf_description := d\<rparr>)) (\<lambda>(p, names).
     bind_e (read_shapes root names p) (\<lambda>p.
     bind_e (check_shapes names p) (\<lambda>_. read_fixes R root p))))))))"

text \<open>
  \<open>Inl e\<close>: false, with a profile that is empty but for its error text \<open>e\<close>. \<open>None\<close> stands for a
  JSON reader that does not answer, which does not happen.
\<close>

definition parseKuraJson :: "registry \<Rightarrow> string \<Rightarrow> (string + PfProfile) option" where
  "parseKuraJson R s =
     map_option (\<lambda>r. case r of Inl e \<Rightarrow> Inl (''not valid JSON: '' @ e) | Inr root \<Rightarrow> profile R root) (parseJson s)"

section \<open>Identifiers of conditions\<close>

lemma nat_str_eq_iff: "nat_str a = nat_str b \<longleftrightarrow> a = b"
  by (metis digits_val_nat_str)

lemma cond_id_eq:
  assumes "r_id r = rule_id i" "r_id r' = rule_id i'"
  shows "cond_id r g = cond_id r' g' \<longleftrightarrow> i = i' \<and> g = g'"
proof
  have us: "CHR ''_'' \<notin> set (nat_str n)" for n
    using nat_str_digits[of "CHR ''_''" n] by (auto simp: is_digit_def)
  let ?f = "takeWhile (\<lambda>c. c \<noteq> CHR ''_'')"
  assume e: "cond_id r g = cond_id r' g'"
  then have e': "nat_str (i + 1) @ ''_'' @ nat_str g = nat_str (i' + 1) @ ''_'' @ nat_str g'"
    using assms by (simp add: cond_id_def rule_id_def)
  have "?f (nat_str a @ ''_'' @ b) = nat_str a" for a b
    using us[of a] by (subst takeWhile_append2) auto
  with e' have "nat_str (i + 1) = nat_str (i' + 1)" by metis
  with e' have "i = i'" "nat_str g = nat_str g'" by (simp_all add: nat_str_eq_iff)
  then show "i = i' \<and> g = g'" by (simp add: nat_str_eq_iff)
qed (use assms in \<open>simp add: cond_id_def\<close>)

lemma put_conds_other: "(\<And>j. k \<noteq> cond_id r j) \<Longrightarrow> map_of (put_conds r g cs m) k = map_of m k"
  by (induction r g cs m rule: put_conds.induct) (auto simp: map_of_map_put)

lemma put_conds_before:
  assumes "r_id r = rule_id n" "j < g"
  shows "map_of (put_conds r g cs m) (cond_id r j) = map_of m (cond_id r j)"
  using assms by (induction r g cs m rule: put_conds.induct) (auto simp: map_of_map_put cond_id_eq)

lemma put_conds_at:
  assumes "r_id r = rule_id n" "i < length cs"
  shows "map_of (put_conds r g cs m) (cond_id r (g + i)) = Some (cs ! i)"
  using assms
proof (induction r g cs m arbitrary: i rule: put_conds.induct)
  case (2 r g c cs m)
  show ?case
  proof (cases i)
    case 0
    with 2(2) show ?thesis by (simp add: put_conds_before map_of_map_put)
  next
    case (Suc k)
    with 2 show ?thesis by simp
  qed
qed simp

lemma put_conds_ordered: "map_ordered m \<Longrightarrow> map_ordered (put_conds r g cs m)"
  by (induction r g cs m rule: put_conds.induct) (auto simp: map_ordered_put)

lemma put_conds_entry: "(k, x) \<in> set (put_conds r g cs m) \<Longrightarrow> x \<in> set cs \<or> (k, x) \<in> set m"
proof (induction r g cs m rule: put_conds.induct)
  case (2 r g c cs m)
  then show ?case using set_map_put[of "cond_id r g" c m] by auto
qed simp

section \<open>Conditions that were read\<close>

lemma atom_ok_tol [simp]: "atom_ok R (a\<lparr>at_tol := t\<rparr>) = atom_ok R a"
proof -
  have "param (a\<lparr>at_tol := t\<rparr>) = param a" by (simp add: param_def fun_eq_iff)
  then have "size_target (a\<lparr>at_tol := t\<rparr>) = size_target a" by (simp add: size_target_def Let_def cong: if_cong)
  moreover have "at_check (a\<lparr>at_tol := t\<rparr>) = at_check a" "at_token (a\<lparr>at_tol := t\<rparr>) = at_token a"
    "at_op (a\<lparr>at_tol := t\<rparr>) = at_op a" "at_params (a\<lparr>at_tol := t\<rparr>) = at_params a"
    "at_vals (a\<lparr>at_tol := t\<rparr>) = at_vals a" "at_nums (a\<lparr>at_tol := t\<rparr>) = at_nums a"
    "at_countOp (a\<lparr>at_tol := t\<rparr>) = at_countOp a" "at_icase (a\<lparr>at_tol := t\<rparr>) = at_icase a" by simp_all
  ultimately show ?thesis by (simp only: atom_ok_def is_ok_def compared_ok_def Let_def)
qed

lemma atom_field_ordered:
  "atom_field loc kv (a, tol) = Inr (b, tol') \<Longrightarrow> map_ordered (at_params a) \<Longrightarrow> map_ordered (at_params b)"
  by (cases kv) (auto simp: atom_field_def Let_def bind_e_Inr map_ordered_put split: if_splits Json.splits)

lemma read_tolerance_ok: "read_tolerance R loc tol a = Inr b \<Longrightarrow> atom_ok R a \<Longrightarrow> atom_ok R b"
  by (cases tol) (auto simp: read_tolerance_def Let_def split: prod.splits if_splits)

lemma atom_read_ok [registry]:
  assumes "atom R loc j = Inr a"
  shows "atom_ok R a"
proof -
  from assms obtain kvs b tol where f: "fold_e (atom_field loc) kvs (PfAtom0, None) = Inr (b, tol)"
    and c: "bind_e (checkAtom R (fst (place_tolerance R (b, tol))) loc) (read_tolerance R loc (snd (place_tolerance R (b, tol)))) = Inr a"
    by (auto simp: atom_def bind_e_Inr Let_def split: Json.splits)
  have "map_ordered (at_params (fst (b, tol)))"
    by (rule fold_e_rule[OF f, where I = "\<lambda>st. map_ordered (at_params (fst st))"])
      (auto simp: PfAtom0_def atom_field_ordered)
  then have "map_ordered (at_params (fst (place_tolerance R (b, tol))))"
    by (auto simp: place_tolerance_def Let_def map_ordered_put split: option.splits)
  with c show ?thesis by (auto simp: bind_e_Inr intro: read_tolerance_ok checkAtom_ok(1))
qed

lemma condition_ok [registry]:
  assumes "condition R loc j = Inr as"
  shows "as \<noteq> [] \<and> (\<forall>a \<in> set as. atom_ok R a)"
proof -
  from assms have l: "json_arr j \<noteq> []" "length as = length (json_arr j)"
    and a: "\<And>i. i < length as \<Longrightarrow> atom R (loc @ ''['' @ nat_str i @ '']'') (json_arr j ! i) = Inr (as ! i)"
    by (auto simp: condition_def map_e_Inr split: if_splits)
  from l a atom_read_ok show ?thesis by (auto simp: in_set_conv_nth) (metis atom_read_ok)
qed

lemma rule_groups_ok [registry]:
  assumes "rule_groups R loc c = Inr (l, cs)"
  shows "cs \<noteq> []" "l \<in> {0, 1}" "l = 0 \<Longrightarrow> length cs = 1" "\<And>as. as \<in> set cs \<Longrightarrow> as \<noteq> [] \<and> (\<forall>a \<in> set as. atom_ok R a)"
proof -
  from assms obtain gs where g: "groups loc c = Inr (l, gs)" and m: "map_e (\<lambda>_ (x, at). condition R at x) 0 gs = Inr cs"
    by (auto simp: rule_groups_def bind_e_Inr)
  have n: "gs \<noteq> []" "l \<in> {0, 1}" "l = 0 \<Longrightarrow> length gs = 1"
    using g by (auto simp: groups_def bind_e_Inr map_e_Inr split: option.splits if_splits)
  from m have len: "length cs = length gs" by (simp add: map_e_Inr)
  from n len show "cs \<noteq> []" "l \<in> {0, 1}" "l = 0 \<Longrightarrow> length cs = 1" by auto
  show "as \<noteq> [] \<and> (\<forall>a \<in> set as. atom_ok R a)" if as: "as \<in> set cs" for as
  proof -
    from as obtain i where i: "i < length cs" "as = cs ! i" by (auto simp: in_set_conv_nth)
    with m len have "(case gs ! i of (x, at) \<Rightarrow> condition R at x) = Inr as" by (simp add: map_e_Inr)
    then show ?thesis by (auto split: prod.splits dest: condition_ok)
  qed
qed

section \<open>Well-formed profiles\<close>

definition conds_ok :: "registry \<Rightarrow> PfProfile \<Rightarrow> bool" where
  "conds_ok R p \<longleftrightarrow> map_ordered (pf_conds p) \<and>
     (\<forall>(k, as) \<in> set (pf_conds p). as \<noteq> [] \<and> (\<forall>a \<in> set as. atom_ok R a))"

definition report_ok :: "string \<Rightarrow> bool" where
  "report_ok s \<longleftrightarrow> s = [] \<or> hitsRule s"

definition fields_ok :: "PfRule \<Rightarrow> bool" where
  "fields_ok r \<longleftrightarrow> r_severity r \<in> {1, 2, 3} \<and> r_scope r \<in> {0, 2, 3} \<and> r_maxHitsPerPage r \<ge> 0 \<and>
     report_ok (r_reportDocHits r) \<and> report_ok (r_reportPageHits r)"

text \<open>The conditions of a rule, as the profile holds them.\<close>

definition rule_conds :: "PfProfile \<Rightarrow> PfRule \<Rightarrow> PfCondition option list" where
  "rule_conds p r = map (map_of (pf_conds p)) (r_condIds r)"

text \<open>The rule \<open>r\<close> of index \<open>i\<close> is what the check \<open>c\<close> of the text says.\<close>

definition rule_from :: "registry \<Rightarrow> PfProfile \<Rightarrow> nat \<Rightarrow> Json \<Rightarrow> PfRule \<Rightarrow> bool" where
  "rule_from R p i c r \<longleftrightarrow>
     r_id r = rule_id i \<and> r_name r \<noteq> [] \<and> json_get c ''name'' = Some (JStr (r_name r)) \<and> fields_ok r \<and>
     (\<exists>cs. rule_groups R (''check '' @ quoted (r_name r)) c = Inr (r_logic r, cs) \<and> rule_conds p r = map Some cs) \<and>
     r_condIds r = map (cond_id r) [0..<length (r_condIds r)]"

text \<open>A key of the index leads to the last rule that has it as its identifier or as its name.\<close>

definition index_ok :: "PfProfile \<Rightarrow> bool" where
  "index_ok p \<longleftrightarrow> (\<forall>k. map_of (pf_ruleIndex p) k = find (\<lambda>r. r_id r = k \<or> r_name r = k) (rev (pf_rules p)))"

definition checks_inv :: "registry \<Rightarrow> Json list \<Rightarrow> nat \<Rightarrow> PfProfile \<times> string set \<Rightarrow> bool" where
  "checks_inv R cs n st \<longleftrightarrow>
     (case st of (p, names) \<Rightarrow>
        conds_ok R p \<and> index_ok p \<and> length (pf_rules p) = n \<and> names = r_name ` set (pf_rules p) \<and>
        distinct (map r_name (pf_rules p)) \<and> (\<forall>i < n. rule_from R p i (cs ! i) (pf_rules p ! i)))"

subsection \<open>The fields of a check\<close>

lemma report_field_ok:
  assumes "report_field loc kv r = Inr s" "fields_ok r"
  shows "fields_ok s \<and> r_id s = r_id r \<and> r_name s = r_name r"
proof -
  obtain k v where kv: "kv = (k, v)" by fastforce
  obtain t where v: "v = JStr t"
    using assms(1) unfolding report_field_def kv by (cases v) (simp_all split: if_splits)
  have "hitsRule t" "s = r\<lparr>r_reportDocHits := t\<rparr> \<or> s = r\<lparr>r_reportPageHits := t\<rparr>"
    using assms(1) unfolding report_field_def kv v prod.case Json.case by (simp_all split: if_splits)
  then show ?thesis using assms(2) by (auto simp: fields_ok_def report_ok_def)
qed

lemma read_report_ok:
  assumes "read_report loc c r = Inr s" "fields_ok r"
  shows "fields_ok s \<and> r_id s = r_id r \<and> r_name s = r_name r"
proof (cases "json_get c ''report_when''")
  case (Some j)
  with assms(1) obtain kvs where f: "fold_e (report_field loc) kvs r = Inr s"
    by (auto simp: read_report_def split: Json.splits)
  show ?thesis
    by (rule fold_e_rule[OF f, where I = "\<lambda>s. fields_ok s \<and> r_id s = r_id r \<and> r_name s = r_name r"])
      (use assms(2) report_field_ok in \<open>simp_all\<close>)
qed (use assms in \<open>simp add: read_report_def\<close>)

lemma read_max_hits_ok:
  assumes "read_max_hits loc c r = Inr s" "fields_ok r"
  shows "fields_ok s \<and> r_id s = r_id r \<and> r_name s = r_name r"
proof -
  obtain q where q: "mag 0 (- 1074) = (0, q)" "q > 0" unfolding mag_def by fastforce
  have "\<not> less_d n zero_d \<Longrightarrow> trunc_d n \<ge> 0" for n
    using q(2) by (cases n) (auto simp: zero_d_def q(1) signed_def mult_less_0_iff split: prod.splits if_splits)
  with assms show ?thesis by (auto simp: read_max_hits_def fields_ok_def split: option.splits Json.splits if_splits)
qed

lemma read_severity_ok:
  "read_severity loc c r = Inr s \<Longrightarrow> fields_ok r \<Longrightarrow> fields_ok s \<and> r_id s = r_id r \<and> r_name s = r_name r"
  by (auto simp: read_severity_def Let_def fields_ok_def split: option.splits if_splits)

lemma read_description_ok:
  "read_description loc c r = Inr s \<Longrightarrow> fields_ok r \<Longrightarrow> fields_ok s \<and> r_id s = r_id r \<and> r_name s = r_name r"
  by (auto simp: read_description_def fields_ok_def split: option.splits Json.splits)

lemma read_scope_ok:
  "read_scope loc c r = Inr s \<Longrightarrow> fields_ok r \<Longrightarrow> fields_ok s \<and> r_id s = r_id r \<and> r_name s = r_name r"
  by (auto simp: read_scope_def Let_def fields_ok_def split: option.splits if_splits)

lemma read_silent_ok:
  "read_silent loc c r = Inr s \<Longrightarrow> fields_ok r \<Longrightarrow> fields_ok s \<and> r_id s = r_id r \<and> r_name s = r_name r"
  by (auto simp: read_silent_def fields_ok_def split: option.splits Json.splits)

lemma rule_fields_ok:
  assumes "rule_fields loc c r = Inr s" "fields_ok r"
  shows "fields_ok s \<and> r_id s = r_id r \<and> r_name s = r_name r"
proof -
  from assms(1) obtain r1 r2 r3 r4 r5 where r: "read_severity loc c r = Inr r1" "read_description loc c r1 = Inr r2"
    "read_scope loc c r2 = Inr r3" "read_report loc c r3 = Inr r4" "read_max_hits loc c r4 = Inr r5"
    "read_silent loc c r5 = Inr s" unfolding rule_fields_def bind_e_Inr by blast
  note 1 = read_severity_ok[OF r(1) assms(2)]
  note 2 = read_description_ok[OF r(2)] and 3 = read_scope_ok[OF r(3)] and 4 = read_report_ok[OF r(4)]
    and 5 = read_max_hits_ok[OF r(5)] and 6 = read_silent_ok[OF r(6)]
  show ?thesis using 1 2 3 4 5 6 by simp
qed

subsection \<open>One check, and all of them\<close>

lemma rule_conds_add_rule:
  assumes "r_id r = rule_id n" "r_condIds r = map (cond_id r) [0..<length cs]"
  shows "rule_conds (add_rule r cs p) r = map Some cs"
proof (rule nth_equalityI)
  fix i assume "i < length (rule_conds (add_rule r cs p) r)"
  then have i: "i < length cs" by (simp add: rule_conds_def assms(2))
  with put_conds_at[OF assms(1) i, of 0 "pf_conds p"]
  show "rule_conds (add_rule r cs p) r ! i = map Some cs ! i"
    by (simp add: rule_conds_def assms(2) add_rule_def)
qed (simp add: rule_conds_def assms(2))

lemma rule_from_add_rule:
  assumes "rule_from R p i c r" "r_id q = rule_id n" "i \<noteq> n"
  shows "rule_from R (add_rule q cs p) i c r"
proof -
  from assms(1) have r: "r_id r = rule_id i" "r_condIds r = map (cond_id r) [0..<length (r_condIds r)]"
    by (auto simp: rule_from_def)
  have "cond_id r g \<noteq> cond_id q j" for g j using cond_id_eq[OF r(1) assms(2)] assms(3) by blast
  then have "map_of (pf_conds (add_rule q cs p)) (cond_id r g) = map_of (pf_conds p) (cond_id r g)" for g
    by (simp add: add_rule_def put_conds_other)
  then have "rule_conds (add_rule q cs p) r = rule_conds p r"
    unfolding rule_conds_def by (subst (1 2) r(2)) simp
  with assms(1) show ?thesis by (simp add: rule_from_def)
qed

lemma check_step:
  assumes "check R (n, cs ! n) st = Inr st'" "checks_inv R cs n st"
  shows "checks_inv R cs (Suc n) st'"
proof -
  obtain p names where st: "st = (p, names)" by fastforce
  let ?c = "cs ! n"
  from assms(1) st obtain nm r0 l ds where nm: "rule_name (''checks['' @ nat_str n @ '']'') ?c = Inr nm" "nm \<notin> names"
    and r0: "rule_fields (''check '' @ quoted nm) ?c (PfRule0\<lparr>r_id := rule_id n, r_name := nm\<rparr>) = Inr r0"
    and g: "rule_groups R (''check '' @ quoted nm) ?c = Inr (l, ds)"
    and st': "st' = (add_rule (r0\<lparr>r_logic := l, r_condIds := map (cond_id (r0\<lparr>r_logic := l\<rparr>)) [0..<length ds]\<rparr>) ds p, insert nm names)"
    by (auto simp: check_def Let_def bind_e_Inr check_e_Inr)
  define r where "r = r0\<lparr>r_logic := l, r_condIds := map (cond_id (r0\<lparr>r_logic := l\<rparr>)) [0..<length ds]\<rparr>"
  have "fields_ok (PfRule0\<lparr>r_id := rule_id n, r_name := nm\<rparr>)" by (simp add: fields_ok_def PfRule0_def report_ok_def)
  from rule_fields_ok[OF r0 this] have r: "fields_ok r" "r_id r = rule_id n" "r_name r = nm" "r_logic r = l"
    by (simp_all add: r_def fields_ok_def)
  have ids: "r_condIds r = map (cond_id r) [0..<length ds]" by (simp add: r_def cond_id_def)
  note inv = assms(2)[unfolded st checks_inv_def prod.case]
  let ?q = "add_rule r ds p"
  have name: "json_get ?c ''name'' = Some (JStr nm)" "nm \<noteq> []"
    using nm(1) by (auto simp: rule_name_def split: option.splits Json.splits if_splits)
  have new: "rule_from R ?q n ?c r"
    unfolding rule_from_def using r name g rule_conds_add_rule[OF r(2) ids] ids by (intro conjI exI[of _ ds]) simp_all
  have old: "rule_from R ?q i (cs ! i) (pf_rules p ! i)" if "i < n" for i
    using inv rule_from_add_rule[OF _ r(2)] that by auto
  have "as \<noteq> [] \<and> (\<forall>a \<in> set as. atom_ok R a)" if "(k, as) \<in> set (pf_conds ?q)" for k as
    using put_conds_entry[of k as r 0 ds "pf_conds p"] that inv rule_groups_ok(4)[OF g, of as]
    by (auto simp: add_rule_def conds_ok_def)
  then have "conds_ok R ?q" using inv by (auto simp: conds_ok_def add_rule_def put_conds_ordered)
  moreover have "index_ok ?q" using inv by (auto simp: index_ok_def add_rule_def map_of_map_put)
  moreover have "rule_from R ?q i (cs ! i) (pf_rules ?q ! i)" if "i < Suc n" for i
    using that old new inv by (cases "i = n") (auto simp: add_rule_def nth_append)
  ultimately show ?thesis using inv st' nm(2) r(3)
    by (simp add: checks_inv_def flip: r_def) (auto simp: add_rule_def)
qed

lemma fold_e_index:
  assumes "fold_e f (enumerate n xs) s = Inr t" "I n s"
    "\<And>i s t. i < length xs \<Longrightarrow> I (n + i) s \<Longrightarrow> f (n + i, xs ! i) s = Inr t \<Longrightarrow> I (Suc (n + i)) t"
  shows "I (n + length xs) t"
  using assms
proof (induction xs arbitrary: n s)
  case (Cons x xs)
  from Cons.prems(1) obtain u where u: "f (n, x) s = Inr u" "fold_e f (enumerate (Suc n) xs) u = Inr t"
    by (auto simp: bind_e_Inr)
  have "I (Suc n) u" using Cons.prems(3)[of 0 s u] Cons.prems(2) u(1) by simp
  moreover have "I (Suc (Suc n + i)) w" if "i < length xs" "I (Suc n + i) v" "f (Suc n + i, xs ! i) v = Inr w" for i v w
    using Cons.prems(3)[of "Suc i" v w] that by simp
  ultimately show ?case using Cons.IH[OF u(2)] by simp
qed simp

lemma read_checks_ok:
  assumes "read_checks R root p0 = Inr (p, names)" "p0 = PfProfile0\<lparr>pf_name := n, pf_description := d\<rparr>"
  shows "\<exists>cs. (json_get root ''checks'' = Some (JArr cs) \<or> json_get root ''checks'' = None \<and> cs = []) \<and>
    checks_inv R cs (length cs) (p, names)"
proof (cases "json_get root ''checks''")
  case None
  with assms show ?thesis by (auto simp: read_checks_def checks_inv_def conds_ok_def index_ok_def PfProfile0_def)
next
  case (Some j)
  with assms(1) obtain cs where j: "j = JArr cs" and f: "fold_e (check R) (enumerate 0 cs) (p0, {}) = Inr (p, names)"
    by (auto simp: read_checks_def split: Json.splits)
  have "checks_inv R cs 0 (p0, {})" by (simp add: assms(2) checks_inv_def conds_ok_def index_ok_def PfProfile0_def)
  from fold_e_index[OF f, where I = "checks_inv R cs", OF this] check_step[of R _ cs]
  have "checks_inv R cs (length cs) (p, names)" by simp
  with Some j show ?thesis by blast
qed

lemma read_checks_rest:
  assumes "read_checks R root p0 = Inr (p, names)"
  shows "pf_shapes p = pf_shapes p0 \<and> pf_fixes p = pf_fixes p0"
proof (cases "json_get root ''checks''")
  case (Some j)
  with assms obtain cs where f: "fold_e (check R) (enumerate 0 cs) (p0, {}) = Inr (p, names)"
    by (auto simp: read_checks_def split: Json.splits)
  have "pf_shapes (fst (p, names)) = pf_shapes p0 \<and> pf_fixes (fst (p, names)) = pf_fixes p0"
    by (rule fold_e_rule[OF f]) (auto simp: check_def Let_def bind_e_Inr add_rule_def)
  then show ?thesis by simp
qed (use assms in \<open>simp add: read_checks_def\<close>)

subsection \<open>Shapes and fixes\<close>

definition shape_ok :: "PfProfile \<Rightarrow> PfShape \<Rightarrow> bool" where
  "shape_ok p sh \<longleftrightarrow> (sh_box sh = []) \<noteq> (sh_check sh = []) \<and> (sh_box sh = [] \<or> sh_box sh \<in> set page_boxes) \<and>
     (sh_check sh = [] \<or> sh_check sh \<in> r_name ` set (pf_rules p))"

definition fix_ok :: "registry \<Rightarrow> PfProfile \<Rightarrow> PfFix \<Rightarrow> bool" where
  "fix_ok R p f \<longleftrightarrow> fx_id f \<noteq> [] \<and> fx_fix f = fixIndex R (fx_id f) \<and>
     (fx_fix f \<ge> 0 \<longrightarrow> params_ok (fd_params (kFixes R ! nat (fx_fix f))) (fx_args f)) \<and>
     (\<forall>n \<in> set (fx_onlyWhere f). \<exists>r \<in> set (pf_rules p). map_of (pf_ruleIndex p) n = Some r \<and> r_name r = n)"

definition profile_ok :: "registry \<Rightarrow> Json \<Rightarrow> PfProfile \<Rightarrow> bool" where
  "profile_ok R root p \<longleftrightarrow>
     (\<exists>cs. (json_get root ''checks'' = Some (JArr cs) \<or> json_get root ''checks'' = None \<and> cs = []) \<and>
       checks_inv R cs (length cs) (p, r_name ` set (pf_rules p))) \<and>
     (\<forall>(k, sh) \<in> set (pf_shapes p). shape_ok p sh) \<and>
     (\<forall>(k, as) \<in> set (pf_conds p). \<forall>a \<in> set as. shape_known (r_name ` set (pf_rules p)) p a) \<and>
     (\<forall>f \<in> set (pf_fixes p). fix_ok R p f)"

lemma shape_field_ok:
  "shape_field (r_name ` set (pf_rules p)) at kv sh = Inr sh' \<Longrightarrow>
     (sh_box sh = [] \<or> sh_box sh \<in> set page_boxes) \<and> (sh_check sh = [] \<or> sh_check sh \<in> r_name ` set (pf_rules p)) \<Longrightarrow>
     (sh_box sh' = [] \<or> sh_box sh' \<in> set page_boxes) \<and> (sh_check sh' = [] \<or> sh_check sh' \<in> r_name ` set (pf_rules p))"
  by (cases kv) (auto simp: shape_field_def Let_def split: if_splits prod.splits)

definition same_checks :: "PfProfile \<Rightarrow> PfProfile \<Rightarrow> bool" where
  "same_checks p q \<longleftrightarrow> pf_rules q = pf_rules p \<and> pf_conds q = pf_conds p \<and> pf_ruleIndex q = pf_ruleIndex p"

lemma same_checks_inv: "same_checks p q \<Longrightarrow> checks_inv R cs n (q, names) = checks_inv R cs n (p, names)"
  by (simp add: same_checks_def checks_inv_def conds_ok_def index_ok_def rule_from_def rule_conds_def)

lemma read_shape_ok:
  assumes "read_shape (r_name ` set (pf_rules p)) kv p = Inr q" "\<forall>(k, sh) \<in> set (pf_shapes p). shape_ok p sh"
  shows "same_checks p q \<and> pf_fixes q = pf_fixes p \<and> (\<forall>(k, sh) \<in> set (pf_shapes q). shape_ok q sh)"
proof -
  let ?N = "r_name ` set (pf_rules p)"
  obtain n d where kv: "kv = (n, d)" by fastforce
  with assms(1) obtain kvs sh where f: "fold_e (shape_field ?N (''shapes.'' @ n)) kvs PfShape0 = Inr sh"
    and e: "(sh_box sh = []) \<noteq> (sh_check sh = [])" and q: "q = p\<lparr>pf_shapes := map_put n sh (pf_shapes p)\<rparr>"
    by (auto simp: read_shape_def Let_def bind_e_Inr check_e_Inr split: Json.splits)
  have "(sh_box sh = [] \<or> sh_box sh \<in> set page_boxes) \<and> (sh_check sh = [] \<or> sh_check sh \<in> ?N)"
    by (rule fold_e_rule[OF f]) (simp_all add: PfShape0_def, use shape_field_ok[of p] in blast)
  with e have "shape_ok p sh" by (simp add: shape_ok_def)
  then show ?thesis using assms(2) set_map_put[of n sh "pf_shapes p"]
    by (auto simp: q same_checks_def shape_ok_def)
qed

lemma read_shapes_ok:
  assumes "read_shapes root (r_name ` set (pf_rules p)) p = Inr q" "pf_shapes p = []"
  shows "same_checks p q \<and> pf_fixes q = pf_fixes p \<and> (\<forall>(k, sh) \<in> set (pf_shapes q). shape_ok q sh)"
proof (cases "json_get root ''shapes''")
  case (Some j)
  with assms(1) obtain kvs where f: "fold_e (read_shape (r_name ` set (pf_rules p))) kvs p = Inr q"
    by (auto simp: read_shapes_def split: Json.splits)
  show ?thesis
  proof (rule fold_e_rule[OF f])
    fix kv s t
    assume s: "same_checks p s \<and> pf_fixes s = pf_fixes p \<and> (\<forall>(k, sh) \<in> set (pf_shapes s). shape_ok s sh)"
      and r: "read_shape (r_name ` set (pf_rules p)) kv s = Inr t"
    from s have "pf_rules s = pf_rules p" by (simp add: same_checks_def)
    with read_shape_ok[of s kv t] s r show "same_checks p t \<and> pf_fixes t = pf_fixes p \<and> (\<forall>(k, sh) \<in> set (pf_shapes t). shape_ok t sh)"
      by (simp add: same_checks_def)
  qed (use assms(2) in \<open>simp add: same_checks_def\<close>)
qed (use assms in \<open>simp add: read_shapes_def same_checks_def\<close>)

lemma find_Some_set: "find P xs = Some x \<Longrightarrow> x \<in> set xs \<and> P x"
  by (induction xs) (auto split: if_splits)

lemma index_ok_rule: "index_ok p \<Longrightarrow> map_of (pf_ruleIndex p) k = Some r \<Longrightarrow> r \<in> set (pf_rules p)"
  by (auto simp: index_ok_def dest!: find_Some_set)

text \<open>The names of \<^verbatim>\<open>only_where\<close> lead to rules of that name.\<close>

definition named_rules :: "PfProfile \<Rightarrow> string list \<Rightarrow> bool" where
  "named_rules p ns \<longleftrightarrow> (\<forall>n \<in> set ns. \<exists>r \<in> set (pf_rules p). map_of (pf_ruleIndex p) n = Some r \<and> r_name r = n)"

lemma rule_names_ok:
  assumes "rule_names at (pf_ruleIndex p) ns = Inr u" "index_ok p"
  shows "named_rules p ns"
  using assms(1)
proof (induction ns)
  case (Cons n ns)
  then obtain r where "map_of (pf_ruleIndex p) n = Some r" "r_name r = n" "rule_names at (pf_ruleIndex p) ns = Inr u"
    by (auto split: option.splits if_splits)
  with Cons.IH index_ok_rule[OF assms(2), of n r] show ?case by (auto simp: named_rules_def)
qed (simp add: named_rules_def)

lemma fix_field_ok:
  assumes "fix_field p loc kv f = Inr g" "index_ok p" "map_ordered (fx_args f) \<and> named_rules p (fx_onlyWhere f)"
  shows "map_ordered (fx_args g) \<and> named_rules p (fx_onlyWhere g)"
proof -
  obtain key v where kv: "kv = (key, v)" by fastforce
  show ?thesis
  proof (cases "key = ''only_where''")
    case True
    with assms(1) kv obtain xs ns where "v = JArr xs" "scalarList v = Some ns"
      "rule_names (loc @ ''.'' @ key) (pf_ruleIndex p) ns = Inr ()" "g = f\<lparr>fx_onlyWhere := fx_onlyWhere f @ ns\<rparr>"
      by (auto simp: fix_field_def Let_def bind_e_Inr split: Json.splits option.splits)
    with assms(3) rule_names_ok[OF _ assms(2)] show ?thesis by (auto simp: named_rules_def)
  next
    case False
    with assms(1,3) kv show ?thesis
      by (auto simp: fix_field_def Let_def bind_e_Inr map_ordered_put split: if_splits)
  qed
qed

lemma read_fix_ok:
  assumes "read_fix R p i j = Inr f" "index_ok p"
  shows "fix_ok R p f"
proof -
  from assms(1) obtain kvs g where l: "fold_e (fix_field p (''fixes['' @ nat_str i @ '']'')) kvs PfFix0 = Inr g"
    and g: "fx_id g \<noteq> []" "checkFix R g (''fixes['' @ nat_str i @ '']'') = Inr f"
    by (auto simp: read_fix_def Let_def bind_e_Inr check_e_Inr split: Json.splits)
  have "map_ordered (fx_args g) \<and> named_rules p (fx_onlyWhere g)"
    by (rule fold_e_rule[OF l]) (simp add: PfFix0_def named_rules_def, rule fix_field_ok[OF _ assms(2)])
  with checkFix_ok[OF g(2)] g(1) show ?thesis by (simp add: fix_ok_def named_rules_def)
qed

lemma read_fixes_ok:
  assumes "read_fixes R root p = Inr q" "index_ok p" "pf_fixes p = []"
  shows "same_checks p q \<and> pf_shapes q = pf_shapes p \<and> (\<forall>f \<in> set (pf_fixes q). fix_ok R q f)"
proof (cases "json_get root ''fixes''")
  case (Some j)
  with assms(1) obtain fs xs where m: "map_e (read_fix R p) 0 fs = Inr xs" and q: "q = p\<lparr>pf_fixes := xs\<rparr>"
    by (auto simp: read_fixes_def bind_e_Inr split: Json.splits)
  from m read_fix_ok[OF _ assms(2)] have "\<forall>f \<in> set xs. fix_ok R p f"
    by (auto simp: map_e_Inr in_set_conv_nth) (metis)
  moreover have "fix_ok R q = fix_ok R p" by (simp add: fun_eq_iff fix_ok_def q)
  ultimately show ?thesis by (simp add: same_checks_def q)
qed (use assms in \<open>simp add: read_fixes_def same_checks_def\<close>)

lemma profile_read_ok:
  assumes "profile R root = Inr p"
  shows "profile_ok R root p"
proof -
  from assms obtain n d p1 N p2 where c: "read_checks R root (PfProfile0\<lparr>pf_name := n, pf_description := d\<rparr>) = Inr (p1, N)"
    and s: "read_shapes root N p1 = Inr p2" and k: "check_shapes N p2 = Inr ()" and f: "read_fixes R root p2 = Inr p"
    by (auto simp: profile_def bind_e_Inr)
  from read_checks_ok[OF c refl] obtain cs
    where cs: "json_get root ''checks'' = Some (JArr cs) \<or> json_get root ''checks'' = None \<and> cs = []"
      "checks_inv R cs (length cs) (p1, N)" by blast
  from cs(2) have N: "N = r_name ` set (pf_rules p1)" by (simp add: checks_inv_def)
  have "pf_shapes p1 = [] \<and> pf_fixes p1 = []" using read_checks_rest[OF c] by (simp add: PfProfile0_def)
  with read_shapes_ok[of root p1 p2] s N have sh: "same_checks p1 p2" "pf_fixes p2 = []"
    "\<forall>(k, x) \<in> set (pf_shapes p2). shape_ok p2 x" by auto
  from cs(2) sh(1) have inv2: "checks_inv R cs (length cs) (p2, N)" by (simp add: same_checks_inv)
  then have "index_ok p2" by (simp add: checks_inv_def)
  from read_fixes_ok[OF f this sh(2)] have fx: "same_checks p2 p" "pf_shapes p = pf_shapes p2"
    "\<forall>f \<in> set (pf_fixes p). fix_ok R p f" by auto
  have eq: "pf_rules p = pf_rules p1" "pf_rules p2 = pf_rules p1" "pf_conds p = pf_conds p2"
    using sh(1) fx(1) by (simp_all add: same_checks_def)
  have "shape_ok p = shape_ok p2" "shape_known N p = shape_known N p2"
    by (simp_all add: fun_eq_iff shape_ok_def shape_known_def eq fx(2))
  moreover have "\<forall>(k, as) \<in> set (pf_conds p2). \<forall>a \<in> set as. shape_known N p2 a"
    using k by (fastforce simp: check_shapes_def find_None_iff split: option.splits)
  moreover have "checks_inv R cs (length cs) (p, N)" using inv2 fx(1) by (simp add: same_checks_inv)
  ultimately show ?thesis unfolding profile_ok_def using cs(1) sh(3) fx(2,3) by (auto simp: eq N)
qed

lemma parseJson_answers: "parseJson s \<noteq> None"
  using rv.total[of kMaxObjectWalk s] by (auto simp: parseJson_def split: rd.splits)

text \<open>
  C27. The profile reader always answers, with an error or with a well-formed profile: the rules
  are the checks of the text in their order, with identifiers \<open>K1\<close>, \<open>K2\<close>, ... and names that are
  not empty and all different; each rule has exactly the conditions its text says, none
  overwritten by another rule's, at least one, exactly one unless it is an \<open>any\<close>; each condition
  names a check of the registry, uses one of its operators, has a value that fits for every
  declared parameter and no other, and the numbers or patterns its operator needs; shapes and
  fixes only refer to rules there are.
\<close>

theorem parseKuraJson_well_formed:
  "\<exists>r. parseKuraJson R s = Some r \<and>
     (case r of Inl e \<Rightarrow> True
      | Inr p \<Rightarrow> \<exists>root. parseJson s = Some (Inr root) \<and> profile_ok R root p)"
proof (cases "parseJson s")
  case None
  then show ?thesis using parseJson_answers[of s] by simp
next
  case (Some r)
  show ?thesis
  proof (cases r)
    case (Inr root)
    with Some show ?thesis by (auto simp: parseKuraJson_def dest!: profile_read_ok split: sum.splits)
  qed (simp add: Some parseKuraJson_def)
qed

lemma find_rev_Some:
  "find P (rev xs) = Some x \<longleftrightarrow> (\<exists>k < length xs. xs ! k = x \<and> P x \<and> (\<forall>l. k < l \<and> l < length xs \<longrightarrow> \<not> P (xs ! l)))"
proof (induction xs rule: rev_induct)
  case (snoc y xs)
  show ?case
  proof (cases "P y")
    case True
    then show ?thesis by (auto simp: nth_append less_Suc_eq intro!: exI[of _ "length xs"])
  next
    case False
    then show ?thesis using snoc by (auto simp: nth_append less_Suc_eq)
  qed
qed simp

text \<open>
  C34. Which checks a fix may name. The index the reader looks names up in has the identifiers of
  the rules too, so a check can be named in \<^verbatim>\<open>only_where\<close> exactly when its name is not the
  identifier of a later check: with a first check named \<open>K2\<close> and two checks, \<^verbatim>\<open>only_where: ["K2"]\<close>
  is refused with "no check named".
\<close>

theorem only_where_finds_iff:
  assumes "profile R root = Inr p" "i < length (pf_rules p)"
  shows "rule_names at (pf_ruleIndex p) [r_name (pf_rules p ! i)] = Inr () \<longleftrightarrow>
    (\<forall>j. i < j \<and> j < length (pf_rules p) \<longrightarrow> r_name (pf_rules p ! i) \<noteq> rule_id j)"
proof -
  let ?rs = "pf_rules p"
  let ?n = "r_name (?rs ! i)"
  from profile_read_ok[OF assms(1)] obtain cs where "checks_inv R cs (length cs) (p, r_name ` set ?rs)"
    by (auto simp: profile_ok_def)
  then have ix: "index_ok p" and dist: "distinct (map r_name ?rs)"
    and ids: "\<And>j. j < length ?rs \<Longrightarrow> r_id (?rs ! j) = rule_id j"
    by (auto simp: checks_inv_def rule_from_def)
  have name: "j < length ?rs \<Longrightarrow> r_name (?rs ! j) = ?n \<longleftrightarrow> j = i" for j
    using dist assms(2) by (auto simp: distinct_conv_nth)
  let ?P = "\<lambda>r. r_id r = ?n \<or> r_name r = ?n"
  have P: "j < length ?rs \<Longrightarrow> ?P (?rs ! j) \<longleftrightarrow> rule_id j = ?n \<or> j = i" for j
    using name ids by simp
  have "rule_names at (pf_ruleIndex p) [?n] = Inr () \<longleftrightarrow> (\<exists>r. find ?P (rev ?rs) = Some r \<and> r_name r = ?n)"
    using ix by (auto simp: index_ok_def split: option.splits if_splits)
  also have "\<dots> \<longleftrightarrow> (\<forall>l. i < l \<and> l < length ?rs \<longrightarrow> \<not> ?P (?rs ! l))"
    using name assms(2) by (auto simp: find_rev_Some)
  also have "\<dots> \<longleftrightarrow> (\<forall>l. i < l \<and> l < length ?rs \<longrightarrow> ?n \<noteq> rule_id l)"
    using P by (metis less_irrefl)
  finally show ?thesis .
qed

text \<open>
  An excerpt of the registry (\<^verbatim>\<open>registry_data.inc\<close>): three checks and one fix, with no regular
  expression that compiles.
\<close>

definition sample_registry :: registry where
  "sample_registry = \<lparr>
     kChecks =
       [\<lparr>cd_id = ''content.distorted'', cd_value = ''bool'', cd_domain = kAny, cd_operators = ''is'', cd_params = []\<rparr>,
        \<lparr>cd_id = ''content.kind'', cd_value = ''enum'', cd_domain = kAny, cd_operators = ''==|!=|in|not_in'', cd_params = []\<rparr>,
        \<lparr>cd_id = ''document.page_count'', cd_value = ''count'', cd_domain = kDoc,
         cd_operators = ''<|<=|==|!=|>=|>|multiple_of'', cd_params = []\<rparr>],
     kFixes = [\<lparr>fd_id = ''page.rotate'', fd_params = []\<rparr>, \<lparr>fd_id = ''page.mirror'', fd_params = []\<rparr>],
     re_valid = (\<lambda>_ _. False), re_match = (\<lambda>_ _ _. False), re_search = (\<lambda>_ _ _. False)\<rparr>"

definition sample_check :: "string \<Rightarrow> Json" where
  "sample_check n = JObj [(''name'', JStr n), (''all'', JArr [JObj [(''check'', JStr ''content.distorted'')]])]"

definition sample_root :: Json where
  "sample_root = JObj [(''kura-profile'', JNum (of_int_d 1)), (''checks'', JArr [sample_check ''K2'', sample_check ''b''])]"

definition sample_atom :: PfAtom where
  "sample_atom = PfAtom0\<lparr>at_token := ''content.distorted'', at_op := ''is'', at_vals := [''true''], at_check := 0\<rparr>"

definition sample_rule :: "nat \<Rightarrow> string \<Rightarrow> PfRule" where
  "sample_rule i n = PfRule0\<lparr>r_id := rule_id i, r_name := n, r_condIds := [''C'' @ rule_id i @ ''_0'']\<rparr>"

definition sample_profile :: PfProfile where
  "sample_profile = add_rule (sample_rule 1 ''b'') [[sample_atom]] (add_rule (sample_rule 0 ''K2'') [[sample_atom]] PfProfile0)"

lemma small_nat_str: "nat_str 0 = ''0''" "nat_str 2 = ''2''"
  by code_simp+

lemma sample_index [simp]: "checkIndex sample_registry ''content.distorted'' = 0"
  by (simp add: checkIndex_def index_of_def sample_registry_def)

lemma sample_def: "checkDef sample_registry 0 =
  \<lparr>cd_id = ''content.distorted'', cd_value = ''bool'', cd_domain = kAny, cd_operators = ''is'', cd_params = []\<rparr>"
  by (simp add: checkDef_def sample_registry_def)

lemma sample_atom_read: "atom sample_registry loc (JObj [(''check'', JStr ''content.distorted'')]) = Inr sample_atom"
  by (simp add: atom_def atom_field_def bind_e_def check_e_def place_tolerance_def PfAtom0_def checkAtom_def sample_def
      listed_def splitOn_def fillParams_def check_is_def read_tolerance_def Let_def sample_atom_def)

lemma sample_groups: "rule_groups sample_registry loc (sample_check n) = Inr (0, [[sample_atom]])"
  by (simp add: rule_groups_def groups_def sample_check_def json_get_def bind_e_def condition_def sample_atom_read)

lemma sample_fields: "rule_fields loc (sample_check n) r = Inr r"
  by (simp add: rule_fields_def read_severity_def read_description_def read_scope_def read_report_def
      read_max_hits_def read_silent_def bind_e_def sample_check_def json_get_def)

lemma sample_check_read:
  assumes "n \<noteq> []" "n \<notin> names"
  shows "check sample_registry (i, sample_check n) (p, names) = Inr (add_rule (sample_rule i n) [[sample_atom]] p, insert n names)"
proof -
  have "only_known known_fields pre (sample_check n) = Inr ()" for pre
    by (simp add: only_known_def known_fields_def sample_check_def)
  moreover have "rule_name loc (sample_check n) = Inr n" for loc
    using assms(1) by (simp add: rule_name_def sample_check_def json_get_def)
  moreover have "(case sample_check n of JObj _ \<Rightarrow> True | _ \<Rightarrow> False)" by (simp add: sample_check_def)
  ultimately show ?thesis using assms(2)
    by (simp add: check_def Let_def sample_groups sample_fields bind_e_def check_e_def sample_rule_def PfRule0_def cond_id_def small_nat_str)
qed

lemma sample_version: "eq_d (of_int_d 1) (of_int_d 1)"
  using is_int_d_rel(1)[OF of_int_d_exact of_int_d_exact, of 1 1] by simp

lemma sample_start: "(PfProfile0\<lparr>pf_name := [], pf_description := []\<rparr>) = PfProfile0"
  by (simp add: PfProfile0_def)

lemma sample_checks_read:
  "json_get root ''checks'' = json_get sample_root ''checks'' \<Longrightarrow>
   read_checks sample_registry root PfProfile0 = Inr (sample_profile, {''b'', ''K2''})"
  by (simp add: read_checks_def sample_root_def json_get_def bind_e_def sample_check_read sample_profile_def)

lemma sample_shapes: "check_shapes N sample_profile = Inr ()"
proof -
  have "a = sample_atom" if "(k, as) \<in> set (pf_conds sample_profile)" "a \<in> set as" for k as a
    using that put_conds_entry[of k as "sample_rule 0 ''K2''" 0 "[[sample_atom]]" "[]"]
      put_conds_entry[of k as "sample_rule 1 ''b''" 0 "[[sample_atom]]" "put_conds (sample_rule 0 ''K2'') 0 [[sample_atom]] []"]
    by (auto simp: sample_profile_def add_rule_def PfProfile0_def simp del: put_conds.simps)
  then have "shape_known N sample_profile a" if "a \<in> set (concat (map snd (pf_conds sample_profile)))" for a
    using that by (fastforce simp: shape_known_def sample_atom_def)
  then have "find (\<lambda>a. \<not> shape_known N sample_profile a) (concat (map snd (pf_conds sample_profile))) = None"
    unfolding find_None_iff by blast
  then show ?thesis by (simp add: check_shapes_def)
qed

lemmas sample_profile_defs = profile_def bind_e_def check_e_def read_version_def only_known_def profile_fields_def text_field_def
  read_shapes_def read_fixes_def json_get_def sample_version sample_start sample_shapes

lemma sample_read: "profile sample_registry sample_root = Inr sample_profile"
  using sample_checks_read[of sample_root] by (simp add: sample_profile_defs sample_root_def)

theorem only_where_finds_iff_witness:
  "\<not> rule_names ''fixes[0].only_where'' (pf_ruleIndex sample_profile) [''K2''] = Inr () \<and>
   ''K2'' \<in> r_name ` set (pf_rules sample_profile)"
proof -
  have r: "pf_rules sample_profile = [sample_rule 0 ''K2'', sample_rule 1 ''b'']"
    by (simp add: sample_profile_def add_rule_def PfProfile0_def)
  have "rule_id 1 = ''K2''" using small_nat_str(2) by (simp add: rule_id_def numeral_2_eq_2)
  with only_where_finds_iff[OF sample_read, of 0 "''fixes[0].only_where''"] r show ?thesis
    by (auto simp: sample_rule_def intro!: exI[of _ 1])
qed

end
