(* ===== verification/Preflight.thy ===== *)
theory Preflight
  imports Profile_Reader Levels Page_Ranges
begin

text \<open>
  Running the checks of a profile (\<^verbatim>\<open>hitsSatisfy\<close>, \<^verbatim>\<open>kindIs\<close>, \<^verbatim>\<open>reportRuleHits\<close> and
  \<^verbatim>\<open>passProfile\<close> of \<^verbatim>\<open>profile.cpp\<close>; \<^verbatim>\<open>subjectFor\<close> and \<^verbatim>\<open>evalCheck\<close> of
  \<^verbatim>\<open>check_registry.cpp\<close>; \<^verbatim>\<open>evalForm\<close>, \<^verbatim>\<open>sweepFormObjects\<close> and \<^verbatim>\<open>loadProfileShapes\<close> of
  \<^verbatim>\<open>profile_spatial.cpp\<close>; \<^verbatim>\<open>boxesIntersect\<close> and \<^verbatim>\<open>pageFor\<close> of \<^verbatim>\<open>profile_eval.cpp\<close>). The
  facts of a document are gathered before; an event keeps the fields this code reads and a rest
  of type \<open>'x\<close> for the evaluators. The evaluators of the single checks, the walk over the forms
  of a page and the relation of a box to an area are parameters.
\<close>

section \<open>The facts of a document\<close>

record Box =
  b_x0 :: double
  b_y0 :: double
  b_x1 :: double
  b_y1 :: double
  b_valid :: bool

definition Box0 :: Box where
  "Box0 = \<lparr>b_x0 = zero_d, b_y0 = zero_d, b_x1 = zero_d, b_y1 = zero_d, b_valid = False\<rparr>"

type_synonym objgen = "int \<times> int"

record 'x PaintEvent =
  pe_page :: int
  pe_bbox :: Box
  pe_layerHidden :: bool
  pe_rest :: 'x

record 'x TextEvent =
  te_page :: int
  te_bbox :: Box
  te_layerHidden :: bool
  te_fontOg :: objgen
  te_rest :: 'x

record 'x ImageEvent =
  ie_page :: int
  ie_bbox :: Box
  ie_layerHidden :: bool
  ie_rest :: 'x

record 'x FontFacts =
  ff_og :: objgen
  ff_rest :: 'x

record 'x AnnotFacts =
  an_page :: int
  an_rest :: 'x

record 'x PageFacts =
  pg_page :: int
  pg_layerHidden :: bool
  pg_media :: Box
  pg_trim :: Box
  pg_bleed :: Box
  pg_rest :: 'x

record ShapeDef =
  sd_box :: string
  sd_check :: string
  sd_offset :: double

record 'x Events =
  ev_paints :: "'x PaintEvent list"
  ev_texts :: "'x TextEvent list"
  ev_images :: "'x ImageEvent list"
  ev_pages :: "'x PageFacts list"
  ev_fonts :: "'x FontFacts list"
  ev_annots :: "'x AnnotFacts list"
  ev_shapes :: "(string \<times> ShapeDef) list"
  ev_prof :: "PfProfile option"
  ev_rest :: 'x

text \<open>What a sweep hands to the rule: the pointer \<^verbatim>\<open>e\<close>, with the type it points to.\<close>

datatype 'x object = OPaint "'x PaintEvent" | OText "'x TextEvent" | OImage "'x ImageEvent"
  | OPage "'x PageFacts" | OAnnot "'x AnnotFacts" | OFont "'x FontFacts" | ONull

fun o_page :: "'x object \<Rightarrow> int" where
  "o_page (OPaint e) = pe_page e"
| "o_page (OText e) = te_page e"
| "o_page (OImage e) = ie_page e"
| "o_page (OPage e) = pg_page e"
| "o_page (OAnnot e) = an_page e"
| "o_page _ = 0"

fun o_layerHidden :: "'x object \<Rightarrow> bool" where
  "o_layerHidden (OPaint e) = pe_layerHidden e"
| "o_layerHidden (OText e) = te_layerHidden e"
| "o_layerHidden (OImage e) = ie_layerHidden e"
| "o_layerHidden (OPage e) = pg_layerHidden e"
| "o_layerHidden _ = False"

definition boxesIntersect :: "Box \<Rightarrow> Box \<Rightarrow> bool" where
  "boxesIntersect a b \<longleftrightarrow> b_valid a \<and> b_valid b \<and> less_d (b_x0 a) (b_x1 b) \<and> less_d (b_x0 b) (b_x1 a) \<and>
     less_d (b_y0 a) (b_y1 b) \<and> less_d (b_y0 b) (b_y1 a)"

definition pageFor :: "'x Events \<Rightarrow> int \<Rightarrow> 'x PageFacts option" where
  "pageFor ev pg = find (\<lambda>p. pg_page p = pg) (ev_pages ev)"

record 'x Subject =
  s_kind :: Domain
  s_page :: int
  s_paint :: "'x PaintEvent option"
  s_text :: "'x TextEvent option"
  s_image :: "'x ImageEvent option"
  s_pageFacts :: "'x PageFacts option"
  s_annot :: "'x AnnotFacts option"
  s_font :: "'x FontFacts option"

definition subjectFor :: "Domain \<Rightarrow> 'x object \<Rightarrow> int \<Rightarrow> 'x Events \<Rightarrow> 'x Subject" where
  "subjectFor kind e pg ev =
     (let s = \<lparr>s_kind = kind, s_page = pg, s_paint = None, s_text = None, s_image = None, s_pageFacts = None,
               s_annot = None, s_font = None\<rparr>;
          s = (case (kind, e) of
                 (kPaint, OPaint p) \<Rightarrow> s\<lparr>s_paint := Some p\<rparr>
               | (kText, OText t) \<Rightarrow> s\<lparr>s_text := Some t, s_font := find (\<lambda>f. ff_og f = te_fontOg t) (ev_fonts ev)\<rparr>
               | (kImage, OImage i) \<Rightarrow> s\<lparr>s_image := Some i\<rparr>
               | (kPage, OPage p) \<Rightarrow> s\<lparr>s_pageFacts := Some p\<rparr>
               | (kAnnot, OAnnot a) \<Rightarrow> s\<lparr>s_annot := Some a\<rparr>
               | (kFont, OFont f) \<Rightarrow> s\<lparr>s_font := Some f\<rparr>
               | _ \<Rightarrow> s)
      in if s_pageFacts s = None then s\<lparr>s_pageFacts := pageFor ev pg\<rparr> else s)"

section \<open>Evaluating one condition\<close>

text \<open>
  The nodes of the XMP packets that the conditions of a rule have narrowed so far
  (\<^verbatim>\<open>XmpNodeScope\<close>); \<open>None\<close> is no scope. An evaluator returns its number of hits, whether it
  could evaluate, and the scope after it.
\<close>

type_synonym node_scope = "(string \<rightharpoonup> (nat \<times> nat \<times> nat) set) option"

type_synonym 'x check_fn = "PfAtom \<Rightarrow> 'x Subject \<Rightarrow> 'x Events \<Rightarrow> node_scope \<Rightarrow> int \<times> bool \<times> node_scope"

record FormUse =
  fu_page :: int
  fu_bbox :: Box
  fu_nested :: bool

record 'x preflight =
  reg :: registry
  checkTable :: "'x check_fn CheckTable"
  pageForms :: "'x PageFacts \<Rightarrow> FormUse list"
  areaRelation :: "PfAtom \<Rightarrow> 'x PageFacts \<Rightarrow> Box \<Rightarrow> string"
  noPaint_rest :: 'x

text \<open>The number of hits, whether evaluation is still supported, and the scope.\<close>

definition evalCheck :: "'x preflight \<Rightarrow> PfAtom \<Rightarrow> 'x Subject \<Rightarrow> 'x Events \<Rightarrow> bool \<Rightarrow> node_scope \<Rightarrow> int \<times> bool \<times> node_scope" where
  "evalCheck P a s ev supported scope =
     (case (if at_check a \<ge> 0 then evaluator_find (checkTable P) (at_check a) else None) of
        None \<Rightarrow> (0, False, scope)
      | Some fn \<Rightarrow> (case fn a s ev scope of (n, can, scope') \<Rightarrow> (n, supported \<and> can, scope')))"

text \<open>
  What the evaluation of a rule has met: whether every check could be evaluated, and the first
  one that could not.
\<close>

record eval_state =
  es_supported :: bool
  es_unsupTok :: string

definition evalAtom :: "'x preflight \<Rightarrow> 'x Events \<Rightarrow> Domain \<Rightarrow> int \<Rightarrow> 'x object \<Rightarrow> PfAtom \<Rightarrow> eval_state \<times> node_scope \<Rightarrow>
    bool \<times> eval_state \<times> node_scope" where
  "evalAtom P ev dm curPage e a st =
     (case st of (es, scope) \<Rightarrow>
        case evalCheck P a (subjectFor dm e curPage ev) ev (es_supported es) scope of (n, can, scope') \<Rightarrow>
          (n > 0,
           \<lparr>es_supported = can, es_unsupTok = (if es_supported es \<and> \<not> can then at_token a else es_unsupTok es)\<rparr>,
           scope'))"

text \<open>
  The conditions of a group, all of which must hold: \<open>Some b\<close> is the result of the group,
  \<open>None\<close> that a condition held but could not be evaluated, which ends the rule.
\<close>

fun eval_atoms :: "'x preflight \<Rightarrow> 'x Events \<Rightarrow> Domain \<Rightarrow> int \<Rightarrow> 'x object \<Rightarrow> PfAtom list \<Rightarrow> eval_state \<times> node_scope \<Rightarrow>
    bool option \<times> eval_state \<times> node_scope" where
  "eval_atoms P ev dm pg e [] st = (Some True, st)"
| "eval_atoms P ev dm pg e (a # as) st =
     (case evalAtom P ev dm pg e a st of (r, st') \<Rightarrow>
        if \<not> r then (Some False, st')
        else if \<not> es_supported (fst st') then (None, st')
        else eval_atoms P ev dm pg e as st')"

text \<open>The groups: any of them for \<open>logic = 1\<close>, each with a scope of its own; else all.\<close>

fun eval_conds :: "'x preflight \<Rightarrow> 'x Events \<Rightarrow> Domain \<Rightarrow> int \<Rightarrow> 'x object \<Rightarrow> int \<Rightarrow> PfCondition list \<Rightarrow>
    eval_state \<times> node_scope \<Rightarrow> bool \<times> eval_state" where
  "eval_conds P ev dm pg e logic [] st = (logic \<noteq> 1, fst st)"
| "eval_conds P ev dm pg e logic (c # cs) st =
     (case eval_atoms P ev dm pg e c (fst st, if logic = 1 then Some Map.empty else snd st) of (r, st') \<Rightarrow>
        (case r of
           None \<Rightarrow> (False, fst st')
         | Some b \<Rightarrow>
             if logic = 1 then (if b then (True, fst st') else eval_conds P ev dm pg e logic cs (fst st', snd st))
             else if b then eval_conds P ev dm pg e logic cs st' else (False, fst st')))"

definition ruleMatches :: "'x preflight \<Rightarrow> 'x Events \<Rightarrow> PfRule \<Rightarrow> PfCondition list \<Rightarrow> Domain \<Rightarrow> int \<Rightarrow> 'x object \<Rightarrow> eval_state \<Rightarrow>
    bool \<times> eval_state" where
  "ruleMatches P ev r conds dm pg e es = eval_conds P ev dm pg e (r_logic r) conds (es, Some Map.empty)"

section \<open>What a rule is asked of\<close>

definition kindIs :: "PfAtom \<Rightarrow> string \<Rightarrow> bool" where
  "kindIs a kind =
     (if at_token a \<noteq> ''content.kind'' \<or> at_negate a then False
      else if at_op a = ''=='' then at_vals a \<noteq> [] \<and> hd (at_vals a) = kind
      else if at_op a = ''in'' then at_vals a = [kind]
      else False)"

record domain_state =
  ds_dom :: Domain
  ds_mixed :: bool
  ds_any :: bool
  ds_font :: bool

definition note_domain :: "registry \<Rightarrow> domain_state \<Rightarrow> PfAtom \<Rightarrow> domain_state" where
  "note_domain R s a =
     (let d = domainOf R a
      in if d = kNone then s\<lparr>ds_mixed := True\<rparr>
         else if d = kDoc then s
         else if d = kAny then s\<lparr>ds_any := True\<rparr>
         else if d = kFont then s\<lparr>ds_font := True\<rparr>
         else if ds_dom s = kNone then s\<lparr>ds_dom := d\<rparr>
         else if ds_dom s \<noteq> d \<and> d = kPage then s
         else if ds_dom s \<noteq> d \<and> ds_dom s = kPage then s\<lparr>ds_dom := d\<rparr>
         else if ds_dom s \<noteq> d then s\<lparr>ds_mixed := True\<rparr>
         else s)"

definition font_domain :: "domain_state \<Rightarrow> domain_state" where
  "font_domain s =
     (let s = (if ds_dom s = kPage \<and> ds_any s then s\<lparr>ds_dom := kNone\<rparr> else s)
      in if \<not> ds_font s then s
         else if ds_dom s = kNone then s\<lparr>ds_dom := (if ds_any s then kText else kFont)\<rparr>
         else if ds_dom s \<noteq> kText then s\<lparr>ds_mixed := True\<rparr>
         else s)"

definition kind_domain :: "Domain \<times> bool \<Rightarrow> PfAtom \<Rightarrow> Domain \<times> bool" where
  "kind_domain st a =
     (let st = (if kindIs a ''text'' then (kText, False) else st)
      in if kindIs a ''image'' \<or> kindIs a ''image_mask'' then (kImage, False) else st)"

text \<open>The domain, whether it falls back to every kind of object, and whether domains are mixed.\<close>

definition rule_domain :: "registry \<Rightarrow> PfAtom list \<Rightarrow> Domain \<times> bool \<times> bool" where
  "rule_domain R as =
     (let s = font_domain (foldl (note_domain R) \<lparr>ds_dom = kNone, ds_mixed = False, ds_any = False, ds_font = False\<rparr> as);
          (dm, fallback) = (if ds_dom s = kNone \<and> ds_any s then foldl kind_domain (kPaint, True) as else (ds_dom s, False))
      in (dm, fallback, ds_mixed s))"

section \<open>Sweeping the document\<close>

text \<open>The fields of \<^verbatim>\<open>Options\<close> that limit what is counted.\<close>

record hit_limits =
  visibleLayersOnly :: bool
  hitsPerPage :: int
  hitsPerDoc :: int

definition pageCap :: "hit_limits \<Rightarrow> PfRule \<Rightarrow> int" where
  "pageCap lim r =
     (if hitsPerPage lim > 0 \<and> (r_maxHitsPerPage r \<le> 0 \<or> hitsPerPage lim < r_maxHitsPerPage r)
      then hitsPerPage lim else r_maxHitsPerPage r)"

text \<open>\<^verbatim>\<open>perPage\<close>, a map from pages to their hits; a page without entry has none.\<close>

fun bump :: "int \<Rightarrow> int \<Rightarrow> (int \<times> int) list \<Rightarrow> (int \<times> int) list" where
  "bump pg n [] = [(pg, n)]"
| "bump pg n ((q, k) # m) = (if q = pg then (q, k + n) # m else (q, k) # bump pg n m)"

definition hits_on :: "(int \<times> int) list \<Rightarrow> int \<Rightarrow> int" where
  "hits_on m pg = (case map_of m pg of Some n \<Rightarrow> n | None \<Rightarrow> 0)"

record sweep_state =
  sw_eval :: eval_state
  sw_hits :: int
  sw_pages :: "int set"
  sw_perPage :: "(int \<times> int) list"

definition count_hit :: "int \<Rightarrow> sweep_state \<Rightarrow> sweep_state" where
  "count_hit pg s = s\<lparr>sw_perPage := bump pg 1 (sw_perPage s), sw_hits := sw_hits s + 1, sw_pages := insert pg (sw_pages s)\<rparr>"

definition scope_area :: "int \<Rightarrow> 'x PageFacts \<Rightarrow> Box" where
  "scope_area scope p =
     (if scope = 2 then (if b_valid (pg_trim p) then pg_trim p else pg_media p)
      else if b_valid (pg_bleed p) then pg_bleed p
      else if b_valid (pg_trim p) then pg_trim p
      else pg_media p)"

definition inScope :: "'x Events \<Rightarrow> PfRule \<Rightarrow> Box \<Rightarrow> int \<Rightarrow> bool" where
  "inScope ev r bbox pg =
     (if r_scope r < 2 \<or> \<not> b_valid bbox then True
      else case pageFor ev pg of
        None \<Rightarrow> True
      | Some p \<Rightarrow> \<not> b_valid (scope_area (r_scope r) p) \<or> boxesIntersect (scope_area (r_scope r) p) bbox)"

fun bboxOf :: "'x object \<Rightarrow> Box" where
  "bboxOf (OPaint e) = pe_bbox e"
| "bboxOf (OText e) = te_bbox e"
| "bboxOf (OImage e) = ie_bbox e"
| "bboxOf _ = Box0"

text \<open>One object of a sweep; the rule is not evaluated outside its scope or on a hidden layer.\<close>

definition sweep_one :: "'x preflight \<Rightarrow> hit_limits \<Rightarrow> 'x Events \<Rightarrow> PfRule \<Rightarrow> PfCondition list \<Rightarrow> Domain \<Rightarrow> 'x object \<Rightarrow>
    sweep_state \<Rightarrow> sweep_state" where
  "sweep_one P lim ev r conds dm e s =
     (if \<not> es_supported (sw_eval s) then s
      else if (dm = kPaint \<or> dm = kText \<or> dm = kImage) \<and> \<not> inScope ev r (bboxOf e) (o_page e) then s
      else if visibleLayersOnly lim \<and> o_layerHidden e then s
      else case ruleMatches P ev r conds dm (o_page e) e (sw_eval s) of (m, es) \<Rightarrow>
        let s = s\<lparr>sw_eval := es\<rparr>
        in if \<not> m then s
           else if hitsPerDoc lim > 0 \<and> sw_hits s \<ge> hitsPerDoc lim then s
           else if pageCap lim r > 0 \<and> hits_on (sw_perPage s) (o_page e) \<ge> pageCap lim r then s
           else count_hit (o_page e) s)"

definition sweep :: "'x preflight \<Rightarrow> hit_limits \<Rightarrow> 'x Events \<Rightarrow> PfRule \<Rightarrow> PfCondition list \<Rightarrow> Domain \<Rightarrow> 'x object list \<Rightarrow>
    sweep_state \<Rightarrow> sweep_state" where
  "sweep P lim ev r conds dm es s = fold (sweep_one P lim ev r conds dm) es s"

definition annot_one :: "'x preflight \<Rightarrow> hit_limits \<Rightarrow> 'x Events \<Rightarrow> PfRule \<Rightarrow> PfCondition list \<Rightarrow> 'x AnnotFacts \<Rightarrow>
    sweep_state \<Rightarrow> sweep_state" where
  "annot_one P lim ev r conds e s =
     (if \<not> es_supported (sw_eval s) then s
      else case ruleMatches P ev r conds kAnnot (an_page e) (OAnnot e) (sw_eval s) of (m, es) \<Rightarrow>
        let s = s\<lparr>sw_eval := es\<rparr>
        in if \<not> m then s
           else if pageCap lim r > 0 \<and> hits_on (sw_perPage s) (an_page e) \<ge> pageCap lim r then s
           else count_hit (an_page e) s)"

text \<open>Fonts and document rules have no page: they are evaluated with page 0 and count no page.\<close>

definition font_one :: "'x preflight \<Rightarrow> 'x Events \<Rightarrow> PfRule \<Rightarrow> PfCondition list \<Rightarrow> 'x FontFacts \<Rightarrow> sweep_state \<Rightarrow> sweep_state" where
  "font_one P ev r conds e s =
     (if \<not> es_supported (sw_eval s) then s
      else case ruleMatches P ev r conds kFont 0 (OFont e) (sw_eval s) of (m, es) \<Rightarrow>
        s\<lparr>sw_eval := es, sw_hits := sw_hits s + (if m then 1 else 0)\<rparr>)"

definition document_one :: "'x preflight \<Rightarrow> 'x Events \<Rightarrow> PfRule \<Rightarrow> PfCondition list \<Rightarrow> sweep_state \<Rightarrow> sweep_state" where
  "document_one P ev r conds s =
     (case ruleMatches P ev r conds kNone 0 ONull (sw_eval s) of (m, es) \<Rightarrow>
        s\<lparr>sw_eval := es, sw_hits := (if m then 1 else sw_hits s)\<rparr>)"

definition sweep_domain :: "'x preflight \<Rightarrow> hit_limits \<Rightarrow> 'x Events \<Rightarrow> PfRule \<Rightarrow> PfCondition list \<Rightarrow> Domain \<Rightarrow> bool \<Rightarrow>
    sweep_state \<Rightarrow> sweep_state" where
  "sweep_domain P lim ev r conds dm fallback s =
     (if \<not> es_supported (sw_eval s) then s
      else if dm = kPaint \<and> fallback then
        sweep P lim ev r conds kImage (map OImage (ev_images ev))
          (sweep P lim ev r conds kText (map OText (ev_texts ev))
            (sweep P lim ev r conds kPaint (map OPaint (ev_paints ev)) s))
      else if dm = kPaint then sweep P lim ev r conds kPaint (map OPaint (ev_paints ev)) s
      else if dm = kText then sweep P lim ev r conds kText (map OText (ev_texts ev)) s
      else if dm = kImage then sweep P lim ev r conds kImage (map OImage (ev_images ev)) s
      else if dm = kPage then sweep P lim ev r conds kPage (map OPage (ev_pages ev)) s
      else if dm = kAnnot then fold (annot_one P lim ev r conds) (ev_annots ev) s
      else if dm = kFont then fold (font_one P ev r conds) (ev_fonts ev) s
      else if dm = kNone then document_one P ev r conds s
      else s)"

section \<open>Form objects\<close>

definition form_paint :: "'x preflight \<Rightarrow> FormUse \<Rightarrow> 'x PaintEvent" where
  "form_paint P f = \<lparr>pe_page = fu_page f, pe_bbox = fu_bbox f, pe_layerHidden = False, pe_rest = noPaint_rest P\<rparr>"

definition evalForm :: "'x preflight \<Rightarrow> 'x Events \<Rightarrow> PfAtom \<Rightarrow> FormUse \<Rightarrow> bool \<Rightarrow> int \<times> bool" where
  "evalForm P ev a f supported =
     (let t = at_token a; R = reg P; p = pageFor ev (fu_page f); d = domainOf R a
      in if t = ''content.kind'' then (compare R (VText ''form_xobject'') a, supported)
         else if t = ''content.context'' then
           (compare R (VList (if fu_nested f then [''form_xobject''] else [])) a, supported)
         else if t = ''content.in_area'' then
           (let v = (case p of Some p \<Rightarrow> areaRelation P a p (fu_bbox f) | None \<Rightarrow> [])
            in (if v = [] then 0 else compare R (VText v) a, supported))
         else if d = kDoc \<or> d = kPage \<or> d = kNone then
           (case evalCheck P a (subjectFor kPage (case p of Some p \<Rightarrow> OPage p | None \<Rightarrow> ONull) (fu_page f) ev) ev supported None of
              (n, can, _) \<Rightarrow> (n, can))
         else if at_check a \<ge> 0 \<and> t \<noteq> ''content.box_relation'' \<and> t \<noteq> ''content.distance_to_box'' \<and>
                 t \<noteq> ''content.outside_share'' \<and> t \<noteq> ''content.size'' then (0, supported)
         else
           (case evalCheck P a (subjectFor kPaint (OPaint (form_paint P f)) (fu_page f) ev) ev supported None of
              (n, can, _) \<Rightarrow> (n, can)))"

fun form_atoms :: "'x preflight \<Rightarrow> 'x Events \<Rightarrow> FormUse \<Rightarrow> PfAtom list \<Rightarrow> bool \<Rightarrow> bool \<times> bool" where
  "form_atoms P ev f [] can = (True, can)"
| "form_atoms P ev f (a # as) can =
     (case evalForm P ev a f can of (n, can2) \<Rightarrow> if n = 0 then (False, can2) else form_atoms P ev f as can2)"

text \<open>\<open>None\<close>: a condition could not be evaluated.\<close>

fun form_matches :: "'x preflight \<Rightarrow> 'x Events \<Rightarrow> int \<Rightarrow> FormUse \<Rightarrow> PfCondition list \<Rightarrow> bool \<Rightarrow> bool \<Rightarrow> bool option" where
  "form_matches P ev logic f [] combined can = Some combined"
| "form_matches P ev logic f (c # cs) combined can =
     (case form_atoms P ev f c can of (r, can2) \<Rightarrow>
        if \<not> can2 then None
        else form_matches P ev logic f cs (if logic = 1 then combined \<or> r else combined \<and> r) can2)"

fun sweep_forms :: "'x preflight \<Rightarrow> 'x Events \<Rightarrow> int \<Rightarrow> PfCondition list \<Rightarrow> FormUse list \<Rightarrow> int \<times> (int \<times> int) list \<Rightarrow>
    (int \<times> (int \<times> int) list) \<times> bool" where
  "sweep_forms P ev logic conds [] st = (st, True)"
| "sweep_forms P ev logic conds (f # fs) (n, m) =
     (case form_matches P ev logic f conds (logic \<noteq> 1) True of
        None \<Rightarrow> ((n, m), False)
      | Some b \<Rightarrow> sweep_forms P ev logic conds fs (if b then (n + 1, bump (fu_page f) 1 m) else (n, m)))"

definition sweepFormObjects :: "'x preflight \<Rightarrow> 'x Events \<Rightarrow> int \<Rightarrow> PfCondition list \<Rightarrow> (int \<times> (int \<times> int) list) \<times> bool" where
  "sweepFormObjects P ev logic conds = sweep_forms P ev logic conds (concat (map (pageForms P) (ev_pages ev))) (0, [])"

definition add_forms :: "'x preflight \<Rightarrow> 'x Events \<Rightarrow> PfRule \<Rightarrow> PfCondition list \<Rightarrow> sweep_state \<Rightarrow> sweep_state" where
  "add_forms P ev r conds s =
     (if \<not> es_supported (sw_eval s) \<or> \<not> list_ex (\<lambda>a. kindIs a ''form_xobject'') (concat conds) then s
      else case sweepFormObjects P ev (r_logic r) conds of ((n, fp), can) \<Rightarrow>
        s\<lparr>sw_hits := sw_hits s + n, sw_eval := (sw_eval s)\<lparr>es_supported := can\<rparr>,
          sw_perPage := foldl (\<lambda>m (pg, k). bump pg k m) (sw_perPage s) fp,
          sw_pages := sw_pages s \<union> fst ` set fp\<rparr>)"

section \<open>Reporting\<close>

text \<open>\<^verbatim>\<open>strchr\<close> also finds the terminating zero of the list of operator characters.\<close>

definition operator_char :: "char \<Rightarrow> bool" where
  "operator_char c \<longleftrightarrow> comparison_char c \<or> c = CHR 0x00"

definition hitsSatisfy :: "int \<Rightarrow> string \<Rightarrow> bool" where
  "hitsSatisfy n rule =
     (let p = takeWhile operator_char rule; v = atof (dropWhile operator_char rule); x = of_int_d n
      in if p = ''<'' then less_d x v
         else if p = ''<='' then le_d x v
         else if p = ''>'' then less_d v x
         else if p = ''>='' then le_d v x
         else if p = ''!='' then \<not> eq_d x v
         else eq_d x v)"

text \<open>The hits and pages left after the comparisons of \<^verbatim>\<open>report_when\<close>.\<close>

definition page_filter :: "PfRule \<Rightarrow> sweep_state \<Rightarrow> int \<times> int set" where
  "page_filter r s =
     (if r_reportPageHits r = [] then (sw_hits s, sw_pages s)
      else let good = filter (\<lambda>(pg, n). n > 0 \<and> hitsSatisfy n (r_reportPageHits r)) (sw_perPage s)
           in (sum_list (map snd good), fst ` set good))"

definition report_filter :: "PfRule \<Rightarrow> sweep_state \<Rightarrow> int \<times> int set" where
  "report_filter r s =
     (case page_filter r s of (n, pgs) \<Rightarrow>
        if r_reportDocHits r \<noteq> [] \<and> \<not> hitsSatisfy n (r_reportDocHits r) then (0, {}) else (n, pgs))"

definition kSevName :: "string list" where
  "kSevName = [[], ''Info'', ''Warning'', ''Error'']"

definition hit_issue :: "PfRule \<Rightarrow> int \<Rightarrow> int set \<Rightarrow> Issue" where
  "hit_issue r n pgs =
     (let sev = (if r_severity r < 4 \<and> r_severity r > 0 then r_severity r else 1)
      in \<lparr>code = ''CHECK_HIT'',
          detail = kSevName ! nat sev @ '': '' @ r_name r @ '' ('' @ int_str n @ '' hit(s)'' @
            (if pgs \<noteq> {} then '', '' @ pageRangeList pgs else []) @ '')'' @
            (if r_description r \<noteq> [] then '' - '' @ r_description r else []),
          fixed = False, severity = sev, pages = sorted_list_of_set pgs\<rparr>)"

definition unsupported_issue :: "PfRule \<Rightarrow> string \<Rightarrow> Issue" where
  "unsupported_issue r tok =
     mkIssue ''CHECK_NOT_EVALUATED''
       (r_name r @ '': uses checks Kura cannot evaluate for this file'' @ (if tok = [] then [] else '' ('' @ tok @ '')''))
       False 0"

text \<open>The groups of a rule that the profile has.\<close>

definition rule_groups_of :: "PfProfile \<Rightarrow> PfRule \<Rightarrow> PfCondition list" where
  "rule_groups_of p r = List.map_filter (map_of (pf_conds p)) (r_condIds r)"

definition rule_sweep :: "'x preflight \<Rightarrow> hit_limits \<Rightarrow> 'x Events \<Rightarrow> PfRule \<Rightarrow> PfCondition list \<Rightarrow> sweep_state" where
  "rule_sweep P lim ev r conds =
     (case rule_domain (reg P) (concat conds) of (dm, fallback, mixed) \<Rightarrow>
        add_forms P ev r conds
          (sweep_domain P lim ev r conds dm fallback
            \<lparr>sw_eval = \<lparr>es_supported = \<not> mixed, es_unsupTok = []\<rparr>, sw_hits = 0, sw_pages = {}, sw_perPage = []\<rparr>))"

text \<open>What one rule adds to the report.\<close>

definition rule_report :: "'x preflight \<Rightarrow> hit_limits \<Rightarrow> PfProfile \<Rightarrow> 'x Events \<Rightarrow> PfRule \<Rightarrow> Issue list" where
  "rule_report P lim p ev r =
     (let conds = rule_groups_of p r
      in if concat conds = [] then []
         else let s = rule_sweep P lim ev r conds
              in if \<not> es_supported (sw_eval s) then [unsupported_issue r (es_unsupTok (sw_eval s))]
                 else case report_filter r s of (n, pgs) \<Rightarrow> if n \<noteq> 0 then [hit_issue r n pgs] else [])"

text \<open>The fields of the context the run changes: the report and the pages each rule has hit.\<close>

record preflight_ctx =
  pc_analysis :: "Issue list"
  pc_ruleHitPages :: "string \<Rightarrow> int set"

text \<open>
  \<^verbatim>\<open>HitCapture\<close>: when a rule is done the pages of its hits are recorded, page 0 for a hit
  without pages, and the report of a silent rule is dropped.
\<close>

definition hit_pages :: "Issue list \<Rightarrow> int set" where
  "hit_pages is0 = (\<Union>i \<in> {i \<in> set is0. code i = ''CHECK_HIT''}. if pages i = [] then {0} else set (pages i))"

definition run_rule :: "'x preflight \<Rightarrow> hit_limits \<Rightarrow> PfProfile \<Rightarrow> 'x Events \<Rightarrow> PfRule \<Rightarrow> preflight_ctx \<Rightarrow> preflight_ctx" where
  "run_rule P lim p ev r c =
     (let new = rule_report P lim p ev r
      in c\<lparr>pc_analysis := (if r_silent r then pc_analysis c else pc_analysis c @ new),
           pc_ruleHitPages := (pc_ruleHitPages c)(r_id r := pc_ruleHitPages c (r_id r) \<union> hit_pages new)\<rparr>)"

definition reportRuleHits :: "'x preflight \<Rightarrow> hit_limits \<Rightarrow> PfProfile \<Rightarrow> 'x Events \<Rightarrow> preflight_ctx \<Rightarrow> preflight_ctx" where
  "reportRuleHits P lim p ev c = fold (run_rule P lim p ev) (pf_rules p) c"

definition shape_def :: "PfShape \<Rightarrow> ShapeDef" where
  "shape_def sh = \<lparr>sd_box = sh_box sh, sd_check = sh_check sh, sd_offset = sh_offset sh\<rparr>"

definition loadProfileShapes :: "PfProfile \<Rightarrow> 'x Events \<Rightarrow> 'x Events" where
  "loadProfileShapes p ev = ev\<lparr>ev_shapes := foldl (\<lambda>m (n, sh). map_put n (shape_def sh) m) (ev_shapes ev) (pf_shapes p)\<rparr>"

text \<open>\<open>gather p\<close> are the facts of the open document, gathered for the checks of \<open>p\<close>.\<close>

definition passProfile_run :: "'x preflight \<Rightarrow> hit_limits \<Rightarrow> (PfProfile \<Rightarrow> 'x Events) \<Rightarrow> string \<Rightarrow> bool \<Rightarrow> preflight_ctx \<Rightarrow>
    preflight_ctx option" where
  "passProfile_run P lim gather preflight verify c =
     (if preflight = [] then Some c
      else case parseKuraJson (reg P) preflight of
        None \<Rightarrow> None
      | Some (Inl e) \<Rightarrow> Some (c\<lparr>pc_analysis := pc_analysis c @ [mkIssue ''PROFILE_INVALID'' e False 0]\<rparr>)
      | Some (Inr p) \<Rightarrow>
          Some (if pf_rules p = [] then
                  (if verify then c\<lparr>pc_analysis := pc_analysis c @
                     [mkIssue ''PROFILE_EMPTY'' ''this profile defines no checks to run'' False 0]\<rparr> else c)
                else reportRuleHits P lim p (loadProfileShapes p ((gather p)\<lparr>ev_prof := Some p\<rparr>)) c))"

section \<open>Evaluating a rule\<close>

text \<open>
  \<open>counts P ev s as n\<close>: every check in \<open>as\<close> can be evaluated on the subject \<open>s\<close>, and its number
  of hits \<open>n\<close> does not depend on what other conditions narrowed.
\<close>

definition counts :: "'x preflight \<Rightarrow> 'x Events \<Rightarrow> 'x Subject \<Rightarrow> PfAtom set \<Rightarrow> (PfAtom \<Rightarrow> int) \<Rightarrow> bool" where
  "counts P ev s as n \<longleftrightarrow> (\<forall>a \<in> as. \<forall>scope. \<exists>scope'. evalCheck P a s ev True scope = (n a, True, scope'))"

lemma evalAtom_counts:
  assumes "counts P ev (subjectFor dm e pg ev) A n" "a \<in> A" "es_supported es"
  shows "\<exists>scope'. evalAtom P ev dm pg e a (es, scope) = (n a > 0, es, scope')"
proof -
  from assms(1,2) obtain scope' where "evalCheck P a (subjectFor dm e pg ev) ev True scope = (n a, True, scope')"
    unfolding counts_def by blast
  with assms(3) show ?thesis by (cases es) (simp add: evalAtom_def)
qed

lemma eval_atoms_counts:
  assumes "counts P ev (subjectFor dm e pg ev) A n" "set as \<subseteq> A" "es_supported es"
  shows "\<exists>scope'. eval_atoms P ev dm pg e as (es, scope) = (Some (\<forall>a \<in> set as. n a > 0), es, scope')"
  using assms(2)
proof (induction as arbitrary: scope)
  case (Cons a as)
  obtain sc where "evalAtom P ev dm pg e a (es, scope) = (n a > 0, es, sc)"
    using evalAtom_counts[OF assms(1) _ assms(3), of a scope] Cons.prems by auto
  with Cons.IH[of sc] Cons.prems assms(3) show ?case by auto
qed simp

lemma eval_conds_counts:
  assumes "counts P ev (subjectFor dm e pg ev) A n" "set (concat cs) \<subseteq> A" "es_supported es"
  shows "eval_conds P ev dm pg e logic cs (es, scope) =
    (if logic = 1 then \<exists>c \<in> set cs. \<forall>a \<in> set c. n a > 0 else \<forall>c \<in> set cs. \<forall>a \<in> set c. n a > 0, es)"
  using assms(2)
proof (induction cs arbitrary: scope)
  case (Cons c cs)
  let ?sc = "if logic = 1 then Some Map.empty else scope"
  obtain sc where "eval_atoms P ev dm pg e c (es, ?sc) = (Some (\<forall>a \<in> set c. n a > 0), es, sc)"
    using eval_atoms_counts[OF assms(1) _ assms(3), of c ?sc] Cons.prems by auto
  with Cons.IH Cons.prems show ?case
    by (cases "\<forall>a \<in> set c. n a > 0"; cases "logic = 1") (simp_all, blast)
qed simp

text \<open>
  C35. What a check of a profile means. When its conditions can be evaluated, a check with \<open>any\<close>
  hits an object exactly when all conditions of one of its groups hold, and a check with \<open>all\<close>
  exactly when all its conditions hold; the early exits of the loops change nothing, and the
  state of the evaluation stays as it was.
\<close>

theorem ruleMatches_iff:
  assumes "counts P ev (subjectFor dm e pg ev) (set (concat conds)) n" "es_supported es"
  shows "ruleMatches P ev r conds dm pg e es =
    (if r_logic r = 1 then \<exists>c \<in> set conds. \<forall>a \<in> set c. n a > 0 else \<forall>a \<in> set (concat conds). n a > 0, es)"
  using eval_conds_counts[OF assms(1) _ assms(2)] by (auto simp: ruleMatches_def)

section \<open>Tallies\<close>

lemma map_of_bump: "map_of (bump pg k m) q = (if q = pg then Some (hits_on m pg + k) else map_of m q)"
  by (induction pg k m rule: bump.induct) (auto simp: hits_on_def split: option.splits)

lemma keys_bump: "fst ` set (bump pg k m) = insert pg (fst ` set m)"
  by (induction pg k m rule: bump.induct) auto

lemma distinct_bump: "distinct (map fst m) \<Longrightarrow> distinct (map fst (bump pg k m))"
  by (induction pg k m rule: bump.induct) (auto simp: keys_bump)

lemma sum_bump: "sum_list (map snd (bump pg k m)) = sum_list (map snd m) + k"
  by (induction pg k m rule: bump.induct) auto

text \<open>
  A tally adds up: the hits are those of the pages together, every page of it has hits, and no
  page has more than the cap; \<open>Q\<close> holds for all its pages.
\<close>

definition tally :: "int \<Rightarrow> (int \<Rightarrow> bool) \<Rightarrow> sweep_state \<Rightarrow> bool" where
  "tally cap Q s \<longleftrightarrow> distinct (map fst (sw_perPage s)) \<and> sw_hits s = sum_list (map snd (sw_perPage s)) \<and>
     sw_pages s = fst ` set (sw_perPage s) \<and>
     (\<forall>(pg, n) \<in> set (sw_perPage s). 0 < n \<and> (cap > 0 \<longrightarrow> n \<le> cap) \<and> Q pg)"

lemma tally_eval [simp]: "tally cap Q (s\<lparr>sw_eval := es\<rparr>) = tally cap Q s"
  by (simp add: tally_def)

lemma tally_count:
  assumes "tally cap Q s" "cap > 0 \<Longrightarrow> hits_on (sw_perPage s) pg < cap" "Q pg"
  shows "tally cap Q (count_hit pg s)"
proof -
  let ?m = "sw_perPage s"
  have d: "distinct (map fst ?m)" using assms(1) by (simp add: tally_def)
  have pos: "0 \<le> hits_on ?m pg" using assms(1) by (auto simp: tally_def hits_on_def dest!: map_of_SomeD split: option.splits)
  have "0 < n \<and> (cap > 0 \<longrightarrow> n \<le> cap) \<and> Q q" if "(q, n) \<in> set (bump pg 1 ?m)" for q n
  proof -
    have "map_of (bump pg 1 ?m) q = Some n" using that distinct_bump[OF d, of pg 1] by simp
    then show ?thesis using assms pos by (auto simp: map_of_bump tally_def dest!: map_of_SomeD split: if_splits)
  qed
  then show ?thesis using assms(1) distinct_bump[OF d]
    by (auto simp: tally_def count_hit_def sum_bump keys_bump)
qed

lemma sweep_one_tally:
  assumes "tally (pageCap lim r) Q s" "Q (o_page e)" "hitsPerDoc lim > 0 \<longrightarrow> sw_hits s \<le> hitsPerDoc lim"
  shows "tally (pageCap lim r) Q (sweep_one P lim ev r conds dm e s) \<and>
    (hitsPerDoc lim > 0 \<longrightarrow> sw_hits (sweep_one P lim ev r conds dm e s) \<le> hitsPerDoc lim)"
proof -
  obtain m es where m: "ruleMatches P ev r conds dm (o_page e) e (sw_eval s) = (m, es)" by fastforce
  let ?s = "s\<lparr>sw_eval := es\<rparr>"
  have "sweep_one P lim ev r conds dm e s = s \<or> sweep_one P lim ev r conds dm e s = ?s \<or>
    sweep_one P lim ev r conds dm e s = count_hit (o_page e) ?s \<and>
    \<not> (hitsPerDoc lim > 0 \<and> sw_hits s \<ge> hitsPerDoc lim) \<and>
    \<not> (pageCap lim r > 0 \<and> hits_on (sw_perPage s) (o_page e) \<ge> pageCap lim r)"
    by (simp add: sweep_one_def m Let_def)
  with assms tally_count[of "pageCap lim r" Q ?s "o_page e"] show ?thesis
    by (auto simp: count_hit_def)
qed

lemma fold_rule: "I s \<Longrightarrow> (\<And>x s. x \<in> set xs \<Longrightarrow> I s \<Longrightarrow> I (f x s)) \<Longrightarrow> I (fold f xs s)"
  by (induction xs arbitrary: s) auto

lemma sweep_tally:
  assumes "tally (pageCap lim r) Q s" "\<And>e. e \<in> set es \<Longrightarrow> Q (o_page e)" "hitsPerDoc lim > 0 \<longrightarrow> sw_hits s \<le> hitsPerDoc lim"
  shows "tally (pageCap lim r) Q (sweep P lim ev r conds dm es s) \<and>
    (hitsPerDoc lim > 0 \<longrightarrow> sw_hits (sweep P lim ev r conds dm es s) \<le> hitsPerDoc lim)"
  unfolding sweep_def
proof (rule fold_rule)
  fix e s
  assume "e \<in> set es" "tally (pageCap lim r) Q s \<and> (hitsPerDoc lim > 0 \<longrightarrow> sw_hits s \<le> hitsPerDoc lim)"
  then show "tally (pageCap lim r) Q (sweep_one P lim ev r conds dm e s) \<and>
    (hitsPerDoc lim > 0 \<longrightarrow> sw_hits (sweep_one P lim ev r conds dm e s) \<le> hitsPerDoc lim)"
    using sweep_one_tally assms(2) by blast
qed (use assms in blast)

lemma annot_tally:
  assumes "tally (pageCap lim r) Q s" "Q (an_page e)"
  shows "tally (pageCap lim r) Q (annot_one P lim ev r conds e s)"
proof -
  obtain m es where m: "ruleMatches P ev r conds kAnnot (an_page e) (OAnnot e) (sw_eval s) = (m, es)" by fastforce
  with assms tally_count[of "pageCap lim r" Q "s\<lparr>sw_eval := es\<rparr>" "an_page e"] show ?thesis
    by (auto simp: annot_one_def Let_def)
qed

text \<open>The pages of the objects that are swept for a domain.\<close>

definition swept_pages :: "Domain \<Rightarrow> bool \<Rightarrow> 'x Events \<Rightarrow> int set" where
  "swept_pages dm fallback ev =
     (if dm = kPaint \<and> fallback then pe_page ` set (ev_paints ev) \<union> te_page ` set (ev_texts ev) \<union> ie_page ` set (ev_images ev)
      else if dm = kPaint then pe_page ` set (ev_paints ev)
      else if dm = kText then te_page ` set (ev_texts ev)
      else if dm = kImage then ie_page ` set (ev_images ev)
      else if dm = kPage then pg_page ` set (ev_pages ev)
      else an_page ` set (ev_annots ev))"

lemma sweep_domain_tally:
  assumes "tally (pageCap lim r) (\<lambda>pg. pg \<in> swept_pages dm fallback ev) s" "sw_hits s = 0" "dm \<in> {kPaint, kText, kImage, kPage, kAnnot}"
  shows "tally (pageCap lim r) (\<lambda>pg. pg \<in> swept_pages dm fallback ev) (sweep_domain P lim ev r conds dm fallback s) \<and>
    (dm \<noteq> kAnnot \<and> hitsPerDoc lim > 0 \<longrightarrow> sw_hits (sweep_domain P lim ev r conds dm fallback s) \<le> hitsPerDoc lim)"
proof (cases "dm = kAnnot")
  case True
  have "tally (pageCap lim r) (\<lambda>pg. pg \<in> swept_pages dm fallback ev) (fold (annot_one P lim ev r conds) (ev_annots ev) s)"
    using assms(1) by (rule fold_rule) (rule annot_tally, simp_all add: swept_pages_def True)
  with assms(1) True show ?thesis by (simp add: sweep_domain_def)
next
  case False
  define I where "I s \<longleftrightarrow> tally (pageCap lim r) (\<lambda>pg. pg \<in> swept_pages dm fallback ev) s \<and>
    (hitsPerDoc lim > 0 \<longrightarrow> sw_hits s \<le> hitsPerDoc lim)" for s
  have I: "I s" using assms(1,2) by (simp add: I_def)
  have step: "I (sweep P lim ev r conds d es t)" if "I t" "o_page ` set es \<subseteq> swept_pages dm fallback ev" for d es t
    unfolding I_def by (rule sweep_tally) (use that in \<open>auto simp: I_def\<close>)
  have "I (sweep_domain P lim ev r conds dm fallback s)"
    using assms(3) False I unfolding sweep_domain_def
    by (auto intro!: step simp: swept_pages_def image_image)
  then show ?thesis by (simp add: I_def)
qed

text \<open>
  C28. Counting. For a rule about painted objects, text, images, pages or annotations that does not
  ask for form objects (font and document rules are counted otherwise), the number
  of hits is the sum of the hits of the pages, the pages listed are exactly those with a hit and
  are pages of swept objects, no page has more hits than the smaller of the rule's and the job's
  limit, and, annotations apart, the document has no more than the job's limit.
\<close>

theorem rule_sweep_within_limits:
  assumes "rule_domain (reg P) (concat conds) = (dm, fallback, mixed)" "dm \<in> {kPaint, kText, kImage, kPage, kAnnot}"
    "\<not> list_ex (\<lambda>a. kindIs a ''form_xobject'') (concat conds)"
  shows "let s = rule_sweep P lim ev r conds in
    sw_hits s = sum_list (map snd (sw_perPage s)) \<and> sw_pages s = fst ` set (sw_perPage s) \<and>
    sw_pages s \<subseteq> swept_pages dm fallback ev \<and>
    (\<forall>pg \<in> sw_pages s. 0 < hits_on (sw_perPage s) pg \<and> (pageCap lim r > 0 \<longrightarrow> hits_on (sw_perPage s) pg \<le> pageCap lim r)) \<and>
    (dm \<noteq> kAnnot \<and> hitsPerDoc lim > 0 \<longrightarrow> sw_hits s \<le> hitsPerDoc lim)"
proof -
  define s where "s = rule_sweep P lim ev r conds"
  let ?s0 = "\<lparr>sw_eval = \<lparr>es_supported = \<not> mixed, es_unsupTok = []\<rparr>, sw_hits = 0, sw_pages = {}, sw_perPage = []\<rparr>"
  let ?Q = "\<lambda>pg. pg \<in> swept_pages dm fallback ev"
  have s: "s = sweep_domain P lim ev r conds dm fallback ?s0"
    by (simp add: s_def rule_sweep_def assms(1) add_forms_def assms(3))
  have "tally (pageCap lim r) ?Q ?s0" by (simp add: tally_def)
  from sweep_domain_tally[OF this _ assms(2)] have t: "tally (pageCap lim r) ?Q s"
    "dm \<noteq> kAnnot \<and> hitsPerDoc lim > 0 \<longrightarrow> sw_hits s \<le> hitsPerDoc lim" by (simp_all add: s)
  have page: "0 < n \<and> (pageCap lim r > 0 \<longrightarrow> n \<le> pageCap lim r) \<and> ?Q pg" if "(pg, n) \<in> set (sw_perPage s)" for pg n
    using t(1) that by (auto simp: tally_def)
  have "(pg, hits_on (sw_perPage s) pg) \<in> set (sw_perPage s)" if "pg \<in> sw_pages s" for pg
    using t(1) that by (auto simp: tally_def hits_on_def split: option.splits dest: map_of_SomeD)
  with page have "0 < hits_on (sw_perPage s) pg \<and> (pageCap lim r > 0 \<longrightarrow> hits_on (sw_perPage s) pg \<le> pageCap lim r) \<and> ?Q pg"
    if "pg \<in> sw_pages s" for pg using that by blast
  moreover have "sw_hits s = sum_list (map snd (sw_perPage s))" "sw_pages s = fst ` set (sw_perPage s)"
    using t(1) by (simp_all add: tally_def)
  ultimately show ?thesis using t(2) unfolding s_def[symmetric] Let_def by blast
qed

section \<open>The report\<close>

lemma run_rule_ctx:
  "pc_analysis (run_rule P lim p ev r c) = pc_analysis c @ (if r_silent r then [] else rule_report P lim p ev r)"
  "pc_ruleHitPages (run_rule P lim p ev r c) k =
     pc_ruleHitPages c k \<union> (if r_id r = k then hit_pages (rule_report P lim p ev r) else {})"
  by (auto simp: run_rule_def Let_def)

lemma run_rules:
  "pc_analysis (fold (run_rule P lim p ev) rs c) =
     pc_analysis c @ concat (map (rule_report P lim p ev) (filter (\<lambda>r. \<not> r_silent r) rs))"
  "pc_ruleHitPages (fold (run_rule P lim p ev) rs c) k =
     pc_ruleHitPages c k \<union> (\<Union>r \<in> {r \<in> set rs. r_id r = k}. hit_pages (rule_report P lim p ev r))"
proof (induction rs arbitrary: c)
  case (Cons r rs)
  { case 1 show ?case by (simp add: Cons(1) run_rule_ctx) }
  { case 2 show ?case by (auto simp: Cons(2) run_rule_ctx split: if_splits) }
qed simp_all

text \<open>
  Running a profile keeps what was reported before and adds, rule by rule, the reports of the
  rules that are not silent, each at most one entry; silent rules report nothing. The pages where
  a rule hit are recorded for every rule, silent ones included, with page 0 for a hit of the
  whole document.
\<close>

theorem reportRuleHits_report:
  "pc_analysis (reportRuleHits P lim p ev c) =
     pc_analysis c @ concat (map (rule_report P lim p ev) (filter (\<lambda>r. \<not> r_silent r) (pf_rules p))) \<and>
   length (rule_report P lim p ev r) \<le> 1 \<and>
   pc_ruleHitPages (reportRuleHits P lim p ev c) k =
     pc_ruleHitPages c k \<union> (\<Union>r \<in> {r \<in> set (pf_rules p). r_id r = k}. hit_pages (rule_report P lim p ev r))"
  by (simp add: reportRuleHits_def run_rules rule_report_def Let_def split: prod.splits)

section \<open>Counts that a rule reports on\<close>

lemma comparison_char_simps [simp]:
  "comparison_char (CHR ''<'')" "comparison_char (CHR ''>'')" "comparison_char (CHR ''='')" "comparison_char (CHR ''!'')"
  "\<not> comparison_char (CHR '' '')"
  by (simp_all add: comparison_char_def)

lemma strtod_operator:
  assumes "comparison_char c" "set b \<subseteq> {CHR '' ''}"
  shows "fst (strtod (b @ c # s)) = zero_d"
proof -
  have c: "\<not> is_space c" "c \<noteq> CHR 0x00" "\<not> is_digit c" "c \<noteq> CHR ''-''" "c \<noteq> CHR ''+''" "c \<noteq> CHR ''.''" "c \<noteq> CHR ''0''"
    "to_lower c \<noteq> CHR ''i''" "to_lower c \<noteq> CHR ''n''"
    using assms(1) by (auto simp: comparison_char_def is_space_def is_digit_def to_lower_def is_upper_def)
  have "cstr (b @ c # s) = b @ c # cstr s"
    using assms(2) c(2) by (induction b) (auto simp: cstr_def)
  moreover have "dropWhile is_space (b @ c # cstr s) = c # cstr s"
    using assms(2) c(1) by (induction b) (auto simp: is_space_def)
  moreover have "strtod_word neg (c # t) = None" "strtod_dec neg (c # t) = None" for neg t
    using c by (simp_all add: strtod_word_def strtod_dec_def mantissa_def starts_with_def Let_def)
  ultimately show ?thesis using c by (simp add: strtod_def Let_def)
qed

text \<open>What a comparison written as operator, blanks and an integer means.\<close>

definition holds :: "string \<Rightarrow> int \<Rightarrow> int \<Rightarrow> bool" where
  "holds p n k \<longleftrightarrow> (if p = ''<'' then n < k else if p = ''<='' then n \<le> k else if p = ''>'' then n > k
     else if p = ''>='' then n \<ge> k else if p = ''!='' then n \<noteq> k else n = k)"

lemma int_str_letters: "c \<in> set (int_str k) \<Longrightarrow> is_digit c \<or> c = CHR ''-''" "int_str k \<noteq> []"
  using nat_str_digits by (auto simp: int_str_def split: if_splits)

text \<open>\<open>strtod\<close> after the white space.\<close>

definition strtod_at :: "string \<Rightarrow> (double \<times> string) option" where
  "strtod_at t =
     (let neg = (t \<noteq> [] \<and> hd t = CHR ''-'');
          u = (if t \<noteq> [] \<and> (hd t = CHR ''-'' \<or> hd t = CHR ''+'') then tl t else t)
      in case strtod_word neg u of
           Some r \<Rightarrow> Some r
         | None \<Rightarrow>
             (case (if length u > 1 \<and> hd u = CHR ''0'' \<and> to_lower (u ! 1) = CHR ''x''
                    then strtod_hex neg (drop 2 u) else None) of
                Some r \<Rightarrow> Some r
              | None \<Rightarrow> strtod_dec neg u))"

lemma strtod_alt:
  "strtod s = (case strtod_at (dropWhile is_space (cstr s)) of Some r \<Rightarrow> r | None \<Rightarrow> (zero_d, cstr s))"
  by (simp only: strtod_def strtod_at_def Let_def)

lemma strtod_blanks:
  assumes "set b \<subseteq> {CHR '' ''}"
  shows "strtod (b @ int_str k) = strtod (int_str k)"
proof -
  have z: "CHR 0x00 \<notin> set (int_str k)" using int_str_letters(1)[of "CHR 0x00" k] by (auto simp: is_digit_def)
  then have c: "cstr (int_str k) = int_str k" "cstr (b @ int_str k) = b @ int_str k"
    using assms by (auto intro!: cstr_id)
  obtain h t where h: "int_str k = h # t" using int_str_letters(2) by (cases "int_str k") auto
  have "\<not> is_space h" using int_str_letters(1)[of h k] h by (auto simp: is_digit_def is_space_def)
  then have d: "dropWhile is_space (int_str k) = int_str k" "dropWhile is_space (b @ int_str k) = int_str k"
    using assms by (simp add: h, induction b) (auto simp: is_space_def h)
  have "snd (strtod (int_str k)) \<noteq> int_str k" using int_str_letters(2)[of k, symmetric] by (simp add: strtod_int_str)
  then have "strtod_at (int_str k) \<noteq> None"
    by (cases "strtod_at (int_str k)") (auto simp: strtod_alt[of "int_str k"] c d)
  then show ?thesis by (auto simp: strtod_alt[of "int_str k"] strtod_alt[of "b @ int_str k"] c d)
qed

lemma span_append:
  "\<forall>c \<in> set p. f c \<Longrightarrow> s \<noteq> [] \<Longrightarrow> \<not> f (hd s) \<Longrightarrow> takeWhile f (p @ s) = p \<and> dropWhile f (p @ s) = s"
  by (cases s) auto

lemma hitsSatisfy_number:
  assumes "p \<in> {''<'', ''<='', ''=='', ''!='', ''>='', ''>''}" "set b \<subseteq> {CHR '' ''}" "\<bar>n\<bar> < 2 ^ 53" "\<bar>k\<bar> < 2 ^ 53"
  shows "hitsRule (p @ b @ int_str k)" "hitsSatisfy n (p @ b @ int_str k) \<longleftrightarrow> holds p n k"
proof -
  let ?s = "b @ int_str k"
  have hd: "?s \<noteq> []" "\<not> comparison_char (hd ?s)" "\<not> operator_char (hd ?s)"
  proof -
    have "hd ?s \<in> set ?s" using int_str_letters(2) by (intro hd_in_set) simp
    then have "hd ?s = CHR '' '' \<or> is_digit (hd ?s) \<or> hd ?s = CHR ''-''" using assms(2) int_str_letters(1) by auto
    then show "?s \<noteq> []" "\<not> comparison_char (hd ?s)" "\<not> operator_char (hd ?s)"
      using int_str_letters(2) by (auto simp: comparison_char_def operator_char_def is_digit_def)
  qed
  have pc: "\<forall>c \<in> set p. comparison_char c" "\<forall>c \<in> set p. operator_char c"
    using assms(1) by (auto simp: comparison_char_def operator_char_def)
  have v: "strtod ?s = (of_int_d k, [])" using strtod_blanks[OF assms(2)] strtod_of_int by simp
  have "CHR 0x00 \<notin> set ?s" using assms(2) int_str_letters(1)[of "CHR 0x00" k] by (auto simp: is_digit_def)
  then have c: "cstr ?s = ?s" by (rule cstr_id)
  have "dropWhile (\<lambda>c. c = CHR '' '') (p @ ?s) = p @ ?s" using assms(1) by auto
  then show "hitsRule (p @ ?s)"
    using assms(1) span_append[OF pc(1) hd(1,2)] hd(1) by (simp add: hitsRule_def Let_def c v)
  note rel = is_int_d_rel[OF of_int_d_exact[OF assms(3)] of_int_d_exact[OF assms(4)]]
    is_int_d_rel[OF of_int_d_exact[OF assms(4)] of_int_d_exact[OF assms(3)]]
  show "hitsSatisfy n (p @ ?s) \<longleftrightarrow> holds p n k"
    unfolding hitsSatisfy_def Let_def conjunct1[OF span_append[OF pc(2) hd(1,3)]] conjunct2[OF span_append[OF pc(2) hd(1,3)]]
      atof_def v fst_conv holds_def le_d_def rel by auto
qed

text \<open>
  C29. A blank before the comparison of \<^verbatim>\<open>report_when\<close> changes its meaning: the reader of
  profiles skips it and accepts the text, the report does not skip it, finds no operator and no
  number, and compares the count with 0.
\<close>

theorem report_when_blank_misread:
  assumes "hitsRule s" and n: "\<bar>n\<bar> < 2 ^ 53"
  shows "hitsRule (CHR '' '' # s) \<and> (hitsSatisfy n (CHR '' '' # s) \<longleftrightarrow> n = 0)"
proof (rule conjI)
  show "hitsRule (CHR '' '' # s)" using assms(1) by (simp add: hitsRule_def)
  let ?t = "dropWhile (\<lambda>c. c = CHR '' '') s"
  from assms(1) have "takeWhile comparison_char ?t \<in> {''<'', ''<='', ''=='', ''!='', ''>='', ''>''}"
    unfolding hitsRule_def Let_def by (rule conjunct1)
  then have "takeWhile comparison_char ?t \<noteq> []" by fastforce
  then obtain c u where t: "?t = c # u" "comparison_char c" by (cases ?t) (auto split: if_splits)
  have "s = takeWhile (\<lambda>c. c = CHR '' '') s @ c # u" using t(1) by (metis takeWhile_dropWhile_id)
  moreover have "set (takeWhile (\<lambda>c. c = CHR '' '') s) \<subseteq> {CHR '' ''}" by (auto dest: set_takeWhileD)
  ultimately have "atof (CHR '' '' # s) = zero_d"
    using strtod_operator[OF t(2), of "CHR '' '' # takeWhile (\<lambda>c. c = CHR '' '') s" u] by (simp add: atof_def)
  moreover have "\<not> operator_char (CHR '' '')" by (simp add: operator_char_def)
  moreover have "zero_d = of_int_d 0" by (simp add: zero_d_def of_int_d_def round_pq_def)
  ultimately show "hitsSatisfy n (CHR '' '' # s) \<longleftrightarrow> n = 0"
    using is_int_d_rel(1)[OF of_int_d_exact[OF n] of_int_d_exact, of 0] by (simp add: hitsSatisfy_def)
qed

theorem report_when_blank_misread_witness:
  "hitsRule '' > 3'' \<and> \<not> hitsSatisfy 5 '' > 3'' \<and> hitsSatisfy 5 ''> 3''"
proof -
  have "int_str 3 = ''3''" by code_simp
  with hitsSatisfy_number[of "''>''" "'' ''" 5 3] have "hitsRule ''> 3''" "hitsSatisfy 5 ''> 3''" by (simp_all add: holds_def)
  with report_when_blank_misread[of "''> 3''" 5] show ?thesis by simp
qed

section \<open>An example run\<close>

text \<open>A document of three objects on page 1 and one on page 2, and an evaluator that hits each of them.\<close>

definition sample_preflight :: "unit preflight" where
  "sample_preflight = \<lparr>reg = sample_registry, checkTable = [Some (\<lambda>a s ev scope. (1, True, scope)), None, None],
     pageForms = (\<lambda>_. []), areaRelation = (\<lambda>_ _ _. []), noPaint_rest = ()\<rparr>"

definition sample_paint :: "int \<Rightarrow> unit PaintEvent" where
  "sample_paint pg = \<lparr>pe_page = pg, pe_bbox = Box0, pe_layerHidden = False, pe_rest = ()\<rparr>"

definition sample_events :: "unit Events" where
  "sample_events = \<lparr>ev_paints = map sample_paint [1, 1, 1, 2], ev_texts = [], ev_images = [], ev_pages = [], ev_fonts = [],
     ev_annots = [], ev_shapes = [], ev_prof = None, ev_rest = ()\<rparr>"

definition sample_limits :: hit_limits where
  "sample_limits = \<lparr>visibleLayersOnly = False, hitsPerPage = 2, hitsPerDoc = 0\<rparr>"

lemma sample_eval: "evalCheck sample_preflight sample_atom s ev True scope = (1, True, scope)"
  by (simp add: evalCheck_def sample_preflight_def sample_atom_def PfAtom0_def evaluator_find_def)

lemma sample_counts: "counts sample_preflight ev s (set (concat [[sample_atom]])) (\<lambda>_. 1)"
  by (simp add: counts_def sample_eval)

theorem ruleMatches_iff_witness:
  "ruleMatches sample_preflight sample_events (sample_rule 0 ''a'') [[sample_atom]] kPaint 1 (OPaint (sample_paint 1))
     \<lparr>es_supported = True, es_unsupTok = []\<rparr> = (True, \<lparr>es_supported = True, es_unsupTok = []\<rparr>)"
  using ruleMatches_iff[OF sample_counts, where r = "sample_rule 0 ''a''" and dm = kPaint and pg = 1 and
      e = "OPaint (sample_paint 1)" and ev = sample_events and es = "\<lparr>es_supported = True, es_unsupTok = []\<rparr>"]
  by simp

lemma sample_domain: "rule_domain (reg sample_preflight) (concat [[sample_atom]]) = (kPaint, True, False)"
  by (simp add: rule_domain_def note_domain_def font_domain_def kind_domain_def kindIs_def domainOf_def sample_preflight_def
      sample_atom_def PfAtom0_def sample_def param_def level_domain_def Let_def)

lemma sample_matches:
  "ruleMatches sample_preflight ev (sample_rule i n) [[sample_atom]] dm pg e \<lparr>es_supported = True, es_unsupTok = []\<rparr> =
   (True, \<lparr>es_supported = True, es_unsupTok = []\<rparr>)"
  by (simp add: ruleMatches_def evalAtom_def sample_eval)

lemma sample_no_form: "\<not> list_ex (\<lambda>a. kindIs a ''form_xobject'') (concat [[sample_atom]])"
  by (simp add: kindIs_def sample_atom_def PfAtom0_def)

lemma sample_sweep:
  "rule_sweep sample_preflight sample_limits sample_events (sample_rule i n) [[sample_atom]] =
   \<lparr>sw_eval = \<lparr>es_supported = True, es_unsupTok = []\<rparr>, sw_hits = 3, sw_pages = {1, 2}, sw_perPage = [(1, 2), (2, 1)]\<rparr>"
proof -
  have f: "r_scope (sample_rule i n) = 0" "pageCap sample_limits (sample_rule i n) = 2" "hitsPerDoc sample_limits = 0"
    "\<not> visibleLayersOnly sample_limits"
    by (simp_all add: sample_rule_def PfRule0_def sample_limits_def pageCap_def)
  show ?thesis
    using sample_no_form by (auto simp add: rule_sweep_def sample_domain[simplified] add_forms_def sweep_domain_def sweep_def
        sample_events_def sample_paint_def sweep_one_def sample_matches inScope_def f hits_on_def count_hit_def)
qed

theorem rule_sweep_within_limits_witness:
  "let s = rule_sweep sample_preflight sample_limits sample_events (sample_rule 0 ''a'') [[sample_atom]]
   in sw_hits s = 3 \<and> hits_on (sw_perPage s) 1 \<le> pageCap sample_limits (sample_rule 0 ''a'') \<and> sw_pages s \<subseteq> {1, 2}"
proof -
  have "swept_pages kPaint True sample_events = {1, 2}" by (auto simp: swept_pages_def sample_events_def sample_paint_def)
  moreover have "pageCap sample_limits (sample_rule 0 ''a'') = 2"
    by (simp add: sample_rule_def PfRule0_def sample_limits_def pageCap_def)
  ultimately show ?thesis
    using rule_sweep_within_limits[OF sample_domain _ sample_no_form, of sample_limits sample_events "sample_rule 0 ''a''"]
    by (simp add: Let_def sample_sweep)
qed

end
