(* ===== verification/Fix_Plan.thy ===== *)
theory Fix_Plan
  imports Engine Preflight
begin

text \<open>
  Fixes of a profile: scheduling them before the conversion (\<^verbatim>\<open>addColorRule\<close>,
  \<^verbatim>\<open>scheduleColorConvert\<close>, \<^verbatim>\<open>scheduleOutputIntent\<close> and \<^verbatim>\<open>applyProfileFixes\<close> of
  \<^verbatim>\<open>profile.cpp\<close>) and running the scheduled ones on the pages their checks have hit
  (\<^verbatim>\<open>isContentFix\<close> and \<^verbatim>\<open>passProfileFixups\<close> of \<^verbatim>\<open>profile_fixups.cpp\<close>). The fixes
  themselves, and finding an ICC profile by its name, are parameters.
\<close>

section \<open>Colour conversion jobs\<close>

datatype ColorAction = CConvert | CKeep | CDecalibrate | CConvertAlternate | CDecalibrateConvert | CTag

datatype ColorEmbed = EmbedNone | EmbedOutputIntent | EmbedSource

record ColorRule =
  cr_objects :: nat
  cr_sources :: nat
  cr_action :: ColorAction
  cr_intent :: int

definition ColorRule0 :: ColorRule where
  "ColorRule0 = \<lparr>cr_objects = 31, cr_sources = 511, cr_action = CConvert, cr_intent = -1\<rparr>"

text \<open>The fields of \<^verbatim>\<open>ColorJob\<close> that a fix sets.\<close>

record ColorJob =
  cj_enabled :: bool
  cj_destName :: string
  cj_deviceLink :: string
  cj_embed :: ColorEmbed
  cj_blackPointCompensation :: bool
  cj_preserveBlack :: bool
  cj_processSeparationsAsCmyk :: bool
  cj_grayToBlackOnly :: bool
  cj_rgbGrayToBlackOnly :: bool
  cj_rgbGrayTolerance :: "double list"
  cj_quick :: bool
  cj_quickBlackGeneration :: double
  cj_quickUnderColorRemoval :: double
  cj_rules :: "ColorRule list"

definition color_objects :: "(string \<times> nat) list" where
  "color_objects = [(''all'', 31), (''images'', 8 OR 16), (''lossy_images'', 8), (''lossless_images'', 16),
     (''vector'', 2), (''text'', 1), (''shadings'', 4)]"

definition color_sources :: "(string \<times> nat) list" where
  "color_sources = [(''device_rgb'', 1), (''calibrated_rgb'', 2), (''device_cmyk'', 4), (''calibrated_cmyk'', 8),
     (''device_gray'', 16), (''calibrated_gray'', 32), (''lab'', 64), (''spot'', 128), (''registration'', 256)]"

definition color_actions :: "(string \<times> ColorAction) list" where
  "color_actions = [(''convert'', CConvert), (''keep'', CKeep), (''decalibrate'', CDecalibrate),
     (''convert_alternate'', CConvertAlternate), (''decalibrate_and_convert'', CDecalibrateConvert), (''tag'', CTag)]"

definition color_intents :: "(string \<times> int) list" where
  "color_intents = [(''perceptual'', 0), (''relativecolorimetric'', 1), (''relative_colorimetric'', 1),
     (''saturation'', 2), (''absolutecolorimetric'', 3), (''absolute_colorimetric'', 3)]"

record rule_reader =
  rr_rule :: ColorRule
  rr_obj :: nat
  rr_src :: nat
  rr_tok :: string

definition color_word :: "string \<Rightarrow> rule_reader \<Rightarrow> rule_reader" where
  "color_word v s =
     (if v = [] then s
      else case map_of color_objects v of
        Some b \<Rightarrow> s\<lparr>rr_obj := rr_obj s OR b\<rparr>
      | None \<Rightarrow>
        (case map_of color_sources v of
           Some b \<Rightarrow> s\<lparr>rr_src := rr_src s OR b\<rparr>
         | None \<Rightarrow>
           (case map_of color_actions v of
              Some x \<Rightarrow> s\<lparr>rr_rule := (rr_rule s)\<lparr>cr_action := x\<rparr>\<rparr>
            | None \<Rightarrow>
              (case map_of color_intents v of
                 Some i \<Rightarrow> s\<lparr>rr_rule := (rr_rule s)\<lparr>cr_intent := i\<rparr>\<rparr>
               | None \<Rightarrow> s))))"

definition color_char :: "rule_reader \<Rightarrow> char \<Rightarrow> rule_reader" where
  "color_char s c =
     (if c \<noteq> CHR '' '' \<and> c \<noteq> CHR '','' \<and> c \<noteq> CHR '';'' \<and> c \<noteq> CHR 0x09 then s\<lparr>rr_tok := rr_tok s @ [c]\<rparr>
      else
        let tok = rr_tok s;
            v = (case find_idx (\<lambda>c. c = CHR ''='' \<or> c = CHR '':'') tok of None \<Rightarrow> tok | Some eq \<Rightarrow> drop (eq + 1) tok)
        in color_word (lower v) (s\<lparr>rr_tok := []\<rparr>))"

definition color_rule :: "string \<Rightarrow> ColorRule" where
  "color_rule txt =
     (let s = foldl color_char \<lparr>rr_rule = ColorRule0, rr_obj = 0, rr_src = 0, rr_tok = []\<rparr> (txt @ '' '');
          r = rr_rule s;
          r = (if rr_obj s \<noteq> 0 then r\<lparr>cr_objects := rr_obj s\<rparr> else r)
      in r\<lparr>cr_sources := (if rr_src s \<noteq> 0 then rr_src s else 127)\<rparr>)"

definition addColorRule :: "string \<Rightarrow> ColorJob \<Rightarrow> ColorJob" where
  "addColorRule txt j = j\<lparr>cj_rules := cj_rules j @ [color_rule txt]\<rparr>"

section \<open>The options a fix sets\<close>

record fix_options =
  fo_colorJob :: ColorJob
  fo_imageMaxPpi :: double
  fo_imageDownsampleAbovePpi :: double
  fo_imageDownsampleKind :: string
  fo_imageUpsampleBelowPpi :: double
  fo_imageUpsampleToPpi :: double
  fo_outlineFonts :: bool
  fo_linearize :: bool
  fo_pageOutputIntents :: string
  fo_destProfile :: string
  fo_outputConditionIdentifier :: string
  fo_outputConditionInfo :: string
  fo_outputConditionRegistry :: string
  fo_profileFixOps :: "(string \<times> params) list"
  fo_profileFixRules :: "nat \<rightharpoonup> string list"

text \<open>\<open>icc\<close> finds the bytes of an ICC profile by name, \<open>icc_desc\<close> reads its description.\<close>

record icc_source =
  icc :: "string \<Rightarrow> string option"
  icc_desc :: "string \<Rightarrow> string"

abbreviation percent :: "registry \<Rightarrow> PfFix \<Rightarrow> string \<Rightarrow> double" where
  "percent R f n \<equiv> div_d (fixParamNum R f n) (of_int_d 100)"

definition color_basic :: "registry \<Rightarrow> PfFix \<Rightarrow> ColorJob \<Rightarrow> ColorJob" where
  "color_basic R f j =
     (let dest = fixParam f ''destination''; embed = fixParam f ''embed''; tol = ''rgb_grey_to_black_tolerance'';
          j = j\<lparr>cj_enabled := True\<rparr>;
          j = (if dest \<noteq> [] \<and> dest \<noteq> ''output_intent'' then j\<lparr>cj_destName := dest\<rparr> else j);
          j = j\<lparr>cj_embed := (if embed = ''none'' then EmbedNone else if embed = ''source'' then EmbedSource else EmbedOutputIntent),
                cj_preserveBlack := fixParamBool f ''preserve_black'',
                cj_blackPointCompensation := fixParamBool f ''black_point_compensation'',
                cj_processSeparationsAsCmyk := fixParamBool f ''process_separations_as_cmyk'',
                cj_grayToBlackOnly := fixParamBool f ''grey_to_black''\<rparr>;
          j = (if fixParam f tol \<noteq> []
               then j\<lparr>cj_rgbGrayToBlackOnly := True, cj_rgbGrayTolerance := replicate 3 (percent R f tol)\<rparr> else j)
      in foldl (\<lambda>j txt. addColorRule txt j) j (fixParamList f ''rules''))"

definition color_link :: "icc_source \<Rightarrow> PfFix \<Rightarrow> ColorJob \<Rightarrow> ColorJob" where
  "color_link S f j =
     (if fixParam f ''device_link'' = [] then j
      else let j = (case icc S (fixParam f ''device_link'') of Some b \<Rightarrow> j\<lparr>cj_deviceLink := b\<rparr> | None \<Rightarrow> j)
           in j\<lparr>cj_embed := EmbedNone\<rparr>)"

definition color_quick :: "registry \<Rightarrow> PfFix \<Rightarrow> ColorJob \<Rightarrow> ColorJob" where
  "color_quick R f j =
     (if \<not> fixParamBool f ''quick'' then j
      else
        let j = j\<lparr>cj_quick := True\<rparr>;
            j = (if fixParam f ''black_generation'' \<noteq> [] then j\<lparr>cj_quickBlackGeneration := percent R f ''black_generation''\<rparr> else j);
            j = (if fixParam f ''undercolour_removal'' \<noteq> []
                 then j\<lparr>cj_quickUnderColorRemoval := percent R f ''undercolour_removal''\<rparr> else j);
            j = (if cj_rules j = [] then j\<lparr>cj_rules := [ColorRule0\<lparr>cr_sources := 1 OR 2\<rparr>]\<rparr> else j)
        in j\<lparr>cj_embed := EmbedNone\<rparr>)"

definition scheduleColorConvert :: "registry \<Rightarrow> icc_source \<Rightarrow> PfFix \<Rightarrow> fix_options \<Rightarrow> fix_options" where
  "scheduleColorConvert R S f fo =
     fo\<lparr>fo_colorJob := color_quick R f (color_link S f (color_basic R f (fo_colorJob fo)))\<rparr>"

text \<open>Whether the fix is to run, with the options and the note of a missing profile.\<close>

definition intent_profile :: "icc_source \<Rightarrow> string \<Rightarrow> fix_options \<Rightarrow> fix_options option" where
  "intent_profile S n fo =
     (if n = [] then Some fo
      else case icc S n of
        None \<Rightarrow> None
      | Some b \<Rightarrow> Some (fo\<lparr>fo_destProfile := b,
                          fo_outputConditionInfo := (if icc_desc S b = [] then n else icc_desc S b)\<rparr>))"

definition intent_texts :: "PfFix \<Rightarrow> fix_options \<Rightarrow> fix_options" where
  "intent_texts f fo =
     (let ident = fixParam f ''identifier''; cond = fixParam f ''condition''; rg = fixParam f ''registry'';
          fo = (if ident \<noteq> [] then fo\<lparr>fo_outputConditionIdentifier := ident\<rparr>
                else if fo_outputConditionIdentifier fo = [] \<and> fo_outputConditionInfo fo \<noteq> []
                then fo\<lparr>fo_outputConditionIdentifier := fo_outputConditionInfo fo\<rparr> else fo);
          fo = (if cond \<noteq> [] then fo\<lparr>fo_outputConditionInfo := cond\<rparr> else fo)
      in if rg \<noteq> [] then fo\<lparr>fo_outputConditionRegistry := rg\<rparr> else fo)"

definition scheduleOutputIntent :: "icc_source \<Rightarrow> PfFix \<Rightarrow> fix_options \<Rightarrow> bool \<times> fix_options \<times> Issue list" where
  "scheduleOutputIntent S f fo =
     (let pgs = fixParam f ''pages''; n = fixParam f ''profile'';
          fo = (if pgs \<noteq> [] then fo\<lparr>fo_pageOutputIntents := pgs\<rparr> else fo)
      in case intent_profile S n fo of
           None \<Rightarrow>
             (False, fo, [mkIssue ''ICC_PROFILE_MISSING''
               (''output intent profile '' @ quoted n @ '' was not found; the output intent was left to the standard conversion'') False 0])
         | Some fo' \<Rightarrow>
             (n \<noteq> [] \<or> fixParam f ''identifier'' \<noteq> [] \<or> fixParam f ''condition'' \<noteq> [], intent_texts f fo', []))"

section \<open>Scheduling\<close>

definition content_fixes :: "string list" where
  "content_fixes = [''annotation.handle'', ''bleed.around_shape'', ''bleed.generate'', ''color.embed_measurements'',
     ''color.icc_to_device'', ''color.icc_to_v2'', ''color.map'', ''color.nchannel_to_devicen'',
     ''color.process_to_spot'', ''color.split_devicen'', ''color.to_library_spot'',
     ''content.bring_to_front'', ''content.fill_as_stroke'', ''content.fix_negative_dash'',
     ''content.remove_outside'', ''content.smooth_lines_to_curves'', ''document.associate_files'',
     ''document.remove_conformance_claim'', ''document.set_info'', ''document.set_view'', ''font.rename'',
     ''form.generate_appearances'', ''graphics.remove'', ''graphics.set'', ''image.expand_filter_names'',
     ''image.merge_fragments'', ''image.recompress'', ''image.set_interpolation'', ''image.sharpen'',
     ''ink.dot_gain'', ''ink.knockout_white'', ''ink.min_line_width'', ''ink.overprint_black'',
     ''ink.white_plate'', ''layer.flatten'', ''layer.move_objects'', ''layer.set'', ''link.from_text'',
     ''metadata.uncompress_xmp'', ''outline.from_headings'', ''outline.repair'',
     ''output_intent.remove_profile'', ''output_intent.set'', ''page.add_marks'', ''page.crop_to'',
     ''page.mirror'', ''page.move_origin'', ''page.rasterize'', ''page.remove_user_unit'',
     ''page.repair_resources'', ''page.rotate'', ''page.scale'', ''page.set_box'', ''place.barcode'',
     ''place.circle'', ''place.html'', ''place.pdf'', ''place.rectangle'', ''place.text'',
     ''spot.normalise_names'', ''spot.registration_to_black'', ''spot.rename'', ''spot.unify_definitions'',
     ''structure.actual_text_for_symbols'', ''structure.mark_header_footer'', ''structure.resolve_role_map'',
     ''text.add_invisible_copy'', ''text.set_render_mode'', ''transparency.flatten'',
     ''transparency.remove_unneeded_groups'', ''transparency.set_blend_space'']"

definition isContentFix :: "string \<Rightarrow> bool" where
  "isContentFix n \<longleftrightarrow> n \<in> set content_fixes"

record fix_state =
  fs_opt :: fix_options
  fs_notes :: "Issue list"
  fs_noted :: "string set"

definition scheduled :: "PfFix \<Rightarrow> string \<Rightarrow> fix_state \<Rightarrow> fix_state" where
  "scheduled f what s =
     (if fx_id f \<in> fs_noted s then s
      else s\<lparr>fs_noted := insert (fx_id f) (fs_noted s),
             fs_notes := fs_notes s @ [mkIssue ''FIX_SCHEDULED'' (fx_id f @ '': '' @ what) True 0]\<rparr>)"

definition add_note :: "string \<Rightarrow> string \<Rightarrow> fix_state \<Rightarrow> fix_state" where
  "add_note c d s = s\<lparr>fs_notes := fs_notes s @ [mkIssue c d False 0]\<rparr>"

abbreviation set_opt :: "fix_options \<Rightarrow> fix_state \<Rightarrow> fix_state" where
  "set_opt fo s \<equiv> s\<lparr>fs_opt := fo\<rparr>"

definition downsample :: "registry \<Rightarrow> PfFix \<Rightarrow> fix_state \<Rightarrow> fix_state" where
  "downsample R f s =
     (let fo = fs_opt s; target = fixParamNum R f ''target''; above = fixParamNum R f ''above'';
          ppi = (if less_d zero_d target \<and> (le_d (fo_imageMaxPpi fo) zero_d \<or> less_d target (fo_imageMaxPpi fo))
                 then target else fo_imageMaxPpi fo);
          fo = fo\<lparr>fo_imageMaxPpi := ppi, fo_imageDownsampleAbovePpi := max_d above ppi,
                  fo_imageDownsampleKind := fixParam f ''kind''\<rparr>
      in scheduled f (''images above '' @ fmtFixed (fo_imageDownsampleAbovePpi fo) 0 @ '' ppi are reduced to '' @
           fmtFixed target 0 @ '' ppi'') (set_opt fo s))"

definition upsample :: "registry \<Rightarrow> PfFix \<Rightarrow> fix_state \<Rightarrow> fix_state" where
  "upsample R f s =
     (let fo = fs_opt s; target = fixParamNum R f ''target''; below = fixParamNum R f ''below'';
          fo = (if less_d zero_d target
                then fo\<lparr>fo_imageUpsampleToPpi := target,
                        fo_imageUpsampleBelowPpi := (if less_d zero_d below then below else target)\<rparr> else fo)
      in scheduled f (''images below '' @ fmtFixed (fo_imageUpsampleBelowPpi fo) 0 @ '' ppi are raised'') (set_opt fo s))"

text \<open>The identifiers of the rules a fix is limited to.\<close>

definition rule_ids :: "PfProfile \<Rightarrow> PfFix \<Rightarrow> string list" where
  "rule_ids p f = List.map_filter (\<lambda>n. map_option r_id (map_of (pf_ruleIndex p) n)) (fx_onlyWhere f)"

definition push_fix :: "PfProfile \<Rightarrow> PfFix \<Rightarrow> fix_options \<Rightarrow> fix_options" where
  "push_fix p f fo =
     (let ids = rule_ids p f; k = length (fo_profileFixOps fo);
          fo = (if ids \<noteq> [] then fo\<lparr>fo_profileFixRules := (fo_profileFixRules fo)(k \<mapsto> ids)\<rparr> else fo)
      in fo\<lparr>fo_profileFixOps := fo_profileFixOps fo @ [(fx_id f, fx_args f)]\<rparr>)"

definition content_fix :: "icc_source \<Rightarrow> PfProfile \<Rightarrow> PfFix \<Rightarrow> fix_state \<Rightarrow> fix_state" where
  "content_fix S p f s =
     (if fx_id f = ''output_intent.set'' then
        (case scheduleOutputIntent S f (fs_opt s) of (go, fo, new) \<Rightarrow>
           let s = (set_opt fo s)\<lparr>fs_notes := fs_notes s @ new\<rparr>
           in if \<not> go then s else scheduled f ''scheduled'' (set_opt (push_fix p f fo) s))
      else scheduled f ''scheduled'' (set_opt (push_fix p f (fs_opt s)) s))"

definition apply_fix :: "registry \<Rightarrow> icc_source \<Rightarrow> PfProfile \<Rightarrow> fix_state \<Rightarrow> PfFix \<Rightarrow> fix_state" where
  "apply_fix R S p s f =
     (if fx_fix f < 0 then add_note ''FIX_UNKNOWN'' (fx_id f @ '': not a Kura fix'') s
      else if fx_id f = ''color.convert'' then
        scheduled f ''colour conversion scheduled'' (set_opt (scheduleColorConvert R S f (fs_opt s)) s)
      else if fx_id f = ''image.downsample'' then downsample R f s
      else if fx_id f = ''image.upsample'' then upsample R f s
      else if fx_id f = ''font.to_outlines'' then
        scheduled f ''text will be drawn as outlines'' (set_opt ((fs_opt s)\<lparr>fo_outlineFonts := True\<rparr>) s)
      else if fx_id f = ''document.linearize'' then
        scheduled f ''output will be linearized for fast web view'' (set_opt ((fs_opt s)\<lparr>fo_linearize := True\<rparr>) s)
      else if isContentFix (fx_id f) then content_fix S p f s
      else add_note ''FIX_UNKNOWN'' (fx_id f @ '': Kura cannot run this fix yet'') s)"

definition applyProfileFixes_opt :: "registry \<Rightarrow> icc_source \<Rightarrow> string \<Rightarrow> fix_options \<Rightarrow> Issue list \<Rightarrow> (fix_options \<times> Issue list) option" where
  "applyProfileFixes_opt R S txt fo notes0 =
     (case parseKuraJson R txt of
        None \<Rightarrow> None
      | Some (Inl e) \<Rightarrow> Some (fo, notes0)
      | Some (Inr p) \<Rightarrow>
          let s = foldl (apply_fix R S p) \<lparr>fs_opt = fo, fs_notes = notes0, fs_noted = {}\<rparr> (pf_fixes p)
          in Some (fs_opt s, fs_notes s))"

section \<open>Running the scheduled fixes\<close>

text \<open>
  What a fix is handed. Pages are given by their index in the document; \<open>fc_pageIdx\<close> is empty
  when the fix runs on all of them.
\<close>

record FixupCtx =
  fc_pages :: "nat list"
  fc_fix :: PfFix
  fc_pageIdx :: "nat list"
  fc_pageCount :: nat

definition indexOf :: "FixupCtx \<Rightarrow> nat \<Rightarrow> nat" where
  "indexOf f k = (if k < length (fc_pageIdx f) then fc_pageIdx f ! k else k)"

text \<open>\<open>fr_run\<close> is the function the table of fixes has for the name of the fix, \<open>fr_issue\<close> reports an issue.\<close>

record 'c fix_run =
  fr_run :: "FixupCtx \<Rightarrow> 'c \<Rightarrow> 'c"
  fr_issue :: "string \<Rightarrow> string \<Rightarrow> bool \<Rightarrow> 'c \<Rightarrow> 'c"

definition selected_pages :: "(string \<Rightarrow> int set) \<Rightarrow> string list \<Rightarrow> nat \<Rightarrow> nat list" where
  "selected_pages hits ids n =
     (let hp = (\<Union>i \<in> set ids. hits i) in filter (\<lambda>k. 0 \<in> hp \<or> int k + 1 \<in> hp) [0..<n])"

definition fix_op :: "registry \<Rightarrow> 'c fix_run \<Rightarrow> fix_options \<Rightarrow> (string \<Rightarrow> int set) \<Rightarrow> nat \<Rightarrow> 'c \<Rightarrow> nat \<Rightarrow> 'c" where
  "fix_op R F fo hits n c fi =
     (case fo_profileFixOps fo ! fi of (name, args) \<Rightarrow>
        let f = PfFix0\<lparr>fx_id := name, fx_fix := fixIndex R name, fx_args := args\<rparr>
        in if \<not> isContentFix name then c
           else case fo_profileFixRules fo fi of
             Some (i # is) \<Rightarrow>
               let sel = selected_pages hits (i # is) n
               in if sel = [] then fr_issue F ''FIX_NOT_NEEDED'' (name @ '': its only_where checks found nothing'') False c
                  else fr_run F \<lparr>fc_pages = sel, fc_fix = f, fc_pageIdx = sel, fc_pageCount = n\<rparr> c
           | _ \<Rightarrow> fr_run F \<lparr>fc_pages = [0..<n], fc_fix = f, fc_pageIdx = [], fc_pageCount = n\<rparr> c)"

definition passProfileFixups_run :: "registry \<Rightarrow> 'c fix_run \<Rightarrow> fix_options \<Rightarrow> (string \<Rightarrow> int set) \<Rightarrow> nat \<Rightarrow> 'c \<Rightarrow> 'c" where
  "passProfileFixups_run R F fo hits n c = foldl (fix_op R F fo hits n) c [0..<length (fo_profileFixOps fo)]"

section \<open>What is scheduled\<close>

text \<open>Whether the fix becomes an operation on the pages; \<open>intent_runs\<close> is the answer of \<open>scheduleOutputIntent\<close>.\<close>

definition intent_runs :: "icc_source \<Rightarrow> PfFix \<Rightarrow> bool" where
  "intent_runs S f \<longleftrightarrow>
     (if fixParam f ''profile'' \<noteq> [] then icc S (fixParam f ''profile'') \<noteq> None
      else fixParam f ''identifier'' \<noteq> [] \<or> fixParam f ''condition'' \<noteq> [])"

definition runs_on_pages :: "icc_source \<Rightarrow> PfFix \<Rightarrow> bool" where
  "runs_on_pages S f \<longleftrightarrow> fx_fix f \<ge> 0 \<and> isContentFix (fx_id f) \<and> (fx_id f = ''output_intent.set'' \<longrightarrow> intent_runs S f)"

text \<open>The operations and the rules they are limited to are those of the fixes \<open>fs\<close>.\<close>

definition holds_fixes :: "PfProfile \<Rightarrow> PfFix list \<Rightarrow> fix_options \<Rightarrow> bool" where
  "holds_fixes p fs fo \<longleftrightarrow> fo_profileFixOps fo = map (\<lambda>f. (fx_id f, fx_args f)) fs \<and>
     (\<forall>k. fo_profileFixRules fo k = (if k < length fs \<and> rule_ids p (fs ! k) \<noteq> [] then Some (rule_ids p (fs ! k)) else None))"

lemma push_fix_holds: "holds_fixes p fs fo \<Longrightarrow> holds_fixes p (fs @ [f]) (push_fix p f fo)"
  by (auto simp: holds_fixes_def push_fix_def Let_def nth_append less_Suc_eq)

lemma scheduled_opt [simp]: "fs_opt (scheduled f w s) = fs_opt s"
  by (simp add: scheduled_def)

text \<open>The part of the options that the pass over the pages reads.\<close>

abbreviation ops_of :: "fix_options \<Rightarrow> (string \<times> params) list \<times> (nat \<rightharpoonup> string list)" where
  "ops_of fo \<equiv> (fo_profileFixOps fo, fo_profileFixRules fo)"

lemma holds_fixes_cong: "ops_of fo = ops_of fo' \<Longrightarrow> holds_fixes p fs fo = holds_fixes p fs fo'"
  by (simp add: holds_fixes_def)

lemma intent_ops: "ops_of (intent_texts f fo) = ops_of fo" "intent_profile S n fo = Some fo' \<Longrightarrow> ops_of fo' = ops_of fo"
  by (simp add: intent_texts_def Let_def) (auto simp: intent_profile_def split: if_splits option.splits)

lemma scheduleOutputIntent_go:
  assumes "scheduleOutputIntent S f fo = (go, fo', new)"
  shows "go = intent_runs S f" "ops_of fo' = ops_of fo"
proof -
  define fo1 where "fo1 = (if fixParam f ''pages'' \<noteq> [] then fo\<lparr>fo_pageOutputIntents := fixParam f ''pages''\<rparr> else fo)"
  have o: "ops_of fo1 = ops_of fo" by (simp add: fo1_def)
  show "go = intent_runs S f" "ops_of fo' = ops_of fo"
    using assms o intent_ops(1)[of f] intent_ops(2)[of S "fixParam f ''profile''" fo1]
    unfolding scheduleOutputIntent_def Let_def fo1_def[symmetric]
    by (auto simp: intent_runs_def intent_profile_def split: option.splits if_splits)
qed

lemma other_ops: "\<not> isContentFix ''color.convert''" "\<not> isContentFix ''image.downsample''" "\<not> isContentFix ''image.upsample''"
  "\<not> isContentFix ''font.to_outlines''" "\<not> isContentFix ''document.linearize''"
  by (simp_all add: isContentFix_def content_fixes_def)

lemma apply_fix_holds:
  assumes "holds_fixes p fs (fs_opt s)"
  shows "holds_fixes p (fs @ filter (runs_on_pages S) [f]) (fs_opt (apply_fix R S p s f))"
proof (cases "fx_fix f \<ge> 0 \<and> isContentFix (fx_id f)")
  case True
  then have "apply_fix R S p s f = content_fix S p f s" using other_ops by (auto simp: apply_fix_def)
  moreover have "holds_fixes p (fs @ filter (runs_on_pages S) [f]) (fs_opt (content_fix S p f s))"
  proof (cases "fx_id f = ''output_intent.set''")
    case set: True
    obtain go fo new where o: "scheduleOutputIntent S f (fs_opt s) = (go, fo, new)" by (metis prod_cases3)
    from scheduleOutputIntent_go[OF o] assms have "holds_fixes p fs fo" "go = intent_runs S f" using holds_fixes_cong by blast+
    with True set o push_fix_holds[of p fs fo f] show ?thesis by (simp add: content_fix_def runs_on_pages_def Let_def)
  next
    case False
    with True assms push_fix_holds[of p fs "fs_opt s" f] show ?thesis by (simp add: content_fix_def runs_on_pages_def)
  qed
  ultimately show ?thesis by simp
next
  case False
  then have "\<not> runs_on_pages S f" by (auto simp: runs_on_pages_def)
  moreover have "fo_profileFixOps (fs_opt (apply_fix R S p s f)) = fo_profileFixOps (fs_opt s)"
    "fo_profileFixRules (fs_opt (apply_fix R S p s f)) = fo_profileFixRules (fs_opt s)"
    using False by (auto simp: apply_fix_def add_note_def downsample_def upsample_def scheduleColorConvert_def Let_def)
  ultimately show ?thesis using assms by (simp add: holds_fixes_def)
qed

lemma apply_fixes_holds:
  assumes "holds_fixes p gs (fs_opt s)"
  shows "holds_fixes p (gs @ filter (runs_on_pages S) fs) (fs_opt (foldl (apply_fix R S p) s fs))"
  using assms
proof (induction fs arbitrary: s gs)
  case (Cons f fs)
  from Cons.IH[OF apply_fix_holds[OF Cons.prems, where S = S and f = f and R = R]] show ?case by (simp split: if_splits)
qed simp

lemma fixParam_only_where [simp]:
  "fixParam (f\<lparr>fx_onlyWhere := w\<rparr>) n = fixParam f n" "fixParamNum R (f\<lparr>fx_onlyWhere := w\<rparr>) n = fixParamNum R f n"
  "fixParamBool (f\<lparr>fx_onlyWhere := w\<rparr>) n = fixParamBool f n" "fixParamList (f\<lparr>fx_onlyWhere := w\<rparr>) n = fixParamList f n"
proof -
  show p: "fixParam (f\<lparr>fx_onlyWhere := w\<rparr>) n = fixParam f n" for n by (simp add: fixParam_def)
  show "fixParamNum R (f\<lparr>fx_onlyWhere := w\<rparr>) n = fixParamNum R f n" unfolding fixParamNum_def p by simp
  show "fixParamBool (f\<lparr>fx_onlyWhere := w\<rparr>) n = fixParamBool f n" "fixParamList (f\<lparr>fx_onlyWhere := w\<rparr>) n = fixParamList f n"
    by (simp_all add: fixParamBool_def fixParamList_def p)
qed

lemma scheduled_only_where [simp]: "scheduled (f\<lparr>fx_onlyWhere := w\<rparr>) what s = scheduled f what s"
  by (simp add: scheduled_def)

text \<open>
  C45. Limiting a fix to the pages of some checks has no effect on the fixes that only set options
  of the conversion: colour conversion, image resampling, outlining of fonts and linearizing are
  scheduled the same with any \<^verbatim>\<open>only_where\<close>.
\<close>

theorem option_fixes_ignore_only_where:
  assumes "fx_id f \<in> {''color.convert'', ''image.downsample'', ''image.upsample'', ''font.to_outlines'', ''document.linearize''}"
  shows "apply_fix R S p s (f\<lparr>fx_onlyWhere := w\<rparr>) = apply_fix R S p s f"
proof -
  have "scheduleColorConvert R S (f\<lparr>fx_onlyWhere := w\<rparr>) = scheduleColorConvert R S f"
    unfolding fun_eq_iff scheduleColorConvert_def color_quick_def color_link_def color_basic_def fixParam_only_where by simp
  moreover have "downsample R (f\<lparr>fx_onlyWhere := w\<rparr>) s = downsample R f s" "upsample R (f\<lparr>fx_onlyWhere := w\<rparr>) s = upsample R f s"
    unfolding downsample_def upsample_def fixParam_only_where scheduled_only_where by simp_all
  ultimately show ?thesis using assms unfolding apply_fix_def by auto
qed

section \<open>Where a fix runs\<close>

lemma rule_ids_named:
  assumes "fix_ok R p f"
  shows "set (rule_ids p f) = {r_id r | r. r \<in> set (pf_rules p) \<and> map_of (pf_ruleIndex p) (r_name r) = Some r \<and> r_name r \<in> set (fx_onlyWhere f)}"
    and "rule_ids p f = [] \<longleftrightarrow> fx_onlyWhere f = []"
proof -
  let ?m = "map_of (pf_ruleIndex p)"
  from assms have n: "\<exists>r \<in> set (pf_rules p). ?m n = Some r \<and> r_name r = n" if "n \<in> set (fx_onlyWhere f)" for n
    using that by (simp add: fix_ok_def)
  have s: "i \<in> set (rule_ids p f) \<longleftrightarrow> (\<exists>n \<in> set (fx_onlyWhere f). \<exists>r. ?m n = Some r \<and> i = r_id r)" for i
    by (auto simp: rule_ids_def List.map_filter_def image_iff) (metis option.sel option.simps(3))
  show "set (rule_ids p f) = {r_id r | r. r \<in> set (pf_rules p) \<and> ?m (r_name r) = Some r \<and> r_name r \<in> set (fx_onlyWhere f)}"
  proof (intro set_eqI iffI)
    fix i assume "i \<in> set (rule_ids p f)"
    then obtain n r where "n \<in> set (fx_onlyWhere f)" "?m n = Some r" "i = r_id r" using s by blast
    with n[of n] show "i \<in> {r_id r | r. r \<in> set (pf_rules p) \<and> ?m (r_name r) = Some r \<and> r_name r \<in> set (fx_onlyWhere f)}" by auto
  qed (use s in blast)
  show "rule_ids p f = [] \<longleftrightarrow> fx_onlyWhere f = []"
  proof (cases "fx_onlyWhere f")
    case (Cons a l)
    with n[of a] s have "rule_ids p f \<noteq> []" by fastforce
    with Cons show ?thesis by simp
  qed (simp add: rule_ids_def List.map_filter_def)
qed

lemma rules_apart:
  assumes "checks_inv R cs (length cs) (p, N)"
  shows "r \<in> set (pf_rules p) \<Longrightarrow> r' \<in> set (pf_rules p) \<Longrightarrow> r_id r = r_id r' \<Longrightarrow> r = r'"
    and "r \<in> set (pf_rules p) \<Longrightarrow> r' \<in> set (pf_rules p) \<Longrightarrow> r_name r = r_name r' \<Longrightarrow> r = r'"
proof -
  have id: "r_id (pf_rules p ! i) = rule_id i" if "i < length (pf_rules p)" for i
    using assms that by (simp add: checks_inv_def rule_from_def)
  have "distinct (map r_name (pf_rules p))" using assms by (simp add: checks_inv_def)
  then show "r \<in> set (pf_rules p) \<Longrightarrow> r' \<in> set (pf_rules p) \<Longrightarrow> r_name r = r_name r' \<Longrightarrow> r = r'"
    unfolding distinct_map by (metis inj_onD)
  show "r \<in> set (pf_rules p) \<Longrightarrow> r' \<in> set (pf_rules p) \<Longrightarrow> r_id r = r_id r' \<Longrightarrow> r = r'"
    by (auto simp: in_set_conv_nth id rule_id_def nat_str_eq_iff)
qed

text \<open>The index of a page a fix is handed does not depend on whether it runs on all pages.\<close>

lemma indexOf_pages:
  "k < length pgs \<Longrightarrow> indexOf \<lparr>fc_pages = pgs, fc_fix = f, fc_pageIdx = pgs, fc_pageCount = n\<rparr> k = pgs ! k"
  "k < n \<Longrightarrow> indexOf \<lparr>fc_pages = [0..<n], fc_fix = f, fc_pageIdx = [], fc_pageCount = n\<rparr> k = [0..<n] ! k"
  by (simp_all add: indexOf_def)

text \<open>The pages a fix is asked for: all, or those where one of its checks has hit.\<close>

definition fix_pages :: "'x preflight \<Rightarrow> hit_limits \<Rightarrow> PfProfile \<Rightarrow> 'x Events \<Rightarrow> nat \<Rightarrow> PfFix \<Rightarrow> nat list" where
  "fix_pages P lim p ev n f =
     (if fx_onlyWhere f = [] then [0..<n]
      else filter (\<lambda>k. \<exists>r \<in> set (pf_rules p). r_name r \<in> set (fx_onlyWhere f) \<and>
             (0 \<in> hit_pages (rule_report P lim p ev r) \<or> int k + 1 \<in> hit_pages (rule_report P lim p ev r))) [0..<n])"

definition fix_step :: "'c fix_run \<Rightarrow> nat \<Rightarrow> (PfFix \<Rightarrow> nat list) \<Rightarrow> PfFix \<Rightarrow> 'c \<Rightarrow> 'c" where
  "fix_step F n pgs f c =
     (if fx_onlyWhere f \<noteq> [] \<and> pgs f = []
      then fr_issue F ''FIX_NOT_NEEDED'' (fx_id f @ '': its only_where checks found nothing'') False c
      else fr_run F \<lparr>fc_pages = pgs f, fc_fix = f\<lparr>fx_onlyWhere := []\<rparr>,
                     fc_pageIdx = (if fx_onlyWhere f = [] then [] else pgs f), fc_pageCount = n\<rparr> c)"

lemma selected_fix_pages:
  assumes "checks_inv R cs (length cs) (p, N)" "fix_ok R p f" "fx_onlyWhere f \<noteq> []" "pc_ruleHitPages c = (\<lambda>_. {})"
  shows "selected_pages (pc_ruleHitPages (reportRuleHits P lim p ev c)) (rule_ids p f) n = fix_pages P lim p ev n f"
proof -
  let ?h = "\<lambda>r. hit_pages (rule_report P lim p ev r)"
  have m: "map_of (pf_ruleIndex p) (r_name r) = Some r" if "r \<in> set (pf_rules p)" "r_name r \<in> set (fx_onlyWhere f)" for r
    using assms(2) that rules_apart(2)[OF assms(1) that(1)] by (fastforce simp: fix_ok_def)
  have H: "pc_ruleHitPages (reportRuleHits P lim p ev c) j = (\<Union>r \<in> {r \<in> set (pf_rules p). r_id r = j}. ?h r)" for j
    by (simp add: reportRuleHits_def run_rules assms(4))
  then have one: "pc_ruleHitPages (reportRuleHits P lim p ev c) (r_id r) = ?h r" if "r \<in> set (pf_rules p)" for r
    using that rules_apart(1)[OF assms(1) _ that] by auto
  have ids: "j \<in> set (rule_ids p f) \<longleftrightarrow> (\<exists>r \<in> set (pf_rules p). r_name r \<in> set (fx_onlyWhere f) \<and> j = r_id r)" for j
    using m unfolding rule_ids_named(1)[OF assms(2)] by blast
  have "i \<in> (\<Union>j \<in> set (rule_ids p f). pc_ruleHitPages (reportRuleHits P lim p ev c) j) \<longleftrightarrow>
      (\<exists>r \<in> set (pf_rules p). r_name r \<in> set (fx_onlyWhere f) \<and> i \<in> ?h r)" for i
    unfolding UN_iff Bex_def ids using one by blast
  from this[of 0] this[of "int k + 1" for k] assms(3) show ?thesis
    unfolding selected_pages_def fix_pages_def Let_def by (auto intro!: filter_cong)
qed

lemma fix_op_step:
  assumes "checks_inv R cs (length cs) (p, N)" "pc_ruleHitPages c = (\<lambda>_. {})"
    "holds_fixes p fs fo" "k < length fs" "fix_ok R p (fs ! k)" "isContentFix (fx_id (fs ! k))"
  shows "fix_op R F fo (pc_ruleHitPages (reportRuleHits P lim p ev c)) n x k = fix_step F n (fix_pages P lim p ev n) (fs ! k) x"
proof -
  let ?f = "fs ! k"
  have o: "fo_profileFixOps fo ! k = (fx_id ?f, fx_args ?f)"
    "fo_profileFixRules fo k = (if rule_ids p ?f \<noteq> [] then Some (rule_ids p ?f) else None)"
    using assms(3,4) by (simp_all add: holds_fixes_def)
  have f: "PfFix0\<lparr>fx_id := fx_id ?f, fx_fix := fixIndex R (fx_id ?f), fx_args := fx_args ?f\<rparr> = ?f\<lparr>fx_onlyWhere := []\<rparr>"
    using assms(5) by (simp add: PfFix0_def fix_ok_def)
  show ?thesis
  proof (cases "fx_onlyWhere ?f = []")
    case True
    then have "rule_ids p ?f = []" by (simp add: rule_ids_named(2)[OF assms(5)])
    with True assms(6) show ?thesis by (simp add: fix_op_def o f fix_step_def fix_pages_def Let_def)
  next
    case False
    then obtain i l where i: "rule_ids p ?f = i # l" using rule_ids_named(2)[OF assms(5)] by (cases "rule_ids p ?f") auto
    from selected_fix_pages[OF assms(1,5) False assms(2), of P lim ev n] False assms(6) show ?thesis
      by (simp add: fix_op_def o f i fix_step_def Let_def)
  qed
qed

lemma foldl_nth: "foldl (\<lambda>c k. g (xs ! k) c) c [0..<length xs] = fold g xs c"
proof -
  have "foldl (\<lambda>c k. g (xs ! k) c) c [0..<length xs] = foldl (\<lambda>c x. g x c) c (map ((!) xs) [0..<length xs])"
    by (simp only: foldl_map)
  then show ?thesis by (simp only: map_nth foldl_conv_fold)
qed

lemma parseKuraJson_profile:
  assumes "parseKuraJson R txt = Some (Inr p)"
  obtains root where "profile R root = Inr p"
proof -
  from assms obtain z where z: "(case z of Inl e \<Rightarrow> Inl (''not valid JSON: '' @ e) | Inr root \<Rightarrow> profile R root) = Inr p"
    by (auto simp: parseKuraJson_def)
  then show thesis using that by (cases z) simp_all
qed

text \<open>
  C30. From the text of a profile to the pages its fixes change. When no fix was scheduled before
  and no check has run, the fixes of the profile that work on pages run in their order, each once:
  one without \<^verbatim>\<open>only_where\<close> on all pages, one with it on the pages where at least one of
  the checks it names has hit, on all of them after a hit of the whole document, and not at all,
  with a note, when these checks hit nothing.
\<close>

theorem profile_fixes_run:
  assumes "parseKuraJson R txt = Some (Inr p)" "applyProfileFixes_opt R S txt fo ns = Some (fo', ns')"
    "fo_profileFixOps fo = []" "fo_profileFixRules fo = Map.empty" "pc_ruleHitPages c = (\<lambda>_. {})"
  shows "passProfileFixups_run R F fo' (pc_ruleHitPages (reportRuleHits P lim p ev c)) n x =
    fold (fix_step F n (fix_pages P lim p ev n)) (filter (runs_on_pages S) (pf_fixes p)) x"
proof -
  let ?fs = "filter (runs_on_pages S) (pf_fixes p)"
  from assms(1) obtain root where "profile R root = Inr p" by (rule parseKuraJson_profile)
  then have "profile_ok R root p" by (rule profile_read_ok)
  then obtain cs where i: "checks_inv R cs (length cs) (p, r_name ` set (pf_rules p))" "\<forall>f \<in> set (pf_fixes p). fix_ok R p f"
    unfolding profile_ok_def by blast
  define s0 where "s0 = \<lparr>fs_opt = fo, fs_notes = ns, fs_noted = {}\<rparr>"
  have "holds_fixes p [] (fs_opt s0)" using assms(3,4) by (simp add: s0_def holds_fixes_def)
  from apply_fixes_holds[OF this, of S "pf_fixes p" R] have "holds_fixes p ?fs (fs_opt (foldl (apply_fix R S p) s0 (pf_fixes p)))"
    by simp
  moreover have "fo' = fs_opt (foldl (apply_fix R S p) s0 (pf_fixes p))"
    using assms(1,2) by (simp add: applyProfileFixes_opt_def s0_def Let_def)
  ultimately have h: "holds_fixes p ?fs fo'" by simp
  then have len: "length (fo_profileFixOps fo') = length ?fs" by (simp add: holds_fixes_def)
  have "fix_op R F fo' (pc_ruleHitPages (reportRuleHits P lim p ev c)) n y k = fix_step F n (fix_pages P lim p ev n) (?fs ! k) y"
    if "k < length ?fs" for y k
  proof -
    from that have "?fs ! k \<in> set ?fs" by (rule nth_mem)
    with i(2) have "fix_ok R p (?fs ! k)" "isContentFix (fx_id (?fs ! k))" by (auto simp: runs_on_pages_def)
    from fix_op_step[OF i(1) assms(5) h that this] show ?thesis .
  qed
  then have "passProfileFixups_run R F fo' (pc_ruleHitPages (reportRuleHits P lim p ev c)) n x =
      foldl (\<lambda>y k. fix_step F n (fix_pages P lim p ev n) (?fs ! k) y) x [0..<length ?fs]"
    unfolding passProfileFixups_run_def len by (intro foldl_cong) simp_all
  then show ?thesis by (simp only: foldl_nth)
qed

section \<open>An example\<close>

text \<open>
  Two checks and two fixes, the first limited to the pages where check \<open>b\<close> has hit, on a document
  of five pages.
\<close>

definition fixes_root :: Json where
  "fixes_root = JObj [(''kura-profile'', JNum (of_int_d 1)), (''checks'', JArr [sample_check ''K2'', sample_check ''b'']),
     (''fixes'', JArr [JObj [(''fix'', JStr ''page.rotate''), (''only_where'', JArr [JStr ''b''])],
                     JObj [(''fix'', JStr ''page.mirror'')]])]"

definition fixes_profile :: PfProfile where
  "fixes_profile = sample_profile\<lparr>pf_fixes :=
     [PfFix0\<lparr>fx_id := ''page.rotate'', fx_fix := 0, fx_onlyWhere := [''b'']\<rparr>, PfFix0\<lparr>fx_id := ''page.mirror'', fx_fix := 1\<rparr>]\<rparr>"

lemma sample_fix_index: "fixIndex sample_registry ''page.rotate'' = 0" "fixIndex sample_registry ''page.mirror'' = 1"
  by (simp_all add: fixIndex_def index_of_def sample_registry_def)

lemma sample_b: "map_of (pf_ruleIndex sample_profile) ''b'' = Some (sample_rule 1 ''b'')"
proof -
  have "index_ok sample_profile" using profile_read_ok[OF sample_read] by (auto simp: profile_ok_def checks_inv_def)
  moreover have "pf_rules sample_profile = [sample_rule 0 ''K2'', sample_rule 1 ''b'']"
    by (simp add: sample_profile_def add_rule_def PfProfile0_def)
  ultimately show ?thesis by (simp add: index_ok_def sample_rule_def)
qed

lemma sample_fix_params: "fd_params (kFixes sample_registry ! 0) = []" "fd_params (kFixes sample_registry ! Suc 0) = []"
  by (simp_all add: sample_registry_def)

lemma sample_fix_check:
  "checkFix sample_registry (PfFix0\<lparr>fx_id := ''page.rotate'', fx_onlyWhere := w\<rparr>) loc =
     Inr (PfFix0\<lparr>fx_id := ''page.rotate'', fx_fix := 0, fx_onlyWhere := w\<rparr>)"
  "checkFix sample_registry (PfFix0\<lparr>fx_id := ''page.mirror''\<rparr>) loc = Inr (PfFix0\<lparr>fx_id := ''page.mirror'', fx_fix := 1\<rparr>)"
  by (simp_all add: checkFix_def sample_fix_index sample_fix_params fillParams_def PfFix0_def)

lemma fixes_read: "profile sample_registry fixes_root = Inr fixes_profile"
proof -
  have w: "fold_e (fix_field sample_profile loc) [(''fix'', JStr ''page.rotate''), (''only_where'', JArr [JStr ''b''])] PfFix0 =
      Inr (PfFix0\<lparr>fx_id := ''page.rotate'', fx_onlyWhere := [''b'']\<rparr>)"
    "fold_e (fix_field sample_profile loc) [(''fix'', JStr ''page.mirror'')] PfFix0 = Inr (PfFix0\<lparr>fx_id := ''page.mirror''\<rparr>)" for loc
    by (simp_all add: fix_field_def scalarList_def sample_b sample_rule_def bind_e_def PfFix0_def Let_def)
  have "read_fix sample_registry sample_profile i (JObj [(''fix'', JStr ''page.rotate''), (''only_where'', JArr [JStr ''b''])]) =
      Inr (PfFix0\<lparr>fx_id := ''page.rotate'', fx_fix := 0, fx_onlyWhere := [''b'']\<rparr>)"
    "read_fix sample_registry sample_profile i (JObj [(''fix'', JStr ''page.mirror'')]) =
      Inr (PfFix0\<lparr>fx_id := ''page.mirror'', fx_fix := 1\<rparr>)" for i
    unfolding read_fix_def Let_def Json.case w by (simp_all add: bind_e_def check_e_def sample_fix_check)
  then show ?thesis
    using sample_checks_read[of fixes_root]
    by (simp add: sample_profile_defs fixes_root_def sample_root_def fixes_profile_def)
qed

lemma fixes_parsed: "parseKuraJson sample_registry (jsonText fixes_root) = Some (Inr fixes_profile)"
proof -
  have "plain_num (of_int_d 1)" "finite_d (of_int_d 1)"
    by (auto simp: plain_num_def intro!: exI[of _ 1] of_int_d_finite)
  then have "plain fixes_root" "json_ok kMaxObjectWalk fixes_root"
    by (simp_all add: fixes_root_def sample_check_def kMaxObjectWalk_def)
  from read_value_jsonText[OF this(2,1), of "[]"] show ?thesis
    by (simp add: parseKuraJson_def parseJson_def delim_def ws_def fixes_read)
qed

lemma b_hits:
  "hit_pages (rule_report sample_preflight sample_limits fixes_profile sample_events (sample_rule 1 ''b'')) = {1, 2}"
proof -
  define r where "r = sample_rule 1 ''b''"
  have g: "rule_groups_of fixes_profile r = [[sample_atom]]"
    by (simp add: r_def rule_groups_of_def fixes_profile_def sample_profile_def add_rule_def sample_rule_def PfProfile0_def cond_id_def
        small_nat_str)
  have f: "r_reportPageHits r = []" "r_reportDocHits r = []"
    by (simp_all add: r_def sample_rule_def PfRule0_def)
  have "rule_report sample_preflight sample_limits fixes_profile sample_events r = [hit_issue r 3 {1, 2}]"
    by (simp add: rule_report_def g sample_sweep[of 1 "''b''", folded r_def] report_filter_def page_filter_def f Let_def)
  moreover have "pages (hit_issue r 3 {1, 2}) = [1, 2]" "code (hit_issue r 3 {1, 2}) = ''CHECK_HIT''"
    by (simp_all add: hit_issue_def Let_def)
  ultimately show ?thesis unfolding r_def[symmetric] hit_pages_def by auto
qed

definition sample_job :: ColorJob where
  "sample_job = \<lparr>cj_enabled = False, cj_destName = [], cj_deviceLink = [], cj_embed = EmbedOutputIntent,
     cj_blackPointCompensation = True, cj_preserveBlack = True, cj_processSeparationsAsCmyk = False, cj_grayToBlackOnly = False,
     cj_rgbGrayToBlackOnly = False, cj_rgbGrayTolerance = replicate 3 zero_d, cj_quick = False,
     cj_quickBlackGeneration = zero_d, cj_quickUnderColorRemoval = zero_d, cj_rules = []\<rparr>"

definition sample_options :: fix_options where
  "sample_options = \<lparr>fo_colorJob = sample_job, fo_imageMaxPpi = zero_d, fo_imageDownsampleAbovePpi = zero_d,
     fo_imageDownsampleKind = [], fo_imageUpsampleBelowPpi = zero_d, fo_imageUpsampleToPpi = zero_d, fo_outlineFonts = False,
     fo_linearize = False, fo_pageOutputIntents = [], fo_destProfile = [], fo_outputConditionIdentifier = [],
     fo_outputConditionInfo = [], fo_outputConditionRegistry = [], fo_profileFixOps = [], fo_profileFixRules = Map.empty\<rparr>"

text \<open>A fix that only logs its name and the pages it was handed.\<close>

definition sample_log :: "(string \<times> nat list) list fix_run" where
  "sample_log = \<lparr>fr_run = (\<lambda>f c. c @ [(fx_id (fc_fix f), fc_pages f)]), fr_issue = (\<lambda>x d b c. c @ [(x, [])])\<rparr>"

theorem option_fixes_ignore_only_where_witness:
  "let f = PfFix0\<lparr>fx_id := ''font.to_outlines'', fx_fix := 0\<rparr>; S = \<lparr>icc = Map.empty, icc_desc = (\<lambda>_. [])\<rparr>;
       s = \<lparr>fs_opt = sample_options, fs_notes = [], fs_noted = {}\<rparr>
   in apply_fix sample_registry S sample_profile s (f\<lparr>fx_onlyWhere := [''b'']\<rparr>) = apply_fix sample_registry S sample_profile s f \<and>
      fo_outlineFonts (fs_opt (apply_fix sample_registry S sample_profile s f))"
  unfolding Let_def
  by (intro conjI option_fixes_ignore_only_where) (simp_all add: PfFix0_def apply_fix_def)

theorem profile_fixes_run_witness:
  "\<exists>fo ns. applyProfileFixes_opt sample_registry \<lparr>icc = Map.empty, icc_desc = (\<lambda>_. [])\<rparr> (jsonText fixes_root) sample_options [] = Some (fo, ns) \<and>
    passProfileFixups_run sample_registry sample_log fo
      (pc_ruleHitPages (reportRuleHits sample_preflight sample_limits fixes_profile sample_events
        \<lparr>pc_analysis = [], pc_ruleHitPages = (\<lambda>_. {})\<rparr>)) 5 [] =
    [(''page.rotate'', [0, 1]), (''page.mirror'', [0, 1, 2, 3, 4])]"
proof -
  let ?S = "\<lparr>icc = Map.empty, icc_desc = (\<lambda>_. [])\<rparr>"
  obtain fo ns where o: "applyProfileFixes_opt sample_registry ?S (jsonText fixes_root) sample_options [] = Some (fo, ns)"
    by (simp add: applyProfileFixes_opt_def fixes_parsed Let_def)
  have fs: "filter (runs_on_pages ?S) (pf_fixes fixes_profile) = pf_fixes fixes_profile"
    by (simp add: fixes_profile_def runs_on_pages_def isContentFix_def content_fixes_def PfFix0_def)
  have r: "pf_rules fixes_profile = [sample_rule 0 ''K2'', sample_rule 1 ''b'']"
    by (simp add: fixes_profile_def sample_profile_def add_rule_def PfProfile0_def)
  have five: "[0..<5] = [0, 1, 2, 3, 4::nat]" by code_simp
  have n: "r_name (sample_rule i a) = a" for i a by (simp add: sample_rule_def)
  have "fold (fix_step sample_log 5 (fix_pages sample_preflight sample_limits fixes_profile sample_events 5)) (pf_fixes fixes_profile) [] =
      [(''page.rotate'', [0, 1]), (''page.mirror'', [0, 1, 2, 3, 4])]"
    unfolding fix_step_def fix_pages_def r by (simp add: fixes_profile_def PfFix0_def n b_hits[unfolded fixes_profile_def PfFix0_def, simplified] five sample_log_def)
  with profile_fixes_run[OF fixes_parsed o, of "\<lparr>pc_analysis = [], pc_ruleHitPages = (\<lambda>_. {})\<rparr>" sample_log sample_preflight
      sample_limits sample_events 5 "[]"] o show ?thesis by (simp add: sample_options_def fs)
qed

end
