(* ===== verification/Marking.thy ===== *)
theory Marking
  imports Limits
begin

text \<open>
  Marked content: the token filters that take the tags of a content stream away, set new ones, and
  mark what has none as artifacts (\<^verbatim>\<open>StripMcFilter\<close> and \<^verbatim>\<open>TagWrapFilter\<close> of
  \<^verbatim>\<open>tagging.cpp\<close>, \<^verbatim>\<open>ArtifactWrapFilter\<close> of \<^verbatim>\<open>semantics.cpp\<close>), and the filter that
  removes layers (\<^verbatim>\<open>LayerFlattenFilter\<close> of \<^verbatim>\<open>profile_fixups.cpp\<close>). Tokens come from the
  tokenizer of the PDF library, which gives an inline image as the words \<open>BI\<close> and \<open>ID\<close>, one white
  space, the data and the word \<open>EI\<close>. A filter writes tokens and text of its own.
\<close>

section \<open>Output\<close>

fun emit_text :: "emit \<Rightarrow> string" where
  "emit_text (ETok t) = t_raw t"
| "emit_text (EText s) = s"

definition out_text :: "emit list \<Rightarrow> string" where
  "out_text es = concat (map emit_text es)"

fun emit_token :: "emit \<Rightarrow> token list" where
  "emit_token (ETok t) = [t]"
| "emit_token (EText s) = []"

text \<open>The tokens of the input among what was written.\<close>

definition out_tokens :: "emit list \<Rightarrow> token list" where
  "out_tokens es = concat (map emit_token es)"

lemma out_tokens_simps [simp]:
  "out_tokens [] = []" "out_tokens (e # es) = emit_token e @ out_tokens es" "out_tokens (es @ fs) = out_tokens es @ out_tokens fs"
  "out_tokens (map ETok ts) = ts"
  by (induction ts) (simp_all add: out_tokens_def)

lemma out_text_simps [simp]:
  "out_text [] = []" "out_text (e # es) = emit_text e @ out_text es" "out_text (es @ fs) = out_text es @ out_text fs"
  by (simp_all add: out_text_def)

definition name_in :: "token list \<Rightarrow> string" where
  "name_in ts = (case filter (\<lambda>t. t_type t = TName) ts of [] \<Rightarrow> [] | t # _ \<Rightarrow> t_value t)"

abbreviation mc_begin :: "string set" where
  "mc_begin \<equiv> {''BMC'', ''BDC''}"

section \<open>Taking tags away\<close>

record strip_mc =
  sm_out :: "emit list"
  sm_operands :: "token list"
  sm_stack :: "bool list"

definition strip_mc0 :: strip_mc where
  "strip_mc0 = \<lparr>sm_out = [], sm_operands = [], sm_stack = []\<rparr>"

definition sm_flush :: "strip_mc \<Rightarrow> strip_mc" where
  "sm_flush s = s\<lparr>sm_out := sm_out s @ map ETok (sm_operands s), sm_operands := []\<rparr>"

definition sm_write :: "token \<Rightarrow> strip_mc \<Rightarrow> strip_mc" where
  "sm_write t s = s\<lparr>sm_out := sm_out s @ [ETok t]\<rparr>"

text \<open>The top of the stack is its head.\<close>

definition sm_token :: "strip_mc \<Rightarrow> token \<Rightarrow> strip_mc" where
  "sm_token s t =
     (if t_type t \<noteq> TWord then s\<lparr>sm_operands := sm_operands s @ [t]\<rparr>
      else if t_value t \<in> mc_begin then
        (if name_in (sm_operands s) = ''/Artifact'' then (sm_write t (sm_flush s))\<lparr>sm_stack := True # sm_stack s\<rparr>
         else s\<lparr>sm_operands := [], sm_stack := False # sm_stack s\<rparr>)
      else if t_value t = ''EMC'' then
        (case sm_stack s of
           True # st \<Rightarrow> (sm_write t (sm_flush s))\<lparr>sm_stack := st\<rparr>
         | False # st \<Rightarrow> s\<lparr>sm_operands := [], sm_stack := st\<rparr>
         | [] \<Rightarrow> s\<lparr>sm_operands := []\<rparr>)
      else sm_write t (sm_flush s))"

definition strip_stream :: "token list \<Rightarrow> emit list" where
  "strip_stream ts = sm_out (sm_flush (foldl sm_token strip_mc0 ts))"

section \<open>Setting tags\<close>

record Segment =
  sg_figure :: bool
  sg_mcid :: nat

record tag_wrap =
  tw_out :: "emit list"
  tw_operands :: "token list"
  tw_mcStack :: "bool list"
  tw_btDepth :: nat
  tw_nextMcid :: nat
  tw_pOpen :: bool
  tw_segments :: "Segment list"
  tw_sawContent :: bool

definition tag_wrap0 :: tag_wrap where
  "tag_wrap0 = \<lparr>tw_out = [], tw_operands = [], tw_mcStack = [], tw_btDepth = 0, tw_nextMcid = 0, tw_pOpen = False,
     tw_segments = [], tw_sawContent = False\<rparr>"

definition tw_flush :: "tag_wrap \<Rightarrow> tag_wrap" where
  "tw_flush s = s\<lparr>tw_out := tw_out s @ map ETok (tw_operands s), tw_operands := []\<rparr>"

definition tw_write :: "emit \<Rightarrow> tag_wrap \<Rightarrow> tag_wrap" where
  "tw_write e s = s\<lparr>tw_out := tw_out s @ [e]\<rparr>"

definition tw_inArtifact :: "tag_wrap \<Rightarrow> bool" where
  "tw_inArtifact s \<longleftrightarrow> True \<in> set (tw_mcStack s)"

definition p_open_text :: "nat \<Rightarrow> string" where
  "p_open_text n = ''/P << /MCID '' @ nat_str n @ '' >> BDC'' @ [CHR 0x0A]"

definition figure_text :: "nat \<Rightarrow> string" where
  "figure_text n = ''/Figure << /MCID '' @ nat_str n @ '' >> BDC ''"

definition p_close_text :: string where
  "p_close_text = [CHR 0x0A] @ ''EMC'' @ [CHR 0x0A]"

definition openP :: "tag_wrap \<Rightarrow> tag_wrap" where
  "openP s =
     (if tw_pOpen s \<or> tw_inArtifact s then s
      else let n = tw_nextMcid s
           in (tw_write (EText (p_open_text n)) s)\<lparr>tw_segments := tw_segments s @ [\<lparr>sg_figure = False, sg_mcid = n\<rparr>],
                tw_nextMcid := n + 1, tw_pOpen := True\<rparr>)"

definition closeP :: "tag_wrap \<Rightarrow> tag_wrap" where
  "closeP s = (if \<not> tw_pOpen s then s else (tw_write (EText p_close_text) s)\<lparr>tw_pOpen := False\<rparr>)"

definition tw_figure :: "token \<Rightarrow> tag_wrap \<Rightarrow> tag_wrap" where
  "tw_figure t s =
     (let s = closeP s; n = tw_nextMcid s;
          s = (tw_write (EText (figure_text n)) s)\<lparr>tw_segments := tw_segments s @ [\<lparr>sg_figure = True, sg_mcid = n\<rparr>],
                tw_nextMcid := n + 1\<rparr>
      in (tw_write (EText '' EMC '') (tw_write (ETok t) (tw_flush s)))\<lparr>tw_sawContent := True\<rparr>)"

definition tw_text_object :: "string \<Rightarrow> tag_wrap \<Rightarrow> tag_wrap" where
  "tw_text_object w s =
     (if w = ''BT'' then s\<lparr>tw_btDepth := tw_btDepth s + 1\<rparr>
      else if w = ''ET'' then s\<lparr>tw_btDepth := tw_btDepth s - 1\<rparr> else s)"

definition tw_token :: "string set \<Rightarrow> tag_wrap \<Rightarrow> token \<Rightarrow> tag_wrap" where
  "tw_token imageNames s t =
     (if t_type t = TInlineImage then tw_write (ETok t) (tw_flush (openP s))
      else if t_type t \<noteq> TWord then s\<lparr>tw_operands := tw_operands s @ [t]\<rparr>
      else
        let s = tw_text_object (t_value t) s
        in if t_value t \<in> mc_begin then
             (if name_in (tw_operands s) = ''/Artifact''
              then (tw_write (ETok t) (tw_flush (closeP s)))\<lparr>tw_mcStack := True # tw_mcStack s\<rparr>
              else s\<lparr>tw_operands := [], tw_mcStack := False # tw_mcStack s\<rparr>)
           else if t_value t = ''EMC'' then
             (case tw_mcStack s of
                True # st \<Rightarrow> (tw_write (ETok t) (tw_flush s))\<lparr>tw_mcStack := st\<rparr>
              | False # st \<Rightarrow> s\<lparr>tw_operands := [], tw_mcStack := st\<rparr>
              | [] \<Rightarrow> s\<lparr>tw_operands := []\<rparr>)
           else if t_value t = ''Do'' \<and> \<not> tw_inArtifact s \<and> tw_btDepth s = 0 \<and> name_in (rev (tw_operands s)) \<in> imageNames then
             tw_figure t s
           else (tw_write (ETok t) (tw_flush (if tw_inArtifact s then s else openP s)))\<lparr>tw_sawContent := True\<rparr>)"

definition tag_stream :: "string set \<Rightarrow> token list \<Rightarrow> tag_wrap" where
  "tag_stream imageNames ts = closeP (tw_flush (foldl (tw_token imageNames) tag_wrap0 ts))"

section \<open>Marking artifacts\<close>

record artifact_wrap =
  aw_out :: "emit list"
  aw_operands :: "token list"
  aw_pathBuf :: "token list"
  aw_mcDepth :: nat
  aw_pathClips :: bool
  aw_inPath :: bool
  aw_wrapped :: nat

definition artifact_wrap0 :: artifact_wrap where
  "artifact_wrap0 = \<lparr>aw_out = [], aw_operands = [], aw_pathBuf = [], aw_mcDepth = 0, aw_pathClips = False, aw_inPath = False,
     aw_wrapped = 0\<rparr>"

definition aw_write :: "emit \<Rightarrow> artifact_wrap \<Rightarrow> artifact_wrap" where
  "aw_write e s = s\<lparr>aw_out := aw_out s @ [e]\<rparr>"

definition aw_flush :: "artifact_wrap \<Rightarrow> artifact_wrap" where
  "aw_flush s = s\<lparr>aw_out := aw_out s @ map ETok (aw_operands s), aw_operands := []\<rparr>"

definition flushPath :: "bool \<Rightarrow> artifact_wrap \<Rightarrow> artifact_wrap" where
  "flushPath wrap s =
     (if aw_pathBuf s = [] then s\<lparr>aw_pathClips := False, aw_inPath := False\<rparr>
      else
        let s = (if wrap then (aw_write (EText ''/Artifact BMC '') s)\<lparr>aw_wrapped := aw_wrapped s + 1\<rparr> else s);
            s = s\<lparr>aw_out := aw_out s @ map ETok (aw_pathBuf s)\<rparr>;
            s = (if wrap then aw_write (EText '' EMC '') s else s)
        in s\<lparr>aw_pathBuf := [], aw_pathClips := False, aw_inPath := False\<rparr>)"

text \<open>An operator that shows something, wrapped when it is not marked.\<close>

definition aw_show :: "bool \<Rightarrow> token \<Rightarrow> artifact_wrap \<Rightarrow> artifact_wrap" where
  "aw_show wrap t s =
     (if wrap
      then (aw_write (EText '' EMC '') (aw_write (ETok t) (aw_flush (aw_write (EText ''/Artifact BMC '') s))))
             \<lparr>aw_wrapped := aw_wrapped s + 1\<rparr>
      else aw_write (ETok t) (aw_flush s))"

definition to_path :: "token \<Rightarrow> artifact_wrap \<Rightarrow> artifact_wrap" where
  "to_path t s = s\<lparr>aw_pathBuf := aw_pathBuf s @ aw_operands s @ [t], aw_operands := []\<rparr>"

definition path_ops :: "string set" where
  "path_ops = {''m'', ''l'', ''c'', ''v'', ''y'', ''h'', ''re''}"

definition clip_ops :: "string set" where
  "clip_ops = {''W'', ''W*''}"

definition paint_ops :: "string set" where
  "paint_ops = {''S'', ''s'', ''f'', ''F'', ''f*'', ''B'', ''B*'', ''b'', ''b*'', ''n''}"

definition text_ops :: "string set" where
  "text_ops = {''Tj'', ''TJ'', [CHR 0x27], [CHR 0x22]}"

definition aw_token :: "string set \<Rightarrow> artifact_wrap \<Rightarrow> token \<Rightarrow> artifact_wrap" where
  "aw_token taggedForms s t =
     (let op = t_value t
      in if t_type t = TInlineImage then aw_show (aw_mcDepth s = 0) t s
         else if t_type t \<noteq> TWord then s\<lparr>aw_operands := aw_operands s @ [t]\<rparr>
         else if op \<in> mc_begin then
           (let s = flushPath False s in aw_write (ETok t) (aw_flush (s\<lparr>aw_mcDepth := aw_mcDepth s + 1\<rparr>)))
         else if op = ''EMC'' then
           (let s = flushPath False s in aw_write (ETok t) (aw_flush (s\<lparr>aw_mcDepth := aw_mcDepth s - 1\<rparr>)))
         else if op \<in> path_ops then (to_path t s)\<lparr>aw_inPath := True\<rparr>
         else if op \<in> clip_ops then (to_path t s)\<lparr>aw_pathClips := True\<rparr>
         else if op \<in> paint_ops then
           flushPath (op \<noteq> ''n'' \<and> \<not> aw_pathClips s \<and> aw_mcDepth s = 0) (to_path t s)
         else if op \<in> text_ops then aw_show (aw_mcDepth s = 0) t s
         else if op = ''Do'' \<or> op = ''sh'' then
           aw_show (aw_mcDepth s = 0 \<and> \<not> (op = ''Do'' \<and> name_in (rev (aw_operands s)) \<in> taggedForms)) t s
         else aw_write (ETok t) (aw_flush (flushPath False s)))"

definition wrap_stream :: "string set \<Rightarrow> token list \<Rightarrow> artifact_wrap" where
  "wrap_stream taggedForms ts = aw_flush (flushPath False (foldl (aw_token taggedForms) artifact_wrap0 ts))"

section \<open>Removing layers\<close>

record layer_flatten =
  lf_out :: "emit list"
  lf_pending :: "token list"
  lf_marks :: "(bool \<times> bool) list"
  lf_suppress :: bool
  lf_dropped :: nat

definition layer_flatten0 :: layer_flatten where
  "layer_flatten0 = \<lparr>lf_out = [], lf_pending = [], lf_marks = [], lf_suppress = False, lf_dropped = 0\<rparr>"

definition lf_flush :: "layer_flatten \<Rightarrow> layer_flatten" where
  "lf_flush s = s\<lparr>lf_out := lf_out s @ map ETok (lf_pending s), lf_pending := []\<rparr>"

definition lf_write :: "token \<Rightarrow> layer_flatten \<Rightarrow> layer_flatten" where
  "lf_write t s = s\<lparr>lf_out := lf_out s @ [ETok t]\<rparr>"

text \<open>Whether the operands name an optional content group, and which: the last name after \<open>/OC\<close>.\<close>

definition oc_step :: "bool \<times> string \<Rightarrow> token \<Rightarrow> bool \<times> string" where
  "oc_step st t =
     (if t_type t \<noteq> TName then st
      else if t_value t = ''/OC'' then (True, snd st)
      else if fst st then (True, t_value t) else st)"

definition oc_tag :: "token list \<Rightarrow> bool \<times> string" where
  "oc_tag ts = foldl oc_step (False, []) ts"

definition lf_begin :: "string set \<Rightarrow> token \<Rightarrow> layer_flatten \<Rightarrow> layer_flatten" where
  "lf_begin hidden t s =
     (case oc_tag (lf_pending s) of (isOc, tag) \<Rightarrow>
        if isOc then
          (let hide = (lf_suppress s \<or> (tag \<noteq> [] \<and> tag \<in> hidden)); starts = (hide \<and> \<not> lf_suppress s)
           in s\<lparr>lf_marks := (True, starts) # lf_marks s, lf_suppress := (lf_suppress s \<or> starts),
                lf_dropped := lf_dropped s + (if starts then 1 else 0), lf_pending := []\<rparr>)
        else
          (let s = s\<lparr>lf_marks := (False, False) # lf_marks s\<rparr>
           in if \<not> lf_suppress s then lf_write t (lf_flush s) else s\<lparr>lf_pending := []\<rparr>))"

definition lf_end :: "token \<Rightarrow> layer_flatten \<Rightarrow> layer_flatten" where
  "lf_end t s =
     (case lf_marks s of
        [] \<Rightarrow> if \<not> lf_suppress s then lf_write t (lf_flush s) else s\<lparr>lf_pending := []\<rparr>
      | (isOc, startedSuppress) # ms \<Rightarrow>
          let s = s\<lparr>lf_marks := ms, lf_suppress := (lf_suppress s \<and> \<not> startedSuppress), lf_pending := []\<rparr>
          in if \<not> isOc \<and> \<not> lf_suppress s then lf_write t s else s)"

definition lf_token :: "string set \<Rightarrow> layer_flatten \<Rightarrow> token \<Rightarrow> layer_flatten" where
  "lf_token hidden s t =
     (if t_type t = TInlineImage then (if \<not> lf_suppress s then lf_write t s else s)\<lparr>lf_pending := []\<rparr>
      else if t_type t \<noteq> TWord then
        (let s = s\<lparr>lf_pending := lf_pending s @ [t]\<rparr>
         in if length (lf_pending s) > 64 then (if \<not> lf_suppress s then lf_flush s else s\<lparr>lf_pending := []\<rparr>) else s)
      else if t_value t \<in> mc_begin then lf_begin hidden t s
      else if t_value t = ''EMC'' then lf_end t s
      else if lf_suppress s then s\<lparr>lf_pending := []\<rparr>
      else lf_write t (lf_flush s))"

definition flatten_stream :: "string set \<Rightarrow> token list \<Rightarrow> layer_flatten" where
  "flatten_stream hidden ts = lf_flush ((foldl (lf_token hidden) layer_flatten0 ts)\<lparr>lf_suppress := False\<rparr>)"

section \<open>Tags of the written stream\<close>

datatype mark = MTag nat | MArtifact | MEnd | MNone

fun mark_of :: "emit \<Rightarrow> mark" where
  "mark_of (ETok t) =
     (if t_type t \<noteq> TWord then MNone else if t_value t \<in> mc_begin then MArtifact
      else if t_value t = ''EMC'' then MEnd else MNone)"
| "mark_of (EText s) =
     (if starts_with s ''/P << /MCID '' then MTag (nat (atoi (drop 12 s)))
      else if starts_with s ''/Figure << /MCID '' then MTag (nat (atoi (drop 17 s)))
      else if s = p_close_text \<or> s = '' EMC '' then MEnd else MNone)"

text \<open>
  A reader of what the tagging filter writes: the open marks, \<open>True\<close> for an artifact, and the
  identifiers met. A tag must not open inside another mark, an artifact not inside a tag, and
  nothing is closed that is not open.
\<close>

fun tag_step :: "bool list \<times> nat list \<Rightarrow> mark \<Rightarrow> (bool list \<times> nat list) option" where
  "tag_step (st, ids) (MTag n) = (if st = [] then Some ([False], ids @ [n]) else None)"
| "tag_step (st, ids) MArtifact = (if False \<in> set st then None else Some (True # st, ids))"
| "tag_step (st, ids) MEnd = (case st of [] \<Rightarrow> None | _ # st' \<Rightarrow> Some (st', ids))"
| "tag_step (st, ids) MNone = Some (st, ids)"

fun tag_scan :: "bool list \<times> nat list \<Rightarrow> emit list \<Rightarrow> (bool list \<times> nat list) option" where
  "tag_scan p [] = Some p"
| "tag_scan p (e # es) = (case tag_step p (mark_of e) of None \<Rightarrow> None | Some p' \<Rightarrow> tag_scan p' es)"

lemma tag_scan_append:
  "tag_scan p (es @ fs) = (case tag_scan p es of None \<Rightarrow> None | Some p' \<Rightarrow> tag_scan p' fs)"
  by (induction es arbitrary: p) (auto split: option.splits)

lemma mark_of_texts [simp]:
  "mark_of (EText (p_open_text n)) = MTag n" "mark_of (EText (figure_text n)) = MTag n"
  "mark_of (EText p_close_text) = MEnd" "mark_of (EText '' EMC '') = MEnd"
proof -
  have "atoi (nat_str n @ '' >> BDC'' @ [CHR 0x0A]) = int n" "atoi (nat_str n @ '' >> BDC '') = int n"
    by (rule atoi_nat_str_append, simp add: is_digit_def)+
  then show "mark_of (EText (p_open_text n)) = MTag n" "mark_of (EText (figure_text n)) = MTag n"
    by (simp_all add: p_open_text_def figure_text_def starts_with_def)
qed (simp_all add: p_close_text_def starts_with_def)

declare mark_of.simps(2) [simp del]

definition no_words :: "token list \<Rightarrow> bool" where
  "no_words ts \<longleftrightarrow> (\<forall>t \<in> set ts. t_type t \<noteq> TWord)"

lemma no_words_simps [simp]: "no_words []" "no_words (ts @ [t]) \<longleftrightarrow> no_words ts \<and> t_type t \<noteq> TWord"
  by (auto simp: no_words_def)

lemma tag_scan_operands [simp]: "no_words ts \<Longrightarrow> tag_scan p (map ETok ts) = Some p"
  by (induction ts) (cases p; auto simp: no_words_def)+

definition open_marks :: "tag_wrap \<Rightarrow> bool list" where
  "open_marks s = (if tw_pOpen s then [False] else filter id (tw_mcStack s))"

text \<open>What the filter keeps true of its output, for given operands.\<close>

definition tags_ok :: "tag_wrap \<Rightarrow> bool" where
  "tags_ok s \<longleftrightarrow> tag_scan ([], []) (tw_out s) = Some (open_marks s, [0..<tw_nextMcid s]) \<and>
     map sg_mcid (tw_segments s) = [0..<tw_nextMcid s] \<and> (tw_pOpen s \<longrightarrow> \<not> tw_inArtifact s) \<and> no_words (tw_operands s)"

lemma no_artifacts: "\<not> tw_inArtifact s \<Longrightarrow> filter id (tw_mcStack s) = []"
  by (auto simp: tw_inArtifact_def filter_empty_conv)

lemma tw_inArtifact_cong: "tw_mcStack s = tw_mcStack s' \<Longrightarrow> tw_inArtifact s = tw_inArtifact s'"
  by (simp add: tw_inArtifact_def)

lemma open_marks_artifacts: "tags_ok s \<Longrightarrow> False \<in> set (open_marks s) \<longleftrightarrow> tw_pOpen s"
  by (auto simp: open_marks_def)

lemma tags_ok_flush: "tags_ok s \<Longrightarrow> tags_ok (tw_flush s) \<and> tw_operands (tw_flush s) = []"
  by (simp add: tags_ok_def tw_flush_def tag_scan_append open_marks_def tw_inArtifact_def)

lemma tags_ok_openP:
  assumes "tags_ok s"
  shows "tags_ok (openP s)"
proof (cases "tw_pOpen s \<or> tw_inArtifact s")
  case False
  with no_artifacts[of s] assms show ?thesis
    by (simp add: tags_ok_def openP_def tw_write_def tag_scan_append open_marks_def tw_inArtifact_def Let_def)
qed (use assms in \<open>simp add: openP_def\<close>)

lemma tags_ok_closeP:
  assumes "tags_ok s"
  shows "tags_ok (closeP s) \<and> \<not> tw_pOpen (closeP s)"
proof (cases "tw_pOpen s")
  case True
  with assms have "\<not> tw_inArtifact s" by (simp add: tags_ok_def)
  with True no_artifacts[of s] assms show ?thesis
    by (simp add: tags_ok_def closeP_def tw_write_def tag_scan_append open_marks_def tw_inArtifact_def)
qed (use assms in \<open>simp add: closeP_def\<close>)

lemma fields_unchanged [simp]:
  "tw_mcStack (closeP s) = tw_mcStack s" "tw_mcStack (openP s) = tw_mcStack s" "tw_mcStack (tw_flush s) = tw_mcStack s"
  "tw_mcStack (tw_write e s) = tw_mcStack s" "tw_pOpen (tw_flush s) = tw_pOpen s" "tw_pOpen (tw_write e s) = tw_pOpen s"
  "tw_operands (closeP s) = tw_operands s" "tw_operands (openP s) = tw_operands s"
  "tw_mcStack (tw_text_object w s) = tw_mcStack s" "tw_operands (tw_text_object w s) = tw_operands s"
  by (simp_all add: closeP_def openP_def tw_flush_def tw_write_def tw_text_object_def Let_def)

lemma tags_ok_write_other:
  "tags_ok s \<Longrightarrow> mark_of (ETok t) = MNone \<Longrightarrow> tags_ok (tw_write (ETok t) s)"
  by (simp add: tags_ok_def tw_write_def tag_scan_append open_marks_def tw_inArtifact_def)

lemma tags_ok_saw [simp]: "tags_ok (s\<lparr>tw_sawContent := b\<rparr>) = tags_ok s"
  by (simp add: tags_ok_def open_marks_def tw_inArtifact_def)

lemma tags_ok_text_object [simp]: "tags_ok (tw_text_object w s) = tags_ok s"
  by (simp add: tw_text_object_def tags_ok_def open_marks_def tw_inArtifact_def)

lemma tags_ok_figure:
  assumes "tags_ok s" "\<not> tw_inArtifact s" "t_type t = TWord" "t_value t = ''Do''"
  shows "tags_ok (tw_figure t s)"
proof -
  define c where "c = closeP s"
  have c: "tags_ok c" "\<not> tw_pOpen c" using tags_ok_closeP[OF assms(1)] by (simp_all add: c_def)
  have "open_marks c = []" using c(2) assms(2) by (auto simp: open_marks_def tw_inArtifact_def c_def filter_empty_conv)
  with c assms(3,4) show ?thesis
    by (simp add: tw_figure_def c_def[symmetric] Let_def tags_ok_def tw_write_def tw_flush_def tag_scan_append open_marks_def
        tw_inArtifact_def)
qed

lemma tags_ok_artifact:
  assumes "tags_ok s" "t_type t = TWord" "t_value t \<in> mc_begin"
  shows "tags_ok ((tw_write (ETok t) (tw_flush (closeP s)))\<lparr>tw_mcStack := True # tw_mcStack s\<rparr>)"
proof -
  define c where "c = tw_flush (closeP s)"
  have c: "tags_ok c" "\<not> tw_pOpen c" "tw_mcStack c = tw_mcStack s" "tw_operands c = []"
    using tags_ok_closeP[OF assms(1)] tags_ok_flush[of "closeP s"] by (simp_all add: c_def)
  then have "False \<notin> set (open_marks c)" by (auto simp: open_marks_def)
  with c assms(2,3) show ?thesis
    unfolding c_def[symmetric] by (auto simp: tags_ok_def tw_write_def tag_scan_append open_marks_def tw_inArtifact_def)
qed

lemma tags_ok_end:
  assumes "tags_ok s" "t_type t = TWord" "t_value t = ''EMC''" "tw_mcStack s = True # st"
  shows "tags_ok ((tw_write (ETok t) (tw_flush s))\<lparr>tw_mcStack := st\<rparr>)"
proof -
  have p: "\<not> tw_pOpen s" using assms(1,4) by (auto simp: tags_ok_def tw_inArtifact_def)
  with assms tags_ok_flush[OF assms(1)] show ?thesis
    by (simp add: tags_ok_def tw_write_def tw_flush_def tag_scan_append open_marks_def)
qed

lemma tags_ok_drop:
  assumes "tags_ok s" "filter id st = filter id (tw_mcStack s)"
  shows "tags_ok (s\<lparr>tw_operands := [], tw_mcStack := st\<rparr>)"
proof -
  have "True \<in> set st \<longleftrightarrow> True \<in> set (tw_mcStack s)" using arg_cong[OF assms(2), of set] by auto
  with assms show ?thesis by (simp add: tags_ok_def open_marks_def tw_inArtifact_def)
qed

lemma tags_ok_clear: "tags_ok s \<Longrightarrow> tags_ok (s\<lparr>tw_operands := []\<rparr>)"
  by (simp add: tags_ok_def open_marks_def tw_inArtifact_def)

lemma tags_ok_token:
  assumes "tags_ok s"
  shows "tags_ok (tw_token names s t)"
proof (cases "t_type t = TWord")
  case False
  then show ?thesis
  proof (cases "t_type t = TInlineImage")
    case True
    with tags_ok_write_other[of _ t] tags_ok_flush tags_ok_openP[OF assms] show ?thesis by (simp add: tw_token_def)
  qed (use False assms in \<open>simp add: tw_token_def tags_ok_def open_marks_def tw_inArtifact_def\<close>)
next
  case True
  define s1 where "s1 = tw_text_object (t_value t) s"
  have ok: "tags_ok s1" using assms by (simp add: s1_def)
  have tok: "tw_token names s t =
    (if t_value t \<in> mc_begin then
       (if name_in (tw_operands s1) = ''/Artifact''
        then (tw_write (ETok t) (tw_flush (closeP s1)))\<lparr>tw_mcStack := True # tw_mcStack s1\<rparr>
        else s1\<lparr>tw_operands := [], tw_mcStack := False # tw_mcStack s1\<rparr>)
     else if t_value t = ''EMC'' then
       (case tw_mcStack s1 of
          True # st \<Rightarrow> (tw_write (ETok t) (tw_flush s1))\<lparr>tw_mcStack := st\<rparr>
        | False # st \<Rightarrow> s1\<lparr>tw_operands := [], tw_mcStack := st\<rparr>
        | [] \<Rightarrow> s1\<lparr>tw_operands := []\<rparr>)
     else if t_value t = ''Do'' \<and> \<not> tw_inArtifact s1 \<and> tw_btDepth s1 = 0 \<and> name_in (rev (tw_operands s1)) \<in> names then
       tw_figure t s1
     else (tw_write (ETok t) (tw_flush (if tw_inArtifact s1 then s1 else openP s1)))\<lparr>tw_sawContent := True\<rparr>)"
    unfolding tw_token_def Let_def s1_def[symmetric] True by simp
  consider (b) "t_value t \<in> mc_begin" | (e) "t_value t = ''EMC''" | (o) "t_value t \<notin> mc_begin" "t_value t \<noteq> ''EMC''" by blast
  then show ?thesis
  proof cases
    case b
    with True tags_ok_artifact[OF ok] tags_ok_drop[OF ok, of "False # tw_mcStack s1"] show ?thesis unfolding tok by simp
  next
    case e
    show ?thesis
    proof (cases "tw_mcStack s1")
      case Nil
      with tags_ok_clear[OF ok] e show ?thesis unfolding tok by simp
    next
      case (Cons b st)
      then show ?thesis
        using tags_ok_end[OF ok True e, of st] tags_ok_drop[OF ok, of st] e unfolding tok by (cases b) simp_all
    qed
  next
    case o
    then have m: "mark_of (ETok t) = MNone" by simp
    have "tags_ok (if tw_inArtifact s1 then s1 else openP s1)" using ok tags_ok_openP by simp
    from tags_ok_write_other[OF conjunct1[OF tags_ok_flush[OF this]] m] o tags_ok_figure[OF ok] True show ?thesis
      unfolding tok by simp
  qed
qed

text \<open>
  C31. Tagging writes well-formed marked content on every token sequence: the tagged sequences
  carry the identifiers 0, 1, 2, ... in the order of the segments handed to the structure tree, a
  tag never opens inside another mark, artifacts only inside artifacts, nothing is closed that is
  not open, and at the end no tag is left open.
\<close>

theorem tag_stream_well_formed:
  "\<exists>k. tag_scan ([], []) (tw_out (tag_stream names ts)) =
       Some (replicate k True, map sg_mcid (tw_segments (tag_stream names ts))) \<and>
     map sg_mcid (tw_segments (tag_stream names ts)) = [0..<length (tw_segments (tag_stream names ts))]"
proof -
  have "tags_ok (foldl (tw_token names) s ts)" if "tags_ok s" for s
    using that by (induction ts arbitrary: s) (auto intro: tags_ok_token)
  moreover have "tags_ok tag_wrap0" by (simp add: tags_ok_def tag_wrap0_def open_marks_def)
  ultimately have ok: "tags_ok (tag_stream names ts)" "\<not> tw_pOpen (tag_stream names ts)"
    using tags_ok_closeP tags_ok_flush by (simp_all add: tag_stream_def)
  let ?s = "tag_stream names ts"
  have m: "map sg_mcid (tw_segments ?s) = [0..<tw_nextMcid ?s]" using ok(1) by (simp add: tags_ok_def)
  then have "tw_nextMcid ?s = length (tw_segments ?s)" by (metis length_map length_upt diff_zero)
  moreover have "filter id (tw_mcStack ?s) = replicate (length (filter id (tw_mcStack ?s))) True"
    by (induction "tw_mcStack ?s") (auto simp: replicate_length_same[symmetric])
  ultimately show ?thesis using ok m by (auto simp: tags_ok_def open_marks_def)
qed

section \<open>Tagging keeps the content\<close>

text \<open>The tokenizer gives the word \<open>EI\<close> after the data of an inline image.\<close>

fun images_closed :: "token list \<Rightarrow> bool" where
  "images_closed [] \<longleftrightarrow> True"
| "images_closed (t # ts) \<longleftrightarrow>
     (t_type t = TInlineImage \<longrightarrow> ts \<noteq> [] \<and> is_word (hd ts) ''EI'') \<and> images_closed ts"

text \<open>
  Both filters have written the same tokens and hold the same operands; between the data of an
  inline image and the next word one of them holds the data back.
\<close>

definition same_tokens :: "token list \<Rightarrow> strip_mc \<Rightarrow> tag_wrap \<Rightarrow> bool" where
  "same_tokens held m w \<longleftrightarrow> sm_stack m = tw_mcStack w \<and>
     out_tokens (tw_out w) = out_tokens (sm_out m) @ held \<and> sm_operands m = held @ tw_operands w"

lemma out_tokens_tw [simp]:
  "out_tokens (tw_out (openP w)) = out_tokens (tw_out w)" "out_tokens (tw_out (closeP w)) = out_tokens (tw_out w)"
  "out_tokens (tw_out (tw_flush w)) = out_tokens (tw_out w) @ tw_operands w" "tw_operands (tw_flush w) = []"
  "out_tokens (tw_out (tw_write e w)) = out_tokens (tw_out w) @ emit_token e" "tw_operands (tw_write e w) = tw_operands w"
  "tw_out (tw_text_object x w) = tw_out w"
  by (simp_all add: openP_def closeP_def tw_flush_def tw_write_def tw_text_object_def Let_def)

lemma out_tokens_sm [simp]:
  "out_tokens (sm_out (sm_write t (sm_flush m))) = out_tokens (sm_out m) @ sm_operands m @ [t]"
  "sm_operands (sm_write t (sm_flush m)) = []" "sm_stack (sm_write t (sm_flush m)) = sm_stack m"
  by (simp_all add: sm_write_def sm_flush_def)

lemma figure_tokens [simp]:
  "out_tokens (tw_out (tw_figure t w)) = out_tokens (tw_out w) @ tw_operands w @ [t]"
  "tw_operands (tw_figure t w) = []" "tw_mcStack (tw_figure t w) = tw_mcStack w"
proof -
  have "tw_operands (closeP w) = tw_operands w" by simp
  then show "out_tokens (tw_out (tw_figure t w)) = out_tokens (tw_out w) @ tw_operands w @ [t]"
    by (simp add: tw_figure_def tw_write_def tw_flush_def Let_def)
qed (simp_all add: tw_figure_def tw_write_def tw_flush_def Let_def closeP_def)

lemma same_tokens_step:
  assumes "same_tokens [] m w" "t_type t \<noteq> TInlineImage"
  shows "same_tokens [] (sm_token m t) (tw_token names w t)"
proof -
  define w1 where "w1 = tw_text_object (t_value t) w"
  have w1: "tw_mcStack w1 = sm_stack m" "out_tokens (tw_out w1) = out_tokens (sm_out m)" "tw_operands w1 = sm_operands m"
    using assms(1) by (simp_all add: w1_def same_tokens_def)
  show ?thesis
  proof (cases "t_type t = TWord")
    case True
    consider (b) "t_value t \<in> mc_begin" | (e) "t_value t = ''EMC''" | (o) "t_value t \<notin> mc_begin" "t_value t \<noteq> ''EMC''" by blast
    then show ?thesis
    proof cases
      case b
      then show ?thesis
        unfolding same_tokens_def sm_token_def tw_token_def Let_def w1_def[symmetric] True by (simp add: w1)
    next
      case e
      then show ?thesis
        unfolding same_tokens_def sm_token_def tw_token_def Let_def w1_def[symmetric] True
        by (cases "sm_stack m") (auto simp: w1 split: bool.splits)
    next
      case o
      then show ?thesis
        unfolding same_tokens_def sm_token_def tw_token_def Let_def w1_def[symmetric] True by (simp add: w1)
    qed
  qed (use assms in \<open>simp add: same_tokens_def sm_token_def tw_token_def\<close>)
qed

lemma same_tokens_image:
  assumes "same_tokens [] m w" "t_type t = TInlineImage" "is_word e ''EI''"
  shows "same_tokens [] (sm_token (sm_token m t) e) (tw_token names (tw_token names w t) e)"
proof -
  have e: "t_type e = TWord" "t_value e = ''EI''" using assms(3) by (simp_all add: is_word_def)
  have i: "tw_token names w t = tw_write (ETok t) (tw_flush (openP w))" "sm_token m t = m\<lparr>sm_operands := sm_operands m @ [t]\<rparr>"
    using assms(2) by (simp_all add: tw_token_def sm_token_def)
  have "tw_token names x e = (tw_write (ETok e) (tw_flush (if tw_inArtifact x then x else openP x)))\<lparr>tw_sawContent := True\<rparr>" for x
    unfolding tw_token_def Let_def e by (simp add: tw_text_object_def)
  moreover have "sm_token x e = sm_write e (sm_flush x)" for x unfolding sm_token_def e by simp
  ultimately show ?thesis using assms(1) by (simp add: same_tokens_def i)
qed

text \<open>
  C32. Tagging changes nothing but tags: for every stream whose inline images are closed the
  tagging filter writes exactly the tokens that are left when all marked content but artifacts is
  taken away, in the same order.
\<close>

theorem tag_stream_keeps_content:
  assumes "images_closed ts"
  shows "out_tokens (tw_out (tag_stream names ts)) = out_tokens (strip_stream ts)"
proof -
  have "same_tokens [] (foldl sm_token m ts) (foldl (tw_token names) w ts)" if "same_tokens [] m w" for m w
    using assms that
  proof (induction ts arbitrary: m w rule: induct_list012)
    case (3 t u ts)
    show ?case
    proof (cases "t_type t = TInlineImage")
      case True
      with 3 same_tokens_image[of m w t u names] show ?thesis by simp
    next
      case False
      with 3 same_tokens_step[of m w t names] show ?thesis by simp
    qed
  qed (auto intro: same_tokens_step)
  moreover have "same_tokens [] strip_mc0 tag_wrap0" by (simp add: same_tokens_def strip_mc0_def tag_wrap0_def)
  ultimately show ?thesis
    by (fastforce simp: tag_stream_def strip_stream_def same_tokens_def sm_flush_def)
qed

theorem tag_stream_keeps_content_witness:
  "let ts = [mk_token TName ''/P'', mk_token TWord ''BMC'', mk_token TString ''(a)'', mk_token TWord ''Tj'', mk_token TWord ''EMC'']
   in out_tokens (tw_out (tag_stream {} ts)) = [mk_token TString ''(a)'', mk_token TWord ''Tj'']"
  using tag_stream_keeps_content[of "[mk_token TName ''/P'', mk_token TWord ''BMC'', mk_token TString ''(a)'', mk_token TWord ''Tj'',
      mk_token TWord ''EMC'']" "{}"]
  by (simp add: mk_token_def strip_stream_def sm_token_def strip_mc0_def sm_flush_def sm_write_def name_in_def)

section \<open>Tokens stay apart\<close>

text \<open>
  Two tokens that follow each other in a stream read as two only if the first does not end, or the
  second does not start, with a regular character.
\<close>

definition regular_end :: "token \<Rightarrow> bool" where
  "regular_end t \<longleftrightarrow> t_type t \<in> {TWord, TName, TInteger, TReal, TBool, TNull}"

definition regular_start :: "token \<Rightarrow> bool" where
  "regular_start t \<longleftrightarrow> t_type t \<in> {TWord, TInteger, TReal, TBool, TNull}"

definition apart :: "token \<Rightarrow> token \<Rightarrow> bool" where
  "apart t u \<longleftrightarrow> \<not> (regular_end t \<and> regular_start u)"

text \<open>
  The tokens written and held are apart; when none is held, either the last one written is the last
  one read, or the last one read was dropped, a word, after which no regular character comes.
\<close>

definition strip_apart :: "token option \<Rightarrow> strip_mc \<Rightarrow> bool" where
  "strip_apart l m \<longleftrightarrow> successively apart (out_tokens (sm_out m) @ sm_operands m) \<and>
     (case l of None \<Rightarrow> out_tokens (sm_out m) @ sm_operands m = []
      | Some t \<Rightarrow> t_type t = TWord \<and> sm_operands m = [] \<or>
                  out_tokens (sm_out m) @ sm_operands m \<noteq> [] \<and> last (out_tokens (sm_out m) @ sm_operands m) = t)"

lemma strip_apart_step:
  assumes "strip_apart l m" "l = None \<or> (\<exists>u. l = Some u \<and> apart u t)"
  shows "strip_apart (Some t) (sm_token m t)"
proof -
  let ?o = "out_tokens (sm_out m) @ sm_operands m"
  have s: "successively apart ?o" using assms(1) by (simp add: strip_apart_def)
  have a: "?o = [] \<or> apart (last ?o) t"
  proof (cases l)
    case None then show ?thesis using assms(1) by (simp add: strip_apart_def)
  next
    case (Some u)
    with assms have u: "apart u t" by auto
    from Some assms(1) consider "t_type u = TWord" | "?o \<noteq> []" "last ?o = u" by (auto simp: strip_apart_def)
    then show ?thesis
    proof cases
      case 1
      with u have "\<not> regular_start t" by (simp add: apart_def regular_end_def)
      then show ?thesis by (simp add: apart_def)
    qed (use u in simp)
  qed
  define os where "os = ?o"
  have "successively apart (os @ [t])" using s a unfolding os_def[symmetric] by (auto simp: successively_append_iff)
  then have n: "successively apart (?o @ [t])" by (simp only: os_def)
  have o: "successively apart (out_tokens (sm_out m))" using s by (simp add: successively_append_iff)
  show ?thesis
  proof (cases "t_type t = TWord")
    case False
    with n show ?thesis by (simp add: strip_apart_def sm_token_def)
  next
    case True
    show ?thesis
      using n o True
      by (auto simp: strip_apart_def sm_token_def sm_write_def sm_flush_def split: list.splits bool.splits)
  qed
qed

text \<open>
  Taking tags away never joins two tokens: when the tokens of a stream are apart, those that
  are left are apart, whatever marked content was dropped between them.
\<close>

theorem strip_stream_apart:
  assumes "successively apart ts"
  shows "successively apart (out_tokens (strip_stream ts))"
proof -
  have "strip_apart (if ts = [] then l else Some (last ts)) (foldl sm_token m ts)"
    if "strip_apart l m" "successively apart ts" "ts = [] \<or> l = None \<or> (\<exists>u. l = Some u \<and> apart u (hd ts))" for l m
    using that
  proof (induction ts arbitrary: l m)
    case (Cons t ts)
    from Cons.prems(1,3) have "strip_apart (Some t) (sm_token m t)" using strip_apart_step by auto
    from Cons.IH[OF this] Cons.prems(2) show ?case by (cases ts) auto
  qed simp
  from this[of None strip_mc0] assms have "strip_apart (if ts = [] then None else Some (last ts)) (foldl sm_token strip_mc0 ts)"
    by (simp add: strip_apart_def strip_mc0_def)
  then have "successively apart (out_tokens (sm_out (foldl sm_token strip_mc0 ts)) @ sm_operands (foldl sm_token strip_mc0 ts))"
    unfolding strip_apart_def by (rule conjunct1)
  then show ?thesis by (simp add: strip_stream_def sm_flush_def)
qed

theorem strip_stream_apart_witness:
  "successively apart (out_tokens (strip_stream [mk_token TWord ''Q'', mk_token TSpace '' '', mk_token TName ''/P'',
     mk_token TSpace '' '', mk_token TWord ''BMC'', mk_token TSpace '' '', mk_token TWord ''q'']))"
  by (rule strip_stream_apart) (simp add: mk_token_def apart_def regular_end_def regular_start_def)

section \<open>Removing layers joins tokens\<close>

text \<open>
  C35. The filter that removes layers, outside of content it suppresses, drops the white space before
  the \<open>EMC\<close> that ends a mark that is not a layer: an operator and that \<open>EMC\<close> after it, apart in
  the stream, are written as one word. (The \<open>EMC\<close> of a layer is dropped, and one without a mark
  keeps its distance.)
\<close>

theorem flatten_joins_words:
  assumes "lf_marks s = (False, b) # ms" "\<not> lf_suppress s" "length (lf_pending s) \<le> 64"
    "t_type t = TWord" "t_value t \<notin> mc_begin" "t_value t \<noteq> ''EMC''" "t_type sp = TSpace" "is_word e ''EMC''"
  shows "successively apart [t, sp, e] \<and>
    lf_out (foldl (lf_token hidden) s [t, sp, e]) = lf_out s @ map ETok (lf_pending s) @ [ETok t, ETok e] \<and> \<not> apart t e"
proof -
  have e: "t_type e = TWord" "t_value e = ''EMC''" using assms(8) by (simp_all add: is_word_def)
  define s1 where "s1 = lf_write t (lf_flush s)"
  have "lf_token hidden s t = s1" unfolding lf_token_def s1_def using assms(2,4-6) by simp
  moreover have "lf_token hidden s1 sp = s1\<lparr>lf_pending := [sp]\<rparr>"
    using assms(7) by (simp add: lf_token_def s1_def lf_write_def lf_flush_def)
  moreover have "lf_out (lf_token hidden (s1\<lparr>lf_pending := [sp]\<rparr>) e) = lf_out s1 @ [ETok e]"
    unfolding lf_token_def e using assms(1,2) by (simp add: lf_end_def s1_def lf_write_def lf_flush_def)
  ultimately have "lf_out (foldl (lf_token hidden) s [t, sp, e]) = lf_out s1 @ [ETok e]" by simp
  then show ?thesis
    using assms(4,7) e by (simp add: s1_def lf_write_def lf_flush_def apart_def regular_end_def regular_start_def)
qed

theorem flatten_joins_words_witness:
  "out_text (lf_out (flatten_stream {} [mk_token TName ''/P'', mk_token TWord ''BMC'', mk_token TString ''(a)'', mk_token TWord ''Tj'',
     mk_token TSpace '' '', mk_token TWord ''EMC''])) = ''/PBMC(a)TjEMC''"
proof -
  define s where "s = foldl (lf_token {}) layer_flatten0 [mk_token TName ''/P'', mk_token TWord ''BMC'', mk_token TString ''(a)'']"
  have s: "lf_marks s = [(False, False)]" "\<not> lf_suppress s" "lf_pending s = [mk_token TString ''(a)'']"
    "lf_out s = [ETok (mk_token TName ''/P''), ETok (mk_token TWord ''BMC'')]"
    by (simp_all add: s_def lf_token_def layer_flatten0_def mk_token_def lf_begin_def oc_tag_def oc_step_def lf_write_def lf_flush_def)
  let ?r = "[mk_token TWord ''Tj'', mk_token TSpace '' '', mk_token TWord ''EMC'']"
  have "lf_out (foldl (lf_token {}) s ?r) = lf_out s @ map ETok (lf_pending s) @ [ETok (mk_token TWord ''Tj''), ETok (mk_token TWord ''EMC'')]"
    using flatten_joins_words[of s False "[]" "mk_token TWord ''Tj''" "mk_token TSpace '' ''" "mk_token TWord ''EMC''" "{}"] s(1,2)
    by (simp add: s(3) mk_token_def is_word_def)
  moreover have "lf_pending (foldl (lf_token {}) s ?r) = []"
    by (simp add: lf_token_def lf_end_def lf_write_def lf_flush_def mk_token_def s(1,2))
  ultimately have "lf_out (flatten_stream {} ([mk_token TName ''/P'', mk_token TWord ''BMC'', mk_token TString ''(a)''] @ ?r)) =
      map ETok ([mk_token TName ''/P'', mk_token TWord ''BMC'', mk_token TString ''(a)''] @ [mk_token TWord ''Tj'', mk_token TWord ''EMC''])"
    unfolding flatten_stream_def foldl_append s_def[symmetric] by (simp add: lf_flush_def s)
  then show ?thesis by (simp add: mk_token_def)
qed

section \<open>Marking artifacts keeps the content\<close>

text \<open>No text, image or shading is shown while a path is under construction.\<close>

fun path_ok :: "bool \<Rightarrow> token list \<Rightarrow> bool" where
  "path_ok p [] \<longleftrightarrow> True"
| "path_ok p (t # ts) \<longleftrightarrow>
     (if t_type t = TInlineImage then \<not> p \<and> path_ok p ts
      else if t_type t \<noteq> TWord then path_ok p ts
      else if t_value t \<in> path_ops \<union> clip_ops then path_ok True ts
      else if t_value t \<in> text_ops \<union> {''Do'', ''sh''} then \<not> p \<and> path_ok p ts
      else path_ok False ts)"

lemmas aw_ops = path_ops_def clip_ops_def paint_ops_def text_ops_def

definition aw_tokens :: "artifact_wrap \<Rightarrow> token list" where
  "aw_tokens s = out_tokens (aw_out s) @ aw_pathBuf s @ aw_operands s"

lemma aw_tokens_flushPath: "aw_tokens (flushPath w s) = aw_tokens s" "aw_pathBuf (flushPath w s) = []"
  "aw_operands (flushPath w s) = aw_operands s" "aw_mcDepth (flushPath w s) = aw_mcDepth s"
  by (simp_all add: aw_tokens_def flushPath_def aw_write_def Let_def)

lemma aw_tokens_write: "aw_pathBuf s = [] \<Longrightarrow> aw_tokens (aw_write (ETok t) (aw_flush s)) = aw_tokens s @ [t]"
  "aw_pathBuf (aw_write e s) = aw_pathBuf s" "aw_pathBuf (aw_flush s) = aw_pathBuf s"
  by (simp_all add: aw_tokens_def aw_write_def aw_flush_def)

lemma aw_tokens_show: "aw_pathBuf s = [] \<Longrightarrow> aw_tokens (aw_show w t s) = aw_tokens s @ [t] \<and> aw_pathBuf (aw_show w t s) = []"
  by (simp add: aw_tokens_def aw_show_def aw_write_def aw_flush_def)

lemma aw_tokens_path: "aw_tokens (to_path t s) = aw_tokens s @ [t]" "aw_pathBuf (to_path t s) \<noteq> []"
  by (simp_all add: aw_tokens_def to_path_def)

lemma aw_tokens_fields [simp]:
  "aw_tokens (s\<lparr>aw_mcDepth := d\<rparr>) = aw_tokens s" "aw_tokens (s\<lparr>aw_inPath := b\<rparr>) = aw_tokens s"
  "aw_tokens (s\<lparr>aw_pathClips := b\<rparr>) = aw_tokens s"
  by (simp_all add: aw_tokens_def)

lemma aw_token_cases:
  obtains (image) "t_type t = TInlineImage" | (operand) "t_type t \<noteq> TInlineImage" "t_type t \<noteq> TWord"
  | (mark) "t_type t = TWord" "t_value t \<in> mc_begin" | (emc) "t_type t = TWord" "t_value t = ''EMC''"
  | (path) "t_type t = TWord" "t_value t \<in> path_ops" | (clip) "t_type t = TWord" "t_value t \<in> clip_ops"
  | (paint) "t_type t = TWord" "t_value t \<in> paint_ops"
  | (shows_text) "t_type t = TWord" "t_value t \<in> text_ops" | (xobj) "t_type t = TWord" "t_value t \<in> {''Do'', ''sh''}"
  | (other) "t_type t = TWord" "t_value t \<notin> mc_begin \<union> {''EMC''} \<union> path_ops \<union> clip_ops \<union> paint_ops \<union> text_ops \<union> {''Do'', ''sh''}"
  by blast

lemma aw_token_unfold:
  "t_type t = TInlineImage \<Longrightarrow> aw_token F s t = aw_show (aw_mcDepth s = 0) t s"
  "t_type t \<noteq> TInlineImage \<Longrightarrow> t_type t \<noteq> TWord \<Longrightarrow> aw_token F s t = s\<lparr>aw_operands := aw_operands s @ [t]\<rparr>"
  "t_type t = TWord \<Longrightarrow> t_value t \<in> mc_begin \<Longrightarrow>
     aw_token F s t = aw_write (ETok t) (aw_flush ((flushPath False s)\<lparr>aw_mcDepth := aw_mcDepth s + 1\<rparr>))"
  "t_type t = TWord \<Longrightarrow> t_value t = ''EMC'' \<Longrightarrow>
     aw_token F s t = aw_write (ETok t) (aw_flush ((flushPath False s)\<lparr>aw_mcDepth := aw_mcDepth s - 1\<rparr>))"
  "t_type t = TWord \<Longrightarrow> t_value t \<in> path_ops \<Longrightarrow> aw_token F s t = (to_path t s)\<lparr>aw_inPath := True\<rparr>"
  "t_type t = TWord \<Longrightarrow> t_value t \<in> clip_ops \<Longrightarrow> aw_token F s t = (to_path t s)\<lparr>aw_pathClips := True\<rparr>"
  "t_type t = TWord \<Longrightarrow> t_value t \<in> paint_ops \<Longrightarrow>
     aw_token F s t = flushPath (t_value t \<noteq> ''n'' \<and> \<not> aw_pathClips s \<and> aw_mcDepth s = 0) (to_path t s)"
  "t_type t = TWord \<Longrightarrow> t_value t \<in> text_ops \<Longrightarrow> aw_token F s t = aw_show (aw_mcDepth s = 0) t s"
  "t_type t = TWord \<Longrightarrow> t_value t \<in> {''Do'', ''sh''} \<Longrightarrow>
     aw_token F s t = aw_show (aw_mcDepth s = 0 \<and> \<not> (t_value t = ''Do'' \<and> name_in (rev (aw_operands s)) \<in> F)) t s"
  "t_type t = TWord \<Longrightarrow>
     t_value t \<notin> mc_begin \<union> {''EMC''} \<union> path_ops \<union> clip_ops \<union> paint_ops \<union> text_ops \<union> {''Do'', ''sh''} \<Longrightarrow>
     aw_token F s t = aw_write (ETok t) (aw_flush (flushPath False s))"
           apply (simp add: aw_token_def)
          apply (simp add: aw_token_def)
         apply (auto simp: aw_token_def Let_def aw_tokens_flushPath)[]
        apply (simp add: aw_token_def Let_def aw_tokens_flushPath)
       apply (auto simp: aw_token_def aw_ops)[]
      apply (auto simp: aw_token_def aw_ops)[]
     apply (auto simp: aw_token_def aw_ops)[]
    apply (auto simp: aw_token_def aw_ops)[]
   apply (auto simp: aw_token_def aw_ops)[]
  apply (simp add: aw_token_def)
  done

lemma wrap_keeps:
  assumes "path_ok p ts" "p \<or> aw_pathBuf s = []"
  shows "aw_tokens (foldl (aw_token F) s ts) = aw_tokens s @ ts"
  using assms
proof (induction ts arbitrary: p s)
  case (Cons t ts)
  have "\<exists>q. path_ok q ts \<and> (q \<or> aw_pathBuf (aw_token F s t) = []) \<and> aw_tokens (aw_token F s t) = aw_tokens s @ [t]"
  proof (cases t rule: aw_token_cases)
    case image
    with Cons.prems aw_tokens_show[of s _ t] show ?thesis by (auto simp: aw_token_unfold(1))
  next
    case operand
    with Cons.prems show ?thesis by (auto simp: aw_token_unfold(2) aw_tokens_def)
  next
    case mark
    with Cons.prems have "path_ok False ts" by (auto simp: aw_ops)
    with mark show ?thesis by (auto simp: aw_token_unfold(3) aw_tokens_write aw_tokens_flushPath)
  next
    case emc
    with Cons.prems have "path_ok False ts" by (auto simp: aw_ops)
    with emc show ?thesis by (auto simp: aw_token_unfold(4) aw_tokens_write aw_tokens_flushPath)
  next
    case path
    with Cons.prems have "path_ok True ts" by auto
    with path show ?thesis by (auto simp: aw_token_unfold(5) aw_tokens_path)
  next
    case clip
    with Cons.prems have "path_ok True ts" by auto
    with clip show ?thesis by (auto simp: aw_token_unfold(6) aw_tokens_path)
  next
    case paint
    with Cons.prems have "path_ok False ts" by (auto simp: aw_ops)
    with paint show ?thesis by (auto simp: aw_token_unfold(7) aw_tokens_path aw_tokens_flushPath)
  next
    case shows_text
    then have "t_value t \<notin> path_ops \<union> clip_ops" by (auto simp: aw_ops)
    with Cons.prems shows_text have "\<not> p \<and> path_ok p ts" by (auto split: if_splits)
    with Cons.prems(2) have "path_ok False ts" "aw_pathBuf s = []" by (cases p; simp)+
    with shows_text aw_tokens_show[of s _ t] show ?thesis by (auto simp: aw_token_unfold(8))
  next
    case xobj
    then have "t_value t \<notin> path_ops \<union> clip_ops" by (auto simp: aw_ops)
    with Cons.prems xobj have "\<not> p \<and> path_ok p ts" by (auto split: if_splits)
    with Cons.prems(2) have "path_ok False ts" "aw_pathBuf s = []" by (cases p; simp)+
    with xobj aw_tokens_show[of s _ t] show ?thesis by (auto simp: aw_token_unfold(9))
  next
    case other
    with Cons.prems have "path_ok False ts" by auto
    with other show ?thesis by (auto simp: aw_token_unfold(10) aw_tokens_write aw_tokens_flushPath)
  qed
  then obtain q where q: "path_ok q ts" "q \<or> aw_pathBuf (aw_token F s t) = []" "aw_tokens (aw_token F s t) = aw_tokens s @ [t]"
    by blast
  from Cons.IH[OF q(1,2)] q(3) show ?case by simp
qed simp

text \<open>
  Marking artifacts adds marks and changes nothing else: unless something is shown in the
  middle of a path, the tokens written are those read, in their order.
\<close>

theorem wrap_stream_keeps_content:
  assumes "path_ok False ts"
  shows "out_tokens (aw_out (wrap_stream F ts)) = ts"
proof -
  let ?s = "foldl (aw_token F) artifact_wrap0 ts"
  have "aw_tokens ?s = ts" using wrap_keeps[OF assms, of artifact_wrap0 F] by (simp add: aw_tokens_def artifact_wrap0_def)
  moreover have "aw_tokens (wrap_stream F ts) = aw_tokens (flushPath False ?s)"
    by (simp add: wrap_stream_def aw_flush_def aw_tokens_def aw_tokens_flushPath(2))
  moreover have "aw_pathBuf (wrap_stream F ts) = []" "aw_operands (wrap_stream F ts) = []"
    by (simp_all add: wrap_stream_def aw_tokens_write aw_tokens_flushPath) (simp add: aw_flush_def)
  ultimately show ?thesis by (simp add: aw_tokens_flushPath) (simp add: aw_tokens_def)
qed

theorem wrap_stream_keeps_content_witness:
  "let ts = [mk_token TWord ''re'', mk_token TWord ''f'', mk_token TString ''(a)'', mk_token TWord ''Tj'']
   in out_tokens (aw_out (wrap_stream {} ts)) = ts"
  unfolding Let_def by (rule wrap_stream_keeps_content) (simp add: mk_token_def aw_ops)

section \<open>Everything shown is marked\<close>

text \<open>
  Reads the written stream: the depth of marked content, the operands since the last operator, and
  what is shown outside of marked content. An XObject is left out when its own name is among the
  tagged forms \<open>F\<close>; an inline image counts as unmarked wherever it stands.
\<close>

definition shown_ops :: "string set" where
  "shown_ops = text_ops \<union> (paint_ops - {''n''}) \<union> {''Do'', ''sh''}"

type_synonym cover_state = "nat \<times> token list \<times> token list"

fun cover_step :: "string set \<Rightarrow> cover_state \<Rightarrow> emit \<Rightarrow> cover_state" where
  "cover_step F (d, ops, us) (EText s) =
     (if s = ''/Artifact BMC '' then (d + 1, [], us) else if s = '' EMC '' then (d - 1, [], us) else (d, [], us))"
| "cover_step F (d, ops, us) (ETok t) =
     (if t_type t = TInlineImage then (d, [], us @ [t])
      else if t_type t \<noteq> TWord then (d, ops @ [t], us)
      else if t_value t \<in> mc_begin then (d + 1, [], us)
      else if t_value t = ''EMC'' then (d - 1, [], us)
      else if t_value t \<in> shown_ops \<and> d = 0 \<and> \<not> (t_value t = ''Do'' \<and> name_in (rev ops) \<in> F) then (d, [], us @ [t])
      else (d, [], us))"

definition cover :: "string set \<Rightarrow> emit list \<Rightarrow> cover_state" where
  "cover F es = foldl (cover_step F) (0, [], []) es"

definition unmarked :: "string set \<Rightarrow> emit list \<Rightarrow> token list" where
  "unmarked F es = snd (snd (cover F es))"

text \<open>Tokens that neither show anything nor mark.\<close>

definition quiet :: "token list \<Rightarrow> bool" where
  "quiet ts \<longleftrightarrow> (\<forall>t \<in> set ts. t_type t \<noteq> TInlineImage \<and> (t_type t = TWord \<longrightarrow> t_value t \<in> path_ops))"

lemma cover_operands: "quiet ts \<Longrightarrow> no_words ts \<Longrightarrow> foldl (cover_step F) (d, ops, us) (map ETok ts) = (d, ops @ ts, us)"
  by (induction ts arbitrary: ops) (auto simp: quiet_def no_words_def)

lemma cover_path_op:
  assumes "t_type t = TWord" "t_value t \<in> path_ops"
  shows "cover_step F (d, ops, us) (ETok t) = (d, [], us)"
proof -
  have "path_ops \<inter> (mc_begin \<union> {''EMC''} \<union> shown_ops) = {}" by (auto simp: aw_ops shown_ops_def)
  with assms show ?thesis by auto
qed

lemma cover_quiet: "quiet ts \<Longrightarrow> \<exists>ops'. foldl (cover_step F) (d, ops, us) (map ETok ts) = (d, ops', us)"
proof (induction ts arbitrary: ops)
  case (Cons t ts)
  then have t: "t_type t \<noteq> TInlineImage" "t_type t = TWord \<longrightarrow> t_value t \<in> path_ops" "quiet ts" by (auto simp: quiet_def)
  obtain ops1 where "cover_step F (d, ops, us) (ETok t) = (d, ops1, us)"
    using t(1,2) cover_path_op[of t] by (cases "t_type t = TWord") auto
  with Cons.IH[OF t(3)] show ?case by simp
qed simp

text \<open>A buffered path ends with an operator.\<close>

definition path_buf :: "token list \<Rightarrow> bool" where
  "path_buf ts \<longleftrightarrow> quiet ts \<and> (ts = [] \<or> t_type (last ts) = TWord)"

lemma cover_path_buf: "path_buf ts \<Longrightarrow> foldl (cover_step F) (d, [], us) (map ETok ts) = (d, [], us)"
proof (cases ts rule: rev_cases)
  case (snoc xs t)
  assume "path_buf ts"
  then have xs: "quiet xs" and t: "t_type t = TWord" "t_value t \<in> path_ops" by (auto simp: path_buf_def quiet_def snoc)
  from cover_quiet[OF xs] obtain ops' where "foldl (cover_step F) (d, [], us) (map ETok xs) = (d, ops', us)" by blast
  with cover_path_op[OF t] show ?thesis by (simp add: snoc)
qed simp

definition covers :: "string set \<Rightarrow> artifact_wrap \<Rightarrow> bool" where
  "covers F s \<longleftrightarrow> cover F (aw_out s) = (aw_mcDepth s, [], []) \<and> path_buf (aw_pathBuf s) \<and> no_words (aw_operands s) \<and>
     quiet (aw_operands s) \<and> \<not> aw_pathClips s"

lemma covers_flushPath: "covers F s \<Longrightarrow> covers F (flushPath False s)"
  by (simp add: covers_def flushPath_def cover_def cover_path_buf path_buf_def[of "[]"] quiet_def)

text \<open>The operator that shows, written behind its operands, with or without a mark around them.\<close>

lemma covers_show:
  assumes "covers F s" "t_type t = TWord" "t_value t \<in> text_ops \<union> {''Do'', ''sh''}"
    "w \<longleftrightarrow> aw_mcDepth s = 0 \<and> \<not> (t_value t = ''Do'' \<and> name_in (rev (aw_operands s)) \<in> F)"
  shows "covers F (aw_show w t s)"
proof -
  have t: "t_value t \<noteq> ''EMC''" "t_value t \<notin> mc_begin" using assms(3) by (auto simp: aw_ops)
  have st: "foldl (cover_step F) (0, [], []) (aw_out s) = (aw_mcDepth s, [], [])" "quiet (aw_operands s)" "no_words (aw_operands s)"
    "path_buf (aw_pathBuf s)" "\<not> aw_pathClips s"
    using assms(1) by (simp_all add: covers_def cover_def)
  have "cover F (aw_out (aw_show w t s)) = (aw_mcDepth s, [], [])"
  proof (cases w)
    case True
    with assms(2,4) st t show ?thesis by (simp add: aw_show_def aw_write_def aw_flush_def cover_def cover_operands)
  next
    case False
    with assms(2,4) st t show ?thesis by (auto simp: aw_show_def aw_write_def aw_flush_def cover_def cover_operands)
  qed
  then show ?thesis using st by (simp add: covers_def aw_show_def aw_write_def aw_flush_def quiet_def no_words_def)
qed

lemma covers_paint:
  assumes "covers F s" "t_type t = TWord" "t_value t \<in> paint_ops" "w \<longleftrightarrow> t_value t \<noteq> ''n'' \<and> aw_mcDepth s = 0"
  shows "covers F (flushPath w (to_path t s))"
proof -
  have st: "foldl (cover_step F) (0, [], []) (aw_out s) = (aw_mcDepth s, [], [])" "quiet (aw_operands s)" "no_words (aw_operands s)"
    "path_buf (aw_pathBuf s)" "\<not> aw_pathClips s"
    using assms(1) by (simp_all add: covers_def cover_def)
  have t: "t_value t \<noteq> ''EMC''" "t_value t \<notin> mc_begin" "t_value t \<noteq> ''Do''" "t_value t = ''n'' \<longrightarrow> t_value t \<notin> shown_ops"
    using assms(3) by (auto simp: aw_ops shown_ops_def)
  have out: "aw_out (flushPath w (to_path t s)) = aw_out s @ (if w then [EText ''/Artifact BMC ''] else []) @
      map ETok (aw_pathBuf s) @ map ETok (aw_operands s) @ [ETok t] @ (if w then [EText '' EMC ''] else [])"
    by (simp add: flushPath_def to_path_def Let_def aw_write_def)
  have "cover F (aw_out (flushPath w (to_path t s))) = (aw_mcDepth s, [], [])"
    unfolding out cover_def using assms(2,4) st t by (auto simp: cover_operands cover_path_buf)
  then show ?thesis
    using st(5) by (simp add: covers_def) (simp add: flushPath_def to_path_def Let_def aw_write_def quiet_def path_buf_def)
qed

text \<open>An operator that shows nothing, written behind its operands.\<close>

lemma covers_write:
  assumes "covers F s" "t_type t = TWord" "\<And>ops. cover_step F (aw_mcDepth s, ops, []) (ETok t) = (d, [], [])"
  shows "covers F (aw_write (ETok t) (aw_flush ((flushPath False s)\<lparr>aw_mcDepth := d\<rparr>)))"
  using covers_flushPath[OF assms(1)] assms(2,3)
  by (simp add: covers_def aw_write_def aw_flush_def cover_def cover_operands aw_tokens_flushPath quiet_def no_words_def)

lemma covers_token:
  assumes "covers F s" "\<not> (t_type t = TWord \<and> t_value t \<in> clip_ops)" "t_type t \<noteq> TInlineImage"
  shows "covers F (aw_token F s t)"
proof (cases t rule: aw_token_cases)
  case image
  with assms(3) show ?thesis by simp
next
  case operand
  with assms(1) show ?thesis by (auto simp: aw_token_unfold(2) covers_def quiet_def no_words_def)
next
  case mark
  with covers_write[OF assms(1) mark(1), of "aw_mcDepth s + 1"] show ?thesis by (auto simp: aw_token_unfold(3))
next
  case emc
  with covers_write[OF assms(1) emc(1), of "aw_mcDepth s - 1"] show ?thesis by (auto simp: aw_token_unfold(4))
next
  case path
  with assms(1) show ?thesis by (auto simp: aw_token_unfold(5) covers_def to_path_def quiet_def path_buf_def)
next
  case clip
  with assms(2) show ?thesis by simp
next
  case paint
  show ?thesis unfolding aw_token_unfold(7)[OF paint]
    by (rule covers_paint[OF assms(1) paint]) (use assms(1) in \<open>simp add: covers_def\<close>)
next
  case shows_text
  then have "t_value t \<noteq> ''Do''" by (auto simp: aw_ops)
  with shows_text show ?thesis unfolding aw_token_unfold(8)[OF shows_text] by (intro covers_show[OF assms(1)]) auto
next
  case xobj
  show ?thesis unfolding aw_token_unfold(9)[OF xobj] by (rule covers_show[OF assms(1)]) (use xobj in auto)
next
  case other
  then have "t_value t \<notin> shown_ops" by (auto simp: shown_ops_def)
  moreover have "(flushPath False s)\<lparr>aw_mcDepth := aw_mcDepth s\<rparr> = flushPath False s"
    by (simp add: flushPath_def Let_def aw_write_def)
  ultimately show ?thesis using other covers_write[OF assms(1) other(1), of "aw_mcDepth s"] by (auto simp: aw_token_unfold(10))
qed

text \<open>
  C33. After the pass nothing is shown outside of marked content: in a stream without clipping
  paths and inline images every text, every painted path, every shading and every XObject that is
  written stands inside a mark, XObjects apart whose own name is that of a tagged form.
\<close>

theorem wrap_stream_covers:
  assumes "\<forall>t \<in> set ts. t_type t \<noteq> TInlineImage \<and> \<not> (t_type t = TWord \<and> t_value t \<in> clip_ops)"
  shows "unmarked F (aw_out (wrap_stream F ts)) = []"
proof -
  have "covers F (foldl (aw_token F) s ts)" if "covers F s" for s
    using that assms by (induction ts arbitrary: s) (auto intro: covers_token)
  moreover have "covers F artifact_wrap0" by (simp add: covers_def artifact_wrap0_def cover_def quiet_def path_buf_def no_words_def)
  ultimately have "covers F (flushPath False (foldl (aw_token F) artifact_wrap0 ts))" by (blast intro: covers_flushPath)
  then show ?thesis by (simp add: wrap_stream_def covers_def aw_flush_def cover_def cover_operands unmarked_def)
qed

theorem wrap_stream_covers_witness:
  "unmarked {''/Fm''} (aw_out (wrap_stream {''/Fm''} [mk_token TWord ''re'', mk_token TSpace '' '', mk_token TWord ''f'',
     mk_token TName ''/Fm'', mk_token TWord ''Do'', mk_token TName ''/Im'', mk_token TWord ''Do''])) = []"
  by (rule wrap_stream_covers) (simp add: mk_token_def aw_ops)

section \<open>Inline images\<close>

text \<open>
  C34. An inline image outside of marked content is broken, whatever stands before it: the mark is
  written after the word \<open>ID\<close>, so that its text becomes part of the image data, before and after
  the bytes that were read.
\<close>

theorem wrap_breaks_inline_image:
  assumes "is_word bi ''BI''" "is_word idw ''ID''" "is_word ei ''EI''" "t_type sp = TSpace" "t_type im = TInlineImage"
    "no_words ds" "\<forall>d \<in> set ds. t_type d \<noteq> TInlineImage" "aw_mcDepth s = 0"
  shows "out_text (aw_out (foldl (aw_token F) s (bi # ds @ [idw, sp, im, ei]))) =
    out_text (aw_out s @ map ETok (aw_pathBuf s @ aw_operands s)) @
    t_raw bi @ concat (map t_raw ds) @ t_raw idw @ ''/Artifact BMC '' @ t_raw sp @ t_raw im @ '' EMC '' @ t_raw ei"
proof -
  have w: "aw_token F x t = aw_write (ETok t) (aw_flush (flushPath False x))"
    if "is_word t ''BI'' \<or> is_word t ''ID'' \<or> is_word t ''EI''" for x t
    using that by (intro aw_token_unfold(10)) (auto simp: is_word_def aw_ops)
  have d: "foldl (aw_token F) x ds = x\<lparr>aw_operands := aw_operands x @ ds\<rparr>" for x
    using assms(6,7) by (induction ds arbitrary: x) (auto simp: aw_token_unfold(2) no_words_def)
  have raws: "out_text (map ETok ds) = concat (map t_raw ds)" by (simp add: out_text_def comp_def)
  have "aw_token F x sp = x\<lparr>aw_operands := aw_operands x @ [sp]\<rparr>" "aw_token F x im = aw_show (aw_mcDepth x = 0) im x" for x
    using assms(4,5) by (simp_all add: aw_token_unfold)
  then show ?thesis
    using assms(1-3,8)
    by (simp add: w d raws flushPath_def aw_write_def aw_flush_def aw_show_def)
qed

theorem wrap_breaks_inline_image_witness:
  "out_text (aw_out (foldl (aw_token {}) (aw_token {} artifact_wrap0 (mk_token TSpace '' '')) [mk_token TWord ''BI'', mk_token TName ''/W 1'',
     mk_token TWord ''ID'', mk_token TSpace '' '', mk_token TInlineImage ''data'', mk_token TWord ''EI''])) =
   '' BI/W 1ID/Artifact BMC  data EMC EI''"
  using wrap_breaks_inline_image[of "mk_token TWord ''BI''" "mk_token TWord ''ID''" "mk_token TWord ''EI''" "mk_token TSpace '' ''"
      "mk_token TInlineImage ''data''" "[mk_token TName ''/W 1'']" "aw_token {} artifact_wrap0 (mk_token TSpace '' '')" "{}"]
  by (simp add: mk_token_def is_word_def no_words_def artifact_wrap0_def aw_token_unfold(2))

end
