(* ===== verification/Text_Extract.thy ===== *)
theory Text_Extract
  imports Limits
begin

text \<open>
  Codes to text: the encodings of simple fonts (\<^verbatim>\<open>encodings.cpp\<close>) and the reader of ToUnicode maps
  (\<^verbatim>\<open>utf16beToUtf8\<close>, \<^verbatim>\<open>FontInfo\<close> and \<^verbatim>\<open>parseToUnicode\<close> of \<^verbatim>\<open>textextract.cpp\<close>). Codes are
  \<open>32 word\<close>s, because the loop over a range counts in 32 bits and can wrap; \<^verbatim>\<open>unsigned long\<close> has
  64 bits. A loop that never returns is \<open>None\<close>.
\<close>

section \<open>Encodings of simple fonts\<close>

definition kWinAnsiHigh :: "nat list" where
  "kWinAnsiHigh = [
     0x20AC, 0, 0x201A, 0x0192, 0x201E, 0x2026, 0x2020, 0x2021, 0x02C6, 0x2030, 0x0160, 0x2039,
     0x0152, 0, 0x017D, 0, 0, 0x2018, 0x2019, 0x201C, 0x201D, 0x2022, 0x2013, 0x2014,
     0x02DC, 0x2122, 0x0161, 0x203A, 0x0153, 0, 0x017E, 0x0178, 0x00A0, 0x00A1, 0x00A2, 0x00A3,
     0x00A4, 0x00A5, 0x00A6, 0x00A7, 0x00A8, 0x00A9, 0x00AA, 0x00AB, 0x00AC, 0x00AD, 0x00AE, 0x00AF,
     0x00B0, 0x00B1, 0x00B2, 0x00B3, 0x00B4, 0x00B5, 0x00B6, 0x00B7, 0x00B8, 0x00B9, 0x00BA, 0x00BB,
     0x00BC, 0x00BD, 0x00BE, 0x00BF, 0x00C0, 0x00C1, 0x00C2, 0x00C3, 0x00C4, 0x00C5, 0x00C6, 0x00C7,
     0x00C8, 0x00C9, 0x00CA, 0x00CB, 0x00CC, 0x00CD, 0x00CE, 0x00CF, 0x00D0, 0x00D1, 0x00D2, 0x00D3,
     0x00D4, 0x00D5, 0x00D6, 0x00D7, 0x00D8, 0x00D9, 0x00DA, 0x00DB, 0x00DC, 0x00DD, 0x00DE, 0x00DF,
     0x00E0, 0x00E1, 0x00E2, 0x00E3, 0x00E4, 0x00E5, 0x00E6, 0x00E7, 0x00E8, 0x00E9, 0x00EA, 0x00EB,
     0x00EC, 0x00ED, 0x00EE, 0x00EF, 0x00F0, 0x00F1, 0x00F2, 0x00F3, 0x00F4, 0x00F5, 0x00F6, 0x00F7,
     0x00F8, 0x00F9, 0x00FA, 0x00FB, 0x00FC, 0x00FD, 0x00FE, 0x00FF]"

definition kMacRomanHigh :: "nat list" where
  "kMacRomanHigh = [
     0x00C4, 0x00C5, 0x00C7, 0x00C9, 0x00D1, 0x00D6, 0x00DC, 0x00E1, 0x00E0, 0x00E2, 0x00E4, 0x00E3,
     0x00E5, 0x00E7, 0x00E9, 0x00E8, 0x00EA, 0x00EB, 0x00ED, 0x00EC, 0x00EE, 0x00EF, 0x00F1, 0x00F3,
     0x00F2, 0x00F4, 0x00F6, 0x00F5, 0x00FA, 0x00F9, 0x00FB, 0x00FC, 0x2020, 0x00B0, 0x00A2, 0x00A3,
     0x00A7, 0x2022, 0x00B6, 0x00DF, 0x00AE, 0x00A9, 0x2122, 0x00B4, 0x00A8, 0x2260, 0x00C6, 0x00D8,
     0x221E, 0x00B1, 0x2264, 0x2265, 0x00A5, 0x00B5, 0x2202, 0x2211, 0x220F, 0x03C0, 0x222B, 0x00AA,
     0x00BA, 0x03A9, 0x00E6, 0x00F8, 0x00BF, 0x00A1, 0x00AC, 0x221A, 0x0192, 0x2248, 0x2206, 0x00AB,
     0x00BB, 0x2026, 0x00A0, 0x00C0, 0x00C3, 0x00D5, 0x0152, 0x0153, 0x2013, 0x2014, 0x201C, 0x201D,
     0x2018, 0x2019, 0x00F7, 0x25CA, 0x00FF, 0x0178, 0x2044, 0x00A4, 0x2039, 0x203A, 0xFB01, 0xFB02,
     0x2021, 0x00B7, 0x201A, 0x201E, 0x2030, 0x00C2, 0x00CA, 0x00C1, 0x00CB, 0x00C8, 0x00CD, 0x00CE,
     0x00CF, 0x00CC, 0x00D3, 0x00D4, 0xF8FF, 0x00D2, 0x00DA, 0x00DB, 0x00D9, 0x0131, 0x02C6, 0x02DC,
     0x00AF, 0x02D8, 0x02D9, 0x02DA, 0x00B8, 0x02DD, 0x02DB, 0x02C7]"

definition kStandardHigh :: "nat list" where
  "kStandardHigh = [
     0, 0x00A1, 0x00A2, 0x00A3, 0x2044, 0x00A5, 0x0192, 0x00A7, 0x00A4, 0x0027, 0x201C, 0x00AB,
     0x2039, 0x203A, 0xFB01, 0xFB02, 0, 0x2013, 0x2020, 0x2021, 0x00B7, 0, 0x00B6, 0x2022,
     0x201A, 0x201E, 0x201D, 0x00BB, 0x2026, 0x2030, 0, 0x00BF, 0, 0x0060, 0x00B4, 0x02C6,
     0x02DC, 0x00AF, 0x02D8, 0x02D9, 0x00A8, 0, 0x02DA, 0x00B8, 0, 0x02DD, 0x02DB, 0x02C7,
     0x2014, 0, 0, 0, 0, 0, 0, 0, 0, 0, 0, 0,
     0, 0, 0, 0, 0, 0x00C6, 0, 0x00AA, 0, 0, 0, 0,
     0x0141, 0x00D8, 0x0152, 0x00BA, 0, 0, 0, 0, 0, 0x00E6, 0, 0,
     0, 0x0131, 0, 0, 0x0142, 0x00F8, 0x0153, 0x00DF, 0, 0, 0, 0,
     0, 0, 0, 0, 0, 0, 0, 0, 0, 0, 0, 0,
     0, 0, 0, 0, 0, 0, 0, 0, 0, 0, 0, 0,
     0, 0, 0, 0, 0, 0, 0, 0]"

definition kSymbolLow :: "nat list" where
  "kSymbolLow = [
     0x0020, 0x0021, 0x2200, 0x0023, 0x2203, 0x0025, 0x0026, 0x220B, 0x0028, 0x0029, 0x2217, 0x002B,
     0x002C, 0x2212, 0x002E, 0x002F, 0x0030, 0x0031, 0x0032, 0x0033, 0x0034, 0x0035, 0x0036, 0x0037,
     0x0038, 0x0039, 0x003A, 0x003B, 0x003C, 0x003D, 0x003E, 0x003F, 0x2245, 0x0391, 0x0392, 0x03A7,
     0x0394, 0x0395, 0x03A6, 0x0393, 0x0397, 0x0399, 0x03D1, 0x039A, 0x039B, 0x039C, 0x039D, 0x039F,
     0x03A0, 0x0398, 0x03A1, 0x03A3, 0x03A4, 0x03A5, 0x03C2, 0x03A9, 0x039E, 0x03A8, 0x0396, 0x005B,
     0x2234, 0x005D, 0x22A5, 0x005F, 0x203E, 0x03B1, 0x03B2, 0x03C7, 0x03B4, 0x03B5, 0x03C6, 0x03B3,
     0x03B7, 0x03B9, 0x03D5, 0x03BA, 0x03BB, 0x03BC, 0x03BD, 0x03BF, 0x03C0, 0x03B8, 0x03C1, 0x03C3,
     0x03C4, 0x03C5, 0x03D6, 0x03C9, 0x03BE, 0x03C8, 0x03B6, 0x007B, 0x007C, 0x007D, 0x223C, 0]"

definition kSymbolHigh :: "nat list" where
  "kSymbolHigh = [
     0x20AC, 0x03D2, 0x2032, 0x2264, 0x2044, 0x221E, 0x0192, 0x2663, 0x2666, 0x2665, 0x2660, 0x2194,
     0x2190, 0x2191, 0x2192, 0x2193, 0x00B0, 0x00B1, 0x2033, 0x2265, 0x00D7, 0x221D, 0x2202, 0x2022,
     0x00F7, 0x2260, 0x2261, 0x2248, 0x2026, 0x2502, 0x2500, 0x21B5, 0x2135, 0x2111, 0x211C, 0x2118,
     0x2297, 0x2295, 0x2205, 0x2229, 0x222A, 0x2283, 0x2287, 0x2284, 0x2282, 0x2286, 0x2208, 0x2209,
     0x2220, 0x2207, 0x00AE, 0x00A9, 0x2122, 0x220F, 0x221A, 0x22C5, 0x00AC, 0x2227, 0x2228, 0x21D4,
     0x21D0, 0x21D1, 0x21D2, 0x21D3, 0x25CA, 0x2329, 0x00AE, 0x00A9, 0x2122, 0x2211, 0x239B, 0x239C,
     0x239D, 0x23A1, 0x23A2, 0x23A3, 0x23A7, 0x23A8, 0x23A9, 0x23AA, 0, 0x232A, 0x222B, 0x2320,
     0x23AE, 0x2321, 0x239E, 0x239F, 0x23A0, 0x23A4, 0x23A5, 0x23A6, 0x23AB, 0x23AC, 0x23AD, 0]"

definition kSymbolNamesLow :: "string option list" where
  "kSymbolNamesLow = [
     Some ''space'', Some ''exclam'', Some ''universal'', Some ''numbersign'', Some ''existential'', Some ''percent'',
     Some ''ampersand'', Some ''suchthat'', Some ''parenleft'', Some ''parenright'', Some ''asteriskmath'', Some ''plus'',
     Some ''comma'', Some ''minus'', Some ''period'', Some ''slash'', Some ''zero'', Some ''one'',
     Some ''two'', Some ''three'', Some ''four'', Some ''five'', Some ''six'', Some ''seven'',
     Some ''eight'', Some ''nine'', Some ''colon'', Some ''semicolon'', Some ''less'', Some ''equal'',
     Some ''greater'', Some ''question'', Some ''congruent'', Some ''Alpha'', Some ''Beta'', Some ''Chi'',
     Some ''Delta'', Some ''Epsilon'', Some ''Phi'', Some ''Gamma'', Some ''Eta'', Some ''Iota'',
     Some ''theta1'', Some ''Kappa'', Some ''Lambda'', Some ''Mu'', Some ''Nu'', Some ''Omicron'',
     Some ''Pi'', Some ''Theta'', Some ''Rho'', Some ''Sigma'', Some ''Tau'', Some ''Upsilon'',
     Some ''sigma1'', Some ''Omega'', Some ''Xi'', Some ''Psi'', Some ''Zeta'', Some ''bracketleft'',
     Some ''therefore'', Some ''bracketright'', Some ''perpendicular'', Some ''underscore'', Some ''radicalex'', Some ''alpha'',
     Some ''beta'', Some ''chi'', Some ''delta'', Some ''epsilon'', Some ''phi'', Some ''gamma'',
     Some ''eta'', Some ''iota'', Some ''phi1'', Some ''kappa'', Some ''lambda'', Some ''mu'',
     Some ''nu'', Some ''omicron'', Some ''pi'', Some ''theta'', Some ''rho'', Some ''sigma'',
     Some ''tau'', Some ''upsilon'', Some ''omega1'', Some ''omega'', Some ''xi'', Some ''psi'',
     Some ''zeta'', Some ''braceleft'', Some ''bar'', Some ''braceright'', Some ''similar'']"

definition kSymbolNamesHigh :: "string option list" where
  "kSymbolNamesHigh = [
     Some ''Euro'', Some ''Upsilon1'', Some ''minute'', Some ''lessequal'', Some ''fraction'', Some ''infinity'',
     Some ''florin'', Some ''club'', Some ''diamond'', Some ''heart'', Some ''spade'', Some ''arrowboth'',
     Some ''arrowleft'', Some ''arrowup'', Some ''arrowright'', Some ''arrowdown'', Some ''degree'', Some ''plusminus'',
     Some ''second'', Some ''greaterequal'', Some ''multiply'', Some ''proportional'', Some ''partialdiff'', Some ''bullet'',
     Some ''divide'', Some ''notequal'', Some ''equivalence'', Some ''approxequal'', Some ''ellipsis'', Some ''arrowvertex'',
     Some ''arrowhorizex'', Some ''carriagereturn'', Some ''aleph'', Some ''Ifraktur'', Some ''Rfraktur'', Some ''weierstrass'',
     Some ''circlemultiply'', Some ''circleplus'', Some ''emptyset'', Some ''intersection'', Some ''union'', Some ''propersuperset'',
     Some ''reflexsuperset'', Some ''notsubset'', Some ''propersubset'', Some ''reflexsubset'', Some ''element'', Some ''notelement'',
     Some ''angle'', Some ''gradient'', Some ''registerserif'', Some ''copyrightserif'', Some ''trademarkserif'', Some ''product'',
     Some ''radical'', Some ''dotmath'', Some ''logicalnot'', Some ''logicaland'', Some ''logicalor'', Some ''arrowdblboth'',
     Some ''arrowdblleft'', Some ''arrowdblup'', Some ''arrowdblright'', Some ''arrowdbldown'', Some ''lozenge'', Some ''angleleft'',
     Some ''registersans'', Some ''copyrightsans'', Some ''trademarksans'', Some ''summation'', Some ''parenlefttp'', Some ''parenleftex'',
     Some ''parenleftbt'', Some ''bracketlefttp'', Some ''bracketleftex'', Some ''bracketleftbt'', Some ''bracelefttp'', Some ''braceleftmid'',
     Some ''braceleftbt'', Some ''braceex'', None, Some ''angleright'', Some ''integral'', Some ''integraltp'',
     Some ''integralex'', Some ''integralbt'', Some ''parenrighttp'', Some ''parenrightex'', Some ''parenrightbt'', Some ''bracketrighttp'',
     Some ''bracketrightex'', Some ''bracketrightbt'', Some ''bracerighttp'', Some ''bracerightmid'', Some ''bracerightbt'']"

definition asciiOr :: "int \<Rightarrow> nat list \<Rightarrow> nat" where
  "asciiOr code high =
     (if code < 0 \<or> code > 255 then 0
      else if code \<ge> 0x80 then high ! nat (code - 0x80)
      else if code \<ge> 0x20 \<and> code < 0x7F then nat code
      else 0)"

definition winAnsiToUnicode :: "int \<Rightarrow> nat" where
  "winAnsiToUnicode code = asciiOr code kWinAnsiHigh"

definition macRomanToUnicode :: "int \<Rightarrow> nat" where
  "macRomanToUnicode code = asciiOr code kMacRomanHigh"

definition standardToUnicode :: "int \<Rightarrow> nat" where
  "standardToUnicode code =
     (if code = 0x27 then 0x2019 else if code = 0x60 then 0x2018 else asciiOr code kStandardHigh)"

definition symbolToUnicode :: "int \<Rightarrow> nat" where
  "symbolToUnicode code =
     (if code \<ge> 0x20 \<and> code < 0x80 then kSymbolLow ! nat (code - 0x20)
      else if code \<ge> 0xA0 \<and> code \<le> 0xFF then kSymbolHigh ! nat (code - 0xA0)
      else 0)"

definition zapfDingbatsToUnicode :: "int \<Rightarrow> nat" where
  "zapfDingbatsToUnicode code =
     (if code = 0x20 then 0x20
      else if code \<ge> 0x21 \<and> code \<le> 0x7E then 0x2701 + nat (code - 0x21)
      else if code \<ge> 0x80 \<and> code \<le> 0x8D then 0x2768 + nat (code - 0x80)
      else if code \<ge> 0xA1 \<and> code \<le> 0xFF then 0x2761 + nat (code - 0xA1)
      else 0)"

definition symbolCodeToName :: "int \<Rightarrow> string option" where
  "symbolCodeToName code =
     (if code \<ge> 0x20 \<and> code \<le> 0x7E then kSymbolNamesLow ! nat (code - 0x20)
      else if code \<ge> 0xA0 \<and> code \<le> 0xFE then kSymbolNamesHigh ! nat (code - 0xA0)
      else None)"

definition zapfCodeToName :: "int \<Rightarrow> string" where
  "zapfCodeToName code =
     (if code = 0x20 then ''space''
      else if code \<ge> 0x21 \<and> code \<le> 0x7E then CHR ''a'' # int_str (code - 0x21 + 1)
      else if code \<ge> 0xA1 \<and> code \<le> 0xFF then CHR ''a'' # int_str (code - 0xA1 + 101)
      else [])"

section \<open>UTF-16 in hexadecimal\<close>

text \<open>The callers pass hexadecimal digits only.\<close>

fun hex_bytes :: "string \<Rightarrow> nat list" where
  "hex_bytes (a # b # r) = (16 * xdigit_val a + xdigit_val b) # hex_bytes r"
| "hex_bytes _ = []"

definition surrogates :: "nat \<Rightarrow> nat \<Rightarrow> 32 word" where
  "surrogates u l = 0x10000 + (word_of_nat u - 0xD800) * 1024 + (word_of_nat l - 0xDC00)"

fun utf16_text :: "nat list \<Rightarrow> string" where
  "utf16_text (a # b # c # d # r) =
     (let u = 256 * a + b
      in if u \<ge> 0xD800 \<and> u < 0xDC00 then utf8Of (unat (surrogates u (256 * c + d))) @ utf16_text r
         else utf8Of u @ utf16_text (c # d # r))"
| "utf16_text (a # b # r) = utf8Of (256 * a + b) @ utf16_text r"
| "utf16_text _ = []"

definition utf16beToUtf8 :: "string \<Rightarrow> string" where
  "utf16beToUtf8 hex = utf16_text (hex_bytes hex)"

section \<open>ToUnicode maps\<close>

type_synonym uni = "32 word \<rightharpoonup> string"

record FontInfo =
  fi_twoByte :: bool
  fi_type3 :: bool
  fi_glyphScale :: double
  fi_dw :: double
  fi_uni :: uni
  fi_widths :: "32 word \<rightharpoonup> double"
  fi_name :: string

definition fi_text :: "FontInfo \<Rightarrow> 32 word \<Rightarrow> string" where
  "fi_text fi code = (case fi_uni fi code of Some s \<Rightarrow> s | None \<Rightarrow> [])"

definition fi_width :: "FontInfo \<Rightarrow> 32 word \<Rightarrow> double" where
  "fi_width fi code = mul_d (case fi_widths fi code of Some w \<Rightarrow> w | None \<Rightarrow> fi_dw fi) (fi_glyphScale fi)"

definition is_gt :: "char \<Rightarrow> bool" where
  "is_gt c \<longleftrightarrow> c = CHR ''>''"

definition is_lt :: "char \<Rightarrow> bool" where
  "is_lt c \<longleftrightarrow> c = CHR ''<''"

lemma find_char_from: "find_idx_from f s i = Some k \<Longrightarrow> i \<le> k \<and> k < length s \<and> f (s ! k)"
  by (auto simp: find_idx_from_def find_idx_Some)

function hexes :: "string \<Rightarrow> nat \<Rightarrow> nat \<Rightarrow> (nat \<times> string) list" where
  "hexes t p to =
     (if p \<ge> to then []
      else case find_idx_from is_lt t p of
        None \<Rightarrow> []
      | Some a \<Rightarrow>
          if a \<ge> to then []
          else case find_idx_from is_gt t a of
            None \<Rightarrow> []
          | Some b \<Rightarrow> if b > to then [] else (a, filter is_xdigit (substr t (a + 1) (b - a - 1))) # hexes t (b + 1) to)"
  by pat_completeness auto
termination
  by (relation "measure (\<lambda>(t, p, to). to - p)") (auto dest!: find_char_from)

declare hexes.simps [simp del]

definition strtoul16 :: "string \<Rightarrow> 32 word" where
  "strtoul16 h = word_of_nat (min (xdigits_val h) (2 ^ 64 - 1))"

fun bfchar_pairs :: "(nat \<times> string) list \<Rightarrow> uni \<Rightarrow> uni" where
  "bfchar_pairs ((a, h) # (b, d) # r) m = bfchar_pairs r (m(strtoul16 h \<mapsto> utf16beToUtf8 d))"
| "bfchar_pairs _ m = m"

lemma find_from_after:
  assumes "find_from p s i = Some k" "find_from q s k = Some e" "p = c # p'" "q = d # q'" "c \<noteq> d"
  shows "i \<le> k \<and> k < e \<and> e < length s"
proof -
  note k = find_from_Some[OF assms(1)] and e = find_from_Some[OF assms(2)]
  have "k \<noteq> e"
  proof
    assume "k = e"
    with k(3) e(3) have "take (length p) (drop k s) = p" "take (length q) (drop k s) = q" by simp_all
    with assms(3-5) show False by (cases "drop k s") auto
  qed
  with k(1) e(1,2) assms(4) show ?thesis by simp
qed

function bfchars :: "string \<Rightarrow> nat \<Rightarrow> uni \<Rightarrow> uni" where
  "bfchars t pos m =
     (case find_from ''beginbfchar'' t pos of
        None \<Rightarrow> m
      | Some p \<Rightarrow>
          (case find_from ''endbfchar'' t p of
             None \<Rightarrow> m
           | Some e \<Rightarrow> bfchars t e (bfchar_pairs (hexes t p e) m)))"
  by pat_completeness auto
termination
  by (relation "measure (\<lambda>(t, pos, m). length t - pos)")
    (auto dest: find_from_after[where p = "''beginbfchar''" and q = "''endbfchar''", OF _ _ refl refl])

declare bfchars.simps [simp del]

text \<open>The text of the \<open>k\<close>-th code of a range: the last four digits of its base are counted up.\<close>

definition range_text :: "string \<Rightarrow> nat \<Rightarrow> string" where
  "range_text base k =
     (let n = length base - 4
      in utf16beToUtf8 (take n base @ hex_digits_upper 4 ((xdigits_val (drop n base) + k) mod 65536)))"

partial_function (option) uni_range_loop :: "string \<Rightarrow> 32 word \<Rightarrow> 32 word \<Rightarrow> 32 word \<Rightarrow> uni \<Rightarrow> uni option" where
  "uni_range_loop base lo hi c m =
     (if c \<le> hi then uni_range_loop base lo hi (c + 1) (m(c \<mapsto> range_text base (unat (c - lo)))) else Some m)"

fun array_loop :: "(nat \<times> string) list \<Rightarrow> 32 word \<Rightarrow> 32 word \<Rightarrow> uni \<Rightarrow> uni" where
  "array_loop [] c hi m = m"
| "array_loop ((a, h) # r) c hi m = (if c \<le> hi then array_loop r (c + 1) hi (m(c \<mapsto> utf16beToUtf8 h)) else m)"

text \<open>The position after the next \<^verbatim>\<open>>\<close>.\<close>

definition after_gt :: "string \<Rightarrow> nat \<Rightarrow> nat" where
  "after_gt t a = (case find_idx_from is_gt t a of Some b \<Rightarrow> b + 1 | None \<Rightarrow> 0)"

definition skip_space :: "string \<Rightarrow> nat \<Rightarrow> nat \<Rightarrow> nat" where
  "skip_space t q e = q + length (takeWhile is_space (substr t q (e - q)))"

lemma hexes_mem:
  assumes "(a, h) \<in> set (hexes t p e)"
  shows "p \<le> a \<and> a < e \<and> is_lt (t ! a) \<and> (\<exists>b. find_idx_from is_gt t a = Some b \<and> a \<le> b \<and> b \<le> e) \<and>
    h = filter is_xdigit (substr t (a + 1) (after_gt t a - a - 2))"
  using assms
proof (induction t p e rule: hexes.induct)
  case (1 t p to)
  show ?case
  proof (cases "p \<ge> to")
    case True
    with 1 show ?thesis by (simp add: hexes.simps)
  next
    case False
    from 1(2) False have "find_idx_from is_lt t p \<noteq> None"
      by (cases "find_idx_from is_lt t p") (simp_all add: hexes.simps[of t p])
    then obtain x where x1: "find_idx_from is_lt t p = Some x" by blast
    with 1(2) False have "x < to" by (auto simp: hexes.simps[of t p] split: if_splits)
    note x = x1 this
    from 1(2) False x have "find_idx_from is_gt t x \<noteq> None"
      by (cases "find_idx_from is_gt t x") (simp_all add: hexes.simps[of t p])
    then obtain b where b1: "find_idx_from is_gt t x = Some b" by blast
    with 1(2) False x have "b \<le> to" by (auto simp: hexes.simps[of t p] split: if_splits)
    note b = b1 this
    have m: "(a, h) = (x, filter is_xdigit (substr t (x + 1) (b - x - 1))) \<or> (a, h) \<in> set (hexes t (b + 1) to)"
      using 1(2) False x b by (simp add: hexes.simps[of t p])
    then show ?thesis
    proof
      assume "(a, h) = (x, filter is_xdigit (substr t (x + 1) (b - x - 1)))"
      then show ?thesis using x b find_char_from[OF x(1)] find_char_from[OF b(1)] by (simp add: after_gt_def)
    next
      assume m: "(a, h) \<in> set (hexes t (b + 1) to)"
      have "p \<le> b + 1" using find_char_from[OF x(1)] find_char_from[OF b(1)] by simp
      with 1(1)[OF False x(1) _ b(1) _ m] x b show ?thesis by auto
    qed
  qed
qed

lemma range_progress:
  assumes "hexes t p e = (a0, h0) # (a1, h1) # r"
  shows "p < skip_space t (after_gt t a1) e"
    and "find_idx_from f t (skip_space t (after_gt t a1) e) = Some cl \<Longrightarrow> p < cl + 1"
    and "hexes t (skip_space t (after_gt t a1) e) x = (d, b) # r' \<Longrightarrow> p < after_gt t d"
proof -
  have "(a1, h1) \<in> set (hexes t p e)" by (simp add: assms)
  from hexes_mem[OF this] have "p < after_gt t a1" by (auto simp: after_gt_def)
  then show q: "p < skip_space t (after_gt t a1) e" by (simp add: skip_space_def)
  show "find_idx_from f t (skip_space t (after_gt t a1) e) = Some cl \<Longrightarrow> p < cl + 1" using q find_char_from by fastforce
  assume "hexes t (skip_space t (after_gt t a1) e) x = (d, b) # r'"
  then have "(d, b) \<in> set (hexes t (skip_space t (after_gt t a1) e) x)" by simp
  from hexes_mem[OF this] q show "p < after_gt t d" by (auto simp: after_gt_def)
qed

function bfrange_loop :: "string \<Rightarrow> nat \<Rightarrow> nat \<Rightarrow> uni \<Rightarrow> uni option" where
  "bfrange_loop t e p m =
     (if p \<ge> e then Some m
      else case hexes t p e of
        (a0, h0) # (a1, h1) # _ \<Rightarrow>
          (let lo = strtoul16 h0; hi = strtoul16 h1; q = skip_space t (after_gt t a1) e
           in if hi < lo \<or> unat (hi - lo) > 65535 then Some m
              else if q < e \<and> t ! q = CHR ''['' then
                (case find_idx_from (\<lambda>c. c = CHR '']'') t q of
                   None \<Rightarrow> Some m
                 | Some cl \<Rightarrow>
                     if cl > e then Some m
                     else bfrange_loop t e (cl + 1) (array_loop (hexes t q cl) lo hi m))
              else
                (case hexes t q e of
                   [] \<Rightarrow> Some m
                 | (d, base) # _ \<Rightarrow>
                     (case uni_range_loop base lo hi lo m of
                        None \<Rightarrow> None
                      | Some m' \<Rightarrow> bfrange_loop t e (after_gt t d) m')))
      | _ \<Rightarrow> Some m)"
  by pat_completeness auto
termination
  by (relation "measure (\<lambda>(t, e, p, m). e - p)") (use range_progress in \<open>fastforce dest: range_progress(2,3)\<close>)+

declare bfrange_loop.simps [simp del]

function bfranges :: "string \<Rightarrow> nat \<Rightarrow> uni \<Rightarrow> uni option" where
  "bfranges t pos m =
     (case find_from ''beginbfrange'' t pos of
        None \<Rightarrow> Some m
      | Some p \<Rightarrow>
          (case find_from ''endbfrange'' t p of
             None \<Rightarrow> Some m
           | Some e \<Rightarrow>
               (case bfrange_loop t e (p + 12) m of None \<Rightarrow> None | Some m' \<Rightarrow> bfranges t e m')))"
  by pat_completeness auto
termination
  by (relation "measure (\<lambda>(t, pos, m). length t - pos)")
    (auto dest: find_from_after[where p = "''beginbfrange''" and q = "''endbfrange''", OF _ _ refl refl])

declare bfranges.simps [simp del]

text \<open>\<open>tu\<close> is the decoded data of the stream, \<open>None\<close> when there is none.\<close>

definition parseToUnicode :: "string option \<Rightarrow> FontInfo \<Rightarrow> FontInfo option" where
  "parseToUnicode tu fi =
     (case tu of
        None \<Rightarrow> Some fi
      | Some t \<Rightarrow>
          (case bfranges t 0 (bfchars t 0 (fi_uni fi)) of
             None \<Rightarrow> None
           | Some m \<Rightarrow> Some (fi\<lparr>fi_uni := m\<rparr>)))"

section \<open>UTF-16 reads back as UTF-8\<close>

definition utf16_units :: "nat \<Rightarrow> nat list" where
  "utf16_units cp =
     (if cp < 0x10000 then [cp] else [0xD800 + (cp - 0x10000) div 1024, 0xDC00 + (cp - 0x10000) mod 1024])"

definition utf16_hex :: "nat list \<Rightarrow> string" where
  "utf16_hex cps = concat (map (hex_digits_upper 4) (concat (map utf16_units cps)))"

lemma xdigit_val_hex_upper: "d < 16 \<Longrightarrow> xdigit_val (hex_upper d) = d"
  by (auto simp: hex_upper_def xdigit_val_def is_digit_def ord_chr)

lemma hex_bytes_4:
  assumes "u < 65536"
  shows "hex_bytes (hex_digits_upper 4 u @ r) = u div 256 # u mod 256 # hex_bytes r"
proof -
  define v where "v = u div 256"
  have v: "u div 16 div 16 = v" using div_mult2_eq[of u 16 16] by (simp add: v_def)
  have "v < 256" using assms by (simp add: v_def less_mult_imp_div_less)
  then have d: "v div 16 < 16" by (simp add: less_mult_imp_div_less)
  have "u mod 256 = 16 * (u div 16 mod 16) + u mod 16" using mod_mult2_eq[of u 16 16] by simp
  moreover have "(4::nat) = Suc (Suc (Suc (Suc 0)))" by simp
  ultimately show ?thesis
    using d by (simp only: hex_digits_upper.simps) (simp add: v xdigit_val_hex_upper v_def[symmetric])
qed

lemma surrogates_pair:
  assumes "0x10000 \<le> cp" "cp \<le> 0x10FFFF"
  shows "unat (surrogates (0xD800 + (cp - 0x10000) div 1024) (0xDC00 + (cp - 0x10000) mod 1024)) = cp"
proof -
  define d where "d = cp - 0x10000"
  have cp: "cp = 0x10000 + d" and d: "d < 0x100000" using assms by (simp_all add: d_def)
  have "(word_of_nat d :: 32 word) = word_of_nat (d div 1024 * 1024 + d mod 1024)" by simp
  also have "\<dots> = word_of_nat (d div 1024) * 1024 + word_of_nat (d mod 1024)" by (simp only: of_nat_add of_nat_mult of_nat_numeral)
  finally have e: "word_of_nat (d div 1024) * 1024 + word_of_nat (d mod 1024) = (word_of_nat d :: 32 word)" by simp
  have "surrogates (0xD800 + d div 1024) (0xDC00 + d mod 1024) = (word_of_nat (0x10000 + d div 1024 * 1024 + d mod 1024) :: 32 word)"
    unfolding surrogates_def by (simp add: e)
  also have "0x10000 + d div 1024 * 1024 + d mod 1024 = cp" by (simp add: cp)
  finally show ?thesis using assms by (simp add: d_def[symmetric] unat_of_nat take_bit_nat_eq_self)
qed

lemma utf16_text_Cons:
  assumes "u < 65536" "\<not> (0xD800 \<le> u \<and> u < 0xDC00)"
  shows "utf16_text (u div 256 # u mod 256 # r) = utf8Of u @ utf16_text r"
  using assms by (cases r rule: utf16_text.cases) (auto simp: Let_def)

lemma utf16beToUtf8_text:
  assumes "\<forall>cp \<in> set cps. scalar cp"
  shows "utf16beToUtf8 (utf16_hex cps) = encode cps"
  using assms
proof (induction cps)
  case (Cons cp cps)
  then have cp: "scalar cp" and IH: "utf16_text (hex_bytes (utf16_hex cps)) = encode cps" by (simp_all add: utf16beToUtf8_def)
  have app: "utf16_hex (cp # cps) = concat (map (hex_digits_upper 4) (utf16_units cp)) @ utf16_hex cps" by (simp add: utf16_hex_def)
  show ?case
  proof (cases "cp < 0x10000")
    case True
    with cp have "\<not> (0xD800 \<le> cp \<and> cp < 0xDC00)" by (auto simp: scalar_def)
    with True utf16_text_Cons[of cp] IH show ?thesis
      unfolding app by (simp add: utf16beToUtf8_def utf16_units_def hex_bytes_4)
  next
    case False
    let ?u = "0xD800 + (cp - 0x10000) div 1024" and ?l = "0xDC00 + (cp - 0x10000) mod 1024"
    have b: "0xD800 \<le> ?u" "?u < 0xDC00" "?l < 65536" using cp by (auto simp: scalar_def)
    have e: "256 * (?u div 256) + ?u mod 256 = ?u" "256 * (?l div 256) + ?l mod 256 = ?l" by simp_all
    have "hex_bytes (utf16_hex (cp # cps)) =
        ?u div 256 # ?u mod 256 # ?l div 256 # ?l mod 256 # hex_bytes (utf16_hex cps)"
      unfolding app using False b by (simp add: utf16_units_def hex_bytes_4)
    then show ?thesis
      using b IH surrogates_pair[of cp] False cp unfolding utf16beToUtf8_def by (simp add: Let_def e scalar_def)
  qed
qed (simp add: utf16_hex_def utf16beToUtf8_def)

text \<open>
  The text of a ToUnicode entry written as UTF-16BE in hexadecimal digits is read as the same
  characters in UTF-8, surrogate pairs included.
\<close>

theorem utf16beToUtf8_encodes:
  assumes "\<forall>cp \<in> set cps. scalar cp"
  shows "utf16beToUtf8 (utf16_hex cps) = encode cps"
  by (rule utf16beToUtf8_text[OF assms])

theorem utf16beToUtf8_encodes_witness:
  "utf16beToUtf8 (utf16_hex [0x41, 0x1D11E]) = encode [0x41, 0x1D11E]"
  by (rule utf16beToUtf8_encodes) (simp add: scalar_def)

section \<open>Ranges of codes\<close>

lemma uni_range_loop_value:
  assumes "hi < - 1"
  shows "uni_range_loop base lo hi c m =
    Some (\<lambda>x. if c \<le> x \<and> x \<le> hi then Some (range_text base (unat (x - lo))) else m x)"
  using assms
proof (induction "unat hi + 1 - unat c" arbitrary: c m rule: less_induct)
  case less
  show ?case
  proof (cases "c \<le> hi")
    case True
    with less.prems have "c \<noteq> - 1" by auto
    then have "c + 1 \<noteq> 0" by (simp add: eq_neg_iff_add_eq_0)
    then have nw: "unat (c + 1) = unat c + 1" using unatSuc[of c] by (simp add: add.commute)
    have le: "unat c \<le> unat hi" using True by (simp add: word_le_nat_alt)
    then have "unat hi + 1 - unat (c + 1) < unat hi + 1 - unat c" by (simp add: nw)
    note IH = less.hyps[OF this less.prems]
    have "c \<le> x \<and> x \<le> hi \<longleftrightarrow> x = c \<or> c + 1 \<le> x \<and> x \<le> hi" for x
      using nw le by (auto simp: word_le_nat_alt word_unat_eq_iff)
    with True IH show ?thesis by (subst uni_range_loop.simps) (auto simp: fun_eq_iff)
  next
    case False
    then have n: "(c \<le> x \<and> x \<le> hi) = False" for x by auto
    from False show ?thesis by (subst uni_range_loop.simps) (simp only: n if_False)
  qed
qed

lemma uni_range_loop_stuck: "uni_range_loop base lo (- 1) c m = None"
proof -
  have "hi \<noteq> - 1" if "uni_range_loop base lo hi c m = Some m'" for hi m'
  proof (rule uni_range_loop.raw_induct[OF _ that, where P = "\<lambda>base lo hi c m m'. hi \<noteq> - 1"])
    fix f base lo hi c m m'
    assume IH: "\<And>base lo hi c m y. f base lo hi c m = Some y \<Longrightarrow> hi \<noteq> - 1"
      and s: "(if c \<le> hi then f base lo hi (c + 1) (m(c \<mapsto> range_text base (unat (c - lo)))) else Some m) = Some m'"
    show "hi \<noteq> - 1"
    proof
      assume "hi = - 1"
      then have "c \<le> hi" by simp
      with s have "f base lo hi (c + 1) (m(c \<mapsto> range_text base (unat (c - lo)))) = Some m'" by simp
      from IH[OF this] \<open>hi = - 1\<close> show False by simp
    qed
  qed
  then show ?thesis by (cases "uni_range_loop base lo (- 1) c m") auto
qed

text \<open>The digits of the string that starts at a position.\<close>

definition hex_at :: "string \<Rightarrow> nat \<Rightarrow> string" where
  "hex_at t a = filter is_xdigit (substr t (a + 1) (after_gt t a - a - 2))"

definition no_last_code :: "string \<Rightarrow> bool" where
  "no_last_code t \<longleftrightarrow> list_all (\<lambda>a. is_lt (t ! a) \<longrightarrow> strtoul16 (hex_at t a) \<noteq> - 1) [0..<length t]"

lemma hexes_not_last:
  assumes "no_last_code t" "(a, h) \<in> set (hexes t p e)"
  shows "strtoul16 h \<noteq> - 1"
proof -
  note m = hexes_mem[OF assms(2)]
  then obtain b where b: "find_idx_from is_gt t a = Some b" by blast
  then have "a < length t" using find_char_from[OF b] by simp
  with m assms(1) show ?thesis by (auto simp: no_last_code_def hex_at_def list_all_iff)
qed

lemma bfrange_loop_returns: "no_last_code t \<Longrightarrow> bfrange_loop t e p m \<noteq> None"
proof (induction t e p m rule: bfrange_loop.induct)
  case (1 t e p m)
  show ?case
  proof (cases "hexes t p e")
    case (Cons x xs)
    then show ?thesis
    proof (cases xs)
      case (Cons y ys)
      obtain a0 h0 a1 h1 where h: "x = (a0, h0)" "y = (a1, h1)" by (cases x, cases y) auto
      have hx: "hexes t p e = (a0, h0) # (a1, h1) # ys" using \<open>hexes t p e = x # xs\<close> Cons h by simp
      have "strtoul16 h1 \<noteq> - 1" using hexes_not_last[OF 1(3), of a1 h1 p e] hx by simp
      then have hi: "strtoul16 h1 < - 1" by (metis word_order.extremum_strict word_order.not_eq_extremum)
      show ?thesis
        using 1(1,2)[OF _ hx refl refl refl refl] 1(3) hi
        by (subst bfrange_loop.simps) (auto simp: hx Let_def uni_range_loop_value split: option.splits list.splits)
    qed (simp add: bfrange_loop.simps[of t e p])
  qed (simp add: bfrange_loop.simps[of t e p])
qed

lemma bfranges_returns: "no_last_code t \<Longrightarrow> bfranges t pos m \<noteq> None"
proof (induction t pos m rule: bfranges.induct)
  case (1 t pos m)
  then show ?case
    using not_None_eq[THEN iffD1, OF bfrange_loop_returns[OF 1(2)]]
    by (subst bfranges.simps) (fastforce split: option.splits)
qed

text \<open>
  Reading a ToUnicode map returns when no code in it is the last one, 4294967295, so for all
  maps whose codes have at most seven hexadecimal digits.
\<close>

theorem parseToUnicode_returns:
  assumes "no_last_code t"
  shows "\<exists>fi'. parseToUnicode (Some t) fi = Some fi'"
  using bfranges_returns[OF assms] by (auto simp: parseToUnicode_def split: option.splits)

definition sample_map :: string where
  "sample_map = ''beginbfrange <0001> <0003> <0041> endbfrange''"

definition looping_map :: string where
  "looping_map = ''beginbfrange <FFFFFFF0> <FFFFFFFF> <0041> endbfrange''"

definition sample_font :: FontInfo where
  "sample_font = \<lparr>fi_twoByte = True, fi_type3 = False, fi_glyphScale = zero_d, fi_dw = zero_d, fi_uni = Map.empty,
     fi_widths = Map.empty, fi_name = []\<rparr>"

lemma sample_finds:
  "find_from ''beginbfrange'' sample_map 0 = Some 0" "find_from ''endbfrange'' sample_map 0 = Some 34"
  "find_from ''beginbfrange'' looping_map 0 = Some 0" "find_from ''endbfrange'' looping_map 0 = Some 42"
  "find_from ''beginbfchar'' looping_map 0 = None"
  by (simp_all add: find_from_def sample_map_def looping_map_def)

lemma sample_map_codes: "no_last_code sample_map"
proof -
  have "strtoul16 h \<noteq> - 1" if "h \<in> {''0001'', ''0003'', ''0041''}" for h
    using that by (auto simp: strtoul16_def xdigits_val_def xdigit_val_def is_digit_def)
  then show ?thesis
    by (simp add: no_last_code_def sample_map_def upt_conv_Cons hex_at_def after_gt_def find_idx_from_def is_lt_def is_gt_def substr_def
        is_xdigit_def is_digit_def)
qed

theorem parseToUnicode_returns_witness: "\<exists>fi. parseToUnicode (Some sample_map) sample_font = Some fi"
  by (rule parseToUnicode_returns[OF sample_map_codes])

lemma looping_hexes:
  "hexes looping_map 12 42 = [(13, ''FFFFFFF0''), (24, ''FFFFFFFF''), (35, ''0041'')]"
  "hexes looping_map (skip_space looping_map (after_gt looping_map 24) 42) 42 = [(35, ''0041'')]"
  "looping_map ! skip_space looping_map (after_gt looping_map 24) 42 \<noteq> CHR ''[''"
  "strtoul16 ''FFFFFFF0'' = - 16" "strtoul16 ''FFFFFFFF'' = - 1"
      apply (simp add: looping_map_def hexes.simps find_idx_from_def is_lt_def is_gt_def substr_def is_xdigit_def is_digit_def)
     apply (simp add: looping_map_def hexes.simps find_idx_from_def is_lt_def is_gt_def substr_def is_xdigit_def is_digit_def skip_space_def after_gt_def is_space_def)
    apply (simp add: looping_map_def find_idx_from_def is_gt_def substr_def skip_space_def after_gt_def is_space_def)
   apply (simp add: strtoul16_def xdigits_val_def xdigit_val_def is_digit_def)
  apply (simp add: strtoul16_def xdigits_val_def xdigit_val_def is_digit_def)
  done

text \<open>
  A range of a ToUnicode map that ends with the last 32-bit code is never left: the counter
  wraps round to 0, which is not beyond the end, and reading the map does not return.
\<close>

theorem parseToUnicode_can_loop: "parseToUnicode (Some looping_map) fi = None"
proof -
  have "bfrange_loop looping_map 42 12 m = None" for m
    by (subst bfrange_loop.simps) (simp add: looping_hexes Let_def uni_range_loop_stuck)
  then have "bfranges looping_map 0 m = None" for m by (subst bfranges.simps) (simp add: sample_finds)
  then show ?thesis by (simp add: parseToUnicode_def)
qed

section \<open>What the encodings give\<close>

lemmas table_defs = kWinAnsiHigh_def kMacRomanHigh_def kStandardHigh_def kSymbolLow_def kSymbolHigh_def

lemma table_lengths:
  "length kWinAnsiHigh = 128" "length kMacRomanHigh = 128" "length kStandardHigh = 128" "length kSymbolLow = 96" "length kSymbolHigh = 96"
  by (simp_all add: table_defs)

lemma table_scalars:
  "list_all scalar kWinAnsiHigh" "list_all scalar kMacRomanHigh" "list_all scalar kStandardHigh"
  "list_all scalar kSymbolLow" "list_all scalar kSymbolHigh"
  by (simp_all add: table_defs scalar_def)

lemma table_scalar:
  "n < 128 \<Longrightarrow> scalar (kWinAnsiHigh ! n)" "n < 128 \<Longrightarrow> scalar (kMacRomanHigh ! n)" "n < 128 \<Longrightarrow> scalar (kStandardHigh ! n)"
  "n < 96 \<Longrightarrow> scalar (kSymbolLow ! n)" "n < 96 \<Longrightarrow> scalar (kSymbolHigh ! n)"
  using table_scalars by (simp_all add: list_all_length table_lengths)

lemma asciiOr_scalar: "(\<And>n. n < 128 \<Longrightarrow> scalar (high ! n)) \<Longrightarrow> scalar (asciiOr code high)"
  by (auto simp: asciiOr_def scalar_def)

text \<open>
  Every encoding of simple fonts gives, for every code, a Unicode scalar value.
\<close>

lemma encodings_scalar:
  "scalar (winAnsiToUnicode c) \<and> scalar (macRomanToUnicode c) \<and> scalar (standardToUnicode c) \<and> scalar (symbolToUnicode c) \<and>
   scalar (zapfDingbatsToUnicode c)"
proof -
  have s0: "scalar 0" by (simp add: scalar_def)
  have "scalar (winAnsiToUnicode c)" "scalar (macRomanToUnicode c)" "scalar (asciiOr c kStandardHigh)"
    by (simp_all add: winAnsiToUnicode_def macRomanToUnicode_def asciiOr_scalar table_scalar)
  moreover have "scalar (symbolToUnicode c)" by (auto simp: symbolToUnicode_def nat_less_iff s0 intro!: table_scalar(4,5))
  moreover have "scalar (zapfDingbatsToUnicode c)" by (auto simp: zapfDingbatsToUnicode_def scalar_def)
  moreover have "scalar 0x2019" "scalar 0x2018" by (simp_all add: scalar_def)
  ultimately show ?thesis by (simp add: standardToUnicode_def)
qed

text \<open>
  The upper half of StandardEncoding, of which the standard has codes from 160 on: the values of
  the table, in its order.
\<close>

definition standard_at :: "int \<Rightarrow> nat" where
  "standard_at code = (if code \<ge> 0xA0 \<and> code \<le> 0xFF then take 96 kStandardHigh ! nat (code - 0xA0) else 0)"

text \<open>
  The upper half of StandardEncoding is read 32 codes off: the table starts with code 160 but
  is indexed from 128 on. Every code from 128 to 223 gives the character that belongs 32 codes
  further, and the codes from 224 on, with the letters \<open>AE\<close>, \<open>OE\<close> and \<open>Lslash\<close> in both cases,
  give none.
\<close>

theorem standard_high_shifted:
  assumes "0x80 \<le> c" "c \<le> 0xFF"
  shows "standardToUnicode c = standard_at (c + 32)"
proof -
  have "list_all (\<lambda>x. x = 0) (drop 96 kStandardHigh)" by (simp add: kStandardHigh_def)
  then have z: "kStandardHigh ! n = 0" if "96 \<le> n" "n < 128" for n
  proof -
    from that obtain k where "n = 96 + k" by (auto simp: le_iff_add)
    with that \<open>list_all _ _\<close> show ?thesis by (simp add: table_lengths list_all_length)
  qed
  have "standardToUnicode c = kStandardHigh ! nat (c - 0x80)" using assms by (simp add: standardToUnicode_def asciiOr_def)
  also have "\<dots> = standard_at (c + 32)"
  proof (cases "c \<le> 0xDF")
    case True
    with assms show ?thesis by (simp add: standard_at_def)
  next
    case False
    with assms show ?thesis by (simp add: standard_at_def z nat_less_iff)
  qed
  finally show ?thesis .
qed

theorem standard_high_shifted_witness:
  "standardToUnicode 0xAE = standard_at 0xCE \<and> standard_at 0xCE \<noteq> standard_at 0xAE \<and> standardToUnicode 0xE1 = 0"
proof -
  have "standard_at 0xCE \<noteq> standard_at 0xAE" "standard_at 0x101 = 0"
    by (simp_all add: standard_at_def kStandardHigh_def)
  with standard_high_shifted[of "0xAE"] standard_high_shifted[of "0xE1"] show ?thesis by simp
qed

end
