(* ===== verification/To_Unicode.thy ===== *)
theory To_Unicode
  imports Text_Extract
begin

text \<open>
  The ToUnicode maps of converted fonts (\<^verbatim>\<open>fonts.cpp\<close>): the reader of the map a font has, the
  completion of it for every code of the font, and the writer of the new map. A \<^verbatim>\<open>std::map\<close> from
  codes to hexadecimal text is an association list in the order of its keys; \<open>None\<close> is a loop
  that never returns. What FreeType and the encoding of a font say of a code is a parameter.
\<close>

section \<open>Reading the map of a font\<close>

type_synonym code_map = "(32 word \<times> string) list"

fun code_put :: "32 word \<Rightarrow> string \<Rightarrow> code_map \<Rightarrow> code_map" where
  "code_put c h [] = [(c, h)]"
| "code_put c h ((c', h') # m) =
     (if c = c' then (c, h) # m else if c < c' then (c, h) # (c', h') # m else (c', h') # code_put c h m)"

text \<open>\<^verbatim>\<open>%0wX\<close> of \<^verbatim>\<open>snprintf\<close>: at least \<open>w\<close> digits.\<close>

fun hex_min :: "nat \<Rightarrow> string" where
  "hex_min n = (if n < 16 then [hex_upper n] else hex_min (n div 16) @ [hex_upper (n mod 16)])"

declare hex_min.simps [simp del]

definition fmt_X :: "nat \<Rightarrow> nat \<Rightarrow> string" where
  "fmt_X w n = replicate (w - length (hex_min n)) (CHR ''0'') @ hex_min n"

definition utf16Hex :: "32 word \<Rightarrow> string" where
  "utf16Hex uni =
     (if uni > 0xFFFF then
        (let v = uni - 0x10000
         in fmt_X 4 (unat (0xD800 + drop_bit 10 v)) @ fmt_X 4 (unat (0xDC00 + (v AND 0x3FF))))
      else fmt_X 4 (unat uni))"

text \<open>
  \<^verbatim>\<open>strtoul\<close> in base 16 on any text, converted to 32 bits: blanks, a sign, a prefix \<^verbatim>\<open>0x\<close> that a
  digit follows, digits.
\<close>

definition strtoul_hex :: "string \<Rightarrow> 32 word" where
  "strtoul_hex s =
     (let t = dropWhile is_space (cstr s);
          neg = (t \<noteq> [] \<and> hd t = CHR ''-'');
          u = (if t \<noteq> [] \<and> (hd t = CHR ''-'' \<or> hd t = CHR ''+'') then tl t else t);
          v = (if length u > 2 \<and> u ! 0 = CHR ''0'' \<and> to_lower (u ! 1) = CHR ''x'' \<and> is_xdigit (u ! 2) then drop 2 u else u);
          n = xdigits_val (takeWhile is_xdigit v)
      in if n > 2 ^ 64 - 1 then - 1 else if neg then - word_of_nat n else word_of_nat n)"

text \<open>The position after the token, or where reading stopped, and the text of the token.\<close>

definition parseHexToken :: "string \<Rightarrow> nat \<Rightarrow> nat \<times> string option" where
  "parseHexToken text pos =
     (let q = skip_space text pos (length text)
      in if q \<ge> length text \<or> text ! q \<noteq> CHR ''<'' then (q, None)
         else case find_idx_from is_gt text q of
           None \<Rightarrow> (q, None)
         | Some e \<Rightarrow> (e + 1, Some (substr text (q + 1) (e - q - 1))))"

lemma parseHexToken_Some:
  assumes "parseHexToken text pos = (p, Some h)"
  shows "pos < p \<and> p \<le> length text"
  using assms by (auto simp: parseHexToken_def Let_def skip_space_def dest!: find_char_from split: if_splits option.splits)

lemma find_from_block:
  assumes "find_from p s i = Some k" "find_from q s (k + a) = Some e"
  shows "i \<le> k \<and> k + a \<le> e \<and> e + length q \<le> length s"
  using find_from_Some(1)[OF assms(1)] find_from_Some(1,2)[OF assms(2)] by simp

lemma skip_space_le: "p \<le> skip_space t p e"
  by (simp add: skip_space_def)

lemma skip_space_less: "skip_space t p e < q \<Longrightarrow> p < q"
  by (simp add: skip_space_def)

lemma skip_space_decreases: "p < r \<Longrightarrow> p < e \<Longrightarrow> e - skip_space t r e < e - p"
  by (simp add: skip_space_def)

function char_tokens :: "string \<Rightarrow> nat \<Rightarrow> nat \<Rightarrow> code_map \<Rightarrow> code_map" where
  "char_tokens t e p m =
     (if p < e then
        case parseHexToken t p of
          (p1, Some src) \<Rightarrow>
            if p1 < e then
              (case parseHexToken t p1 of
                 (p2, Some dst) \<Rightarrow>
                   char_tokens t e p2 (if length src \<le> 8 \<and> dst \<noteq> [] then code_put (strtoul_hex src) dst m else m)
               | (p2, None) \<Rightarrow> m)
            else m
        | (p1, None) \<Rightarrow> m
      else m)"
  by pat_completeness auto
termination
  by (relation "measure (\<lambda>(t, e, p, m). e - p)") (auto dest!: parseHexToken_Some[OF sym])

declare char_tokens.simps [simp del]

function existing_chars :: "string \<Rightarrow> nat \<Rightarrow> code_map \<Rightarrow> code_map" where
  "existing_chars t pos m =
     (case find_from ''beginbfchar'' t pos of
        None \<Rightarrow> m
      | Some k \<Rightarrow>
          (case find_from ''endbfchar'' t (k + 11) of
             None \<Rightarrow> m
           | Some e \<Rightarrow> existing_chars t (e + 9) (char_tokens t e (k + 11) m)))"
  by pat_completeness auto
termination
  by (relation "measure (\<lambda>(t, pos, m). length t - pos)") (auto dest!: find_from_block[where p = "''beginbfchar''" and q = "''endbfchar''" and a = 11])

declare existing_chars.simps [simp del]

text \<open>The loop over the array of a range: the position where it stops and the map.\<close>

function array_tokens :: "string \<Rightarrow> nat \<Rightarrow> 32 word \<Rightarrow> 32 word \<Rightarrow> nat \<Rightarrow> code_map \<Rightarrow> nat \<times> code_map" where
  "array_tokens t e hi c p m =
     (if c \<le> hi \<and> p < e then
        case parseHexToken t p of
          (p1, None) \<Rightarrow> (p1, m)
        | (p1, Some dst) \<Rightarrow> array_tokens t e hi (c + 1) (skip_space t p1 e) (code_put c dst m)
      else (p, m))"
  by pat_completeness auto
termination
proof (relation "measure (\<lambda>(t, e, hi, c, p, m). e - p)", goal_cases)
  case (2 t e hi c p m y z dst)
  with parseHexToken_Some[of t p y dst] skip_space_le[of y t e] show ?case by auto
qed simp

declare array_tokens.simps [simp del]

partial_function (option) counted_range ::
    "string \<Rightarrow> 32 word \<Rightarrow> 32 word \<Rightarrow> 32 word \<Rightarrow> code_map \<Rightarrow> code_map option" where
  "counted_range dst lo hi c m =
     (if c \<le> hi then
        counted_range dst lo hi (c + 1)
          (code_put c (if length dst \<le> 4 then utf16Hex (strtoul_hex dst + (c - lo)) else dst) m)
      else Some m)"

lemma array_tokens_ge: "p \<le> fst (array_tokens t e hi c p m)"
proof (induction t e hi c p m rule: array_tokens.induct)
  case (1 t e hi c p m)
  show ?case
  proof (cases "c \<le> hi \<and> p < e")
    case True
    obtain p1 h where h: "parseHexToken t p = (p1, h)" by (cases "parseHexToken t p")
    show ?thesis
    proof (cases h)
      case None
      with h have "p \<le> p1" using skip_space_le[of p t] by (auto simp: parseHexToken_def Let_def split: if_splits option.splits)
      with True h None show ?thesis by (simp add: array_tokens.simps[of t e hi c p m])
    next
      case (Some d)
      with parseHexToken_Some[of t p p1 d] skip_space_le[of p1 t e] 1[OF True, of p1 h d] h True show ?thesis
        by (simp add: array_tokens.simps[of t e hi c p m])
    qed
  next
    case False
    then show ?thesis by (subst array_tokens.simps) auto
  qed
qed

lemma array_tokens_after:
  assumes "(r, m') = array_tokens t e hi c (Suc (skip_space t p e)) m"
  shows "p < r"
proof -
  have "fst (array_tokens t e hi c (Suc (skip_space t p e)) m) = r" by (simp only: assms[symmetric] fst_conv)
  with array_tokens_ge[of "Suc (skip_space t p e)" t e hi c m] skip_space_le[of p t e] show ?thesis by simp
qed

function range_tokens :: "string \<Rightarrow> nat \<Rightarrow> nat \<Rightarrow> code_map \<Rightarrow> code_map option" where
  "range_tokens t e p m =
     (if p < e then
        case parseHexToken t p of
          (p1, None) \<Rightarrow> Some m
        | (p1, Some lo) \<Rightarrow>
            (case parseHexToken t p1 of
               (p2, None) \<Rightarrow> Some m
             | (p2, Some hi) \<Rightarrow>
                 (let q = skip_space t p2 e; loV = strtoul_hex lo; hiV = strtoul_hex hi
                  in if hiV < loV \<or> unat (hiV - loV) > 65535 then Some m
                     else if q < e \<and> t ! q = CHR ''['' then
                       (let (r, m') = array_tokens t e hiV loV (q + 1) m;
                            r' = (if r < e \<and> t ! r = CHR '']'' then r + 1 else r)
                        in range_tokens t e (skip_space t r' e) m')
                     else
                       (case parseHexToken t q of
                          (p3, None) \<Rightarrow> Some m
                        | (p3, Some dst) \<Rightarrow>
                            (case counted_range dst loV hiV loV m of
                               None \<Rightarrow> None
                             | Some m' \<Rightarrow> range_tokens t e (skip_space t p3 e) m'))))
      else Some m)"
  by pat_completeness auto
termination
  by (relation "measure (\<lambda>(t, e, p, m). e - p)")
    (auto dest!: parseHexToken_Some[OF sym] array_tokens_after skip_space_less intro!: skip_space_decreases)

declare range_tokens.simps [simp del]

function existing_ranges :: "string \<Rightarrow> nat \<Rightarrow> code_map \<Rightarrow> code_map option" where
  "existing_ranges t pos m =
     (case find_from ''beginbfrange'' t pos of
        None \<Rightarrow> Some m
      | Some k \<Rightarrow>
          (case find_from ''endbfrange'' t (k + 12) of
             None \<Rightarrow> Some m
           | Some e \<Rightarrow>
               (case range_tokens t e (k + 12) m of None \<Rightarrow> None | Some m' \<Rightarrow> existing_ranges t (e + 10) m')))"
  by pat_completeness auto
termination
  by (relation "measure (\<lambda>(t, pos, m). length t - pos)") (auto dest!: find_from_block[where p = "''beginbfrange''" and q = "''endbfrange''" and a = 12])

declare existing_ranges.simps [simp del]

definition parseExistingToUnicode :: "string option \<Rightarrow> code_map option" where
  "parseExistingToUnicode tu =
     (case tu of None \<Rightarrow> Some [] | Some text \<Rightarrow> existing_ranges text 0 (existing_chars text 0 []))"

section \<open>Writing a map\<close>

definition bfchar_line :: "bool \<Rightarrow> 32 word \<times> string \<Rightarrow> string" where
  "bfchar_line twoByte en =
     CHR ''<'' # fmt_X (if twoByte then 4 else 2) (unat (fst en)) @ ''> <'' @ snd en @ ''>'' @ nl"

function bfchar_blocks :: "bool \<Rightarrow> code_map \<Rightarrow> string" where
  "bfchar_blocks twoByte flat =
     (if flat = [] then []
      else let n = min 100 (length flat)
           in nat_str n @ '' beginbfchar'' @ nl @ concat (map (bfchar_line twoByte) (take n flat)) @ ''endbfchar'' @ nl @
              bfchar_blocks twoByte (drop n flat))"
  by pat_completeness auto
termination
  by (relation "measure (\<lambda>(b, flat). length flat)") auto

declare bfchar_blocks.simps [simp del]

definition cmap_head :: "bool \<Rightarrow> string" where
  "cmap_head twoByte =
     ''/CIDInit /ProcSet findresource begin'' @ nl @ ''12 dict begin'' @ nl @ ''begincmap'' @ nl @
     ''/CIDSystemInfo << /Registry (Adobe) /Ordering (UCS) /Supplement 0 >> def'' @ nl @
     ''/CMapName /Adobe-Identity-UCS def'' @ nl @ ''/CMapType 2 def'' @ nl @
     ''1 begincodespacerange'' @ nl @ (if twoByte then ''<0000> <FFFF>'' else ''<00> <FF>'') @ nl @ ''endcodespacerange'' @ nl"

definition cmap_tail :: string where
  "cmap_tail = ''endcmap'' @ nl @ ''CMapName currentdict /CMap defineresource pop'' @ nl @ ''end'' @ nl @ ''end'' @ nl"

definition buildCMapStream :: "code_map \<Rightarrow> bool \<Rightarrow> string" where
  "buildCMapStream entries twoByte = cmap_head twoByte @ bfchar_blocks twoByte entries @ cmap_tail"

section \<open>Completing a map\<close>

text \<open>An entry that is kept.\<close>

definition has_text :: "code_map \<Rightarrow> 32 word \<Rightarrow> bool" where
  "has_text m c \<longleftrightarrow> (case map_of m c of Some h \<Rightarrow> h \<noteq> [] \<and> h \<noteq> ''0000'' | None \<Rightarrow> False)"

definition simple_uni :: "nat \<Rightarrow> 32 word \<Rightarrow> 32 word" where
  "simple_uni code uni =
     (if uni \<ge> 0xE000 \<and> uni \<le> 0xF8FF then
        (let win = winAnsiToUnicode (uint (uni AND 0xFF)); byCode = winAnsiToUnicode (int code)
         in if uni AND 0xFF00 = 0xF000 \<and> win \<noteq> 0 then word_of_nat win
            else if byCode \<noteq> 0 then word_of_nat byCode else uni)
      else uni)"

text \<open>
  The loop over the codes of a font: an entry with text is kept; for another code there is a new
  text, or none. The result has the number of codes added.
\<close>

definition complete_step :: "(nat \<Rightarrow> string option) \<Rightarrow> nat \<Rightarrow> code_map \<times> nat \<Rightarrow> code_map \<times> nat" where
  "complete_step new code st =
     (if has_text (fst st) (word_of_nat code) then st
      else case new code of
        None \<Rightarrow> st
      | Some h \<Rightarrow> (code_put (word_of_nat code) h (fst st), snd st + 1))"

definition complete_map :: "(nat \<Rightarrow> string option) \<Rightarrow> nat \<Rightarrow> code_map \<Rightarrow> code_map \<times> nat" where
  "complete_map new n entries = fold (complete_step new) [0..<n] (entries, 0)"

definition simple_text :: "(nat \<Rightarrow> 32 word) \<Rightarrow> nat \<Rightarrow> string option" where
  "simple_text derive code = Some (utf16Hex (simple_uni code (derive code)))"

text \<open>
  The data of the new map, or the inner \<open>None\<close> when the font keeps the one it has; the outer one
  is a reader that does not return. \<open>derive\<close> is \<^verbatim>\<open>deriveSimpleUnicode\<close> for the font.
\<close>

definition ensureSimpleToUnicode :: "(nat \<Rightarrow> 32 word) \<Rightarrow> string option \<Rightarrow> string option option" where
  "ensureSimpleToUnicode derive tu =
     (case parseExistingToUnicode tu of
        None \<Rightarrow> None
      | Some entries \<Rightarrow>
          (let (m, added) = complete_map (simple_text derive) 256 entries
           in Some (if added = 0 then None else Some (buildCMapStream m False))))"

text \<open>
  For a composite font: \<open>mapData\<close> is its \<^verbatim>\<open>/CIDToGIDMap\<close>, \<open>glyphs\<close> the number of glyphs of
  the font program where it loads, \<open>gidToUni\<close> its reversed character map.
\<close>

definition cid_glyph :: "string \<Rightarrow> nat \<Rightarrow> nat" where
  "cid_glyph mapData cid =
     (if mapData \<noteq> [] then 256 * ord (mapData ! (cid * 2)) + ord (mapData ! (cid * 2 + 1)) else cid)"

definition cid_uni :: "(nat \<rightharpoonup> 32 word) \<Rightarrow> nat \<Rightarrow> nat \<Rightarrow> 32 word" where
  "cid_uni gidToUni gid cid =
     (case (if gid = 0 then None else gidToUni gid) of
        Some uni \<Rightarrow>
          if uni \<ge> 0xE000 \<and> uni \<le> 0xF8FF then
            (let win = (if uni AND 0xFF00 = 0xF000 then winAnsiToUnicode (uint (uni AND 0xFF)) else 0)
             in if win \<noteq> 0 then word_of_nat win else 0xFFFD)
          else uni
      | None \<Rightarrow>
          if cid \<ge> 0x20 \<and> cid \<le> 0x10FFFF \<and> \<not> (cid \<ge> 0xD800 \<and> cid \<le> 0xDFFF) then word_of_nat cid else 0xFFFD)"

definition cid_text :: "(nat \<rightharpoonup> 32 word) \<Rightarrow> nat option \<Rightarrow> string \<Rightarrow> nat \<Rightarrow> string option" where
  "cid_text gidToUni glyphs mapData cid =
     (let gid = cid_glyph mapData cid
      in if gid = 0 \<and> cid \<noteq> 0 then None
         else if (case glyphs of Some n \<Rightarrow> gid \<ge> n | None \<Rightarrow> False) then None
         else Some (utf16Hex (cid_uni gidToUni gid cid)))"

definition num_cids :: "nat option \<Rightarrow> string \<Rightarrow> nat" where
  "num_cids glyphs mapData =
     min 65536 (if mapData \<noteq> [] then length mapData div 2 else case glyphs of Some n \<Rightarrow> n | None \<Rightarrow> 65536)"

definition ensureCidToUnicode ::
    "(nat \<rightharpoonup> 32 word) \<Rightarrow> nat option \<Rightarrow> string \<Rightarrow> string option \<Rightarrow> string option option" where
  "ensureCidToUnicode gidToUni glyphs mapData tu =
     (case parseExistingToUnicode tu of
        None \<Rightarrow> None
      | Some entries \<Rightarrow>
          (let (m, added) = complete_map (cid_text gidToUni glyphs mapData) (num_cids glyphs mapData) entries
           in Some (if added = 0 then None else Some (buildCMapStream m True))))"

section \<open>Digits\<close>

lemma xdigit_hex_upper: "d < 16 \<Longrightarrow> is_xdigit (hex_upper d)"
  by (auto simp: hex_upper_def is_xdigit_def is_digit_def ord_chr)

lemma hex_min_xdigits: "list_all is_xdigit (hex_min n)"
proof (induction n rule: hex_min.induct)
  case (1 n)
  then show ?case by (subst hex_min.simps) (simp add: xdigit_hex_upper)
qed

lemma xdigits_val_snoc: "xdigits_val (s @ [c]) = 16 * xdigits_val s + xdigit_val c"
  by (simp add: xdigits_val_def)

lemma xdigits_val_hex_min: "xdigits_val (hex_min n) = n"
proof (induction n rule: hex_min.induct)
  case (1 n)
  show ?case
  proof (cases "n < 16")
    case True
    then show ?thesis by (subst hex_min.simps) (simp add: xdigits_val_def xdigit_val_hex_upper)
  next
    case False
    with 1 show ?thesis by (subst hex_min.simps) (simp add: xdigits_val_snoc xdigit_val_hex_upper)
  qed
qed

lemma xdigits_val_zeros: "xdigits_val (replicate k (CHR ''0'') @ s) = xdigits_val s"
  by (induction k) (simp_all add: xdigits_val_def xdigit_val_def is_digit_def)

lemma fmt_X_xdigits: "list_all is_xdigit (fmt_X w n)"
  by (auto simp: fmt_X_def hex_min_xdigits list_all_iff is_xdigit_def is_digit_def dest: hex_min_xdigits[of n, unfolded list_all_iff, rule_format])

lemma xdigits_val_fmt_X: "xdigits_val (fmt_X w n) = n"
  by (simp add: fmt_X_def xdigits_val_zeros xdigits_val_hex_min)

lemma length_hex_min: "n < 16 ^ Suc k \<Longrightarrow> length (hex_min n) \<le> Suc k"
proof (induction k arbitrary: n)
  case (Suc k)
  show ?case
  proof (cases "n < 16")
    case False
    from Suc.prems have "n div 16 < 16 ^ Suc k" by (simp add: less_mult_imp_div_less mult.commute)
    from Suc.IH[OF this] False show ?thesis by (subst hex_min.simps) simp
  qed (simp add: hex_min.simps)
qed (simp add: hex_min.simps)

lemma length_fmt_X: "w \<le> 8 \<Longrightarrow> length (fmt_X w (unat (c :: 32 word))) \<le> 8"
proof -
  have "unat c < 2 ^ 32" using unsigned_less[of c] by simp
  then have "unat c < 16 ^ Suc 7" by simp
  from length_hex_min[OF this] show "w \<le> 8 \<Longrightarrow> ?thesis" by (simp add: fmt_X_def)
qed

lemma hex_digits_zeros: "hex_digits_upper k 0 = replicate k (CHR ''0'')"
  by (induction k) (simp_all add: replicate_append_same[symmetric] hex_upper_def ord_eq_iff)

lemma hex_digits_fmt_X:
  assumes "0 < w" "n < 16 ^ w"
  shows "hex_digits_upper w n = fmt_X w n"
  using assms
proof (induction w arbitrary: n)
  case (Suc w)
  show ?case
  proof (cases "n < 16")
    case True
    then show ?thesis by (simp add: fmt_X_def hex_min.simps[of n] hex_digits_zeros)
  next
    case False
    with Suc.prems(2) have "0 < w" by (cases w) simp_all
    moreover have "n div 16 < 16 ^ w" using Suc.prems(2) by (simp add: less_mult_imp_div_less mult.commute)
    ultimately have "hex_digits_upper w (n div 16) = fmt_X w (n div 16)" by (rule Suc.IH)
    with False show ?thesis by (simp add: fmt_X_def hex_min.simps[of n])
  qed
qed simp

lemma no_prefix_0x: "list_all is_xdigit s \<Longrightarrow> \<not> (length s > 2 \<and> to_lower (s ! 1) = CHR ''x'')"
proof
  assume s: "list_all is_xdigit s" and h: "length s > 2 \<and> to_lower (s ! 1) = CHR ''x''"
  then have "is_xdigit (s ! 1)" by (simp add: list_all_length)
  moreover from h have "ord (to_lower (s ! 1)) = 120" by simp
  ultimately show False by (auto simp: to_lower_def is_xdigit_def is_digit_def is_upper_def ord_chr split: if_splits)
qed

lemma xdigit_plain: "is_xdigit c \<Longrightarrow> \<not> is_space c \<and> c \<noteq> CHR ''-'' \<and> c \<noteq> CHR ''+'' \<and> c \<noteq> CHR 0x00 \<and> c \<noteq> CHR ''<'' \<and> c \<noteq> CHR ''>'' \<and> c \<noteq> CHR ''n'' \<and> c \<noteq> CHR ''r''"
  by (auto simp: is_xdigit_def is_digit_def is_space_def)

lemma strtoul_hex_digits:
  assumes "list_all is_xdigit s"
  shows "strtoul_hex s = word_of_nat (min (xdigits_val s) (2 ^ 64 - 1))"
proof -
  have all: "c \<in> set s \<Longrightarrow> is_xdigit c" for c using assms by (simp add: list_all_iff)
  have c: "cstr s = s" unfolding cstr_def using all xdigit_plain by (intro takeWhile_eq_all_conv[THEN iffD2]) blast
  have d: "dropWhile is_space s = s" using all xdigit_plain by (cases s) auto
  have h: "s \<noteq> [] \<Longrightarrow> hd s \<noteq> CHR ''-'' \<and> hd s \<noteq> CHR ''+''" using all xdigit_plain by (cases s) auto
  have t: "takeWhile is_xdigit s = s" using all by (simp add: takeWhile_eq_all_conv)
  have m: "(word_of_nat (2 ^ 64 - 1) :: 32 word) = - 1" by simp
  show ?thesis
  proof (cases "xdigits_val s \<le> 2 ^ 64 - 1")
    case True
    then show ?thesis using no_prefix_0x[OF assms] h by (auto simp: strtoul_hex_def c d t Let_def)
  next
    case False
    then have "min (xdigits_val s) (2 ^ 64 - 1) = 2 ^ 64 - 1" by simp
    with False no_prefix_0x[OF assms] h show ?thesis by (auto simp: strtoul_hex_def c d t Let_def m)
  qed
qed

lemma strtoul_fmt_X:
  "strtoul16 (fmt_X w (unat c)) = c" "strtoul_hex (fmt_X w (unat c)) = c"
proof -
  have "unat c < 2 ^ 32" using unsigned_less[of c] by simp
  then have "min (unat c) (2 ^ 64 - 1) = unat c" by simp
  then show "strtoul16 (fmt_X w (unat c)) = c" "strtoul_hex (fmt_X w (unat c)) = c"
    by (simp_all add: strtoul16_def strtoul_hex_digits fmt_X_xdigits xdigits_val_fmt_X)
qed

section \<open>Searching the written text\<close>

lemma find_str_second:
  assumes "c1 \<notin> set (tl mid)" "c1 \<noteq> c0"
  shows "find_str (c0 # c1 # ps) (mid @ c0 # c1 # ps @ rest) = Some (length mid)"
  using assms
proof (induction mid)
  case (Cons x mid)
  have "take (length (c0 # c1 # ps)) (x # mid @ c0 # c1 # ps @ rest) \<noteq> c0 # c1 # ps"
    using Cons.prems by (cases mid) auto
  moreover have "c1 \<notin> set (tl mid)" using Cons.prems by (cases mid) auto
  ultimately show ?case using Cons.IH Cons.prems by simp
qed simp

lemma find_from_append: "find_from p (pre @ s) (length pre) = map_option ((+) (length pre)) (find_str p s)"
  by (simp add: find_from_def)

lemma find_idx_skips: "list_all (\<lambda>c. \<not> f c) mid \<Longrightarrow> find_idx f (mid @ s) = map_option ((+) (length mid)) (find_idx f s)"
  by (cases "find_idx f s"; induction mid) simp_all

lemma find_idx_from_append:
  "list_all (\<lambda>c. \<not> f c) mid \<Longrightarrow> f x \<Longrightarrow> find_idx_from f (pre @ mid @ x # s) (length pre) = Some (length pre + length mid)"
  by (simp add: find_idx_from_def find_idx_skips)

lemma find_idx_from_end:
  "list_all (\<lambda>c. \<not> f c) mid \<Longrightarrow> find_idx_from f (pre @ mid @ rest) (length pre) = Some k \<Longrightarrow> length pre + length mid \<le> k"
  by (auto simp: find_idx_from_def find_idx_skips)

text \<open>A word with two letters side by side is not in a text without that pair.\<close>

lemma find_str_no_pair:
  assumes "successively (\<lambda>a b. \<not> (a = x \<and> b = y)) s" "p = u @ x # y # v"
  shows "find_str p s = None"
proof (rule ccontr)
  assume "find_str p s \<noteq> None"
  then obtain k where k: "find_str p s = Some k" by blast
  note f = find_str_Some[OF k]
  let ?i = "k + length u"
  have len: "Suc ?i < length s" using f assms(2) by simp
  have "take (length p) (drop k s) ! length u = x" "take (length p) (drop k s) ! Suc (length u) = y"
    using f assms(2) by (simp_all add: nth_append)
  then have "s ! ?i = x" "s ! Suc ?i = y" using len assms(2) by simp_all
  with assms(1) len show False by (auto simp: successively_conv_nth)
qed

lemma hexes_step:
  assumes "list_all (\<lambda>c. \<not> is_lt c) mid" "list_all (\<lambda>c. \<not> is_gt c) h" "length pre + length mid + length h + 2 \<le> e"
  shows "hexes (pre @ mid @ CHR ''<'' # h @ CHR ''>'' # rest) (length pre) e =
    (length pre + length mid, filter is_xdigit h) #
      hexes (pre @ mid @ CHR ''<'' # h @ CHR ''>'' # rest) (length pre + length mid + length h + 2) e"
proof -
  let ?t = "pre @ mid @ CHR ''<'' # h @ CHR ''>'' # rest"
  have a: "find_idx_from is_lt ?t (length pre) = Some (length pre + length mid)"
    using assms(1) by (intro find_idx_from_append) (simp_all add: is_lt_def)
  have "find_idx_from is_gt ((pre @ mid) @ (CHR ''<'' # h) @ CHR ''>'' # rest) (length (pre @ mid)) =
      Some (length (pre @ mid) + length (CHR ''<'' # h))"
    using assms(2) by (intro find_idx_from_append) (simp_all add: is_gt_def)
  then have b: "find_idx_from is_gt ?t (length pre + length mid) = Some (length pre + length mid + length h + 1)" by simp
  have "substr ?t (length pre + length mid + 1) (length h) = h"
    using arg_cong[of "pre @ mid @ [CHR ''<''] @ h @ CHR ''>'' # rest" ?t "\<lambda>t. take (length h) (drop (length pre + length mid + 1) t)"]
    by (simp add: substr_def)
  with a b assms(3) show ?thesis by (subst hexes.simps) (simp add: algebra_simps)
qed

lemma hexes_end:
  assumes "list_all (\<lambda>c. \<not> is_lt c) mid"
  shows "hexes (pre @ mid @ rest) (length pre) (length pre + length mid) = []"
  using find_idx_from_end[OF assms, of pre rest] by (subst hexes.simps) (auto split: option.splits)

lemma takeWhile_spaces: "list_all is_space mid \<Longrightarrow> \<not> is_space c \<Longrightarrow> takeWhile is_space (mid @ c # s) = mid"
  by (induction mid) simp_all

lemma parseHexToken_step:
  assumes "list_all is_space mid" "list_all (\<lambda>c. \<not> is_gt c) h"
  shows "parseHexToken (pre @ mid @ CHR ''<'' # h @ CHR ''>'' # rest) (length pre) =
    (length pre + length mid + length h + 2, Some h)"
proof -
  let ?t = "pre @ mid @ CHR ''<'' # h @ CHR ''>'' # rest"
  have q: "skip_space ?t (length pre) (length ?t) = length pre + length mid"
    using takeWhile_spaces[OF assms(1), of "CHR ''<''"] by (simp add: skip_space_def substr_def is_space_def)
  have "find_idx_from is_gt ((pre @ mid) @ (CHR ''<'' # h) @ CHR ''>'' # rest) (length (pre @ mid)) =
      Some (length (pre @ mid) + length (CHR ''<'' # h))"
    using assms(2) by (intro find_idx_from_append) (simp_all add: is_gt_def)
  then have b: "find_idx_from is_gt ?t (length pre + length mid) = Some (length pre + length mid + length h + 1)" by simp
  have "substr ?t (length pre + length mid + 1) (length h) = h"
    using arg_cong[of "pre @ mid @ [CHR ''<''] @ h @ CHR ''>'' # rest" ?t "\<lambda>t. take (length h) (drop (length pre + length mid + 1) t)"]
    by (simp add: substr_def)
  with b show ?thesis unfolding parseHexToken_def q by (simp add: nth_append)
qed

lemma parseHexToken_stop:
  assumes "list_all is_space mid" "\<not> is_space c" "c \<noteq> CHR ''<''"
  shows "parseHexToken (pre @ mid @ c # rest) (length pre) = (length pre + length mid, None)"
proof -
  let ?t = "pre @ mid @ c # rest"
  have q: "skip_space ?t (length pre) (length ?t) = length pre + length mid"
    using takeWhile_spaces[OF assms(1,2)] by (simp add: skip_space_def substr_def)
  show ?thesis unfolding parseHexToken_def q using assms(3) by (simp add: nth_append)
qed

section \<open>A written map is read back\<close>

definition code_ordered :: "code_map \<Rightarrow> bool" where
  "code_ordered m \<longleftrightarrow> sorted_wrt (<) (map fst m)"

definition hex_map :: "code_map \<Rightarrow> bool" where
  "hex_map m \<longleftrightarrow> list_all (\<lambda>en. snd en \<noteq> [] \<and> list_all is_xdigit (snd en)) m"

lemma xdigits_no_brackets: "list_all is_xdigit h \<Longrightarrow> list_all (\<lambda>c. \<not> is_gt c) h"
  using xdigit_plain by (auto simp: list_all_iff is_gt_def)

lemma fmt_X_no_brackets: "list_all (\<lambda>c. \<not> is_gt c) (fmt_X w n)"
  by (rule xdigits_no_brackets[OF fmt_X_xdigits])

lemma filter_xdigits: "list_all is_xdigit h \<Longrightarrow> filter is_xdigit h = h"
  by (simp add: list_all_iff)

definition code_width :: "bool \<Rightarrow> nat" where
  "code_width b = (if b then 4 else 2)"

lemma bfchar_line_parts:
  "bfchar_line b en = CHR ''<'' # fmt_X (code_width b) (unat (fst en)) @ CHR ''>'' # '' '' @ CHR ''<'' # snd en @ CHR ''>'' # nl"
  by (simp add: bfchar_line_def code_width_def)

abbreviation lines_of :: "bool \<Rightarrow> code_map \<Rightarrow> string" where
  "lines_of b es \<equiv> concat (map (bfchar_line b) es)"

lemma hexes_lines:
  assumes "list_all (\<lambda>c. \<not> is_lt c) mid" "hex_map es"
  shows "map snd (hexes (pre @ mid @ lines_of b es @ rest) (length pre) (length pre + length mid + length (lines_of b es))) =
    concat (map (\<lambda>en. [fmt_X (code_width b) (unat (fst en)), snd en]) es)"
  using assms
proof (induction es arbitrary: pre mid)
  case Nil
  then show ?case by (simp add: hexes_end)
next
  case (Cons en es)
  let ?c = "fmt_X (code_width b) (unat (fst en))" and ?h = "snd en"
  let ?e = "length pre + length mid + length (lines_of b (en # es))"
  let ?t = "pre @ mid @ lines_of b (en # es) @ rest"
  let ?pre1 = "pre @ mid @ CHR ''<'' # ?c @ ''>''" and ?pre2 = "pre @ mid @ CHR ''<'' # ?c @ ''> <'' @ ?h @ ''>''"
  have h: "list_all is_xdigit ?h" "hex_map es" using Cons.prems by (simp_all add: hex_map_def)
  have t: "?t = pre @ mid @ CHR ''<'' # ?c @ CHR ''>'' # ('' '' @ CHR ''<'' # ?h @ CHR ''>'' # nl @ lines_of b es @ rest)"
    "?t = ?pre1 @ '' '' @ CHR ''<'' # ?h @ CHR ''>'' # (nl @ lines_of b es @ rest)"
    "?t = ?pre2 @ nl @ lines_of b es @ rest"
    by (simp_all add: bfchar_line_parts)
  have e: "?e = length ?pre2 + length nl + length (lines_of b es)" "length pre + length mid + length ?c + 2 \<le> ?e"
    "length ?pre1 + length '' '' + length ?h + 2 \<le> ?e" "length ?pre1 = length pre + length mid + length ?c + 2"
    "length ?pre2 = length ?pre1 + length '' '' + length ?h + 2"
    by (simp_all add: bfchar_line_parts)
  have "hexes ?t (length pre) ?e = (length pre + length mid, ?c) # hexes ?t (length ?pre1) ?e"
    using hexes_step[OF Cons.prems(1) fmt_X_no_brackets e(2), of "'' '' @ CHR ''<'' # ?h @ CHR ''>'' # nl @ lines_of b es @ rest"]
    by (simp only: t(1)[symmetric] e(4) filter_xdigits[OF fmt_X_xdigits])
  moreover have "hexes ?t (length ?pre1) ?e = (length ?pre1 + length '' '', ?h) # hexes ?t (length ?pre2) ?e"
    using hexes_step[OF _ xdigits_no_brackets[OF h(1)] e(3), of "nl @ lines_of b es @ rest"]
    by (simp only: t(2)[symmetric] e(5) filter_xdigits[OF h(1)]) (simp add: is_lt_def)
  moreover have "map snd (hexes ?t (length ?pre2) ?e) = concat (map (\<lambda>en. [fmt_X (code_width b) (unat (fst en)), snd en]) es)"
    using Cons.IH[OF _ h(2), of nl ?pre2] by (simp only: t(3)[symmetric] e(1)[symmetric]) (simp add: nl_def is_lt_def)
  ultimately show ?case by simp
qed

definition put_text :: "32 word \<times> string \<Rightarrow> uni \<Rightarrow> uni" where
  "put_text en m = m(fst en \<mapsto> utf16beToUtf8 (snd en))"

lemma bfchar_pairs_lines:
  "map snd xs = concat (map (\<lambda>en. [fmt_X w (unat (fst en)), snd en]) es) \<Longrightarrow> bfchar_pairs xs m = fold put_text es m"
proof (induction es arbitrary: xs m)
  case (Cons en es)
  then obtain a b ys where "xs = (a, fmt_X w (unat (fst en))) # (b, snd en) # ys"
    "map snd ys = concat (map (\<lambda>en. [fmt_X w (unat (fst en)), snd en]) es)"
    by (auto simp: map_eq_Cons_conv)
  with Cons.IH[of ys] show ?case by (simp add: strtoul_fmt_X put_text_def[of en m])
qed simp

text \<open>A text after which the search for \<^verbatim>\<open>beginbfchar\<close> goes on, whatever follows.\<close>

definition passed :: "string \<Rightarrow> bool" where
  "passed x \<longleftrightarrow> (\<forall>s. find_str ''beginbfchar'' (x @ s) = map_option ((+) (length x)) (find_str ''beginbfchar'' s))"

lemma map_option_add: "map_option ((+) m) (map_option ((+) n) x) = map_option ((+) (m + n)) x" for m n :: nat
  by (cases x) simp_all

lemma passed_head: "passed (cmap_head b)"
  unfolding passed_def
proof
  fix s
  show "find_str ''beginbfchar'' (cmap_head b @ s) = map_option ((+) (length (cmap_head b))) (find_str ''beginbfchar'' s)"
    by (cases "find_str ''beginbfchar'' s") (simp_all add: cmap_head_def nl_def)
qed

lemma passed_end: "passed (''endbfchar'' @ nl)" "passed nl" "passed []"
  unfolding passed_def by (rule allI, rename_tac s, case_tac "find_str ''beginbfchar'' s", simp_all add: nl_def)+

lemma no_more_blocks: "find_str ''beginbfchar'' cmap_tail = None"
  by (simp add: cmap_tail_def nl_def)

lemma find_begin:
  "passed x \<Longrightarrow> find_from ''beginbfchar'' (pre @ x @ nat_str n @ '' beginbfchar'' @ rest) (length pre) =
    Some (length pre + length x + length (nat_str n) + 1)"
proof -
  assume x: "passed x"
  have "CHR ''e'' \<notin> set (nat_str n @ '' '')" using nat_str_digits[of "CHR ''e''" n] by (auto simp: is_digit_def)
  then have "CHR ''e'' \<notin> set (tl (nat_str n @ '' ''))" by (metis list.set_sel(2) tl_Nil)
  from find_str_second[OF this, of "CHR ''b''" "''ginbfchar''" rest]
  have "find_str ''beginbfchar'' (nat_str n @ '' beginbfchar'' @ rest) = Some (length (nat_str n) + 1)" by simp
  with x show ?thesis by (simp only: find_from_append passed_def) simp
qed

lemma lines_no_n:
  assumes "hex_map es" "c \<in> set (lines_of b es)"
  shows "c \<noteq> CHR ''n'' \<and> c \<noteq> CHR ''r''"
proof -
  from assms(2) obtain en where en: "en \<in> set es" "c \<in> set (bfchar_line b en)" by auto
  with assms(1) have "list_all is_xdigit (snd en)" by (auto simp: hex_map_def list_all_iff)
  with en(2) xdigit_plain fmt_X_xdigits[of "code_width b" "unat (fst en)"] show ?thesis
    by (auto simp: bfchar_line_parts nl_def list_all_iff)
qed

lemma find_end:
  assumes "hex_map es"
  shows "find_from ''endbfchar'' (pre @ nl @ lines_of b es @ ''endbfchar'' @ rest) (length pre) =
    Some (length pre + 1 + length (lines_of b es))"
proof -
  have "CHR ''n'' \<notin> set (tl (nl @ lines_of b es))" using lines_no_n[OF assms] by (auto simp: nl_def)
  from find_str_second[OF this, of "CHR ''e''" "''dbfchar''" rest] show ?thesis by (simp add: find_from_append nl_def)
qed

lemma find_end_after_begin:
  assumes "hex_map es"
  shows "find_from ''endbfchar'' (pre @ ''beginbfchar'' @ nl @ lines_of b es @ ''endbfchar'' @ rest) (length pre) =
    Some (length pre + 12 + length (lines_of b es))"
proof -
  have "find_from ''endbfchar'' ((pre @ ''beginbfchar'') @ nl @ lines_of b es @ ''endbfchar'' @ rest) (length (pre @ ''beginbfchar'')) =
    Some (length (pre @ ''beginbfchar'') + 1 + length (lines_of b es))" by (rule find_end[OF assms])
  then show ?thesis unfolding find_from_append by (simp add: find_from_append)
qed

text \<open>
  The contract of a reader of written blocks: it stops where no block is left, and reads one block
  entry by entry, up to \<open>past\<close> in the word that ends it. The two readers differ in what they
  build and in where they go on.
\<close>

locale block_reader =
  fixes read :: "string \<Rightarrow> nat \<Rightarrow> 'm \<Rightarrow> 'm" and put :: "32 word \<times> string \<Rightarrow> 'm \<Rightarrow> 'm" and past :: string and left :: string
  assumes stop: "find_from ''beginbfchar'' t pos = None \<Longrightarrow> read t pos m = m"
    and block: "passed x \<Longrightarrow> hex_map es \<Longrightarrow> t = pre @ x @ nat_str n @ '' beginbfchar'' @ nl @ lines_of b es @ ''endbfchar'' @ rest \<Longrightarrow>
      read t (length pre) m = read t (length (pre @ x @ nat_str n @ '' beginbfchar'' @ nl @ lines_of b es @ past)) (fold put es m)"
    and word: "past @ left = ''endbfchar'' @ nl"
    and left_passed: "passed left"
begin

lemma blocks:
  assumes "passed x" "hex_map es"
  shows "read (pre @ x @ bfchar_blocks b es @ cmap_tail) (length pre) m = fold put es m"
  using assms
proof (induction b es arbitrary: pre x m rule: bfchar_blocks.induct)
  case (1 b es)
  show ?case
  proof (cases "es = []")
    case True
    with 1(2) have "find_from ''beginbfchar'' (pre @ x @ bfchar_blocks b es @ cmap_tail) (length pre) = None"
      by (simp add: bfchar_blocks.simps find_from_append passed_def no_more_blocks)
    with True stop show ?thesis by simp
  next
    case False
    define n where "n = min 100 (length es)"
    let ?pre = "pre @ x @ nat_str n @ '' beginbfchar'' @ nl @ lines_of b (take n es) @ past"
    let ?rest = "bfchar_blocks b (drop n es) @ cmap_tail"
    have hm: "hex_map (take n es)" "hex_map (drop n es)"
      using 1(3) by (auto simp: hex_map_def list_all_iff dest: in_set_takeD in_set_dropD)
    have t: "pre @ x @ bfchar_blocks b es @ cmap_tail =
        pre @ x @ nat_str n @ '' beginbfchar'' @ nl @ lines_of b (take n es) @ ''endbfchar'' @ nl @ ?rest"
      using False by (simp add: bfchar_blocks.simps[of b es] n_def Let_def)
    have "?pre @ left @ ?rest = pre @ x @ nat_str n @ '' beginbfchar'' @ nl @ lines_of b (take n es) @ (past @ left) @ ?rest" by simp
    then have t': "pre @ x @ bfchar_blocks b es @ cmap_tail = ?pre @ left @ ?rest" unfolding t word by simp
    let ?t = "pre @ x @ bfchar_blocks b es @ cmap_tail"
    have "read ?t (length pre) m = read ?t (length ?pre) (fold put (take n es) m)" by (rule block[OF 1(2) hm(1) t])
    also have "\<dots> = fold put (drop n es) (fold put (take n es) m)"
      unfolding t' by (rule 1(1)[OF False n_def left_passed hm(2)])
    also have "\<dots> = fold put (take n es @ drop n es) m" by (simp only: fold_append o_apply)
    finally show ?thesis by simp
  qed
qed

end

lemma bfchars_block:
  assumes "passed x" "hex_map es" "t = pre @ x @ nat_str n @ '' beginbfchar'' @ nl @ lines_of b es @ ''endbfchar'' @ rest"
  shows "bfchars t (length pre) m =
    bfchars t (length (pre @ x @ nat_str n @ '' beginbfchar'' @ nl @ lines_of b es @ [])) (fold put_text es m)"
proof -
  let ?pre1 = "pre @ x @ nat_str n @ '' ''" and ?pre2 = "pre @ x @ nat_str n @ '' beginbfchar'' @ nl @ lines_of b es"
  have t: "t = ?pre1 @ ''beginbfchar'' @ nl @ lines_of b es @ ''endbfchar'' @ rest"
    "t = ?pre1 @ (''beginbfchar'' @ nl) @ lines_of b es @ ''endbfchar'' @ rest"
    by (simp_all add: assms(3))
  have k: "find_from ''beginbfchar'' t (length pre) = Some (length ?pre1)"
    unfolding assms(3) find_begin[OF assms(1)] by simp
  have e: "find_from ''endbfchar'' t (length ?pre1) = Some (length ?pre2)"
    unfolding t(1) find_end_after_begin[OF assms(2)] by (simp add: nl_def)
  have "map snd (hexes t (length ?pre1) (length ?pre1 + length (''beginbfchar'' @ nl) + length (lines_of b es))) =
      concat (map (\<lambda>en. [fmt_X (code_width b) (unat (fst en)), snd en]) es)"
    unfolding t(2) by (rule hexes_lines[OF _ assms(2)]) (simp add: nl_def is_lt_def)
  then have p: "bfchar_pairs (hexes t (length ?pre1) (length ?pre2)) m = fold put_text es m"
    by (intro bfchar_pairs_lines[where w = "code_width b"]) (simp add: nl_def add.assoc)
  have "bfchars t (length pre) m = bfchars t (length ?pre2) (fold put_text es m)"
    by (subst bfchars.simps) (simp only: k e p option.case)
  then show ?thesis by simp
qed

interpretation tx: block_reader bfchars put_text "[]" "''endbfchar'' @ nl"
proof (unfold_locales, goal_cases)
  case (1 t pos m)
  then show ?case by (simp add: bfchars.simps[of t pos])
next
  case 2
  then show ?case by (rule bfchars_block)
qed (simp, rule passed_end(1))

abbreviation no_fr :: "string \<Rightarrow> bool" where
  "no_fr s \<equiv> successively (\<lambda>a b. \<not> (a = CHR ''f'' \<and> b = CHR ''r'')) s"

lemma no_fr_append: "no_fr s \<Longrightarrow> no_fr t \<Longrightarrow> t = [] \<or> hd t \<noteq> CHR ''r'' \<Longrightarrow> no_fr (s @ t)"
  by (auto simp: successively_append_iff)

lemma no_fr_no_r: "CHR ''r'' \<notin> set s \<Longrightarrow> no_fr s"
proof (induction s)
  case (Cons a s)
  then show ?case by (cases s) auto
qed simp

lemma blocks_no_fr:
  assumes "hex_map es"
  shows "no_fr (bfchar_blocks b es @ cmap_tail)"
  using assms
proof (induction b es rule: bfchar_blocks.induct)
  case (1 b es)
  have tail: "no_fr cmap_tail" by (simp add: cmap_tail_def nl_def)
  show ?case
  proof (cases "es = []")
    case True
    with tail show ?thesis by (simp add: bfchar_blocks.simps)
  next
    case False
    define n where "n = min 100 (length es)"
    have hm: "hex_map (take n es)" "hex_map (drop n es)"
      using 1(2) by (auto simp: hex_map_def list_all_iff dest: in_set_takeD in_set_dropD)
    let ?r = "bfchar_blocks b (drop n es) @ cmap_tail"
    have hd_r: "hd ?r \<noteq> CHR ''r''"
    proof (cases "drop n es = []")
      case True
      then show ?thesis by (simp add: bfchar_blocks.simps cmap_tail_def)
    next
      case False
      obtain c s where c: "nat_str (min 100 (length (drop n es))) = c # s" by (metis list.exhaust nat_str_nonempty)
      with nat_str_digits[of c "min 100 (length (drop n es))"] have "c \<noteq> CHR ''r''" by (auto simp: is_digit_def)
      with c False show ?thesis by (subst bfchar_blocks.simps) (simp add: Let_def)
    qed
    have "no_fr (''endbfchar'' @ nl @ ?r)"
      using 1(1)[OF False n_def hm(2)] hd_r by (simp add: nl_def successively_Cons)
    moreover have "CHR ''r'' \<notin> set (lines_of b (take n es))" using lines_no_n[OF hm(1)] by blast
    then have "no_fr (nl @ lines_of b (take n es))" by (intro no_fr_no_r) (simp add: nl_def)
    ultimately have "no_fr ((nl @ lines_of b (take n es)) @ ''endbfchar'' @ nl @ ?r)" using no_fr_append by fastforce
    then have x: "no_fr ('' beginbfchar'' @ nl @ lines_of b (take n es) @ ''endbfchar'' @ nl @ ?r)"
      by (simp add: nl_def)
    have "CHR ''r'' \<notin> set (nat_str n)" using nat_str_digits[of "CHR ''r''" n] by (auto simp: is_digit_def)
    from no_fr_append[OF no_fr_no_r[OF this] x]
    show ?thesis using False by (simp add: bfchar_blocks.simps[of b es] n_def[symmetric])
  qed
qed

lemma build_no_ranges:
  assumes "hex_map es"
  shows "find_from ''beginbfrange'' (buildCMapStream es b) 0 = None"
proof -
  have "no_fr (cmap_head b @ bfchar_blocks b es @ cmap_tail)"
  proof (rule no_fr_append[OF _ blocks_no_fr[OF assms]])
    show "no_fr (cmap_head b)" by (simp add: cmap_head_def nl_def)
    show "bfchar_blocks b es @ cmap_tail = [] \<or> hd (bfchar_blocks b es @ cmap_tail) \<noteq> CHR ''r''"
    proof (cases "es = []")
      case True
      then show ?thesis by (simp add: bfchar_blocks.simps cmap_tail_def)
    next
      case False
      obtain c s where c: "nat_str (min 100 (length es)) = c # s" by (metis list.exhaust nat_str_nonempty)
      with nat_str_digits[of c "min 100 (length es)"] have "c \<noteq> CHR ''r''" by (auto simp: is_digit_def)
      with c False show ?thesis by (subst bfchar_blocks.simps, subst (2) bfchar_blocks.simps) (simp add: Let_def)
    qed
  qed
  from find_str_no_pair[OF this, of "''beginbfrange''" "''beginb''" "''ange''"] show ?thesis
    by (simp add: find_from_def buildCMapStream_def)
qed

lemma fold_put_text:
  "distinct (map fst es) \<Longrightarrow> fold put_text es m = m ++ (\<lambda>c. map_option utf16beToUtf8 (map_of es c))"
proof (induction es arbitrary: m)
  case (Cons en es)
  then have "map_of es (fst en) = None" by (auto simp: map_of_eq_None_iff)
  with Cons show ?case by (auto simp: put_text_def[of en] fun_eq_iff map_add_def split: option.splits)
qed (simp add: map_add_def)

lemma code_ordered_distinct: "code_ordered es \<Longrightarrow> distinct (map fst es)"
  by (simp add: code_ordered_def strict_sorted_iff)

lemma written_map_reads:
  assumes "code_ordered es" "hex_map es"
  shows "parseToUnicode (Some (buildCMapStream es b)) fi =
    Some (fi\<lparr>fi_uni := fi_uni fi ++ (\<lambda>c. map_option utf16beToUtf8 (map_of es c))\<rparr>)"
proof -
  have "bfchars (buildCMapStream es b) 0 m = fold put_text es m" for m
    using tx.blocks[OF passed_head assms(2), of "[]"] by (simp add: buildCMapStream_def)
  moreover have "bfranges (buildCMapStream es b) 0 m = Some m" for m
    by (subst bfranges.simps) (simp add: build_no_ranges[OF assms(2)])
  ultimately show ?thesis
    by (simp add: parseToUnicode_def fold_put_text[OF code_ordered_distinct[OF assms(1)]])
qed

text \<open>
  C36. The ToUnicode map written for a font is read back by the text extraction: every code of the
  map has the text of its entry, every other code has what it had. This holds for maps of any
  size, over the blocks of 100 entries.
\<close>

theorem parseToUnicode_buildCMapStream:
  assumes "code_ordered es" "hex_map es"
  shows "parseToUnicode (Some (buildCMapStream es b)) fi =
    Some (fi\<lparr>fi_uni := fi_uni fi ++ (\<lambda>c. map_option utf16beToUtf8 (map_of es c))\<rparr>)"
  by (rule written_map_reads[OF assms])

theorem parseToUnicode_buildCMapStream_witness:
  "parseToUnicode (Some (buildCMapStream [(1, ''0041''), (2, ''D835DC00'')] True)) sample_font =
    Some (sample_font\<lparr>fi_uni := fi_uni sample_font ++
      (\<lambda>c. map_option utf16beToUtf8 (map_of [(1, ''0041''), (2, ''D835DC00'')] c))\<rparr>)"
  by (rule parseToUnicode_buildCMapStream) (simp_all add: code_ordered_def hex_map_def is_xdigit_def is_digit_def)

definition put_code :: "32 word \<times> string \<Rightarrow> code_map \<Rightarrow> code_map" where
  "put_code en m = code_put (fst en) (snd en) m"

lemma char_tokens_lines:
  assumes "list_all is_space mid" "mid \<noteq> []" "hex_map es"
  shows "char_tokens (pre @ mid @ lines_of b es @ CHR ''e'' # rest) (length pre + length mid + length (lines_of b es)) (length pre) m =
    fold put_code es m"
  using assms
proof (induction es arbitrary: pre mid m)
  case Nil
  then show ?case
    using parseHexToken_stop[OF Nil(1), of "CHR ''e''" pre rest]
    by (subst char_tokens.simps) (simp add: is_space_def)
next
  case (Cons en es)
  let ?c = "fmt_X (code_width b) (unat (fst en))" and ?h = "snd en"
  let ?e = "length pre + length mid + length (lines_of b (en # es))"
  let ?t = "pre @ mid @ lines_of b (en # es) @ CHR ''e'' # rest"
  let ?pre1 = "pre @ mid @ CHR ''<'' # ?c @ ''>''" and ?pre2 = "pre @ mid @ CHR ''<'' # ?c @ ''> <'' @ ?h @ ''>''"
  have h: "list_all is_xdigit ?h" "?h \<noteq> []" "hex_map es" using Cons.prems by (simp_all add: hex_map_def)
  have t: "?t = pre @ mid @ CHR ''<'' # ?c @ CHR ''>'' # ('' '' @ CHR ''<'' # ?h @ CHR ''>'' # nl @ lines_of b es @ CHR ''e'' # rest)"
    "?t = ?pre1 @ '' '' @ CHR ''<'' # ?h @ CHR ''>'' # (nl @ lines_of b es @ CHR ''e'' # rest)"
    "?t = ?pre2 @ nl @ lines_of b es @ CHR ''e'' # rest"
    by (simp_all add: bfchar_line_parts)
  have e: "?e = length ?pre2 + length nl + length (lines_of b es)" "length ?pre1 < ?e" "length pre < ?e"
    by (simp_all add: bfchar_line_parts nl_def)
  have p1: "parseHexToken ?t (length pre) = (length ?pre1, Some ?c)"
    unfolding t(1) parseHexToken_step[OF Cons.prems(1) fmt_X_no_brackets] by simp
  have p2: "parseHexToken ?t (length ?pre1) = (length ?pre2, Some ?h)"
  proof -
    have "list_all is_space '' ''" by (simp add: is_space_def)
    from parseHexToken_step[OF this xdigits_no_brackets[OF h(1)], of ?pre1 "nl @ lines_of b es @ CHR ''e'' # rest"]
    show ?thesis unfolding t(2) by simp
  qed
  have l: "length ?c \<le> 8" by (rule length_fmt_X) (simp add: code_width_def)
  have "char_tokens ?t ?e (length pre) m = char_tokens ?t ?e (length ?pre2) (code_put (fst en) ?h m)"
    by (subst char_tokens.simps)
      (simp only: p1 p2 e(2,3) h(2) l prod.case option.case strtoul_fmt_X if_True simp_thms)
  also have "\<dots> = fold put_code es (code_put (fst en) ?h m)"
    using Cons.IH[OF _ _ h(3), of nl ?pre2] by (simp only: t(3)[symmetric] e(1)[symmetric]) (simp add: nl_def is_space_def)
  finally show ?case by (simp add: put_code_def[of en])
qed

lemma existing_chars_block:
  assumes "passed x" "hex_map es" "t = pre @ x @ nat_str n @ '' beginbfchar'' @ nl @ lines_of b es @ ''endbfchar'' @ rest"
  shows "existing_chars t (length pre) m =
    existing_chars t (length (pre @ x @ nat_str n @ '' beginbfchar'' @ nl @ lines_of b es @ ''endbfchar'')) (fold put_code es m)"
proof -
  let ?pre1 = "pre @ x @ nat_str n @ '' beginbfchar''"
    and ?pre2 = "pre @ x @ nat_str n @ '' beginbfchar'' @ nl @ lines_of b es @ ''endbfchar''"
  have t: "t = ?pre1 @ nl @ lines_of b es @ ''endbfchar'' @ rest" "t = ?pre1 @ nl @ lines_of b es @ CHR ''e'' # (''ndbfchar'' @ rest)"
    by (simp_all add: assms(3))
  have k: "find_from ''beginbfchar'' t (length pre) = Some (length pre + length x + length (nat_str n) + 1)"
    unfolding assms(3) find_begin[OF assms(1)] by simp
  have k': "length pre + length x + length (nat_str n) + 1 + 11 = length ?pre1" by simp
  have e: "find_from ''endbfchar'' t (length ?pre1) = Some (length ?pre1 + length nl + length (lines_of b es))"
    unfolding t(1) find_end[OF assms(2)] by (simp add: nl_def)
  have e': "length ?pre1 + length nl + length (lines_of b es) + 9 = length ?pre2" by simp
  have p: "char_tokens t (length ?pre1 + length nl + length (lines_of b es)) (length ?pre1) m = fold put_code es m"
    unfolding t(2) by (rule char_tokens_lines[OF _ _ assms(2)]) (simp_all add: nl_def is_space_def)
  show ?thesis by (subst existing_chars.simps) (simp only: k k' e e' p option.case)
qed

interpretation fx: block_reader existing_chars put_code "''endbfchar''" nl
proof (unfold_locales, goal_cases)
  case (1 t pos m)
  then show ?case by (simp add: existing_chars.simps[of t pos])
next
  case 2
  then show ?case by (rule existing_chars_block)
qed (simp, rule passed_end(2))

lemma code_put_last: "\<forall>k \<in> fst ` set m. k < c \<Longrightarrow> code_put c h m = m @ [(c, h)]"
  by (induction c h m rule: code_put.induct) auto

lemma fold_put_code: "code_ordered (m @ es) \<Longrightarrow> fold put_code es m = m @ es"
proof (induction es arbitrary: m)
  case (Cons en es)
  then have "\<forall>k \<in> fst ` set m. k < fst en" by (auto simp: code_ordered_def sorted_wrt_append)
  from code_put_last[OF this, of "snd en"] have "put_code en m = m @ [en]" by (simp add: put_code_def)
  with Cons show ?case by simp
qed simp

lemma written_map_kept:
  assumes "code_ordered es" "hex_map es"
  shows "parseExistingToUnicode (Some (buildCMapStream es b)) = Some es"
proof -
  have "existing_chars (buildCMapStream es b) 0 [] = fold put_code es []"
    using fx.blocks[OF passed_head assms(2), of "[]"] by (simp add: buildCMapStream_def)
  moreover have "existing_ranges (buildCMapStream es b) 0 m = Some m" for m
    by (subst existing_ranges.simps) (simp add: build_no_ranges[OF assms(2)])
  ultimately show ?thesis using assms(1) by (simp add: parseExistingToUnicode_def fold_put_code)
qed

section \<open>Maps stay ordered\<close>

lemma map_of_code_put: "map_of (code_put c h m) = (map_of m)(c \<mapsto> h)"
  by (induction c h m rule: code_put.induct) (auto simp: fun_eq_iff)

lemma keys_code_put: "fst ` set (code_put c h m) = insert c (fst ` set m)"
  by (induction c h m rule: code_put.induct) auto

lemma code_ordered_put: "code_ordered m \<Longrightarrow> code_ordered (code_put c h m)"
proof (induction c h m rule: code_put.induct)
  case (2 c h c' h' m)
  then have m: "code_ordered m" "\<forall>x \<in> fst ` set m. c' < x" by (auto simp: code_ordered_def)
  show ?case
  proof (cases "c = c' \<or> c < c'")
    case True
    with m 2(2) show ?thesis by (auto simp: code_ordered_def)
  next
    case False
    then have "c' < c" by auto
    with m have "\<forall>x \<in> fst ` set (code_put c h m). c' < x" by (simp add: keys_code_put)
    with False 2(1) m(1) show ?thesis by (simp add: code_ordered_def)
  qed
qed (simp add: code_ordered_def)

lemma set_code_put: "set (code_put c h m) \<subseteq> insert (c, h) (set m)"
  by (induction c h m rule: code_put.induct) auto

lemma hex_map_put: "hex_map m \<Longrightarrow> h \<noteq> [] \<Longrightarrow> list_all is_xdigit h \<Longrightarrow> hex_map (code_put c h m)"
  using set_code_put[of c h m] unfolding hex_map_def list_all_iff by fastforce

lemma char_tokens_ordered: "code_ordered m \<Longrightarrow> code_ordered (char_tokens t e p m)"
proof (induction t e p m rule: char_tokens.induct)
  case (1 t e p m)
  then show ?case
    by (subst char_tokens.simps) (auto simp: code_ordered_put split: prod.splits option.splits)
qed

lemma existing_chars_ordered: "code_ordered m \<Longrightarrow> code_ordered (existing_chars t pos m)"
proof (induction t pos m rule: existing_chars.induct)
  case (1 t pos m)
  then show ?case by (subst existing_chars.simps) (auto simp: char_tokens_ordered split: option.splits)
qed

lemma array_tokens_ordered: "code_ordered m \<Longrightarrow> code_ordered (snd (array_tokens t e hi c p m))"
proof (induction t e hi c p m rule: array_tokens.induct)
  case (1 t e hi c p m)
  then show ?case by (subst array_tokens.simps) (auto simp: code_ordered_put split: prod.splits option.splits)
qed

lemma counted_range_ordered:
  assumes "counted_range dst lo hi c m = Some m'" "code_ordered m"
  shows "code_ordered m'"
proof -
  have "code_ordered m \<longrightarrow> code_ordered m'"
  proof (rule counted_range.raw_induct[OF _ assms(1), where P = "\<lambda>dst lo hi c m m'. code_ordered m \<longrightarrow> code_ordered m'"])
    fix f dst lo hi c m m'
    assume IH: "\<And>dst lo hi c m y. f dst lo hi c m = Some y \<Longrightarrow> code_ordered m \<longrightarrow> code_ordered y"
      and s: "(if c \<le> hi then f dst lo hi (c + 1) (code_put c (if length dst \<le> 4 then utf16Hex (strtoul_hex dst + (c - lo)) else dst) m)
               else Some m) = Some m'"
    show "code_ordered m \<longrightarrow> code_ordered m'"
    proof (cases "c \<le> hi")
      case True
      with IH s code_ordered_put[of m c] show ?thesis by auto
    qed (use s in simp)
  qed
  with assms(2) show ?thesis by blast
qed

lemma range_tokens_ordered: "range_tokens t e p m = Some m' \<Longrightarrow> code_ordered m \<Longrightarrow> code_ordered m'"
proof (induction t e p m arbitrary: m' rule: range_tokens.induct)
  case (1 t e p m)
  show ?case
  proof (cases "p < e")
    case True
    obtain p1 lo where a: "parseHexToken t p = (p1, lo)" by (cases "parseHexToken t p")
    show ?thesis
    proof (cases lo)
      case None
      with 1(3,4) True a show ?thesis by (simp add: range_tokens.simps[of t e p])
    next
      case (Some lo')
      obtain p2 hi where b: "parseHexToken t p1 = (p2, hi)" by (cases "parseHexToken t p1")
      show ?thesis
      proof (cases hi)
        case None
        with 1(3,4) True a Some b show ?thesis by (simp add: range_tokens.simps[of t e p])
      next
        case (Some hi')
        note IH = 1(1,2)[OF True a[symmetric] \<open>lo = Some lo'\<close> b[symmetric] Some refl refl refl]
        note eq = 1(3)[unfolded range_tokens.simps[of t e p m] a b \<open>lo = Some lo'\<close> Some Let_def prod.case option.case if_P[OF True]]
        let ?lo = "strtoul_hex lo'" and ?hi = "strtoul_hex hi'" and ?q = "skip_space t p2 e"
        consider "?hi < ?lo \<or> unat (?hi - ?lo) > 65535" | (arr) "\<not> (?hi < ?lo \<or> 65535 < unat (?hi - ?lo))" "?q < e \<and> t ! ?q = CHR ''[''"
          | (one) "\<not> (?hi < ?lo \<or> 65535 < unat (?hi - ?lo))" "\<not> (?q < e \<and> t ! ?q = CHR ''['')" by blast
        then show ?thesis
        proof cases
          case arr
          obtain r m1 where r: "array_tokens t e ?hi ?lo (?q + 1) m = (r, m1)" by (cases "array_tokens t e ?hi ?lo (?q + 1) m")
          with array_tokens_ordered[OF 1(4)] have "code_ordered m1" by (metis snd_conv)
          with IH(1)[OF arr r[symmetric] refl refl] eq arr r show ?thesis by simp
        next
          case one
          with eq IH(2)[OF one] counted_range_ordered[OF _ 1(4)] 1(4) show ?thesis by (auto split: prod.splits option.splits)
        qed (use eq 1(4) in simp)
      qed
    qed
  qed (use 1(3,4) in \<open>simp add: range_tokens.simps[of t e p]\<close>)
qed

lemma existing_ranges_ordered: "existing_ranges t pos m = Some m' \<Longrightarrow> code_ordered m \<Longrightarrow> code_ordered m'"
proof (induction t pos m arbitrary: m' rule: existing_ranges.induct)
  case (1 t pos m)
  from 1(2) 1(3) show ?case
    by (subst (asm) existing_ranges.simps) (auto split: option.splits dest: range_tokens_ordered 1(1))
qed

lemma parseExistingToUnicode_ordered: "parseExistingToUnicode tu = Some es \<Longrightarrow> code_ordered es"
  by (auto simp: parseExistingToUnicode_def code_ordered_def[of "[]"] existing_chars_ordered
      split: option.splits dest!: existing_ranges_ordered)

section \<open>Completed maps\<close>

lemma hex_min_nonempty: "hex_min n \<noteq> []"
  by (subst hex_min.simps) simp

lemma utf16Hex_hex: "utf16Hex u \<noteq> [] \<and> list_all is_xdigit (utf16Hex u)"
  by (simp add: utf16Hex_def Let_def fmt_X_xdigits) (simp add: fmt_X_def hex_min_nonempty)

lemma unat_word_of_nat_32: "n < 2 ^ 32 \<Longrightarrow> unat (word_of_nat n :: 32 word) = n"
  by (simp add: unat_of_nat take_bit_nat_eq_self)

lemma word_of_nat_unat_32: "word_of_nat (unat (w :: 32 word)) = w"
  by simp

lemma utf16Hex_units:
  assumes "scalar (unat u)"
  shows "utf16Hex u = utf16_hex [unat u]"
proof (cases "unat u < 0x10000")
  case True
  then have "\<not> u > 0xFFFF" by (simp add: word_less_nat_alt)
  with True show ?thesis by (simp add: utf16Hex_def utf16_hex_def utf16_units_def hex_digits_fmt_X)
next
  case False
  define d where "d = unat u - 0x10000"
  have d: "d < 0x100000" "unat u = 0x10000 + d" using False assms by (auto simp: d_def scalar_def)
  have u: "u > 0xFFFF" using False by (simp add: word_less_nat_alt)
  have "u = word_of_nat (unat u)" by simp
  also have "\<dots> = 0x10000 + word_of_nat d" unfolding d(2) by simp
  finally have v: "u - 0x10000 = word_of_nat d" by simp
  have "unat (drop_bit 10 (word_of_nat d :: 32 word)) = d div 1024"
    using d by (simp only: unat_drop_bit_eq unat_word_of_nat_32[of d]) (simp add: unat_word_of_nat_32 drop_bit_eq_div)
  then have "drop_bit 10 (word_of_nat d :: 32 word) = word_of_nat (d div 1024)" by (metis word_of_nat_unat_32)
  then have hi: "0xD800 + drop_bit 10 (word_of_nat d :: 32 word) = word_of_nat (0xD800 + d div 1024)" by simp
  have "unat (word_of_nat d AND 0x3FF :: 32 word) = d mod 1024"
    using and_mask_mod[of d 10] d by (simp add: unsigned_and_eq unat_word_of_nat_32)
  then have "(word_of_nat d AND 0x3FF :: 32 word) = word_of_nat (d mod 1024)" by (metis word_of_nat_unat_32)
  then have lo: "0xDC00 + (word_of_nat d AND 0x3FF :: 32 word) = word_of_nat (0xDC00 + d mod 1024)" by simp
  have b: "0xD800 + d div 1024 < 16 ^ 4" "0xDC00 + d mod 1024 < (16::nat) ^ 4" using d(1) by auto
  have n: "\<not> unat u < 0x10000" "unat u - 0x10000 = d" using False d by simp_all
  have "unat (0xD800 + drop_bit 10 (word_of_nat d :: 32 word)) = 0xD800 + d div 1024"
    "unat (0xDC00 + (word_of_nat d AND 0x3FF :: 32 word)) = 0xDC00 + d mod 1024"
    unfolding hi lo by (rule unat_word_of_nat_32; use b in simp)+
  then show ?thesis
    using b by (simp only: utf16Hex_def if_P[OF u] Let_def v) (simp add: utf16_hex_def utf16_units_def n hex_digits_fmt_X)
qed

lemma utf16Hex_text: "scalar (unat u) \<Longrightarrow> utf16beToUtf8 (utf16Hex u) = utf8Of (unat u)"
  using utf16beToUtf8_text[of "[unat u]"] by (simp add: utf16Hex_units)

lemma has_text_cong: "map_of m c = map_of m' c \<Longrightarrow> has_text m c = has_text m' c"
  by (simp add: has_text_def)

definition added_text :: "(nat \<Rightarrow> string option) \<Rightarrow> nat \<Rightarrow> code_map \<Rightarrow> 32 word \<Rightarrow> string option" where
  "added_text new n m c = (if unat c < n \<and> \<not> has_text m c then new (unat c) else None)"

lemma complete_map_Suc: "complete_map new (Suc n) m = complete_step new n (complete_map new n m)"
  by (simp add: complete_map_def)

lemma complete_map_value:
  assumes "n \<le> 2 ^ 32"
  shows "(\<forall>c. map_of (fst (complete_map new n m)) c = (case added_text new n m c of Some h \<Rightarrow> Some h | None \<Rightarrow> map_of m c)) \<and>
    (snd (complete_map new n m) = 0 \<longleftrightarrow> (\<forall>c. added_text new n m c = None))"
  using assms
proof (induction n)
  case 0
  show ?case by (simp add: complete_map_def added_text_def)
next
  case (Suc n)
  let ?st = "complete_map new n m" and ?w = "word_of_nat n :: 32 word"
  have n: "unat ?w = n" "n \<le> 2 ^ 32" using Suc.prems by (simp_all add: unat_word_of_nat_32)
  note IH = Suc.IH[OF n(2), THEN conjunct1, rule_format] Suc.IH[OF n(2), THEN conjunct2]
  have w: "unat c = n \<longleftrightarrow> c = ?w" for c using n by auto
  have at: "map_of (fst ?st) ?w = map_of m ?w" using IH(1)[of ?w] by (simp add: added_text_def n)
  have new: "added_text new (Suc n) m c = (if c = ?w then (if has_text m ?w then None else new n) else added_text new n m c)" for c
    using w[of c] n(1) by (auto simp: added_text_def less_Suc_eq)
  have old: "added_text new n m ?w = None" by (simp add: added_text_def n)
  have all: "(\<forall>c. added_text new (Suc n) m c = None) \<longleftrightarrow>
      (has_text m ?w \<or> new n = None) \<and> (\<forall>c. added_text new n m c = None)"
    unfolding new using old by metis
  have step: "complete_map new (Suc n) m =
      (if has_text m ?w then ?st else case new n of None \<Rightarrow> ?st | Some h \<Rightarrow> (code_put ?w h (fst ?st), snd ?st + 1))"
    by (simp add: complete_map_Suc complete_step_def has_text_cong[OF at])
  show ?case
  proof (intro conjI allI)
    fix c
    show "map_of (fst (complete_map new (Suc n) m)) c =
        (case added_text new (Suc n) m c of Some h \<Rightarrow> Some h | None \<Rightarrow> map_of m c)"
      using IH(1)[of c] at unfolding step new by (auto simp: map_of_code_put split: option.splits)
    show "snd (complete_map new (Suc n) m) = 0 \<longleftrightarrow> (\<forall>c. added_text new (Suc n) m c = None)"
      using IH(2) unfolding step all by (auto split: option.splits)
  qed
qed

definition new_texts_hex :: "(nat \<Rightarrow> string option) \<Rightarrow> bool" where
  "new_texts_hex new \<longleftrightarrow> (\<forall>c h. new c = Some h \<longrightarrow> h \<noteq> [] \<and> list_all is_xdigit h)"

lemma complete_map_ordered: "code_ordered m \<Longrightarrow> code_ordered (fst (complete_map new n m))"
  by (induction n) (auto simp: complete_map_def[of _ 0] complete_map_Suc complete_step_def code_ordered_put split: option.splits)

lemma complete_map_hex: "hex_map m \<Longrightarrow> new_texts_hex new \<Longrightarrow> hex_map (fst (complete_map new n m))"
  by (induction n)
    (auto simp: complete_map_def[of _ 0] complete_map_Suc complete_step_def hex_map_put new_texts_hex_def split: option.splits)

lemma simple_text_hex: "new_texts_hex (simple_text derive)"
  by (simp add: new_texts_hex_def simple_text_def utf16Hex_hex)

lemma cid_text_hex: "new_texts_hex (cid_text gidToUni glyphs mapData)"
  by (auto simp: new_texts_hex_def cid_text_def Let_def utf16Hex_hex split: if_splits)

lemma completed_map_reads:
  assumes "code_ordered es" "hex_map es" "new_texts_hex new" "n \<le> 2 ^ 32"
  shows "\<exists>fi'. parseToUnicode (Some (buildCMapStream (fst (complete_map new n es)) b)) fi = Some fi' \<and>
    (\<forall>c. fi_text fi' c = (case added_text new n es c of
        Some h \<Rightarrow> utf16beToUtf8 h
      | None \<Rightarrow> (case map_of es c of Some h \<Rightarrow> utf16beToUtf8 h | None \<Rightarrow> fi_text fi c)))"
proof -
  let ?m = "fst (complete_map new n es)"
  let ?fi = "fi\<lparr>fi_uni := fi_uni fi ++ (\<lambda>c. map_option utf16beToUtf8 (map_of ?m c))\<rparr>"
  have "parseToUnicode (Some (buildCMapStream ?m b)) fi = Some ?fi"
    by (rule written_map_reads[OF complete_map_ordered[OF assms(1)] complete_map_hex[OF assms(2,3)]])
  moreover have "fi_text ?fi c = (case added_text new n es c of
        Some h \<Rightarrow> utf16beToUtf8 h
      | None \<Rightarrow> (case map_of es c of Some h \<Rightarrow> utf16beToUtf8 h | None \<Rightarrow> fi_text fi c))" for c
    by (auto simp: fi_text_def map_add_def complete_map_value[OF assms(4)] split: option.splits)
  ultimately show ?thesis by blast
qed

lemma complete_map_complete:
  assumes "n \<le> 2 ^ 32" "new_texts_hex new" "\<And>c h. new c = Some h \<Longrightarrow> h \<noteq> ''0000''"
  shows "snd (complete_map new n (fst (complete_map new n m))) = 0"
proof -
  have "added_text new n (fst (complete_map new n m)) c = None" for c
  proof (cases "added_text new n m c")
    case None
    then have "has_text (fst (complete_map new n m)) c = has_text m c"
      by (intro has_text_cong) (simp add: complete_map_value[OF assms(1)])
    with None show ?thesis by (auto simp: added_text_def split: if_splits)
  next
    case (Some h)
    then have "new (unat c) = Some h" by (simp add: added_text_def split: if_splits)
    with assms(2,3) have "h \<noteq> [] \<and> h \<noteq> ''0000''" by (auto simp: new_texts_hex_def)
    with Some have "has_text (fst (complete_map new n m)) c" by (simp add: has_text_def complete_map_value[OF assms(1)])
    then show ?thesis by (simp add: added_text_def)
  qed
  then show ?thesis by (simp add: complete_map_value[OF assms(1)])
qed

lemma utf16Hex_zero: "utf16Hex u = ''0000'' \<Longrightarrow> u = 0"
proof (cases "u > 0xFFFF")
  case True
  assume z: "utf16Hex u = ''0000''"
  have "length (fmt_X 4 k) \<ge> 4" for k by (simp add: fmt_X_def)
  then have "length (utf16Hex u) \<ge> 4 + 4" using True unfolding utf16Hex_def Let_def by (simp only: if_True length_append add_mono)
  with z show ?thesis by simp
next
  case False
  assume "utf16Hex u = ''0000''"
  with False have "fmt_X 4 (unat u) = ''0000''" by (simp add: utf16Hex_def)
  then have "unat u = xdigits_val ''0000''" by (metis xdigits_val_fmt_X)
  then show ?thesis by (simp add: xdigits_val_def xdigit_val_def is_digit_def unat_eq_0)
qed

section \<open>Fonts after the conversion\<close>



text \<open>
  Completing is stable: a font whose map was completed keeps it when it is converted again,
  as long as no code stands for the character 0.
\<close>

theorem ensureSimpleToUnicode_stable:
  assumes "parseExistingToUnicode tu = Some es" "hex_map es"
    and "ensureSimpleToUnicode derive tu = Some (Some t)"
    and "\<forall>c. simple_uni c (derive c) \<noteq> 0"
  shows "ensureSimpleToUnicode derive (Some t) = Some None"
proof -
  let ?m = "fst (complete_map (simple_text derive) 256 es)"
  have t: "t = buildCMapStream ?m False"
    using assms(1,3) by (auto simp: ensureSimpleToUnicode_def split: prod.splits if_splits)
  have "parseExistingToUnicode (Some t) = Some ?m"
    unfolding t by (rule written_map_kept[OF complete_map_ordered complete_map_hex[OF assms(2) simple_text_hex]])
      (rule parseExistingToUnicode_ordered[OF assms(1)])
  moreover have "h \<noteq> ''0000''" if "simple_text derive c = Some h" for c h
    using that assms(4) utf16Hex_zero by (auto simp: simple_text_def)
  then have "snd (complete_map (simple_text derive) 256 ?m) = 0"
    by (intro complete_map_complete simple_text_hex) simp_all
  ultimately show ?thesis by (simp add: ensureSimpleToUnicode_def case_prod_beta)
qed

lemma ensureSimpleToUnicode_no_map:
  "ensureSimpleToUnicode derive None = Some (Some (buildCMapStream (fst (complete_map (simple_text derive) 256 [])) False))"
proof -
  have "parseExistingToUnicode None = Some []" by (simp add: parseExistingToUnicode_def)
  moreover have "added_text (simple_text derive) 256 [] 0 \<noteq> None" by (simp add: added_text_def simple_text_def has_text_def)
  then have "snd (complete_map (simple_text derive) 256 []) \<noteq> 0" using complete_map_value[of 256 "simple_text derive" "[]"] by auto
  ultimately show ?thesis by (simp add: ensureSimpleToUnicode_def case_prod_beta)
qed

lemma no_map_facts: "parseExistingToUnicode None = Some []" "hex_map []" "\<not> has_text [] c"
  by (simp_all add: parseExistingToUnicode_def hex_map_def has_text_def)


theorem ensureSimpleToUnicode_stable_witness:
  "\<exists>t. ensureSimpleToUnicode (\<lambda>_. 0x41) None = Some (Some t) \<and> ensureSimpleToUnicode (\<lambda>_. 0x41) (Some t) = Some None"
  using ensureSimpleToUnicode_stable[OF no_map_facts(1,2) ensureSimpleToUnicode_no_map, of "\<lambda>_. 0x41"]
  by (auto simp: ensureSimpleToUnicode_no_map simple_uni_def)

lemma sample_cid:
  "\<exists>t. ensureCidToUnicode [3 \<mapsto> 0x1D400] (Some 5) [] None = Some (Some t)"
proof -
  let ?new = "cid_text [3 \<mapsto> 0x1D400] (Some 5) []"
  have "added_text ?new 5 [] 3 \<noteq> None" by (simp add: added_text_def cid_text_def cid_glyph_def has_text_def)
  then have "snd (complete_map ?new 5 []) \<noteq> 0" using complete_map_value[of 5 ?new "[]"] by auto
  then show ?thesis by (simp add: ensureCidToUnicode_def no_map_facts num_cids_def case_prod_beta)
qed


section \<open>Ranges of the map of a font\<close>

definition range_hex :: "string \<Rightarrow> 32 word \<Rightarrow> string" where
  "range_hex dst k = (if length dst \<le> 4 then utf16Hex (strtoul_hex dst + k) else dst)"

lemma counted_range_value:
  assumes "hi < - 1"
  shows "\<exists>m'. counted_range dst lo hi c m = Some m' \<and>
    (\<forall>x. map_of m' x = (if c \<le> x \<and> x \<le> hi then Some (range_hex dst (x - lo)) else map_of m x))"
  using assms
proof (induction "unat hi + 1 - unat c" arbitrary: c m rule: less_induct)
  case less
  show ?case
  proof (cases "c \<le> hi")
    case True
    with less.prems have "c \<noteq> - 1" by auto
    then have "c + 1 \<noteq> 0" by (simp add: eq_neg_iff_add_eq_0)
    then have nw: "unat (c + 1) = unat c + 1" using unatSuc[of c] by (simp add: add.commute)
    have le: "unat c \<le> unat hi" using True by (simp add: word_le_nat_alt)
    then have "unat hi + 1 - unat (c + 1) < unat hi + 1 - unat c" by (simp add: nw)
    note IH = less.hyps[OF this less.prems, of "code_put c (range_hex dst (c - lo)) m"]
    have "c \<le> x \<and> x \<le> hi \<longleftrightarrow> x = c \<or> c + 1 \<le> x \<and> x \<le> hi" for x
      using nw le by (auto simp: word_le_nat_alt word_unat_eq_iff)
    with True IH show ?thesis by (subst counted_range.simps) (auto simp: map_of_code_put range_hex_def)
  next
    case False
    then have n: "(c \<le> x \<and> x \<le> hi) = False" for x by auto
    from False show ?thesis by (subst counted_range.simps) (simp only: n if_False, simp)
  qed
qed

text \<open>
  The reader of the converter counts up only one UTF-16 unit. In a range whose first text has more
  than four digits, such as a surrogate pair or a ligature, it gives every code the text of the
  first one, where the text extraction counts the last unit up.
\<close>

theorem long_ranges_not_counted:
  assumes "4 < length dst" "hi < - 1" "lo \<le> c" "c \<le> hi"
  shows "\<exists>m' m''. counted_range dst lo hi lo m = Some m' \<and> map_of m' c = Some dst \<and>
    uni_range_loop dst lo hi lo u = Some m'' \<and> m'' c = Some (range_text dst (unat (c - lo)))"
  using counted_range_value[OF assms(2), of dst lo lo m] assms by (auto simp: uni_range_loop_value range_hex_def)

lemma hex_digits_four: "hex_digits_upper 4 n = map hex_upper [n div 16 div 16 div 16 mod 16, n div 16 div 16 mod 16, n div 16 mod 16, n mod 16]"
proof -
  have "(4::nat) = Suc (Suc (Suc (Suc 0)))" by simp
  then show ?thesis by (simp only: hex_digits_upper.simps) simp
qed

theorem long_ranges_not_counted_witness:
  "\<exists>m' m''. counted_range ''D835DC00'' 1 3 1 [] = Some m' \<and> map_of m' 2 = Some ''D835DC00'' \<and>
    uni_range_loop ''D835DC00'' 1 3 1 Map.empty = Some m'' \<and> m'' 2 = Some (utf8Of 0x1D401)"
proof -
  have c: "chr 68 = CHR ''D''" "chr 56 = CHR ''8''" "chr 51 = CHR ''3''" "chr 53 = CHR ''5''" by (simp_all add: ord_eq_iff)
  have "range_text ''D835DC00'' 1 = utf16beToUtf8 (utf16_hex [0x1D401])"
    by (simp add: range_text_def utf16_hex_def utf16_units_def xdigits_val_def xdigit_val_def is_digit_def hex_digits_four hex_upper_def c)
  then have "range_text ''D835DC00'' 1 = utf8Of 0x1D401" using utf16beToUtf8_text[of "[0x1D401]"] by (simp add: scalar_def)
  with long_ranges_not_counted[of "''D835DC00''" 3 1 2 "[]" Map.empty] show ?thesis by simp
qed

end
