(* ===== verification/Unicode_Scrub.thy ===== *)
theory Unicode_Scrub
  imports To_Unicode
begin

text \<open>
  Forbidden characters in ToUnicode maps (\<^verbatim>\<open>scrubToUnicode\<close> of \<^verbatim>\<open>fonts.cpp\<close>): the destinations
  of the map lose the values that PDF/A forbids, U+0000, U+FEFF and U+FFFE, and for level A and
  PDF/UA those of the private-use area. The loop over the sections of the map keeps the text it has
  copied so far and the position up to which it has copied.
\<close>

section \<open>Removing forbidden characters\<close>

definition forbidden_unit :: "32 word \<Rightarrow> bool" where
  "forbidden_unit v \<longleftrightarrow> v = 0 \<or> v = 0xFEFF \<or> v = 0xFFFE"

definition pua_unit :: "32 word \<Rightarrow> bool" where
  "pua_unit v \<longleftrightarrow> v \<ge> 0xE000 \<and> v \<le> 0xF8FF"

definition pua_pair :: "32 word \<Rightarrow> 32 word \<Rightarrow> bool" where
  "pua_pair v lo \<longleftrightarrow>
     (let cp = 0x10000 + push_bit 10 (v - 0xD800) + (lo - 0xDC00)
      in (cp \<ge> 0xF0000 \<and> cp \<le> 0xFFFFD) \<or> (cp \<ge> 0x100000 \<and> cp \<le> 0x10FFFD))"

definition high_surrogate :: "32 word \<Rightarrow> bool" where
  "high_surrogate v \<longleftrightarrow> v \<ge> 0xD800 \<and> v \<le> 0xDBFF"

definition low_surrogate :: "32 word \<Rightarrow> bool" where
  "low_surrogate v \<longleftrightarrow> v \<ge> 0xDC00 \<and> v \<le> 0xDFFF"

text \<open>The four digits that replace a private-use unit.\<close>

definition pua_digits :: "32 word \<Rightarrow> string" where
  "pua_digits v =
     (let win = (if v AND 0xFF00 = 0xF000 then winAnsiToUnicode (uint (v AND 0xFF)) else 0)
      in fmt_X 4 (if win \<noteq> 0 then win else 0xFFFD))"

text \<open>The loop over the groups of four digits: the new digits and whether one was replaced.\<close>

function scrub_units :: "bool \<Rightarrow> string \<Rightarrow> string \<times> bool" where
  "scrub_units puaBanned hex =
     (if length hex < 4 then (hex, False)
      else
        let v = strtoul_hex (take 4 hex); lo = strtoul_hex (substr hex 4 4)
        in if puaBanned \<and> high_surrogate v \<and> length hex \<ge> 8 \<and> low_surrogate lo then
             (let r = scrub_units puaBanned (drop 8 hex)
              in if pua_pair v lo then (''FFFD'' @ fst r, True) else (take 8 hex @ fst r, snd r))
           else
             (let r = scrub_units puaBanned (drop 4 hex)
              in if forbidden_unit v then (''FFFD'' @ fst r, True)
                 else if puaBanned \<and> pua_unit v then (pua_digits v @ fst r, True)
                 else (take 4 hex @ fst r, snd r)))"
  by pat_completeness auto
termination
  by (relation "measure (\<lambda>(b, hex). length hex)") auto

declare scrub_units.simps [simp del]

text \<open>The digits of a destination and whether they changed; shorter ones are replaced at their length.\<close>

definition scrub_digits :: "bool \<Rightarrow> string \<Rightarrow> string \<times> bool" where
  "scrub_digits puaBanned hex =
     (if length hex < 4 \<and> hex \<noteq> [] then
        (if forbidden_unit (strtoul_hex hex) then (fmt_X (length hex) (0xFFFD mod 2 ^ (length hex * 4)), True) else (hex, False))
      else scrub_units puaBanned hex)"

record scrub =
  sc_out :: string
  sc_copied :: nat
  sc_changed :: bool

text \<open>\<^verbatim>\<open>out.append(text, copied, a - copied)\<close>\<close>

definition sc_append :: "string \<Rightarrow> nat \<Rightarrow> scrub \<Rightarrow> scrub" where
  "sc_append text a st = st\<lparr>sc_out := sc_out st @ substr text (sc_copied st) (a - sc_copied st)\<rparr>"

text \<open>\<^verbatim>\<open>scrubDst\<close>, or the token as it is.\<close>

definition scrubDst :: "bool \<Rightarrow> string \<Rightarrow> bool \<Rightarrow> nat \<Rightarrow> nat \<Rightarrow> scrub \<Rightarrow> scrub" where
  "scrubDst puaBanned text isDst a b st =
     (case scrub_digits puaBanned (substr text (a + 1) (b - a - 2)) of
        (hex, bad) \<Rightarrow>
          if isDst \<and> bad then st\<lparr>sc_out := sc_out st @ CHR ''<'' # hex @ ''>'', sc_changed := True\<rparr>
          else st\<lparr>sc_out := sc_out st @ substr text a (b - a)\<rparr>)"

text \<open>The brackets between two tokens, with the phase and whether an array is open.\<close>

fun gap_step :: "char \<Rightarrow> bool \<times> nat \<Rightarrow> bool \<times> nat" where
  "gap_step c (inArray, phase) =
     (let s = (if c = CHR ''['' then (True, phase) else (inArray, phase))
      in if c = CHR '']'' then (False, 0) else s)"

definition next_phase :: "bool \<Rightarrow> bool \<Rightarrow> nat \<Rightarrow> nat" where
  "next_phase ranges inArray phase =
     (if ranges then (if phase < 2 then phase + 1 else if \<not> inArray then 0 else phase)
      else (if phase = 0 then 1 else 0))"

function scrub_tokens :: "bool \<Rightarrow> string \<Rightarrow> nat \<Rightarrow> bool \<Rightarrow> nat \<Rightarrow> bool \<times> nat \<Rightarrow> scrub \<Rightarrow> scrub" where
  "scrub_tokens puaBanned text e ranges p ph st =
     (if p < e then
        case find_idx_from is_lt text p of
          None \<Rightarrow> st
        | Some a \<Rightarrow>
            if a \<ge> e then st
            else
              (case find_idx_from is_gt text (a + 1) of
                 None \<Rightarrow> st
               | Some b \<Rightarrow>
                   if b \<ge> e then st
                   else
                     (let (inArray, phase) = fold gap_step (substr text p (a - p)) ph;
                          isDst = (if ranges then phase = 2 else phase = 1);
                          st' = scrubDst puaBanned text isDst a (b + 1) (sc_append text a st)
                      in scrub_tokens puaBanned text e ranges (b + 1) (inArray, next_phase ranges inArray phase) (st'\<lparr>sc_copied := b + 1\<rparr>)))
      else st)"
  by pat_completeness auto
termination
  by (relation "measure (\<lambda>(u, text, e, ranges, p, ph, st). e - p)") (auto dest!: find_char_from)

declare scrub_tokens.simps [simp del]

text \<open>The next section and whether it is one of ranges.\<close>

definition next_section :: "string \<Rightarrow> nat \<Rightarrow> (nat \<times> bool) option" where
  "next_section text pos =
     (case (find_from ''beginbfchar'' text pos, find_from ''beginbfrange'' text pos) of
        (c1, Some r) \<Rightarrow> (case c1 of Some c \<Rightarrow> if r < c then Some (r, True) else Some (c, False) | None \<Rightarrow> Some (r, True))
      | (Some c, None) \<Rightarrow> Some (c, False)
      | (None, None) \<Rightarrow> None)"

lemma next_section_ge: "next_section text pos = Some (sec, ranges) \<Longrightarrow> pos \<le> sec \<and>
    take (length (if ranges then ''beginbfrange'' else ''beginbfchar'')) (drop sec text) = (if ranges then ''beginbfrange'' else ''beginbfchar'')"
  by (auto simp: next_section_def dest: find_from_Some(1,3) split: option.splits if_splits)

lemma section_end:
  assumes "next_section text pos = Some (sec, ranges)" "find_from (if ranges then ''endbfrange'' else ''endbfchar'') text sec = Some e"
  shows "pos < e \<and> e < length text"
proof -
  note s = next_section_ge[OF assms(1)] and f = find_from_Some(1-3)[OF assms(2)]
  have "e \<noteq> sec"
  proof
    assume "e = sec"
    with s f(3) show False by (cases "drop sec text") (auto split: if_splits)
  qed
  with s f show ?thesis by (auto split: if_splits)
qed

function scrub_sections :: "bool \<Rightarrow> string \<Rightarrow> nat \<Rightarrow> scrub \<Rightarrow> scrub" where
  "scrub_sections puaBanned text pos st =
     (if pos < length text then
        case next_section text pos of
          None \<Rightarrow> st
        | Some (sec, ranges) \<Rightarrow>
            (case find_from (if ranges then ''endbfrange'' else ''endbfchar'') text sec of
               None \<Rightarrow> st
             | Some e \<Rightarrow>
                 scrub_sections puaBanned text e
                   (scrub_tokens puaBanned text e ranges sec (False, 0) (sc_append text sec st)))
      else st)"
  by pat_completeness auto
termination
  by (relation "measure (\<lambda>(u, text, pos, st). length text - pos)") (auto dest!: section_end simp del: if_split)

declare scrub_sections.simps [simp del]

text \<open>\<open>None\<close> when the stream is left as it is; \<open>puaBanned\<close> for level A and PDF/UA.\<close>

definition scrubToUnicode :: "bool \<Rightarrow> string option \<Rightarrow> string option" where
  "scrubToUnicode puaBanned tu =
     (case tu of
        None \<Rightarrow> None
      | Some text \<Rightarrow>
          (let st = scrub_sections puaBanned text 0 \<lparr>sc_out = [], sc_copied = 0, sc_changed = False\<rparr>
           in if sc_changed st then Some (sc_out (sc_append text (length text) st)) else None))"

function quad_units :: "string \<Rightarrow> 32 word list" where
  "quad_units hex = (if length hex < 4 then [] else strtoul_hex (take 4 hex) # quad_units (drop 4 hex))"
  by pat_completeness auto
termination
  by (relation "measure length") auto

declare quad_units.simps [simp del]

definition unit_allowed :: "bool \<Rightarrow> 32 word \<Rightarrow> bool" where
  "unit_allowed puaBanned v \<longleftrightarrow> \<not> forbidden_unit v \<and> \<not> (puaBanned \<and> pua_unit v)"

lemma quad_units_append: "length q = 4 \<Longrightarrow> quad_units (q @ s) = strtoul_hex q # quad_units s"
  by (subst quad_units.simps) simp

lemma quad_units_FFFD: "quad_units (CHR ''F'' # CHR ''F'' # CHR ''F'' # CHR ''D'' # s) = strtoul_hex ''FFFD'' # quad_units s"
  using quad_units_append[of "''FFFD''" s] by simp

lemma winAnsi_values: "winAnsiToUnicode c < 0x2200"
proof -
  have "list_all (\<lambda>x. x < 0x2200) kWinAnsiHigh" by (simp add: kWinAnsiHigh_def)
  then have "n < 128 \<Longrightarrow> kWinAnsiHigh ! n < 0x2200" for n by (simp add: list_all_length table_lengths)
  then show ?thesis by (auto simp: winAnsiToUnicode_def asciiOr_def nat_less_iff)
qed

lemma fmt_X_4: "n < 0x10000 \<Longrightarrow> length (fmt_X 4 n) = 4 \<and> strtoul_hex (fmt_X 4 n) = word_of_nat n"
proof
  assume n: "n < 0x10000"
  then show "length (fmt_X 4 n) = 4" using length_hex_min[of n 3] by (simp add: fmt_X_def)
  show "strtoul_hex (fmt_X 4 n) = word_of_nat n"
    using n by (simp add: strtoul_hex_digits fmt_X_xdigits xdigits_val_fmt_X min_def)
qed

lemma pua_digits_allowed: "length (pua_digits v) = 4 \<and> unit_allowed b (strtoul_hex (pua_digits v))"
proof -
  define n where "n = (let win = (if v AND 0xFF00 = 0xF000 then winAnsiToUnicode (uint (v AND 0xFF)) else 0) in if win \<noteq> 0 then win else 0xFFFD)"
  have d: "pua_digits v = fmt_X 4 n" by (simp add: pua_digits_def n_def Let_def)
  have n: "n \<noteq> 0 \<and> n < 0x2200 \<or> n = 0xFFFD" using winAnsi_values[of "uint (v AND 0xFF)"] by (auto simp: n_def Let_def)
  then have "unat (word_of_nat n :: 32 word) = n" by (intro unat_word_of_nat_32) auto
  with n have "unit_allowed b (word_of_nat n)"
    by (auto simp: unit_allowed_def forbidden_unit_def pua_unit_def word_le_nat_alt word_unat_eq_iff)
  with n show ?thesis unfolding d using fmt_X_4[of n] by auto
qed

lemma FFFD_allowed: "unit_allowed b (strtoul_hex ''FFFD'')"
proof -
  have "strtoul_hex ''FFFD'' = 0xFFFD"
    by (simp add: strtoul_hex_digits is_xdigit_def is_digit_def xdigits_val_def xdigit_val_def)
  then show ?thesis by (simp add: unit_allowed_def forbidden_unit_def pua_unit_def)
qed

lemma surrogates_allowed: "high_surrogate v \<or> low_surrogate v \<Longrightarrow> unit_allowed b v"
  by (auto simp: high_surrogate_def low_surrogate_def unit_allowed_def forbidden_unit_def pua_unit_def word_le_nat_alt word_unat_eq_iff)

text \<open>
  After scrubbing no UTF-16 unit of a destination is U+0000, U+FEFF or U+FFFE, and, where
  private-use characters are banned, none is one of those.
\<close>

theorem scrub_units_allowed: "list_all (unit_allowed puaBanned) (quad_units (fst (scrub_units puaBanned hex)))"
proof (induction puaBanned hex rule: scrub_units.induct)
  case (1 b hex)
  show ?case
  proof (cases "length hex < 4")
    case True
    then show ?thesis by (simp add: scrub_units.simps[of b hex] quad_units.simps)
  next
    case False
    let ?v = "strtoul_hex (take 4 hex)" and ?lo = "strtoul_hex (substr hex 4 4)"
    have "length (take 4 hex) = 4" using False by simp
    note q = quad_units_append[OF this] quad_units_FFFD
    show ?thesis
    proof (cases "b \<and> high_surrogate ?v \<and> length hex \<ge> 8 \<and> low_surrogate ?lo")
      case True
      then have "8 \<le> length hex" by blast
      then have l8: "length (substr hex 4 4) = 4" by simp
      have "take 8 hex = take 4 hex @ substr hex 4 4" by (simp add: substr_def flip: take_add)
      then have "quad_units (take 8 hex @ s) = ?v # ?lo # quad_units s" for s by (simp add: q quad_units_append[OF l8])
      moreover have "unit_allowed b ?v" "unit_allowed b ?lo" using True surrogates_allowed by blast+
      ultimately show ?thesis
        using 1(1)[OF False refl refl True] True False FFFD_allowed
        by (subst scrub_units.simps) (auto simp: Let_def q)
    next
      case n: False
      note IH = 1(2)[OF False refl refl n]
      have "fst (scrub_units b hex) = (if forbidden_unit ?v then ''FFFD'' else if b \<and> pua_unit ?v then pua_digits ?v else take 4 hex) @
          fst (scrub_units b (drop 4 hex))"
        unfolding scrub_units.simps[of b hex] Let_def if_not_P[OF False] if_not_P[OF n] by simp
      moreover have "quad_units (pua_digits ?v @ s) = strtoul_hex (pua_digits ?v) # quad_units s" for s
        using pua_digits_allowed by (simp add: quad_units_append)
      ultimately show ?thesis
        using IH FFFD_allowed[of b] pua_digits_allowed[of ?v b] q by (auto simp: unit_allowed_def[of b ?v])
    qed
  qed
qed

definition doubled :: "string \<Rightarrow> nat \<Rightarrow> scrub \<Rightarrow> bool" where
  "doubled t sec st \<longleftrightarrow> (\<exists>rest. sc_out st = take sec t @ take sec t @ rest)"

definition at_start :: "string \<Rightarrow> nat \<Rightarrow> scrub \<Rightarrow> bool" where
  "at_start t sec st \<longleftrightarrow> sc_copied st = 0 \<and> sc_out st = take sec t"

lemma sc_append_doubled:
  assumes "at_start t sec st \<or> doubled t sec st" "sec \<le> a"
  shows "doubled t sec (sc_append t a st)"
proof (cases "at_start t sec st")
  case True
  have "take a t = take sec t @ drop sec (take a t)" using assms(2) by (metis append_take_drop_id min_absorb1 take_take)
  with True have "sc_out (sc_append t a st) = take sec t @ take sec t @ drop sec (take a t)"
    by (simp add: at_start_def sc_append_def substr_def)
  then show ?thesis by (auto simp: doubled_def)
qed (use assms(1) in \<open>auto simp: doubled_def sc_append_def\<close>)

lemma scrubDst_doubled: "doubled t sec st \<Longrightarrow> doubled t sec (scrubDst u t d a b st)"
  by (auto simp: doubled_def scrubDst_def split: prod.splits)

lemma scrub_tokens_cases:
  obtains (stop) "scrub_tokens u t e r p ph st = st"
  | (token) a b ph' d where "p < e" "find_idx_from is_lt t p = Some a" "\<not> a \<ge> e" "find_idx_from is_gt t (a + 1) = Some b" "\<not> b \<ge> e"
      "scrub_tokens u t e r p ph st =
        scrub_tokens u t e r (b + 1) ph' ((scrubDst u t d a (b + 1) (sc_append t a st))\<lparr>sc_copied := b + 1\<rparr>)"
proof (cases "\<exists>a b. p < e \<and> find_idx_from is_lt t p = Some a \<and> \<not> a \<ge> e \<and> find_idx_from is_gt t (a + 1) = Some b \<and> \<not> b \<ge> e")
  case True
  then obtain a b where ab: "p < e" "find_idx_from is_lt t p = Some a" "\<not> a \<ge> e" "find_idx_from is_gt t (a + 1) = Some b" "\<not> b \<ge> e" by blast
  obtain x y where xy: "fold gap_step (substr t p (a - p)) ph = (x, y)" by (cases "fold gap_step (substr t p (a - p)) ph")
  have "scrub_tokens u t e r p ph st = scrub_tokens u t e r (b + 1) (x, next_phase r x y)
      ((scrubDst u t (if r then y = 2 else y = 1) a (b + 1) (sc_append t a st))\<lparr>sc_copied := b + 1\<rparr>)"
    unfolding scrub_tokens.simps[of u t e r p ph st] using ab by (simp add: xy Let_def)
  with ab token show thesis by blast
next
  case False
  then have "scrub_tokens u t e r p ph st = st" by (subst scrub_tokens.simps) (auto split: option.splits)
  with stop show thesis .
qed

lemma doubled_copied: "doubled t sec (st\<lparr>sc_copied := n\<rparr>) = doubled t sec st"
  by (simp add: doubled_def)

lemma scrub_tokens_doubled:
  "at_start t sec st \<or> doubled t sec st \<Longrightarrow> sec \<le> p \<Longrightarrow>
    scrub_tokens u t e r p ph st = st \<or> doubled t sec (scrub_tokens u t e r p ph st)"
proof (induction "e - p" arbitrary: p ph st rule: less_induct)
  case less
  show ?case
  proof (cases rule: scrub_tokens_cases[of u t e r p ph st])
    case (token a b ph' d)
    have "p \<le> a \<and> a < b" using find_char_from[OF token(2)] find_char_from[OF token(4)] by simp
    then have b: "e - (b + 1) < e - p" "sec \<le> b + 1" "sec \<le> a" using token(1) less.prems(2) by auto
    let ?st = "(scrubDst u t d a (b + 1) (sc_append t a st))\<lparr>sc_copied := b + 1\<rparr>"
    have "doubled t sec ?st"
      unfolding doubled_copied by (rule scrubDst_doubled[OF sc_append_doubled[OF less.prems(1) b(3)]])
    with less.hyps[OF b(1) _ b(2), of ?st ph'] token(6) show ?thesis by auto
  qed simp
qed

lemma scrub_sections_doubled:
  "at_start t sec st \<or> doubled t sec st \<Longrightarrow> sec \<le> pos \<Longrightarrow>
    (at_start t sec (scrub_sections u t pos st) \<and> scrub_sections u t pos st = st) \<or> doubled t sec (scrub_sections u t pos st)"
proof (induction u t pos st rule: scrub_sections.induct)
  case (1 u t pos st)
  show ?case
  proof (cases "\<exists>s r e. pos < length t \<and> next_section t pos = Some (s, r) \<and> find_from (if r then ''endbfrange'' else ''endbfchar'') t s = Some e")
    case True
    then obtain s r e where s: "pos < length t" "next_section t pos = Some (s, r)"
      "find_from (if r then ''endbfrange'' else ''endbfchar'') t s = Some e" by blast
    let ?st = "scrub_tokens u t e r s (False, 0) (sc_append t s st)"
    have eq: "scrub_sections u t pos st = scrub_sections u t e ?st"
      unfolding scrub_sections.simps[of u t pos st] using s by (simp del: if_split)
    have ps: "sec \<le> s" "sec \<le> e" using next_section_ge[OF s(2)] section_end[OF s(2,3)] 1(3) by auto
    have "doubled t sec (sc_append t s st)" by (rule sc_append_doubled[OF 1(2) ps(1)])
    then have "doubled t sec ?st" using scrub_tokens_doubled[OF _ ps(1)] by metis
    with 1(1)[OF s(1,2) refl s(3) _ ps(2)] eq show ?thesis by (auto simp: at_start_def doubled_def)
  next
    case False
    then have "scrub_sections u t pos st = st" by (subst scrub_sections.simps) (auto split: option.splits)
    with 1(2) show ?thesis by auto
  qed
qed

text \<open>
  Replacing a forbidden character in a ToUnicode map writes what stands before the first section
  of the map twice, because that text is copied at the start of the section and again at its first
  token. The result is not the old map with the entry replaced.
\<close>

theorem scrub_doubles_start:
  assumes "scrubToUnicode puaBanned (Some t) = Some out" "next_section t 0 = Some (sec, ranges)"
  shows "\<exists>rest. out = take sec t @ take sec t @ rest"
proof -
  let ?ini = "\<lparr>sc_out = [], sc_copied = 0, sc_changed = False\<rparr>"
  let ?st = "scrub_sections puaBanned t 0 ?ini"
  have ch: "sc_changed ?st" and out: "out = sc_out (sc_append t (length t) ?st)"
    using assms(1) by (simp_all add: scrubToUnicode_def Let_def split: if_splits)
  have l: "0 < length t" using next_section_ge[OF assms(2)] by (cases t) (auto split: if_splits)
  have "find_from (if ranges then ''endbfrange'' else ''endbfchar'') t sec \<noteq> None"
  proof
    assume "find_from (if ranges then ''endbfrange'' else ''endbfchar'') t sec = None"
    then have "?st = ?ini" using l by (simp add: scrub_sections.simps[of puaBanned t 0] assms(2) del: if_split)
    with ch show False by simp
  qed
  then obtain e where e: "find_from (if ranges then ''endbfrange'' else ''endbfchar'') t sec = Some e" by blast
  let ?s = "sc_append t sec ?ini"
  let ?tok = "scrub_tokens puaBanned t e ranges sec (False, 0) ?s"
  have eq: "?st = scrub_sections puaBanned t e ?tok"
    unfolding scrub_sections.simps[of puaBanned t 0] using l by (simp del: if_split add: assms(2) e)
  have a: "at_start t sec ?s" by (simp add: at_start_def sc_append_def substr_def)
  then have "?tok = ?s \<or> doubled t sec ?tok" by (intro scrub_tokens_doubled) simp_all
  with a have s1: "at_start t sec ?tok \<or> doubled t sec ?tok" by (elim disjE) simp_all
  have se: "sec \<le> e" "sec \<le> length t" using find_from_Some(1,2)[OF e] by simp_all
  have "at_start t sec ?st \<or> doubled t sec ?st" unfolding eq using scrub_sections_doubled[OF s1 se(1)] by blast
  from sc_append_doubled[OF this se(2)] show ?thesis by (auto simp: out doubled_def)
qed

definition forbidden_map :: string where
  "forbidden_map = ''1 beginbfchar <01> <0000> endbfchar''"

lemma forbidden_finds:
  "next_section forbidden_map 0 = Some (2, False)" "find_from ''endbfchar'' forbidden_map 2 = Some 26" "next_section forbidden_map 26 = None"
  by (simp_all add: next_section_def find_from_def forbidden_map_def)

lemma forbidden_tokens:
  "find_idx_from is_lt forbidden_map 2 = Some 14" "find_idx_from is_gt forbidden_map 15 = Some 17"
  "find_idx_from is_lt forbidden_map 18 = Some 19" "find_idx_from is_gt forbidden_map 20 = Some 24"
  "find_idx_from is_lt forbidden_map 25 = None"
  by (simp_all add: find_idx_from_def forbidden_map_def is_lt_def is_gt_def)

lemma forbidden_digits: "scrub_digits False ''0000'' = (''FFFD'', True)" 
proof -
  have "strtoul_hex ''0000'' = 0" by (simp add: strtoul_hex_digits is_xdigit_def is_digit_def xdigits_val_def xdigit_val_def)
  then show ?thesis by (simp add: scrub_digits_def scrub_units.simps[of False "''0000''"] scrub_units.simps[of False "[]"] forbidden_unit_def)
qed

lemma forbidden_parts:
  "substr forbidden_map 0 14 = ''1 beginbfchar ''" "substr forbidden_map 2 12 = ''beginbfchar ''" "substr forbidden_map 14 4 = ''<01>''"
  "substr forbidden_map 18 1 = '' ''" "substr forbidden_map 20 4 = ''0000''" "substr forbidden_map 25 10 = '' endbfchar''" "length forbidden_map = 35"
  by (simp_all add: substr_def forbidden_map_def)

lemma forbidden_gap: "fold gap_step ''beginbfchar '' ph = ph" "fold gap_step '' '' ph = ph"
  by (cases ph; simp)+

theorem scrub_doubles_start_witness:
  "scrubToUnicode False (Some forbidden_map) = Some ''1 1 beginbfchar <01> <FFFD> endbfchar'' \<and>
   (\<exists>rest. ''1 1 beginbfchar <01> <FFFD> endbfchar'' = take 2 forbidden_map @ take 2 forbidden_map @ rest)"
proof
  let ?ini = "\<lparr>sc_out = [], sc_copied = 0, sc_changed = False\<rparr>"
  let ?s = "sc_append forbidden_map 2 ?ini"
  have s: "?s = \<lparr>sc_out = ''1 '', sc_copied = 0, sc_changed = False\<rparr>" by (simp add: sc_append_def substr_def forbidden_map_def)
  have t3: "scrub_tokens False forbidden_map 26 False 25 (False, 0) st = st" for st
    by (subst scrub_tokens.simps) (simp add: forbidden_tokens)
  have t2: "scrub_tokens False forbidden_map 26 False 18 (False, 1) \<lparr>sc_out = out, sc_copied = 18, sc_changed = False\<rparr> =
      \<lparr>sc_out = out @ '' <FFFD>'', sc_copied = 25, sc_changed = True\<rparr>" for out
    by (subst scrub_tokens.simps)
      (simp add: forbidden_tokens forbidden_parts[simplified] forbidden_gap[simplified] sc_append_def scrubDst_def forbidden_digits next_phase_def t3)
  have t1: "scrub_tokens False forbidden_map 26 False 2 (False, 0) ?s =
      \<lparr>sc_out = ''1 1 beginbfchar <01> <FFFD>'', sc_copied = 25, sc_changed = True\<rparr>"
    unfolding s
    by (subst scrub_tokens.simps)
      (simp add: forbidden_tokens forbidden_parts forbidden_gap sc_append_def scrubDst_def next_phase_def t2[simplified] split: prod.splits)
  have "scrub_sections False forbidden_map 26 st = st" for st
    by (subst scrub_sections.simps) (simp add: forbidden_finds)
  then have "scrub_sections False forbidden_map 0 ?ini = \<lparr>sc_out = ''1 1 beginbfchar <01> <FFFD>'', sc_copied = 25, sc_changed = True\<rparr>"
    using t1 by (subst scrub_sections.simps) (simp add: forbidden_finds forbidden_parts)
  then show r: "scrubToUnicode False (Some forbidden_map) = Some ''1 1 beginbfchar <01> <FFFD> endbfchar''"
    by (simp add: scrubToUnicode_def sc_append_def forbidden_parts)
  show "\<exists>rest. ''1 1 beginbfchar <01> <FFFD> endbfchar'' = take 2 forbidden_map @ take 2 forbidden_map @ rest"
    by (rule scrub_doubles_start[OF r forbidden_finds(1)])
qed

end
