(* ===== verification/Spec2Isabelle.thy ===== *)
theory Spec2Isabelle
  imports Utf8 Page_Ranges Levels EInvoice Signature Engine Json Profile_Vars Jobs Functions Jpx Barcode Limits Packet_Check Fix_Plan Marking Unicode_Scrub
begin

text \<open>
  Verification of the Kura engine (\<^verbatim>\<open>src/pdfa-engine/core\<close>). Kura reads a PDF, runs a fixed
  sequence of passes over it and writes a file that claims one of the PDF/A, PDF/X, PDF/E or
  PDF/VT levels, or checks a file against such a level. All source names below are under
  \<^verbatim>\<open>src/pdfa-engine/core/src\<close> unless a directory is given.

  \<^bold>\<open>The parts and how they interact.\<close> A job (\<^verbatim>\<open>convert\<close> in \<^verbatim>\<open>jobs.cpp\<close>) carries options
  and possibly a profile in JSON. A profile with a plan is a small program of steps with jumps;
  every step, and a job without a plan, is a prepared run: the variables of the profile are
  resolved and substituted, the target level is read from it, one conversion is made and, where
  the profile asks for it, repeated with other settings. A conversion (\<^verbatim>\<open>convertOnce\<close> in
  \<^verbatim>\<open>engine.cpp\<close>) opens the file through QPDF, runs the passes, each of which may report issues
  or a fatal error in the shared context, serializes and signs. The passes call the smaller
  components: the content stream filter, PDF functions, JPEG 2000 data, barcodes, page lists,
  UTF-8, the text maps of fonts and invoices. A profile is also a preflight: its checks are read against a registry,
  evaluated on the facts of the document and reported, and the pages they hit decide where its
  fixes run.

  \<^bold>\<open>The theories.\<close>
  \<^item> \<open>Prelude\<close>: bytes as \<open>string\<close>, the C and C++ string operations (\<open>substr\<close>, \<open>find_at\<close>,
    \<open>contains\<close>, \<open>isspace\<close>, \<open>tolower\<close>, \<open>strtol\<close>) and generic lemmas.
  \<^item> \<open>Double\<close>: the IEEE double with its rounding, comparisons, \<open>strtod\<close> and decimal output.
  \<^item> \<open>Qpdf\<close>: the operations of the PDF library that the modelled code calls, as a record of
    functions over documents and object handles.
  \<^item> \<open>Utf8\<close> (\<^verbatim>\<open>util.hh\<close>, \<^verbatim>\<open>textextract.cpp\<close>): \<open>validUtf8\<close> accepts exactly the encodings
    of Unicode scalar values, and \<open>stripPuaUtf8\<close> drops exactly the private-use ones.
  \<^item> \<open>Page_Ranges\<close> (\<^verbatim>\<open>util.hh\<close>, \<^verbatim>\<open>jobs.cpp\<close>): the printed list of pages selects those pages
    in both readers; what the readers share is the locale \<open>part_test\<close>.
  \<^item> \<open>Levels\<close> (\<^verbatim>\<open>engine.cpp\<close>, \<^verbatim>\<open>ctx.hh\<close>, \<^verbatim>\<open>include/pdfa/pdfa.hh\<close>): the level table, the
    options, issues and results, and the context \<open>Ctx\<close> with its predicates; names read back.
  \<^item> \<open>Engine\<close> (\<^verbatim>\<open>engine.cpp\<close>): \<open>convertOnce\<close> with all its exits. The passes, the library and
    the writer are the record \<open>engine\<close>. A result is a success exactly when it has no error code and
    only then has a file; after the early stages nothing runs after a failure; a check calls none of
    the code that writes; the verdict of a check is that every issue found is a normalization. The locale \<open>stage_relation\<close> carries a
    relation between contexts through the stages.
  \<^item> \<open>Signature\<close> (\<^verbatim>\<open>sign.cpp\<close>): \<open>applySignature\<close> signs all bytes outside the placeholder.
  \<^item> \<open>EInvoice\<close> (\<^verbatim>\<open>einvoice.cpp\<close>, \<^verbatim>\<open>einvoice_read.cpp\<close>, \<^verbatim>\<open>einvoice_check.cpp\<close>): detection,
    reading and the consistency check of invoices; detection prescribes names the reader knows.
  \<^item> \<open>Json\<close> (\<^verbatim>\<open>profile_types.hh\<close>, \<^verbatim>\<open>profile_parse.cpp\<close>, \<^verbatim>\<open>profile_vars.cpp\<close>): the reader
    returns on every text, the writer is read back. The locale \<open>value_reader\<close> is the contract of
    the reader of nested values.
  \<^item> \<open>Profile_Vars\<close> (\<^verbatim>\<open>profile_vars.cpp\<close>): declaration, resolution and substitution.
  \<^item> \<open>Jobs\<close> (\<^verbatim>\<open>jobs.cpp\<close>): prepared runs and the plan machine. The locale \<open>result_contract\<close>
    carries a property of results from conversions through fallbacks and plans; it is interpreted
    for consistent results and for checks without a file. \<open>plan_run\<close> is the step relation of the
    machine, by which the invariant of a plan reaches its result.
  \<^item> \<open>Calculator\<close> and \<open>Functions\<close> (\<^verbatim>\<open>pdffunc.cpp\<close>): the compiler and stack machine of
    calculator functions, which compute what the tree of the program text says, and the loading and
    computing of all kinds of functions with the bounds of their tables and results.
  \<^item> \<open>Jpx\<close> (\<^verbatim>\<open>jpx.cpp\<close>): removal of tile-part length segments, when it returns and on which
    file it does not, and the box scan of the PDF/A check. \<open>box_at\<close> are the boxes the walk meets.
  \<^item> \<open>Barcode\<close> (\<^verbatim>\<open>barcode.cpp\<close>): Code 128 and EAN-13, with readers that get the text back
    and judge the check value by the standard.
  \<^item> \<open>Limits\<close> (\<^verbatim>\<open>limits.cpp\<close>): the token filter of content streams with its inline images and
    LZW decoder. The locale \<open>token_counter\<close> counts nesting in what the filter writes; it is
    interpreted for graphics states, arrays and dictionaries.
  \<^item> \<open>Xml\<close> and \<open>Xmp\<close> (\<^verbatim>\<open>profile_xmpcheck.cpp\<close>): the XML reader with namespaces and
    references, the properties of a packet, the tables of value types and predefined properties,
    the PDF/A check and the comparison with the document information. A written tree of tags is
    read back; the locale \<open>element_reader\<close> is the contract of the reader of nested elements.
  \<^item> \<open>Dates\<close> (\<^verbatim>\<open>xmp.cpp\<close>): the reader of dates, the two forms they are written in and the
    comparison of the two, which fails for negative zones.
  \<^item> \<open>Metadata\<close>, \<open>Packet\<close>, \<open>Packet_Read\<close> and \<open>Packet_Check\<close> (\<^verbatim>\<open>xmp.cpp\<close>): the metadata
    pass. \<open>collectInfo\<close> gives the data and what becomes of \<^verbatim>\<open>/Info\<close>, \<open>metadata_packet\<close> is
    the text of the XMP packet, which reads back as the properties that were meant and passes the
    PDF/A check at every level; for PDF/A-1 it is said when the information agrees with it.
  \<^item> \<open>Text_Map\<close>: \<^verbatim>\<open>std::map\<close> with text keys as an association list.
  \<^item> \<open>Registry\<close> (\<^verbatim>\<open>check_registry.cpp\<close>): the conditions of checks and the parameters of fixes
    are completed and judged against the registry; quantities and paper sizes are read; \<open>compare\<close>
    counts the hits of a value. Negation is complement.
  \<^item> \<open>Profile_Reader\<close> (\<^verbatim>\<open>profile_parse.cpp\<close>): the reader of profiles with all its error
    messages. It always answers, and what it accepts is well formed; which checks a fix may name.
  \<^item> \<open>Preflight\<close> (\<^verbatim>\<open>profile.cpp\<close>, \<^verbatim>\<open>profile_spatial.cpp\<close>): the run of a profile. A rule
    hits an object exactly when its conditions do; counts stay within the limits and are those of
    the pages; silent rules report nothing but are recorded; a comparison with a leading blank is
    misread.
  \<^item> \<open>Fix_Plan\<close> (\<^verbatim>\<open>profile.cpp\<close>, \<^verbatim>\<open>profile_fixups.cpp\<close>): scheduling and running fixes. From
    the text of a profile and the hits of its checks, each fix runs in its order on exactly the
    pages it is limited to; fixes that only set options ignore their limits.
  \<^item> \<open>Marking\<close> (\<^verbatim>\<open>tagging.cpp\<close>, \<^verbatim>\<open>semantics.cpp\<close>, \<^verbatim>\<open>profile_fixups.cpp\<close>): the token
    filters that strip tags, set tags, mark artifacts and remove layers. Tagging writes well-formed
    marked content and keeps the rest; stripping never joins tokens; after marking artifacts nothing
    is shown unmarked in a stream without clipping paths and inline images; inline images are broken
    by it, and removing layers joins words.
  \<^item> \<open>Text_Extract\<close> (\<^verbatim>\<open>encodings.cpp\<close>, \<^verbatim>\<open>textextract.cpp\<close>): the encodings of simple fonts and
    the reader of ToUnicode maps; UTF-16 becomes the same characters in UTF-8, and when reading a
    map returns. The upper half of StandardEncoding is read 32 codes off.
  \<^item> \<open>To_Unicode\<close> (\<^verbatim>\<open>fonts.cpp\<close>): the ToUnicode maps of converted fonts are read, completed and
    written; text extraction finds for each code the text of the old map or the new character. The
    locale \<open>block_reader\<close> is what the two readers of a written map share.
  \<^item> \<open>Unicode_Scrub\<close> (\<^verbatim>\<open>fonts.cpp\<close>): forbidden characters are taken out of a map; what stands
    before a section is then written twice.

  \<^bold>\<open>State, errors and machine arithmetic.\<close> Operations that change the context, the plan or the
  filter take and return a record. An exception is a value: \<open>catch_exn\<close> of \<open>Engine\<close> has a branch
  for each handler of the code. Undefined behaviour of the stack machine and of the sample table
  is an explicit outcome, so that its absence is a theorem with the hypotheses it needs. Box
  positions are \<open>64 word\<close>s and the codes of fonts \<open>32 word\<close>s, because they wrap there; the hash
  of names is a \<open>32 word\<close>;
  elsewhere numbers are \<open>nat\<close> or \<open>int\<close>, below sizes that memory allows.

  \<^bold>\<open>Bounds and fuel.\<close> Where the code has a bound the model has the same one: 64 levels of JSON,
  256 rounds of a plan, 200,000 instructions and 64 levels of a calculator program, 17 levels of
  functions, 4 levels of JPEG 2000 boxes, 5,000,000 objects and 500 levels of the nesting check
  of the engine, 65 levels of a name tree, 201 levels of XML, 17 levels of value types and 9 above
  the RDF element. Loops over a text use the length of the text as the
  bound of the recursion or a termination proof; the theorems on totality of the readers and of
  the calculator compiler show that these bounds are never the reason for an answer, for XML
  against the same loops without a bound (\<open>document_loop\<close>). The box search of \<open>Jpx\<close> and the
  ranges of \<open>Text_Extract\<close> and \<open>To_Unicode\<close> are \<open>partial_function\<close>s, since they need not return.

  \<^bold>\<open>Parameters.\<close> QPDF, the passes of the engine, the script engine of profile variables, the
  functions of the mathematical library and conversions out of range, the decoder OpenJPEG, the
  library ZXing, flate compression, the characters FreeType finds in a font and what reading a null
  input gives; for the preflight the generated registry tables,
  \<^verbatim>\<open>std::regex\<close>, the evaluators of the checks, the facts of the document, the forms of its
  pages, the lookup of ICC profiles and the fixes. Every theorem holds for all of them, or names what it
  relies on as a hypothesis.

  \<^bold>\<open>Not modelled.\<close> The bodies of the passes (fonts, colour, images, pages, transparency, tagging,
  sanitizing, limits of objects) but for the metadata pass and the text maps of fonts, the collection of the facts for a preflight and the
  single checks and fixes: they
  edit the object graph of QPDF and call FreeType, LittleCMS, libjpeg, libxml2 and PDFium, and only their
  effect on the context and the result enters the engine. The tables under
  \<^verbatim>\<open>core/assets\<close> are generated data. The command line, the C and WebAssembly interfaces and
  the server do input and output around \<open>convert\<close>.
\<close>

end
